(* ===== verification/Prelude.thy ===== *)
theory Prelude
  imports Main "HOL-Library.List_Lexorder" "HOL-Library.Char_ord"
begin

text \<open>
  What every component shares: the types of identifiers and times, failures as values,
  sequencing of handlers over an explicit state, database tables as lists of rows, and
  the locales for the contracts that several components meet (an invariant that every
  operation keeps, a cached counter that agrees with the rows it counts).

  A handler of the services takes the state \<open>w\<close> and returns an outcome: the failure it
  throws or its result, together with the state it leaves behind. The state comes back in
  both cases because a handler that throws late keeps the writes it made before; only a
  \<open>$transaction\<close> undoes them.
\<close>

section \<open>Identifiers, times, failures\<close>

type_synonym uid = string
type_synonym time = int \<comment> \<open>milliseconds since the epoch, as \<open>Date.getTime()\<close>\<close>

datatype http_exception =
    BadRequest | Unauthorized | Forbidden | NotFound | Conflict
  | TooManyRequests | ServiceUnavailable

datatype detail = DText string | DNum int | DFlag bool

text \<open>
  \<open>Http\<close> carries what the code passes to the exception: \<open>error\<close>, \<open>code\<close> and the
  remaining fields of the object. The other constructors are the errors that the
  database client raises by itself (P2002, P2003, P2025) and a plain \<open>Error\<close>.
\<close>

datatype failure =
    Http http_exception string "nat option" "(string \<times> detail) list"
  | UniqueViolation
  | ForeignKeyViolation
  | RecordNotFound
  | PlainError string

text \<open>\<open>ErrorCodes\<close> of the shared package.\<close>

definition VALIDATION_FAILED :: nat where "VALIDATION_FAILED = 4000"
definition UNAUTHORIZED :: nat where "UNAUTHORIZED = 4010"
definition INVALID_CREDENTIALS :: nat where "INVALID_CREDENTIALS = 4011"
definition TOKEN_INVALID :: nat where "TOKEN_INVALID = 4013"
definition FORBIDDEN :: nat where "FORBIDDEN = 4030"
definition BLOCKED :: nat where "BLOCKED = 4031"
definition NOT_FOUND :: nat where "NOT_FOUND = 4040"
definition CONFLICT :: nat where "CONFLICT = 4090"
definition USER_EXISTS :: nat where "USER_EXISTS = 4091"
definition RATE_LIMITED :: nat where "RATE_LIMITED = 4290"

named_theorems codes \<open>the numeric error codes\<close>

lemmas [codes] =
  VALIDATION_FAILED_def UNAUTHORIZED_def INVALID_CREDENTIALS_def TOKEN_INVALID_def
  FORBIDDEN_def BLOCKED_def NOT_FOUND_def CONFLICT_def USER_EXISTS_def RATE_LIMITED_def

section \<open>Outcomes and their sequencing\<close>

type_synonym ('a, 'w) outcome = "(failure + 'a) \<times> 'w"

definition raise :: "failure \<Rightarrow> 'w \<Rightarrow> ('a, 'w) outcome" where
  "raise e w = (Inl e, w)"

definition ret :: "'a \<Rightarrow> 'w \<Rightarrow> ('a, 'w) outcome" where
  "ret x w = (Inr x, w)"

definition throwHttp :: "http_exception \<Rightarrow> string \<Rightarrow> nat \<Rightarrow> 'w \<Rightarrow> ('a, 'w) outcome" where
  "throwHttp ex msg code w = raise (Http ex msg (Some code) []) w"

fun and_then ::
  "('a, 'w) outcome \<Rightarrow> ('a \<Rightarrow> 'w \<Rightarrow> ('b, 'w) outcome) \<Rightarrow> ('b, 'w) outcome" where
  "and_then (Inl e, w) f = (Inl e, w)"
| "and_then (Inr x, w) f = f x w"

text \<open>\<open>prisma.$transaction(async (tx) => ...)\<close>: a throw inside undoes the writes.\<close>

definition transaction :: "('w \<Rightarrow> ('a, 'w) outcome) \<Rightarrow> 'w \<Rightarrow> ('a, 'w) outcome" where
  "transaction body w = (case body w of (Inl e, w') \<Rightarrow> (Inl e, w) | (Inr x, w') \<Rightarrow> (Inr x, w'))"

text \<open>A write that fails with \<open>e\<close> or leaves a new table, stored in the state by \<open>put\<close>.\<close>

definition write_or :: "failure \<Rightarrow> 't option \<Rightarrow> ('t \<Rightarrow> 'w) \<Rightarrow> 'w \<Rightarrow> (unit, 'w) outcome" where
  "write_or e t put w = (case t of None \<Rightarrow> raise e w | Some t' \<Rightarrow> ret () (put t'))"

text \<open>\<open>for (const x of xs) await body(x)\<close>: the first throw ends the loop.\<close>

fun for_each :: "('x \<Rightarrow> 's \<Rightarrow> 'w \<Rightarrow> ('s, 'w) outcome) \<Rightarrow> 'x list \<Rightarrow> 's \<Rightarrow> 'w \<Rightarrow> ('s, 'w) outcome" where
  "for_each body [] acc w = ret acc w"
| "for_each body (x # xs) acc w = and_then (body x acc w) (\<lambda>acc' w'. for_each body xs acc' w')"

named_theorems outcome \<open>unfolding of the outcome combinators\<close>

lemmas [outcome] = raise_def ret_def throwHttp_def write_or_def transaction_def

lemma and_then_split:
  "P (and_then r f) \<longleftrightarrow>
     (\<forall>e w. r = (Inl e, w) \<longrightarrow> P (Inl e, w)) \<and> (\<forall>x w. r = (Inr x, w) \<longrightarrow> P (f x w))"
  by (cases "(r, f)" rule: and_then.cases) auto

lemma and_then_split_asm:
  "P (and_then r f) \<longleftrightarrow>
     \<not> ((\<exists>e w. r = (Inl e, w) \<and> \<not> P (Inl e, w)) \<or> (\<exists>x w. r = (Inr x, w) \<and> \<not> P (f x w)))"
  by (cases "(r, f)" rule: and_then.cases) auto

lemmas and_then_splits = and_then_split and_then_split_asm

lemma and_then_raise [simp]: "and_then (raise e w) f = raise e w"
  by (simp add: raise_def)

lemma and_then_ret [simp]: "and_then (ret x w) f = f x w"
  by (simp add: ret_def)

lemma snd_ret [simp]: "snd (ret x w) = w" and fst_ret [simp]: "fst (ret x w) = Inr x"
  by (simp_all add: ret_def)

lemma snd_raise [simp]: "snd (raise e w) = w" and fst_raise [simp]: "fst (raise e w) = Inl e"
  by (simp_all add: raise_def)

lemma snd_throwHttp [simp]: "snd (throwHttp ex m c w) = w"
  and fst_throwHttp [simp]: "fst (throwHttp ex m c w) = Inl (Http ex m (Some c) [])"
  by (simp_all add: throwHttp_def)

lemma and_then_throwHttp [simp]: "and_then (throwHttp ex m c w) f = throwHttp ex m c w"
  by (simp add: throwHttp_def)

lemma snd_and_then_ret [simp]: "snd (and_then r (\<lambda>x w. ret (g x w) w)) = snd r"
  by (cases r; cases "fst r") auto

lemma and_then_Inr_iff:
  "and_then r f = (Inr y, w') \<longleftrightarrow> (\<exists>x w. r = (Inr x, w) \<and> f x w = (Inr y, w'))"
  by (cases "(r, f)" rule: and_then.cases) auto

text \<open>How a sample run that has been evaluated is put to use.\<close>

lemma ran_ok: "(case fst r of Inl e \<Rightarrow> False | Inr x \<Rightarrow> P x) \<Longrightarrow> \<exists>x w'. r = (Inr x, w') \<and> P x"
  by (cases r) (auto split: sum.splits)

lemma map_singleton: "map f xs = [y] \<Longrightarrow> \<exists>x. x \<in> set xs \<and> f x = y"
  by auto

text \<open>
  An invariant goes through a sequence when both halves keep it: the rule that carries
  every preservation proof of the components.
\<close>

lemma inv_and_then:
  assumes "P (snd r)" and "\<And>x. fst r = Inr x \<Longrightarrow> P (snd r) \<Longrightarrow> P (snd (f x (snd r)))"
  shows "P (snd (and_then r f))"
  using assms by (cases "(r, f)" rule: and_then.cases) auto

lemma inv_transaction:
  assumes "P w" and "P (snd (body w))"
  shows "P (snd (transaction body w))"
  using assms by (auto simp: transaction_def split: prod.splits sum.splits)

lemma transaction_failed: "fst (transaction body w) = Inl e \<Longrightarrow> snd (transaction body w) = w"
  by (auto simp: transaction_def split: prod.splits sum.splits)

lemma transaction_success: "transaction body w = (Inr x, w') \<Longrightarrow> body w = (Inr x, w')"
  by (auto simp: transaction_def split: prod.splits sum.splits)

text \<open>A postcondition of a sequence whose first part keeps a view of the state.\<close>

lemma post_and_then:
  assumes "Q (snd r)" and "\<And>x. fst r = Inr x \<Longrightarrow> Q (snd (f x (snd r)))"
  shows "Q (snd (and_then r f))"
  using assms by (cases "(r, f)" rule: and_then.cases) auto

lemma transaction_Inr: "fst (body w) = Inr x \<Longrightarrow> transaction body w = body w"
  by (cases "body w") (auto simp: transaction_def)

lemma inv_for_each:
  assumes "P w" and "\<And>x acc w. x \<in> set xs \<Longrightarrow> P w \<Longrightarrow> P (snd (body x acc w))"
  shows "P (snd (for_each body xs acc w))"
  using assms
proof (induction xs arbitrary: acc w)
  case Nil
  then show ?case by simp
next
  case (Cons x xs)
  have "P (snd (body x acc w))" using Cons.prems by simp
  moreover have "P (snd (for_each body xs a v))" if "P v" for a v
    using that Cons.prems(2) by (intro Cons.IH) simp_all
  ultimately show ?case unfolding for_each.simps by (rule inv_and_then)
qed

section \<open>Tables\<close>

text \<open>
  A table is the list of its rows, in insertion order; \<open>key\<close> reads the columns of a
  primary key or unique index. The operations are the ones the services issue:
  \<open>findUnique\<close>, \<open>create\<close> (fails on a duplicate key), \<open>update\<close> and \<open>delete\<close> by key (fail
  when there is no row), \<open>upsert\<close>, \<open>updateMany\<close>, \<open>deleteMany\<close> and \<open>count\<close>.
\<close>

definition findUnique :: "('r \<Rightarrow> 'k) \<Rightarrow> 'k \<Rightarrow> 'r list \<Rightarrow> 'r option" where
  "findUnique key k t = find (\<lambda>r. key r = k) t"

definition createRow :: "('r \<Rightarrow> 'k) \<Rightarrow> 'r \<Rightarrow> 'r list \<Rightarrow> 'r list option" where
  "createRow key r t = (if key r \<in> key ` set t then None else Some (t @ [r]))"

definition updateMany :: "('r \<Rightarrow> bool) \<Rightarrow> ('r \<Rightarrow> 'r) \<Rightarrow> 'r list \<Rightarrow> 'r list" where
  "updateMany P f t = map (\<lambda>r. if P r then f r else r) t"

definition updateRow :: "('r \<Rightarrow> 'k) \<Rightarrow> 'k \<Rightarrow> ('r \<Rightarrow> 'r) \<Rightarrow> 'r list \<Rightarrow> 'r list option" where
  "updateRow key k f t =
     (if k \<in> key ` set t then Some (updateMany (\<lambda>r. key r = k) f t) else None)"

definition deleteMany :: "('r \<Rightarrow> bool) \<Rightarrow> 'r list \<Rightarrow> 'r list" where
  "deleteMany P t = filter (\<lambda>r. \<not> P r) t"

definition deleteRow :: "('r \<Rightarrow> 'k) \<Rightarrow> 'k \<Rightarrow> 'r list \<Rightarrow> 'r list option" where
  "deleteRow key k t =
     (if k \<in> key ` set t then Some (deleteMany (\<lambda>r. key r = k) t) else None)"

definition upsertRow :: "('r \<Rightarrow> 'k) \<Rightarrow> 'k \<Rightarrow> 'r \<Rightarrow> ('r \<Rightarrow> 'r) \<Rightarrow> 'r list \<Rightarrow> 'r list" where
  "upsertRow key k new f t =
     (if k \<in> key ` set t then updateMany (\<lambda>r. key r = k) f t else t @ [new])"

definition countRows :: "('r \<Rightarrow> bool) \<Rightarrow> 'r list \<Rightarrow> nat" where
  "countRows P t = length (filter P t)"

abbreviation unique :: "('r \<Rightarrow> 'k) \<Rightarrow> 'r list \<Rightarrow> bool" where
  "unique key t \<equiv> distinct (map key t)"

named_theorems tables \<open>the table operations, unfolded\<close>

lemmas [tables] = createRow_def updateRow_def deleteRow_def

subsection \<open>Lookups\<close>

lemma findUnique_Some: "findUnique key k t = Some r \<Longrightarrow> r \<in> set t \<and> key r = k"
  by (auto simp: findUnique_def find_Some_iff)

lemma findUnique_None: "findUnique key k t = None \<longleftrightarrow> k \<notin> key ` set t"
  by (auto simp: findUnique_def find_None_iff)

lemma findUnique_iff:
  "unique key t \<Longrightarrow> findUnique key k t = Some r \<longleftrightarrow> r \<in> set t \<and> key r = k"
proof (induction t)
  case Nil
  then show ?case by (simp add: findUnique_def)
next
  case (Cons a t)
  then show ?case by (auto simp: findUnique_def)
qed

lemma unique_row: "unique key t \<Longrightarrow> r \<in> set t \<Longrightarrow> s \<in> set t \<Longrightarrow> key r = key s \<Longrightarrow> r = s"
  by (auto simp: distinct_map inj_on_def)

lemma find_row: "find P t = Some r \<Longrightarrow> r \<in> set t \<and> P r"
  by (auto simp: find_Some_iff)

lemma find_none: "find P t = None \<longleftrightarrow> (\<forall>r \<in> set t. \<not> P r)"
  by (auto simp: find_None_iff)

subsection \<open>Rows and keys after a write\<close>

lemma set_updateMany: "set (updateMany P f t) = (\<lambda>r. if P r then f r else r) ` set t"
  by (simp add: updateMany_def)

lemma set_deleteMany [simp]: "set (deleteMany P t) = {r \<in> set t. \<not> P r}"
  by (auto simp: deleteMany_def)

lemma map_updateMany: "(\<And>r. P r \<Longrightarrow> g (f r) = g r) \<Longrightarrow> map g (updateMany P f t) = map g t"
  by (simp add: updateMany_def)

lemma fold_inv: "P a \<Longrightarrow> (\<And>x a. P a \<Longrightarrow> P (f x a)) \<Longrightarrow> P (fold f xs a)"
  by (induction xs arbitrary: a) auto

lemma keys_updateMany: "(\<And>r. P r \<Longrightarrow> g (f r) = g r) \<Longrightarrow> g ` set (updateMany P f t) = g ` set t"
  by (metis map_updateMany list.set_map)

lemma updateMany_twice:
  "(\<And>r. P r \<Longrightarrow> P (g r)) \<Longrightarrow> updateMany P f (updateMany P g t) = updateMany P (\<lambda>r. f (g r)) t"
  by (simp add: updateMany_def)

lemma updateMany_id [simp]: "updateMany P (\<lambda>r. r) t = t"
  by (simp add: updateMany_def)

lemma unique_updateMany:
  "(\<And>r. P r \<Longrightarrow> key (f r) = key r) \<Longrightarrow> unique key (updateMany P f t) = unique key t"
  by (simp add: map_updateMany)

lemma unique_deleteMany: "unique key t \<Longrightarrow> unique key (deleteMany P t)"
  by (simp add: deleteMany_def distinct_map_filter)

lemma createRow_Some:
  "createRow key r t = Some t' \<longleftrightarrow> key r \<notin> key ` set t \<and> t' = t @ [r]"
  by (auto simp: createRow_def)

lemma createRow_unique: "unique key t \<Longrightarrow> createRow key r t = Some t' \<Longrightarrow> unique key t'"
  by (auto simp: createRow_Some)

lemma updateRow_unique:
  "unique key t \<Longrightarrow> updateRow key k f t = Some t' \<Longrightarrow> (\<And>r. g (f r) = g r) \<Longrightarrow>
   unique g t \<Longrightarrow> unique g t'"
  by (auto simp: updateRow_def unique_updateMany split: if_splits)

lemma findUnique_append:
  "findUnique key k (t @ [r]) =
     (case findUnique key k t of None \<Rightarrow> if key r = k then Some r else None | Some s \<Rightarrow> Some s)"
  by (induction t) (auto simp: findUnique_def)

lemma findUnique_updateMany:
  "(\<And>r. key (f r) = key r) \<Longrightarrow>
   findUnique key k (updateMany P f t) =
     map_option (\<lambda>r. if P r then f r else r) (findUnique key k t)"
  by (induction t) (auto simp: findUnique_def updateMany_def)

lemma findUnique_deleteMany_same: "findUnique key k (deleteMany (\<lambda>r. key r = k) t) = None"
  by (auto simp: findUnique_None)

lemma findUnique_deleteMany_other:
  "k \<noteq> k' \<Longrightarrow> findUnique key k (deleteMany (\<lambda>r. key r = k') t) = findUnique key k t"
  by (induction t) (auto simp: findUnique_def deleteMany_def)

lemma find_updateMany:
  "(\<And>r. P (f r) = P r) \<Longrightarrow>
   find P (updateMany Q f t) = map_option (\<lambda>r. if Q r then f r else r) (find P t)"
  by (induction t) (auto simp: updateMany_def)

text \<open>A column of a keyed table after a keyed update.\<close>

lemma column_update:
  assumes "\<And>r. key (f r) = key r"
  shows "map_option g (findUnique key k (updateMany (\<lambda>r. key r = i) f t)) =
    map_option (\<lambda>r. if k = i then g (f r) else g r) (findUnique key k t)"
  using assms by (cases "findUnique key k t") (auto simp: findUnique_updateMany dest: findUnique_Some)

subsection \<open>Upsert\<close>

lemma upsertRow_unique:
  "unique key t \<Longrightarrow> (\<And>r. key (f r) = key r) \<Longrightarrow> key new = k \<Longrightarrow> unique key (upsertRow key k new f t)"
  by (auto simp: upsertRow_def unique_updateMany)

lemma keys_upsertRow:
  assumes "\<And>r. key (f r) = key r" and "key new = k"
  shows "key ` set (upsertRow key k new f t) = insert k (key ` set t)"
  using assms(2) keys_updateMany [of "\<lambda>r. key r = k" key f t] assms(1)
  by (auto simp: upsertRow_def)

lemma findUnique_upsert_same:
  assumes "\<And>r. key (f r) = key r" and "key new = k"
  shows "findUnique key k (upsertRow key k new f t) =
     Some (case findUnique key k t of None \<Rightarrow> new | Some r \<Rightarrow> f r)"
proof (cases "findUnique key k t")
  case None
  then show ?thesis
    using findUnique_None [of key k t] assms(2) by (simp add: upsertRow_def findUnique_append)
next
  case (Some r)
  then have "k \<in> key ` set t" and "key r = k"
    using findUnique_None [of key k t] findUnique_Some by fastforce+
  then show ?thesis
    using Some findUnique_updateMany [of key f k "\<lambda>r. key r = k" t] assms(1)
    by (simp add: upsertRow_def)
qed

lemma findUnique_upsert_other:
  "(\<And>r. key (f r) = key r) \<Longrightarrow> key new = k \<Longrightarrow> k' \<noteq> k \<Longrightarrow>
   findUnique key k' (upsertRow key k new f t) = findUnique key k' t"
  by (cases "findUnique key k' t")
     (auto simp: upsertRow_def findUnique_append findUnique_updateMany dest: findUnique_Some)

subsection \<open>Counting rows\<close>

lemma countRows_Nil [simp]: "countRows P [] = 0"
  by (simp add: countRows_def)

lemma countRows_Cons: "countRows P (r # t) = (if P r then 1 else 0) + countRows P t"
  by (simp add: countRows_def)

lemma countRows_append [simp]: "countRows P (t @ u) = countRows P t + countRows P u"
  by (simp add: countRows_def)

lemma countRows_single [simp]: "countRows P [r] = (if P r then 1 else 0)"
  by (simp add: countRows_def)

lemma countRows_0: "countRows P t = 0 \<longleftrightarrow> (\<forall>r \<in> set t. \<not> P r)"
  by (simp add: countRows_def filter_empty_conv)

lemma countRows_cong: "(\<And>r. r \<in> set t \<Longrightarrow> P r = Q r) \<Longrightarrow> countRows P t = countRows Q t"
  by (metis countRows_def filter_cong)

lemma countRows_updateMany_same:
  "(\<And>r. r \<in> set t \<Longrightarrow> Q r \<Longrightarrow> P (f r) = P r) \<Longrightarrow> countRows P (updateMany Q f t) = countRows P t"
  by (induction t) (auto simp: updateMany_def countRows_Cons)

text \<open>The two laws behind every cached counter: what one keyed write does to a count.\<close>

lemma countRows_update_key:
  assumes "unique key t" and "findUnique key k t = Some r"
  shows "int (countRows P (updateMany (\<lambda>r. key r = k) f t)) =
         int (countRows P t) - (if P r then 1 else 0) + (if P (f r) then 1 else 0)"
  using assms
proof (induction t)
  case Nil
  then show ?case by (simp add: findUnique_def)
next
  case (Cons a t)
  show ?case
  proof (cases "key a = k")
    case True
    with Cons.prems have "a = r" by (simp add: findUnique_def)
    have rest: "key x \<noteq> k" if "x \<in> set t" for x
      using that True Cons.prems(1) by (auto simp: image_iff)
    have "updateMany (\<lambda>r. key r = k) f t = t"
      unfolding updateMany_def by (rule map_idI) (simp add: rest)
    with True \<open>a = r\<close> show ?thesis by (simp add: updateMany_def countRows_Cons)
  next
    case False
    with Cons show ?thesis by (simp add: updateMany_def countRows_Cons findUnique_def)
  qed
qed

lemma countRows_delete_key:
  assumes "unique key t" and "findUnique key k t = Some r"
  shows "int (countRows P (deleteMany (\<lambda>r. key r = k) t)) =
         int (countRows P t) - (if P r then 1 else 0)"
  using assms
proof (induction t)
  case Nil
  then show ?case by (simp add: findUnique_def)
next
  case (Cons a t)
  show ?case
  proof (cases "key a = k")
    case True
    with Cons.prems have "a = r" by (simp add: findUnique_def)
    have rest: "key x \<noteq> k" if "x \<in> set t" for x
      using that True Cons.prems(1) by (auto simp: image_iff)
    have "deleteMany (\<lambda>r. key r = k) t = t"
      unfolding deleteMany_def by (rule filter_True) (simp add: rest)
    with True \<open>a = r\<close> show ?thesis by (simp add: deleteMany_def countRows_Cons)
  next
    case False
    with Cons show ?thesis by (simp add: deleteMany_def countRows_Cons findUnique_def)
  qed
qed

lemma countRows_le_length: "countRows P t \<le> length t"
  by (simp add: countRows_def)

lemma countRows_pos: "r \<in> set t \<Longrightarrow> P r \<Longrightarrow> 0 < countRows P t"
  by (metis countRows_0 gr0I)

subsection \<open>Rows counted per owner\<close>

text \<open>
  From \<open>t\<close> to \<open>t'\<close> the owner \<open>c\<close> gained \<open>d\<close> active rows and every other owner kept its
  number: what a write of memberships or participations does to the counts cached elsewhere.
\<close>

definition counted :: "('r \<Rightarrow> 'k) \<Rightarrow> ('r \<Rightarrow> bool) \<Rightarrow> 'k \<Rightarrow> int \<Rightarrow> 'r list \<Rightarrow> 'r list \<Rightarrow> bool" where
  "counted owner active c d t t' \<longleftrightarrow>
     (\<forall>k. int (countRows (\<lambda>r. owner r = k \<and> active r) t') =
          int (countRows (\<lambda>r. owner r = k \<and> active r) t) + (if k = c then d else 0))"

lemma counted_refl: "counted owner active c 0 t t"
  by (simp add: counted_def)

lemma counted_trans:
  "counted owner active c d t t' \<Longrightarrow> counted owner active c d' t' t'' \<Longrightarrow> counted owner active c (d + d') t t''"
  by (simp add: counted_def)

lemma counted_append:
  "owner r = c \<Longrightarrow> d = (if active r then 1 else 0) \<Longrightarrow> counted owner active c d t (t @ [r])"
  by (auto simp: counted_def)

lemma counted_update:
  assumes "unique key t" and "findUnique key k t = Some r" and "owner r = c" and "owner (f r) = c"
    and "d = (if active (f r) then 1 else 0) - (if active r then 1 else 0)"
  shows "counted owner active c d t (updateMany (\<lambda>r. key r = k) f t)"
  using countRows_update_key [OF assms(1,2)] assms(3-5) by (simp add: counted_def)

lemma counted_delete:
  assumes "unique key t" and "findUnique key k t = Some r" and "owner r = c"
    and "d = - (if active r then 1 else 0)"
  shows "counted owner active c d t (deleteMany (\<lambda>r. key r = k) t)"
  using countRows_delete_key [OF assms(1,2)] assms(3,4) by (simp add: counted_def)

section \<open>Sorted rows\<close>

lemma insort_key_map: "insort_key f (g x) (map g ys) = map g (insort_key (\<lambda>x. f (g x)) x ys)"
  by (induction ys) auto

lemma sort_key_map: "sort_key f (map g xs) = map g (sort_key (\<lambda>x. f (g x)) xs)"
  by (induction xs) (simp_all add: insort_key_map)

section \<open>Pages of a listing\<close>

text \<open>
  \<open>take: limit + 1\<close> with \<open>hasMore\<close>: the page and the identifier of its last row when
  there is more to read.
\<close>

definition pageOf :: "('r \<Rightarrow> uid) \<Rightarrow> nat \<Rightarrow> 'r list \<Rightarrow> 'r list \<times> uid option" where
  "pageOf rid limit rows =
     (let hasMore = length rows > limit;
          page = (if hasMore then take limit rows else rows)
      in (page, if hasMore \<and> page \<noteq> [] then Some (rid (last page)) else None))"

text \<open>\<open>cursor: { id }, skip: 1, take\<close>: the rows after the cursor row, none if it is absent.\<close>

definition afterCursor :: "('r \<Rightarrow> uid) \<Rightarrow> uid option \<Rightarrow> nat \<Rightarrow> 'r list \<Rightarrow> 'r list" where
  "afterCursor rid cursor n rows =
     (case cursor of
        None \<Rightarrow> take n rows
      | Some c \<Rightarrow> take n (drop 1 (dropWhile (\<lambda>r. rid r \<noteq> c) rows)))"

lemma pageOf_length: "length (fst (pageOf rid limit rows)) \<le> limit"
  by (simp add: pageOf_def Let_def)

lemma set_pageOf: "set (fst (pageOf rid limit rows)) \<subseteq> set rows"
  by (auto simp: pageOf_def Let_def dest: in_set_takeD)

lemma set_afterCursor: "set (afterCursor rid c n rows) \<subseteq> set rows"
proof (cases c)
  case None
  then show ?thesis by (auto simp: afterCursor_def dest: in_set_takeD)
next
  case (Some x)
  then show ?thesis
    by (auto simp: afterCursor_def dest!: in_set_takeD in_set_dropD dest: set_dropWhileD)
qed

section \<open>Contracts shared by several components\<close>

text \<open>An invariant that every operation keeps holds after any sequence of operations.\<close>

locale invariant_system =
  fixes step :: "'o \<Rightarrow> 'w \<Rightarrow> 'w" and inv :: "'w \<Rightarrow> bool"
  assumes step_inv: "inv w \<Longrightarrow> inv (step x w)"
begin

lemma run_inv: "inv w \<Longrightarrow> inv (fold step xs w)"
  by (induction xs arbitrary: w) (auto intro: step_inv)

end

text \<open>
  A column that caches a number of rows (likesCount, commentsCount, membersCount,
  participantsCount, postsCount). One operation takes the column from \<open>c\<close> to \<open>c'\<close> and the
  number of rows from \<open>n\<close> to \<open>n'\<close> (the column is \<open>None\<close> while its row does not exist): both
  move by the same amount, and a new row starts with the right value.
\<close>

definition moves_together :: "int option \<Rightarrow> nat \<Rightarrow> int option \<Rightarrow> nat \<Rightarrow> bool" where
  "moves_together c n c' n' \<longleftrightarrow>
     (case c' of None \<Rightarrow> True
      | Some v' \<Rightarrow> (case c of None \<Rightarrow> v' = int n' | Some v \<Rightarrow> v' - v = int n' - int n))"

lemma moves_refl [simp]: "moves_together c n c n"
  by (simp add: moves_together_def split: option.split)

lemma moves_None [simp]: "moves_together c n None n'"
  by (simp add: moves_together_def)

lemma moves_start [simp]: "moves_together None n (Some v') n' \<longleftrightarrow> v' = int n'"
  by (simp add: moves_together_def)

lemma moves_Some [simp]: "moves_together (Some v) n (Some v') n' \<longleftrightarrow> v' - v = int n' - int n"
  by (simp add: moves_together_def)

text \<open>
  \<open>cached w k\<close> is the column of the row \<open>k\<close>, \<open>actual w k\<close> the number of rows it stands for.
\<close>

locale counter_cache =
  fixes cached :: "'w \<Rightarrow> 'k \<Rightarrow> int option"
    and actual :: "'w \<Rightarrow> 'k \<Rightarrow> nat"
    and wf :: "'w \<Rightarrow> bool"
    and step :: "'o \<Rightarrow> 'w \<Rightarrow> 'w"
  assumes wf_step: "wf w \<Longrightarrow> wf (step x w)"
    and cache_moves:
      "wf w \<Longrightarrow> moves_together (cached w k) (actual w k) (cached (step x w) k) (actual (step x w) k)"
begin

definition consistent :: "'w \<Rightarrow> bool" where
  "consistent w \<longleftrightarrow> wf w \<and> (\<forall>k v. cached w k = Some v \<longrightarrow> v = int (actual w k))"

lemma consistent_step: "consistent w \<Longrightarrow> consistent (step x w)"
  unfolding consistent_def
proof (intro conjI allI impI)
  assume *: "wf w \<and> (\<forall>k v. cached w k = Some v \<longrightarrow> v = int (actual w k))"
  then show "wf (step x w)" by (simp add: wf_step)
  fix k v'
  assume "cached (step x w) k = Some v'"
  then show "v' = int (actual (step x w) k)"
    using * cache_moves [of w k x] by (auto simp: moves_together_def split: option.splits)
qed

end

sublocale counter_cache \<subseteq> cache: invariant_system step consistent
  by unfold_locales (rule consistent_step)

context counter_cache
begin

lemma run_cached:
  "consistent w \<Longrightarrow> cached (fold step xs w) k = Some v \<Longrightarrow> v = int (actual (fold step xs w) k)"
  using cache.run_inv consistent_def by blast

lemma never_negative: "consistent w \<Longrightarrow> cached (fold step xs w) k = Some v \<Longrightarrow> 0 \<le> v"
  using run_cached by fastforce

end

end
