(* ===== verification/Redis_Store.thy ===== *)
theory Redis_Store
  imports Prelude
begin

text \<open>
  The Redis side of the state, as \<open>redis.service.ts\<close> and the services that use
  \<open>redis.raw\<close> see it: counters with an expiry (INCR, EXPIRE, TTL), string keys with an
  expiry (SET EX NX, GET, DEL, KEYS prefix*), sets (SADD, SREM, SMEMBERS) and sorted sets
  (ZADD, ZREM, ZRANGEBYSCORE). Every command is atomic and runs at a time \<open>now\<close>; an entry
  whose expiry has passed is absent.

  Contracts: \<open>rate_window\<close> (a fixed-window counter lets at most the limit through, used
  by the party, signal, SOS and message limits) and \<open>session_store\<close> (what the token
  service relies on), both interpreted here on the Redis model.
\<close>

section \<open>Expiry\<close>

definition live :: "time \<Rightarrow> time option \<Rightarrow> bool" where
  "live now ex = (case ex of None \<Rightarrow> True | Some t \<Rightarrow> now < t)"

lemma live_None [simp]: "live now None"
  by (simp add: live_def)

lemma live_Some [simp]: "live now (Some t) \<longleftrightarrow> now < t"
  by (simp add: live_def)

section \<open>Counters\<close>

type_synonym counters = "string \<Rightarrow> (nat \<times> time option) option"

definition counterGet :: "time \<Rightarrow> string \<Rightarrow> counters \<Rightarrow> nat" where
  "counterGet now k s =
     (case s k of None \<Rightarrow> 0 | Some (c, ex) \<Rightarrow> if live now ex then c else 0)"

definition incr :: "time \<Rightarrow> string \<Rightarrow> counters \<Rightarrow> nat \<times> counters" where
  "incr now k s =
     (case s k of
        Some (c, ex) \<Rightarrow>
          if live now ex then (Suc c, s(k \<mapsto> (Suc c, ex))) else (1, s(k \<mapsto> (1, None)))
      | None \<Rightarrow> (1, s(k \<mapsto> (1, None))))"

definition expire :: "time \<Rightarrow> string \<Rightarrow> int \<Rightarrow> counters \<Rightarrow> counters" where
  "expire now k seconds s =
     (case s k of
        Some (c, ex) \<Rightarrow> if live now ex then s(k \<mapsto> (c, Some (now + seconds * 1000))) else s
      | None \<Rightarrow> s)"

text \<open>\<open>TTL\<close> in whole seconds: -2 for no key, -1 for a key without expiry.\<close>

definition ttl :: "time \<Rightarrow> string \<Rightarrow> counters \<Rightarrow> int" where
  "ttl now k s =
     (case s k of
        None \<Rightarrow> -2
      | Some (c, None) \<Rightarrow> -1
      | Some (c, Some t) \<Rightarrow> if now < t then (t - now) div 1000 else -2)"

text \<open>\<open>INCR\<close>, then \<open>EXPIRE\<close> when the count is 1: \<open>incrementActionCount\<close> on a given key.\<close>

definition incrWindow :: "int \<Rightarrow> time \<Rightarrow> string \<Rightarrow> counters \<Rightarrow> nat \<times> counters" where
  "incrWindow seconds now k s =
     (let (count, s1) = incr now k s
      in (count, if count = 1 then expire now k seconds s1 else s1))"

definition rateKey :: "string \<Rightarrow> uid \<Rightarrow> string" where
  "rateKey action userId = ''rate:'' @ action @ '':'' @ userId"

definition incrementActionCount ::
  "uid \<Rightarrow> string \<Rightarrow> int \<Rightarrow> time \<Rightarrow> counters \<Rightarrow> nat \<times> counters" where
  "incrementActionCount userId action windowSeconds now s =
     incrWindow windowSeconds now (rateKey action userId) s"

lemma fst_incrWindow: "fst (incrWindow w now k s) = Suc (counterGet now k s)"
  by (auto simp: incrWindow_def incr_def counterGet_def split: option.splits)

lemma incrWindow_other: "k' \<noteq> k \<Longrightarrow> snd (incrWindow w now k s) k' = s k'"
  by (auto simp: incrWindow_def incr_def expire_def split: option.splits)

definition windowEnd :: "string \<Rightarrow> counters \<Rightarrow> time option" where
  "windowEnd k s = (case s k of Some (_, ex) \<Rightarrow> ex | None \<Rightarrow> None)"

subsection \<open>The fixed window as a contract\<close>

text \<open>
  \<open>used t s\<close> is how often the action counts as used at time \<open>t\<close>; the first use opens a
  window of \<open>width\<close> milliseconds and later uses do not move its end.
\<close>

locale rate_window =
  fixes hit :: "time \<Rightarrow> 's \<Rightarrow> nat \<times> 's"
    and used :: "time \<Rightarrow> 's \<Rightarrow> nat"
    and ends :: "'s \<Rightarrow> time option"
    and width :: int
  assumes hit_counts: "fst (hit t s) = Suc (used t s)"
    and hit_opens: "used t s = 0 \<Longrightarrow> ends (snd (hit t s)) = Some (t + width)"
    and hit_keeps: "0 < used t s \<Longrightarrow> ends (snd (hit t s)) = ends s"
    and hit_used: "live t' (ends (snd (hit t s))) \<Longrightarrow> used t' (snd (hit t s)) = Suc (used t s)"
begin

fun hits :: "time list \<Rightarrow> 's \<Rightarrow> nat list" where
  "hits [] s = []"
| "hits (t # ts) s = (let (c, s') = hit t s in c # hits ts s')"

definition accepted :: "nat \<Rightarrow> time list \<Rightarrow> 's \<Rightarrow> nat" where
  "accepted limit ts s = length (filter (\<lambda>c. c \<le> limit) (hits ts s))"

lemma hits_in_window:
  assumes "0 < n" and "\<And>t. t \<in> set ts \<Longrightarrow> live t (ends s) \<and> used t s = n"
  shows "hits ts s = [Suc n..<Suc n + length ts]"
  using assms
proof (induction ts arbitrary: n s)
  case Nil
  then show ?case by simp
next
  case (Cons t ts)
  obtain c s' where hit: "hit t s = (c, s')" by (cases "hit t s")
  have used: "used t s = n" using Cons.prems(2) by simp
  have c: "c = Suc n" using hit_counts [of t s] hit used by simp
  have ends: "ends s' = ends s" using hit_keeps [of t s] hit used Cons.prems(1) by simp
  have "used u s' = Suc n" if "live u (ends s)" for u
    using hit_used [of u t s] hit used ends that by simp
  then have "hits ts s' = [Suc (Suc n)..<Suc (Suc n) + length ts]"
    using Cons.prems(2) ends by (intro Cons.IH) simp_all
  then show ?case using hit c by (simp add: upt_conv_Cons del: upt_Suc)
qed

lemma hits_fresh_window:
  assumes "used t s = 0" and "\<And>u. u \<in> set ts \<Longrightarrow> u < t + width"
  shows "hits (t # ts) s = [1..<length ts + 2]"
proof -
  obtain c s' where hit: "hit t s = (c, s')" by (cases "hit t s")
  have ends: "ends s' = Some (t + width)" using hit_opens [OF assms(1)] hit by simp
  have "used u s' = 1" if "u < t + width" for u
    using hit_used [of u t s] hit ends that assms(1) by simp
  then have "hits ts s' = [Suc 1..<Suc 1 + length ts]"
    using assms(2) ends by (intro hits_in_window) simp_all
  then show ?thesis using hit hit_counts [of t s] assms(1) by (simp add: upt_conv_Cons del: upt_Suc)
qed

lemma at_most_limit:
  assumes "used t s = 0" and "\<And>u. u \<in> set ts \<Longrightarrow> u < t + width"
  shows "accepted limit (t # ts) s = min limit (length (t # ts))"
proof -
  have "filter (\<lambda>c. c \<le> limit) [1..<n + 1] = [1..<min limit n + 1]" for n
    by (induction n) (auto simp: min_def not_le le_Suc_eq)
  from this [of "Suc (length ts)"] show ?thesis
    using hits_fresh_window [OF assms] by (simp add: accepted_def)
qed

end

lemma incrWindow_opens:
  "counterGet t k s = 0 \<Longrightarrow> windowEnd k (snd (incrWindow w t k s)) = Some (t + w * 1000)"
  by (auto simp: incrWindow_def incr_def expire_def counterGet_def windowEnd_def
      split: option.splits if_splits)

lemma incrWindow_keeps:
  "0 < counterGet t k s \<Longrightarrow> windowEnd k (snd (incrWindow w t k s)) = windowEnd k s"
  by (auto simp: incrWindow_def incr_def expire_def counterGet_def windowEnd_def
      split: option.splits if_splits)

lemma incrWindow_used:
  "live t' (windowEnd k (snd (incrWindow w t k s))) \<Longrightarrow>
   counterGet t' k (snd (incrWindow w t k s)) = Suc (counterGet t k s)"
  by (auto simp: incrWindow_def incr_def expire_def counterGet_def windowEnd_def
      split: option.splits if_splits)

interpretation rate: rate_window
  "\<lambda>t s. incrWindow w t k s" "\<lambda>t s. counterGet t k s" "windowEnd k" "w * 1000"
  for k w
  by unfold_locales (simp_all add: fst_incrWindow incrWindow_opens incrWindow_keeps incrWindow_used)

section \<open>String keys\<close>

type_synonym keyspace = "(string \<times> (string \<times> time option)) list"

definition kvGet :: "time \<Rightarrow> string \<Rightarrow> keyspace \<Rightarrow> string option" where
  "kvGet now k s =
     (case map_of s k of Some (v, ex) \<Rightarrow> if live now ex then Some v else None | None \<Rightarrow> None)"

definition kvDel :: "string \<Rightarrow> keyspace \<Rightarrow> keyspace" where
  "kvDel k s = filter (\<lambda>e. fst e \<noteq> k) s"

definition kvSet :: "string \<Rightarrow> string \<Rightarrow> time option \<Rightarrow> keyspace \<Rightarrow> keyspace" where
  "kvSet k v ex s = (k, (v, ex)) # kvDel k s"

text \<open>\<open>SET key value EX seconds NX\<close>: true for the reply \<open>OK\<close>.\<close>

definition kvSetNx :: "time \<Rightarrow> string \<Rightarrow> string \<Rightarrow> int \<Rightarrow> keyspace \<Rightarrow> bool \<times> keyspace" where
  "kvSetNx now k v seconds s =
     (if kvGet now k s = None then (True, kvSet k v (Some (now + seconds * 1000)) s)
      else (False, s))"

text \<open>The live keys that begin with a prefix: \<open>KEYS prefix*\<close>.\<close>

definition kvKeys :: "time \<Rightarrow> string \<Rightarrow> keyspace \<Rightarrow> string list" where
  "kvKeys now p s =
     map fst (filter (\<lambda>e. take (length p) (fst e) = p \<and> live now (snd (snd e))) s)"

definition kvDelAll :: "string list \<Rightarrow> keyspace \<Rightarrow> keyspace" where
  "kvDelAll ks s = filter (\<lambda>e. fst e \<notin> set ks) s"

lemma map_of_filter_keys:
  "map_of (filter (\<lambda>e. Q (fst e)) s) k = (if Q k then map_of s k else None)"
  by (induction s) auto

lemma map_of_filter_ne: "map_of (filter (\<lambda>e. fst e \<noteq> k) s) k' = (if k' = k then None else map_of s k')"
  by (induction s) auto

lemma kvGet_Set: "kvGet now k' (kvSet k v ex s) =
    (if k' = k then (if live now ex then Some v else None) else kvGet now k' s)"
  by (simp add: kvGet_def kvSet_def kvDel_def map_of_filter_ne)

lemma kvGet_Del: "kvGet now k' (kvDel k s) = (if k' = k then None else kvGet now k' s)"
  by (simp add: kvGet_def kvDel_def map_of_filter_ne)

lemma kvGet_DelAll: "kvGet now k (kvDelAll ks s) = (if k \<in> set ks then None else kvGet now k s)"
  unfolding kvGet_def kvDelAll_def
  by (subst map_of_filter_keys [where Q = "\<lambda>k. k \<notin> set ks"]) simp

lemma kvKeys_live:
  assumes "kvGet now k s = Some v" and "take (length p) k = p"
  shows "k \<in> set (kvKeys now p s)"
proof -
  from assms(1) obtain ex where m: "map_of s k = Some (v, ex)" and l: "live now ex"
    by (auto simp: kvGet_def split: option.splits prod.splits if_splits)
  from m have "(k, v, ex) \<in> set s" by (rule map_of_SomeD)
  with l assms(2) show ?thesis by (force simp: kvKeys_def)
qed

lemma kvKeys_prefix: "k \<in> set (kvKeys now p s) \<Longrightarrow> take (length p) k = p"
  by (auto simp: kvKeys_def)

section \<open>Refresh tokens\<close>

definition refreshKey :: "uid \<Rightarrow> uid \<Rightarrow> string" where
  "refreshKey userId tokenId = ''refresh_token:'' @ userId @ '':'' @ tokenId"

definition refreshPrefix :: "uid \<Rightarrow> string" where
  "refreshPrefix userId = ''refresh_token:'' @ userId @ '':''"

definition setRefreshToken :: "uid \<Rightarrow> uid \<Rightarrow> int \<Rightarrow> time \<Rightarrow> keyspace \<Rightarrow> keyspace" where
  "setRefreshToken userId tokenId ttlSeconds now s =
     kvSet (refreshKey userId tokenId) ''1'' (Some (now + ttlSeconds * 1000)) s"

definition isRefreshTokenValid :: "uid \<Rightarrow> uid \<Rightarrow> time \<Rightarrow> keyspace \<Rightarrow> bool" where
  "isRefreshTokenValid userId tokenId now s =
     (kvGet now (refreshKey userId tokenId) s = Some ''1'')"

definition revokeRefreshToken :: "uid \<Rightarrow> uid \<Rightarrow> keyspace \<Rightarrow> keyspace" where
  "revokeRefreshToken userId tokenId s = kvDel (refreshKey userId tokenId) s"

definition revokeAllUserRefreshTokens :: "uid \<Rightarrow> time \<Rightarrow> keyspace \<Rightarrow> nat \<times> keyspace" where
  "revokeAllUserRefreshTokens userId now s =
     (let keys = kvKeys now (refreshPrefix userId) s
      in if keys = [] then (0, s) else (length keys, kvDelAll keys s))"

lemma refreshKey_prefix: "take (length (refreshPrefix u)) (refreshKey u t) = refreshPrefix u"
  by (simp add: refreshKey_def refreshPrefix_def)

lemma refreshKey_same_user: "refreshKey u t = refreshKey u t' \<longleftrightarrow> t = t'"
  by (simp add: refreshKey_def)

text \<open>Identifiers are uuids: they hold no colon, so a key tells its user and its token.\<close>

definition colonFree :: "uid \<Rightarrow> bool" where
  "colonFree u \<longleftrightarrow> CHR '':'' \<notin> set u"

lemma append_colon_inj:
  "CHR '':'' \<notin> set a \<Longrightarrow> CHR '':'' \<notin> set b \<Longrightarrow>
   a @ CHR '':'' # x = b @ CHR '':'' # y \<Longrightarrow> a = b \<and> x = y"
proof (induction a arbitrary: b)
  case Nil
  then show ?case by (cases b) auto
next
  case (Cons c a)
  then show ?case by (cases b) auto
qed

lemma refreshKey_inj:
  "colonFree u \<Longrightarrow> colonFree v \<Longrightarrow> refreshKey u t = refreshKey v t' \<longleftrightarrow> u = v \<and> t = t'"
  using append_colon_inj [of u v t t'] by (auto simp: refreshKey_def colonFree_def)

lemma refreshKey_other_prefix:
  assumes "colonFree u" and "colonFree v" and "u \<noteq> v"
  shows "take (length (refreshPrefix u)) (refreshKey v t) \<noteq> refreshPrefix u"
proof
  assume eq: "take (length (refreshPrefix u)) (refreshKey v t) = refreshPrefix u"
  obtain r where "refreshKey v t = refreshPrefix u @ r"
    using eq by (metis append_take_drop_id)
  then have "v @ CHR '':'' # t = u @ CHR '':'' # r"
    by (simp add: refreshKey_def refreshPrefix_def)
  then show False
    using assms append_colon_inj [of v u t r] by (auto simp: colonFree_def)
qed

text \<open>
  What the token service relies on: a session is active from the moment it is issued
  until it expires or is revoked, one revocation closes one session, and revoking all
  closes every session of that user and no other user's.
\<close>

locale session_store =
  fixes active :: "uid \<Rightarrow> uid \<Rightarrow> time \<Rightarrow> 's \<Rightarrow> bool"
    and issue :: "uid \<Rightarrow> uid \<Rightarrow> time \<Rightarrow> 's \<Rightarrow> 's"
    and revoke :: "uid \<Rightarrow> uid \<Rightarrow> 's \<Rightarrow> 's"
    and revokeAll :: "uid \<Rightarrow> time \<Rightarrow> 's \<Rightarrow> 's"
    and ok :: "uid \<Rightarrow> bool"
    and width :: int
  assumes active_issue: "ok u \<Longrightarrow> ok v \<Longrightarrow>
      active v t' now' (issue u t now s) \<longleftrightarrow>
        (if v = u \<and> t' = t then now' < now + width else active v t' now' s)"
    and active_revoke: "ok u \<Longrightarrow> ok v \<Longrightarrow>
      active v t' now (revoke u t s) \<longleftrightarrow> \<not> (v = u \<and> t' = t) \<and> active v t' now s"
    and revokeAll_own: "now \<le> now' \<Longrightarrow> \<not> active u t now' (revokeAll u now s)"
    and revokeAll_other: "ok u \<Longrightarrow> ok v \<Longrightarrow> u \<noteq> v \<Longrightarrow>
      active v t now' (revokeAll u now s) \<longleftrightarrow> active v t now' s"
begin

text \<open>Rotation: the old session is closed, the new one is open, the others do not move.\<close>

lemma rotate_old:
  "ok u \<Longrightarrow> old \<noteq> new \<Longrightarrow> \<not> active u old now' (issue u new now (revoke u old s))"
  by (simp add: active_issue active_revoke)

lemma rotate_new:
  "ok u \<Longrightarrow> active u new now' (issue u new now (revoke u old s)) \<longleftrightarrow> now' < now + width"
  by (simp add: active_issue)

lemma rotate_other:
  "ok u \<Longrightarrow> ok v \<Longrightarrow> v \<noteq> u \<Longrightarrow>
   active v t now' (issue u new now (revoke u old s)) \<longleftrightarrow> active v t now' s"
  by (simp add: active_issue active_revoke)

end

lemma live_mono: "now \<le> now' \<Longrightarrow> live now' ex \<Longrightarrow> live now ex"
  by (cases ex) auto

lemma kvGet_mono: "now \<le> now' \<Longrightarrow> kvGet now' k s = Some v \<Longrightarrow> kvGet now k s = Some v"
  by (auto simp: kvGet_def dest: live_mono split: option.splits prod.splits if_splits)

lemma revokeAll_kvGet:
  "kvGet now' k (snd (revokeAllUserRefreshTokens u now s)) =
     (if k \<in> set (kvKeys now (refreshPrefix u) s) then None else kvGet now' k s)"
  by (auto simp: revokeAllUserRefreshTokens_def Let_def kvGet_DelAll)

lemma revokeAll_closes:
  assumes "now \<le> now'"
  shows "\<not> isRefreshTokenValid u t now' (snd (revokeAllUserRefreshTokens u now s))"
proof
  assume "isRefreshTokenValid u t now' (snd (revokeAllUserRefreshTokens u now s))"
  then have notin: "refreshKey u t \<notin> set (kvKeys now (refreshPrefix u) s)"
    and got: "kvGet now' (refreshKey u t) s = Some ''1''"
    by (auto simp: isRefreshTokenValid_def revokeAll_kvGet split: if_splits)
  from got assms have "kvGet now (refreshKey u t) s = Some ''1''" by (rule kvGet_mono [rotated])
  with notin show False using kvKeys_live refreshKey_prefix by blast
qed

interpretation sessions: session_store
  isRefreshTokenValid "\<lambda>u t now s. setRefreshToken u t ttlSeconds now s" revokeRefreshToken
  "\<lambda>u now s. snd (revokeAllUserRefreshTokens u now s)" colonFree "ttlSeconds * 1000"
  for ttlSeconds
proof (unfold_locales, goal_cases)
  case (1 u v t' now' t now s)
  then show ?case
    by (auto simp: isRefreshTokenValid_def setRefreshToken_def kvGet_Set refreshKey_inj)
next
  case (2 u v t' now t s)
  then show ?case
    by (auto simp: isRefreshTokenValid_def revokeRefreshToken_def kvGet_Del refreshKey_inj)
next
  case (3 now now' u t s)
  then show ?case by (rule revokeAll_closes)
next
  case (4 u v t now' now s)
  then have "refreshKey v t \<notin> set (kvKeys now (refreshPrefix u) s)"
    using refreshKey_other_prefix kvKeys_prefix by blast
  then show ?case by (simp add: isRefreshTokenValid_def revokeAll_kvGet)
qed

section \<open>Sets and sorted sets\<close>

definition sadd :: "'a \<Rightarrow> 'a list \<Rightarrow> 'a list" where
  "sadd x s = (if x \<in> set s then s else s @ [x])"

definition srem :: "'a \<Rightarrow> 'a list \<Rightarrow> 'a list" where
  "srem x s = filter (\<lambda>y. y \<noteq> x) s"

lemma set_sadd [simp]: "set (sadd x s) = insert x (set s)"
  by (auto simp: sadd_def)

lemma set_srem [simp]: "set (srem x s) = set s - {x}"
  by (auto simp: srem_def)

lemma distinct_sadd [simp]: "distinct (sadd x s) = distinct s"
  by (simp add: sadd_def)

lemma distinct_srem [simp]: "distinct s \<Longrightarrow> distinct (srem x s)"
  by (simp add: srem_def)

type_synonym 'a zset = "('a \<times> int) list"

definition zadd :: "int \<Rightarrow> 'a \<Rightarrow> 'a zset \<Rightarrow> 'a zset" where
  "zadd score x z = filter (\<lambda>e. fst e \<noteq> x) z @ [(x, score)]"

definition zrem :: "'a \<Rightarrow> 'a zset \<Rightarrow> 'a zset" where
  "zrem x z = filter (\<lambda>e. fst e \<noteq> x) z"

text \<open>Members with a score in the range, lowest score first.\<close>

definition zrangebyscore :: "int \<Rightarrow> int \<Rightarrow> 'a zset \<Rightarrow> 'a list" where
  "zrangebyscore lo hi z = map fst (sort_key snd (filter (\<lambda>e. lo \<le> snd e \<and> snd e \<le> hi) z))"

end
