(* ===== verification/Core_Db.thy ===== *)
theory Core_Db
  imports Redis_Store Complex_Main
begin

text \<open>
  The part of the state that several services share, after \<open>prisma/schema.prisma\<close>: the
  tables User, Block, Follow, Notification and NotificationPreference, the Redis counters
  and keys, the event bus (the list of events emitted so far) and the supply of uuids that
  \<open>@default(uuid())\<close> draws from. The state of each service extends \<open>core_db\<close> with its own
  tables, so an operation on the shared part acts on every service's state.

  Columns that no modelled operation reads or writes (\<open>updatedAt\<close> and, where a table is
  never listed by it, \<open>id\<close> or \<open>createdAt\<close>) are left out of the rows.
\<close>

section \<open>Enumerations\<close>

datatype userRole = USER | MODERATOR | ADMIN

datatype locationSharingMode =
    LS_OFF | FOLLOWERS_ONLY | MUTUAL_FOLLOWERS | GROUP_MEMBERS | PARTY_ONLY | LS_PUBLIC

datatype followStatus = F_PENDING | F_ACCEPTED | F_BLOCKED

datatype notificationType =
    N_FOLLOW | N_LIKE | N_COMMENT | N_MENTION | N_MESSAGE | N_EVENT_INVITE | N_PARTY_INVITE
  | N_EMERGENCY_NEARBY | N_QUEST_COMPLETED | N_BADGE_EARNED | N_GROUP_INVITE | N_SYSTEM

datatype questTrigger =
    POST_CREATED | STORY_CREATED | FOLLOW_GAINED | EVENT_JOINED | EVENT_HOSTED
  | PARTY_COMPLETED | PARTY_LEAD | ROUTE_CREATED | EMERGENCY_ACKNOWLEDGED
  | PROFILE_COMPLETED | BIKE_ADDED | COMMUNITY_JOINED

section \<open>Rows\<close>

record user =
  u_id :: uid
  u_username :: string
  u_email :: string
  u_pendingEmail :: "string option"
  u_phoneNumber :: "string option"
  u_phoneVerifiedAt :: "time option"
  u_passwordHash :: "string option"
  u_appleSub :: "string option"
  u_googleSub :: "string option"
  u_name :: "string option"
  u_bio :: "string option"
  u_avatarUrl :: "string option"
  u_coverImageUrl :: "string option"
  u_city :: "string option"
  u_country :: "string option"
  u_ridingStyle :: "string list"
  u_isPrivate :: bool
  u_locationSharing :: locationSharingMode
  u_isVerified :: bool
  u_isBanned :: bool
  u_shadowBanned :: bool
  u_role :: userRole
  u_followersCount :: int
  u_followingCount :: int
  u_postsCount :: int
  u_xp :: int
  u_level :: int
  u_preferredLanguage :: string
  u_eulaAcceptedAt :: "time option"
  u_lastSeenAt :: "time option"
  u_usernameChangedAt :: "time option"
  u_createdAt :: time
  u_deletedAt :: "time option"

record follow =
  fo_id :: uid
  fo_followerId :: uid
  fo_followingId :: uid
  fo_status :: followStatus

record block =
  bl_id :: uid
  bl_initiatorId :: uid
  bl_targetId :: uid
  bl_createdAt :: time

record notification =
  no_id :: uid
  no_userId :: uid
  no_type :: notificationType
  no_title :: string
  no_body :: string
  no_data :: "(string \<times> detail) list"
  no_isRead :: bool
  no_createdAt :: time

record prefs =
  pushFollow :: bool
  pushLike :: bool
  pushComment :: bool
  pushMention :: bool
  pushParty :: bool
  pushEmergency :: bool
  pushCommunity :: bool
  pushEvent :: bool
  emailDigest :: bool

text \<open>The payloads of \<open>ZodEventBus.emit\<close>.\<close>

datatype bus_event =
    GamificationTrigger uid questTrigger int "(string \<times> string) list"
  | AuthLoginSuccess uid time

section \<open>The shared state\<close>

record core_db =
  users :: "user list"
  blocks :: "block list"
  follows :: "follow list"
  notifications :: "notification list"
  notificationPrefs :: "(uid \<times> prefs) list"
  bus :: "bus_event list"
  rd_counters :: counters
  rd_keys :: keyspace
  uuidSeq :: "nat \<Rightarrow> uid"
  uuidNext :: nat

abbreviation followKey :: "follow \<Rightarrow> uid \<times> uid" where
  "followKey r \<equiv> (fo_followerId r, fo_followingId r)"

abbreviation blockKey :: "block \<Rightarrow> uid \<times> uid" where
  "blockKey r \<equiv> (bl_initiatorId r, bl_targetId r)"

definition newUuid :: "'a core_db_scheme \<Rightarrow> uid" where
  "newUuid w = uuidSeq w (uuidNext w)"

definition takeUuid :: "'a core_db_scheme \<Rightarrow> 'a core_db_scheme" where
  "takeUuid w = w\<lparr>uuidNext := Suc (uuidNext w)\<rparr>"

definition emitEvent :: "bus_event \<Rightarrow> 'a core_db_scheme \<Rightarrow> 'a core_db_scheme" where
  "emitEvent e w = w\<lparr>bus := bus w @ [e]\<rparr>"

definition findUser :: "uid \<Rightarrow> 'a core_db_scheme \<Rightarrow> user option" where
  "findUser i w = findUnique u_id i (users w)"

text \<open>\<open>findFirst({ id, deletedAt: null, isBanned: false })\<close>\<close>

definition findActiveUser :: "uid \<Rightarrow> 'a core_db_scheme \<Rightarrow> user option" where
  "findActiveUser i w = find (\<lambda>u. u_id u = i \<and> u_deletedAt u = None \<and> \<not> u_isBanned u) (users w)"

definition userExists :: "uid \<Rightarrow> 'a core_db_scheme \<Rightarrow> bool" where
  "userExists i w \<longleftrightarrow> findUser i w \<noteq> None"

text \<open>\<open>tx.user.update({ where: { id }, data })\<close>\<close>

definition updateUser ::
  "uid \<Rightarrow> (user \<Rightarrow> user) \<Rightarrow> 'a core_db_scheme \<Rightarrow> (unit, 'a core_db_scheme) outcome" where
  "updateUser i f w =
     write_or RecordNotFound (updateRow u_id i f (users w)) (\<lambda>t. w\<lparr>users := t\<rparr>) w"

definition incrRate ::
  "uid \<Rightarrow> string \<Rightarrow> int \<Rightarrow> time \<Rightarrow> 'a core_db_scheme \<Rightarrow> nat \<times> 'a core_db_scheme" where
  "incrRate userId action windowSeconds now w =
     (let (c, s) = incrementActionCount userId action windowSeconds now (rd_counters w)
      in (c, w\<lparr>rd_counters := s\<rparr>))"

lemma findActiveUser_Some:
  "findActiveUser i w = Some u \<Longrightarrow>
     u \<in> set (users w) \<and> u_id u = i \<and> u_deletedAt u = None \<and> \<not> u_isBanned u"
  by (auto simp: findActiveUser_def dest: find_row)

lemma updateUser_cases:
  "updateUser i f w =
     (if i \<in> u_id ` set (users w)
      then (Inr (), w\<lparr>users := updateMany (\<lambda>u. u_id u = i) f (users w)\<rparr>)
      else (Inl RecordNotFound, w))"
  by (simp add: updateUser_def write_or_def updateRow_def raise_def ret_def)

lemma incrRate_cases:
  "incrRate u a win now w =
     (Suc (counterGet now (rateKey a u) (rd_counters w)),
      w\<lparr>rd_counters := snd (incrWindow win now (rateKey a u) (rd_counters w))\<rparr>)"
  using fst_incrWindow [of win now "rateKey a u" "rd_counters w"]
  by (auto simp: incrRate_def incrementActionCount_def split: prod.split)

section \<open>Blocks\<close>

text \<open>\<open>block.findFirst({ OR: [{ a, b }, { b, a }] })\<close>, as four services write it.\<close>

definition findBlockEitherWay :: "uid \<Rightarrow> uid \<Rightarrow> 'a core_db_scheme \<Rightarrow> block option" where
  "findBlockEitherWay a b w =
     find (\<lambda>r. bl_initiatorId r = a \<and> bl_targetId r = b \<or> bl_initiatorId r = b \<and> bl_targetId r = a)
       (blocks w)"

definition blockedEitherWay :: "uid \<Rightarrow> uid \<Rightarrow> 'a core_db_scheme \<Rightarrow> bool" where
  "blockedEitherWay a b w \<longleftrightarrow> findBlockEitherWay a b w \<noteq> None"

lemma blockedEitherWay_iff:
  "blockedEitherWay a b w \<longleftrightarrow> (a, b) \<in> blockKey ` set (blocks w) \<or> (b, a) \<in> blockKey ` set (blocks w)"
  by (force simp: blockedEitherWay_def findBlockEitherWay_def find_none image_iff)

lemma blockedEitherWay_sym: "blockedEitherWay a b w = blockedEitherWay b a w"
  by (auto simp: blockedEitherWay_iff)

lemma blockedEitherWay_cong: "blocks w = blocks v \<Longrightarrow> blockedEitherWay a b w = blockedEitherWay a b v"
  by (simp add: blockedEitherWay_iff)

section \<open>Sample states\<close>

text \<open>Small states at which the properties of the later theories are instantiated.\<close>

definition sampleUser :: "uid \<Rightarrow> bool \<Rightarrow> user" where
  "sampleUser i priv =
     \<lparr>u_id = i, u_username = i, u_email = i, u_pendingEmail = None, u_phoneNumber = None,
      u_phoneVerifiedAt = None, u_passwordHash = None, u_appleSub = None, u_googleSub = None,
      u_name = None, u_bio = None, u_avatarUrl = None, u_coverImageUrl = None, u_city = None,
      u_country = None, u_ridingStyle = [], u_isPrivate = priv, u_locationSharing = LS_OFF,
      u_isVerified = False, u_isBanned = False, u_shadowBanned = False, u_role = USER, u_followersCount = 0, u_followingCount = 0,
      u_postsCount = 0, u_xp = 0, u_level = 1, u_preferredLanguage = ''tr'',
      u_eulaAcceptedAt = None, u_lastSeenAt = None, u_usernameChangedAt = None,
      u_createdAt = 0, u_deletedAt = None\<rparr>"

definition sampleCore :: core_db where
  "sampleCore =
     \<lparr>users = [sampleUser ''a'' False, sampleUser ''b'' False, sampleUser ''c'' True],
      blocks = [], follows = [], notifications = [], notificationPrefs = [], bus = [],
      rd_counters = (\<lambda>_. None), rd_keys = [],
      uuidSeq = (\<lambda>n. replicate n (CHR ''u'')), uuidNext = 0\<rparr>"

end
