(* ===== verification/Notifications.thy ===== *)
theory Notifications
  imports Core_Db
begin

text \<open>
  \<open>notifications.service.ts\<close>: preferences (defaults when there is no row, PATCH as an
  upsert of the merged values), the creation of a notification (dropped when its type is
  switched off), the paged listing, marking read and the unread count.
\<close>

section \<open>Preferences\<close>

definition DEFAULT_PREFS :: prefs where
  "DEFAULT_PREFS = \<lparr>pushFollow = True, pushLike = True, pushComment = True, pushMention = True,
     pushParty = True, pushEmergency = True, pushCommunity = True, pushEvent = True,
     emailDigest = False\<rparr>"

text \<open>The PATCH body: the fields that are present.\<close>

record updatePrefsDto =
  up_pushFollow :: "bool option"
  up_pushLike :: "bool option"
  up_pushComment :: "bool option"
  up_pushMention :: "bool option"
  up_pushParty :: "bool option"
  up_pushEmergency :: "bool option"
  up_pushCommunity :: "bool option"
  up_pushEvent :: "bool option"
  up_emailDigest :: "bool option"

definition getPreferences :: "uid \<Rightarrow> 'a core_db_scheme \<Rightarrow> prefs" where
  "getPreferences userId w =
     (case findUnique fst userId (notificationPrefs w) of None \<Rightarrow> DEFAULT_PREFS | Some r \<Rightarrow> snd r)"

definition override :: "'a \<Rightarrow> 'a option \<Rightarrow> 'a" where
  "override current new = (case new of None \<Rightarrow> current | Some x \<Rightarrow> x)"

definition mergePrefs :: "prefs \<Rightarrow> updatePrefsDto \<Rightarrow> prefs" where
  "mergePrefs p d =
     \<lparr>pushFollow = override (pushFollow p) (up_pushFollow d),
      pushLike = override (pushLike p) (up_pushLike d),
      pushComment = override (pushComment p) (up_pushComment d),
      pushMention = override (pushMention p) (up_pushMention d),
      pushParty = override (pushParty p) (up_pushParty d),
      pushEmergency = override (pushEmergency p) (up_pushEmergency d),
      pushCommunity = override (pushCommunity p) (up_pushCommunity d),
      pushEvent = override (pushEvent p) (up_pushEvent d),
      emailDigest = override (emailDigest p) (up_emailDigest d)\<rparr>"

definition updatePreferences ::
  "uid \<Rightarrow> updatePrefsDto \<Rightarrow> 'a core_db_scheme \<Rightarrow> prefs \<times> 'a core_db_scheme" where
  "updatePreferences userId dto w =
     (let next = mergePrefs (getPreferences userId w) dto
      in (next, w\<lparr>notificationPrefs :=
            upsertRow fst userId (userId, next) (\<lambda>r. (fst r, next)) (notificationPrefs w)\<rparr>))"

definition allowsInAppFor :: "uid \<Rightarrow> notificationType \<Rightarrow> 'a core_db_scheme \<Rightarrow> bool" where
  "allowsInAppFor userId ty w =
     (let p = getPreferences userId w in
      case ty of
        N_FOLLOW \<Rightarrow> pushFollow p
      | N_LIKE \<Rightarrow> pushLike p
      | N_COMMENT \<Rightarrow> pushComment p
      | N_MESSAGE \<Rightarrow> pushComment p
      | N_MENTION \<Rightarrow> pushMention p
      | N_PARTY_INVITE \<Rightarrow> pushParty p
      | N_EMERGENCY_NEARBY \<Rightarrow> pushEmergency p
      | N_GROUP_INVITE \<Rightarrow> pushCommunity p
      | N_EVENT_INVITE \<Rightarrow> pushEvent p
      | _ \<Rightarrow> True)"

section \<open>Creating, listing, reading\<close>

definition notify ::
  "uid \<Rightarrow> notificationType \<Rightarrow> string \<Rightarrow> string \<Rightarrow> (string \<times> detail) list \<Rightarrow> time \<Rightarrow>
   'a core_db_scheme \<Rightarrow> (notification option, 'a core_db_scheme) outcome" where
  "notify userId ty title body data now w =
     (if \<not> allowsInAppFor userId ty w then ret None w
      else if \<not> userExists userId w then raise ForeignKeyViolation w
      else let row = \<lparr>no_id = newUuid w, no_userId = userId, no_type = ty, no_title = title,
                      no_body = body, no_data = data, no_isRead = False, no_createdAt = now\<rparr>;
               w1 = takeUuid w
           in and_then
                (write_or UniqueViolation (createRow no_id row (notifications w1))
                   (\<lambda>t. w1\<lparr>notifications := t\<rparr>) w1)
                (\<lambda>_ w2. ret (Some row) w2))"

definition newestFirst :: "notification list \<Rightarrow> notification list" where
  "newestFirst rows = rev (sort_key no_createdAt rows)"

definition listForUser ::
  "uid \<Rightarrow> uid option \<Rightarrow> nat \<Rightarrow> 'a core_db_scheme \<Rightarrow> notification list \<times> uid option" where
  "listForUser userId cursor limit w =
     (let items = afterCursor no_id cursor limit
                    (newestFirst (filter (\<lambda>n. no_userId n = userId) (notifications w)))
      in (items, if length items = limit \<and> items \<noteq> [] then Some (no_id (last items)) else None))"

definition markNotificationsRead ::
  "uid \<Rightarrow> uid list \<Rightarrow> 'a core_db_scheme \<Rightarrow> 'a core_db_scheme" where
  "markNotificationsRead userId ids w =
     w\<lparr>notifications := updateMany
         (\<lambda>n. no_userId n = userId \<and> no_id n \<in> set ids \<and> \<not> no_isRead n)
         (\<lambda>n. n\<lparr>no_isRead := True\<rparr>) (notifications w)\<rparr>"

definition unreadCount :: "uid \<Rightarrow> 'a core_db_scheme \<Rightarrow> nat" where
  "unreadCount userId w = countRows (\<lambda>n. no_userId n = userId \<and> \<not> no_isRead n) (notifications w)"

section \<open>Lemmas\<close>

text \<open>
  What the callers of \<open>notify\<close> rely on: it writes the notifications table and the uuid
  supply, nothing else. \<open>notifier\<close> states this as an interface: a view of the state that
  ignores those two parts does not see the call.
\<close>

lemma notify_writes:
  "\<exists>t n. snd (notify userId ty title body data now w) = w\<lparr>notifications := t, uuidNext := n\<rparr>"
proof (cases "createRow no_id \<lparr>no_id = newUuid w, no_userId = userId, no_type = ty,
    no_title = title, no_body = body, no_data = data, no_isRead = False, no_createdAt = now\<rparr>
    (notifications w)")
  case None
  then have "snd (notify userId ty title body data now w) \<in>
      {w\<lparr>notifications := notifications w, uuidNext := uuidNext w\<rparr>,
       w\<lparr>notifications := notifications w, uuidNext := Suc (uuidNext w)\<rparr>}"
    by (simp add: notify_def takeUuid_def Let_def write_or_def)
  then show ?thesis by blast
next
  case (Some t)
  then have "snd (notify userId ty title body data now w) \<in>
      {w\<lparr>notifications := notifications w, uuidNext := uuidNext w\<rparr>,
       w\<lparr>notifications := t, uuidNext := Suc (uuidNext w)\<rparr>}"
    by (simp add: notify_def takeUuid_def Let_def write_or_def)
  then show ?thesis by blast
qed

locale notifier =
  fixes send :: "uid \<Rightarrow> notificationType \<Rightarrow> string \<Rightarrow> string \<Rightarrow> (string \<times> detail) list \<Rightarrow> time \<Rightarrow>
      'w \<Rightarrow> (notification option, 'w) outcome"
    and view :: "'w \<Rightarrow> 'v"
  assumes send_view: "view (snd (send u ty title body data now w)) = view w"
begin

text \<open>A client's invariant that reads only the view survives any loop of notifications.\<close>

lemma send_all_view:
  "view (snd (for_each (\<lambda>x acc w. and_then (send (to x) (ty x) (ti x) (bo x) (da x) now w)
      (\<lambda>_ w'. ret acc w')) xs acc w)) = view w"
proof (rule inv_for_each [where P = "\<lambda>v. view v = view w"])
  show "view w = view w" ..
  fix x acc v
  assume "view v = view w"
  then show "view (snd (and_then (send (to x) (ty x) (ti x) (bo x) (da x) now v)
      (\<lambda>_ w'. ret acc w'))) = view w"
    by (intro inv_and_then [where P = "\<lambda>v. view v = view w"]) (simp_all add: send_view)
qed

end

text \<open>The tables of the shared state that no notification touches.\<close>

definition quietCore ::
  "'a core_db_scheme \<Rightarrow> user list \<times> block list \<times> follow list \<times> bus_event list \<times> counters \<times> keyspace"
where
  "quietCore w = (users w, blocks w, follows w, bus w, rd_counters w, rd_keys w)"

interpretation in_app: notifier notify quietCore
proof
  fix u ty title body data now and w :: "'a core_db_scheme"
  obtain t n where "snd (notify u ty title body data now w) = w\<lparr>notifications := t, uuidNext := n\<rparr>"
    using notify_writes by blast
  then show "quietCore (snd (notify u ty title body data now w)) = quietCore w"
    by (simp add: quietCore_def)
qed

end
