(* ===== verification/Pagination.thy ===== *)
theory Pagination
  imports Prelude "HOL-Library.Multiset"
begin

text \<open>
  Keyset pagination as the follow lists and the community and event searches write it:
  \<open>where id > cursor\<close>, \<open>orderBy id\<close>, \<open>take limit + 1\<close>, the extra row only telling that
  there is more. \<open>walkPages\<close> is a client that follows \<open>nextCursor\<close> until it is null; the
  theorem of this theory is that it reads every row once, in order.
\<close>

definition keysetRows :: "('r \<Rightarrow> uid) \<Rightarrow> uid option \<Rightarrow> 'r list \<Rightarrow> 'r list" where
  "keysetRows rid cursor rows =
     sort_key rid (filter (\<lambda>r. case cursor of None \<Rightarrow> True | Some c \<Rightarrow> c < rid r) rows)"

definition keysetPage :: "('r \<Rightarrow> uid) \<Rightarrow> uid option \<Rightarrow> nat \<Rightarrow> 'r list \<Rightarrow> 'r list \<times> uid option" where
  "keysetPage rid cursor limit rows = pageOf rid limit (take (limit + 1) (keysetRows rid cursor rows))"

text \<open>The client: at most \<open>fuel\<close> requests, \<open>None\<close> when the fuel runs out first.\<close>

fun walkPages :: "nat \<Rightarrow> (uid option \<Rightarrow> 'x list \<times> uid option) \<Rightarrow> uid option \<Rightarrow> 'x list option" where
  "walkPages 0 query cursor = None"
| "walkPages (Suc fuel) query cursor =
     (case query cursor of
        (page, None) \<Rightarrow> Some page
      | (page, Some c) \<Rightarrow> map_option (\<lambda>rest. page @ rest) (walkPages fuel query (Some c)))"

lemma walkPages_hom:
  assumes "\<And>c. query' c = (h (fst (query c)), snd (query c))"
    and "\<And>xs ys. h (xs @ ys) = h xs @ h ys"
  shows "walkPages fuel query' cursor = map_option h (walkPages fuel query cursor)"
proof (induction fuel arbitrary: cursor)
  case 0
  then show ?case by simp
next
  case (Suc fuel)
  obtain page nxt where q: "query cursor = (page, nxt)" by (cases "query cursor")
  with assms(1) have "query' cursor = (h page, nxt)" by simp
  with q Suc show ?case
    by (cases nxt) (auto simp: option.map_comp comp_def assms(2) intro: map_option_cong)
qed

subsection \<open>One page\<close>

text \<open>A page of a listing \<open>rows\<close> that is already ordered, after the first \<open>pre\<close> rows.\<close>

lemma strictly_sorted_after:
  assumes "sorted (map rid (pre @ x # rest))" and "distinct (map rid (pre @ x # rest))"
  shows "filter (\<lambda>r. rid x < rid r) (pre @ x # rest) = (rest :: 'r list)"
proof -
  have "\<not> rid x < rid r" if "r \<in> set pre" for r
    using assms that by (auto simp: sorted_append)
  moreover have "rid x < rid r" if "r \<in> set rest" for r
    using assms that by (force simp: sorted_append order.strict_iff_order image_iff)
  ultimately show ?thesis by (simp add: filter_True)
qed

lemma keysetRows_start: "keysetRows rid None rows = sort_key rid rows"
  by (simp add: keysetRows_def)

lemma keysetRows_after:
  assumes "sort_key rid rows = pre @ x # rest" and "distinct (map rid rows)"
  shows "keysetRows rid (Some (rid x)) rows = rest"
proof -
  have "mset (map rid (sort_key rid rows)) = mset (map rid rows)"
    by (metis mset_map mset_sort)
  then have "distinct (map rid (sort_key rid rows))"
    using assms(2) by (metis mset_eq_imp_distinct_iff)
  moreover have "sorted (map rid (sort_key rid rows))" by simp
  moreover have "keysetRows rid (Some (rid x)) rows = filter (\<lambda>r. rid x < rid r) (sort_key rid rows)"
    by (simp add: keysetRows_def filter_sort)
  ultimately show ?thesis
    unfolding assms(1) using strictly_sorted_after by metis
qed

lemma keysetPage_cases:
  assumes "keysetRows rid cursor rows = rest" and "0 < limit"
  shows "keysetPage rid cursor limit rows =
    (if length rest > limit then (take limit rest, Some (rid (rest ! (limit - 1)))) else (rest, None))"
proof -
  have "last (take limit rest) = rest ! (limit - 1)" if "limit < length rest"
    using that assms(2) by (subst last_conv_nth) (auto simp: min_def)
  with assms show ?thesis
    by (auto simp: keysetPage_def pageOf_def Let_def min_def)
qed

subsection \<open>All pages\<close>

lemma walkPages_rest:
  assumes "sort_key rid rows = pre @ rest" and "distinct (map rid rows)" and "0 < limit"
    and "keysetRows rid cursor rows = rest" and "length rest < fuel"
  shows "walkPages fuel (\<lambda>c. keysetPage rid c limit rows) cursor = Some rest"
  using assms(1,4,5)
proof (induction fuel arbitrary: cursor pre rest)
  case 0
  then show ?case by simp
next
  case (Suc fuel)
  show ?case
  proof (cases "length rest > limit")
    case False
    with Suc.prems assms(3) keysetPage_cases [OF Suc.prems(2) assms(3)] show ?thesis by simp
  next
    case True
    define x where "x = rest ! (limit - 1)"
    have split: "rest = take (limit - 1) rest @ x # drop limit rest"
      using id_take_nth_drop [of "limit - 1" rest] True assms(3) by (simp add: x_def)
    have page: "take limit rest = take (limit - 1) rest @ [x]"
      using take_Suc_conv_app_nth [of "limit - 1" rest] True assms(3) by (simp add: x_def)
    have "sort_key rid rows = (pre @ take (limit - 1) rest) @ x # drop limit rest"
      using Suc.prems(1) split by simp
    then have after: "keysetRows rid (Some (rid x)) rows = drop limit rest"
      using assms(2) by (rule keysetRows_after)
    have "sort_key rid rows = (pre @ take limit rest) @ drop limit rest"
      using Suc.prems(1) by simp
    then have "walkPages fuel (\<lambda>c. keysetPage rid c limit rows) (Some (rid x)) = Some (drop limit rest)"
      by (rule Suc.IH) (use after Suc.prems(3) True assms(3) in auto)
    with True keysetPage_cases [OF Suc.prems(2) assms(3)] show ?thesis by (simp add: x_def)
  qed
qed

lemma walkPages_all:
  assumes "distinct (map rid rows)" and "0 < limit" and "length rows < fuel"
  shows "walkPages fuel (\<lambda>c. keysetPage rid c limit rows) None = Some (sort_key rid rows)"
  by (rule walkPages_rest [where pre = "[]"]) (use assms in \<open>simp_all add: keysetRows_start\<close>)

lemma keysetPage_subset: "set (fst (keysetPage rid cursor limit rows)) \<subseteq> set rows"
proof -
  have "set (fst (keysetPage rid cursor limit rows)) \<subseteq> set (take (limit + 1) (keysetRows rid cursor rows))"
    unfolding keysetPage_def by (rule set_pageOf)
  moreover have "set (take n (keysetRows rid cursor rows)) \<subseteq> set rows" for n
    using set_take_subset [of n "keysetRows rid cursor rows"] by (auto simp: keysetRows_def)
  ultimately show ?thesis by blast
qed

lemma keysetPage_length: "length (fst (keysetPage rid cursor limit rows)) \<le> limit"
  by (simp add: keysetPage_def pageOf_length)


section \<open>Cursor pages\<close>

text \<open>
  The other way of paging (\<open>cursor: { id }, skip: 1, take: limit\<close>, a next cursor whenever
  the page is full): the feed, the comments, the posts of a profile.
\<close>

definition cursorPage :: "('r \<Rightarrow> uid) \<Rightarrow> uid option \<Rightarrow> nat \<Rightarrow> 'r list \<Rightarrow> 'r list \<times> uid option" where
  "cursorPage rid cursor limit rows =
     (let page = afterCursor rid cursor limit rows
      in (page, if length page = limit \<and> page \<noteq> [] then Some (rid (last page)) else None))"

lemma drop_to_cursor:
  assumes "rows = pre @ x # rest" and "distinct (map rid rows)"
  shows "drop 1 (dropWhile (\<lambda>r. rid r \<noteq> rid x) rows) = rest"
proof -
  have "\<forall>r \<in> set pre. rid r \<noteq> rid x" using assms by (force simp: image_iff)
  then have "dropWhile (\<lambda>r. rid r \<noteq> rid x) rows = x # rest"
    unfolding assms(1) by (subst dropWhile_append2) auto
  then show ?thesis by simp
qed

lemma walkPages_cursor_rest:
  assumes "rows = pre @ rest" and "distinct (map rid rows)" and "0 < limit"
    and "afterCursor rid cursor limit rows = take limit rest" and "length rest < fuel"
  shows "walkPages fuel (\<lambda>c. cursorPage rid c limit rows) cursor = Some rest"
  using assms(1,4,5)
proof (induction fuel arbitrary: cursor pre rest)
  case 0
  then show ?case by simp
next
  case (Suc fuel)
  show ?case
  proof (cases "length (take limit rest) = limit")
    case False
    with Suc.prems show ?thesis by (simp add: cursorPage_def min_def split: if_splits)
  next
    case True
    with assms(3) have ne: "take limit rest \<noteq> []" by auto
    define x where "x = last (take limit rest)"
    have page: "take limit rest = butlast (take limit rest) @ [x]"
      using ne by (simp add: x_def)
    have split: "rows = (pre @ butlast (take limit rest)) @ x # drop limit rest"
      using Suc.prems(1) page by (metis append.assoc append_Cons append_Nil append_take_drop_id)
    have "afterCursor rid (Some (rid x)) limit rows = take limit (drop limit rest)"
      using drop_to_cursor [OF split assms(2)] by (simp add: afterCursor_def)
    moreover have "rows = (pre @ take limit rest) @ drop limit rest" using Suc.prems(1) by simp
    moreover have "length (drop limit rest) < fuel" using Suc.prems(3) True assms(3) by simp
    ultimately have "walkPages fuel (\<lambda>c. cursorPage rid c limit rows) (Some (rid x)) = Some (drop limit rest)"
      using Suc.IH by blast
    with True ne Suc.prems(2) show ?thesis by (simp add: cursorPage_def x_def [symmetric])
  qed
qed

lemma walkPages_cursor:
  assumes "distinct (map rid rows)" and "0 < limit" and "length rows < fuel"
  shows "walkPages fuel (\<lambda>c. cursorPage rid c limit rows) None = Some rows"
  by (rule walkPages_cursor_rest [where pre = "[]"]) (use assms in \<open>simp_all add: afterCursor_def\<close>)

section \<open>Cursor pages with a look-ahead row\<close>

text \<open>\<open>cursor: { id }, skip: 1, take: limit + 1\<close>, the extra row only telling that there is more.\<close>

definition lookaheadPage :: "('r \<Rightarrow> uid) \<Rightarrow> uid option \<Rightarrow> nat \<Rightarrow> 'r list \<Rightarrow> 'r list \<times> uid option" where
  "lookaheadPage rid cursor limit rows = pageOf rid limit (afterCursor rid cursor (limit + 1) rows)"

lemma walkPages_lookahead_rest:
  assumes "rows = pre @ rest" and "distinct (map rid rows)" and "0 < limit"
    and "afterCursor rid cursor (limit + 1) rows = take (limit + 1) rest" and "length rest < fuel"
  shows "walkPages fuel (\<lambda>c. lookaheadPage rid c limit rows) cursor = Some rest"
  using assms(1,4,5)
proof (induction fuel arbitrary: cursor pre rest)
  case 0
  then show ?case by simp
next
  case (Suc fuel)
  show ?case
  proof (cases "limit < length rest")
    case False
    with Suc.prems show ?thesis by (simp add: lookaheadPage_def pageOf_def)
  next
    case True
    with assms(3) have ne: "take limit rest \<noteq> []" by auto
    define x where "x = last (take limit rest)"
    have page: "take limit rest = butlast (take limit rest) @ [x]"
      using ne by (simp add: x_def)
    have split: "rows = (pre @ butlast (take limit rest)) @ x # drop limit rest"
      using Suc.prems(1) page by (metis append.assoc append_Cons append_Nil append_take_drop_id)
    have "afterCursor rid (Some (rid x)) (limit + 1) rows = take (limit + 1) (drop limit rest)"
      using drop_to_cursor [OF split assms(2)] by (simp add: afterCursor_def)
    moreover have "rows = (pre @ take limit rest) @ drop limit rest" using Suc.prems(1) by simp
    moreover have "length (drop limit rest) < fuel" using Suc.prems(3) True assms(3) by simp
    ultimately have "walkPages fuel (\<lambda>c. lookaheadPage rid c limit rows) (Some (rid x)) = Some (drop limit rest)"
      using Suc.IH by blast
    with True ne Suc.prems(2) show ?thesis
      by (simp add: lookaheadPage_def pageOf_def x_def [symmetric] min_def)
  qed
qed

lemma walkPages_lookahead:
  assumes "distinct (map rid rows)" and "0 < limit" and "length rows < fuel"
  shows "walkPages fuel (\<lambda>c. lookaheadPage rid c limit rows) None = Some rows"
  by (rule walkPages_lookahead_rest [where pre = "[]"]) (use assms in \<open>simp_all add: afterCursor_def\<close>)

end
