(* ===== verification/Social.thy ===== *)
theory Social
  imports Notifications Pagination
begin

text \<open>
  \<open>follows.service.ts\<close> and \<open>blocks.service.ts\<close>: following and unfollowing with the two
  counters of the users, the paged follower and following lists of a profile as a viewer
  sees them, blocking (which unfollows both ways) and unblocking. Both services act on the
  shared tables, so the operations are defined on every extension of \<open>core_db\<close>.
\<close>

section \<open>follows.service.ts\<close>

definition addFollowers :: "int \<Rightarrow> user \<Rightarrow> user" where
  "addFollowers n u = u\<lparr>u_followersCount := u_followersCount u + n\<rparr>"

definition addFollowing :: "int \<Rightarrow> user \<Rightarrow> user" where
  "addFollowing n u = u\<lparr>u_followingCount := u_followingCount u + n\<rparr>"

definition follow ::
  "uid \<Rightarrow> uid \<Rightarrow> 'a core_db_scheme \<Rightarrow> (followStatus, 'a core_db_scheme) outcome" where
  "follow followerId followingId w =
     (if followerId = followingId then throwHttp BadRequest ''cannot_follow_self'' VALIDATION_FAILED w
      else case findActiveUser followingId w of
        None \<Rightarrow> throwHttp NotFound ''user_not_found'' NOT_FOUND w
      | Some target \<Rightarrow>
          if findBlockEitherWay followerId followingId w \<noteq> None
          then throwHttp BadRequest ''blocked'' BLOCKED w
          else let status = (if u_isPrivate target then F_PENDING else F_ACCEPTED) in
            and_then
              (transaction
                 (\<lambda>w. let w1 = (takeUuid w)\<lparr>follows := upsertRow followKey (followerId, followingId)
                          \<lparr>fo_id = newUuid w, fo_followerId = followerId,
                           fo_followingId = followingId, fo_status = status\<rparr>
                          (\<lambda>r. r\<lparr>fo_status := status\<rparr>) (follows w)\<rparr>
                      in if status = F_ACCEPTED
                         then and_then (updateUser followingId (addFollowers 1) w1)
                                (\<lambda>_ w2. updateUser followerId (addFollowing 1) w2)
                         else ret () w1) w)
              (\<lambda>_ w3. ret status
                 (if status = F_ACCEPTED
                  then emitEvent (GamificationTrigger followingId FOLLOW_GAINED 1
                         [(''followerId'', followerId)]) w3
                  else w3)))"

definition unfollow :: "uid \<Rightarrow> uid \<Rightarrow> 'a core_db_scheme \<Rightarrow> (unit, 'a core_db_scheme) outcome" where
  "unfollow followerId followingId w =
     (case findUnique followKey (followerId, followingId) (follows w) of
        None \<Rightarrow> ret () w
      | Some existing \<Rightarrow>
          transaction
            (\<lambda>w. and_then
               (write_or RecordNotFound (deleteRow followKey (followerId, followingId) (follows w))
                  (\<lambda>t. w\<lparr>follows := t\<rparr>) w)
               (\<lambda>_ w1. if fo_status existing = F_ACCEPTED
                  then and_then (updateUser followingId (addFollowers (-1)) w1)
                         (\<lambda>_ w2. updateUser followerId (addFollowing (-1)) w2)
                  else ret () w1)) w)"

definition isFollowing :: "uid \<Rightarrow> uid \<Rightarrow> 'a core_db_scheme \<Rightarrow> bool" where
  "isFollowing followerId followingId w =
     (case findUnique followKey (followerId, followingId) (follows w) of
        None \<Rightarrow> False | Some f \<Rightarrow> fo_status f = F_ACCEPTED)"

subsection \<open>The lists of a profile\<close>

text \<open>The columns of \<open>FOLLOW_LIST_USER_SELECT\<close>.\<close>

record followListUser =
  fl_id :: uid
  fl_username :: string
  fl_name :: "string option"
  fl_bio :: "string option"
  fl_avatarUrl :: "string option"
  fl_coverImageUrl :: "string option"
  fl_city :: "string option"
  fl_country :: "string option"
  fl_ridingStyle :: "string list"
  fl_isPrivate :: bool
  fl_isVerified :: bool
  fl_followersCount :: int
  fl_followingCount :: int
  fl_postsCount :: int
  fl_xp :: int
  fl_level :: int
  fl_createdAt :: time
  fl_isFollowedByMe :: bool

definition toFollowListUser :: "bool \<Rightarrow> user \<Rightarrow> followListUser" where
  "toFollowListUser followed u =
     \<lparr>fl_id = u_id u, fl_username = u_username u, fl_name = u_name u, fl_bio = u_bio u,
      fl_avatarUrl = u_avatarUrl u, fl_coverImageUrl = u_coverImageUrl u, fl_city = u_city u,
      fl_country = u_country u, fl_ridingStyle = u_ridingStyle u, fl_isPrivate = u_isPrivate u,
      fl_isVerified = u_isVerified u, fl_followersCount = u_followersCount u,
      fl_followingCount = u_followingCount u, fl_postsCount = u_postsCount u, fl_xp = u_xp u,
      fl_level = u_level u, fl_createdAt = u_createdAt u, fl_isFollowedByMe = followed\<rparr>"

definition assertViewableUser :: "uid \<Rightarrow> 'a core_db_scheme \<Rightarrow> (unit, 'a core_db_scheme) outcome" where
  "assertViewableUser userId w =
     (if findActiveUser userId w = None then throwHttp NotFound ''user_not_found'' NOT_FOUND w
      else ret () w)"

text \<open>\<open>viewerBlockedPeerIds\<close> of the follows service and \<open>peersBlockedEitherWay\<close> of the blocks
  service: the other side of every block the viewer takes part in.\<close>

definition peersBlockedEitherWay :: "uid \<Rightarrow> 'a core_db_scheme \<Rightarrow> uid list" where
  "peersBlockedEitherWay viewerId w =
     remdups (map (\<lambda>r. if bl_initiatorId r = viewerId then bl_targetId r else bl_initiatorId r)
       (filter (\<lambda>r. bl_initiatorId r = viewerId \<or> bl_targetId r = viewerId) (blocks w)))"

definition batchIsFollowedByMe :: "uid \<Rightarrow> uid list \<Rightarrow> 'a core_db_scheme \<Rightarrow> uid list" where
  "batchIsFollowedByMe viewerId targetUserIds w =
     (if targetUserIds = [] then []
      else map fo_followingId
        (filter (\<lambda>r. fo_followerId r = viewerId \<and> fo_followingId r \<in> set targetUserIds \<and>
                     fo_status r = F_ACCEPTED) (follows w)))"

definition buildFollowListPage ::
  "uid \<Rightarrow> uid list \<Rightarrow> 'a core_db_scheme \<Rightarrow> followListUser list" where
  "buildFollowListPage viewerId ids w =
     (let page = List.map_filter (\<lambda>i. findUser i w) ids;
          followed = batchIsFollowedByMe viewerId (map u_id page) w
      in map (\<lambda>u. toFollowListUser (u_id u \<in> set followed) u) page)"

definition followerRows :: "uid \<Rightarrow> uid \<Rightarrow> 'a core_db_scheme \<Rightarrow> follow list" where
  "followerRows viewerId profileUserId w =
     filter (\<lambda>r. fo_followingId r = profileUserId \<and> fo_status r = F_ACCEPTED \<and>
                 fo_followerId r \<notin> set (peersBlockedEitherWay viewerId w)) (follows w)"

definition followingRows :: "uid \<Rightarrow> uid \<Rightarrow> 'a core_db_scheme \<Rightarrow> follow list" where
  "followingRows viewerId profileUserId w =
     filter (\<lambda>r. fo_followerId r = profileUserId \<and> fo_status r = F_ACCEPTED \<and>
                 fo_followingId r \<notin> set (peersBlockedEitherWay viewerId w)) (follows w)"

definition listFollowersForProfile ::
  "uid \<Rightarrow> uid \<Rightarrow> uid option \<Rightarrow> nat \<Rightarrow> 'a core_db_scheme \<Rightarrow>
   (followListUser list \<times> uid option, 'a core_db_scheme) outcome" where
  "listFollowersForProfile viewerId profileUserId cursor limit w =
     and_then (assertViewableUser profileUserId w)
       (\<lambda>_ w. let (page, nextCursor) =
                    keysetPage fo_id cursor limit (followerRows viewerId profileUserId w)
              in ret (buildFollowListPage viewerId (map fo_followerId page) w, nextCursor) w)"

definition listFollowingForProfile ::
  "uid \<Rightarrow> uid \<Rightarrow> uid option \<Rightarrow> nat \<Rightarrow> 'a core_db_scheme \<Rightarrow>
   (followListUser list \<times> uid option, 'a core_db_scheme) outcome" where
  "listFollowingForProfile viewerId profileUserId cursor limit w =
     and_then (assertViewableUser profileUserId w)
       (\<lambda>_ w. let (page, nextCursor) =
                    keysetPage fo_id cursor limit (followingRows viewerId profileUserId w)
              in ret (buildFollowListPage viewerId (map fo_followingId page) w, nextCursor) w)"

section \<open>blocks.service.ts\<close>

definition listInitiated :: "uid \<Rightarrow> 'a core_db_scheme \<Rightarrow> (uid \<times> uid \<times> time) list" where
  "listInitiated initiatorId w =
     map (\<lambda>r. (bl_id r, bl_targetId r, bl_createdAt r))
       (rev (sort_key bl_createdAt (filter (\<lambda>r. bl_initiatorId r = initiatorId) (blocks w))))"

definition blockUser ::
  "uid \<Rightarrow> uid \<Rightarrow> time \<Rightarrow> 'a core_db_scheme \<Rightarrow> (uid \<times> time, 'a core_db_scheme) outcome" where
  "blockUser initiatorId targetId now w =
     (if initiatorId = targetId then throwHttp BadRequest ''cannot_block_self'' VALIDATION_FAILED w
      else if findActiveUser targetId w = None then throwHttp NotFound ''user_not_found'' NOT_FOUND w
      else and_then (unfollow initiatorId targetId w)
        (\<lambda>_ w1. and_then (unfollow targetId initiatorId w1)
          (\<lambda>_ w2. let w3 = (takeUuid w2)\<lparr>blocks := upsertRow blockKey (initiatorId, targetId)
                      \<lparr>bl_id = newUuid w2, bl_initiatorId = initiatorId, bl_targetId = targetId,
                       bl_createdAt = now\<rparr> (\<lambda>r. r) (blocks w2)\<rparr>
                  in case findUnique blockKey (initiatorId, targetId) (blocks w3) of
                       None \<Rightarrow> raise RecordNotFound w3
                     | Some row \<Rightarrow> ret (bl_targetId row, bl_createdAt row) w3)))"

definition unblockUser :: "uid \<Rightarrow> uid \<Rightarrow> 'a core_db_scheme \<Rightarrow> 'a core_db_scheme" where
  "unblockUser initiatorId targetId w =
     w\<lparr>blocks := deleteMany (\<lambda>r. bl_initiatorId r = initiatorId \<and> bl_targetId r = targetId) (blocks w)\<rparr>"

section \<open>Lemmas\<close>

text \<open>The shared tables are well formed: their unique indexes hold.\<close>

definition socialWf :: "'a core_db_scheme \<Rightarrow> bool" where
  "socialWf w \<longleftrightarrow> unique u_id (users w) \<and> unique followKey (follows w) \<and> unique blockKey (blocks w)"

subsection \<open>Unfollowing\<close>

text \<open>What \<open>unfollow\<close> does when both users exist, as a function of the tables.\<close>

definition afterUnfollow :: "uid \<Rightarrow> uid \<Rightarrow> follow list \<Rightarrow> user list \<Rightarrow> user list" where
  "afterUnfollow a b fs us =
     (case findUnique followKey (a, b) fs of
        None \<Rightarrow> us
      | Some r \<Rightarrow> if fo_status r = F_ACCEPTED
          then updateMany (\<lambda>u. u_id u = a) (addFollowing (-1))
                 (updateMany (\<lambda>u. u_id u = b) (addFollowers (-1)) us)
          else us)"

lemma ids_updateMany_users [simp]:
  "map u_id (updateMany P (addFollowers n) us) = map u_id us"
  "map u_id (updateMany P (addFollowing n) us) = map u_id us"
  by (simp_all add: map_updateMany addFollowers_def addFollowing_def)

lemma id_set_updateMany_users [simp]:
  "u_id ` set (updateMany P (addFollowers n) us) = u_id ` set us"
  "u_id ` set (updateMany P (addFollowing n) us) = u_id ` set us"
  by (metis ids_updateMany_users(1) list.set_map, metis ids_updateMany_users(2) list.set_map)

lemma unfollow_ok:
  assumes "userExists a w" and "userExists b w"
  shows "unfollow a b w =
    (Inr (), w\<lparr>follows := deleteMany (\<lambda>r. followKey r = (a, b)) (follows w),
               users := afterUnfollow a b (follows w) (users w)\<rparr>)"
proof (cases "findUnique followKey (a, b) (follows w)")
  case None
  then have "deleteMany (\<lambda>r. followKey r = (a, b)) (follows w) = follows w"
    unfolding findUnique_None deleteMany_def by (intro filter_True) force
  with None show ?thesis by (simp add: unfollow_def afterUnfollow_def ret_def)
next
  case (Some r)
  then have "(a, b) \<in> followKey ` set (follows w)"
    using findUnique_None by (metis option.distinct(1))
  moreover have "a \<in> u_id ` set (users w)" "b \<in> u_id ` set (users w)"
    using assms by (simp_all add: userExists_def findUser_def findUnique_None)
  ultimately show ?thesis using Some
    by (simp add: unfollow_def afterUnfollow_def transaction_def write_or_def deleteRow_def
        updateUser_cases ret_def)
qed

text \<open>In every case \<open>unfollow\<close> touches the two tables only, and removes at most the one row.\<close>

lemma unfollow_frame:
  "\<exists>fs us. snd (unfollow a b w) = w\<lparr>follows := fs, users := us\<rparr> \<and> map u_id us = map u_id (users w) \<and>
     (unique followKey (follows w) \<longrightarrow> unique followKey fs)"
proof -
  have "snd (unfollow a b w) \<in> {w, w\<lparr>follows := deleteMany (\<lambda>r. followKey r = (a, b)) (follows w),
      users := afterUnfollow a b (follows w) (users w)\<rparr>}"
    by (auto simp: unfollow_def afterUnfollow_def transaction_def write_or_def deleteRow_def
        updateUser_cases ret_def raise_def split: option.splits)
  then show ?thesis
  proof
    assume "snd (unfollow a b w) = w"
    then show ?thesis by (intro exI [of _ "follows w"] exI [of _ "users w"]) simp
  next
    assume "snd (unfollow a b w) \<in> {w\<lparr>follows := deleteMany (\<lambda>r. followKey r = (a, b)) (follows w),
      users := afterUnfollow a b (follows w) (users w)\<rparr>}"
    moreover have "map u_id (afterUnfollow a b (follows w) (users w)) = map u_id (users w)"
      by (simp add: afterUnfollow_def split: option.split)
    ultimately show ?thesis by (auto intro: unique_deleteMany)
  qed
qed

lemma unfollow_wf: "socialWf w \<Longrightarrow> socialWf (snd (unfollow a b w))"
  using unfollow_frame [of a b w] by (auto simp: socialWf_def)

lemma userExists_unfollow: "userExists c (snd (unfollow a b w)) = userExists c w"
proof -
  obtain fs us where "snd (unfollow a b w) = w\<lparr>follows := fs, users := us\<rparr>"
    and "map u_id us = map u_id (users w)"
    using unfollow_frame by blast
  then have "u_id ` set (users (snd (unfollow a b w))) = u_id ` set (users w)"
    by (metis core_db.select_convs(1) core_db.surjective core_db.update_convs(1) core_db.update_convs(3) list.set_map)
  then show ?thesis by (simp add: userExists_def findUser_def findUnique_None)
qed

text \<open>A call that returns did exactly that.\<close>

lemma unfollow_Inr:
  assumes "fst (unfollow a b w) = Inr x"
  shows "snd (unfollow a b w) = w\<lparr>follows := deleteMany (\<lambda>r. followKey r = (a, b)) (follows w),
      users := afterUnfollow a b (follows w) (users w)\<rparr>"
proof (cases "findUnique followKey (a, b) (follows w)")
  case None
  then have "deleteMany (\<lambda>r. followKey r = (a, b)) (follows w) = follows w"
    unfolding findUnique_None deleteMany_def by (intro filter_True) force
  with None show ?thesis by (simp add: unfollow_def afterUnfollow_def)
next
  case (Some r)
  with assms show ?thesis
    by (auto simp: unfollow_def afterUnfollow_def transaction_def write_or_def deleteRow_def
        updateUser_cases ret_def raise_def split: if_splits)
qed

subsection \<open>Blocking\<close>

lemma peersBlockedEitherWay_set:
  "p \<in> set (peersBlockedEitherWay v w) \<longleftrightarrow> blockedEitherWay v p w"
  by (force simp: peersBlockedEitherWay_def blockedEitherWay_iff image_iff split: if_splits)

lemma blockUser_Inr:
  assumes "blockUser a b now w = (Inr r, w')"
  shows "a \<noteq> b" and "findActiveUser b w \<noteq> None"
    and "(a, b) \<in> blockKey ` set (blocks w')"
    and "map u_id (users w') = map u_id (users w)"
    and "\<exists>w1. fst (unfollow a b w) = Inr () \<and> w1 = snd (unfollow a b w) \<and>
           fst (unfollow b a w1) = Inr () \<and> follows w' = follows (snd (unfollow b a w1)) \<and>
           users w' = users (snd (unfollow b a w1))"
    and "blocks w' = upsertRow blockKey (a, b) \<lparr>bl_id = newUuid w, bl_initiatorId = a,
           bl_targetId = b, bl_createdAt = now\<rparr> (\<lambda>r. r) (blocks w)"
proof -
  show ne: "a \<noteq> b" and act: "findActiveUser b w \<noteq> None"
    using assms by (auto simp: blockUser_def throwHttp_def raise_def split: if_splits)
  obtain w1 where 1: "unfollow a b w = (Inr (), w1)"
    using assms ne act by (auto simp: blockUser_def split: and_then_splits)
  obtain w2 where 2: "unfollow b a w1 = (Inr (), w2)"
    using assms ne act 1 by (auto simp: blockUser_def split: and_then_splits)
  let ?row = "\<lparr>bl_id = newUuid w2, bl_initiatorId = a, bl_targetId = b, bl_createdAt = now\<rparr>"
  have w1: "w1 = w\<lparr>follows := follows w1, users := users w1\<rparr> \<and> map u_id (users w1) = map u_id (users w)"
    using unfollow_frame [of a b w] 1 by auto
  have w2: "w2 = w1\<lparr>follows := follows w2, users := users w2\<rparr> \<and> map u_id (users w2) = map u_id (users w1)"
    using unfollow_frame [of b a w1] 2 by auto
  have w': "w' = (takeUuid w2)\<lparr>blocks := upsertRow blockKey (a, b) ?row (\<lambda>r. r) (blocks w2)\<rparr>"
    using assms ne act 1 2
    by (auto simp: blockUser_def Let_def raise_def ret_def split: option.splits)
  have same: "blocks w2 = blocks w" "newUuid w2 = newUuid w"
    using w1 w2 by (metis core_db.select_convs(2) core_db.surjective core_db.update_convs(1,3),
        metis newUuid_def core_db.select_convs(9,10) core_db.surjective core_db.update_convs(1,3))
  show "blocks w' = upsertRow blockKey (a, b) \<lparr>bl_id = newUuid w, bl_initiatorId = a,
      bl_targetId = b, bl_createdAt = now\<rparr> (\<lambda>r. r) (blocks w)"
    using w' same by (simp add: takeUuid_def)
  then show "(a, b) \<in> blockKey ` set (blocks w')"
    by (simp add: keys_upsertRow)
  show "map u_id (users w') = map u_id (users w)"
    using w' w1 w2 by (simp add: takeUuid_def)
  show "\<exists>w1. fst (unfollow a b w) = Inr () \<and> w1 = snd (unfollow a b w) \<and>
      fst (unfollow b a w1) = Inr () \<and> follows w' = follows (snd (unfollow b a w1)) \<and>
      users w' = users (snd (unfollow b a w1))"
    using 1 2 w' by (simp add: takeUuid_def)
qed

lemma follow_blocked:
  "a \<noteq> b \<Longrightarrow> findActiveUser b w \<noteq> None \<Longrightarrow> blockedEitherWay a b w \<Longrightarrow>
   follow a b w = throwHttp BadRequest ''blocked'' BLOCKED w"
  by (auto simp: follow_def blockedEitherWay_def)

lemma follow_refused: "blockedEitherWay a b w \<Longrightarrow> \<exists>e. follow a b w = (Inl e, w)"
  by (auto simp: follow_def blockedEitherWay_def throwHttp_def raise_def split: option.split)

subsection \<open>The two counters\<close>

definition followersOf :: "uid \<Rightarrow> 'a core_db_scheme \<Rightarrow> nat" where
  "followersOf i w = countRows (\<lambda>r. fo_followingId r = i \<and> fo_status r = F_ACCEPTED) (follows w)"

definition followingOf :: "uid \<Rightarrow> 'a core_db_scheme \<Rightarrow> nat" where
  "followingOf i w = countRows (\<lambda>r. fo_followerId r = i \<and> fo_status r = F_ACCEPTED) (follows w)"

definition countersAgree :: "'a core_db_scheme \<Rightarrow> bool" where
  "countersAgree w \<longleftrightarrow> (\<forall>u \<in> set (users w).
     u_followersCount u = int (followersOf (u_id u) w) \<and>
     u_followingCount u = int (followingOf (u_id u) w))"

lemma countersAgreeI:
  assumes "countersAgree w"
    and "users w' = updateMany (\<lambda>u. u_id u = a) (addFollowing n) (updateMany (\<lambda>u. u_id u = b) (addFollowers n) (users w))"
    and "\<And>i. int (followersOf i w') = int (followersOf i w) + (if i = b then n else 0)"
    and "\<And>i. int (followingOf i w') = int (followingOf i w) + (if i = a then n else 0)"
  shows "countersAgree w'"
  unfolding countersAgree_def
proof
  fix u
  assume "u \<in> set (users w')"
  then obtain v where v: "v \<in> set (users w)"
    and u: "u_id u = u_id v" "u_followersCount u = u_followersCount v + (if u_id v = b then n else 0)"
      "u_followingCount u = u_followingCount v + (if u_id v = a then n else 0)"
    unfolding assms(2) set_updateMany by (auto simp: addFollowers_def addFollowing_def)
  have "u_followersCount v = int (followersOf (u_id v) w)"
    "u_followingCount v = int (followingOf (u_id v) w)"
    using assms(1) v by (simp_all add: countersAgree_def)
  then show "u_followersCount u = int (followersOf (u_id u) w') \<and>
      u_followingCount u = int (followingOf (u_id u) w')"
    by (simp add: u assms(3,4))
qed

lemma countersAgree_cong:
  "users w' = users w \<Longrightarrow> follows w' = follows w \<Longrightarrow> countersAgree w' = countersAgree w"
  by (simp add: countersAgree_def followersOf_def followingOf_def)

lemma unfollow_agrees:
  assumes wf: "socialWf w" and agree: "countersAgree w"
  shows "countersAgree (snd (unfollow a b w))"
proof (cases "\<exists>x. fst (unfollow a b w) = Inr x")
  case False
  then have "snd (unfollow a b w) = w"
    by (auto simp: unfollow_def transaction_def split: option.splits prod.splits sum.splits)
  with agree show ?thesis by simp
next
  case True
  then have eq: "snd (unfollow a b w) = w\<lparr>follows := deleteMany (\<lambda>r. followKey r = (a, b)) (follows w),
      users := afterUnfollow a b (follows w) (users w)\<rparr>"
    using unfollow_Inr by blast
  show ?thesis
  proof (cases "findUnique followKey (a, b) (follows w)")
    case None
    then have "unfollow a b w = ret () w" by (simp add: unfollow_def)
    with agree show ?thesis by simp
  next
    case (Some r)
    have del: "int (countRows P (deleteMany (\<lambda>r. followKey r = (a, b)) (follows w))) =
        int (countRows P (follows w)) - (if P r then 1 else 0)" for P
      using wf Some by (intro countRows_delete_key) (simp_all add: socialWf_def)
    have r: "fo_followerId r = a" "fo_followingId r = b"
      using findUnique_Some [OF Some] by auto
    show ?thesis
    proof (cases "fo_status r = F_ACCEPTED")
      case True
      let ?w' = "snd (unfollow a b w)"
      have "users ?w' = updateMany (\<lambda>u. u_id u = a) (addFollowing (-1))
          (updateMany (\<lambda>u. u_id u = b) (addFollowers (-1)) (users w))"
        using True by (simp add: eq afterUnfollow_def Some)
      moreover have "int (followersOf i ?w') = int (followersOf i w) + (if i = b then -1 else 0)"
        "int (followingOf i ?w') = int (followingOf i w) + (if i = a then -1 else 0)" for i
        using True r del [of "\<lambda>r. fo_followingId r = i \<and> fo_status r = F_ACCEPTED"]
          del [of "\<lambda>r. fo_followerId r = i \<and> fo_status r = F_ACCEPTED"]
        by (simp_all add: eq followersOf_def followingOf_def)
      ultimately show ?thesis by (rule countersAgreeI [OF agree])
    next
      case False
      then have "followersOf i (snd (unfollow a b w)) = followersOf i w"
        "followingOf i (snd (unfollow a b w)) = followingOf i w" for i
        using del [of "\<lambda>r. fo_followingId r = i \<and> fo_status r = F_ACCEPTED"]
          del [of "\<lambda>r. fo_followerId r = i \<and> fo_status r = F_ACCEPTED"]
        by (simp_all add: eq followersOf_def followingOf_def)
      moreover have "users (snd (unfollow a b w)) = users w"
        using False by (simp add: eq afterUnfollow_def Some)
      ultimately show ?thesis using agree by (simp add: countersAgree_def)
    qed
  qed
qed

lemma blockUser_agrees:
  assumes "socialWf w" and "countersAgree w"
  shows "countersAgree (snd (blockUser a b now w))"
proof (cases "fst (blockUser a b now w)")
  case (Inr r)
  then obtain w' where w': "blockUser a b now w = (Inr r, w')" by (metis prod.collapse)
  then have "follows w' = follows (snd (unfollow b a (snd (unfollow a b w))))"
    and "users w' = users (snd (unfollow b a (snd (unfollow a b w))))"
    using blockUser_Inr(5) by blast+
  then show ?thesis
    using assms w' unfollow_agrees unfollow_wf by (metis countersAgree_cong snd_conv)
next
  case (Inl e)
  let ?w1 = "snd (unfollow a b w)" and ?w2 = "snd (unfollow b a (snd (unfollow a b w)))"
  have "snd (blockUser a b now w) \<in> {w, ?w1, ?w2} \<or>
      follows (snd (blockUser a b now w)) = follows ?w2 \<and> users (snd (blockUser a b now w)) = users ?w2"
    by (cases "unfollow a b w"; cases "unfollow b a ?w1"; cases "fst (unfollow a b w)";
        cases "fst (unfollow b a ?w1)")
       (auto simp: blockUser_def throwHttp_def raise_def ret_def Let_def takeUuid_def split: option.splits)
  moreover have "countersAgree ?w1" "countersAgree ?w2"
    using assms unfollow_agrees unfollow_wf by blast+
  ultimately show ?thesis using assms(2) countersAgree_cong by (metis insertE singletonD)
qed

subsection \<open>Following\<close>

definition newFollow :: "uid \<Rightarrow> uid \<Rightarrow> followStatus \<Rightarrow> 'a core_db_scheme \<Rightarrow> follow" where
  "newFollow a b status w =
     \<lparr>fo_id = newUuid w, fo_followerId = a, fo_followingId = b, fo_status = status\<rparr>"

lemma follow_Inr:
  assumes "follow a b w = (Inr status, w')"
  shows "a \<noteq> b" and "\<exists>u. findActiveUser b w = Some u \<and> (status = F_PENDING \<longleftrightarrow> u_isPrivate u)"
    and "status = F_PENDING \<or> status = F_ACCEPTED"
    and "follows w' = upsertRow followKey (a, b) (newFollow a b status w)
           (\<lambda>r. r\<lparr>fo_status := status\<rparr>) (follows w)"
    and "users w' = (if status = F_ACCEPTED
           then updateMany (\<lambda>u. u_id u = a) (addFollowing 1)
                  (updateMany (\<lambda>u. u_id u = b) (addFollowers 1) (users w))
           else users w)"
    and "status = F_ACCEPTED \<longrightarrow> bus w' = bus w @ [GamificationTrigger b FOLLOW_GAINED 1 [(''followerId'', a)]]"
    and "status = F_ACCEPTED \<longrightarrow> userExists a w"
    and "blocks w' = blocks w"
  using assms
  by (auto simp: follow_def throwHttp_def raise_def ret_def transaction_def updateUser_cases
      takeUuid_def emitEvent_def Let_def newFollow_def userExists_def findUser_def findUnique_None newUuid_def
      split: if_splits option.splits)

lemma follow_Inl: "fst (follow a b w) = Inl e \<Longrightarrow> snd (follow a b w) = w"
  by (auto simp: follow_def throwHttp_def raise_def ret_def transaction_def updateUser_cases Let_def
      split: if_splits option.splits and_then_splits)

lemma follow_wf: "socialWf w \<Longrightarrow> socialWf (snd (follow a b w))"
proof (cases "follow a b w")
  case (Pair r w')
  assume wf: "socialWf w"
  show ?thesis
  proof (cases r)
    case (Inl e)
    with Pair have "snd (follow a b w) = w" by (intro follow_Inl) simp
    with wf show ?thesis by simp
  next
    case (Inr st)
    note f = follow_Inr [OF Pair [unfolded Inr]]
    show ?thesis using wf Pair f(4,5,8)
      by (auto simp: socialWf_def newFollow_def intro!: upsertRow_unique)
  qed
qed

lemma follow_agrees:
  assumes wf: "socialWf w" and agree: "countersAgree w" and new: "\<not> isFollowing a b w"
  shows "countersAgree (snd (follow a b w))"
proof (cases "follow a b w")
  case (Pair r w')
  show ?thesis
  proof (cases r)
    case (Inl e)
    with Pair agree show ?thesis using follow_Inl [of a b w e] by simp
  next
    case (Inr st)
    note f = follow_Inr [OF Pair [unfolded Inr]]
    let ?new = "newFollow a b st w"
    have rows: "int (countRows P (follows w')) = int (countRows P (follows w)) + (if P ?new then 1 else 0)"
      if P: "\<And>r. fo_status r \<noteq> F_ACCEPTED \<Longrightarrow> \<not> P r"
        and cols: "\<And>r s. fo_followerId r = fo_followerId s \<Longrightarrow> fo_followingId r = fo_followingId s \<Longrightarrow>
              fo_status r = fo_status s \<Longrightarrow> P r = P s" for P
    proof (cases "findUnique followKey (a, b) (follows w)")
      case None
      then show ?thesis using f(4) findUnique_None [of followKey "(a, b)" "follows w"]
        by (simp add: upsertRow_def)
    next
      case (Some r)
      then have key: "(a, b) \<in> followKey ` set (follows w)" and r: "fo_followerId r = a" "fo_followingId r = b"
        using findUnique_None [of followKey "(a, b)" "follows w"] findUnique_Some [OF Some] by auto
      have "fo_status r \<noteq> F_ACCEPTED" using new Some by (simp add: isFollowing_def)
      then have "\<not> P r" by (rule P)
      moreover have "P (r\<lparr>fo_status := st\<rparr>) = P ?new"
        by (rule cols) (simp_all add: r newFollow_def)
      ultimately show ?thesis
        using f(4) key countRows_update_key [of followKey "follows w" "(a, b)" r P] wf Some
        by (simp add: upsertRow_def socialWf_def)
    qed
    have fr: "int (followersOf i w') = int (followersOf i w) + (if st = F_ACCEPTED \<and> i = b then 1 else 0)"
      and fg: "int (followingOf i w') = int (followingOf i w) + (if st = F_ACCEPTED \<and> i = a then 1 else 0)"
      for i
      using rows [of "\<lambda>r. fo_followingId r = i \<and> fo_status r = F_ACCEPTED"]
        rows [of "\<lambda>r. fo_followerId r = i \<and> fo_status r = F_ACCEPTED"]
      by (simp_all add: followersOf_def followingOf_def newFollow_def)
    show ?thesis
    proof (cases "st = F_ACCEPTED")
      case True
      then show ?thesis
        using countersAgreeI [OF agree, of w' a 1 b] f(5) fr fg Pair by simp
    next
      case False
      then have "users w' = users w" "followersOf i w' = followersOf i w"
        "followingOf i w' = followingOf i w" for i
        using f(5) fr fg by simp_all
      with agree Pair show ?thesis by (simp add: countersAgree_def)
    qed
  qed
qed

subsection \<open>The lists\<close>

lemma assertViewable_Inr: "assertViewableUser i w = (if findActiveUser i w = None
    then throwHttp NotFound ''user_not_found'' NOT_FOUND w else (Inr (), w))"
  by (simp add: assertViewableUser_def ret_def)

lemma map_filter_append: "List.map_filter f (xs @ ys) = List.map_filter f xs @ List.map_filter f ys"
  by (simp add: List.map_filter_def)

lemma isFollowing_iff:
  assumes "unique followKey (follows w)"
  shows "isFollowing v i w \<longleftrightarrow> (\<exists>r \<in> set (follows w). followKey r = (v, i) \<and> fo_status r = F_ACCEPTED)"
proof (cases "findUnique followKey (v, i) (follows w)")
  case None
  then show ?thesis
    using findUnique_None [of followKey "(v, i)" "follows w"] by (auto simp: isFollowing_def image_iff)
next
  case (Some y)
  have y: "y \<in> set (follows w)" "followKey y = (v, i)"
    using findUnique_Some [OF Some] by auto
  have only: "r = y" if "r \<in> set (follows w)" "followKey r = (v, i)" for r
    using unique_row [OF assms that(1) y(1)] that(2) y(2) by simp
  have "isFollowing v i w \<longleftrightarrow> fo_status y = F_ACCEPTED"
    by (simp add: isFollowing_def Some)
  then show ?thesis using y only by metis
qed

lemma batchIsFollowedByMe_iff:
  assumes "socialWf w"
  shows "i \<in> set (batchIsFollowedByMe v ids w) \<longleftrightarrow> i \<in> set ids \<and> isFollowing v i w"
proof -
  have "isFollowing v i w \<longleftrightarrow> (\<exists>r \<in> set (follows w). followKey r = (v, i) \<and> fo_status r = F_ACCEPTED)"
    using assms by (intro isFollowing_iff) (simp add: socialWf_def)
  then show ?thesis by (auto simp: batchIsFollowedByMe_def image_iff)
qed

text \<open>The item of a row: the user on the other side with the flag of the viewer.\<close>

definition listItem :: "uid \<Rightarrow> 'a core_db_scheme \<Rightarrow> uid \<Rightarrow> followListUser option" where
  "listItem viewer w i =
     map_option (\<lambda>u. toFollowListUser (isFollowing viewer (u_id u) w) u) (findUser i w)"

lemma buildFollowListPage_items:
  assumes "socialWf w"
  shows "buildFollowListPage viewer ids w = List.map_filter (listItem viewer w) ids"
proof -
  define page where "page = List.map_filter (\<lambda>i. findUser i w) ids"
  have "buildFollowListPage viewer ids w =
      map (\<lambda>u. toFollowListUser (isFollowing viewer (u_id u) w) u) page"
    using batchIsFollowedByMe_iff [OF assms] by (auto simp: buildFollowListPage_def page_def Let_def)
  also have "\<dots> = List.map_filter (listItem viewer w) ids"
    unfolding page_def by (induction ids) (auto simp: List.map_filter_def listItem_def)
  finally show ?thesis .
qed

text \<open>The rows of a list, read page by page, give the items of all rows in order.\<close>

lemma followPages_walk:
  assumes "socialWf w" and "0 < limit" and "distinct (map fo_id rows)" and "length rows < fuel"
    and "\<And>c. query c = (let (page, nxt) = keysetPage fo_id c limit rows
            in (buildFollowListPage viewer (map side page) w, nxt))"
  shows "walkPages fuel query None =
    Some (List.map_filter (listItem viewer w) (map side (sort_key fo_id rows)))"
proof -
  have "walkPages fuel query None =
      map_option (\<lambda>page. List.map_filter (listItem viewer w) (map side page))
        (walkPages fuel (\<lambda>c. keysetPage fo_id c limit rows) None)"
    by (rule walkPages_hom)
       (simp_all add: assms(5) buildFollowListPage_items [OF assms(1)] map_filter_append split: prod.split)
  then show ?thesis using walkPages_all [OF assms(3,2,4)] by simp
qed

text \<open>What a client sees of an answer: the page, or nothing after a failure.\<close>

definition pageOrEmpty :: "('x list \<times> uid option, 'w) outcome \<Rightarrow> 'x list \<times> uid option" where
  "pageOrEmpty r = (case fst r of Inr pg \<Rightarrow> pg | Inl _ \<Rightarrow> ([], None))"

section \<open>Properties\<close>

text \<open>
  A successful \<open>blockUser\<close> severs the two users: each is blocked for the other, no
  follow in either direction is left, and every later \<open>follow\<close> between them is refused and
  writes nothing.
\<close>

theorem block_severs:
  assumes "fst (blockUser a b now w) = Inr r"
  shows "blockedEitherWay a b (snd (blockUser a b now w)) \<and>
    \<not> isFollowing a b (snd (blockUser a b now w)) \<and> \<not> isFollowing b a (snd (blockUser a b now w)) \<and>
    (\<exists>e. follow a b (snd (blockUser a b now w)) = (Inl e, snd (blockUser a b now w))) \<and>
    (\<exists>e. follow b a (snd (blockUser a b now w)) = (Inl e, snd (blockUser a b now w)))"
proof -
  obtain w' where w': "blockUser a b now w = (Inr r, w')"
    using assms by (metis prod.collapse)
  note b = blockUser_Inr [OF w']
  have "follows w' = deleteMany (\<lambda>r. followKey r = (b, a)) (deleteMany (\<lambda>r. followKey r = (a, b)) (follows w))"
    using b(5) unfollow_Inr [of a b w] unfollow_Inr [of b a "snd (unfollow a b w)"] by auto
  then have "findUnique followKey (a, b) (follows w') = None" "findUnique followKey (b, a) (follows w') = None"
    by (auto simp: findUnique_None)
  moreover have "blockedEitherWay a b w'" using b(3) by (simp add: blockedEitherWay_iff)
  ultimately show ?thesis
    using follow_refused [of a b w'] follow_refused [of b a w'] blockedEitherWay_sym [of a b w']
    by (simp add: w' isFollowing_def)
qed

theorem block_severs_witness:
  "fst (blockUser ''a'' ''b'' 5 sampleCore) = Inr (''b'', 5) \<and>
   blockedEitherWay ''a'' ''b'' (snd (blockUser ''a'' ''b'' 5 sampleCore))"
proof -
  have h: "fst (blockUser ''a'' ''b'' 5 sampleCore) = Inr (''b'', 5)" by code_simp
  show ?thesis using h block_severs [OF h] by simp
qed

text \<open>
  \<open>unfollow\<close> undoes a first \<open>follow\<close>: when no row of the pair existed, following and
  then unfollowing restores the follow table and the counters of every user.
\<close>

theorem unfollow_undoes_follow:
  assumes "fst (follow a b w) = Inr status" and "(a, b) \<notin> followKey ` set (follows w)"
    and "userExists a w" and "userExists b w"
  shows "follows (snd (unfollow a b (snd (follow a b w)))) = follows w \<and>
    users (snd (unfollow a b (snd (follow a b w)))) = users w"
proof -
  obtain w' where w': "follow a b w = (Inr status, w')" using assms(1) by (metis prod.collapse)
  note f = follow_Inr [OF w']
  have rows: "follows w' = follows w @ [newFollow a b status w]"
    using f(4) assms(2) by (simp add: upsertRow_def)
  have none: "findUnique followKey (a, b) (follows w) = None"
    using assms(2) by (simp add: findUnique_None)
  then have found: "findUnique followKey (a, b) (follows w') = Some (newFollow a b status w)"
    by (simp add: rows findUnique_append newFollow_def)
  have "userExists a w'" "userExists b w'"
    using assms(3,4) f(5) by (simp_all add: userExists_def findUser_def findUnique_None)
  then have unf: "snd (unfollow a b w') = w'\<lparr>follows := deleteMany (\<lambda>r. followKey r = (a, b)) (follows w'),
      users := afterUnfollow a b (follows w') (users w')\<rparr>"
    by (simp add: unfollow_ok)
  have "deleteMany (\<lambda>r. followKey r = (a, b)) (follows w') = follows w"
    using assms(2) unfolding rows deleteMany_def
    by (simp add: newFollow_def image_iff) (intro filter_True, force)
  moreover have "afterUnfollow a b (follows w') (users w') = users w"
    using f(1,5) found
    by (auto simp: afterUnfollow_def newFollow_def updateMany_def addFollowing_def addFollowers_def
        comp_def intro!: map_idI)
  ultimately show ?thesis by (simp add: w' unf)
qed

theorem unfollow_undoes_follow_witness:
  "follows (snd (unfollow ''a'' ''b'' (snd (follow ''a'' ''b'' sampleCore)))) = []"
proof -
  have "fst (follow ''a'' ''b'' sampleCore) = Inr F_ACCEPTED" by code_simp
  moreover have "userExists ''a'' sampleCore" "userExists ''b'' sampleCore" by code_simp+
  moreover have "follows sampleCore = []" by (simp add: sampleCore_def)
  ultimately show ?thesis using unfollow_undoes_follow [of "''a''" "''b''" sampleCore] by simp
qed

text \<open>
  C35: the follower and following counters stay equal to the number of accepted follow rows
  under \<open>unfollow\<close>, \<open>blockUser\<close> and \<open>unblockUser\<close>, and under every \<open>follow\<close> of a pair
  that is not already an accepted follow.
\<close>

theorem follow_counters_invariant:
  assumes "socialWf w" and "countersAgree w"
  shows "countersAgree (snd (unfollow a b w)) \<and> countersAgree (snd (blockUser a b now w)) \<and>
    countersAgree (unblockUser a b w) \<and>
    (\<not> isFollowing a b w \<longrightarrow> countersAgree (snd (follow a b w)))"
  using assms unfollow_agrees blockUser_agrees follow_agrees
    countersAgree_cong [of "unblockUser a b w" w] by (auto simp: unblockUser_def)

theorem follow_counters_invariant_witness:
  "countersAgree (snd (follow ''a'' ''b'' sampleCore))"
proof -
  have "socialWf sampleCore" "countersAgree sampleCore" "\<not> isFollowing ''a'' ''b'' sampleCore"
    by code_simp+
  then show ?thesis using follow_counters_invariant [of sampleCore "''a''" "''b''"] by blast
qed

text \<open>
  Following a public account a second time leaves the follow rows as they are but adds
  one to both counters again, and hands out the FOLLOW_GAINED trigger again: the counters
  then exceed the rows.
\<close>

theorem refollow_inflates:
  assumes "fst (follow a b w) = Inr F_ACCEPTED" and "isFollowing a b w" and "socialWf w"
    and "u \<in> set (users w)" and "u_id u = b" and "countersAgree w"
  shows "follows (snd (follow a b w)) = follows w \<and>
    (\<exists>u' \<in> set (users (snd (follow a b w))). u_id u' = b \<and>
       u_followersCount u' = int (followersOf b (snd (follow a b w))) + 1) \<and>
    bus (snd (follow a b w)) = bus w @ [GamificationTrigger b FOLLOW_GAINED 1 [(''followerId'', a)]]"
proof -
  obtain w' where w': "follow a b w = (Inr F_ACCEPTED, w')" using assms(1) by (metis prod.collapse)
  note f = follow_Inr [OF w']
  obtain r where r: "findUnique followKey (a, b) (follows w) = Some r" "fo_status r = F_ACCEPTED"
    using assms(2) by (auto simp: isFollowing_def split: option.splits)
  have only: "s = r" if "s \<in> set (follows w)" "followKey s = (a, b)" for s
    using that findUnique_Some [OF r(1)] assms(3) unique_row [of followKey "follows w" s r]
    by (auto simp: socialWf_def)
  have "(a, b) \<in> followKey ` set (follows w)" using r(1) findUnique_Some [OF r(1)] by force
  moreover have "s\<lparr>fo_status := F_ACCEPTED\<rparr> = s" if "s \<in> set (follows w)" "followKey s = (a, b)" for s
    using only [OF that] r(2) by (cases s) simp
  ultimately have "follows w' = follows w"
    using f(4) by (simp add: upsertRow_def updateMany_def) (intro map_idI, simp)
  moreover have "u_followersCount u = int (followersOf b w)"
    using assms(4-6) by (auto simp: countersAgree_def)
  moreover have "addFollowers 1 u \<in> set (users w')"
    using f(1,5) assms(4,5) by (force simp: set_updateMany addFollowers_def)
  ultimately show ?thesis
    using f(6) assms(5) by (auto simp: w' followersOf_def addFollowers_def intro!: bexI [of _ "addFollowers 1 u"])
qed

text \<open>The state after \<open>a\<close> has followed \<open>b\<close> once.\<close>

definition sampleFollowed :: core_db where
  "sampleFollowed = snd (follow ''a'' ''b'' sampleCore)"

theorem refollow_inflates_witness:
  "follows (snd (follow ''a'' ''b'' sampleFollowed)) = follows sampleFollowed"
proof -
  have "fst (follow ''a'' ''b'' sampleFollowed) = Inr F_ACCEPTED" "isFollowing ''a'' ''b'' sampleFollowed"
    "socialWf sampleFollowed" "countersAgree sampleFollowed"
    "addFollowers 1 (sampleUser ''b'' False) \<in> set (users sampleFollowed)"
    "u_id (addFollowers 1 (sampleUser ''b'' False)) = ''b''"
    by code_simp+
  then show ?thesis using refollow_inflates by blast
qed

text \<open>
  A viewer who reads a profile's follower list page by page, following \<open>nextCursor\<close>,
  reads every accepted follower who is in no block relation with the viewer, once, in the
  order of the follow ids, and nobody else.
\<close>

theorem followers_pages_complete:
  assumes "findActiveUser p w \<noteq> None" and "socialWf w" and "0 < limit"
    and "distinct (map fo_id (follows w))" and "length (follows w) < fuel"
  shows "walkPages fuel (\<lambda>c. pageOrEmpty (listFollowersForProfile viewer p c limit w)) None =
      Some (List.map_filter (listItem viewer w)
        (map fo_followerId (sort_key fo_id (followerRows viewer p w)))) \<and>
    (\<forall>r. r \<in> set (followerRows viewer p w) \<longleftrightarrow> r \<in> set (follows w) \<and> fo_followingId r = p \<and>
       fo_status r = F_ACCEPTED \<and> \<not> blockedEitherWay viewer (fo_followerId r) w)"
proof
  have "distinct (map fo_id (followerRows viewer p w))" "length (followerRows viewer p w) < fuel"
    using assms(4,5) le_less_trans [OF length_filter_le]
    by (auto simp: followerRows_def distinct_map_filter)
  then show "walkPages fuel (\<lambda>c. pageOrEmpty (listFollowersForProfile viewer p c limit w)) None =
      Some (List.map_filter (listItem viewer w)
        (map fo_followerId (sort_key fo_id (followerRows viewer p w))))"
    using assms(1-3)
    by (intro followPages_walk)
       (auto simp: listFollowersForProfile_def assertViewable_Inr pageOrEmpty_def ret_def split: prod.split)
  show "\<forall>r. r \<in> set (followerRows viewer p w) \<longleftrightarrow> r \<in> set (follows w) \<and> fo_followingId r = p \<and>
      fo_status r = F_ACCEPTED \<and> \<not> blockedEitherWay viewer (fo_followerId r) w"
    by (auto simp: followerRows_def peersBlockedEitherWay_set)
qed

theorem followers_pages_complete_witness:
  "walkPages 2 (\<lambda>c. pageOrEmpty (listFollowersForProfile ''c'' ''b'' c 1 sampleFollowed)) None =
   Some (List.map_filter (listItem ''c'' sampleFollowed)
     (map fo_followerId (sort_key fo_id (followerRows ''c'' ''b'' sampleFollowed))))"
proof -
  have "findActiveUser ''b'' sampleFollowed \<noteq> None" "socialWf sampleFollowed"
    "distinct (map fo_id (follows sampleFollowed))" "length (follows sampleFollowed) < 2"
    by code_simp+
  then show ?thesis
    using followers_pages_complete [of "''b''" sampleFollowed 1 2 "''c''"] by simp
qed

end
