(* ===== verification/Posts.thy ===== *)
theory Posts
  imports Social
begin

text \<open>
  \<open>posts.service.ts\<close>, \<open>likes.service.ts\<close> and \<open>comments.service.ts\<close>: posts with the feed and
  the profile listing, idempotent likes, comments with soft delete. The state extends the
  shared one with the tables Post, Like and Comment. Three columns cache counts of rows
  (likesCount, commentsCount, postsCount); each is an instance of \<open>counter_cache\<close>.
\<close>

section \<open>State\<close>

datatype mediaType = IMAGE | VIDEO | CAROUSEL | ROUTE_RECAP

record post =
  p_id :: uid
  p_userId :: uid
  p_caption :: "string option"
  p_mediaUrls :: "string list"
  p_mediaType :: mediaType
  p_latitude :: "rat option"
  p_longitude :: "rat option"
  p_locationName :: "string option"
  p_hashtags :: "string list"
  p_mentionedUserIds :: "uid list"
  p_routeId :: "uid option"
  p_eventId :: "uid option"
  p_groupId :: "uid option"
  p_likesCount :: int
  p_commentsCount :: int
  p_createdAt :: time
  p_deletedAt :: "time option"

record like =
  lk_postId :: uid
  lk_userId :: uid

record comment =
  co_id :: uid
  co_postId :: uid
  co_userId :: uid
  co_content :: string
  co_mentionedUserIds :: "uid list"
  co_createdAt :: time
  co_deletedAt :: "time option"

record post_db = core_db +
  posts :: "post list"
  likes :: "like list"
  comments :: "comment list"

abbreviation likeKey :: "like \<Rightarrow> uid \<times> uid" where
  "likeKey r \<equiv> (lk_postId r, lk_userId r)"

definition updatePost ::
  "uid \<Rightarrow> (post \<Rightarrow> post) \<Rightarrow> 'a post_db_scheme \<Rightarrow> (unit, 'a post_db_scheme) outcome" where
  "updatePost i f w = write_or RecordNotFound (updateRow p_id i f (posts w)) (\<lambda>t. w\<lparr>posts := t\<rparr>) w"

definition findLivePost :: "uid \<Rightarrow> 'a post_db_scheme \<Rightarrow> post option" where
  "findLivePost i w = find (\<lambda>p. p_id p = i \<and> p_deletedAt p = None) (posts w)"

section \<open>likes.service.ts\<close>

definition addLikes :: "int \<Rightarrow> post \<Rightarrow> post" where
  "addLikes n p = p\<lparr>p_likesCount := p_likesCount p + n\<rparr>"

definition likesCountOf :: "uid \<Rightarrow> 'a post_db_scheme \<Rightarrow> int" where
  "likesCountOf postId w =
     (case findUnique p_id postId (posts w) of None \<Rightarrow> 0 | Some p \<Rightarrow> p_likesCount p)"

definition likePost ::
  "uid \<Rightarrow> uid \<Rightarrow> 'a post_db_scheme \<Rightarrow> (int, 'a post_db_scheme) outcome" where
  "likePost userId postId w =
     (if findLivePost postId w = None then throwHttp NotFound ''post_not_found'' NOT_FOUND w
      else transaction
        (\<lambda>w. if findUnique likeKey (postId, userId) (likes w) \<noteq> None then ret (likesCountOf postId w) w
             else and_then
               (write_or UniqueViolation
                  (createRow likeKey \<lparr>lk_postId = postId, lk_userId = userId\<rparr> (likes w))
                  (\<lambda>t. w\<lparr>likes := t\<rparr>) w)
               (\<lambda>_ w1. and_then (updatePost postId (addLikes 1) w1)
                  (\<lambda>_ w2. ret (likesCountOf postId w2) w2))) w)"

definition unlikePost ::
  "uid \<Rightarrow> uid \<Rightarrow> 'a post_db_scheme \<Rightarrow> (int, 'a post_db_scheme) outcome" where
  "unlikePost userId postId w =
     transaction
       (\<lambda>w. if findUnique likeKey (postId, userId) (likes w) = None then ret (likesCountOf postId w) w
            else and_then
              (write_or RecordNotFound (deleteRow likeKey (postId, userId) (likes w))
                 (\<lambda>t. w\<lparr>likes := t\<rparr>) w)
              (\<lambda>_ w1. and_then (updatePost postId (addLikes (-1)) w1)
                 (\<lambda>_ w2. ret (likesCountOf postId w2) w2))) w"

section \<open>comments.service.ts\<close>

record createCommentDto =
  cc_postId :: uid
  cc_content :: string
  cc_mentionedUserIds :: "uid list"

definition addComments :: "int \<Rightarrow> post \<Rightarrow> post" where
  "addComments n p = p\<lparr>p_commentsCount := p_commentsCount p + n\<rparr>"

definition createComment ::
  "uid \<Rightarrow> createCommentDto \<Rightarrow> time \<Rightarrow> 'a post_db_scheme \<Rightarrow> (comment, 'a post_db_scheme) outcome" where
  "createComment userId dto now w =
     (if findLivePost (cc_postId dto) w = None
      then throwHttp NotFound ''post_not_found'' NOT_FOUND w
      else transaction
        (\<lambda>w. let c = \<lparr>co_id = newUuid w, co_postId = cc_postId dto, co_userId = userId,
                      co_content = cc_content dto, co_mentionedUserIds = cc_mentionedUserIds dto,
                      co_createdAt = now, co_deletedAt = None\<rparr>
             in and_then
               (write_or UniqueViolation (createRow co_id c (comments w))
                  (\<lambda>t. (takeUuid w)\<lparr>comments := t\<rparr>) w)
               (\<lambda>_ w1. and_then (updatePost (cc_postId dto) (addComments 1) w1)
                  (\<lambda>_ w2. ret c w2))) w)"

text \<open>The author of a row: the columns \<open>id, username, avatarUrl, isVerified\<close>.\<close>

definition authorSnippet :: "uid \<Rightarrow> 'a core_db_scheme \<Rightarrow> (uid \<times> string \<times> string option \<times> bool) option" where
  "authorSnippet i w =
     map_option (\<lambda>u. (u_id u, u_username u, u_avatarUrl u, u_isVerified u)) (findUser i w)"

definition listCommentsForPost ::
  "uid \<Rightarrow> uid option \<Rightarrow> nat \<Rightarrow> 'a post_db_scheme \<Rightarrow>
   (comment \<times> (uid \<times> string \<times> string option \<times> bool) option) list \<times> uid option" where
  "listCommentsForPost postId cursor limit w =
     (let (items, nextCursor) = cursorPage co_id cursor limit
            (sort_key co_createdAt
               (filter (\<lambda>c. co_postId c = postId \<and> co_deletedAt c = None) (comments w)))
      in (map (\<lambda>c. (c, authorSnippet (co_userId c) w)) items, nextCursor))"

definition updateComment ::
  "uid \<Rightarrow> uid \<Rightarrow> string \<Rightarrow> 'a post_db_scheme \<Rightarrow> (unit, 'a post_db_scheme) outcome" where
  "updateComment userId i content w =
     (case findUnique co_id i (comments w) of
        None \<Rightarrow> throwHttp NotFound ''comment_not_found'' NOT_FOUND w
      | Some c \<Rightarrow>
          if co_deletedAt c \<noteq> None then throwHttp NotFound ''comment_not_found'' NOT_FOUND w
          else if co_userId c \<noteq> userId then throwHttp Forbidden ''forbidden'' FORBIDDEN w
          else write_or RecordNotFound
            (updateRow co_id i (\<lambda>c. c\<lparr>co_content := content\<rparr>) (comments w))
            (\<lambda>t. w\<lparr>comments := t\<rparr>) w)"

definition removeComment ::
  "uid \<Rightarrow> uid \<Rightarrow> time \<Rightarrow> 'a post_db_scheme \<Rightarrow> (unit, 'a post_db_scheme) outcome" where
  "removeComment userId i now w =
     (case findUnique co_id i (comments w) of
        None \<Rightarrow> throwHttp NotFound ''comment_not_found'' NOT_FOUND w
      | Some c \<Rightarrow>
          if co_deletedAt c \<noteq> None then throwHttp NotFound ''comment_not_found'' NOT_FOUND w
          else if co_userId c \<noteq> userId then throwHttp Forbidden ''forbidden'' FORBIDDEN w
          else transaction
            (\<lambda>w. and_then
               (write_or RecordNotFound
                  (updateRow co_id i (\<lambda>c. c\<lparr>co_deletedAt := Some now\<rparr>) (comments w))
                  (\<lambda>t. w\<lparr>comments := t\<rparr>) w)
               (\<lambda>_ w1. updatePost (co_postId c) (addComments (-1)) w1)) w)"

section \<open>posts.service.ts\<close>

record createPostDto =
  cpo_caption :: "string option"
  cpo_mediaUrls :: "string list"
  cpo_mediaType :: mediaType
  cpo_latitude :: "rat option"
  cpo_longitude :: "rat option"
  cpo_locationName :: "string option"
  cpo_hashtags :: "string list"
  cpo_mentionedUserIds :: "uid list"
  cpo_routeId :: "uid option"
  cpo_eventId :: "uid option"
  cpo_groupId :: "uid option"

definition attachLikedByMe :: "uid \<Rightarrow> post list \<Rightarrow> 'a post_db_scheme \<Rightarrow> (post \<times> bool) list" where
  "attachLikedByMe viewerId rows w =
     (if rows = [] then []
      else let ids = map p_id rows;
               liked = map lk_postId (filter (\<lambda>l. lk_userId l = viewerId \<and> lk_postId l \<in> set ids) (likes w))
           in map (\<lambda>r. (r, p_id r \<in> set liked)) rows)"

definition addPosts :: "int \<Rightarrow> user \<Rightarrow> user" where
  "addPosts n u = u\<lparr>u_postsCount := u_postsCount u + n\<rparr>"

definition newPost :: "uid \<Rightarrow> uid \<Rightarrow> createPostDto \<Rightarrow> time \<Rightarrow> post" where
  "newPost i userId dto now =
     \<lparr>p_id = i, p_userId = userId, p_caption = cpo_caption dto, p_mediaUrls = cpo_mediaUrls dto,
      p_mediaType = cpo_mediaType dto, p_latitude = cpo_latitude dto, p_longitude = cpo_longitude dto,
      p_locationName = cpo_locationName dto, p_hashtags = cpo_hashtags dto,
      p_mentionedUserIds = cpo_mentionedUserIds dto, p_routeId = cpo_routeId dto,
      p_eventId = cpo_eventId dto, p_groupId = cpo_groupId dto, p_likesCount = 0,
      p_commentsCount = 0, p_createdAt = now, p_deletedAt = None\<rparr>"

definition createPost ::
  "uid \<Rightarrow> createPostDto \<Rightarrow> time \<Rightarrow> 'a post_db_scheme \<Rightarrow> (post \<times> bool, 'a post_db_scheme) outcome" where
  "createPost userId dto now w =
     and_then
       (transaction
          (\<lambda>w. let created = newPost (newUuid w) userId dto now
               in and_then
                 (write_or UniqueViolation (createRow p_id created (posts w))
                    (\<lambda>t. (takeUuid w)\<lparr>posts := t\<rparr>) w)
                 (\<lambda>_ w1. and_then (updateUser userId (addPosts 1) w1) (\<lambda>_ w2. ret created w2))) w)
       (\<lambda>post w3.
          let w4 = emitEvent (GamificationTrigger userId POST_CREATED 1 [(''postId'', p_id post)]) w3
          in ret (hd (attachLikedByMe userId [post] w4)) w4)"

definition findPostById ::
  "uid \<Rightarrow> uid \<Rightarrow> 'a post_db_scheme \<Rightarrow> (post \<times> bool, 'a post_db_scheme) outcome" where
  "findPostById i viewerId w =
     (case findLivePost i w of
        None \<Rightarrow> throwHttp NotFound ''post_not_found'' NOT_FOUND w
      | Some post \<Rightarrow>
          if p_userId post \<noteq> viewerId \<and> p_userId post \<in> set (peersBlockedEitherWay viewerId w)
          then throwHttp Forbidden ''blocked'' BLOCKED w
          else ret (hd (attachLikedByMe viewerId [post] w)) w)"

text \<open>\<open>UpdatePostDto\<close>: the fields that are present.\<close>

record updatePostDto =
  upo_caption :: "string option"
  upo_hashtags :: "string list option"

definition applyPostUpdate :: "updatePostDto \<Rightarrow> post \<Rightarrow> post" where
  "applyPostUpdate dto p =
     p\<lparr>p_caption := (case upo_caption dto of None \<Rightarrow> p_caption p | Some c \<Rightarrow> Some c),
       p_hashtags := override (p_hashtags p) (upo_hashtags dto)\<rparr>"

definition updatePostById ::
  "uid \<Rightarrow> uid \<Rightarrow> updatePostDto \<Rightarrow> 'a post_db_scheme \<Rightarrow> (post \<times> bool, 'a post_db_scheme) outcome" where
  "updatePostById userId i dto w =
     and_then (findPostById i userId w)
       (\<lambda>(post, _) w.
          if p_userId post \<noteq> userId then throwHttp Forbidden ''forbidden'' FORBIDDEN w
          else and_then (updatePost i (applyPostUpdate dto) w)
            (\<lambda>_ w1. case findUnique p_id i (posts w1) of
               None \<Rightarrow> raise RecordNotFound w1
             | Some updated \<Rightarrow> ret (hd (attachLikedByMe userId [updated] w1)) w1))"

definition removePost ::
  "uid \<Rightarrow> uid \<Rightarrow> time \<Rightarrow> 'a post_db_scheme \<Rightarrow> (unit, 'a post_db_scheme) outcome" where
  "removePost userId i now w =
     (case findLivePost i w of
        None \<Rightarrow> throwHttp NotFound ''post_not_found'' NOT_FOUND w
      | Some post \<Rightarrow>
          if p_userId post \<noteq> userId then throwHttp Forbidden ''forbidden'' FORBIDDEN w
          else transaction
            (\<lambda>w. and_then (updatePost i (\<lambda>p. p\<lparr>p_deletedAt := Some now\<rparr>) w)
               (\<lambda>_ w1. updateUser userId (addPosts (-1)) w1)) w)"

definition latestFirst :: "post list \<Rightarrow> post list" where
  "latestFirst ps = rev (sort_key p_createdAt ps)"

text \<open>The page of a listing ordered by \<open>createdAt desc\<close>, with the viewer's likes.\<close>

definition pageOfPosts ::
  "uid \<Rightarrow> post list \<Rightarrow> uid option \<Rightarrow> nat \<Rightarrow> 'a post_db_scheme \<Rightarrow> (post \<times> bool) list \<times> uid option"
where
  "pageOfPosts viewerId rows cursor limit w =
     (let (page, nextCursor) = cursorPage p_id cursor limit (latestFirst rows)
      in (attachLikedByMe viewerId page w, nextCursor))"

definition feedForUser ::
  "uid \<Rightarrow> uid option \<Rightarrow> nat \<Rightarrow> 'a post_db_scheme \<Rightarrow> (post \<times> bool) list \<times> uid option" where
  "feedForUser userId cursor limit w =
     (let following = map fo_followingId
            (filter (\<lambda>r. fo_followerId r = userId \<and> fo_status r = F_ACCEPTED) (follows w));
          blocked = set (peersBlockedEitherWay userId w);
          followingIds = filter (\<lambda>f. f \<notin> blocked) following;
          authorIds = set (userId # followingIds)
      in pageOfPosts userId (filter (\<lambda>p. p_userId p \<in> authorIds \<and> p_deletedAt p = None) (posts w))
           cursor limit w)"

definition userPosts ::
  "uid \<Rightarrow> uid \<Rightarrow> uid option \<Rightarrow> nat \<Rightarrow> 'a post_db_scheme \<Rightarrow>
   ((post \<times> bool) list \<times> uid option, 'a post_db_scheme) outcome" where
  "userPosts profileUserId viewerId cursor limit w =
     (if profileUserId \<noteq> viewerId \<and> profileUserId \<in> set (peersBlockedEitherWay viewerId w)
      then throwHttp Forbidden ''blocked'' BLOCKED w
      else ret (pageOfPosts viewerId
             (filter (\<lambda>p. p_userId p = profileUserId \<and> p_deletedAt p = None) (posts w))
             cursor limit w) w)"

section \<open>The operations as steps\<close>

datatype post_op =
    CreatePost uid createPostDto time
  | UpdatePost uid uid updatePostDto
  | RemovePost uid uid time
  | Like uid uid
  | Unlike uid uid
  | CreateComment uid createCommentDto time
  | UpdateComment uid uid string
  | RemoveComment uid uid time

fun postStep :: "post_op \<Rightarrow> 'a post_db_scheme \<Rightarrow> 'a post_db_scheme" where
  "postStep (CreatePost u dto now) w = snd (createPost u dto now w)"
| "postStep (UpdatePost u i dto) w = snd (updatePostById u i dto w)"
| "postStep (RemovePost u i now) w = snd (removePost u i now w)"
| "postStep (Like u p) w = snd (likePost u p w)"
| "postStep (Unlike u p) w = snd (unlikePost u p w)"
| "postStep (CreateComment u dto now) w = snd (createComment u dto now w)"
| "postStep (UpdateComment u i c) w = snd (updateComment u i c w)"
| "postStep (RemoveComment u i now) w = snd (removeComment u i now w)"

section \<open>What one operation writes\<close>

text \<open>
  The unique indexes, and the foreign keys of likes and comments (a row names an existing
  post; soft deletion keeps the post row).
\<close>

definition postWf :: "'a post_db_scheme \<Rightarrow> bool" where
  "postWf w \<longleftrightarrow> unique u_id (users w) \<and> unique p_id (posts w) \<and> unique likeKey (likes w) \<and>
     unique co_id (comments w) \<and> lk_postId ` set (likes w) \<subseteq> p_id ` set (posts w) \<and>
     co_postId ` set (comments w) \<subseteq> p_id ` set (posts w)"

lemma add_fields [simp]:
  "p_id (addLikes n p) = p_id p" "p_id (addComments n p) = p_id p"
  "p_userId (addLikes n p) = p_userId p" "p_userId (addComments n p) = p_userId p"
  "p_deletedAt (addLikes n p) = p_deletedAt p" "p_deletedAt (addComments n p) = p_deletedAt p"
  "p_likesCount (addLikes n p) = p_likesCount p + n" "p_likesCount (addComments n p) = p_likesCount p"
  "p_commentsCount (addComments n p) = p_commentsCount p + n" "p_commentsCount (addLikes n p) = p_commentsCount p"
  "p_id (applyPostUpdate dto p) = p_id p" "p_userId (applyPostUpdate dto p) = p_userId p"
  "p_deletedAt (applyPostUpdate dto p) = p_deletedAt p"
  "p_likesCount (applyPostUpdate dto p) = p_likesCount p"
  "p_commentsCount (applyPostUpdate dto p) = p_commentsCount p"
  "u_id (addPosts n u) = u_id u" "u_postsCount (addPosts n u) = u_postsCount u + n"
  by (simp_all add: addLikes_def addComments_def applyPostUpdate_def addPosts_def)

lemma updatePost_cases:
  "updatePost i f w =
     (if i \<in> p_id ` set (posts w)
      then (Inr (), w\<lparr>posts := updateMany (\<lambda>p. p_id p = i) f (posts w)\<rparr>)
      else (Inl RecordNotFound, w))"
  by (simp add: updatePost_def write_or_def updateRow_def raise_def ret_def)

lemma likePost_writes:
  "snd (likePost u p w) = w \<or>
   (p, u) \<notin> likeKey ` set (likes w) \<and> p \<in> p_id ` set (posts w) \<and>
   snd (likePost u p w) = w\<lparr>likes := likes w @ [\<lparr>lk_postId = p, lk_userId = u\<rparr>],
     posts := updateMany (\<lambda>r. p_id r = p) (addLikes 1) (posts w)\<rparr>"
  by (auto simp: likePost_def transaction_def write_or_def createRow_def updatePost_cases ret_def raise_def)

lemma unlikePost_writes:
  "snd (unlikePost u p w) = w \<or>
   (p, u) \<in> likeKey ` set (likes w) \<and>
   snd (unlikePost u p w) = w\<lparr>likes := deleteMany (\<lambda>r. likeKey r = (p, u)) (likes w),
     posts := updateMany (\<lambda>r. p_id r = p) (addLikes (-1)) (posts w)\<rparr>"
  by (auto simp: unlikePost_def transaction_def write_or_def deleteRow_def updatePost_cases ret_def raise_def)

lemma createComment_writes:
  "snd (createComment u dto now w) = w \<or>
   newUuid w \<notin> co_id ` set (comments w) \<and> cc_postId dto \<in> p_id ` set (posts w) \<and>
   snd (createComment u dto now w) = (takeUuid w)\<lparr>comments := comments w @
     [\<lparr>co_id = newUuid w, co_postId = cc_postId dto, co_userId = u, co_content = cc_content dto,
       co_mentionedUserIds = cc_mentionedUserIds dto, co_createdAt = now, co_deletedAt = None\<rparr>],
     posts := updateMany (\<lambda>r. p_id r = cc_postId dto) (addComments 1) (posts w)\<rparr>"
  by (auto simp: createComment_def transaction_def write_or_def createRow_def updatePost_cases
      ret_def raise_def takeUuid_def Let_def)

lemma updateComment_writes:
  "snd (updateComment u i c w) = w \<or>
   snd (updateComment u i c w) =
     w\<lparr>comments := updateMany (\<lambda>r. co_id r = i) (\<lambda>r. r\<lparr>co_content := c\<rparr>) (comments w)\<rparr>"
  by (auto simp: updateComment_def write_or_def updateRow_def ret_def raise_def split: option.split)

lemma removeComment_writes:
  "snd (removeComment u i now w) = w \<or>
   (\<exists>c. findUnique co_id i (comments w) = Some c \<and> co_deletedAt c = None \<and>
      co_postId c \<in> p_id ` set (posts w) \<and>
      snd (removeComment u i now w) = w\<lparr>comments := updateMany (\<lambda>r. co_id r = i)
          (\<lambda>c. c\<lparr>co_deletedAt := Some now\<rparr>) (comments w),
        posts := updateMany (\<lambda>r. p_id r = co_postId c) (addComments (-1)) (posts w)\<rparr>)"
  by (auto simp: removeComment_def transaction_def write_or_def updateRow_def updatePost_cases
      ret_def raise_def split: option.split)

lemma createPost_writes:
  "snd (createPost u dto now w) = w \<or>
   newUuid w \<notin> p_id ` set (posts w) \<and> u \<in> u_id ` set (users w) \<and>
   snd (createPost u dto now w) = (takeUuid w)\<lparr>posts := posts w @ [newPost (newUuid w) u dto now],
     users := updateMany (\<lambda>r. u_id r = u) (addPosts 1) (users w),
     bus := bus w @ [GamificationTrigger u POST_CREATED 1 [(''postId'', newUuid w)]]\<rparr>"
  by (auto simp: createPost_def transaction_def write_or_def createRow_def updateUser_cases
      ret_def raise_def takeUuid_def emitEvent_def Let_def newPost_def)

lemma attachLikedByMe_one:
  "attachLikedByMe v [p] w = [(p, \<exists>l \<in> set (likes w). lk_userId l = v \<and> lk_postId l = p_id p)]"
  by (auto simp: attachLikedByMe_def Let_def)

lemma updatePostById_writes:
  "snd (updatePostById u i dto w) = w \<or>
   snd (updatePostById u i dto w) =
     w\<lparr>posts := updateMany (\<lambda>r. p_id r = i) (applyPostUpdate dto) (posts w)\<rparr>"
  by (auto simp: updatePostById_def findPostById_def throwHttp_def updatePost_cases ret_def raise_def
      attachLikedByMe_one split: option.split)

lemma findLivePost_Some:
  "findLivePost i w = Some p \<Longrightarrow> p \<in> set (posts w) \<and> p_id p = i \<and> p_deletedAt p = None"
  by (auto simp: findLivePost_def dest: find_row)

lemma removePost_writes:
  "snd (removePost u i now w) = w \<or>
   (\<exists>p. p \<in> set (posts w) \<and> p_id p = i \<and> p_deletedAt p = None \<and> p_userId p = u \<and>
      u \<in> u_id ` set (users w) \<and>
      snd (removePost u i now w) = w\<lparr>posts := updateMany (\<lambda>r. p_id r = i)
          (\<lambda>p. p\<lparr>p_deletedAt := Some now\<rparr>) (posts w),
        users := updateMany (\<lambda>r. u_id r = u) (addPosts (-1)) (users w)\<rparr>)"
  by (auto simp: removePost_def transaction_def updateUser_cases updatePost_cases ret_def raise_def
      dest: findLivePost_Some split: option.split)

lemmas post_writes =
  likePost_writes unlikePost_writes createComment_writes updateComment_writes removeComment_writes
  createPost_writes updatePostById_writes removePost_writes


section \<open>The cached counters\<close>

definition likesColumn :: "'a post_db_scheme \<Rightarrow> uid \<Rightarrow> int option" where
  "likesColumn w k = map_option p_likesCount (findUnique p_id k (posts w))"

definition likesOf :: "'a post_db_scheme \<Rightarrow> uid \<Rightarrow> nat" where
  "likesOf w k = countRows (\<lambda>l. lk_postId l = k) (likes w)"

definition commentsColumn :: "'a post_db_scheme \<Rightarrow> uid \<Rightarrow> int option" where
  "commentsColumn w k = map_option p_commentsCount (findUnique p_id k (posts w))"

definition commentsOf :: "'a post_db_scheme \<Rightarrow> uid \<Rightarrow> nat" where
  "commentsOf w k = countRows (\<lambda>c. co_postId c = k \<and> co_deletedAt c = None) (comments w)"

definition postsColumn :: "'a post_db_scheme \<Rightarrow> uid \<Rightarrow> int option" where
  "postsColumn w k = map_option u_postsCount (findUnique u_id k (users w))"

definition postsOf :: "'a post_db_scheme \<Rightarrow> uid \<Rightarrow> nat" where
  "postsOf w k = countRows (\<lambda>p. p_userId p = k \<and> p_deletedAt p = None) (posts w)"

lemmas columns = likesColumn_def likesOf_def commentsColumn_def commentsOf_def postsColumn_def postsOf_def

lemma newPost_fields [simp]:
  "p_id (newPost i u dto now) = i" "p_userId (newPost i u dto now) = u"
  "p_deletedAt (newPost i u dto now) = None" "p_likesCount (newPost i u dto now) = 0"
  "p_commentsCount (newPost i u dto now) = 0"
  by (simp_all add: newPost_def)

lemma ids_updatePost [simp]:
  "map p_id (updateMany P (addLikes n) ps) = map p_id ps"
  "map p_id (updateMany P (addComments n) ps) = map p_id ps"
  "map p_id (updateMany P (applyPostUpdate dto) ps) = map p_id ps"
  "map p_id (updateMany P (\<lambda>p. p\<lparr>p_deletedAt := d\<rparr>) ps) = map p_id ps"
  "map u_id (updateMany Q (addPosts n) us) = map u_id us"
  by (simp_all add: map_updateMany)

lemma id_set_updatePost [simp]:
  "p_id ` set (updateMany P (addLikes n) ps) = p_id ` set ps"
  "p_id ` set (updateMany P (addComments n) ps) = p_id ` set ps"
  "p_id ` set (updateMany P (applyPostUpdate dto) ps) = p_id ` set ps"
  "p_id ` set (updateMany P (\<lambda>p. p\<lparr>p_deletedAt := d\<rparr>) ps) = p_id ` set ps"
  by (simp_all add: keys_updateMany)

lemma comment_updates [simp]:
  "map co_id (updateMany P (\<lambda>c. c\<lparr>co_deletedAt := d\<rparr>) cs) = map co_id cs"
  "map co_id (updateMany P (\<lambda>c. c\<lparr>co_content := x\<rparr>) cs) = map co_id cs"
  "co_postId ` set (updateMany P (\<lambda>c. c\<lparr>co_deletedAt := d\<rparr>) cs) = co_postId ` set cs"
  "co_postId ` set (updateMany P (\<lambda>c. c\<lparr>co_content := x\<rparr>) cs) = co_postId ` set cs"
  by (simp_all add: map_updateMany keys_updateMany)

lemma postWf_step:
  assumes "postWf w" shows "postWf (postStep x w)"
proof (cases x)
  case (CreatePost u dto now)
  then show ?thesis using assms createPost_writes [of u dto now w]
    by (elim disjE conjE) (simp_all add: postWf_def takeUuid_def subset_insertI2)
next
  case (UpdatePost u i dto)
  then show ?thesis using assms updatePostById_writes [of u i dto w]
    by (elim disjE) (simp_all add: postWf_def)
next
  case (RemovePost u i now)
  then show ?thesis using assms removePost_writes [of u i now w]
    by (elim disjE exE conjE) (simp_all add: postWf_def)
next
  case (Like u i)
  then show ?thesis using assms likePost_writes [of u i w]
    by (elim disjE conjE) (simp_all add: postWf_def)
next
  case (Unlike u i)
  then show ?thesis
    using assms unlikePost_writes [of u i w]
    by (elim disjE conjE) (simp_all add: postWf_def unique_deleteMany image_subset_iff)
next
  case (CreateComment u dto now)
  then show ?thesis using assms createComment_writes [of u dto now w]
    by (elim disjE conjE) (simp_all add: postWf_def takeUuid_def)
next
  case (UpdateComment u i c)
  then show ?thesis using assms updateComment_writes [of u i c w]
    by (elim disjE) (simp_all add: postWf_def)
next
  case (RemoveComment u i now)
  then show ?thesis using assms removeComment_writes [of u i now w]
    by (elim disjE exE conjE) (simp_all add: postWf_def)
qed


subsection \<open>likesCount\<close>

lemma likes_moves:
  assumes "postWf w"
  shows "moves_together (likesColumn w k) (likesOf w k) (likesColumn (postStep x w) k) (likesOf (postStep x w) k)"
proof (cases x)
  case (CreatePost u dto now)
  have "findUnique p_id k (posts w) = None \<Longrightarrow> countRows (\<lambda>l. lk_postId l = k) (likes w) = 0"
    using assms by (auto simp: postWf_def findUnique_None countRows_0)
  then show ?thesis using CreatePost createPost_writes [of u dto now w]
    by (auto simp: columns takeUuid_def findUnique_append split: option.split)
next
  case (UpdatePost u i dto)
  then show ?thesis using updatePostById_writes [of u i dto w]
    by (cases "findUnique p_id k (posts w)") (auto simp: columns column_update)
next
  case (RemovePost u i now)
  then show ?thesis using removePost_writes [of u i now w]
    by (cases "findUnique p_id k (posts w)") (auto simp: columns column_update)
next
  case (Like u i)
  then show ?thesis using likePost_writes [of u i w]
    by (cases "findUnique p_id k (posts w)") (auto simp: columns column_update)
next
  case (Unlike u i)
  show ?thesis
  proof (cases "findUnique likeKey (i, u) (likes w)")
    case None
    then have "(i, u) \<notin> likeKey ` set (likes w)" by (simp add: findUnique_None)
    then show ?thesis using Unlike unlikePost_writes [of u i w] by auto
  next
    case (Some l)
    have "int (countRows (\<lambda>l. lk_postId l = k) (deleteMany (\<lambda>r. likeKey r = (i, u)) (likes w))) =
        int (countRows (\<lambda>l. lk_postId l = k) (likes w)) - (if lk_postId l = k then 1 else 0)"
      using countRows_delete_key [OF _ Some] assms by (simp add: postWf_def)
    moreover have "lk_postId l = i" using findUnique_Some [OF Some] by simp
    ultimately show ?thesis using Unlike unlikePost_writes [of u i w]
      by (cases "findUnique p_id k (posts w)") (auto simp: columns column_update)
  qed
next
  case (CreateComment u dto now)
  then show ?thesis using createComment_writes [of u dto now w]
    by (cases "findUnique p_id k (posts w)") (auto simp: columns column_update takeUuid_def)
next
  case (UpdateComment u i c)
  then show ?thesis using updateComment_writes [of u i c w] by (auto simp: columns)
next
  case (RemoveComment u i now)
  then show ?thesis using removeComment_writes [of u i now w]
    by (cases "findUnique p_id k (posts w)") (auto simp: columns column_update)
qed

interpretation likes_cache: counter_cache likesColumn likesOf postWf postStep
  by unfold_locales (rule postWf_step likes_moves, assumption)+

subsection \<open>commentsCount\<close>

lemma comments_moves:
  assumes "postWf w"
  shows "moves_together (commentsColumn w k) (commentsOf w k)
    (commentsColumn (postStep x w) k) (commentsOf (postStep x w) k)"
proof (cases x)
  case (CreatePost u dto now)
  have "findUnique p_id k (posts w) = None \<Longrightarrow>
      countRows (\<lambda>c. co_postId c = k \<and> co_deletedAt c = None) (comments w) = 0"
    using assms by (auto simp: postWf_def findUnique_None countRows_0)
  then show ?thesis using CreatePost createPost_writes [of u dto now w]
    by (auto simp: columns takeUuid_def findUnique_append split: option.split)
next
  case (UpdatePost u i dto)
  then show ?thesis using updatePostById_writes [of u i dto w]
    by (cases "findUnique p_id k (posts w)") (auto simp: columns column_update)
next
  case (RemovePost u i now)
  then show ?thesis using removePost_writes [of u i now w]
    by (cases "findUnique p_id k (posts w)") (auto simp: columns column_update)
next
  case (Like u i)
  then show ?thesis using likePost_writes [of u i w]
    by (cases "findUnique p_id k (posts w)") (auto simp: columns column_update)
next
  case (Unlike u i)
  then show ?thesis using unlikePost_writes [of u i w]
    by (cases "findUnique p_id k (posts w)") (auto simp: columns column_update)
next
  case (CreateComment u dto now)
  then show ?thesis using createComment_writes [of u dto now w]
    by (cases "findUnique p_id k (posts w)") (auto simp: columns column_update takeUuid_def)
next
  case (UpdateComment u i c)
  have "countRows (\<lambda>c. co_postId c = k \<and> co_deletedAt c = None)
      (updateMany (\<lambda>r. co_id r = i) (\<lambda>r. r\<lparr>co_content := c\<rparr>) (comments w)) =
    countRows (\<lambda>c. co_postId c = k \<and> co_deletedAt c = None) (comments w)"
    by (rule countRows_updateMany_same) simp
  then show ?thesis using UpdateComment updateComment_writes [of u i c w] by (auto simp: columns)
next
  case (RemoveComment u i now)
  have "int (countRows (\<lambda>c. co_postId c = k \<and> co_deletedAt c = None)
      (updateMany (\<lambda>r. co_id r = i) (\<lambda>c. c\<lparr>co_deletedAt := Some now\<rparr>) (comments w))) =
    int (countRows (\<lambda>c. co_postId c = k \<and> co_deletedAt c = None) (comments w)) -
    (if co_postId c = k then 1 else 0)"
    if "findUnique co_id i (comments w) = Some c" "co_deletedAt c = None" for c
    using countRows_update_key [OF _ that(1)] that(2) assms by (simp add: postWf_def)
  then show ?thesis using RemoveComment removeComment_writes [of u i now w]
    by (cases "findUnique p_id k (posts w)") (auto simp: columns column_update)
qed

interpretation comments_cache: counter_cache commentsColumn commentsOf postWf postStep
  by unfold_locales (rule postWf_step comments_moves, assumption)+

subsection \<open>postsCount\<close>

lemma posts_moves:
  assumes "postWf w"
  shows "moves_together (postsColumn w k) (postsOf w k) (postsColumn (postStep x w) k) (postsOf (postStep x w) k)"
proof -
  have same: "countRows (\<lambda>p. p_userId p = k \<and> p_deletedAt p = None) (updateMany P f (posts w)) =
      countRows (\<lambda>p. p_userId p = k \<and> p_deletedAt p = None) (posts w)"
    if "\<And>p. p_userId (f p) = p_userId p" "\<And>p. p_deletedAt (f p) = p_deletedAt p" for P f
    using that by (intro countRows_updateMany_same) simp
  show ?thesis
  proof (cases x)
    case (CreatePost u dto now)
    then show ?thesis using createPost_writes [of u dto now w]
      by (cases "findUnique u_id k (users w)") (auto simp: columns column_update takeUuid_def)
  next
    case (UpdatePost u i dto)
    then show ?thesis using updatePostById_writes [of u i dto w] by (auto simp: columns same)
  next
    case (RemovePost u i now)
    have "int (countRows (\<lambda>p. p_userId p = k \<and> p_deletedAt p = None)
        (updateMany (\<lambda>r. p_id r = i) (\<lambda>p. p\<lparr>p_deletedAt := Some now\<rparr>) (posts w))) =
      int (countRows (\<lambda>p. p_userId p = k \<and> p_deletedAt p = None) (posts w)) - (if p_userId p = k then 1 else 0)"
      if "p \<in> set (posts w)" "p_id p = i" "p_deletedAt p = None" for p
      using that assms countRows_update_key [of p_id "posts w" i p] findUnique_iff [of p_id "posts w" i p]
      by (simp add: postWf_def)
    then show ?thesis using RemovePost removePost_writes [of u i now w]
      by (cases "findUnique u_id k (users w)") (auto simp: columns column_update)
  next
    case (Like u i)
    then show ?thesis using likePost_writes [of u i w] by (auto simp: columns same)
  next
    case (Unlike u i)
    then show ?thesis using unlikePost_writes [of u i w] by (auto simp: columns same)
  next
    case (CreateComment u dto now)
    then show ?thesis using createComment_writes [of u dto now w] by (auto simp: columns same takeUuid_def)
  next
    case (UpdateComment u i c)
    then show ?thesis using updateComment_writes [of u i c w] by (auto simp: columns)
  next
    case (RemoveComment u i now)
    then show ?thesis using removeComment_writes [of u i now w] by (auto simp: columns same)
  qed
qed

interpretation posts_cache: counter_cache postsColumn postsOf postWf postStep
  by unfold_locales (rule postWf_step posts_moves, assumption)+


section \<open>Listings\<close>

lemma attachLikedByMe_map:
  "attachLikedByMe v rows w = map (\<lambda>p. (p, (p_id p, v) \<in> likeKey ` set (likes w))) rows"
  by (force simp: attachLikedByMe_def Let_def image_iff)

lemma attach_append: "attachLikedByMe v (xs @ ys) w = attachLikedByMe v xs w @ attachLikedByMe v ys w"
  by (simp add: attachLikedByMe_map)

lemma distinct_latestFirst: "distinct (map p_id (latestFirst ps)) = distinct (map p_id ps)"
proof -
  have "mset (map p_id (latestFirst ps)) = mset (map p_id ps)"
    by (simp add: latestFirst_def)
  then show ?thesis by (rule mset_eq_imp_distinct_iff)
qed

lemma set_latestFirst [simp]: "set (latestFirst ps) = set ps" and length_latestFirst [simp]:
  "length (latestFirst ps) = length ps"
  by (simp_all add: latestFirst_def)

lemma pageOfPosts_walk:
  assumes "distinct (map p_id rows)" and "0 < limit" and "length rows < fuel"
  shows "walkPages fuel (\<lambda>c. pageOfPosts viewer rows c limit w) None =
    Some (attachLikedByMe viewer (latestFirst rows) w)"
proof -
  have "walkPages fuel (\<lambda>c. pageOfPosts viewer rows c limit w) None =
      map_option (\<lambda>ps. attachLikedByMe viewer ps w)
        (walkPages fuel (\<lambda>c. cursorPage p_id c limit (latestFirst rows)) None)"
    by (rule walkPages_hom) (simp_all add: pageOfPosts_def attach_append split: prod.split)
  then show ?thesis using assms by (simp add: walkPages_cursor distinct_latestFirst)
qed

text \<open>The posts a user's feed ranges over.\<close>

definition inFeedOf :: "uid \<Rightarrow> 'a post_db_scheme \<Rightarrow> post \<Rightarrow> bool" where
  "inFeedOf v w p \<longleftrightarrow> p_deletedAt p = None \<and>
     (p_userId p = v \<or>
      (\<exists>r \<in> set (follows w). followKey r = (v, p_userId p) \<and> fo_status r = F_ACCEPTED) \<and>
      \<not> blockedEitherWay v (p_userId p) w)"

lemma feedForUser_page:
  "feedForUser v c limit w = pageOfPosts v (filter (inFeedOf v w) (posts w)) c limit w"
proof -
  have "(p_userId p \<in> set (v # filter (\<lambda>f. f \<notin> set (peersBlockedEitherWay v w))
      (map fo_followingId (filter (\<lambda>r. fo_followerId r = v \<and> fo_status r = F_ACCEPTED) (follows w)))) \<and>
      p_deletedAt p = None) = inFeedOf v w p" for p
    by (auto simp: inFeedOf_def peersBlockedEitherWay_set image_iff)
  then show ?thesis by (simp add: feedForUser_def Let_def)
qed

lemma pageOfPosts_subset: "fst ` set (fst (pageOfPosts v rows c limit w)) \<subseteq> set rows"
  using set_afterCursor [of p_id c limit "latestFirst rows"]
  by (auto simp: pageOfPosts_def cursorPage_def attachLikedByMe_map Let_def)

section \<open>Deleted posts\<close>

definition tombstone :: "uid \<Rightarrow> 'a post_db_scheme \<Rightarrow> bool" where
  "tombstone i w \<longleftrightarrow> postWf w \<and> (\<exists>p \<in> set (posts w). p_id p = i \<and> p_deletedAt p \<noteq> None)"

lemma tombstone_deleted: "tombstone i w \<Longrightarrow> p \<in> set (posts w) \<Longrightarrow> p_id p = i \<Longrightarrow> p_deletedAt p \<noteq> None"
  unfolding tombstone_def postWf_def by (metis unique_row)

lemma tombstone_not_live: "tombstone i w \<Longrightarrow> findLivePost i w = None"
  using tombstone_deleted by (fastforce simp: findLivePost_def find_none)

lemma dead_updateMany:
  assumes "\<exists>p \<in> set ps. p_id p = i \<and> p_deletedAt p \<noteq> None"
    and "\<And>p. p_id (f p) = p_id p" and "\<And>p. p_deletedAt p \<noteq> None \<Longrightarrow> p_deletedAt (f p) \<noteq> None"
  shows "\<exists>p \<in> set (updateMany P f ps). p_id p = i \<and> p_deletedAt p \<noteq> None"
proof -
  obtain p where "p \<in> set ps" "p_id p = i" "p_deletedAt p \<noteq> None" using assms(1) by blast
  then have "(if P p then f p else p) \<in> set (updateMany P f ps)" "p_id (if P p then f p else p) = i"
    "p_deletedAt (if P p then f p else p) \<noteq> None"
    using assms(2,3) by (simp_all add: set_updateMany)
  then show ?thesis by blast
qed

lemma tombstone_step: "tombstone i w \<Longrightarrow> tombstone i (postStep x w)"
proof -
  assume t: "tombstone i w"
  then have dead: "\<exists>p \<in> set (posts w). p_id p = i \<and> p_deletedAt p \<noteq> None" by (simp add: tombstone_def)
  have "posts (postStep x w) = posts w \<or> (\<exists>p. posts (postStep x w) = posts w @ [p]) \<or>
      (\<exists>P f. posts (postStep x w) = updateMany P f (posts w) \<and> (\<forall>p. p_id (f p) = p_id p) \<and>
        (\<forall>p. p_deletedAt p \<noteq> None \<longrightarrow> p_deletedAt (f p) \<noteq> None))"
  proof (cases x)
    case (CreatePost u dto now)
    then show ?thesis using createPost_writes [of u dto now w] by auto
  next
    case (UpdatePost u j dto)
    then show ?thesis using updatePostById_writes [of u j dto w] by fastforce
  next
    case (RemovePost u j now)
    then show ?thesis using removePost_writes [of u j now w] by fastforce
  next
    case (Like u j)
    then show ?thesis using likePost_writes [of u j w] by fastforce
  next
    case (Unlike u j)
    then show ?thesis using unlikePost_writes [of u j w] by fastforce
  next
    case (CreateComment u dto now)
    then show ?thesis using createComment_writes [of u dto now w] by fastforce
  next
    case (UpdateComment u j c)
    then show ?thesis using updateComment_writes [of u j c w] by auto
  next
    case (RemoveComment u j now)
    then show ?thesis using removeComment_writes [of u j now w] by fastforce
  qed
  then have "\<exists>p \<in> set (posts (postStep x w)). p_id p = i \<and> p_deletedAt p \<noteq> None"
    using dead dead_updateMany [OF dead] by (elim disjE exE conjE) auto
  then show ?thesis using t postWf_step [of w x] unfolding tombstone_def by blast
qed

interpretation gone: invariant_system postStep "tombstone i" for i
  by unfold_locales (rule tombstone_step)

lemma removePost_tombstone:
  assumes "postWf w" and "fst (removePost u i now w) = Inr ()"
  shows "tombstone i (snd (removePost u i now w))"
proof -
  obtain p where p: "findLivePost i w = Some p" using assms(2) by (auto simp: removePost_def split: option.splits)
  then have posts: "posts (snd (removePost u i now w)) =
      updateMany (\<lambda>r. p_id r = i) (\<lambda>p. p\<lparr>p_deletedAt := Some now\<rparr>) (posts w)"
    using assms(2) by (auto simp: removePost_def transaction_def updateUser_cases updatePost_cases
        ret_def raise_def throwHttp_def split: if_splits)
  have "p\<lparr>p_deletedAt := Some now\<rparr> \<in> set (posts (snd (removePost u i now w)))"
    using findLivePost_Some [OF p] unfolding posts set_updateMany by (intro image_eqI [of _ _ p]) simp_all
  moreover have "p_id p = i" using findLivePost_Some [OF p] by simp
  moreover have "postWf (snd (removePost u i now w))"
    using postWf_step [OF assms(1), of "RemovePost u i now"] by simp
  ultimately show ?thesis unfolding tombstone_def
    by (intro conjI bexI [of _ "p\<lparr>p_deletedAt := Some now\<rparr>"]) simp_all
qed

section \<open>Properties\<close>

definition postCountersExact :: "'a post_db_scheme \<Rightarrow> bool" where
  "postCountersExact w \<longleftrightarrow>
     (\<forall>p \<in> set (posts w). p_likesCount p = int (likesOf w (p_id p)) \<and>
        p_commentsCount p = int (commentsOf w (p_id p))) \<and>
     (\<forall>u \<in> set (users w). u_postsCount u = int (postsOf w (u_id u)))"

lemma postCountersExact_iff:
  assumes "postWf w"
  shows "postCountersExact w \<longleftrightarrow> likes_cache.consistent w \<and> comments_cache.consistent w \<and> posts_cache.consistent w"
proof -
  have "(\<forall>k v. map_option g (findUnique key k t) = Some v \<longrightarrow> v = h k) \<longleftrightarrow> (\<forall>r \<in> set t. g r = h (key r))"
    if "unique key t" for g :: "'z \<Rightarrow> int" and key :: "'z \<Rightarrow> uid" and t h
    using findUnique_iff [OF that] by fastforce
  from this [of p_id "posts w"] this [of u_id "users w"] show ?thesis
    using assms unfolding postCountersExact_def likes_cache.consistent_def comments_cache.consistent_def
      posts_cache.consistent_def by (auto simp: postWf_def likesColumn_def commentsColumn_def postsColumn_def)
qed

text \<open>
  C25: whatever operations on posts, likes and comments run, in any order and with any
  failures, likesCount is the number of likes of the post, commentsCount the number of its
  comments that are not deleted, and postsCount the number of the user's posts that are not
  deleted.
\<close>

theorem post_counters_exact:
  assumes "postWf w" and "postCountersExact w"
  shows "postWf (fold postStep ops w) \<and> postCountersExact (fold postStep ops w)"
proof -
  have "likes_cache.consistent w" "comments_cache.consistent w" "posts_cache.consistent w"
    using assms postCountersExact_iff by blast+
  then have run: "likes_cache.consistent (fold postStep ops w)" "comments_cache.consistent (fold postStep ops w)"
    "posts_cache.consistent (fold postStep ops w)"
    using likes_cache.cache.run_inv comments_cache.cache.run_inv posts_cache.cache.run_inv by blast+
  then have "postWf (fold postStep ops w)" by (simp add: likes_cache.consistent_def)
  with run show ?thesis by (simp add: postCountersExact_iff)
qed

definition samplePostDto :: createPostDto where
  "samplePostDto =
     \<lparr>cpo_caption = None, cpo_mediaUrls = [], cpo_mediaType = IMAGE, cpo_latitude = None,
      cpo_longitude = None, cpo_locationName = None, cpo_hashtags = [], cpo_mentionedUserIds = [],
      cpo_routeId = None, cpo_eventId = None, cpo_groupId = None\<rparr>"

definition samplePosts :: post_db where
  "samplePosts = core_db.extend sampleCore \<lparr>posts = [], likes = [], comments = []\<rparr>"

text \<open>User \<open>b\<close> has posted once; the post has the first identifier of the supply.\<close>

definition samplePosted :: post_db where
  "samplePosted = snd (createPost ''b'' samplePostDto 10 samplePosts)"

theorem post_counters_exact_witness:
  "postCountersExact (fold postStep [CreatePost ''b'' samplePostDto 10, Like ''a'' [], RemovePost ''b'' [] 11] samplePosts)"
proof -
  have "postWf samplePosts" "postCountersExact samplePosts" by code_simp+
  then show ?thesis using post_counters_exact by blast
qed

text \<open>
  Liking is idempotent: repeating a like that succeeded answers the same number and
  changes nothing; and unliking a post that was not liked before takes the state back to
  what it was before the like.
\<close>

theorem like_idempotent:
  assumes "fst (likePost u p w) = Inr n"
  shows "likePost u p (snd (likePost u p w)) = (Inr n, snd (likePost u p w)) \<and>
    ((p, u) \<notin> likeKey ` set (likes w) \<longrightarrow> snd (unlikePost u p (snd (likePost u p w))) = w)"
proof -
  define liked where "liked = w\<lparr>likes := likes w @ [\<lparr>lk_postId = p, lk_userId = u\<rparr>],
     posts := updateMany (\<lambda>r. p_id r = p) (addLikes 1) (posts w)\<rparr>"
  have live: "findLivePost p w \<noteq> None" and known: "p \<in> p_id ` set (posts w)"
    using assms by (auto simp: likePost_def findLivePost_def find_none split: if_splits)
  have live': "findLivePost p liked \<noteq> None"
    using live by (simp add: findLivePost_def liked_def find_updateMany)
  show ?thesis
  proof (cases "(p, u) \<in> likeKey ` set (likes w)")
    case True
    then have "likePost u p w = (Inr (likesCountOf p w), w)"
      using live by (auto simp: likePost_def findUnique_None transaction_def ret_def)
    then show ?thesis using assms True by simp
  next
    case False
    then have first: "likePost u p w = (Inr (likesCountOf p liked), liked)"
      using live known
      by (auto simp: likePost_def findUnique_None transaction_def ret_def write_or_def
          createRow_def updatePost_cases liked_def)
    have row: "(p, u) \<in> likeKey ` set (likes liked)" by (simp add: liked_def)
    then have "likePost u p liked = (Inr (likesCountOf p liked), liked)"
      using live' by (auto simp: likePost_def findUnique_None transaction_def ret_def)
    moreover have "snd (unlikePost u p liked) = w"
    proof -
      have "deleteMany (\<lambda>r. likeKey r = (p, u)) (likes liked) = likes w"
        using False unfolding liked_def deleteMany_def by (simp add: image_iff) (intro filter_True, force)
      moreover have "updateMany (\<lambda>r. p_id r = p) (addLikes (-1)) (posts liked) = posts w"
        by (auto simp: liked_def updateMany_def addLikes_def comp_def intro!: map_idI)
      moreover have "p \<in> p_id ` set (posts liked)" using known by (simp add: liked_def)
      ultimately show ?thesis using row
        by (simp add: unlikePost_def findUnique_None transaction_def ret_def write_or_def deleteRow_def
            updatePost_cases) (simp add: liked_def)
    qed
    ultimately show ?thesis using first assms by simp
  qed
qed

theorem like_idempotent_witness:
  "snd (unlikePost ''a'' [] (snd (likePost ''a'' [] samplePosted))) = samplePosted"
proof -
  have "fst (likePost ''a'' [] samplePosted) = Inr 1" "likes samplePosted = []" by code_simp+
  then show ?thesis using like_idempotent [of "''a''" "[]" samplePosted] by simp
qed


text \<open>
  A user who reads the feed page by page reads, newest first, once each, with the right
  \<open>likedByMe\<close> flag, exactly the posts that are not deleted and whose author is the user or
  an accepted followee who is in no block relation with the user.
\<close>

theorem feed_pages_complete:
  assumes "unique p_id (posts w)" and "0 < limit" and "length (posts w) < fuel"
  shows "walkPages fuel (\<lambda>c. feedForUser v c limit w) None =
      Some (map (\<lambda>p. (p, (p_id p, v) \<in> likeKey ` set (likes w)))
        (latestFirst (filter (inFeedOf v w) (posts w)))) \<and>
    (\<forall>p \<in> set (filter (inFeedOf v w) (posts w)).
       p_deletedAt p = None \<and> (p_userId p = v \<or> \<not> blockedEitherWay v (p_userId p) w))"
proof
  have "distinct (map p_id (filter (inFeedOf v w) (posts w)))"
    "length (filter (inFeedOf v w) (posts w)) < fuel"
    using assms(1,3) le_less_trans [OF length_filter_le] by (auto simp: distinct_map_filter)
  then show "walkPages fuel (\<lambda>c. feedForUser v c limit w) None =
      Some (map (\<lambda>p. (p, (p_id p, v) \<in> likeKey ` set (likes w)))
        (latestFirst (filter (inFeedOf v w) (posts w))))"
    using assms(2) by (simp add: feedForUser_page pageOfPosts_walk attachLikedByMe_map)
qed (auto simp: inFeedOf_def)

theorem feed_pages_complete_witness:
  "walkPages 2 (\<lambda>c. feedForUser ''b'' c 1 samplePosted) None =
   Some (map (\<lambda>p. (p, (p_id p, ''b'') \<in> likeKey ` set (likes samplePosted)))
     (latestFirst (filter (inFeedOf ''b'' samplePosted) (posts samplePosted))))"
proof -
  have "unique p_id (posts samplePosted)" "length (posts samplePosted) < 2" by code_simp+
  then show ?thesis using feed_pages_complete [of samplePosted 1 2 "''b''"] by simp
qed

text \<open>
  After a successful \<open>blockUser\<close> the two users are out of each other's posts: the
  profile listing and every post of the one are refused to the other with BLOCKED, and no
  page of the feed of the one holds a post of the other.
\<close>

theorem block_hides_posts:
  assumes "fst (blockUser a b now w) = Inr r" and "unique p_id (posts w)"
  shows "fst (userPosts b a c limit (snd (blockUser a b now w))) = Inl (Http Forbidden ''blocked'' (Some BLOCKED) []) \<and>
    fst (userPosts a b c limit (snd (blockUser a b now w))) = Inl (Http Forbidden ''blocked'' (Some BLOCKED) []) \<and>
    (\<forall>p \<in> set (posts w). p_userId p = b \<longrightarrow>
       (\<exists>e. fst (findPostById (p_id p) a (snd (blockUser a b now w))) = Inl e)) \<and>
    (\<forall>item \<in> set (fst (feedForUser a c limit (snd (blockUser a b now w)))). p_userId (fst item) \<noteq> b) \<and>
    (\<forall>item \<in> set (fst (feedForUser b c limit (snd (blockUser a b now w)))). p_userId (fst item) \<noteq> a)"
proof -
  obtain w' where w': "blockUser a b now w = (Inr r, w')" using assms(1) by (metis prod.collapse)
  note blk = blockUser_Inr [OF w']
  have sep: "blockedEitherWay a b w'" "blockedEitherWay b a w'" "a \<noteq> b"
    using blk(1,3) by (auto simp: blockedEitherWay_iff)
  have unf: "posts (snd (unfollow x y v)) = posts v" for x y and v :: "'a post_db_scheme"
    using unfollow_frame [of x y v] by auto
  have same: "posts w' = posts w"
    using w' unf [of a b w] unf [of b a "snd (unfollow a b w)"]
    by (auto simp: blockUser_def and_then_Inr_iff takeUuid_def ret_def raise_def
        throwHttp_def Let_def split: if_splits option.splits)
  have feed: "p_userId (fst item) \<noteq> y"
    if "item \<in> set (fst (feedForUser x c limit w'))" "blockedEitherWay x y w'" "x \<noteq> y" for item x y
    using that pageOfPosts_subset [of x "filter (inFeedOf x w') (posts w')" c limit w']
    unfolding feedForUser_page by (auto simp: inFeedOf_def)
  have byId: "\<exists>e. fst (findPostById (p_id p) a w') = Inl e"
    if "p \<in> set (posts w)" "p_userId p = b" for p
  proof (cases "findLivePost (p_id p) w'")
    case None
    then show ?thesis by (simp add: findPostById_def)
  next
    case (Some q)
    then have "q = p" using findLivePost_Some [OF Some] that(1) assms(2) same unique_row [of p_id "posts w" q p] by auto
    with Some that(2) sep show ?thesis by (simp add: findPostById_def peersBlockedEitherWay_set)
  qed
  show ?thesis
    using sep feed byId by (auto simp: w' userPosts_def peersBlockedEitherWay_set)
qed


theorem block_hides_posts_witness:
  "\<exists>e. fst (findPostById [] ''a'' (snd (blockUser ''a'' ''b'' 20 samplePosted))) = Inl e"
proof -
  have "fst (blockUser ''a'' ''b'' 20 samplePosted) = Inr (''b'', 20)" "unique p_id (posts samplePosted)"
    "\<exists>p \<in> set (posts samplePosted). p_id p = [] \<and> p_userId p = ''b''" by code_simp+
  then show ?thesis using block_hides_posts [of "''a''" "''b''" 20 samplePosted "(''b'', 20)"] by metis
qed

text \<open>
  Deletion is final: once \<open>removePost\<close> succeeds, reading, liking or deleting the post
  answers NOT_FOUND and no page of a feed shows it, whatever operations run afterwards.
\<close>

theorem deleted_stays_deleted:
  assumes "postWf w" and "fst (removePost u i now w) = Inr ()"
  shows "fst (findPostById i x (fold postStep ops (snd (removePost u i now w)))) =
      Inl (Http NotFound ''post_not_found'' (Some NOT_FOUND) []) \<and>
    fst (likePost x i (fold postStep ops (snd (removePost u i now w)))) =
      Inl (Http NotFound ''post_not_found'' (Some NOT_FOUND) []) \<and>
    fst (removePost x i now' (fold postStep ops (snd (removePost u i now w)))) =
      Inl (Http NotFound ''post_not_found'' (Some NOT_FOUND) []) \<and>
    (\<forall>item \<in> set (fst (feedForUser x c limit (fold postStep ops (snd (removePost u i now w))))).
       p_id (fst item) \<noteq> i)"
proof -
  define v where "v = fold postStep ops (snd (removePost u i now w))"
  have "tombstone i (snd (removePost u i now w))"
    using removePost_tombstone [OF assms] .
  then have v: "tombstone i v" unfolding v_def by (rule gone.run_inv)
  then have "findLivePost i v = None" by (rule tombstone_not_live)
  moreover have "p_id (fst item) \<noteq> i" if "item \<in> set (fst (feedForUser x c limit v))" for item
  proof -
    have "fst item \<in> set (filter (inFeedOf x v) (posts v))"
      using that pageOfPosts_subset unfolding feedForUser_page by blast
    then show ?thesis using tombstone_deleted [OF v, of "fst item"] by (auto simp: inFeedOf_def)
  qed
  ultimately show ?thesis unfolding v_def [symmetric]
    by (simp add: findPostById_def likePost_def removePost_def)
qed

theorem deleted_stays_deleted_witness:
  "fst (likePost ''a'' [] (fold postStep [RemovePost ''b'' [] 12, Like ''a'' []]
     (snd (removePost ''b'' [] 11 samplePosted)))) =
   Inl (Http NotFound ''post_not_found'' (Some NOT_FOUND) [])"
proof -
  have "postWf samplePosted" "fst (removePost ''b'' [] 11 samplePosted) = Inr ()" by code_simp+
  then show ?thesis using deleted_stays_deleted by blast
qed

end
