(* ===== verification/Leader_Election.thy ===== *)
theory Leader_Election
  imports Redis_Store "HOL-Library.Product_Lexorder" "HOL-Library.Multiset"
begin

text \<open>
  \<open>leader-election.service.ts\<close>: the choice of the next leader of a party (pure) and the
  Redis lock that lets one API instance at a time carry it out. The lock is stated as the
  interface \<open>lease\<close>, which \<open>SET NX EX\<close> with the compare-and-delete script provides.
\<close>

section \<open>Constants\<close>

definition leaderLock :: "uid \<Rightarrow> string" where
  "leaderLock partyId = ''party:'' @ partyId @ '':leader_lock''"

definition leaderLockSeconds :: int where "leaderLockSeconds = 5"

section \<open>The choice\<close>

record partyMemberLite =
  ml_userId :: uid
  ml_joinedAt :: time
  ml_leftAt :: "time option"
  ml_isOnline :: bool

record electionInput =
  ei_partyId :: uid
  ei_coLeaderIds :: "uid list"
  ei_onlineMembers :: "partyMemberLite list"

datatype electionReason = CO_LEADER_PICK | OLDEST_MEMBER | HASH_FALLBACK | NO_CANDIDATES | LOCK_FAILED

record electionResult =
  er_newLeaderId :: "uid option"
  er_locked :: bool
  er_reason :: electionReason

text \<open>The order of the comparator: by \<open>joinedAt\<close>, ties by \<open>userId\<close>.\<close>

definition seniority :: "partyMemberLite \<Rightarrow> time \<times> uid" where
  "seniority m = (ml_joinedAt m, ml_userId m)"

definition pickNextLeader :: "electionInput \<Rightarrow> uid option \<times> electionReason" where
  "pickNextLeader input =
     (let onlineSet = map ml_userId (ei_onlineMembers input)
      in if ei_onlineMembers input = [] then (None, NO_CANDIDATES)
         else case find (\<lambda>c. c \<in> set onlineSet) (ei_coLeaderIds input) of
           Some coLeader \<Rightarrow> (Some coLeader, CO_LEADER_PICK)
         | None \<Rightarrow>
             (Some (ml_userId (hd (sort_key seniority (ei_onlineMembers input)))), OLDEST_MEMBER))"

section \<open>The lock\<close>

definition elect :: "electionInput \<Rightarrow> time \<Rightarrow> keyspace \<Rightarrow> electionResult \<times> keyspace" where
  "elect input now s =
     (case pickNextLeader input of
        (None, reason) \<Rightarrow>
          (\<lparr>er_newLeaderId = None, er_locked = False, er_reason = reason\<rparr>, s)
      | (Some userId, reason) \<Rightarrow>
          (let (locked, s') = kvSetNx now (leaderLock (ei_partyId input)) userId leaderLockSeconds s
           in if \<not> locked
              then (\<lparr>er_newLeaderId = None, er_locked = False, er_reason = LOCK_FAILED\<rparr>, s')
              else (\<lparr>er_newLeaderId = Some userId, er_locked = True, er_reason = reason\<rparr>, s')))"

text \<open>The script of \<open>release\<close>: delete the key when it holds the expected leader.\<close>

definition release :: "uid \<Rightarrow> uid \<Rightarrow> time \<Rightarrow> keyspace \<Rightarrow> bool \<times> keyspace" where
  "release partyId expectedLeaderId now s =
     (if kvGet now (leaderLock partyId) s = Some expectedLeaderId
      then (True, kvDel (leaderLock partyId) s) else (False, s))"

section \<open>The lease contract\<close>

text \<open>
  \<open>acquire\<close> succeeds exactly when nobody holds the lease, and then holds it for \<open>width\<close>
  unless the holder gives it back; \<open>giveBack\<close> with another value does nothing.
\<close>

locale lease =
  fixes holder :: "time \<Rightarrow> 's \<Rightarrow> 'v option"
    and acquire :: "'v \<Rightarrow> time \<Rightarrow> 's \<Rightarrow> bool \<times> 's"
    and giveBack :: "'v \<Rightarrow> time \<Rightarrow> 's \<Rightarrow> bool \<times> 's"
    and width :: int
  assumes acquire_free: "fst (acquire v now s) \<longleftrightarrow> holder now s = None"
    and acquire_holder: "holder now s = None \<Longrightarrow>
      holder now' (snd (acquire v now s)) = (if now' < now + width then Some v else None)"
    and acquire_busy: "holder now s \<noteq> None \<Longrightarrow> snd (acquire v now s) = s"
    and giveBack_own: "fst (giveBack v now s) \<longleftrightarrow> holder now s = Some v"
    and giveBack_holder:
      "holder now' (snd (giveBack v now s)) = (if holder now s = Some v then None else holder now' s)"
begin

text \<open>The winners among attempts made one after the other.\<close>

fun winners :: "('v \<times> time) list \<Rightarrow> 's \<Rightarrow> 'v list" where
  "winners [] s = []"
| "winners ((v, now) # as) s =
     (if fst (acquire v now s) then v # winners as (snd (acquire v now s))
      else winners as (snd (acquire v now s)))"

lemma held_no_winner:
  assumes "\<forall>a \<in> set as. holder (snd a) s \<noteq> None"
  shows "winners as s = []"
  using assms
proof (induction as)
  case Nil
  then show ?case by simp
next
  case (Cons a as)
  obtain v now where a: "a = (v, now)" by (cases a)
  with Cons.prems have "holder now s \<noteq> None" by simp
  moreover have "winners as s = []" by (rule Cons.IH) (use Cons.prems in simp)
  ultimately show ?case by (simp add: a acquire_free acquire_busy)
qed

lemma one_winner:
  assumes "\<forall>a \<in> set as. t \<le> snd a \<and> snd a < t + width"
  shows "length (winners as s) \<le> 1"
  using assms
proof (induction as arbitrary: s)
  case Nil
  then show ?case by simp
next
  case (Cons a as)
  obtain v now where a: "a = (v, now)" by (cases a)
  show ?case
  proof (cases "holder now s = None")
    case True
    have "winners as (snd (acquire v now s)) = []"
      by (rule held_no_winner) (use Cons.prems a True in \<open>auto simp: acquire_holder\<close>)
    then show ?thesis by (simp add: a)
  next
    case False
    moreover have "length (winners as s) \<le> 1" by (rule Cons.IH) (use Cons.prems in simp)
    ultimately show ?thesis using acquire_free acquire_busy by (auto simp: a)
  qed
qed

lemma giveBack_frees: "holder now s = Some v \<Longrightarrow> holder now' (snd (giveBack v now s)) = None"
  by (simp add: giveBack_holder)

lemma giveBack_other: "holder now s \<noteq> Some v \<Longrightarrow> holder now' (snd (giveBack v now s)) = holder now' s"
  by (simp add: giveBack_holder)

end

interpretation leader_lock: lease
  "\<lambda>now s. kvGet now (leaderLock p) s"
  "\<lambda>v now s. kvSetNx now (leaderLock p) v leaderLockSeconds s"
  "\<lambda>v now s. release p v now s"
  "leaderLockSeconds * 1000"
  for p
  by unfold_locales (auto simp: kvSetNx_def kvGet_Set release_def kvGet_Del)

section \<open>Lemmas\<close>

lemma find_first:
  "find P xs = Some x \<Longrightarrow> \<exists>pre post. xs = pre @ x # post \<and> P x \<and> (\<forall>y \<in> set pre. \<not> P y)"
proof (induction xs)
  case Nil
  then show ?case by simp
next
  case (Cons a xs)
  show ?case
  proof (cases "P a")
    case True
    then have "a # xs = [] @ x # xs" "P x" using Cons.prems by auto
    then show ?thesis by fastforce
  next
    case False
    then obtain pre post where "xs = pre @ x # post" "P x" "\<forall>y \<in> set pre. \<not> P y"
      using Cons by auto
    then have "a # xs = (a # pre) @ x # post" "\<forall>y \<in> set (a # pre). \<not> P y" using False by auto
    with \<open>P x\<close> show ?thesis by blast
  qed
qed

lemma hd_sort_key_min:
  assumes "xs \<noteq> []"
  shows "hd (sort_key f xs) \<in> set xs \<and> (\<forall>y \<in> set xs. f (hd (sort_key f xs)) \<le> f y)"
proof -
  obtain z zs where zs: "sort_key f xs = z # zs"
    using assms by (metis list.exhaust sort_key_simps(1) length_sort length_0_conv)
  then have "set xs = set (z # zs)" by (metis set_sort)
  moreover have "sorted (map f (z # zs))" by (metis zs sorted_sort_key)
  ultimately show ?thesis using zs by auto
qed

lemma pick_member:
  "pickNextLeader input = (Some u, r) \<Longrightarrow> u \<in> ml_userId ` set (ei_onlineMembers input)"
  using hd_sort_key_min [of "ei_onlineMembers input" seniority]
  by (auto simp: pickNextLeader_def Let_def find_Some_iff split: if_splits option.splits)

lemma pick_None: "fst (pickNextLeader input) = None \<longleftrightarrow> ei_onlineMembers input = []"
  by (auto simp: pickNextLeader_def Let_def split: option.split)

lemma elect_locked:
  assumes "elect input now s = (r, s')"
  shows "er_locked r \<longleftrightarrow> er_newLeaderId r \<noteq> None"
    and "er_newLeaderId r = Some u \<Longrightarrow> u \<in> ml_userId ` set (ei_onlineMembers input) \<and>
      fst (pickNextLeader input) = Some u \<and> kvGet now (leaderLock (ei_partyId input)) s = None"
  using assms pick_member [of input u]
  by (auto simp: elect_def Let_def kvSetNx_def split: prod.splits option.splits if_splits)


text \<open>The API instances that try to elect, one after the other: the leaders that got the lock.\<close>

fun electAll :: "(electionInput \<times> time) list \<Rightarrow> keyspace \<Rightarrow> uid list" where
  "electAll [] s = []"
| "electAll ((input, now) # as) s =
     (let (r, s') = elect input now s
      in (case er_newLeaderId r of None \<Rightarrow> [] | Some u \<Rightarrow> [u]) @ electAll as s')"

definition attempts :: "(electionInput \<times> time) list \<Rightarrow> (uid \<times> time) list" where
  "attempts as = List.map_filter (\<lambda>(input, now). map_option (\<lambda>u. (u, now)) (fst (pickNextLeader input))) as"

lemma electAll_winners:
  "\<forall>a \<in> set as. ei_partyId (fst a) = p \<Longrightarrow> electAll as s = leader_lock.winners p (attempts as) s"
proof (induction as arbitrary: s)
  case Nil
  then show ?case by (simp add: attempts_def List.map_filter_def)
next
  case (Cons a as)
  obtain input now where a: "a = (input, now)" by (cases a)
  obtain pick reason where pick: "pickNextLeader input = (pick, reason)" by (cases "pickNextLeader input")
  have p: "ei_partyId input = p" using Cons.prems a by simp
  have ih: "electAll as s = leader_lock.winners p (attempts as) s" for s
    by (rule Cons.IH) (use Cons.prems in simp)
  show ?case
  proof (cases pick)
    case None
    then show ?thesis by (simp add: a pick elect_def attempts_def List.map_filter_def ih [unfolded attempts_def List.map_filter_def])
  next
    case (Some u)
    then have "attempts (a # as) = (u, now) # attempts as"
      by (simp add: a pick attempts_def List.map_filter_def)
    moreover obtain locked s' where "kvSetNx now (leaderLock p) u leaderLockSeconds s = (locked, s')"
      by (cases "kvSetNx now (leaderLock p) u leaderLockSeconds s")
    ultimately show ?thesis by (simp add: a pick Some elect_def p ih)
  qed
qed

section \<open>Properties\<close>

text \<open>
  The choice of the next leader: nobody when nobody is online; otherwise an online
  member, namely the first co-leader in the list who is online, and when none is, the
  member who joined first, ties going to the smaller user id.
\<close>

theorem pick_next_leader_correct:
  "(case fst (pickNextLeader input) of
      None \<Rightarrow> ei_onlineMembers input = []
    | Some u \<Rightarrow>
        (\<exists>m \<in> set (ei_onlineMembers input). ml_userId m = u \<and>
          ((\<exists>pre post. ei_coLeaderIds input = pre @ u # post \<and>
              (\<forall>c \<in> set pre. c \<notin> ml_userId ` set (ei_onlineMembers input))) \<or>
           ((\<forall>c \<in> set (ei_coLeaderIds input). c \<notin> ml_userId ` set (ei_onlineMembers input)) \<and>
            (\<forall>n \<in> set (ei_onlineMembers input). ml_joinedAt m < ml_joinedAt n \<or>
               ml_joinedAt m = ml_joinedAt n \<and> ml_userId m \<le> ml_userId n)))))"
proof (cases "ei_onlineMembers input = []")
  case True
  then show ?thesis by (simp add: pickNextLeader_def)
next
  case ne: False
  let ?on = "ml_userId ` set (ei_onlineMembers input)"
  show ?thesis
  proof (cases "find (\<lambda>c. c \<in> ?on) (ei_coLeaderIds input)")
    case (Some u)
    with find_first [OF this] ne show ?thesis by (fastforce simp: pickNextLeader_def)
  next
    case None
    then have none: "\<forall>c \<in> set (ei_coLeaderIds input). c \<notin> ?on" by (auto simp: find_None_iff)
    define m where "m = hd (sort_key seniority (ei_onlineMembers input))"
    have m: "m \<in> set (ei_onlineMembers input)" "\<forall>n \<in> set (ei_onlineMembers input). seniority m \<le> seniority n"
      using hd_sort_key_min [OF ne] by (auto simp: m_def)
    have "fst (pickNextLeader input) = Some (ml_userId m)"
      using ne None by (simp add: pickNextLeader_def m_def)
    moreover have "\<forall>n \<in> set (ei_onlineMembers input). ml_joinedAt m < ml_joinedAt n \<or>
        ml_joinedAt m = ml_joinedAt n \<and> ml_userId m \<le> ml_userId n"
      using m(2) by (auto simp: seniority_def)
    ultimately show ?thesis using m(1) none by auto
  qed
qed

definition lite :: "uid \<Rightarrow> time \<Rightarrow> partyMemberLite" where
  "lite u t = \<lparr>ml_userId = u, ml_joinedAt = t, ml_leftAt = None, ml_isOnline = True\<rparr>"

theorem pick_next_leader_correct_witness:
  "\<exists>u. fst (pickNextLeader \<lparr>ei_partyId = ''p'', ei_coLeaderIds = [''z''], ei_onlineMembers = [lite ''a'' 3, lite ''b'' 2]\<rparr>) =
     Some u \<and> u \<in> {''a'', ''b''}"
  using pick_next_leader_correct
    [of "\<lparr>ei_partyId = ''p'', ei_coLeaderIds = [''z''], ei_onlineMembers = [lite ''a'' 3, lite ''b'' 2]\<rparr>"]
  by (auto simp: lite_def split: option.splits)

text \<open>
  The choice is deterministic: it does not depend on the order in which an instance
  reads the members, so all instances that see the same members choose the same leader.
\<close>

theorem pick_order_independent:
  assumes "mset ms = mset ns" and "distinct (map ml_userId ms)"
  shows "pickNextLeader \<lparr>ei_partyId = p, ei_coLeaderIds = cs, ei_onlineMembers = ms\<rparr> =
         pickNextLeader \<lparr>ei_partyId = p, ei_coLeaderIds = cs, ei_onlineMembers = ns\<rparr>"
proof -
  have sets: "set ms = set ns" using assms(1) by (rule mset_eq_setD)
  moreover have "hd (sort_key seniority ms) = hd (sort_key seniority ns)" if "ms \<noteq> []"
  proof -
    have "ns \<noteq> []" using sets that by auto
    have "hd (sort_key seniority ms) \<in> set ms" "hd (sort_key seniority ns) \<in> set ms"
      "seniority (hd (sort_key seniority ms)) = seniority (hd (sort_key seniority ns))"
      using hd_sort_key_min [OF that, of seniority] hd_sort_key_min [OF \<open>ns \<noteq> []\<close>, of seniority] sets
      by (auto intro: antisym)
    then show ?thesis using assms(2) by (auto simp: seniority_def distinct_map inj_on_def)
  qed
  ultimately show ?thesis by (auto simp: pickNextLeader_def Let_def split: option.split)
qed

theorem pick_order_independent_witness:
  "pickNextLeader \<lparr>ei_partyId = ''p'', ei_coLeaderIds = [], ei_onlineMembers = [lite ''a'' 3, lite ''b'' 2]\<rparr> =
   pickNextLeader \<lparr>ei_partyId = ''p'', ei_coLeaderIds = [], ei_onlineMembers = [lite ''b'' 2, lite ''a'' 3]\<rparr>"
proof -
  have "mset [lite ''a'' 3, lite ''b'' 2] = mset [lite ''b'' 2, lite ''a'' 3]" by simp
  moreover have "distinct (map ml_userId [lite ''a'' 3, lite ''b'' 2])" by code_simp
  ultimately show ?thesis by (rule pick_order_independent)
qed

text \<open>
  Mutual exclusion: of all the elections of one party tried within five seconds of each
  other, in any order and by any number of instances, at most one gets the lock.
\<close>

theorem election_exclusive:
  assumes "\<forall>a \<in> set as. ei_partyId (fst a) = p \<and> t \<le> snd a \<and> snd a < t + leaderLockSeconds * 1000"
  shows "length (electAll as s) \<le> 1"
proof -
  have "\<forall>a \<in> set (attempts as). t \<le> snd a \<and> snd a < t + leaderLockSeconds * 1000"
    using assms by (force simp: attempts_def List.map_filter_def)
  then have "length (leader_lock.winners p (attempts as) s) \<le> 1" by (rule leader_lock.one_winner)
  then show ?thesis using assms by (subst electAll_winners [of as p]) auto
qed

theorem election_exclusive_witness:
  "length (electAll
     [(\<lparr>ei_partyId = ''p'', ei_coLeaderIds = [], ei_onlineMembers = [lite ''a'' 3]\<rparr>, 10),
      (\<lparr>ei_partyId = ''p'', ei_coLeaderIds = [], ei_onlineMembers = [lite ''b'' 2]\<rparr>, 20)] []) \<le> 1"
  by (rule election_exclusive [where p = "''p''" and t = 0]) (simp add: leaderLockSeconds_def)

end
