(* ===== verification/Party.thy ===== *)
theory Party
  imports Notifications Leader_Election
begin

text \<open>
  \<open>party.service.ts\<close> and \<open>party-cleanup.service.ts\<close>: parties kept in the tables Party,
  PartyMember and PartyInvite and mirrored in Redis (the member set of a party, the index of
  active parties, the party of a user, the sorted set of members seen offline), leader
  hand-over through \<open>Leader_Election\<close>, the sweep of members who stay offline. What the
  service tells its WebSocket gateway (\<open>PartyEmitter\<close>) is the list \<open>emitted\<close>.
\<close>

section \<open>State\<close>

datatype partyStatus = P_WAITING | P_RIDING | P_PAUSED | P_ENDED

datatype partyRole = R_LEADER | R_CO_LEADER | R_MEMBER

datatype partyInviteStatus = I_PENDING | I_ACCEPTED | I_DECLINED | I_EXPIRED

datatype routePrivacy = ROUTE_PUBLIC | ROUTE_FOLLOWERS_ONLY | ROUTE_PRIVATE

record route =
  rt_id :: uid
  rt_name :: string
  rt_distance :: rat
  rt_estimatedDuration :: int
  rt_waypoints :: "(rat \<times> rat \<times> string option) list"
  rt_privacy :: routePrivacy
  rt_deletedAt :: "time option"

record party =
  pt_id :: uid
  pt_name :: string
  pt_leaderId :: uid
  pt_coLeaderIds :: "uid list"
  pt_routeId :: "uid option"
  pt_eventId :: "uid option"
  pt_status :: partyStatus
  pt_isPrivate :: bool
  pt_maxMembers :: nat
  pt_startedAt :: "time option"
  pt_endedAt :: "time option"
  pt_createdAt :: time
  pt_deletedAt :: "time option"

record partyMember =
  pm_partyId :: uid
  pm_userId :: uid
  pm_role :: partyRole
  pm_isOnline :: bool
  pm_joinedAt :: time
  pm_leftAt :: "time option"
  pm_serverHostname :: "string option"

record partyInvite =
  pi_id :: uid
  pi_partyId :: uid
  pi_inviterId :: uid
  pi_inviteeId :: uid
  pi_status :: partyInviteStatus
  pi_createdAt :: time
  pi_respondedAt :: "time option"

record partyMemberDto =
  md_userId :: uid
  md_username :: string
  md_avatarUrl :: "string option"
  md_role :: partyRole
  md_isOnline :: bool
  md_joinedAt :: time

datatype leaveReason = LEFT | DISCONNECT_TIMEOUT | KICKED

datatype endReason = LEADER_LEFT_ALONE | MANUAL | TIMEOUT

datatype partyEmit =
    MemberJoined uid partyMemberDto
  | MemberLeft uid uid leaveReason
  | StatusChanged uid partyStatus
  | LeaderChanged uid uid
  | Signal uid string uid string time
  | Ended uid endReason

record party_db = core_db +
  routes :: "route list"
  parties :: "party list"
  partyMembers :: "partyMember list"
  partyInvites :: "partyInvite list"
  rd_members :: "uid \<Rightarrow> uid list"
  rd_activeParties :: "uid list"
  rd_userParty :: "uid \<Rightarrow> uid option"
  rd_zombie :: "uid \<Rightarrow> uid zset"
  hasEmitter :: bool
  emitted :: "partyEmit list"

abbreviation memberKey :: "partyMember \<Rightarrow> uid \<times> uid" where
  "memberKey m \<equiv> (pm_partyId m, pm_userId m)"

abbreviation inviteKey :: "partyInvite \<Rightarrow> uid \<times> uid" where
  "inviteKey i \<equiv> (pi_partyId i, pi_inviteeId i)"

section \<open>Constants\<close>

definition zombieOfflineSeconds :: int where "zombieOfflineSeconds = 60"
definition signalRatePerMinute :: nat where "signalRatePerMinute = 12"
definition partyCreatePerHour :: nat where "partyCreatePerHour = 5"
definition partyCreateWindowSeconds :: int where "partyCreateWindowSeconds = 60 * 60"

section \<open>Helpers\<close>

text \<open>\<open>this.emitter?.emit...\<close>: nothing happens while no gateway has registered.\<close>

definition emitParty :: "partyEmit \<Rightarrow> 'a party_db_scheme \<Rightarrow> 'a party_db_scheme" where
  "emitParty e w = (if hasEmitter w then w\<lparr>emitted := emitted w @ [e]\<rparr> else w)"

definition registerEmitter :: "'a party_db_scheme \<Rightarrow> 'a party_db_scheme" where
  "registerEmitter w = w\<lparr>hasEmitter := True\<rparr>"

definition findParty :: "uid \<Rightarrow> 'a party_db_scheme \<Rightarrow> party option" where
  "findParty i w = findUnique pt_id i (parties w)"

definition membersOf :: "uid \<Rightarrow> 'a party_db_scheme \<Rightarrow> partyMember list" where
  "membersOf partyId w = filter (\<lambda>m. pm_partyId m = partyId) (partyMembers w)"

text \<open>\<open>party: { status: { not: 'ENDED' }, deletedAt: null }\<close>\<close>

definition openParty :: "uid \<Rightarrow> 'a party_db_scheme \<Rightarrow> bool" where
  "openParty i w =
     (case findParty i w of
        None \<Rightarrow> False | Some p \<Rightarrow> pt_status p \<noteq> P_ENDED \<and> pt_deletedAt p = None)"

definition findActivePartyForUser :: "uid \<Rightarrow> 'a party_db_scheme \<Rightarrow> (uid \<times> partyRole) option" where
  "findActivePartyForUser userId w =
     map_option (\<lambda>m. (pm_partyId m, pm_role m))
       (find (\<lambda>m. pm_userId m = userId \<and> pm_leftAt m = None \<and> openParty (pm_partyId m) w)
          (partyMembers w))"

record partySummary =
  ps_id :: uid
  ps_name :: string
  ps_leaderId :: uid
  ps_coLeaderIds :: "uid list"
  ps_status :: partyStatus
  ps_routeId :: "uid option"
  ps_memberCount :: nat
  ps_isPrivate :: bool
  ps_maxMembers :: nat
  ps_startedAt :: "time option"
  ps_endedAt :: "time option"
  ps_createdAt :: time

definition toSummary :: "party \<Rightarrow> nat \<Rightarrow> partySummary" where
  "toSummary p memberCount =
     \<lparr>ps_id = pt_id p, ps_name = pt_name p, ps_leaderId = pt_leaderId p,
      ps_coLeaderIds = pt_coLeaderIds p, ps_status = pt_status p, ps_routeId = pt_routeId p,
      ps_memberCount = memberCount, ps_isPrivate = pt_isPrivate p,
      ps_maxMembers = pt_maxMembers p, ps_startedAt = pt_startedAt p, ps_endedAt = pt_endedAt p,
      ps_createdAt = pt_createdAt p\<rparr>"

definition toMemberDto :: "partyMember \<Rightarrow> 'a core_db_scheme \<Rightarrow> partyMemberDto" where
  "toMemberDto m w =
     (let user = findUser (pm_userId m) w
      in \<lparr>md_userId = pm_userId m,
          md_username = (case user of None \<Rightarrow> '''' | Some u \<Rightarrow> u_username u),
          md_avatarUrl = (case user of None \<Rightarrow> None | Some u \<Rightarrow> u_avatarUrl u),
          md_role = pm_role m, md_isOnline = pm_isOnline m, md_joinedAt = pm_joinedAt m\<rparr>)"

record partyDetail =
  pd_summary :: partySummary
  pd_route :: "route option"
  pd_members :: "partyMemberDto list"

definition getPartyDetail :: "uid \<Rightarrow> 'a party_db_scheme \<Rightarrow> (partyDetail, 'a party_db_scheme) outcome" where
  "getPartyDetail partyId w =
     (case findParty partyId w of
        None \<Rightarrow> throwHttp NotFound ''party_not_found'' NOT_FOUND w
      | Some p \<Rightarrow>
          let members = sort_key pm_joinedAt (filter (\<lambda>m. pm_leftAt m = None) (membersOf partyId w))
          in ret \<lparr>pd_summary = toSummary p (length members),
                  pd_route = Option.bind (pt_routeId p) (\<lambda>r. findUnique rt_id r (routes w)),
                  pd_members = map (\<lambda>m. toMemberDto m w) members\<rparr> w)"

definition listNearbyPublicParties :: "nat \<Rightarrow> 'a party_db_scheme \<Rightarrow> partySummary list" where
  "listNearbyPublicParties limit w =
     map (\<lambda>p. toSummary p (length (filter (\<lambda>m. pm_leftAt m = None) (membersOf (pt_id p) w))))
       (take limit (rev (sort_key pt_createdAt
          (filter (\<lambda>p. pt_status p \<in> {P_WAITING, P_RIDING} \<and> \<not> pt_isPrivate p \<and>
                       pt_deletedAt p = None) (parties w)))))"

definition listInvitesForUser ::
  "uid \<Rightarrow> 'a party_db_scheme \<Rightarrow> (partyInvite \<times> party option \<times> (uid \<times> string \<times> string option) option) list" where
  "listInvitesForUser userId w =
     map (\<lambda>i. (i, findParty (pi_partyId i) w,
               map_option (\<lambda>u. (u_id u, u_username u, u_avatarUrl u)) (findUser (pi_inviterId i) w)))
       (rev (sort_key pi_createdAt
          (filter (\<lambda>i. pi_inviteeId i = userId \<and> pi_status i = I_PENDING) (partyInvites w))))"

section \<open>Creating\<close>

record createPartyDto =
  cp_name :: string
  cp_routeId :: "uid option"
  cp_eventId :: "uid option"
  cp_isPrivate :: bool
  cp_maxMembers :: nat
  cp_coLeaderIds :: "uid list"

text \<open>The bounds that \<open>CreatePartySchema\<close> puts on the body before the service sees it.\<close>

definition createPartySchema :: "createPartyDto \<Rightarrow> bool" where
  "createPartySchema dto \<longleftrightarrow> 2 \<le> length (cp_name dto) \<and> length (cp_name dto) \<le> 60 \<and>
     2 \<le> cp_maxMembers dto \<and> cp_maxMembers dto \<le> 50 \<and> length (cp_coLeaderIds dto) \<le> 3"

definition newMember :: "uid \<Rightarrow> uid \<Rightarrow> partyRole \<Rightarrow> time \<Rightarrow> partyMember" where
  "newMember partyId userId role now =
     \<lparr>pm_partyId = partyId, pm_userId = userId, pm_role = role, pm_isOnline = True,
      pm_joinedAt = now, pm_leftAt = None, pm_serverHostname = None\<rparr>"

definition newParty :: "uid \<Rightarrow> uid \<Rightarrow> createPartyDto \<Rightarrow> time \<Rightarrow> party" where
  "newParty i leaderId dto now =
     \<lparr>pt_id = i, pt_name = cp_name dto, pt_leaderId = leaderId,
      pt_coLeaderIds = cp_coLeaderIds dto, pt_routeId = cp_routeId dto,
      pt_eventId = cp_eventId dto, pt_status = P_WAITING, pt_isPrivate = cp_isPrivate dto,
      pt_maxMembers = cp_maxMembers dto, pt_startedAt = None, pt_endedAt = None,
      pt_createdAt = now, pt_deletedAt = None\<rparr>"

text \<open>\<open>tx.partyMember.create\<close>: the key is (party, user), both sides are foreign keys.\<close>

definition createMember ::
  "partyMember \<Rightarrow> 'a party_db_scheme \<Rightarrow> (unit, 'a party_db_scheme) outcome" where
  "createMember m w =
     (if \<not> userExists (pm_userId m) w \<or> findParty (pm_partyId m) w = None
      then raise ForeignKeyViolation w
      else write_or UniqueViolation (createRow memberKey m (partyMembers w))
             (\<lambda>t. w\<lparr>partyMembers := t\<rparr>) w)"

definition insertParty ::
  "uid \<Rightarrow> createPartyDto \<Rightarrow> time \<Rightarrow> 'a party_db_scheme \<Rightarrow> (party, 'a party_db_scheme) outcome" where
  "insertParty leaderId dto now w =
     transaction
       (\<lambda>w. let created = newParty (newUuid w) leaderId dto now in
          and_then
            (write_or UniqueViolation (createRow pt_id created (parties w))
               (\<lambda>t. (takeUuid w)\<lparr>parties := t\<rparr>) w)
            (\<lambda>_ w1. and_then (createMember (newMember (pt_id created) leaderId R_LEADER now) w1)
               (\<lambda>_ w2. ret created w2))) w"

definition createParty ::
  "uid \<Rightarrow> createPartyDto \<Rightarrow> time \<Rightarrow> 'a party_db_scheme \<Rightarrow> (partySummary, 'a party_db_scheme) outcome" where
  "createParty leaderId dto now w0 =
     (let (count, w) = incrRate leaderId ''party_create'' partyCreateWindowSeconds now w0 in
      if count > partyCreatePerHour
      then throwHttp Forbidden ''party_create_rate_limited'' FORBIDDEN w
      else (case findActivePartyForUser leaderId w of
        Some (existing, _) \<Rightarrow>
          raise (Http Conflict ''user_already_in_party'' (Some CONFLICT)
                   [(''partyId'', DText existing)]) w
      | None \<Rightarrow>
          if (case cp_routeId dto of
                None \<Rightarrow> False
              | Some r \<Rightarrow> (case findUnique rt_id r (routes w) of
                  None \<Rightarrow> True | Some route \<Rightarrow> rt_deletedAt route \<noteq> None))
          then throwHttp NotFound ''route_not_found'' NOT_FOUND w
          else and_then (insertParty leaderId dto now w)
            (\<lambda>p w3. ret (toSummary p 1)
               (w3\<lparr>rd_members := (rd_members w3)(pt_id p := sadd leaderId (rd_members w3 (pt_id p))),
                   rd_activeParties := sadd (pt_id p) (rd_activeParties w3),
                   rd_userParty := (rd_userParty w3)(leaderId \<mapsto> pt_id p)\<rparr>))))"

section \<open>Joining\<close>

text \<open>\<open>partyMember.update({ where: { partyId_userId }, data })\<close>\<close>

definition updateMember ::
  "uid \<times> uid \<Rightarrow> (partyMember \<Rightarrow> partyMember) \<Rightarrow> 'a party_db_scheme \<Rightarrow> (unit, 'a party_db_scheme) outcome" where
  "updateMember k f w =
     write_or RecordNotFound (updateRow memberKey k f (partyMembers w)) (\<lambda>t. w\<lparr>partyMembers := t\<rparr>) w"

definition acceptInvite :: "uid \<Rightarrow> uid \<Rightarrow> time \<Rightarrow> 'a party_db_scheme \<Rightarrow> 'a party_db_scheme" where
  "acceptInvite partyId userId now w =
     w\<lparr>partyInvites := updateMany
         (\<lambda>i. pi_partyId i = partyId \<and> pi_inviteeId i = userId \<and> pi_status i = I_PENDING)
         (\<lambda>i. i\<lparr>pi_status := I_ACCEPTED, pi_respondedAt := Some now\<rparr>) (partyInvites w)\<rparr>"

text \<open>The part of \<open>joinParty\<close> after the checks on the party's state, size and the user's party.\<close>

definition joinAdmitted ::
  "uid \<Rightarrow> uid \<Rightarrow> party \<Rightarrow> partyMember list \<Rightarrow> time \<Rightarrow> 'a party_db_scheme \<Rightarrow>
   (partyDetail, 'a party_db_scheme) outcome" where
  "joinAdmitted userId partyId p activeMembers now w =
     (if pt_isPrivate p \<and>
         (case findUnique inviteKey (partyId, userId) (partyInvites w) of
            None \<Rightarrow> True | Some invite \<Rightarrow> pi_status invite \<noteq> I_PENDING)
      then throwHttp Forbidden ''invite_required'' FORBIDDEN w
      else and_then
        (case find (\<lambda>m. pm_userId m = userId) activeMembers of
           Some existing \<Rightarrow>
             and_then (updateMember (partyId, userId) (\<lambda>m. m\<lparr>pm_isOnline := True, pm_leftAt := None\<rparr>) w)
               (\<lambda>_ w1. ret (existing\<lparr>pm_isOnline := True, pm_leftAt := None\<rparr>) w1)
         | None \<Rightarrow>
             and_then (createMember (newMember partyId userId R_MEMBER now) w)
               (\<lambda>_ w1. ret (newMember partyId userId R_MEMBER now) w1))
        (\<lambda>m w1.
           let w2 = (if pt_isPrivate p then acceptInvite partyId userId now w1 else w1);
               w3 = w2\<lparr>rd_members := (rd_members w2)(partyId := sadd userId (rd_members w2 partyId)),
                       rd_userParty := (rd_userParty w2)(userId \<mapsto> partyId)\<rparr>;
               w4 = emitParty (MemberJoined partyId (toMemberDto m w3)) w3
           in getPartyDetail partyId w4))"

definition joinParty ::
  "uid \<Rightarrow> uid \<Rightarrow> time \<Rightarrow> 'a party_db_scheme \<Rightarrow> (partyDetail, 'a party_db_scheme) outcome" where
  "joinParty userId partyId now w =
     (case findParty partyId w of
        None \<Rightarrow> throwHttp NotFound ''party_not_found'' NOT_FOUND w
      | Some p \<Rightarrow>
          if pt_deletedAt p \<noteq> None \<or> pt_status p = P_ENDED
          then throwHttp NotFound ''party_not_found'' NOT_FOUND w
          else let activeMembers = filter (\<lambda>m. pm_leftAt m = None) (membersOf partyId w) in
            if length activeMembers \<ge> pt_maxMembers p
            then throwHttp Conflict ''party_full'' CONFLICT w
            else (case findActivePartyForUser userId w of
              Some (other, r) \<Rightarrow>
                if other \<noteq> partyId
                then raise (Http Conflict ''user_already_in_party'' (Some CONFLICT)
                              [(''partyId'', DText other)]) w
                else joinAdmitted userId partyId p activeMembers now w
            | None \<Rightarrow> joinAdmitted userId partyId p activeMembers now w))"


section \<open>Ending\<close>

definition endRows :: "uid \<Rightarrow> time \<Rightarrow> 'a party_db_scheme \<Rightarrow> 'a party_db_scheme" where
  "endRows partyId now w =
     w\<lparr>parties := updateMany (\<lambda>p. pt_id p = partyId)
          (\<lambda>p. p\<lparr>pt_status := P_ENDED, pt_endedAt := Some now\<rparr>) (parties w),
       partyMembers := updateMany (\<lambda>m. pm_partyId m = partyId \<and> pm_leftAt m = None)
          (\<lambda>m. m\<lparr>pm_leftAt := Some now, pm_isOnline := False\<rparr>) (partyMembers w)\<rparr>"

definition flushRedis :: "uid \<Rightarrow> 'a party_db_scheme \<Rightarrow> 'a party_db_scheme" where
  "flushRedis partyId w =
     (let memberIds = rd_members w partyId
      in w\<lparr>rd_members := (rd_members w)(partyId := []),
           rd_zombie := (rd_zombie w)(partyId := []),
           rd_activeParties := srem partyId (rd_activeParties w),
           rd_userParty := (\<lambda>u. if u \<in> set memberIds then None else rd_userParty w u)\<rparr>)"

definition endParty :: "uid \<Rightarrow> endReason \<Rightarrow> time \<Rightarrow> 'a party_db_scheme \<Rightarrow> 'a party_db_scheme" where
  "endParty partyId reason now w =
     (case findParty partyId w of
        None \<Rightarrow> w
      | Some p \<Rightarrow>
          if pt_status p = P_ENDED then w
          else emitParty (Ended partyId reason)
                 (emitParty (StatusChanged partyId P_ENDED) (flushRedis partyId (endRows partyId now w))))"

section \<open>Leaving\<close>

text \<open>The member's own departure: the row, the Redis mirror, the event.\<close>

definition departMember ::
  "uid \<Rightarrow> uid \<Rightarrow> leaveReason \<Rightarrow> time \<Rightarrow> 'a party_db_scheme \<Rightarrow> (unit, 'a party_db_scheme) outcome" where
  "departMember userId partyId reason now w =
     and_then (updateMember (partyId, userId) (\<lambda>m. m\<lparr>pm_leftAt := Some now, pm_isOnline := False\<rparr>) w)
       (\<lambda>_ w1. ret () (emitParty (MemberLeft partyId userId reason)
          (w1\<lparr>rd_members := (rd_members w1)(partyId := srem userId (rd_members w1 partyId)),
              rd_userParty := (rd_userParty w1)(userId := None)\<rparr>)))"

text \<open>The new leader in both tables, in one transaction.\<close>

definition promoteLeader ::
  "uid \<Rightarrow> uid \<Rightarrow> 'a party_db_scheme \<Rightarrow> (unit, 'a party_db_scheme) outcome" where
  "promoteLeader partyId newLeaderId w =
     transaction (\<lambda>w. and_then
       (write_or RecordNotFound
          (updateRow pt_id partyId (\<lambda>p. p\<lparr>pt_leaderId := newLeaderId\<rparr>) (parties w))
          (\<lambda>t. w\<lparr>parties := t\<rparr>) w)
       (\<lambda>_ w1. updateMember (partyId, newLeaderId) (\<lambda>m. m\<lparr>pm_role := R_LEADER\<rparr>) w1)) w"

definition toLite :: "partyMember \<Rightarrow> partyMemberLite" where
  "toLite m = \<lparr>ml_userId = pm_userId m, ml_joinedAt = pm_joinedAt m, ml_leftAt = pm_leftAt m,
               ml_isOnline = pm_isOnline m\<rparr>"

text \<open>The hand-over after the leader \<open>userId\<close> of \<open>p\<close> left \<open>remaining\<close> active members behind.\<close>

definition handOver ::
  "party \<Rightarrow> partyMember list \<Rightarrow> time \<Rightarrow> 'a party_db_scheme \<Rightarrow> (bool \<times> uid option, 'a party_db_scheme) outcome"
where
  "handOver p remaining now w =
     (if remaining = [] then ret (True, None) (endParty (pt_id p) LEADER_LEFT_ALONE now w)
      else
        let candidates = map toLite remaining;
            (election, s) = elect \<lparr>ei_partyId = pt_id p, ei_coLeaderIds = pt_coLeaderIds p,
               ei_onlineMembers = filter ml_isOnline candidates\<rparr> now (rd_keys w);
            w1 = w\<lparr>rd_keys := s\<rparr>
        in (case (if er_locked election then er_newLeaderId election else None) of
             Some newLeaderId \<Rightarrow>
               and_then (promoteLeader (pt_id p) newLeaderId w1)
                 (\<lambda>_ w2. let w3 = emitParty (LeaderChanged (pt_id p) newLeaderId) w2
                         in ret (False, Some newLeaderId)
                              (w3\<lparr>rd_keys := snd (release (pt_id p) newLeaderId now (rd_keys w3))\<rparr>))
           | None \<Rightarrow>
               let fallback = (case er_newLeaderId election of
                     Some l \<Rightarrow> l | None \<Rightarrow> ml_userId (hd (sort_key ml_joinedAt candidates)))
               in ret (False, Some fallback) w1))"

definition leaveParty ::
  "uid \<Rightarrow> uid \<Rightarrow> leaveReason \<Rightarrow> time \<Rightarrow> 'a party_db_scheme \<Rightarrow> (bool \<times> uid option, 'a party_db_scheme) outcome"
where
  "leaveParty userId partyId reason now w =
     (case findParty partyId w of
        None \<Rightarrow> throwHttp NotFound ''party_not_found'' NOT_FOUND w
      | Some p \<Rightarrow>
          if pt_deletedAt p \<noteq> None then throwHttp NotFound ''party_not_found'' NOT_FOUND w
          else if pt_status p = P_ENDED then ret (True, None) w
          else let members = membersOf partyId w in
            (case find (\<lambda>m. pm_userId m = userId) members of
              None \<Rightarrow> throwHttp BadRequest ''not_member'' VALIDATION_FAILED w
            | Some memberRow \<Rightarrow>
                if pm_leftAt memberRow \<noteq> None
                then throwHttp BadRequest ''not_member'' VALIDATION_FAILED w
                else and_then (departMember userId partyId reason now w)
                  (\<lambda>_ w1.
                     if pt_leaderId p \<noteq> userId then ret (False, None) w1
                     else handOver p (filter (\<lambda>m. pm_userId m \<noteq> userId \<and> pm_leftAt m = None) members)
                            now w1)))"

section \<open>Signals and invitations\<close>

definition recordSignal ::
  "uid \<Rightarrow> uid \<Rightarrow> string \<Rightarrow> string \<Rightarrow> time \<Rightarrow> 'a party_db_scheme \<Rightarrow> (bool \<times> nat, 'a party_db_scheme) outcome"
where
  "recordSignal partyId senderId ty senderName now w0 =
     (let (count, w) = incrRate senderId ''party_signal'' 60 now w0 in
      if count > signalRatePerMinute then ret (False, count) w
      else if senderId \<notin> set (rd_members w partyId) then throwHttp Forbidden ''not_member'' FORBIDDEN w
      else ret (True, count) (emitParty (Signal partyId ty senderId senderName now) w))"

definition createInvite ::
  "uid \<Rightarrow> uid \<Rightarrow> uid \<Rightarrow> time \<Rightarrow> 'a party_db_scheme \<Rightarrow> (unit, 'a party_db_scheme) outcome" where
  "createInvite partyId inviterId inviteeId now w =
     (if \<not> userExists inviteeId w then raise ForeignKeyViolation w
      else write_or UniqueViolation
        (Option.bind
           (createRow inviteKey
              \<lparr>pi_id = newUuid w, pi_partyId = partyId, pi_inviterId = inviterId,
               pi_inviteeId = inviteeId, pi_status = I_PENDING, pi_createdAt = now,
               pi_respondedAt = None\<rparr> (partyInvites w))
           (\<lambda>t. if newUuid w \<in> pi_id ` set (partyInvites w) then None else Some t))
        (\<lambda>t. (takeUuid w)\<lparr>partyInvites := t\<rparr>) w)"

definition inviteOne ::
  "party \<Rightarrow> uid \<Rightarrow> time \<Rightarrow> uid \<Rightarrow> nat \<times> nat \<Rightarrow> 'a party_db_scheme \<Rightarrow> (nat \<times> nat, 'a party_db_scheme) outcome"
where
  "inviteOne p inviterId now inviteeId acc w =
     (let (created, skipped) = acc in
      if inviteeId = inviterId then ret (created, skipped + 1) w
      else if findUnique inviteKey (pt_id p, inviteeId) (partyInvites w) \<noteq> None
      then ret (created, skipped + 1) w
      else and_then (createInvite (pt_id p) inviterId inviteeId now w)
        (\<lambda>_ w1. and_then
           (notify inviteeId N_PARTY_INVITE ''party_invite_title'' ''party_invite_body''
              [(''partyId'', DText (pt_id p)), (''partyName'', DText (pt_name p)),
               (''inviterId'', DText inviterId)] now w1)
           (\<lambda>_ w2. ret (created + 1, skipped) w2)))"

definition invite ::
  "uid \<Rightarrow> uid \<Rightarrow> uid list \<Rightarrow> time \<Rightarrow> 'a party_db_scheme \<Rightarrow> (nat \<times> nat, 'a party_db_scheme) outcome" where
  "invite inviterId partyId inviteeIds now w =
     (case findParty partyId w of
        None \<Rightarrow> throwHttp NotFound ''party_not_found'' NOT_FOUND w
      | Some p \<Rightarrow>
          if pt_deletedAt p \<noteq> None then throwHttp NotFound ''party_not_found'' NOT_FOUND w
          else if pt_status p = P_ENDED then throwHttp BadRequest ''party_ended'' VALIDATION_FAILED w
          else if \<not> (pt_leaderId p = inviterId \<or> inviterId \<in> set (pt_coLeaderIds p))
          then throwHttp Forbidden ''not_leader'' FORBIDDEN w
          else for_each (inviteOne p inviterId now) inviteeIds (0, 0) w)"

definition respondInvite ::
  "uid \<Rightarrow> uid \<Rightarrow> bool \<Rightarrow> time \<Rightarrow> 'a party_db_scheme \<Rightarrow> (bool \<times> uid option, 'a party_db_scheme) outcome" where
  "respondInvite userId inviteId accept now w =
     (case findUnique pi_id inviteId (partyInvites w) of
        None \<Rightarrow> throwHttp NotFound ''invite_not_found'' NOT_FOUND w
      | Some i \<Rightarrow>
          if pi_inviteeId i \<noteq> userId then throwHttp NotFound ''invite_not_found'' NOT_FOUND w
          else if pi_status i \<noteq> I_PENDING then throwHttp BadRequest ''invite_resolved'' VALIDATION_FAILED w
          else if \<not> accept
          then and_then
            (write_or RecordNotFound
               (updateRow pi_id inviteId
                  (\<lambda>i. i\<lparr>pi_status := I_DECLINED, pi_respondedAt := Some now\<rparr>) (partyInvites w))
               (\<lambda>t. w\<lparr>partyInvites := t\<rparr>) w)
            (\<lambda>_ w1. ret (False, None) w1)
          else and_then (joinParty userId (pi_partyId i) now w)
            (\<lambda>_ w1. ret (True, Some (pi_partyId i)) w1))"

section \<open>Members who go offline\<close>

definition markOffline :: "uid \<Rightarrow> uid \<Rightarrow> time \<Rightarrow> 'a party_db_scheme \<Rightarrow> 'a party_db_scheme" where
  "markOffline userId partyId now w =
     w\<lparr>rd_zombie := (rd_zombie w)(partyId := zadd now userId (rd_zombie w partyId)),
       partyMembers := updateMany
         (\<lambda>m. pm_partyId m = partyId \<and> pm_userId m = userId \<and> pm_leftAt m = None)
         (\<lambda>m. m\<lparr>pm_isOnline := False, pm_serverHostname := None\<rparr>) (partyMembers w)\<rparr>"

definition clearOfflineMark :: "uid \<Rightarrow> uid \<Rightarrow> 'a party_db_scheme \<Rightarrow> 'a party_db_scheme" where
  "clearOfflineMark userId partyId w =
     w\<lparr>rd_zombie := (rd_zombie w)(partyId := zrem userId (rd_zombie w partyId)),
       partyMembers := updateMany
         (\<lambda>m. pm_partyId m = partyId \<and> pm_userId m = userId \<and> pm_leftAt m = None)
         (\<lambda>m. m\<lparr>pm_isOnline := True\<rparr>) (partyMembers w)\<rparr>"

text \<open>One stale member: a failure of \<open>leaveParty\<close> is logged and the loop goes on.\<close>

definition sweepOne ::
  "uid \<Rightarrow> time \<Rightarrow> uid \<Rightarrow> nat \<times> 'a party_db_scheme \<Rightarrow> nat \<times> 'a party_db_scheme" where
  "sweepOne partyId now userId acc =
     (case leaveParty userId partyId DISCONNECT_TIMEOUT now (snd acc) of
        (Inl err, w) \<Rightarrow> (fst acc, w)
      | (Inr r, w) \<Rightarrow>
          (fst acc + 1, w\<lparr>rd_zombie := (rd_zombie w)(partyId := zrem userId (rd_zombie w partyId))\<rparr>))"

definition sweepParty ::
  "time \<Rightarrow> uid \<Rightarrow> nat \<times> 'a party_db_scheme \<Rightarrow> nat \<times> 'a party_db_scheme" where
  "sweepParty now partyId acc =
     fold (sweepOne partyId now)
       (zrangebyscore 0 (now - zombieOfflineSeconds * 1000) (rd_zombie (snd acc) partyId)) acc"

definition sweepZombieMembers :: "time \<Rightarrow> 'a party_db_scheme \<Rightarrow> nat \<times> 'a party_db_scheme" where
  "sweepZombieMembers now w = fold (sweepParty now) (rd_activeParties w) (0, w)"

text \<open>The cron job only logs the number.\<close>

definition sweepZombies :: "time \<Rightarrow> 'a party_db_scheme \<Rightarrow> 'a party_db_scheme" where
  "sweepZombies now w = snd (sweepZombieMembers now w)"


section \<open>The mirror\<close>

text \<open>
  What ties the tables and Redis together, as a relation between the five parts: the member
  rows that are active are those of open parties, a user is active in one party at most, and
  the Redis sets and keys name exactly the active rows and the open parties; no party holds
  more active members than it allows.
\<close>

definition active :: "partyMember list \<Rightarrow> uid \<Rightarrow> uid \<Rightarrow> bool" where
  "active ms p u \<longleftrightarrow> (\<exists>m \<in> set ms. memberKey m = (p, u) \<and> pm_leftAt m = None)"

definition openIn :: "party list \<Rightarrow> uid \<Rightarrow> bool" where
  "openIn ps p \<longleftrightarrow> (\<exists>r \<in> set ps. pt_id r = p \<and> pt_status r \<noteq> P_ENDED)"

definition activeCount :: "partyMember list \<Rightarrow> uid \<Rightarrow> nat" where
  "activeCount ms p = countRows (\<lambda>m. pm_partyId m = p \<and> pm_leftAt m = None) ms"

definition mirrored ::
  "party list \<Rightarrow> partyMember list \<Rightarrow> (uid \<Rightarrow> uid list) \<Rightarrow> uid list \<Rightarrow> (uid \<Rightarrow> uid option) \<Rightarrow> bool"
where
  "mirrored ps ms rm ra ru \<longleftrightarrow>
     unique pt_id ps \<and> unique memberKey ms \<and> pm_partyId ` set ms \<subseteq> pt_id ` set ps \<and>
     (\<forall>r \<in> set ps. pt_deletedAt r = None \<and> activeCount ms (pt_id r) \<le> pt_maxMembers r) \<and>
     (\<forall>p u. active ms p u \<longrightarrow> openIn ps p) \<and>
     (\<forall>p q u. active ms p u \<and> active ms q u \<longrightarrow> p = q) \<and>
     (\<forall>p u. u \<in> set (rm p) \<longleftrightarrow> active ms p u) \<and>
     (\<forall>p u. ru u = Some p \<longleftrightarrow> active ms p u) \<and>
     (\<forall>p. p \<in> set ra \<longleftrightarrow> openIn ps p) \<and> distinct ra"

definition partyInv :: "'a party_db_scheme \<Rightarrow> bool" where
  "partyInv w \<longleftrightarrow> mirrored (parties w) (partyMembers w) (rd_members w) (rd_activeParties w) (rd_userParty w)"

definition partyView ::
  "'a party_db_scheme \<Rightarrow> party list \<times> partyMember list \<times> (uid \<Rightarrow> uid list) \<times> uid list \<times> (uid \<Rightarrow> uid option)"
where
  "partyView w = (parties w, partyMembers w, rd_members w, rd_activeParties w, rd_userParty w)"

lemma partyInv_cong: "partyView w = partyView v \<Longrightarrow> partyInv w = partyInv v"
  by (simp add: partyInv_def partyView_def)

interpretation party_notifier: notifier notify partyView
proof
  fix u ty title body data now and w :: "'a party_db_scheme"
  obtain t n where "snd (notify u ty title body data now w) = w\<lparr>notifications := t, uuidNext := n\<rparr>"
    using notify_writes by blast
  then show "partyView (snd (notify u ty title body data now w)) = partyView w"
    by (simp add: partyView_def)
qed

lemma emitParty_view [simp]: "partyView (emitParty e w) = partyView w"
  by (simp add: emitParty_def partyView_def)

lemma emitParty_inv [simp]: "partyInv (emitParty e w) = partyInv w"
  by (rule partyInv_cong) simp

lemma emitParty_fields [simp]:
  "parties (emitParty e w) = parties w" "partyMembers (emitParty e w) = partyMembers w"
  "rd_members (emitParty e w) = rd_members w" "rd_activeParties (emitParty e w) = rd_activeParties w"
  "rd_userParty (emitParty e w) = rd_userParty w" "partyInvites (emitParty e w) = partyInvites w"
  "rd_keys (emitParty e w) = rd_keys w" "rd_zombie (emitParty e w) = rd_zombie w"
  "users (emitParty e w) = users w"
  by (simp_all add: emitParty_def)

subsection \<open>Active rows after a write\<close>

lemma active_append [simp]:
  "active (ms @ [m]) p u \<longleftrightarrow> active ms p u \<or> memberKey m = (p, u) \<and> pm_leftAt m = None"
  by (auto simp: active_def)

lemma active_same:
  assumes "\<And>m. memberKey (f m) = memberKey m" and "\<And>m. P m \<Longrightarrow> m \<in> set ms \<Longrightarrow> pm_leftAt (f m) = pm_leftAt m"
  shows "active (updateMany P f ms) p u = active ms p u"
proof -
  have "(memberKey (if P m then f m else m) = (p, u) \<and> pm_leftAt (if P m then f m else m) = None) =
      (memberKey m = (p, u) \<and> pm_leftAt m = None)" if "m \<in> set ms" for m
    using assms(1) [of m] assms(2) [of m] that by auto
  then show ?thesis unfolding active_def set_updateMany by (simp only: bex_simps) blast
qed

lemma active_left:
  assumes "\<And>m. memberKey (f m) = memberKey m" and "\<And>m. pm_leftAt (f m) \<noteq> None"
  shows "active (updateMany P f ms) p u \<longleftrightarrow>
    (\<exists>m \<in> set ms. memberKey m = (p, u) \<and> pm_leftAt m = None \<and> \<not> P m)"
proof -
  have "(memberKey (if P m then f m else m) = (p, u) \<and> pm_leftAt (if P m then f m else m) = None) =
      (memberKey m = (p, u) \<and> pm_leftAt m = None \<and> \<not> P m)" for m
    using assms(1) [of m] assms(2) [of m] by auto
  then show ?thesis unfolding active_def set_updateMany by (simp only: bex_simps)
qed

lemma activeCount_le:
  assumes "\<And>m. memberKey (f m) = memberKey m" and "\<And>m. P m \<Longrightarrow> pm_leftAt (f m) = None \<Longrightarrow> pm_leftAt m = None"
  shows "activeCount (updateMany P f ms) p \<le> activeCount ms p"
proof (induction ms)
  case Nil
  then show ?case by (simp add: activeCount_def updateMany_def)
next
  case (Cons m ms)
  then show ?case using assms(1) [of m] assms(2) [of m]
    by (auto simp: activeCount_def updateMany_def countRows_Cons)
qed

lemma activeCount_append [simp]:
  "activeCount (ms @ [m]) p = activeCount ms p + (if pm_partyId m = p \<and> pm_leftAt m = None then 1 else 0)"
  by (simp add: activeCount_def)

lemma activeCount_membersOf: "length (filter (\<lambda>m. pm_leftAt m = None) (membersOf p w)) = activeCount (partyMembers w) p"
  by (simp add: membersOf_def activeCount_def countRows_def conj_commute)

lemma mirroredI:
  assumes "unique pt_id ps" "unique memberKey ms" "pm_partyId ` set ms \<subseteq> pt_id ` set ps"
    and "\<And>r. r \<in> set ps \<Longrightarrow> pt_deletedAt r = None"
    and "\<And>r. r \<in> set ps \<Longrightarrow> activeCount ms (pt_id r) \<le> pt_maxMembers r"
    and "\<And>p u. active ms p u \<Longrightarrow> openIn ps p"
    and "\<And>p q u. active ms p u \<Longrightarrow> active ms q u \<Longrightarrow> p = q"
    and "\<And>p u. u \<in> set (rm p) \<longleftrightarrow> active ms p u"
    and "\<And>p u. ru u = Some p \<longleftrightarrow> active ms p u"
    and "\<And>p. p \<in> set ra \<longleftrightarrow> openIn ps p" and "distinct ra"
  shows "mirrored ps ms rm ra ru"
  unfolding mirrored_def
  by (intro conjI ballI allI impI; (elim conjE)?; rule assms; assumption?)

lemma mirroredD:
  assumes "mirrored ps ms rm ra ru"
  shows "unique pt_id ps" "unique memberKey ms" "pm_partyId ` set ms \<subseteq> pt_id ` set ps"
    and "r \<in> set ps \<Longrightarrow> pt_deletedAt r = None"
    and "r \<in> set ps \<Longrightarrow> activeCount ms (pt_id r) \<le> pt_maxMembers r"
    and "u \<in> set (rm p) \<longleftrightarrow> active ms p u"
    and "ru u = Some p \<longleftrightarrow> active ms p u"
    and "p \<in> set ra \<longleftrightarrow> openIn ps p" and "distinct ra"
  using assms by (simp_all add: mirrored_def)

lemma mirrored_one_party:
  assumes "mirrored ps ms rm ra ru" and "active ms p u" and "active ms q u" shows "p = q"
proof -
  from assms(1) have "\<forall>p q u. active ms p u \<and> active ms q u \<longrightarrow> p = q" by (simp add: mirrored_def)
  then show ?thesis using assms(2,3) by blast
qed

lemma mirrored_open:
  assumes "mirrored ps ms rm ra ru" and "active ms p u" shows "openIn ps p"
proof -
  from assms(1) have "\<forall>p u. active ms p u \<longrightarrow> openIn ps p" by (simp add: mirrored_def)
  then show ?thesis using assms(2) by blast
qed

lemma openParty_iff:
  assumes "partyInv w" shows "openParty p w = openIn (parties w) p"
proof -
  have u: "unique pt_id (parties w)" and d: "\<forall>r \<in> set (parties w). pt_deletedAt r = None"
    using assms by (auto simp: partyInv_def mirrored_def)
  show ?thesis
  proof (cases "findParty p w")
    case None
    then have "p \<notin> pt_id ` set (parties w)" by (simp add: findParty_def findUnique_None)
    then have "\<not> openIn (parties w) p" by (auto simp: openIn_def)
    then show ?thesis using None by (simp add: openParty_def)
  next
    case (Some r)
    then have r: "r \<in> set (parties w)" "pt_id r = p" by (auto simp: findParty_def dest: findUnique_Some)
    then have "s = r" if "s \<in> set (parties w)" "pt_id s = p" for s using u that unique_row by metis
    then have "openIn (parties w) p \<longleftrightarrow> pt_status r \<noteq> P_ENDED" using r unfolding openIn_def by metis
    then show ?thesis using Some r d by (simp add: openParty_def)
  qed
qed

lemma findActive_iff:
  assumes "partyInv w"
  shows "(findActivePartyForUser u w = None) = (\<forall>p. \<not> active (partyMembers w) p u)"
    and "findActivePartyForUser u w = Some (p, r) \<Longrightarrow> active (partyMembers w) p u"
proof -
  have "openParty (pm_partyId m) w" if "m \<in> set (partyMembers w)" "pm_leftAt m = None" for m
  proof -
    have "active (partyMembers w) (pm_partyId m) (pm_userId m)" using that by (auto simp: active_def)
    then show ?thesis using mirrored_open assms unfolding openParty_iff [OF assms] partyInv_def by blast
  qed
  then show "(findActivePartyForUser u w = None) = (\<forall>p. \<not> active (partyMembers w) p u)"
    by (auto simp: findActivePartyForUser_def find_None_iff active_def)
  show "findActivePartyForUser u w = Some (p, r) \<Longrightarrow> active (partyMembers w) p u"
    by (auto simp: findActivePartyForUser_def active_def dest: find_row)
qed


subsection \<open>The five writes of the mirror\<close>

lemma updated_row: "r \<in> set (updateMany P g t) \<Longrightarrow> \<exists>s \<in> set t. r = (if P s then g s else s)"
  by (auto simp: set_updateMany)

lemma member_keys:
  assumes "\<And>m. memberKey (f m) = memberKey m"
  shows "map memberKey (updateMany P f ms) = map memberKey ms"
    and "pm_partyId ` set (updateMany P f ms) = pm_partyId ` set ms"
proof -
  show keys: "map memberKey (updateMany P f ms) = map memberKey ms" using assms by (rule map_updateMany)
  have "pm_partyId ` set (updateMany P f ms) = fst ` set (map memberKey (updateMany P f ms))" by force
  also have "\<dots> = pm_partyId ` set ms" unfolding keys by force
  finally show "pm_partyId ` set (updateMany P f ms) = pm_partyId ` set ms" .
qed

lemma party_rows:
  assumes "\<And>r. pt_id (g r) = pt_id r" "\<And>r. pt_deletedAt (g r) = pt_deletedAt r"
    "\<And>r. pt_maxMembers (g r) = pt_maxMembers r" and "r \<in> set (updateMany P g ps)"
  obtains s where "s \<in> set ps" "pt_id r = pt_id s" "pt_deletedAt r = pt_deletedAt s"
    "pt_maxMembers r = pt_maxMembers s"
  using updated_row [OF assms(4)] assms(1-3) by metis

lemma mirrored_depart:
  assumes inv: "mirrored ps ms rm ra ru" and act: "active ms p u"
    and f: "\<And>m. memberKey (f m) = memberKey m" "\<And>m. pm_leftAt (f m) \<noteq> None"
  shows "mirrored ps (updateMany (\<lambda>m. memberKey m = (p, u)) f ms) (rm(p := srem u (rm p))) ra (ru(u := None))"
proof -
  define ms' where "ms' = updateMany (\<lambda>m. memberKey m = (p, u)) f ms"
  have act': "active ms' q v \<longleftrightarrow> active ms q v \<and> (q, v) \<noteq> (p, u)" for q v
    unfolding ms'_def active_left [of f, OF f] by (auto simp: active_def)
  note d = mirroredD [OF inv]
  have only: "active ms q u \<longleftrightarrow> q = p" for q using mirrored_one_party [OF inv] act by blast
  have keys: "map memberKey ms' = map memberKey ms" "pm_partyId ` set ms' = pm_partyId ` set ms"
    unfolding ms'_def by (rule member_keys [of f, OF f(1)])+
  have cnt: "activeCount ms' q \<le> activeCount ms q" for q
    unfolding ms'_def by (intro activeCount_le) (simp_all add: f)
  show ?thesis unfolding ms'_def [symmetric]
  proof (rule mirroredI)
    fix r assume "r \<in> set ps"
    then show "activeCount ms' (pt_id r) \<le> pt_maxMembers r"
      by (rule order_trans [OF cnt d(5)])
  qed (use d(1-4) mirrored_open [OF inv] mirrored_one_party [OF inv] in
      \<open>auto simp: keys act' only d(6-9)\<close>)
qed

lemma mirrored_end:
  assumes inv: "mirrored ps ms rm ra ru"
    and f: "\<And>m. memberKey (f m) = memberKey m" "\<And>m. pm_leftAt (f m) \<noteq> None"
    and g: "\<And>r. pt_id (g r) = pt_id r" "\<And>r. pt_deletedAt (g r) = pt_deletedAt r"
      "\<And>r. pt_maxMembers (g r) = pt_maxMembers r" "\<And>r. pt_status (g r) = P_ENDED"
  shows "mirrored (updateMany (\<lambda>r. pt_id r = p) g ps)
    (updateMany (\<lambda>m. pm_partyId m = p \<and> pm_leftAt m = None) f ms) (rm(p := []))
    (srem p ra) (\<lambda>u. if u \<in> set (rm p) then None else ru u)"
proof -
  define ms' where "ms' = updateMany (\<lambda>m. pm_partyId m = p \<and> pm_leftAt m = None) f ms"
  define ps' where "ps' = updateMany (\<lambda>r. pt_id r = p) g ps"
  have act': "active ms' q v \<longleftrightarrow> active ms q v \<and> q \<noteq> p" for q v
    unfolding ms'_def active_left [of f, OF f] by (auto simp: active_def)
  have open': "openIn ps' q \<longleftrightarrow> openIn ps q \<and> q \<noteq> p" for q
    using g(1,4) by (auto simp: openIn_def ps'_def set_updateMany)
  have ids: "map pt_id ps' = map pt_id ps" unfolding ps'_def using g(1) by (rule map_updateMany)
  then have idset: "pt_id ` set ps' = pt_id ` set ps" by (metis list.set_map)
  note d = mirroredD [OF inv]
  have keys: "map memberKey ms' = map memberKey ms" "pm_partyId ` set ms' = pm_partyId ` set ms"
    unfolding ms'_def by (rule member_keys [of f, OF f(1)])+
  have cnt: "activeCount ms' q \<le> activeCount ms q" for q
    unfolding ms'_def by (intro activeCount_le) (simp_all add: f)
  show ?thesis unfolding ms'_def [symmetric] ps'_def [symmetric]
  proof (rule mirroredI)
    fix r assume "r \<in> set ps'"
    then obtain s where s: "s \<in> set ps" "pt_id r = pt_id s" "pt_deletedAt r = pt_deletedAt s"
      "pt_maxMembers r = pt_maxMembers s"
      unfolding ps'_def by (rule party_rows [of g, OF g(1-3)])
    then show "pt_deletedAt r = None" using d(4) by simp
    show "activeCount ms' (pt_id r) \<le> pt_maxMembers r"
      using s d(5) [OF s(1)] cnt [of "pt_id s"] by simp
  qed (use d(1-3) mirrored_open [OF inv] mirrored_one_party [OF inv] in
      \<open>auto simp: keys act' open' ids idset d(6-9)\<close>)
qed

lemma mirrored_add:
  assumes inv: "mirrored ps ms rm ra ru" and new: "pm_partyId m = p" "pm_userId m = u" "pm_leftAt m = None"
    and key: "(p, u) \<notin> memberKey ` set ms" and out: "\<And>q. \<not> active ms q u" and opn: "openIn ps p"
    and room: "\<And>r. r \<in> set ps \<Longrightarrow> pt_id r = p \<Longrightarrow> activeCount ms p < pt_maxMembers r"
  shows "mirrored ps (ms @ [m]) (rm(p := sadd u (rm p))) ra (ru(u \<mapsto> p))"
proof -
  note d = mirroredD [OF inv]
  have pid: "p \<in> pt_id ` set ps" using opn by (auto simp: openIn_def)
  show ?thesis
  proof (rule mirroredI)
    fix r assume "r \<in> set ps"
    then show "activeCount (ms @ [m]) (pt_id r) \<le> pt_maxMembers r"
      using d(5) room new by fastforce
  qed (use d(1-4) mirrored_open [OF inv] mirrored_one_party [OF inv] new key out opn pid in
      \<open>auto simp: d(6-9)\<close>)
qed

lemma mirrored_refresh:
  assumes inv: "mirrored ps ms rm ra ru"
    and f: "\<And>m. memberKey (f m) = memberKey m" "\<And>m. P m \<Longrightarrow> m \<in> set ms \<Longrightarrow> pm_leftAt (f m) = pm_leftAt m"
  shows "mirrored ps (updateMany P f ms) rm ra ru"
proof -
  have act': "active (updateMany P f ms) = active ms" using active_same [of f, OF f] by blast
  have "countRows (\<lambda>m. pm_partyId m = q \<and> pm_leftAt m = None) (updateMany P f ms) = activeCount ms q" for q
    unfolding activeCount_def using f by (intro countRows_updateMany_same) auto
  then have cnt: "activeCount (updateMany P f ms) q = activeCount ms q" for q by (simp add: activeCount_def)
  show ?thesis using inv unfolding mirrored_def member_keys [of f, OF f(1)] act' cnt .
qed

lemma mirrored_again:
  assumes inv: "mirrored ps ms rm ra ru" and act: "active ms p u"
  shows "mirrored ps ms (rm(p := sadd u (rm p))) ra (ru(u \<mapsto> p))"
proof -
  note d = mirroredD [OF inv]
  have "ru u = Some p" "u \<in> set (rm p)" using act d(6,7) by simp_all
  then have "ru(u \<mapsto> p) = ru" "rm(p := sadd u (rm p)) = rm" by (simp_all add: fun_upd_idem sadd_def)
  then show ?thesis using inv by simp
qed

lemma mirrored_parties:
  assumes inv: "mirrored ps ms rm ra ru"
    and g: "\<And>r. pt_id (g r) = pt_id r" "\<And>r. pt_deletedAt (g r) = pt_deletedAt r"
      "\<And>r. pt_maxMembers (g r) = pt_maxMembers r" "\<And>r. pt_status (g r) = pt_status r"
  shows "mirrored (updateMany P g ps) ms rm ra ru"
proof -
  have ids: "map pt_id (updateMany P g ps) = map pt_id ps" using g(1) by (rule map_updateMany)
  then have idset: "pt_id ` set (updateMany P g ps) = pt_id ` set ps" by (metis list.set_map)
  have open': "openIn (updateMany P g ps) q = openIn ps q" for q
  proof -
    have "(pt_id (if P r then g r else r) = q \<and> pt_status (if P r then g r else r) \<noteq> P_ENDED) =
        (pt_id r = q \<and> pt_status r \<noteq> P_ENDED)" for r using g by auto
    then show ?thesis unfolding openIn_def set_updateMany by (simp only: bex_simps)
  qed
  note d = mirroredD [OF inv]
  show ?thesis
  proof (rule mirroredI)
    fix r assume "r \<in> set (updateMany P g ps)"
    then obtain s where s: "s \<in> set ps" "pt_id r = pt_id s" "pt_deletedAt r = pt_deletedAt s"
      "pt_maxMembers r = pt_maxMembers s"
      by (rule party_rows [of g, OF g(1-3)])
    then show "pt_deletedAt r = None" using d(4) by simp
    show "activeCount ms (pt_id r) \<le> pt_maxMembers r" using s d(5) [OF s(1)] by simp
  qed (use d(1-3) mirrored_open [OF inv] mirrored_one_party [OF inv] in
      \<open>auto simp: open' ids idset d(6-9)\<close>)
qed

lemma mirrored_create:
  assumes inv: "mirrored ps ms rm ra ru" and new: "pt_id r = p" "pt_status r \<noteq> P_ENDED"
      "pt_deletedAt r = None" "p \<notin> pt_id ` set ps" "0 < pt_maxMembers r"
    and m: "pm_partyId m = p" "pm_userId m = u" "pm_leftAt m = None" and out: "\<And>q. \<not> active ms q u"
  shows "mirrored (ps @ [r]) (ms @ [m]) (rm(p := sadd u (rm p))) (sadd p ra) (ru(u \<mapsto> p))"
proof -
  note d = mirroredD [OF inv]
  have noone: "\<And>n. n \<in> set ms \<Longrightarrow> pm_partyId n \<noteq> p" using d(3) new(4) by auto
  then have cnt: "activeCount ms p = 0" by (simp add: activeCount_def countRows_0)
  have open': "openIn (ps @ [r]) q \<longleftrightarrow> openIn ps q \<or> q = p" for q
    using new(1,2) by (auto simp: openIn_def)
  have base: "mirrored (ps @ [r]) ms rm (sadd p ra) ru"
    by (rule mirroredI)
       (use d(1-5) mirrored_open [OF inv] mirrored_one_party [OF inv] new cnt in \<open>auto simp: open' d(6-9)\<close>)
  have fresh: "(p, u) \<notin> memberKey ` set ms" using noone by auto
  show ?thesis
    by (rule mirrored_add [OF base m fresh out])
       (use new cnt open' in auto)
qed


section \<open>Every operation keeps the mirror\<close>

lemma partyInv_writes:
  "partyInv (w\<lparr>parties := ps, partyMembers := ms, rd_members := rm, rd_activeParties := ra, rd_userParty := ru\<rparr>)
     = mirrored ps ms rm ra ru"
  by (simp add: partyInv_def)

lemma updateMember_cases:
  "updateMember k f w =
     (if k \<in> memberKey ` set (partyMembers w)
      then (Inr (), w\<lparr>partyMembers := updateMany (\<lambda>m. memberKey m = k) f (partyMembers w)\<rparr>)
      else (Inl RecordNotFound, w))"
  by (simp add: updateMember_def write_or_def updateRow_def raise_def ret_def)

lemma createMember_cases:
  "createMember m w = (Inr (), w') \<Longrightarrow>
     memberKey m \<notin> memberKey ` set (partyMembers w) \<and> findParty (pm_partyId m) w \<noteq> None \<and>
     userExists (pm_userId m) w \<and> w' = w\<lparr>partyMembers := partyMembers w @ [m]\<rparr>"
  by (auto simp: createMember_def write_or_def createRow_def raise_def ret_def split: if_splits)

lemma createMember_Inl: "createMember m w = (Inl e, w') \<Longrightarrow> w' = w"
  by (auto simp: createMember_def write_or_def createRow_def raise_def ret_def split: if_splits)

lemma departMember_writes:
  assumes "active (partyMembers w) p u"
  shows "departMember u p reason now w = (Inr (), emitParty (MemberLeft p u reason)
     (w\<lparr>partyMembers := updateMany (\<lambda>m. memberKey m = (p, u))
          (\<lambda>m. m\<lparr>pm_leftAt := Some now, pm_isOnline := False\<rparr>) (partyMembers w),
        rd_members := (rd_members w)(p := srem u (rd_members w p)),
        rd_userParty := (rd_userParty w)(u := None)\<rparr>))"
proof -
  have "(p, u) \<in> memberKey ` set (partyMembers w)" using assms by (force simp: active_def)
  then show ?thesis by (simp add: departMember_def updateMember_cases ret_def)
qed

lemma departMember_inv:
  assumes "partyInv w" and "active (partyMembers w) p u"
  shows "partyInv (snd (departMember u p reason now w))"
  using assms mirrored_depart [of "parties w" "partyMembers w" "rd_members w" "rd_activeParties w"
      "rd_userParty w" p u "\<lambda>m. m\<lparr>pm_leftAt := Some now, pm_isOnline := False\<rparr>"]
  by (simp add: departMember_writes partyInv_def)

lemma endParty_inv:
  assumes "partyInv w" shows "partyInv (endParty p reason now w)"
  using assms mirrored_end [of "parties w" "partyMembers w" "rd_members w" "rd_activeParties w"
      "rd_userParty w" "\<lambda>m. m\<lparr>pm_leftAt := Some now, pm_isOnline := False\<rparr>"
      "\<lambda>r. r\<lparr>pt_status := P_ENDED, pt_endedAt := Some now\<rparr>" p]
  by (simp add: endParty_def endRows_def flushRedis_def Let_def partyInv_def split: option.split cong: if_cong)

lemma promoteLeader_inv:
  assumes "partyInv w" shows "partyInv (snd (promoteLeader p u w))"
  unfolding promoteLeader_def
proof (rule inv_transaction [where P = partyInv, OF assms], rule inv_and_then [where P = partyInv])
  show "partyInv (snd (write_or RecordNotFound
      (updateRow pt_id p (\<lambda>p. p\<lparr>pt_leaderId := u\<rparr>) (parties w)) (\<lambda>t. w\<lparr>parties := t\<rparr>) w))"
    using assms mirrored_parties [of "parties w" "partyMembers w" "rd_members w" "rd_activeParties w"
        "rd_userParty w" "\<lambda>p. p\<lparr>pt_leaderId := u\<rparr>" "\<lambda>r. pt_id r = p"]
    by (simp add: write_or_def updateRow_def partyInv_def)
  fix v :: "'a party_db_scheme"
  assume "partyInv v"
  then show "partyInv (snd (updateMember (p, u) (\<lambda>m. m\<lparr>pm_role := R_LEADER\<rparr>) v))"
    using mirrored_refresh [of "parties v" "partyMembers v" "rd_members v" "rd_activeParties v"
        "rd_userParty v" "\<lambda>m. m\<lparr>pm_role := R_LEADER\<rparr>" "\<lambda>m. memberKey m = (p, u)"]
    by (simp add: updateMember_cases partyInv_def)
qed

lemma rd_keys_inv [simp]: "partyInv (w\<lparr>rd_keys := s\<rparr>) = partyInv w"
  by (rule partyInv_cong) (simp add: partyView_def)

lemma handOver_inv:
  assumes "partyInv w" shows "partyInv (snd (handOver p ms now w))"
proof (cases "ms = []")
  case True
  then show ?thesis using endParty_inv [OF assms] by (simp add: handOver_def)
next
  case False
  obtain r s where e: "elect \<lparr>ei_partyId = pt_id p, ei_coLeaderIds = pt_coLeaderIds p,
      ei_onlineMembers = filter ml_isOnline (map toLite ms)\<rparr> now (rd_keys w) = (r, s)"
    by (cases "elect \<lparr>ei_partyId = pt_id p, ei_coLeaderIds = pt_coLeaderIds p,
      ei_onlineMembers = filter ml_isOnline (map toLite ms)\<rparr> now (rd_keys w)")
  show ?thesis
  proof (cases "if er_locked r then er_newLeaderId r else None")
    case None
    then show ?thesis using False e assms by (simp add: handOver_def Let_def)
  next
    case (Some l)
    have "partyInv (snd (promoteLeader (pt_id p) l (w\<lparr>rd_keys := s\<rparr>)))"
      using assms by (intro promoteLeader_inv) simp
    then show ?thesis using False e Some
      by (simp add: handOver_def Let_def) (rule inv_and_then, assumption, simp)
  qed
qed

text \<open>The guards of \<open>leaveParty\<close>: who passes them is an active member of the party.\<close>

lemma find_member_active:
  assumes "find (\<lambda>m. pm_userId m = u) (membersOf p w) = Some m" and "pm_leftAt m = None"
  shows "active (partyMembers w) p u"
  using find_row [OF assms(1)] assms(2) by (auto simp: membersOf_def active_def)

lemma leaveParty_inv:
  assumes "partyInv w" shows "partyInv (snd (leaveParty u p reason now w))"
proof -
  have "partyInv (snd (and_then (departMember u p reason now w)
      (\<lambda>_ w1. if pt_leaderId r \<noteq> u then ret (False, None) w1 else handOver r ms now w1)))"
    if "find (\<lambda>m. pm_userId m = u) (membersOf p w) = Some m" "pm_leftAt m = None" for r ms m
    by (rule inv_and_then [where P = partyInv])
       (simp_all add: departMember_inv [OF assms find_member_active [OF that]] handOver_inv)
  then show ?thesis using assms
    by (simp add: leaveParty_def Let_def split: option.split)
qed

lemma incrRate_inv [simp]: "partyInv (snd (incrRate u a win now w)) = partyInv w"
  by (rule partyInv_cong) (simp add: incrRate_cases partyView_def)

lemma newParty_fields [simp]:
  "pt_id (newParty i u dto now) = i" "pt_status (newParty i u dto now) = P_WAITING"
  "pt_deletedAt (newParty i u dto now) = None" "pt_maxMembers (newParty i u dto now) = cp_maxMembers dto"
  "pt_leaderId (newParty i u dto now) = u"
  by (simp_all add: newParty_def)

lemma newMember_fields [simp]:
  "pm_partyId (newMember p u r now) = p" "pm_userId (newMember p u r now) = u"
  "pm_leftAt (newMember p u r now) = None" "pm_isOnline (newMember p u r now) = True"
  "pm_role (newMember p u r now) = r" "pm_joinedAt (newMember p u r now) = now"
  by (simp_all add: newMember_def)

lemma insertParty_cases:
  "insertParty u dto now w =
     (if newUuid w \<in> pt_id ` set (parties w) then (Inl UniqueViolation, w)
      else case createMember (newMember (newUuid w) u R_LEADER now)
             ((takeUuid w)\<lparr>parties := parties w @ [newParty (newUuid w) u dto now]\<rparr>) of
          (Inl e, _) \<Rightarrow> (Inl e, w)
        | (Inr _, w') \<Rightarrow> (Inr (newParty (newUuid w) u dto now), w'))"
  by (cases "createMember (newMember (newUuid w) u R_LEADER now)
             ((takeUuid w)\<lparr>parties := parties w @ [newParty (newUuid w) u dto now]\<rparr>)")
     (simp add: insertParty_def transaction_def write_or_def createRow_def Let_def ret_def raise_def
       split: sum.split)

lemma insertParty_Inr:
  assumes "insertParty u dto now w = (Inr r, w')"
  shows "r = newParty (newUuid w) u dto now" and "newUuid w \<notin> pt_id ` set (parties w)"
    and "w' = (takeUuid w)\<lparr>parties := parties w @ [r],
           partyMembers := partyMembers w @ [newMember (newUuid w) u R_LEADER now]\<rparr>"
proof -
  define w1 where "w1 = (takeUuid w)\<lparr>parties := parties w @ [newParty (newUuid w) u dto now]\<rparr>"
  obtain res w2 where cm: "createMember (newMember (newUuid w) u R_LEADER now) w1 = (res, w2)"
    by (cases "createMember (newMember (newUuid w) u R_LEADER now) w1")
  have new: "newUuid w \<notin> pt_id ` set (parties w)"
    using assms by (auto simp: insertParty_cases)
  with assms have "(case res of Inl e \<Rightarrow> (Inl e, w) | Inr _ \<Rightarrow> (Inr (newParty (newUuid w) u dto now), w2)) = (Inr r, w')"
    unfolding insertParty_cases w1_def [symmetric] cm by simp
  then have m: "createMember (newMember (newUuid w) u R_LEADER now) w1 = (Inr (), w')"
    and r: "r = newParty (newUuid w) u dto now"
    using cm by (simp_all split: sum.splits)
  from new r show "r = newParty (newUuid w) u dto now" "newUuid w \<notin> pt_id ` set (parties w)" by simp_all
  show "w' = (takeUuid w)\<lparr>parties := parties w @ [r],
           partyMembers := partyMembers w @ [newMember (newUuid w) u R_LEADER now]\<rparr>"
    unfolding createMember_cases [OF m, THEN conjunct2, THEN conjunct2, THEN conjunct2] r
    by (simp add: takeUuid_def w1_def)
qed

lemma insertParty_Inl: "insertParty u dto now w = (Inl e, w') \<Longrightarrow> w' = w"
  by (auto simp: insertParty_cases split: if_splits prod.splits sum.splits)

lemma createParty_inv:
  assumes "partyInv w" and "createPartySchema dto"
  shows "partyInv (snd (createParty u dto now w))"
proof -
  obtain count v where v: "incrRate u ''party_create'' partyCreateWindowSeconds now w = (count, v)"
    by (cases "incrRate u ''party_create'' partyCreateWindowSeconds now w")
  then have inv: "partyInv v"
    using assms(1) incrRate_inv [of u "''party_create''" partyCreateWindowSeconds now w] by simp
  have created: "partyInv (snd (and_then (insertParty u dto now v) (\<lambda>p w3. ret (toSummary p 1)
      (w3\<lparr>rd_members := (rd_members w3)(pt_id p := sadd u (rd_members w3 (pt_id p))),
          rd_activeParties := sadd (pt_id p) (rd_activeParties w3),
          rd_userParty := (rd_userParty w3)(u \<mapsto> pt_id p)\<rparr>))))"
    if none: "findActivePartyForUser u v = None"
  proof (cases "insertParty u dto now v")
    case (Pair res v')
    show ?thesis
    proof (cases res)
      case (Inl e)
      then show ?thesis using insertParty_Inl Pair inv by fastforce
    next
      case (Inr r)
      with Pair have ins: "insertParty u dto now v = (Inr r, v')" by simp
      have "mirrored (parties v @ [r]) (partyMembers v @ [newMember (newUuid v) u R_LEADER now])
         ((rd_members v)(newUuid v := sadd u (rd_members v (newUuid v))))
         (sadd (newUuid v) (rd_activeParties v)) ((rd_userParty v)(u \<mapsto> newUuid v))"
        using inv insertParty_Inr [OF ins] findActive_iff(1) [OF inv, of u] none assms(2)
        by (intro mirrored_create) (simp_all add: partyInv_def createPartySchema_def)
      then show ?thesis using ins insertParty_Inr [OF ins] by (simp add: partyInv_def takeUuid_def)
    qed
  qed
  show ?thesis
    using inv created by (auto simp: createParty_def v Let_def split: option.split)
qed

lemma acceptInvite_view [simp]: "partyView (acceptInvite p u now w) = partyView w"
  by (simp add: acceptInvite_def partyView_def)

lemma getPartyDetail_state [simp]: "snd (getPartyDetail p w) = w"
  by (simp add: getPartyDetail_def Let_def split: option.split)

lemma joinAdmitted_inv:
  assumes inv: "partyInv w" and r: "findParty p w = Some r" and opn: "pt_status r \<noteq> P_ENDED"
    and room: "activeCount (partyMembers w) p < pt_maxMembers r"
    and elsewhere: "\<And>q. active (partyMembers w) q u \<Longrightarrow> q = p"
  shows "partyInv (snd (joinAdmitted u p r (filter (\<lambda>m. pm_leftAt m = None) (membersOf p w)) now w))"
proof -
  note i = inv [unfolded partyInv_def]
  have row: "r \<in> set (parties w)" "pt_id r = p" using r by (auto simp: findParty_def dest: findUnique_Some)
  then have openp: "openIn (parties w) p" using opn by (auto simp: openIn_def)
  define done' where "done' = (\<lambda>m (w1 :: 'a party_db_scheme).
      (let w2 = (if pt_isPrivate r then acceptInvite p u now w1 else w1);
           w3 = w2\<lparr>rd_members := (rd_members w2)(p := sadd u (rd_members w2 p)),
                   rd_userParty := (rd_userParty w2)(u \<mapsto> p)\<rparr>;
           w4 = emitParty (MemberJoined p (toMemberDto m w3)) w3
       in getPartyDetail p w4))"
  have after: "partyInv (snd (done' m w1)) \<longleftrightarrow> mirrored (parties w1) (partyMembers w1)
      ((rd_members w1)(p := sadd u (rd_members w1 p))) (rd_activeParties w1) ((rd_userParty w1)(u \<mapsto> p))"
    for m w1
    by (simp add: done'_def Let_def) (simp add: partyInv_def acceptInvite_def)
  show ?thesis
  proof (cases "find (\<lambda>m. pm_userId m = u) (filter (\<lambda>m. pm_leftAt m = None) (membersOf p w))")
    case (Some e)
    then have e: "e \<in> set (partyMembers w)" "memberKey e = (p, u)" "pm_leftAt e = None"
      by (auto simp: membersOf_def dest!: find_row)
    then have act: "active (partyMembers w) p u" by (auto simp: active_def)
    let ?ms = "updateMany (\<lambda>m. memberKey m = (p, u)) (\<lambda>m. m\<lparr>pm_isOnline := True, pm_leftAt := None\<rparr>) (partyMembers w)"
    have left: "pm_leftAt m = None" if "memberKey m = (p, u)" "m \<in> set (partyMembers w)" for m
      using unique_row [OF mirroredD(2) [OF i] that(2) e(1)] that(1) e by simp
    have "mirrored (parties w) ?ms (rd_members w) (rd_activeParties w) (rd_userParty w)"
      using left by (intro mirrored_refresh [OF i]) auto
    moreover have "active ?ms p u"
      using act active_same [of "\<lambda>m. m\<lparr>pm_isOnline := True, pm_leftAt := None\<rparr>"
          "\<lambda>m. memberKey m = (p, u)" "partyMembers w" p u] left by simp
    ultimately have "mirrored (parties w) ?ms ((rd_members w)(p := sadd u (rd_members w p)))
        (rd_activeParties w) ((rd_userParty w)(u \<mapsto> p))" by (rule mirrored_again)
    then show ?thesis unfolding joinAdmitted_def done'_def [symmetric]
      using Some inv by (simp add: updateMember_cases after)
  next
    case None
    have out: "\<not> active (partyMembers w) q u" for q
      using elsewhere [of q] None by (fastforce simp: find_None_iff membersOf_def active_def)
    have "mirrored (parties w) (partyMembers w @ [newMember p u R_MEMBER now])
        ((rd_members w)(p := sadd u (rd_members w p))) (rd_activeParties w) ((rd_userParty w)(u \<mapsto> p))"
      if "(p, u) \<notin> memberKey ` set (partyMembers w)"
      by (rule mirrored_add [OF i _ _ _ that])
         (use out openp room row unique_row [OF mirroredD(1) [OF i]] in auto)
    then show ?thesis unfolding joinAdmitted_def done'_def [symmetric]
      using None inv
      by (cases "createMember (newMember p u R_MEMBER now) w"; cases "fst (createMember (newMember p u R_MEMBER now) w)")
         (auto simp: after dest!: createMember_cases createMember_Inl)
  qed
qed

lemma joinParty_inv:
  assumes "partyInv w" shows "partyInv (snd (joinParty u p now w))"
proof (cases "findParty p w")
  case None
  then show ?thesis using assms by (simp add: joinParty_def)
next
  case (Some r)
  have "partyInv (snd (joinAdmitted u p r (filter (\<lambda>m. pm_leftAt m = None) (membersOf p w)) now w))"
    if "pt_status r \<noteq> P_ENDED" "activeCount (partyMembers w) p < pt_maxMembers r"
      "\<And>q. active (partyMembers w) q u \<Longrightarrow> q = p"
    using joinAdmitted_inv [OF assms Some that] .
  moreover have "\<And>q. active (partyMembers w) q u \<Longrightarrow> q = p" if "findActivePartyForUser u w = None"
    using that findActive_iff(1) [OF assms] by simp
  moreover have "\<And>q. active (partyMembers w) q u \<Longrightarrow> q = p" if "findActivePartyForUser u w = Some (p, x)" for x
    using findActive_iff(2) [OF assms that] mirrored_one_party assms unfolding partyInv_def by blast
  ultimately show ?thesis using assms Some
    by (auto simp: joinParty_def Let_def activeCount_membersOf split: option.split)
qed


lemma createInvite_view [simp]: "partyView (snd (createInvite p i u now w)) = partyView w"
  by (simp add: createInvite_def write_or_def partyView_def takeUuid_def split: option.split)

lemma inviteOne_view: "partyView (snd (inviteOne r i now u acc w)) = partyView w"
proof -
  let ?same = "\<lambda>v :: 'a party_db_scheme. partyView v = partyView w"
  have "?same (snd (and_then (createInvite (pt_id r) i u now w)
        (\<lambda>_ w1. and_then (notify u N_PARTY_INVITE t b d now w1) (\<lambda>_ w2. ret k w2))))" for t b d and k :: "nat \<times> nat"
    by (rule inv_and_then [where P = ?same], simp,
        rule inv_and_then [where P = ?same], simp add: party_notifier.send_view, simp)
  then show ?thesis by (cases acc) (simp add: inviteOne_def)
qed

lemma invite_inv: "partyInv (snd (invite i p us now w)) = partyInv w"
proof -
  have "partyView (snd (for_each (inviteOne r i now) us (0, 0) w)) = partyView w" for r
    by (rule inv_for_each [where P = "\<lambda>v. partyView v = partyView w"]) (simp_all add: inviteOne_view)
  then show ?thesis by (intro partyInv_cong) (simp add: invite_def split: option.split)
qed

lemma respondInvite_inv:
  assumes "partyInv w" shows "partyInv (snd (respondInvite u i acc now w))"
proof -
  have "partyInv (snd (and_then (joinParty u p now w) (\<lambda>_ w1. ret (True, Some p) w1)))" for p
    by (rule inv_and_then [where P = partyInv]) (simp_all add: joinParty_inv [OF assms])
  moreover have "partyInv (w\<lparr>partyInvites := t\<rparr>)" for t
    using assms by (subst partyInv_cong [of _ w]) (simp_all add: partyView_def)
  ultimately show ?thesis using assms
    by (auto simp: respondInvite_def write_or_def updateRow_def split: option.split)
qed

lemma markOffline_inv: "partyInv w \<Longrightarrow> partyInv (markOffline u p now w)"
  unfolding markOffline_def partyInv_def by simp (rule mirrored_refresh, simp_all)

lemma clearOfflineMark_inv: "partyInv w \<Longrightarrow> partyInv (clearOfflineMark u p w)"
  unfolding clearOfflineMark_def partyInv_def by simp (rule mirrored_refresh, simp_all)

lemma recordSignal_inv: "partyInv (snd (recordSignal p u ty n now w)) = partyInv w"
  by (cases "incrRate u ''party_signal'' 60 now w")
     (use incrRate_inv [of u "''party_signal''" 60 now w] in \<open>auto simp: recordSignal_def Let_def\<close>)

lemma rd_zombie_inv [simp]: "partyInv (w\<lparr>rd_zombie := z\<rparr>) = partyInv w"
  by (rule partyInv_cong) (simp add: partyView_def)

lemma sweepOne_inv: "partyInv (snd acc) \<Longrightarrow> partyInv (snd (sweepOne p now u acc))"
  using leaveParty_inv [of "snd acc" u p DISCONNECT_TIMEOUT now]
  by (auto simp: sweepOne_def split: prod.split sum.split)

lemma sweepParty_inv: "partyInv (snd acc) \<Longrightarrow> partyInv (snd (sweepParty now p acc))"
  unfolding sweepParty_def by (rule fold_inv [where P = "\<lambda>a. partyInv (snd a)"]) (simp_all add: sweepOne_inv)

lemma sweepZombies_inv: "partyInv w \<Longrightarrow> partyInv (sweepZombies now w)"
  unfolding sweepZombies_def sweepZombieMembers_def
  by (rule fold_inv [where P = "\<lambda>a. partyInv (snd a)"]) (simp_all add: sweepParty_inv)

section \<open>The operations as steps\<close>

text \<open>The body of a creation request has passed the schema of the controller.\<close>

datatype party_op =
    CreateParty uid createPartyDto time
  | JoinParty uid uid time
  | LeaveParty uid uid leaveReason time
  | EndParty uid endReason time
  | RecordSignal uid uid string string time
  | Invite uid uid "uid list" time
  | RespondInvite uid uid bool time
  | MarkOffline uid uid time
  | ClearOfflineMark uid uid
  | SweepZombies time

fun partyStep :: "party_op \<Rightarrow> 'a party_db_scheme \<Rightarrow> 'a party_db_scheme" where
  "partyStep (CreateParty u dto now) w = (if createPartySchema dto then snd (createParty u dto now w) else w)"
| "partyStep (JoinParty u p now) w = snd (joinParty u p now w)"
| "partyStep (LeaveParty u p reason now) w = snd (leaveParty u p reason now w)"
| "partyStep (EndParty p reason now) w = endParty p reason now w"
| "partyStep (RecordSignal p u ty n now) w = snd (recordSignal p u ty n now w)"
| "partyStep (Invite i p us now) w = snd (invite i p us now w)"
| "partyStep (RespondInvite u i acc now) w = snd (respondInvite u i acc now w)"
| "partyStep (MarkOffline u p now) w = markOffline u p now w"
| "partyStep (ClearOfflineMark u p) w = clearOfflineMark u p w"
| "partyStep (SweepZombies now) w = sweepZombies now w"

interpretation party: invariant_system partyStep partyInv
proof
  fix w :: "'a party_db_scheme" and x
  assume "partyInv w"
  then show "partyInv (partyStep x w)"
    by (cases x) (simp_all add: createParty_inv joinParty_inv leaveParty_inv endParty_inv recordSignal_inv
        invite_inv respondInvite_inv markOffline_inv clearOfflineMark_inv sweepZombies_inv)
qed


section \<open>What the operations do\<close>

subsection \<open>Leaving\<close>

text \<open>Who is active after a hand-over: as before it, nobody when it ended an empty party.\<close>

lemma promoteLeader_active:
  "active (partyMembers (snd (promoteLeader p l w))) = active (partyMembers w)"
proof -
  have same: "active (updateMany (\<lambda>m. memberKey m = (p, l)) (\<lambda>m. m\<lparr>pm_role := R_LEADER\<rparr>) ms) = active ms" for ms
    by (intro ext active_same) simp_all
  show ?thesis
    by (auto simp: promoteLeader_def transaction_def write_or_def updateRow_def updateMember_cases
        ret_def raise_def same simp del: prod.inject split: prod.splits sum.splits)
qed

lemma endParty_active:
  assumes "\<And>v. \<not> active (partyMembers w) p v"
  shows "active (partyMembers (endParty p reason now w)) = active (partyMembers w)"
proof -
  have "active (updateMany (\<lambda>m. pm_partyId m = p \<and> pm_leftAt m = None)
      (\<lambda>m. m\<lparr>pm_leftAt := Some now, pm_isOnline := False\<rparr>) (partyMembers w)) q v = active (partyMembers w) q v" for q v
    using assms by (subst active_left) (auto simp: active_def)
  then have "active (updateMany (\<lambda>m. pm_partyId m = p \<and> pm_leftAt m = None)
      (\<lambda>m. m\<lparr>pm_leftAt := Some now, pm_isOnline := False\<rparr>) (partyMembers w)) = active (partyMembers w)"
    by blast
  then show ?thesis
    by (simp add: endParty_def endRows_def flushRedis_def Let_def split: option.split)
qed

lemma handOver_active:
  assumes "ms = [] \<Longrightarrow> \<forall>v. \<not> active (partyMembers w) (pt_id r) v"
  shows "active (partyMembers (snd (handOver r ms now w))) = active (partyMembers w)"
proof (cases "ms = []")
  case True
  then show ?thesis using assms by (simp add: handOver_def endParty_active)
next
  case False
  obtain e s where e: "elect \<lparr>ei_partyId = pt_id r, ei_coLeaderIds = pt_coLeaderIds r,
      ei_onlineMembers = filter ml_isOnline (map toLite ms)\<rparr> now (rd_keys w) = (e, s)"
    by (cases "elect \<lparr>ei_partyId = pt_id r, ei_coLeaderIds = pt_coLeaderIds r,
      ei_onlineMembers = filter ml_isOnline (map toLite ms)\<rparr> now (rd_keys w)")
  let ?P = "\<lambda>v :: 'a party_db_scheme. active (partyMembers v) = active (partyMembers w)"
  have "?P (snd (and_then (promoteLeader (pt_id r) l (w\<lparr>rd_keys := s\<rparr>))
      (\<lambda>_ w2. let w3 = emitParty (LeaderChanged (pt_id r) l) w2
              in ret (False, Some l) (w3\<lparr>rd_keys := snd (release (pt_id r) l now (rd_keys w3))\<rparr>))))" for l
    by (rule inv_and_then [where P = ?P]) (simp_all add: promoteLeader_active)
  then show ?thesis using False e by (auto simp: handOver_def Let_def split: option.split)
qed

text \<open>The zombie marks of the other parties do not move.\<close>

lemma promoteLeader_zombie: "rd_zombie (snd (promoteLeader p l w)) = rd_zombie w"
  by (auto simp: promoteLeader_def transaction_def write_or_def updateRow_def updateMember_cases
      ret_def raise_def simp del: prod.inject split: prod.splits sum.splits)

lemma handOver_zombie:
  assumes "q \<noteq> pt_id r"
  shows "rd_zombie (snd (handOver r ms now w)) q = rd_zombie w q"
proof (cases "ms = []")
  case True
  then show ?thesis using assms
    by (simp add: handOver_def endParty_def endRows_def flushRedis_def Let_def split: option.split)
next
  case False
  obtain e s where e: "elect \<lparr>ei_partyId = pt_id r, ei_coLeaderIds = pt_coLeaderIds r,
      ei_onlineMembers = filter ml_isOnline (map toLite ms)\<rparr> now (rd_keys w) = (e, s)"
    by (cases "elect \<lparr>ei_partyId = pt_id r, ei_coLeaderIds = pt_coLeaderIds r,
      ei_onlineMembers = filter ml_isOnline (map toLite ms)\<rparr> now (rd_keys w)")
  let ?P = "\<lambda>v :: 'a party_db_scheme. rd_zombie v = rd_zombie w"
  have "?P (snd (and_then (promoteLeader (pt_id r) l (w\<lparr>rd_keys := s\<rparr>))
      (\<lambda>_ w2. let w3 = emitParty (LeaderChanged (pt_id r) l) w2
              in ret (False, Some l) (w3\<lparr>rd_keys := snd (release (pt_id r) l now (rd_keys w3))\<rparr>))))" for l
    by (rule inv_and_then [where P = ?P]) (simp_all add: promoteLeader_zombie)
  then show ?thesis using False e by (auto simp: handOver_def Let_def split: option.split)
qed

lemma find_member_iff:
  assumes "partyInv w"
  shows "active (partyMembers w) p u \<longleftrightarrow>
    (\<exists>m. find (\<lambda>m. pm_userId m = u) (membersOf p w) = Some m \<and> pm_leftAt m = None)"
proof
  assume "active (partyMembers w) p u"
  then obtain m where m: "m \<in> set (partyMembers w)" "memberKey m = (p, u)" "pm_leftAt m = None"
    by (auto simp: active_def)
  then have "find (\<lambda>m. pm_userId m = u) (membersOf p w) \<noteq> None"
    by (auto simp: find_None_iff membersOf_def)
  then obtain n where n: "find (\<lambda>m. pm_userId m = u) (membersOf p w) = Some n" by blast
  then have "n \<in> set (partyMembers w)" "memberKey n = (p, u)" by (auto simp: membersOf_def dest!: find_row)
  then have "n = m" using m unique_row [OF mirroredD(2) [OF assms [unfolded partyInv_def]]] by metis
  then show "\<exists>m. find (\<lambda>m. pm_userId m = u) (membersOf p w) = Some m \<and> pm_leftAt m = None" using n m by blast
qed (use find_member_active in blast)

lemma active_open:
  assumes "partyInv w" and "active (partyMembers w) p u"
  obtains r where "findParty p w = Some r" "pt_status r \<noteq> P_ENDED" "pt_deletedAt r = None" "pt_id r = p"
proof -
  have "openParty p w"
    using mirrored_open assms unfolding openParty_iff [OF assms(1)] partyInv_def by blast
  then obtain r where r: "findParty p w = Some r" "pt_status r \<noteq> P_ENDED" "pt_deletedAt r = None"
    by (auto simp: openParty_def split: option.splits)
  moreover have "pt_id r = p" using r(1) by (auto simp: findParty_def dest: findUnique_Some)
  ultimately show ?thesis using that by blast
qed

text \<open>The remaining members, as the code computes them from the rows it read first.\<close>

definition remainingOf :: "uid \<Rightarrow> uid \<Rightarrow> 'a party_db_scheme \<Rightarrow> partyMember list" where
  "remainingOf u p w = filter (\<lambda>m. pm_userId m \<noteq> u \<and> pm_leftAt m = None) (membersOf p w)"

definition departed :: "uid \<Rightarrow> uid \<Rightarrow> leaveReason \<Rightarrow> time \<Rightarrow> 'a party_db_scheme \<Rightarrow> 'a party_db_scheme" where
  "departed u p reason now w = snd (departMember u p reason now w)"

lemma departed_active:
  assumes "active (partyMembers w) p u"
  shows "active (partyMembers (departed u p reason now w)) q v \<longleftrightarrow>
    active (partyMembers w) q v \<and> (q, v) \<noteq> (p, u)"
proof -
  have "active (updateMany (\<lambda>m. memberKey m = (p, u)) (\<lambda>m. m\<lparr>pm_leftAt := Some now, pm_isOnline := False\<rparr>)
      (partyMembers w)) q v \<longleftrightarrow> active (partyMembers w) q v \<and> (q, v) \<noteq> (p, u)"
    by (subst active_left) (auto simp: active_def)
  then show ?thesis by (simp add: departed_def departMember_writes [OF assms] del: prod.inject)
qed

lemma leaveParty_member:
  assumes inv: "partyInv w" and act: "active (partyMembers w) p u" and r: "findParty p w = Some r"
  shows "leaveParty u p reason now w =
    (if pt_leaderId r \<noteq> u then (Inr (False, None), departed u p reason now w)
     else handOver r (remainingOf u p w) now (departed u p reason now w))"
proof -
  obtain r' where r': "findParty p w = Some r'" "pt_status r' \<noteq> P_ENDED" "pt_deletedAt r' = None"
    using active_open [OF inv act] by metis
  then have st: "pt_status r \<noteq> P_ENDED" "pt_deletedAt r = None" using r by simp_all
  obtain m where m: "find (\<lambda>m. pm_userId m = u) (membersOf p w) = Some m" "pm_leftAt m = None"
    using act find_member_iff [OF inv] by blast
  have d: "departMember u p reason now w = (Inr (), departed u p reason now w)"
    by (simp add: departed_def departMember_writes [OF act])
  show ?thesis
    by (simp add: leaveParty_def r st m Let_def d remainingOf_def ret_def)
qed

lemma leaveParty_stranger:
  assumes "partyInv w" and "\<not> active (partyMembers w) p u"
  shows "snd (leaveParty u p reason now w) = w"
  using assms find_member_iff [OF assms(1), of p u]
  by (auto simp: leaveParty_def Let_def split: option.split)

lemma remaining_active:
  "remainingOf u p w = [] \<longleftrightarrow> (\<forall>v. active (partyMembers w) p v \<longrightarrow> v = u)"
  by (fastforce simp: remainingOf_def membersOf_def active_def filter_empty_conv)

lemma leaveParty_active:
  assumes inv: "partyInv w"
  shows "active (partyMembers (snd (leaveParty u p reason now w))) q v \<longleftrightarrow>
    active (partyMembers w) q v \<and> (q, v) \<noteq> (p, u)"
proof (cases "active (partyMembers w) p u")
  case False
  then show ?thesis using leaveParty_stranger [OF inv False] by auto
next
  case True
  then obtain r where r: "findParty p w = Some r" "pt_id r = p" using active_open [OF inv] by metis
  have "active (partyMembers (snd (handOver r (remainingOf u p w) now (departed u p reason now w)))) =
      active (partyMembers (departed u p reason now w))"
    using remaining_active [of u p w] by (intro handOver_active) (auto simp: departed_active [OF True] r)
  then show ?thesis
    using leaveParty_member [OF inv True r(1), of reason now] by (simp add: departed_active [OF True])
qed

lemma leaveParty_zombie:
  assumes "partyInv w" and "q \<noteq> p"
  shows "rd_zombie (snd (leaveParty u p reason now w)) q = rd_zombie w q"
proof (cases "active (partyMembers w) p u")
  case False
  then show ?thesis using leaveParty_stranger [OF assms(1) False] by simp
next
  case True
  then obtain r where r: "findParty p w = Some r" "pt_id r = p" using active_open [OF assms(1)] by metis
  have "rd_zombie (departed u p reason now w) = rd_zombie w"
    by (simp add: departed_def departMember_writes [OF True])
  then show ?thesis using leaveParty_member [OF assms(1) True r(1), of reason now] r(2) assms(2)
    by (simp add: handOver_zombie)
qed

subsection \<open>The sweep\<close>

definition staleIn :: "time \<Rightarrow> uid \<Rightarrow> 'a party_db_scheme \<Rightarrow> uid list" where
  "staleIn now p w = zrangebyscore 0 (now - zombieOfflineSeconds * 1000) (rd_zombie w p)"

lemma sweepOne_state:
  assumes "partyInv (snd acc)"
  shows "active (partyMembers (snd (sweepOne p now u acc))) q v \<longleftrightarrow>
      active (partyMembers (snd acc)) q v \<and> (q, v) \<noteq> (p, u)"
    and "q \<noteq> p \<Longrightarrow> rd_zombie (snd (sweepOne p now u acc)) q = rd_zombie (snd acc) q"
  using leaveParty_active [OF assms, of u p DISCONNECT_TIMEOUT now q v]
    leaveParty_zombie [OF assms, of q p u DISCONNECT_TIMEOUT now]
  by (auto simp: sweepOne_def simp del: prod.inject split: prod.split sum.split)

lemma sweepMembers_state:
  assumes "partyInv (snd acc)"
  shows "active (partyMembers (snd (fold (sweepOne p now) us acc))) q v \<longleftrightarrow>
      active (partyMembers (snd acc)) q v \<and> \<not> (q = p \<and> v \<in> set us)"
    and "q \<noteq> p \<Longrightarrow> rd_zombie (snd (fold (sweepOne p now) us acc)) q = rd_zombie (snd acc) q"
proof -
  have "(active (partyMembers (snd (fold (sweepOne p now) us acc))) q v \<longleftrightarrow>
      active (partyMembers (snd acc)) q v \<and> \<not> (q = p \<and> v \<in> set us)) \<and>
      (q \<noteq> p \<longrightarrow> rd_zombie (snd (fold (sweepOne p now) us acc)) q = rd_zombie (snd acc) q)"
    using assms
  proof (induction us arbitrary: acc)
    case Nil
    then show ?case by simp
  next
    case (Cons u us)
    have inv: "partyInv (snd (sweepOne p now u acc))" using Cons.prems by (rule sweepOne_inv)
    show ?case using Cons.IH [OF inv] by (auto simp: sweepOne_state [OF Cons.prems] simp del: prod.inject)
  qed
  then show "active (partyMembers (snd (fold (sweepOne p now) us acc))) q v \<longleftrightarrow>
      active (partyMembers (snd acc)) q v \<and> \<not> (q = p \<and> v \<in> set us)"
    and "q \<noteq> p \<Longrightarrow> rd_zombie (snd (fold (sweepOne p now) us acc)) q = rd_zombie (snd acc) q"
    by blast+
qed

lemma sweepParties_state:
  assumes "partyInv (snd acc)" and "distinct ps"
  shows "active (partyMembers (snd (fold (sweepParty now) ps acc))) q v \<longleftrightarrow>
      active (partyMembers (snd acc)) q v \<and> \<not> (q \<in> set ps \<and> v \<in> set (staleIn now q (snd acc)))"
  using assms
proof (induction ps arbitrary: acc)
  case Nil
  then show ?case by simp
next
  case (Cons p ps)
  have inv: "partyInv (snd (sweepParty now p acc))" using Cons.prems(1) by (rule sweepParty_inv)
  have one: "active (partyMembers (snd (sweepParty now p acc))) q v \<longleftrightarrow>
      active (partyMembers (snd acc)) q v \<and> \<not> (q = p \<and> v \<in> set (staleIn now p (snd acc)))"
    unfolding sweepParty_def staleIn_def by (rule sweepMembers_state(1) [OF Cons.prems(1)])
  have "staleIn now q (snd (sweepParty now p acc)) = staleIn now q (snd acc)" if "q \<noteq> p"
    unfolding staleIn_def sweepParty_def using sweepMembers_state(2) [OF Cons.prems(1) that] by simp
  then show ?case using Cons.IH [OF inv] Cons.prems(2) one by (cases "q = p") auto
qed


lemma sweepZombies_active:
  assumes "partyInv w"
  shows "active (partyMembers (sweepZombies now w)) p u \<longleftrightarrow>
    active (partyMembers w) p u \<and> u \<notin> set (staleIn now p w)"
proof -
  note i = assms [unfolded partyInv_def]
  have "active (partyMembers w) p u \<Longrightarrow> p \<in> set (rd_activeParties w)"
    using mirrored_open [OF i] mirroredD(8) [OF i] by blast
  then show ?thesis
    using sweepParties_state [of "(0, w)" "rd_activeParties w" now p u] assms mirroredD(9) [OF i]
    by (auto simp: sweepZombies_def sweepZombieMembers_def)
qed

subsection \<open>Signals\<close>

text \<open>How many of the signals sent at the given times are broadcast.\<close>

fun signalsAllowed :: "uid \<Rightarrow> uid \<Rightarrow> string \<Rightarrow> string \<Rightarrow> time list \<Rightarrow> 'a party_db_scheme \<Rightarrow> nat" where
  "signalsAllowed p u ty n [] w = 0"
| "signalsAllowed p u ty n (t # ts) w =
     (case recordSignal p u ty n t w of
        (Inr (True, _), w') \<Rightarrow> Suc (signalsAllowed p u ty n ts w')
      | (_, w') \<Rightarrow> signalsAllowed p u ty n ts w')"

lemma emitParty_counters [simp]: "rd_counters (emitParty e w) = rd_counters w"
  by (simp add: emitParty_def)

lemma signalsAllowed_hits:
  "signalsAllowed p u ty n ts w =
     (if u \<in> set (rd_members w p)
      then rate.accepted 60 (rateKey ''party_signal'' u) signalRatePerMinute ts (rd_counters w) else 0)"
proof (induction ts arbitrary: w)
  case Nil
  then show ?case by (simp add: rate.accepted_def)
next
  case (Cons t ts)
  let ?k = "rateKey ''party_signal'' u"
  obtain s' where hit: "incrWindow 60 t ?k (rd_counters w) = (Suc (counterGet t ?k (rd_counters w)), s')"
    using fst_incrWindow [of 60 t ?k "rd_counters w"] by (metis prod.collapse)
  show ?case
    by (auto simp: recordSignal_def incrRate_cases Cons.IH rate.accepted_def hit ret_def throwHttp_def raise_def)
qed


subsection \<open>Hand-over\<close>

lemma remaining_rows:
  "m \<in> set (remainingOf u p w) \<Longrightarrow>
     m \<in> set (partyMembers w) \<and> pm_partyId m = p \<and> pm_userId m \<noteq> u \<and> pm_leftAt m = None"
  by (simp add: remainingOf_def membersOf_def)

definition handOverInput :: "party \<Rightarrow> partyMember list \<Rightarrow> electionInput" where
  "handOverInput r ms = \<lparr>ei_partyId = pt_id r, ei_coLeaderIds = pt_coLeaderIds r,
     ei_onlineMembers = filter ml_isOnline (map toLite ms)\<rparr>"

lemma handOverInput_party [simp]: "ei_partyId (handOverInput r ms) = pt_id r"
  by (simp add: handOverInput_def)

lemma toLite_fields [simp]:
  "ml_userId (toLite m) = pm_userId m" "ml_isOnline (toLite m) = pm_isOnline m"
  "ml_joinedAt (toLite m) = pm_joinedAt m"
  by (simp_all add: toLite_def)

lemma promoteLeader_ok:
  assumes "p \<in> pt_id ` set (parties w)" and "(p, l) \<in> memberKey ` set (partyMembers w)"
  shows "promoteLeader p l w = (Inr (), w\<lparr>
      parties := updateMany (\<lambda>r. pt_id r = p) (\<lambda>r. r\<lparr>pt_leaderId := l\<rparr>) (parties w),
      partyMembers := updateMany (\<lambda>m. memberKey m = (p, l)) (\<lambda>m. m\<lparr>pm_role := R_LEADER\<rparr>) (partyMembers w)\<rparr>)"
  using assms
  by (simp add: promoteLeader_def transaction_def write_or_def updateRow_def updateMember_cases ret_def
      del: prod.inject)

lemma handOver_elected:
  assumes pick: "fst (pickNextLeader (handOverInput r ms)) = Some l"
    and free: "kvGet now (leaderLock (pt_id r)) (rd_keys w) = None"
    and known: "pt_id r \<in> pt_id ` set (parties w)" "(pt_id r, l) \<in> memberKey ` set (partyMembers w)"
    and ne: "ms \<noteq> []"
  shows "\<exists>s. handOver r ms now w = (Inr (False, Some l), (emitParty (LeaderChanged (pt_id r) l) (w\<lparr>
      parties := updateMany (\<lambda>x. pt_id x = pt_id r) (\<lambda>x. x\<lparr>pt_leaderId := l\<rparr>) (parties w),
      partyMembers := updateMany (\<lambda>m. memberKey m = (pt_id r, l)) (\<lambda>m. m\<lparr>pm_role := R_LEADER\<rparr>) (partyMembers w)\<rparr>))\<lparr>rd_keys := s\<rparr>) \<and>
      kvGet now (leaderLock (pt_id r)) s = None"
proof -
  obtain reason where pr: "pickNextLeader (handOverInput r ms) = (Some l, reason)"
    using pick by (metis prod.collapse)
  define s1 where "s1 = snd (kvSetNx now (leaderLock (pt_id r)) l leaderLockSeconds (rd_keys w))"
  have el: "elect (handOverInput r ms) now (rd_keys w) =
      (\<lparr>er_newLeaderId = Some l, er_locked = True, er_reason = reason\<rparr>, s1)"
    using free by (simp add: elect_def pr kvSetNx_def s1_def)
  define s2 where "s2 = snd (release (pt_id r) l now s1)"
  have "kvGet now (leaderLock (pt_id r)) s1 = Some l"
    using leader_lock.acquire_holder [of now "pt_id r" "rd_keys w" now l] free
    by (simp add: s1_def leaderLockSeconds_def)
  then have held: "kvGet now (leaderLock (pt_id r)) s2 = None"
    unfolding s2_def by (rule leader_lock.giveBack_frees)
  show ?thesis
    using ne known el [unfolded handOverInput_def] held
    by (intro exI [of _ s2])
       (simp add: handOver_def promoteLeader_ok ret_def emitParty_def s2_def del: prod.inject)
qed

lemma handOver_stuck:
  assumes ne: "ms \<noteq> []"
    and none: "fst (pickNextLeader (handOverInput r ms)) = None \<or> kvGet now (leaderLock (pt_id r)) (rd_keys w) \<noteq> None"
  shows "handOver r ms now w =
    (Inr (False, Some (pm_userId (hd (sort_key pm_joinedAt ms)))), w)"
proof -
  have el: "er_newLeaderId (fst (elect (handOverInput r ms) now (rd_keys w))) = None \<and>
      snd (elect (handOverInput r ms) now (rd_keys w)) = rd_keys w"
    using none by (auto simp: elect_def kvSetNx_def split: prod.split option.split)
  obtain e s where e: "elect (handOverInput r ms) now (rd_keys w) = (e, s)"
    by (cases "elect (handOverInput r ms) now (rd_keys w)")
  have "hd (sort_key ml_joinedAt (map toLite ms)) = toLite (hd (sort_key pm_joinedAt ms))"
  proof -
    have "sort_key pm_joinedAt ms \<noteq> []" using ne by (metis length_0_conv length_sort)
    then show ?thesis by (simp add: sort_key_map hd_map)
  qed
  then show ?thesis
    using ne el e by (simp add: handOver_def handOverInput_def ret_def)
qed


subsection \<open>Joining\<close>

lemma accepted_status:
  assumes "i \<in> set (partyInvites (acceptInvite p u now w))" and "inviteKey i = (p, u)"
  shows "pi_status i \<noteq> I_PENDING"
proof -
  obtain j where "i = (if pi_partyId j = p \<and> pi_inviteeId j = u \<and> pi_status j = I_PENDING
      then j\<lparr>pi_status := I_ACCEPTED, pi_respondedAt := Some now\<rparr> else j)"
    using updated_row [of i "\<lambda>i. pi_partyId i = p \<and> pi_inviteeId i = u \<and> pi_status i = I_PENDING"
        "\<lambda>i. i\<lparr>pi_status := I_ACCEPTED, pi_respondedAt := Some now\<rparr>" "partyInvites w"] assms(1)
    by (auto simp: acceptInvite_def)
  then show ?thesis using assms(2) by (auto split: if_splits)
qed

lemma joinAdmitted_Inr:
  assumes "fst (joinAdmitted u p r ms now w) = Inr d"
  shows "pt_isPrivate r \<Longrightarrow> \<exists>i. findUnique inviteKey (p, u) (partyInvites w) = Some i \<and> pi_status i = I_PENDING"
    and "\<exists>e w1. partyInvites w1 = partyInvites w \<and> snd (joinAdmitted u p r ms now w) =
      emitParty e ((if pt_isPrivate r then acceptInvite p u now w1 else w1)\<lparr>
        rd_members := (rd_members w1)(p := sadd u (rd_members w1 p)),
        rd_userParty := (rd_userParty w1)(u \<mapsto> p)\<rparr>)"
proof -
  define done' where "done' = (\<lambda>m (w1 :: 'a party_db_scheme).
      (let w2 = (if pt_isPrivate r then acceptInvite p u now w1 else w1);
           w3 = w2\<lparr>rd_members := (rd_members w2)(p := sadd u (rd_members w2 p)),
                   rd_userParty := (rd_userParty w2)(u \<mapsto> p)\<rparr>;
           w4 = emitParty (MemberJoined p (toMemberDto m w3)) w3
       in getPartyDetail p w4))"
  have after: "\<exists>e. snd (done' m w1) = emitParty e ((if pt_isPrivate r then acceptInvite p u now w1 else w1)\<lparr>
        rd_members := (rd_members w1)(p := sadd u (rd_members w1 p)),
        rd_userParty := (rd_userParty w1)(u \<mapsto> p)\<rparr>)" for m w1
    by (intro exI [of _ "MemberJoined p (toMemberDto m
          ((if pt_isPrivate r then acceptInvite p u now w1 else w1)\<lparr>
            rd_members := (rd_members w1)(p := sadd u (rd_members w1 p)), rd_userParty := (rd_userParty w1)(u \<mapsto> p)\<rparr>))"])
       (simp add: done'_def Let_def acceptInvite_def)
  show "pt_isPrivate r \<Longrightarrow> \<exists>i. findUnique inviteKey (p, u) (partyInvites w) = Some i \<and> pi_status i = I_PENDING"
    using assms by (auto simp: joinAdmitted_def throwHttp_def raise_def split: option.splits if_splits)
  have guard: "\<not> (pt_isPrivate r \<and> (case findUnique inviteKey (p, u) (partyInvites w) of
      None \<Rightarrow> True | Some i \<Rightarrow> pi_status i \<noteq> I_PENDING))"
    using assms by (auto simp: joinAdmitted_def throwHttp_def raise_def split: if_splits)
  have "\<exists>m w1. partyInvites w1 = partyInvites w \<and> snd (joinAdmitted u p r ms now w) = snd (done' m w1)"
  proof (cases "find (\<lambda>m. pm_userId m = u) ms")
    case None
    show ?thesis
    proof (cases "createMember (newMember p u R_MEMBER now) w")
      case (Pair res w')
      show ?thesis
      proof (cases res)
        case (Inl e)
        then show ?thesis using assms guard None Pair unfolding joinAdmitted_def done'_def [symmetric] by simp
      next
        case (Inr x)
        then have "createMember (newMember p u R_MEMBER now) w = (Inr (), w')" using Pair by simp
        then have "partyInvites w' = partyInvites w" by (auto dest: createMember_cases)
        then show ?thesis using guard None Pair Inr unfolding joinAdmitted_def done'_def [symmetric] by auto
      qed
    qed
  next
    case (Some e)
    have known: "(p, u) \<in> memberKey ` set (partyMembers w)"
    proof (rule ccontr)
      assume "(p, u) \<notin> memberKey ` set (partyMembers w)"
      then show False using assms guard Some unfolding joinAdmitted_def done'_def [symmetric]
        by (simp add: updateMember_cases)
    qed
    show ?thesis using Some known unfolding joinAdmitted_def done'_def [symmetric] if_not_P [OF guard]
      by (intro exI [of _ "e\<lparr>pm_isOnline := True, pm_leftAt := None\<rparr>"]
          exI [of _ "w\<lparr>partyMembers := updateMany (\<lambda>m. memberKey m = (p, u))
            (\<lambda>m. m\<lparr>pm_isOnline := True, pm_leftAt := None\<rparr>) (partyMembers w)\<rparr>"])
         (simp add: updateMember_cases del: prod.inject)
  qed
  then show "\<exists>e w1. partyInvites w1 = partyInvites w \<and> snd (joinAdmitted u p r ms now w) =
      emitParty e ((if pt_isPrivate r then acceptInvite p u now w1 else w1)\<lparr>
        rd_members := (rd_members w1)(p := sadd u (rd_members w1 p)),
        rd_userParty := (rd_userParty w1)(u \<mapsto> p)\<rparr>)"
    using after by metis
qed

subsection \<open>Invitations\<close>

lemma createInvite_Inr:
  "createInvite p i u now w = (Inr x, w') \<Longrightarrow>
     (p, u) \<notin> inviteKey ` set (partyInvites w) \<and>
     (\<exists>row. inviteKey row = (p, u) \<and> pi_status row = I_PENDING \<and> partyInvites w' = partyInvites w @ [row])"
  by (auto simp: createInvite_def write_or_def createRow_def raise_def ret_def split: option.splits if_splits)

lemma notify_invites: "partyInvites (snd (notify u ty t b d now w)) = partyInvites w"
proof -
  obtain x n where "snd (notify u ty t b d now w) = w\<lparr>notifications := x, uuidNext := n\<rparr>"
    using notify_writes by blast
  then show ?thesis by simp
qed

text \<open>
  One round of the loop that does not throw: it counts the invitee once and leaves an
  invitation of the invitee in the table, adding a row exactly when it counts a creation.
\<close>

lemma inviteOne_Inr:
  assumes "inviteOne r i now u (c, s) w = (Inr (c', s'), w')"
  shows "c' + s' = Suc (c + s)"
    and "\<exists>rows. partyInvites w' = partyInvites w @ rows \<and> length rows + c = c' \<and>
      (\<forall>row \<in> set rows. inviteKey row = (pt_id r, u) \<and> pi_status row = I_PENDING) \<and>
      (u \<noteq> i \<longrightarrow> (pt_id r, u) \<in> inviteKey ` set (partyInvites w'))"
    and "unique inviteKey (partyInvites w) \<Longrightarrow> unique inviteKey (partyInvites w')"
proof -
  consider (skip) "u = i \<or> findUnique inviteKey (pt_id r, u) (partyInvites w) \<noteq> None"
    | (new) "u \<noteq> i" "findUnique inviteKey (pt_id r, u) (partyInvites w) = None" by blast
  then have "c' + s' = Suc (c + s) \<and>
    (\<exists>rows. partyInvites w' = partyInvites w @ rows \<and> length rows + c = c' \<and>
      (\<forall>row \<in> set rows. inviteKey row = (pt_id r, u) \<and> pi_status row = I_PENDING) \<and>
      (u \<noteq> i \<longrightarrow> (pt_id r, u) \<in> inviteKey ` set (partyInvites w'))) \<and>
    (unique inviteKey (partyInvites w) \<longrightarrow> unique inviteKey (partyInvites w'))"
  proof cases
    case skip
    then have "c' = c" "s' = Suc s" "w' = w" using assms by (auto simp: inviteOne_def ret_def split: if_splits)
    moreover have "(pt_id r, u) \<in> inviteKey ` set (partyInvites w)" if "u \<noteq> i"
      using skip that by (simp add: findUnique_None)
    ultimately show ?thesis by simp
  next
    case new
    obtain w1 res where ci: "createInvite (pt_id r) i u now w = (Inr (), w1)"
      and nt: "notify u N_PARTY_INVITE ''party_invite_title'' ''party_invite_body''
              [(''partyId'', DText (pt_id r)), (''partyName'', DText (pt_name r)),
               (''inviterId'', DText i)] now w1 = (Inr res, w')"
      and c: "c' = c + 1" "s' = s"
      using assms new by (auto simp: inviteOne_def and_then_Inr_iff ret_def)
    obtain row where row: "inviteKey row = (pt_id r, u)" "pi_status row = I_PENDING"
      "partyInvites w1 = partyInvites w @ [row]" "(pt_id r, u) \<notin> inviteKey ` set (partyInvites w)"
      using createInvite_Inr [OF ci] by blast
    have "partyInvites w' = partyInvites w1" using nt notify_invites by (metis snd_conv)
    then show ?thesis using c row by (auto intro!: exI [of _ "[row]"])
  qed
  then show "c' + s' = Suc (c + s)"
    and "\<exists>rows. partyInvites w' = partyInvites w @ rows \<and> length rows + c = c' \<and>
      (\<forall>row \<in> set rows. inviteKey row = (pt_id r, u) \<and> pi_status row = I_PENDING) \<and>
      (u \<noteq> i \<longrightarrow> (pt_id r, u) \<in> inviteKey ` set (partyInvites w'))"
    and "unique inviteKey (partyInvites w) \<Longrightarrow> unique inviteKey (partyInvites w')"
    by blast+
qed

lemma inviteAll_Inr:
  assumes "for_each (inviteOne r i now) us (c, s) w = (Inr (c', s'), w')"
  shows "c' + s' = length us + (c + s) \<and>
    (\<exists>rows. partyInvites w' = partyInvites w @ rows \<and> length rows + c = c' \<and>
      (\<forall>row \<in> set rows. pi_partyId row = pt_id r \<and> pi_inviteeId row \<in> set us \<and> pi_status row = I_PENDING)) \<and>
    (\<forall>u \<in> set us. u \<noteq> i \<longrightarrow> (pt_id r, u) \<in> inviteKey ` set (partyInvites w')) \<and>
    (unique inviteKey (partyInvites w) \<longrightarrow> unique inviteKey (partyInvites w'))"
  using assms
proof (induction us arbitrary: c s w)
  case Nil
  then show ?case by (simp add: ret_def)
next
  case (Cons u us)
  obtain c1 s1 w1 where one: "inviteOne r i now u (c, s) w = (Inr (c1, s1), w1)"
    and rest: "for_each (inviteOne r i now) us (c1, s1) w1 = (Inr (c', s'), w')"
    using Cons.prems by (auto simp: and_then_Inr_iff)
  note o = inviteOne_Inr [OF one] and ih = Cons.IH [OF rest]
  obtain r1 where r1: "partyInvites w1 = partyInvites w @ r1" "length r1 + c = c1"
    "\<forall>row \<in> set r1. inviteKey row = (pt_id r, u) \<and> pi_status row = I_PENDING"
    "u \<noteq> i \<longrightarrow> (pt_id r, u) \<in> inviteKey ` set (partyInvites w1)"
    using o(2) by blast
  obtain r2 where r2: "partyInvites w' = partyInvites w1 @ r2" "length r2 + c1 = c'"
    "\<forall>row \<in> set r2. pi_partyId row = pt_id r \<and> pi_inviteeId row \<in> set us \<and> pi_status row = I_PENDING"
    using ih by blast
  have "c' + s' = length (u # us) + (c + s)" using ih o(1) by simp
  moreover have "\<exists>rows. partyInvites w' = partyInvites w @ rows \<and> length rows + c = c' \<and>
      (\<forall>row \<in> set rows. pi_partyId row = pt_id r \<and> pi_inviteeId row \<in> set (u # us) \<and> pi_status row = I_PENDING)"
    using r1 r2 by (intro exI [of _ "r1 @ r2"]) auto
  moreover have "u \<noteq> i \<longrightarrow> (pt_id r, u) \<in> inviteKey ` set (partyInvites w')"
    using r1(4) r2(1) by auto
  ultimately show ?case using ih o(3) by simp
qed

section \<open>Properties\<close>

text \<open>
  C6: the tables and Redis agree whatever happens: after any sequence of operations, the
  member set of a party in Redis is its set of active members, the party key of a user names
  the one party the user is active in, every such party is open, the index holds exactly the
  open parties, and no party has more active members than its \<open>maxMembers\<close>.
\<close>

theorem party_mirror_invariant:
  assumes "partyInv w" and "v = fold partyStep ops w"
  shows "partyInv v \<and>
    (\<forall>p u. u \<in> set (rd_members v p) \<longleftrightarrow> active (partyMembers v) p u) \<and>
    (\<forall>p u. rd_userParty v u = Some p \<longleftrightarrow> active (partyMembers v) p u) \<and>
    (\<forall>p u. active (partyMembers v) p u \<longrightarrow> openIn (parties v) p) \<and>
    (\<forall>p. p \<in> set (rd_activeParties v) \<longleftrightarrow> openIn (parties v) p) \<and>
    (\<forall>r \<in> set (parties v). activeCount (partyMembers v) (pt_id r) \<le> pt_maxMembers r)"
proof -
  have inv: "partyInv v" unfolding assms(2) using assms(1) by (rule party.run_inv)
  note i = inv [unfolded partyInv_def]
  show ?thesis using inv mirroredD(5-8) [OF i] mirrored_open [OF i] by blast
qed

definition sampleParties :: party_db where
  "sampleParties = core_db.extend sampleCore
     \<lparr>routes = [], parties = [], partyMembers = [], partyInvites = [], rd_members = (\<lambda>_. []),
      rd_activeParties = [], rd_userParty = (\<lambda>_. None), rd_zombie = (\<lambda>_. []), hasEmitter = True,
      emitted = []\<rparr>"

definition samplePartyDto :: createPartyDto where
  "samplePartyDto = \<lparr>cp_name = ''ride'', cp_routeId = None, cp_eventId = None, cp_isPrivate = False,
     cp_maxMembers = 3, cp_coLeaderIds = []\<rparr>"

text \<open>A party of \<open>a\<close> (its id is the first of the supply) that \<open>b\<close> has joined.\<close>

definition sampleRide :: party_db where
  "sampleRide = snd (joinParty ''b'' [] 20 (snd (createParty ''a'' samplePartyDto 10 sampleParties)))"

lemma sampleParties_inv: "partyInv sampleParties"
  by (simp add: partyInv_def sampleParties_def sampleCore_def core_db.extend_def mirrored_def active_def openIn_def)

lemma sampleRide_inv: "partyInv sampleRide"
  unfolding sampleRide_def
  by (intro joinParty_inv createParty_inv sampleParties_inv)
     (simp add: createPartySchema_def samplePartyDto_def)

theorem party_mirror_invariant_witness:
  "partyInv (fold partyStep [LeaveParty ''a'' [] LEFT 30, SweepZombies 40] sampleRide)"
  using party_mirror_invariant [OF sampleRide_inv refl] by blast

text \<open>
  C29: hand-over: when the leader leaves, some member who stays is online and no election of
  the party is under way, then the call names a new leader who is another, active, online
  member (the one the election rule picks), the party row and that member's role say so,
  and the election lock is free again.
\<close>

theorem leader_handover:
  assumes inv: "partyInv w" and act: "active (partyMembers w) p u"
    and r: "findParty p w = Some r" "pt_leaderId r = u"
    and online: "\<exists>m \<in> set (remainingOf u p w). pm_isOnline m"
    and free: "kvGet now (leaderLock p) (rd_keys w) = None"
  shows "\<exists>l. fst (leaveParty u p reason now w) = Inr (False, Some l) \<and> l \<noteq> u \<and>
    Some l = fst (pickNextLeader (handOverInput r (remainingOf u p w))) \<and>
    (\<exists>m \<in> set (partyMembers (snd (leaveParty u p reason now w))).
       memberKey m = (p, l) \<and> pm_leftAt m = None \<and> pm_isOnline m \<and> pm_role m = R_LEADER) \<and>
    findParty p (snd (leaveParty u p reason now w)) = Some (r\<lparr>pt_leaderId := l\<rparr>) \<and>
    kvGet now (leaderLock p) (rd_keys (snd (leaveParty u p reason now w))) = None"
proof -
  let ?d = "departed u p reason now w"
  have pid: "pt_id r = p" "r \<in> set (parties w)" using r(1) by (auto simp: findParty_def dest: findUnique_Some)
  obtain l reason' where pick: "pickNextLeader (handOverInput r (remainingOf u p w)) = (Some l, reason')"
  proof (cases "pickNextLeader (handOverInput r (remainingOf u p w))")
    case (Pair a b)
    moreover have "a \<noteq> None"
      using pick_None [of "handOverInput r (remainingOf u p w)"] online Pair
      by (auto simp: handOverInput_def filter_empty_conv)
    ultimately show ?thesis using that by blast
  qed
  obtain m where m: "m \<in> set (remainingOf u p w)" "pm_isOnline m" "pm_userId m = l"
    using pick_member [OF pick] by (auto simp: handOverInput_def)
  note row = remaining_rows [OF m(1)]
  have dep: "partyMembers ?d = updateMany (\<lambda>m. memberKey m = (p, u))
      (\<lambda>m. m\<lparr>pm_leftAt := Some now, pm_isOnline := False\<rparr>) (partyMembers w)"
    "parties ?d = parties w" "rd_keys ?d = rd_keys w"
    by (simp_all add: departed_def departMember_writes [OF act] del: prod.inject)
  have kept: "m \<in> set (partyMembers ?d)"
    unfolding dep set_updateMany using row by (intro image_eqI [of _ _ m]) auto
  have ne: "remainingOf u p w \<noteq> []" using m(1) by auto
  have known: "pt_id r \<in> pt_id ` set (parties ?d)" "(pt_id r, l) \<in> memberKey ` set (partyMembers ?d)"
    using pid dep kept row m(3) by (auto intro!: image_eqI [of _ _ m])
  obtain s where s: "handOver r (remainingOf u p w) now ?d = (Inr (False, Some l),
      (emitParty (LeaderChanged (pt_id r) l) (?d\<lparr>
      parties := updateMany (\<lambda>x. pt_id x = pt_id r) (\<lambda>x. x\<lparr>pt_leaderId := l\<rparr>) (parties ?d),
      partyMembers := updateMany (\<lambda>m. memberKey m = (pt_id r, l)) (\<lambda>m. m\<lparr>pm_role := R_LEADER\<rparr>)
        (partyMembers ?d)\<rparr>))\<lparr>rd_keys := s\<rparr>)" "kvGet now (leaderLock (pt_id r)) s = None"
    using handOver_elected [of r "remainingOf u p w" l now ?d] pick free known ne dep(3) pid(1) by auto
  have leave: "leaveParty u p reason now w = handOver r (remainingOf u p w) now ?d"
    using leaveParty_member [OF inv act r(1)] r(2) by simp
  have promoted: "m\<lparr>pm_role := R_LEADER\<rparr> \<in> set (updateMany (\<lambda>m. memberKey m = (pt_id r, l))
      (\<lambda>m. m\<lparr>pm_role := R_LEADER\<rparr>) (partyMembers ?d))"
    unfolding set_updateMany using kept row m(3) pid(1) by (intro image_eqI [of _ _ m]) auto
  have found: "findUnique pt_id p (updateMany (\<lambda>x. pt_id x = p) (\<lambda>x. x\<lparr>pt_leaderId := l\<rparr>) (parties w)) =
      Some (r\<lparr>pt_leaderId := l\<rparr>)"
    using r(1) pid by (simp add: findUnique_updateMany findParty_def)
  have "m\<lparr>pm_role := R_LEADER\<rparr> \<in> set (partyMembers (snd (leaveParty u p reason now w)))"
    unfolding leave s(1) using promoted by simp
  moreover have "memberKey (m\<lparr>pm_role := R_LEADER\<rparr>) = (p, l)" "pm_leftAt (m\<lparr>pm_role := R_LEADER\<rparr>) = None"
    "pm_isOnline (m\<lparr>pm_role := R_LEADER\<rparr>)" "pm_role (m\<lparr>pm_role := R_LEADER\<rparr>) = R_LEADER"
    using row m by simp_all
  moreover have "findParty p (snd (leaveParty u p reason now w)) = Some (r\<lparr>pt_leaderId := l\<rparr>)"
    unfolding leave s(1) using found pid dep(2) by (simp add: findParty_def)
  moreover have "kvGet now (leaderLock p) (rd_keys (snd (leaveParty u p reason now w))) = None"
    unfolding leave s(1) using s(2) pid by simp
  moreover have "fst (leaveParty u p reason now w) = Inr (False, Some l)" unfolding leave s(1) by simp
  moreover have "l \<noteq> u" using row m by simp
  moreover have "Some l = fst (pickNextLeader (handOverInput r (remainingOf u p w)))" using pick by simp
  ultimately show ?thesis
    by (intro exI [of _ l] conjI bexI [of _ "m\<lparr>pm_role := R_LEADER\<rparr>"])
qed

theorem leader_handover_witness:
  "\<exists>l. fst (leaveParty ''a'' [] LEFT 30 sampleRide) = Inr (False, Some l) \<and> l \<noteq> ''a''"
proof -
  have "active (partyMembers sampleRide) [] ''a''" "findParty [] sampleRide \<noteq> None"
    "pt_leaderId (the (findParty [] sampleRide)) = ''a''"
    "\<exists>m \<in> set (remainingOf ''a'' [] sampleRide). pm_isOnline m"
    "kvGet 30 (leaderLock []) (rd_keys sampleRide) = None"
    by code_simp+
  moreover obtain r where "findParty [] sampleRide = Some r" using calculation(2) by blast
  ultimately have "\<exists>l. fst (leaveParty ''a'' [] LEFT 30 sampleRide) = Inr (False, Some l) \<and> l \<noteq> ''a'' \<and>
      Some l = fst (pickNextLeader (handOverInput r (remainingOf ''a'' [] sampleRide))) \<and>
      (\<exists>m \<in> set (partyMembers (snd (leaveParty ''a'' [] LEFT 30 sampleRide))).
         memberKey m = ([], l) \<and> pm_leftAt m = None \<and> pm_isOnline m \<and> pm_role m = R_LEADER) \<and>
      findParty [] (snd (leaveParty ''a'' [] LEFT 30 sampleRide)) = Some (r\<lparr>pt_leaderId := l\<rparr>) \<and>
      kvGet 30 (leaderLock []) (rd_keys (snd (leaveParty ''a'' [] LEFT 30 sampleRide))) = None"
    by (intro leader_handover [OF sampleRide_inv]) simp_all
  then show ?thesis by (elim exE conjE) (intro exI conjI)
qed


text \<open>
  When the leader leaves members behind but none of them is online, or another instance
  holds the election lock, the call answers with a new leader (the longest-standing member
  left) that it writes nowhere: the party goes on with the departed user as its leader.
\<close>

theorem leader_lost:
  assumes inv: "partyInv w" and act: "active (partyMembers w) p u"
    and r: "findParty p w = Some r" "pt_leaderId r = u"
    and stay: "remainingOf u p w \<noteq> []"
    and stuck: "(\<forall>m \<in> set (remainingOf u p w). \<not> pm_isOnline m) \<or>
      kvGet now (leaderLock p) (rd_keys w) \<noteq> None"
  shows "(\<exists>f. fst (leaveParty u p reason now w) = Inr (False, Some f) \<and> f \<noteq> u \<and>
      active (partyMembers (snd (leaveParty u p reason now w))) p f) \<and>
    findParty p (snd (leaveParty u p reason now w)) = Some r \<and>
    \<not> active (partyMembers (snd (leaveParty u p reason now w))) p (pt_leaderId r)"
proof -
  let ?d = "departed u p reason now w"
  let ?f = "pm_userId (hd (sort_key pm_joinedAt (remainingOf u p w)))"
  have pid: "pt_id r = p" using r(1) by (auto simp: findParty_def dest: findUnique_Some)
  have dep: "parties ?d = parties w" "rd_keys ?d = rd_keys w"
    by (simp_all add: departed_def departMember_writes [OF act])
  have "fst (pickNextLeader (handOverInput r (remainingOf u p w))) = None \<or>
      kvGet now (leaderLock (pt_id r)) (rd_keys ?d) \<noteq> None"
    using stuck pid dep by (auto simp: pick_None handOverInput_def filter_empty_conv)
  then have leave: "leaveParty u p reason now w = (Inr (False, Some ?f), ?d)"
    using leaveParty_member [OF inv act r(1)] r(2) handOver_stuck [OF stay] by simp
  have "hd (sort_key pm_joinedAt (remainingOf u p w)) \<in> set (remainingOf u p w)"
    using hd_sort_key_min [OF stay] by blast
  note row = remaining_rows [OF this]
  then have "?f \<noteq> u" "active (partyMembers w) p ?f" by (auto simp: active_def)
  then have "active (partyMembers ?d) p ?f" by (simp add: departed_active [OF act])
  moreover have "\<not> active (partyMembers ?d) p u" by (simp add: departed_active [OF act])
  moreover have "findParty p ?d = Some r" using r(1) dep by (simp add: findParty_def)
  ultimately show ?thesis using \<open>?f \<noteq> u\<close> r(2) by (auto simp: leave)
qed

theorem leader_lost_witness:
  "findParty [] (snd (leaveParty ''a'' [] LEFT 30 (markOffline ''b'' [] 25 sampleRide))) \<noteq> None \<and>
   \<not> active (partyMembers (snd (leaveParty ''a'' [] LEFT 30 (markOffline ''b'' [] 25 sampleRide)))) [] ''a''"
proof -
  let ?w = "markOffline ''b'' [] 25 sampleRide"
  have inv: "partyInv ?w" by (rule markOffline_inv [OF sampleRide_inv])
  have act: "active (partyMembers ?w) [] ''a''" and f: "findParty [] ?w \<noteq> None"
    and l: "pt_leaderId (the (findParty [] ?w)) = ''a''" and ne: "remainingOf ''a'' [] ?w \<noteq> []"
    and off: "\<forall>m \<in> set (remainingOf ''a'' [] ?w). \<not> pm_isOnline m"
    by code_simp+
  obtain r where "findParty [] ?w = Some r" using f by blast
  then show ?thesis using leader_lost [OF inv act _ _ ne, of r 30 LEFT] off l by simp
qed

text \<open>
  The sweep removes exactly the stale: afterwards the active members of a party are those
  who were active and are not marked offline since a minute or more; a failing removal of
  one member stops none of the others.
\<close>

theorem sweep_exact:
  assumes "partyInv w"
  shows "active (partyMembers (sweepZombies now w)) p u \<longleftrightarrow>
    active (partyMembers w) p u \<and>
    \<not> (\<exists>since. (u, since) \<in> set (rd_zombie w p) \<and> 0 \<le> since \<and> since \<le> now - zombieOfflineSeconds * 1000)"
  using sweepZombies_active [OF assms, of now p u]
  by (force simp: staleIn_def zrangebyscore_def)

theorem sweep_exact_witness:
  "\<not> active (partyMembers (sweepZombies 60025 (markOffline ''b'' [] 25 sampleRide))) [] ''b''"
proof -
  have "(''b'', 25) \<in> set (rd_zombie (markOffline ''b'' [] 25 sampleRide) [])" by code_simp
  then show ?thesis
    using sweep_exact [OF markOffline_inv [OF sampleRide_inv], of 60025 "''b''" "[]" 25 "[]" "''b''"]
    unfolding zombieOfflineSeconds_def by fastforce
qed

text \<open>
  What a successful \<open>joinParty\<close> means: the party was open and had room, the user was in
  no other party, and is now active in it and mirrored in Redis; and a private party was
  entered on a pending invitation of that user, which is accepted by it.
\<close>

theorem join_admits:
  assumes inv: "partyInv w" and ok: "fst (joinParty u p now w) = Inr d"
  shows "openIn (parties w) p \<and> (\<forall>q. active (partyMembers w) q u \<longrightarrow> q = p) \<and>
    active (partyMembers (snd (joinParty u p now w))) p u \<and>
    u \<in> set (rd_members (snd (joinParty u p now w)) p) \<and>
    rd_userParty (snd (joinParty u p now w)) u = Some p \<and>
    (\<exists>r. findParty p w = Some r \<and> activeCount (partyMembers w) p < pt_maxMembers r \<and>
      (pt_isPrivate r \<longrightarrow>
        (\<exists>i. findUnique inviteKey (p, u) (partyInvites w) = Some i \<and> pi_status i = I_PENDING) \<and>
        (\<forall>i \<in> set (partyInvites (snd (joinParty u p now w))). inviteKey i = (p, u) \<longrightarrow> pi_status i \<noteq> I_PENDING)))"
proof -
  have inv': "partyInv (snd (joinParty u p now w))" using inv by (rule joinParty_inv)
  note i' = mirroredD [OF inv' [unfolded partyInv_def]]
  obtain r where r: "findParty p w = Some r" "pt_deletedAt r = None" "pt_status r \<noteq> P_ENDED"
      "activeCount (partyMembers w) p < pt_maxMembers r"
    and other: "findActivePartyForUser u w = None \<or> (\<exists>x. findActivePartyForUser u w = Some (p, x))"
    and adm: "joinParty u p now w = joinAdmitted u p r (filter (\<lambda>m. pm_leftAt m = None) (membersOf p w)) now w"
    using ok
    by (auto simp: joinParty_def Let_def throwHttp_def raise_def activeCount_membersOf split: option.splits if_splits)
  have ok': "fst (joinAdmitted u p r (filter (\<lambda>m. pm_leftAt m = None) (membersOf p w)) now w) = Inr d"
    using ok adm by simp
  obtain e w1 where w1: "partyInvites w1 = partyInvites w" and after: "snd (joinParty u p now w) =
      emitParty e ((if pt_isPrivate r then acceptInvite p u now w1 else w1)\<lparr>
        rd_members := (rd_members w1)(p := sadd u (rd_members w1 p)),
        rd_userParty := (rd_userParty w1)(u \<mapsto> p)\<rparr>)"
    using joinAdmitted_Inr(2) [OF ok'] unfolding adm by blast
  have invited: "pt_isPrivate r \<longrightarrow>
        (\<exists>i. findUnique inviteKey (p, u) (partyInvites w) = Some i \<and> pi_status i = I_PENDING) \<and>
        (\<forall>i \<in> set (partyInvites (snd (joinParty u p now w))). inviteKey i = (p, u) \<longrightarrow> pi_status i \<noteq> I_PENDING)"
    using joinAdmitted_Inr(1) [OF ok'] accepted_status [of _ p u now w1] unfolding after
    by (simp add: emitParty_def)
  have rd: "rd_userParty (snd (joinParty u p now w)) u = Some p" unfolding after by simp
  then have act: "active (partyMembers (snd (joinParty u p now w))) p u" using i'(7) by blast
  have "openIn (parties w) p" using r by (auto simp: openIn_def findParty_def dest: findUnique_Some)
  moreover have "\<forall>q. active (partyMembers w) q u \<longrightarrow> q = p"
    using other findActive_iff [OF inv] mirrored_one_party [OF inv [unfolded partyInv_def]] by blast
  moreover have "u \<in> set (rd_members (snd (joinParty u p now w)) p)" using act i'(6) by blast
  ultimately show ?thesis using act rd by (intro conjI exI [of _ r] r(1,4) invited) simp_all
qed

theorem join_admits_witness:
  "rd_userParty (snd (joinParty ''c'' [] 30 sampleRide)) ''c'' = Some []"
proof -
  have "isl (fst (joinParty ''c'' [] 30 sampleRide)) = False" by code_simp
  then obtain d where "fst (joinParty ''c'' [] 30 sampleRide) = Inr d" by (metis sumE isl_def)
  then show ?thesis using join_admits [OF sampleRide_inv] by blast
qed


text \<open>
  Invitations: only the leader or a co-leader of an open party succeeds; every invitee is
  counted as created or skipped; the table gains exactly one pending row per creation, all
  for this party and these invitees, and afterwards every invitee but the inviter has an
  invitation, none has two.
\<close>

theorem invite_correct:
  assumes "fst (invite i p us now w) = Inr (c, s)"
  shows "c + s = length us \<and>
    (\<exists>r. findParty p w = Some r \<and> pt_status r \<noteq> P_ENDED \<and> (i = pt_leaderId r \<or> i \<in> set (pt_coLeaderIds r))) \<and>
    (\<exists>rows. partyInvites (snd (invite i p us now w)) = partyInvites w @ rows \<and> length rows = c \<and>
      (\<forall>row \<in> set rows. pi_partyId row = p \<and> pi_inviteeId row \<in> set us \<and> pi_status row = I_PENDING)) \<and>
    (\<forall>u \<in> set us. u \<noteq> i \<longrightarrow> (p, u) \<in> inviteKey ` set (partyInvites (snd (invite i p us now w)))) \<and>
    (unique inviteKey (partyInvites w) \<longrightarrow> unique inviteKey (partyInvites (snd (invite i p us now w))))"
proof -
  obtain r where r: "findParty p w = Some r" "pt_status r \<noteq> P_ENDED"
      "i = pt_leaderId r \<or> i \<in> set (pt_coLeaderIds r)"
    and run: "invite i p us now w = for_each (inviteOne r i now) us (0, 0) w"
    using assms by (auto simp: invite_def throwHttp_def raise_def split: option.splits if_splits)
  have pid: "pt_id r = p" using r(1) by (auto simp: findParty_def dest: findUnique_Some)
  obtain w' where w': "for_each (inviteOne r i now) us (0, 0) w = (Inr (c, s), w')"
    using assms run by (metis prod.collapse)
  show ?thesis using inviteAll_Inr [OF w'] r unfolding run w' pid by auto
qed

theorem invite_correct_witness:
  "([], ''c'') \<in> inviteKey ` set (partyInvites (snd (invite ''a'' [] [''b'', ''c''] 30 sampleRide)))"
proof -
  have "fst (invite ''a'' [] [''b'', ''c''] 30 sampleRide) = Inr (2, 0)" by code_simp
  from invite_correct [OF this]
  have "\<forall>u \<in> set [''b'', ''c'']. u \<noteq> ''a'' \<longrightarrow>
     ([], u) \<in> inviteKey ` set (partyInvites (snd (invite ''a'' [] [''b'', ''c''] 30 sampleRide)))" by blast
  then show ?thesis by simp
qed

text \<open>
  Signals: of the signals a member sends within a minute from the first, exactly the
  first twelve are broadcast; of those a stranger sends, none. (The window is the one the
  first signal opens, when no earlier one is running.)
\<close>

theorem signal_rate_limit:
  assumes "counterGet t (rateKey ''party_signal'' u) (rd_counters w) = 0"
    and "\<And>t'. t' \<in> set ts \<Longrightarrow> t' < t + 60 * 1000"
  shows "signalsAllowed p u ty n (t # ts) w =
    (if u \<in> set (rd_members w p) then min 12 (length (t # ts)) else 0)"
  using rate.at_most_limit [OF assms]
  by (simp add: signalsAllowed_hits signalRatePerMinute_def del: signalsAllowed.simps)

theorem signal_rate_limit_witness:
  "signalsAllowed [] ''b'' ''REGROUP'' ''b'' (100 # replicate 20 200) sampleRide = 12"
proof -
  have c: "counterGet 100 (rateKey ''party_signal'' ''b'') (rd_counters sampleRide) = 0"
    and m: "''b'' \<in> set (rd_members sampleRide [])" by code_simp+
  have "t' < 100 + 60 * 1000" if "t' \<in> set (replicate 20 (200 :: int))" for t' using that by simp
  with signal_rate_limit [OF c, where ts = "replicate 20 200" and p = "[]" and ty = "''REGROUP''" and n = "''b''"] m
  show ?thesis by (simp del: signalsAllowed.simps)
qed

text \<open>
  Who has left an open party cannot come back: the row of the departed member stays, and
  \<open>joinParty\<close> fails on its key (the database's unique violation, no HTTP error).
\<close>

theorem rejoin_rejected:
  assumes inv: "partyInv w" and act: "active (partyMembers w) p u"
    and r: "findParty p w = Some r" "pt_leaderId r \<noteq> u" "\<not> pt_isPrivate r" and u: "userExists u w"
  shows "joinParty u p now' (snd (leaveParty u p reason now w)) =
    (Inl UniqueViolation, snd (leaveParty u p reason now w))"
proof -
  let ?d = "departed u p reason now w"
  have leave: "snd (leaveParty u p reason now w) = ?d"
    using leaveParty_member [OF inv act r(1)] r(2) by simp
  have inv': "partyInv ?d" unfolding departed_def using inv act by (rule departMember_inv)
  obtain r' where "findParty p w = Some r'" "pt_status r' \<noteq> P_ENDED" "pt_deletedAt r' = None" "pt_id r' = p"
    using active_open [OF inv act] by metis
  then have st: "pt_status r \<noteq> P_ENDED" "pt_deletedAt r = None" "pt_id r = p" using r(1) by simp_all
  have dep: "partyMembers ?d = updateMany (\<lambda>m. memberKey m = (p, u))
      (\<lambda>m. m\<lparr>pm_leftAt := Some now, pm_isOnline := False\<rparr>) (partyMembers w)"
    "parties ?d = parties w" "users ?d = users w"
    by (simp_all add: departed_def departMember_writes [OF act] del: prod.inject)
  obtain m where m: "m \<in> set (partyMembers w)" "memberKey m = (p, u)" "pm_leftAt m = None"
    using act by (auto simp: active_def)
  have uniq: "unique memberKey (partyMembers w)" using inv by (simp add: partyInv_def mirrored_def)
  have "int (activeCount (partyMembers ?d) p) = int (activeCount (partyMembers w) p) - 1"
    using countRows_update_key [of memberKey "partyMembers w" "(p, u)" m
        "\<lambda>m. pm_partyId m = p \<and> pm_leftAt m = None" "\<lambda>m. m\<lparr>pm_leftAt := Some now, pm_isOnline := False\<rparr>"]
      uniq findUnique_iff [OF uniq, of "(p, u)" m] m
    unfolding dep activeCount_def by simp
  moreover have "activeCount (partyMembers w) p \<le> pt_maxMembers r"
    using mirroredD(5) [OF inv [unfolded partyInv_def], of r] r(1) st(3)
    by (auto simp: findParty_def dest: findUnique_Some)
  ultimately have room: "activeCount (partyMembers ?d) p < pt_maxMembers r"
    using m countRows_pos [of m "partyMembers w" "\<lambda>m. pm_partyId m = p \<and> pm_leftAt m = None"]
    by (simp add: activeCount_def)
  have gone: "\<And>q. \<not> active (partyMembers ?d) q u"
    using mirrored_one_party [OF inv [unfolded partyInv_def] act] by (auto simp: departed_active [OF act])
  have found: "findParty p ?d = Some r" using r(1) dep(2) by (simp add: findParty_def)
  have key: "(p, u) \<in> memberKey ` set (partyMembers ?d)"
    unfolding dep set_updateMany using m
    by (intro image_eqI [of _ _ "m\<lparr>pm_leftAt := Some now, pm_isOnline := False\<rparr>"] image_eqI [of _ _ m]) simp_all
  have none: "find (\<lambda>m. pm_userId m = u) (filter (\<lambda>m. pm_leftAt m = None) (membersOf p ?d)) = None"
    using gone [of p] by (auto simp: find_None_iff membersOf_def active_def)
  have "createMember (newMember p u R_MEMBER now') ?d = (Inl UniqueViolation, ?d)"
    using u key found dep(3) by (simp add: createMember_def userExists_def findUser_def write_or_def createRow_def raise_def)
  then have "joinAdmitted u p r (filter (\<lambda>m. pm_leftAt m = None) (membersOf p ?d)) now' ?d = (Inl UniqueViolation, ?d)"
    using none r(3) by (simp add: joinAdmitted_def)
  then show ?thesis
    using findActive_iff(1) [OF inv', of u] gone room st found
    by (simp add: leave joinParty_def activeCount_membersOf)
qed

theorem rejoin_rejected_witness:
  "fst (joinParty ''b'' [] 40 (snd (leaveParty ''b'' [] LEFT 30 sampleRide))) = Inl UniqueViolation"
proof -
  have h: "active (partyMembers sampleRide) [] ''b''" "userExists ''b'' sampleRide" "findParty [] sampleRide \<noteq> None"
    "pt_leaderId (the (findParty [] sampleRide)) \<noteq> ''b''" "\<not> pt_isPrivate (the (findParty [] sampleRide))"
    by code_simp+
  then obtain r where "findParty [] sampleRide = Some r" by blast
  then show ?thesis using rejoin_rejected [OF sampleRide_inv h(1), of r 40 LEFT 30] h by simp
qed

end
