(* ===== verification/Text_Search.thy ===== *)
theory Text_Search
  imports Prelude
begin

text \<open>
  The text operations the services share: \<open>String.prototype.trim\<close>, \<open>toLowerCase\<close>, lists with
  commas, and the filter \<open>contains ... mode: insensitive\<close> on a column that may be null. The case folding
  is the database's: it is the parameter \<open>lower\<close> of every definition that uses it.
\<close>

definition isSpace :: "char \<Rightarrow> bool" where
  "isSpace c \<longleftrightarrow> of_char c \<in> {9, 10, 11, 12, 13, 32, 160 :: nat}"

definition trim :: "string \<Rightarrow> string" where
  "trim s = rev (dropWhile isSpace (rev (dropWhile isSpace s)))"

text \<open>\<open>String.prototype.toLowerCase\<close> on the 8-bit characters.\<close>

definition lowerChar :: "char \<Rightarrow> char" where
  "lowerChar c = (let n = of_char c :: nat in
     if 65 \<le> n \<and> n \<le> 90 \<or> 192 \<le> n \<and> n \<le> 222 \<and> n \<noteq> 215 then char_of (n + 32) else c)"

definition toLowerCase :: "string \<Rightarrow> string" where
  "toLowerCase s = map lowerChar s"

text \<open>A string that is present and not empty, as \<open>if (s)\<close> reads it.\<close>

definition truthy :: "string option \<Rightarrow> string option" where
  "truthy s = (case s of None \<Rightarrow> None | Some t \<Rightarrow> if t = [] then None else Some t)"

text \<open>\<open>split(',')\<close> and \<open>join(',')\<close>\<close>

fun splitComma :: "string \<Rightarrow> string list" where
  "splitComma [] = [[]]"
| "splitComma (c # cs) = (if c = CHR '','' then [] # splitComma cs
     else case splitComma cs of [] \<Rightarrow> [[c]] | p # ps \<Rightarrow> (c # p) # ps)"

fun joinComma :: "string list \<Rightarrow> string" where
  "joinComma [] = []"
| "joinComma [s] = s"
| "joinComma (s # t # ss) = s @ CHR '','' # joinComma (t # ss)"

fun containsText :: "string \<Rightarrow> string \<Rightarrow> bool" where
  "containsText q [] = (q = [])"
| "containsText q (c # cs) = (take (length q) (c # cs) = q \<or> containsText q cs)"

definition matchesText :: "(string \<Rightarrow> string) \<Rightarrow> string \<Rightarrow> string option \<Rightarrow> bool" where
  "matchesText lower q column =
     (case column of None \<Rightarrow> False | Some s \<Rightarrow> containsText (lower q) (lower s))"

lemma containsText_iff: "containsText q s \<longleftrightarrow> (\<exists>pre post. s = pre @ q @ post)"
proof (induction s)
  case Nil
  then show ?case by simp
next
  case (Cons c cs)
  show ?case
  proof
    assume "containsText q (c # cs)"
    then consider "take (length q) (c # cs) = q" | "containsText q cs" by auto
    then show "\<exists>pre post. c # cs = pre @ q @ post"
    proof cases
      case 1
      then have "c # cs = [] @ q @ drop (length q) (c # cs)" by (metis append_Nil append_take_drop_id)
      then show ?thesis by blast
    next
      case 2
      then obtain pre post where "cs = pre @ q @ post" using Cons.IH by blast
      then have "c # cs = (c # pre) @ q @ post" by simp
      then show ?thesis by blast
    qed
  next
    assume "\<exists>pre post. c # cs = pre @ q @ post"
    then obtain pre post where split: "c # cs = pre @ q @ post" by blast
    show "containsText q (c # cs)"
    proof (cases pre)
      case Nil
      with split have "take (length q) (c # cs) = q" by simp
      then show ?thesis by simp
    next
      case (Cons d pre')
      with split have "cs = pre' @ q @ post" by simp
      then show ?thesis using \<open>containsText q cs = _\<close> by auto
    qed
  qed
qed

section \<open>Lists with commas\<close>

definition commaFree :: "string \<Rightarrow> bool" where
  "commaFree s \<longleftrightarrow> CHR '','' \<notin> set s"

lemma splitComma_ne [simp]: "splitComma s \<noteq> []"
  by (induction s) (auto split: list.splits)

lemma splitComma_plain: "commaFree s \<Longrightarrow> splitComma s = [s]"
  by (induction s) (auto simp: commaFree_def)

lemma splitComma_append: "commaFree s \<Longrightarrow> splitComma (s @ CHR '','' # t) = s # splitComma t"
  by (induction s) (auto simp: commaFree_def)

lemma splitComma_join: "ss \<noteq> [] \<Longrightarrow> \<forall>s \<in> set ss. commaFree s \<Longrightarrow> splitComma (joinComma ss) = ss"
  by (induction ss rule: joinComma.induct) (auto simp: splitComma_plain splitComma_append)

end
