(* ===== verification/Community.thy ===== *)
theory Community
  imports Social Text_Search "HOL-Library.Product_Lexorder"
begin

text \<open>
  \<open>community.service.ts\<close>: communities with public, private and hidden visibility, roles,
  join requests, search and the nearby listing. \<open>membersCount\<close> caches the number of active
  members (an instance of \<open>counter_cache\<close>). PostGIS is the parameter \<open>near\<close> of the nearby
  listing: the rows of \<open>find_communities_within\<close>, or \<open>None\<close> when the query throws.
\<close>

section \<open>State\<close>

datatype communityVisibility = V_PUBLIC | V_PRIVATE | V_HIDDEN

datatype communityRole = C_OWNER | C_ADMIN | C_MODERATOR | C_MEMBER

datatype memberStatus = M_PENDING | M_ACTIVE | M_BANNED

text \<open>The order of the enum, which \<open>orderBy: { role: 'asc' }\<close> sorts by.\<close>

fun roleRank :: "communityRole \<Rightarrow> nat" where
  "roleRank C_OWNER = 0" | "roleRank C_ADMIN = 1" | "roleRank C_MODERATOR = 2" | "roleRank C_MEMBER = 3"

instantiation communityRole :: linorder
begin

definition less_eq_communityRole :: "communityRole \<Rightarrow> communityRole \<Rightarrow> bool" where
  "less_eq_communityRole a b \<longleftrightarrow> roleRank a \<le> roleRank b"

definition less_communityRole :: "communityRole \<Rightarrow> communityRole \<Rightarrow> bool" where
  "less_communityRole a b \<longleftrightarrow> roleRank a < roleRank b"

instance
proof
  fix a b :: communityRole
  show "a \<le> b \<Longrightarrow> b \<le> a \<Longrightarrow> a = b"
    by (cases a; cases b) (simp_all add: less_eq_communityRole_def)
qed (auto simp: less_eq_communityRole_def less_communityRole_def)

end

record community =
  cm_id :: uid
  cm_name :: string
  cm_description :: "string option"
  cm_avatarUrl :: "string option"
  cm_coverImageUrl :: "string option"
  cm_visibility :: communityVisibility
  cm_region :: "string option"
  cm_tags :: "string list"
  cm_rules :: "string option"
  cm_ownerId :: uid
  cm_latitude :: "rat option"
  cm_longitude :: "rat option"
  cm_membersCount :: int
  cm_createdAt :: time
  cm_deletedAt :: "time option"

record communityMember =
  mb_communityId :: uid
  mb_userId :: uid
  mb_role :: communityRole
  mb_status :: memberStatus
  mb_joinedAt :: time

record community_db = core_db +
  communities :: "community list"
  communityMembers :: "communityMember list"

abbreviation membershipKey :: "communityMember \<Rightarrow> uid \<times> uid" where
  "membershipKey m \<equiv> (mb_communityId m, mb_userId m)"

section \<open>Results\<close>

record communitySummary =
  sm_id :: uid
  sm_name :: string
  sm_description :: "string option"
  sm_avatarUrl :: "string option"
  sm_coverImageUrl :: "string option"
  sm_visibility :: communityVisibility
  sm_region :: "string option"
  sm_tags :: "string list"
  sm_ownerId :: uid
  sm_membersCount :: int
  sm_latitude :: "rat option"
  sm_longitude :: "rat option"
  sm_createdAt :: time

record communityDetail =
  cd_summary :: communitySummary
  cd_rules :: "string option"
  cd_viewerRole :: "communityRole option"
  cd_viewerStatus :: "memberStatus option"

definition communityToSummary :: "community \<Rightarrow> communitySummary" where
  "communityToSummary c =
     \<lparr>sm_id = cm_id c, sm_name = cm_name c, sm_description = cm_description c,
      sm_avatarUrl = cm_avatarUrl c, sm_coverImageUrl = cm_coverImageUrl c,
      sm_visibility = cm_visibility c, sm_region = cm_region c, sm_tags = cm_tags c,
      sm_ownerId = cm_ownerId c, sm_membersCount = cm_membersCount c,
      sm_latitude = cm_latitude c, sm_longitude = cm_longitude c, sm_createdAt = cm_createdAt c\<rparr>"

definition communityToDetail ::
  "community \<Rightarrow> communityRole option \<Rightarrow> memberStatus option \<Rightarrow> communityDetail" where
  "communityToDetail c viewerRole viewerStatus =
     \<lparr>cd_summary = communityToSummary c, cd_rules = cm_rules c, cd_viewerRole = viewerRole,
      cd_viewerStatus = viewerStatus\<rparr>"

section \<open>Helpers\<close>

definition getMembership :: "uid \<Rightarrow> uid \<Rightarrow> 'a community_db_scheme \<Rightarrow> communityMember option" where
  "getMembership communityId userId w = findUnique membershipKey (communityId, userId) (communityMembers w)"

definition findLiveCommunity :: "uid \<Rightarrow> 'a community_db_scheme \<Rightarrow> community option" where
  "findLiveCommunity i w = find (\<lambda>c. cm_id c = i \<and> cm_deletedAt c = None) (communities w)"

definition requireRole ::
  "uid \<Rightarrow> uid \<Rightarrow> communityRole list \<Rightarrow> 'a community_db_scheme \<Rightarrow>
   (communityMember, 'a community_db_scheme) outcome" where
  "requireRole communityId userId allowed w =
     (case getMembership communityId userId w of
        None \<Rightarrow> throwHttp Forbidden ''Insufficient community privileges'' FORBIDDEN w
      | Some m \<Rightarrow>
          if mb_status m \<noteq> M_ACTIVE \<or> mb_role m \<notin> set allowed
          then throwHttp Forbidden ''Insufficient community privileges'' FORBIDDEN w
          else ret m w)"

definition assertViewableCommunity ::
  "uid \<Rightarrow> uid \<Rightarrow> 'a community_db_scheme \<Rightarrow> (unit, 'a community_db_scheme) outcome" where
  "assertViewableCommunity communityId userId w =
     (case findLiveCommunity communityId w of
        None \<Rightarrow> throwHttp NotFound ''Community not found'' NOT_FOUND w
      | Some c \<Rightarrow>
          if cm_visibility c = V_HIDDEN \<and>
             (case getMembership communityId userId w of
                None \<Rightarrow> True | Some m \<Rightarrow> mb_status m \<noteq> M_ACTIVE)
          then throwHttp NotFound ''Community not found'' NOT_FOUND w
          else ret () w)"

definition addMembers :: "int \<Rightarrow> community \<Rightarrow> community" where
  "addMembers n c = c\<lparr>cm_membersCount := cm_membersCount c + n\<rparr>"

definition updateCommunityRow ::
  "uid \<Rightarrow> (community \<Rightarrow> community) \<Rightarrow> 'a community_db_scheme \<Rightarrow> (unit, 'a community_db_scheme) outcome" where
  "updateCommunityRow i f w =
     write_or RecordNotFound (updateRow cm_id i f (communities w)) (\<lambda>t. w\<lparr>communities := t\<rparr>) w"

definition updateMembership ::
  "uid \<times> uid \<Rightarrow> (communityMember \<Rightarrow> communityMember) \<Rightarrow> 'a community_db_scheme \<Rightarrow>
   (unit, 'a community_db_scheme) outcome" where
  "updateMembership k f w =
     write_or RecordNotFound (updateRow membershipKey k f (communityMembers w))
       (\<lambda>t. w\<lparr>communityMembers := t\<rparr>) w"

definition createMembership ::
  "communityMember \<Rightarrow> 'a community_db_scheme \<Rightarrow> (unit, 'a community_db_scheme) outcome" where
  "createMembership m w =
     (if mb_communityId m \<notin> cm_id ` set (communities w) then raise ForeignKeyViolation w
      else write_or UniqueViolation (createRow membershipKey m (communityMembers w))
        (\<lambda>t. w\<lparr>communityMembers := t\<rparr>) w)"

definition deleteMembership ::
  "uid \<times> uid \<Rightarrow> 'a community_db_scheme \<Rightarrow> (unit, 'a community_db_scheme) outcome" where
  "deleteMembership k w =
     write_or RecordNotFound (deleteRow membershipKey k (communityMembers w))
       (\<lambda>t. w\<lparr>communityMembers := t\<rparr>) w"

section \<open>Creating and editing\<close>

record createCommunityDto =
  ccd_name :: string
  ccd_description :: "string option"
  ccd_avatarUrl :: "string option"
  ccd_coverImageUrl :: "string option"
  ccd_visibility :: communityVisibility
  ccd_region :: "string option"
  ccd_tags :: "string list"
  ccd_rules :: "string option"
  ccd_latitude :: "rat option"
  ccd_longitude :: "rat option"

definition newCommunity :: "uid \<Rightarrow> uid \<Rightarrow> createCommunityDto \<Rightarrow> time \<Rightarrow> community" where
  "newCommunity i ownerId dto now =
     \<lparr>cm_id = i, cm_name = ccd_name dto, cm_description = ccd_description dto,
      cm_avatarUrl = ccd_avatarUrl dto, cm_coverImageUrl = ccd_coverImageUrl dto,
      cm_visibility = ccd_visibility dto, cm_region = ccd_region dto, cm_tags = ccd_tags dto,
      cm_rules = ccd_rules dto, cm_ownerId = ownerId, cm_latitude = ccd_latitude dto,
      cm_longitude = ccd_longitude dto, cm_membersCount = 1, cm_createdAt = now,
      cm_deletedAt = None\<rparr>"

definition createCommunity ::
  "uid \<Rightarrow> createCommunityDto \<Rightarrow> time \<Rightarrow> 'a community_db_scheme \<Rightarrow>
   (communityDetail, 'a community_db_scheme) outcome" where
  "createCommunity ownerId dto now w =
     and_then
       (transaction
          (\<lambda>w. let created = newCommunity (newUuid w) ownerId dto now in
             and_then
               (write_or UniqueViolation (createRow cm_id created (communities w))
                  (\<lambda>t. (takeUuid w)\<lparr>communities := t\<rparr>) w)
               (\<lambda>_ w1. and_then
                  (createMembership \<lparr>mb_communityId = cm_id created, mb_userId = ownerId,
                     mb_role = C_OWNER, mb_status = M_ACTIVE, mb_joinedAt = now\<rparr> w1)
                  (\<lambda>_ w2. ret created w2))) w)
       (\<lambda>c w3. ret (communityToDetail c (Some C_OWNER) (Some M_ACTIVE)) w3)"

text \<open>\<open>UpdateCommunityDto\<close>: every field of the creation body, optional.\<close>

record updateCommunityDto =
  ucd_name :: "string option"
  ucd_description :: "string option"
  ucd_avatarUrl :: "string option"
  ucd_coverImageUrl :: "string option"
  ucd_visibility :: "communityVisibility option"
  ucd_region :: "string option"
  ucd_tags :: "string list option"
  ucd_rules :: "string option"
  ucd_latitude :: "rat option"
  ucd_longitude :: "rat option"

definition overrideNull :: "'a option \<Rightarrow> 'a option \<Rightarrow> 'a option" where
  "overrideNull old new = (case new of None \<Rightarrow> old | Some x \<Rightarrow> Some x)"

definition applyCommunityUpdate :: "updateCommunityDto \<Rightarrow> community \<Rightarrow> community" where
  "applyCommunityUpdate dto c =
     c\<lparr>cm_name := override (cm_name c) (ucd_name dto),
       cm_description := overrideNull (cm_description c) (ucd_description dto),
       cm_avatarUrl := overrideNull (cm_avatarUrl c) (ucd_avatarUrl dto),
       cm_coverImageUrl := overrideNull (cm_coverImageUrl c) (ucd_coverImageUrl dto),
       cm_visibility := override (cm_visibility c) (ucd_visibility dto),
       cm_region := overrideNull (cm_region c) (ucd_region dto),
       cm_tags := override (cm_tags c) (ucd_tags dto),
       cm_rules := overrideNull (cm_rules c) (ucd_rules dto),
       cm_latitude := overrideNull (cm_latitude c) (ucd_latitude dto),
       cm_longitude := overrideNull (cm_longitude c) (ucd_longitude dto)\<rparr>"

definition updateCommunity ::
  "uid \<Rightarrow> uid \<Rightarrow> updateCommunityDto \<Rightarrow> 'a community_db_scheme \<Rightarrow>
   (communityDetail, 'a community_db_scheme) outcome" where
  "updateCommunity userId communityId dto w =
     and_then (requireRole communityId userId [C_OWNER, C_ADMIN] w)
       (\<lambda>_ w. and_then (updateCommunityRow communityId (applyCommunityUpdate dto) w)
          (\<lambda>_ w1. case findUnique cm_id communityId (communities w1) of
             None \<Rightarrow> raise RecordNotFound w1
           | Some updated \<Rightarrow>
               let membership = getMembership communityId userId w1
               in ret (communityToDetail updated (map_option mb_role membership)
                         (map_option mb_status membership)) w1))"

section \<open>Reading\<close>

definition getCommunityDetail ::
  "uid \<Rightarrow> uid option \<Rightarrow> 'a community_db_scheme \<Rightarrow> (communityDetail, 'a community_db_scheme) outcome" where
  "getCommunityDetail communityId viewerId w =
     (case findLiveCommunity communityId w of
        None \<Rightarrow> throwHttp NotFound ''Community not found'' NOT_FOUND w
      | Some c \<Rightarrow>
          let membership = Option.bind viewerId (\<lambda>v. getMembership communityId v w)
          in if cm_visibility c = V_HIDDEN \<and>
                (case membership of None \<Rightarrow> True | Some m \<Rightarrow> mb_status m \<noteq> M_ACTIVE)
             then throwHttp NotFound ''Community not found'' NOT_FOUND w
             else ret (communityToDetail c (map_option mb_role membership)
                         (map_option mb_status membership)) w)"

definition listMyCommunities :: "uid \<Rightarrow> 'a community_db_scheme \<Rightarrow> communitySummary list" where
  "listMyCommunities userId w =
     (let memberships = rev (sort_key mb_joinedAt
            (filter (\<lambda>m. mb_userId m = userId \<and> mb_status m = M_ACTIVE) (communityMembers w)));
          rows = List.map_filter (\<lambda>m. findUnique cm_id (mb_communityId m) (communities w)) memberships
      in map communityToSummary (filter (\<lambda>c. cm_deletedAt c = None) rows))"

record communityMemberDto =
  mdt_userId :: uid
  mdt_username :: string
  mdt_avatarUrl :: "string option"
  mdt_role :: communityRole
  mdt_status :: memberStatus
  mdt_joinedAt :: time

definition communityMemberDtoOf :: "'a core_db_scheme \<Rightarrow> communityMember \<Rightarrow> communityMemberDto option" where
  "communityMemberDtoOf w m =
     map_option (\<lambda>u. \<lparr>mdt_userId = mb_userId m, mdt_username = u_username u,
         mdt_avatarUrl = u_avatarUrl u, mdt_role = mb_role m, mdt_status = mb_status m,
         mdt_joinedAt = mb_joinedAt m\<rparr>) (findUser (mb_userId m) w)"

definition listCommunityMembers ::
  "uid \<Rightarrow> uid \<Rightarrow> 'a community_db_scheme \<Rightarrow> (communityMemberDto list, 'a community_db_scheme) outcome" where
  "listCommunityMembers communityId viewerId w =
     and_then (assertViewableCommunity communityId viewerId w)
       (\<lambda>_ w. ret (List.map_filter (communityMemberDtoOf w)
          (sort_key (\<lambda>m. (mb_role m, mb_joinedAt m))
             (filter (\<lambda>m. mb_communityId m = communityId \<and> mb_status m = M_ACTIVE)
                (communityMembers w)))) w)"

definition listPendingJoinRequests ::
  "uid \<Rightarrow> uid \<Rightarrow> 'a community_db_scheme \<Rightarrow> (communityMemberDto list, 'a community_db_scheme) outcome" where
  "listPendingJoinRequests actorUserId communityId w =
     and_then (requireRole communityId actorUserId [C_OWNER, C_ADMIN] w)
       (\<lambda>_ w. ret (List.map_filter (communityMemberDtoOf w)
          (sort_key mb_joinedAt
             (filter (\<lambda>m. mb_communityId m = communityId \<and> mb_status m = M_PENDING)
                (communityMembers w)))) w)"


section \<open>Membership\<close>

definition joinCommunity ::
  "uid \<Rightarrow> uid \<Rightarrow> time \<Rightarrow> 'a community_db_scheme \<Rightarrow>
   (communityDetail \<times> memberStatus, 'a community_db_scheme) outcome" where
  "joinCommunity userId communityId now w =
     (case findLiveCommunity communityId w of
        None \<Rightarrow> throwHttp NotFound ''Community not found'' NOT_FOUND w
      | Some c \<Rightarrow>
          let existing = getMembership communityId userId w;
              existingStatus = map_option mb_status existing;
              nextStatus = (if cm_visibility c = V_PUBLIC then M_ACTIVE else M_PENDING)
          in if existingStatus = Some M_ACTIVE
             then ret (communityToDetail c (map_option mb_role existing) existingStatus, M_ACTIVE) w
             else if existingStatus = Some M_BANNED
             then throwHttp Forbidden ''User is banned from this community'' FORBIDDEN w
             else and_then
               (transaction
                  (\<lambda>w. and_then
                     (if existing \<noteq> None
                      then updateMembership (communityId, userId)
                             (\<lambda>m. m\<lparr>mb_status := nextStatus, mb_joinedAt := now\<rparr>) w
                      else createMembership \<lparr>mb_communityId = communityId, mb_userId = userId,
                             mb_role = C_MEMBER, mb_status = nextStatus, mb_joinedAt = now\<rparr> w)
                     (\<lambda>_ w1. if nextStatus = M_ACTIVE then updateCommunityRow communityId (addMembers 1) w1
                             else ret () w1)) w)
               (\<lambda>_ w2. ret (communityToDetail c (Some C_MEMBER) (Some nextStatus), nextStatus) w2))"

datatype joinResponse = RESPONSE_ACTIVE | RESPONSE_REJECTED

definition respondJoinRequest ::
  "uid \<Rightarrow> uid \<Rightarrow> uid \<Rightarrow> bool \<Rightarrow> time \<Rightarrow> 'a community_db_scheme \<Rightarrow>
   (joinResponse, 'a community_db_scheme) outcome" where
  "respondJoinRequest actorUserId communityId userId accept now w =
     and_then (requireRole communityId actorUserId [C_OWNER, C_ADMIN] w)
       (\<lambda>_ w.
          if map_option mb_status (getMembership communityId userId w) \<noteq> Some M_PENDING
          then throwHttp BadRequest ''No pending request found'' VALIDATION_FAILED w
          else if accept
          then and_then
            (transaction
               (\<lambda>w. and_then (updateMembership (communityId, userId)
                    (\<lambda>m. m\<lparr>mb_status := M_ACTIVE, mb_joinedAt := now\<rparr>) w)
                  (\<lambda>_ w1. updateCommunityRow communityId (addMembers 1) w1)) w)
            (\<lambda>_ w2. ret RESPONSE_ACTIVE w2)
          else and_then (deleteMembership (communityId, userId) w) (\<lambda>_ w1. ret RESPONSE_REJECTED w1))"

definition leaveCommunity ::
  "uid \<Rightarrow> uid \<Rightarrow> 'a community_db_scheme \<Rightarrow> (unit, 'a community_db_scheme) outcome" where
  "leaveCommunity userId communityId w =
     (case getMembership communityId userId w of
        None \<Rightarrow> ret () w
      | Some membership \<Rightarrow>
          if mb_status membership \<noteq> M_ACTIVE then ret () w
          else if mb_role membership = C_OWNER
          then throwHttp Forbidden ''Owner cannot leave without transferring ownership'' FORBIDDEN w
          else transaction
            (\<lambda>w. and_then (deleteMembership (communityId, userId) w)
               (\<lambda>_ w1. updateCommunityRow communityId (addMembers (-1)) w1)) w)"

definition updateMemberRole ::
  "uid \<Rightarrow> uid \<Rightarrow> uid \<Rightarrow> communityRole \<Rightarrow> 'a community_db_scheme \<Rightarrow>
   (unit, 'a community_db_scheme) outcome" where
  "updateMemberRole actorUserId communityId userId role w =
     and_then (requireRole communityId actorUserId [C_OWNER] w)
       (\<lambda>_ w.
          if role = C_OWNER
          then throwHttp BadRequest ''Use transferOwnership to assign OWNER role'' VALIDATION_FAILED w
          else if map_option mb_status (getMembership communityId userId w) \<noteq> Some M_ACTIVE
          then throwHttp NotFound ''Member not found'' NOT_FOUND w
          else updateMembership (communityId, userId) (\<lambda>m. m\<lparr>mb_role := role\<rparr>) w)"

section \<open>Search and nearby\<close>

definition searchRows :: "(string \<Rightarrow> string) \<Rightarrow> string \<Rightarrow> 'a community_db_scheme \<Rightarrow> community list" where
  "searchRows lower q w =
     filter (\<lambda>c. cm_deletedAt c = None \<and> cm_visibility c \<in> {V_PUBLIC, V_PRIVATE} \<and>
         (matchesText lower (trim q) (Some (cm_name c)) \<or> matchesText lower (trim q) (cm_description c)))
       (communities w)"

definition searchCommunities ::
  "(string \<Rightarrow> string) \<Rightarrow> string \<Rightarrow> uid option \<Rightarrow> nat \<Rightarrow> 'a community_db_scheme \<Rightarrow>
   communitySummary list \<times> uid option" where
  "searchCommunities lower q cursor limit w =
     (let (page, nextCursor) = keysetPage cm_id cursor limit (searchRows lower q w)
      in (map communityToSummary page, nextCursor))"

record nearbyQuery =
  nq_lat :: rat
  nq_lng :: rat
  nq_radius :: rat
  nq_limit :: nat

text \<open>\<open>.sort((a, b) => (a.distance ?? 0) - (b.distance ?? 0))\<close>\<close>

definition sortByDistance :: "('x \<times> rat option) list \<Rightarrow> ('x \<times> rat option) list" where
  "sortByDistance xs = sort_key (\<lambda>x. case snd x of None \<Rightarrow> 0 | Some d \<Rightarrow> d) xs"

definition listNearbyCommunities ::
  "(nearbyQuery \<Rightarrow> (uid \<times> rat) list option) \<Rightarrow> nearbyQuery \<Rightarrow> 'a community_db_scheme \<Rightarrow>
   (communitySummary \<times> rat option) list" where
  "listNearbyCommunities near dto w =
     (let ids = (case near dto of None \<Rightarrow> [] | Some rows \<Rightarrow> take (nq_limit dto) rows)
      in if ids = []
         then map (\<lambda>c. (communityToSummary c, None))
                (take (nq_limit dto) (rev (sort_key cm_membersCount
                   (filter (\<lambda>c. cm_deletedAt c = None \<and> cm_visibility c = V_PUBLIC) (communities w)))))
         else sortByDistance
                (map (\<lambda>c. (communityToSummary c, map_of (rev ids) (cm_id c)))
                   (filter (\<lambda>c. cm_id c \<in> fst ` set ids \<and> cm_deletedAt c = None) (communities w))))"

section \<open>The operations as steps\<close>

datatype community_op =
    CreateCommunity uid createCommunityDto time
  | UpdateCommunity uid uid updateCommunityDto
  | JoinCommunity uid uid time
  | RespondJoin uid uid uid bool time
  | LeaveCommunity uid uid
  | UpdateMemberRole uid uid uid communityRole

fun communityStep :: "community_op \<Rightarrow> 'a community_db_scheme \<Rightarrow> 'a community_db_scheme" where
  "communityStep (CreateCommunity u dto now) w = snd (createCommunity u dto now w)"
| "communityStep (UpdateCommunity u c dto) w = snd (updateCommunity u c dto w)"
| "communityStep (JoinCommunity u c now) w = snd (joinCommunity u c now w)"
| "communityStep (RespondJoin a c u accept now) w = snd (respondJoinRequest a c u accept now w)"
| "communityStep (LeaveCommunity u c) w = snd (leaveCommunity u c w)"
| "communityStep (UpdateMemberRole a c u r) w = snd (updateMemberRole a c u r w)"

section \<open>What one operation writes\<close>

definition communityWf :: "'a community_db_scheme \<Rightarrow> bool" where
  "communityWf w \<longleftrightarrow> unique cm_id (communities w) \<and> unique membershipKey (communityMembers w) \<and>
     mb_communityId ` set (communityMembers w) \<subseteq> cm_id ` set (communities w)"

definition membersColumn :: "'a community_db_scheme \<Rightarrow> uid \<Rightarrow> int option" where
  "membersColumn w k = map_option cm_membersCount (findUnique cm_id k (communities w))"

definition membersOfCommunity :: "'a community_db_scheme \<Rightarrow> uid \<Rightarrow> nat" where
  "membersOfCommunity w k = countRows (\<lambda>m. mb_communityId m = k \<and> mb_status m = M_ACTIVE) (communityMembers w)"

text \<open>
  The four shapes of a write: nothing, a new community with its owner, an edit of one
  community row that keeps its count, or one membership row written together with the count.
\<close>

definition membershipWrite ::
  "uid \<Rightarrow> int \<Rightarrow> communityMember list \<Rightarrow> 'a community_db_scheme \<Rightarrow> 'a community_db_scheme" where
  "membershipWrite c d ms w =
     w\<lparr>communityMembers := ms,
       communities := (if d = 0 then communities w
                       else updateMany (\<lambda>r. cm_id r = c) (addMembers d) (communities w))\<rparr>"

lemma updateCommunityRow_cases:
  "updateCommunityRow i f w =
     (if i \<in> cm_id ` set (communities w)
      then (Inr (), w\<lparr>communities := updateMany (\<lambda>c. cm_id c = i) f (communities w)\<rparr>)
      else (Inl RecordNotFound, w))"
  by (simp add: updateCommunityRow_def write_or_def updateRow_def raise_def ret_def)

lemma updateMembership_cases:
  "updateMembership k f w =
     (if k \<in> membershipKey ` set (communityMembers w)
      then (Inr (), w\<lparr>communityMembers := updateMany (\<lambda>m. membershipKey m = k) f (communityMembers w)\<rparr>)
      else (Inl RecordNotFound, w))"
  by (simp add: updateMembership_def write_or_def updateRow_def raise_def ret_def)

lemma deleteMembership_cases:
  "deleteMembership k w =
     (if k \<in> membershipKey ` set (communityMembers w)
      then (Inr (), w\<lparr>communityMembers := deleteMany (\<lambda>m. membershipKey m = k) (communityMembers w)\<rparr>)
      else (Inl RecordNotFound, w))"
  by (simp add: deleteMembership_def write_or_def deleteRow_def raise_def ret_def)

lemma createMembership_cases:
  "createMembership m w =
     (if mb_communityId m \<notin> cm_id ` set (communities w) then (Inl ForeignKeyViolation, w)
      else if membershipKey m \<in> membershipKey ` set (communityMembers w) then (Inl UniqueViolation, w)
      else (Inr (), w\<lparr>communityMembers := communityMembers w @ [m]\<rparr>))"
  by (simp add: createMembership_def write_or_def createRow_def raise_def ret_def)


text \<open>One membership row written, and the count of its community with it.\<close>

abbreviation activeMembers :: "uid \<Rightarrow> int \<Rightarrow> communityMember list \<Rightarrow> communityMember list \<Rightarrow> bool" where
  "activeMembers \<equiv> counted mb_communityId (\<lambda>m. mb_status m = M_ACTIVE)"

definition membershipEffect :: "'a community_db_scheme \<Rightarrow> 'a community_db_scheme \<Rightarrow> bool" where
  "membershipEffect w w' \<longleftrightarrow>
     (\<exists>c d ms'. w' = membershipWrite c d ms' w \<and> activeMembers c d (communityMembers w) ms' \<and>
        unique membershipKey ms' \<and> mb_communityId ` set ms' \<subseteq> cm_id ` set (communities w))"

lemma membershipEffectI:
  assumes "w' = membershipWrite c d ms' w" and "activeMembers c d (communityMembers w) ms'"
    and "unique membershipKey ms'" and "mb_communityId ` set ms' \<subseteq> cm_id ` set (communities w)"
  shows "membershipEffect w w'"
  using assms unfolding membershipEffect_def by blast

lemma effect_update:
  assumes "communityWf w" and "getMembership c u w = Some m" and "\<And>r. membershipKey (f r) = membershipKey r"
    and "d = (if mb_status (f m) = M_ACTIVE then 1 else 0) - (if mb_status m = M_ACTIVE then 1 else 0)"
    and "w' = membershipWrite c d (updateMany (\<lambda>r. membershipKey r = (c, u)) f (communityMembers w)) w"
  shows "membershipEffect w w'"
proof (rule membershipEffectI [OF assms(5)])
  have u: "unique membershipKey (communityMembers w)" using assms(1) by (simp add: communityWf_def)
  have m: "findUnique membershipKey (c, u) (communityMembers w) = Some m" "mb_communityId m = c"
    using assms(2) findUnique_Some by (fastforce simp: getMembership_def)+
  have fm: "mb_communityId (f m) = mb_communityId m" using assms(3) [of m] by simp
  show "activeMembers c d (communityMembers w)
      (updateMany (\<lambda>r. membershipKey r = (c, u)) f (communityMembers w))"
    by (rule counted_update [OF u m(1)]) (use m(2) assms(4) fm in simp_all)
  show "unique membershipKey (updateMany (\<lambda>r. membershipKey r = (c, u)) f (communityMembers w))"
    using u assms(3) by (simp only: map_updateMany)
  have "mb_communityId (f r) = mb_communityId r" for r using assms(3) [of r] by simp
  then show "mb_communityId ` set (updateMany (\<lambda>r. membershipKey r = (c, u)) f (communityMembers w))
      \<subseteq> cm_id ` set (communities w)"
    using assms(1) by (simp add: keys_updateMany communityWf_def)
qed

lemma effect_delete:
  assumes "communityWf w" and "getMembership c u w = Some m"
    and "d = - (if mb_status m = M_ACTIVE then 1 else 0)"
    and "w' = membershipWrite c d (deleteMany (\<lambda>r. membershipKey r = (c, u)) (communityMembers w)) w"
  shows "membershipEffect w w'"
proof (rule membershipEffectI [OF assms(4)])
  have u: "unique membershipKey (communityMembers w)" using assms(1) by (simp add: communityWf_def)
  have m: "findUnique membershipKey (c, u) (communityMembers w) = Some m" "mb_communityId m = c"
    using assms(2) findUnique_Some by (fastforce simp: getMembership_def)+
  show "activeMembers c d (communityMembers w) (deleteMany (\<lambda>r. membershipKey r = (c, u)) (communityMembers w))"
    by (rule counted_delete [OF u m(1)]) (use m(2) assms(3) in simp_all)
  show "unique membershipKey (deleteMany (\<lambda>r. membershipKey r = (c, u)) (communityMembers w))"
    using u by (rule unique_deleteMany)
  show "mb_communityId ` set (deleteMany (\<lambda>r. membershipKey r = (c, u)) (communityMembers w))
      \<subseteq> cm_id ` set (communities w)"
    using assms(1) by (auto simp: communityWf_def)
qed

lemma effect_create:
  assumes "communityWf w" and "getMembership (mb_communityId m) (mb_userId m) w = None"
    and "mb_communityId m \<in> cm_id ` set (communities w)" and "d = (if mb_status m = M_ACTIVE then 1 else 0)"
    and "w' = membershipWrite (mb_communityId m) d (communityMembers w @ [m]) w"
  shows "membershipEffect w w'"
  by (rule membershipEffectI [OF assms(5)])
     (use assms(1-4) in \<open>auto simp: counted_def communityWf_def getMembership_def findUnique_None\<close>)

lemma requireRole_cases:
  "requireRole c u allowed w =
     (case getMembership c u w of
        None \<Rightarrow> (Inl (Http Forbidden ''Insufficient community privileges'' (Some FORBIDDEN) []), w)
      | Some m \<Rightarrow> if mb_status m \<noteq> M_ACTIVE \<or> mb_role m \<notin> set allowed
                  then (Inl (Http Forbidden ''Insufficient community privileges'' (Some FORBIDDEN) []), w)
                  else (Inr m, w))"
  by (simp add: requireRole_def throwHttp_def raise_def ret_def split: option.split)

lemma membership_in_table:
  "getMembership c u w = Some m \<Longrightarrow> (c, u) \<in> membershipKey ` set (communityMembers w)"
  by (auto simp: getMembership_def dest!: findUnique_Some intro!: image_eqI [of _ _ m])

text \<open>What the four membership operations write, when they write at all.\<close>

definition joinStatus :: "community \<Rightarrow> memberStatus" where
  "joinStatus r = (if cm_visibility r = V_PUBLIC then M_ACTIVE else M_PENDING)"

lemma joinCommunity_writes:
  "snd (joinCommunity u c now w) = w \<or>
   (\<exists>r. findLiveCommunity c w = Some r \<and> getMembership c u w = None \<and>
      snd (joinCommunity u c now w) = membershipWrite c (if joinStatus r = M_ACTIVE then 1 else 0)
        (communityMembers w @ [\<lparr>mb_communityId = c, mb_userId = u, mb_role = C_MEMBER,
           mb_status = joinStatus r, mb_joinedAt = now\<rparr>]) w) \<or>
   (\<exists>r m. findLiveCommunity c w = Some r \<and> getMembership c u w = Some m \<and> mb_status m = M_PENDING \<and>
      snd (joinCommunity u c now w) = membershipWrite c (if joinStatus r = M_ACTIVE then 1 else 0)
        (updateMany (\<lambda>r. membershipKey r = (c, u)) (\<lambda>m. m\<lparr>mb_status := joinStatus r, mb_joinedAt := now\<rparr>)
          (communityMembers w)) w)"
proof (cases "findLiveCommunity c w")
  case None
  then show ?thesis by (simp add: joinCommunity_def)
next
  case (Some r)
  then have c: "c \<in> cm_id ` set (communities w)" by (auto simp: findLiveCommunity_def dest!: find_row)
  define st where "st = joinStatus r"
  show ?thesis
  proof (cases "getMembership c u w")
    case None
    then have "(c, u) \<notin> membershipKey ` set (communityMembers w)" by (simp add: getMembership_def findUnique_None)
    then have "snd (joinCommunity u c now w) = membershipWrite c (if st = M_ACTIVE then 1 else 0)
        (communityMembers w @ [\<lparr>mb_communityId = c, mb_userId = u, mb_role = C_MEMBER,
           mb_status = st, mb_joinedAt = now\<rparr>]) w"
      using Some None c
      by (simp add: joinCommunity_def Let_def transaction_def createMembership_cases updateCommunityRow_cases
          ret_def st_def joinStatus_def membershipWrite_def)
    then show ?thesis using Some None unfolding st_def by blast
  next
    case (Some m)
    note found = \<open>findLiveCommunity c w = Some r\<close>
    have "(c, u) \<in> membershipKey ` set (communityMembers w)" using Some by (rule membership_in_table)
    then have "mb_status m \<in> {M_ACTIVE, M_BANNED} \<and> snd (joinCommunity u c now w) = w \<or>
        mb_status m = M_PENDING \<and> snd (joinCommunity u c now w) =
        membershipWrite c (if st = M_ACTIVE then 1 else 0)
          (updateMany (\<lambda>r. membershipKey r = (c, u)) (\<lambda>m. m\<lparr>mb_status := st, mb_joinedAt := now\<rparr>) (communityMembers w)) w"
      using Some found c
      by (cases "mb_status m")
         (simp_all add: joinCommunity_def Let_def transaction_def updateMembership_cases updateCommunityRow_cases
          ret_def throwHttp_def raise_def st_def joinStatus_def membershipWrite_def del: prod.inject)
    then show ?thesis using found Some unfolding st_def by blast
  qed
qed

lemma respondJoin_writes:
  assumes "communityWf w"
  shows "snd (respondJoinRequest a c u accept now w) = w \<or>
    (\<exists>m b. getMembership c u w = Some m \<and> mb_status m = M_PENDING \<and>
       getMembership c a w = Some b \<and> mb_status b = M_ACTIVE \<and> mb_role b \<in> {C_OWNER, C_ADMIN} \<and>
       snd (respondJoinRequest a c u accept now w) =
         (if accept then membershipWrite c 1
            (updateMany (\<lambda>r. membershipKey r = (c, u)) (\<lambda>m. m\<lparr>mb_status := M_ACTIVE, mb_joinedAt := now\<rparr>) (communityMembers w)) w
          else membershipWrite c 0 (deleteMany (\<lambda>r. membershipKey r = (c, u)) (communityMembers w)) w))"
proof (cases "getMembership c u w")
  case None
  then show ?thesis by (auto simp: respondJoinRequest_def requireRole_cases split: option.split)
next
  case (Some m)
  have known: "(c, u) \<in> membershipKey ` set (communityMembers w)" using Some by (rule membership_in_table)
  then have "c \<in> cm_id ` set (communities w)" using assms by (force simp: communityWf_def)
  then show ?thesis using Some known
    by (auto simp: respondJoinRequest_def requireRole_cases transaction_def updateMembership_cases
        deleteMembership_cases updateCommunityRow_cases ret_def membershipWrite_def
        simp del: prod.inject split: option.split)
qed

lemma leaveCommunity_writes:
  assumes "communityWf w"
  shows "snd (leaveCommunity u c w) = w \<or>
    (\<exists>m. getMembership c u w = Some m \<and> mb_status m = M_ACTIVE \<and> mb_role m \<noteq> C_OWNER \<and>
       snd (leaveCommunity u c w) =
         membershipWrite c (-1) (deleteMany (\<lambda>r. membershipKey r = (c, u)) (communityMembers w)) w)"
proof (cases "getMembership c u w")
  case None
  then show ?thesis by (simp add: leaveCommunity_def)
next
  case (Some m)
  have known: "(c, u) \<in> membershipKey ` set (communityMembers w)" using Some by (rule membership_in_table)
  then have "c \<in> cm_id ` set (communities w)" using assms by (force simp: communityWf_def)
  then show ?thesis using Some known
    by (simp add: leaveCommunity_def transaction_def deleteMembership_cases updateCommunityRow_cases
        membershipWrite_def del: prod.inject)
qed

lemma updateMemberRole_writes:
  "snd (updateMemberRole a c u r w) = w \<or>
   (\<exists>m. getMembership c u w = Some m \<and> mb_status m = M_ACTIVE \<and>
      snd (updateMemberRole a c u r w) =
        membershipWrite c 0 (updateMany (\<lambda>x. membershipKey x = (c, u)) (\<lambda>m. m\<lparr>mb_role := r\<rparr>) (communityMembers w)) w)"
proof (cases "getMembership c u w")
  case None
  then show ?thesis by (auto simp: updateMemberRole_def requireRole_cases split: option.split)
next
  case (Some m)
  have "(c, u) \<in> membershipKey ` set (communityMembers w)" using Some by (rule membership_in_table)
  then show ?thesis using Some
    by (auto simp: updateMemberRole_def requireRole_cases updateMembership_cases membershipWrite_def
        simp del: prod.inject split: option.split)
qed

lemma joinCommunity_effect:
  assumes "communityWf w"
  shows "snd (joinCommunity u c now w) = w \<or> membershipEffect w (snd (joinCommunity u c now w))"
  using joinCommunity_writes [of u c now w]
proof (elim disjE exE conjE)
  fix r
  assume r: "findLiveCommunity c w = Some r" and none: "getMembership c u w = None"
    and w': "snd (joinCommunity u c now w) = membershipWrite c (if joinStatus r = M_ACTIVE then 1 else 0)
      (communityMembers w @ [\<lparr>mb_communityId = c, mb_userId = u, mb_role = C_MEMBER,
         mb_status = joinStatus r, mb_joinedAt = now\<rparr>]) w"
  have "c \<in> cm_id ` set (communities w)" using r by (auto simp: findLiveCommunity_def dest!: find_row)
  then show ?thesis using effect_create [OF assms, of "\<lparr>mb_communityId = c, mb_userId = u, mb_role = C_MEMBER,
         mb_status = joinStatus r, mb_joinedAt = now\<rparr>"] none w' by simp
next
  fix r m
  assume "getMembership c u w = Some m" "mb_status m = M_PENDING"
    "snd (joinCommunity u c now w) = membershipWrite c (if joinStatus r = M_ACTIVE then 1 else 0)
        (updateMany (\<lambda>r. membershipKey r = (c, u)) (\<lambda>m. m\<lparr>mb_status := joinStatus r, mb_joinedAt := now\<rparr>)
          (communityMembers w)) w"
  then show ?thesis
    using effect_update [OF assms, of c u m "\<lambda>m. m\<lparr>mb_status := joinStatus r, mb_joinedAt := now\<rparr>"] by auto
qed simp

lemma respondJoin_effect:
  assumes "communityWf w"
  shows "snd (respondJoinRequest a c u accept now w) = w \<or>
    membershipEffect w (snd (respondJoinRequest a c u accept now w))"
  using respondJoin_writes [OF assms, of a c u accept now]
proof (elim disjE exE conjE)
  fix m b
  assume m: "getMembership c u w = Some m" "mb_status m = M_PENDING"
    and w': "snd (respondJoinRequest a c u accept now w) =
      (if accept then membershipWrite c 1
         (updateMany (\<lambda>r. membershipKey r = (c, u)) (\<lambda>m. m\<lparr>mb_status := M_ACTIVE, mb_joinedAt := now\<rparr>) (communityMembers w)) w
       else membershipWrite c 0 (deleteMany (\<lambda>r. membershipKey r = (c, u)) (communityMembers w)) w)"
  show ?thesis
  proof (cases accept)
    case True
    then show ?thesis using w' m(2)
      by (intro disjI2 effect_update [OF assms m(1), of "\<lambda>m. m\<lparr>mb_status := M_ACTIVE, mb_joinedAt := now\<rparr>"]) simp_all
  next
    case False
    then show ?thesis using w' m(2) by (intro disjI2 effect_delete [OF assms m(1)]) simp_all
  qed
qed simp

lemma leaveCommunity_effect:
  assumes "communityWf w"
  shows "snd (leaveCommunity u c w) = w \<or> membershipEffect w (snd (leaveCommunity u c w))"
  using leaveCommunity_writes [OF assms, of u c]
proof (elim disjE exE conjE)
  fix m
  assume "getMembership c u w = Some m" "mb_status m = M_ACTIVE"
    "snd (leaveCommunity u c w) =
      membershipWrite c (-1) (deleteMany (\<lambda>r. membershipKey r = (c, u)) (communityMembers w)) w"
  then show ?thesis by (intro disjI2 effect_delete [OF assms, of c u m]) simp_all
qed simp

lemma updateMemberRole_effect:
  assumes "communityWf w"
  shows "snd (updateMemberRole a c u r w) = w \<or> membershipEffect w (snd (updateMemberRole a c u r w))"
  using updateMemberRole_writes [of a c u r w]
proof (elim disjE exE conjE)
  fix m
  assume "getMembership c u w = Some m" "mb_status m = M_ACTIVE"
    "snd (updateMemberRole a c u r w) =
      membershipWrite c 0 (updateMany (\<lambda>x. membershipKey x = (c, u)) (\<lambda>m. m\<lparr>mb_role := r\<rparr>) (communityMembers w)) w"
  then show ?thesis by (intro disjI2 effect_update [OF assms, of c u m "\<lambda>m. m\<lparr>mb_role := r\<rparr>"]) simp_all
qed simp

lemma createCommunity_writes:
  "snd (createCommunity u dto now w) = w \<or>
   newUuid w \<notin> cm_id ` set (communities w) \<and>
   snd (createCommunity u dto now w) = (takeUuid w)\<lparr>communities := communities w @ [newCommunity (newUuid w) u dto now],
     communityMembers := communityMembers w @ [\<lparr>mb_communityId = newUuid w, mb_userId = u,
       mb_role = C_OWNER, mb_status = M_ACTIVE, mb_joinedAt = now\<rparr>]\<rparr>"
  by (auto simp: createCommunity_def transaction_def write_or_def createRow_def createMembership_cases
      ret_def raise_def takeUuid_def Let_def newCommunity_def)

lemma updateCommunity_writes:
  "snd (updateCommunity u c dto w) = w \<or>
   snd (updateCommunity u c dto w) =
     w\<lparr>communities := updateMany (\<lambda>r. cm_id r = c) (applyCommunityUpdate dto) (communities w)\<rparr>"
  by (auto simp: updateCommunity_def requireRole_cases updateCommunityRow_cases Let_def split: option.split)

lemma community_fields [simp]:
  "cm_id (applyCommunityUpdate dto c) = cm_id c"
  "cm_membersCount (applyCommunityUpdate dto c) = cm_membersCount c"
  "cm_deletedAt (applyCommunityUpdate dto c) = cm_deletedAt c"
  "cm_id (addMembers d c) = cm_id c" "cm_membersCount (addMembers d c) = cm_membersCount c + d"
  "cm_visibility (addMembers d c) = cm_visibility c" "cm_deletedAt (addMembers d c) = cm_deletedAt c"
  "cm_id (newCommunity i u cdto now) = i" "cm_membersCount (newCommunity i u cdto now) = 1"
  by (simp_all add: applyCommunityUpdate_def addMembers_def newCommunity_def)

lemma communityStep_effect:
  assumes "communityWf w"
  shows "communityStep x w = w \<or> membershipEffect w (communityStep x w) \<or>
    (\<exists>u dto now. newUuid w \<notin> cm_id ` set (communities w) \<and>
       communityStep x w = (takeUuid w)\<lparr>communities := communities w @ [newCommunity (newUuid w) u dto now],
         communityMembers := communityMembers w @ [\<lparr>mb_communityId = newUuid w, mb_userId = u,
           mb_role = C_OWNER, mb_status = M_ACTIVE, mb_joinedAt = now\<rparr>]\<rparr>) \<or>
    (\<exists>c dto. communityStep x w =
       w\<lparr>communities := updateMany (\<lambda>r. cm_id r = c) (applyCommunityUpdate dto) (communities w)\<rparr>)"
proof (cases x)
  case (CreateCommunity u dto now)
  then show ?thesis using createCommunity_writes [of u dto now w] by (simp only: communityStep.simps) blast
next
  case (UpdateCommunity u c dto)
  then show ?thesis using updateCommunity_writes [of u c dto w] by (simp only: communityStep.simps) blast
next
  case (JoinCommunity u c now)
  then show ?thesis using joinCommunity_effect [OF assms, of u c now] by (simp only: communityStep.simps) blast
next
  case (RespondJoin a c u ok now)
  then show ?thesis using respondJoin_effect [OF assms, of a c u ok now] by (simp only: communityStep.simps) blast
next
  case (LeaveCommunity u c)
  then show ?thesis using leaveCommunity_effect [OF assms, of u c] by (simp only: communityStep.simps) blast
next
  case (UpdateMemberRole a c u r)
  then show ?thesis using updateMemberRole_effect [OF assms, of a c u r] by (simp only: communityStep.simps) blast
qed

lemma communityWf_step:
  assumes "communityWf w" shows "communityWf (communityStep x w)"
  using communityStep_effect [OF assms, of x]
proof (elim disjE exE conjE)
  assume "membershipEffect w (communityStep x w)"
  then obtain c d ms' where step: "communityStep x w = membershipWrite c d ms' w"
    and ms: "unique membershipKey ms'" "mb_communityId ` set ms' \<subseteq> cm_id ` set (communities w)"
    by (auto simp: membershipEffect_def)
  show ?thesis using assms ms by (simp add: step membershipWrite_def communityWf_def map_updateMany keys_updateMany)
next
  fix u dto now
  assume new: "newUuid w \<notin> cm_id ` set (communities w)"
    and step: "communityStep x w = (takeUuid w)\<lparr>communities := communities w @ [newCommunity (newUuid w) u dto now],
      communityMembers := communityMembers w @ [\<lparr>mb_communityId = newUuid w, mb_userId = u,
        mb_role = C_OWNER, mb_status = M_ACTIVE, mb_joinedAt = now\<rparr>]\<rparr>"
  have "(newUuid w, u) \<notin> membershipKey ` set (communityMembers w)"
    using new assms by (auto simp: communityWf_def)
  then show ?thesis using new assms by (simp add: step communityWf_def takeUuid_def subset_insertI2)
next
  fix c dto
  assume "communityStep x w = w\<lparr>communities := updateMany (\<lambda>r. cm_id r = c) (applyCommunityUpdate dto) (communities w)\<rparr>"
  then show ?thesis using assms by (simp add: communityWf_def map_updateMany keys_updateMany)
qed (use assms in simp)

lemma members_moves:
  assumes "communityWf w"
  shows "moves_together (membersColumn w k) (membersOfCommunity w k)
    (membersColumn (communityStep x w) k) (membersOfCommunity (communityStep x w) k)"
  using communityStep_effect [OF assms, of x]
proof (elim disjE exE conjE)
  assume "membershipEffect w (communityStep x w)"
  then show ?thesis
    by (cases "findUnique cm_id k (communities w)")
       (auto simp: membershipEffect_def membershipWrite_def membersColumn_def membersOfCommunity_def
          column_update counted_def)
next
  fix u dto now
  assume new: "newUuid w \<notin> cm_id ` set (communities w)"
    and step: "communityStep x w = (takeUuid w)\<lparr>communities := communities w @ [newCommunity (newUuid w) u dto now],
      communityMembers := communityMembers w @ [\<lparr>mb_communityId = newUuid w, mb_userId = u,
        mb_role = C_OWNER, mb_status = M_ACTIVE, mb_joinedAt = now\<rparr>]\<rparr>"
  have "findUnique cm_id k (communities w) = None \<Longrightarrow>
      countRows (\<lambda>m. mb_communityId m = k \<and> mb_status m = M_ACTIVE) (communityMembers w) = 0"
    using assms by (auto simp: communityWf_def countRows_0 findUnique_None)
  moreover have "findUnique cm_id (newUuid w) (communities w) = None" using new by (simp add: findUnique_None)
  ultimately show ?thesis
    by (auto simp: step membersColumn_def membersOfCommunity_def takeUuid_def findUnique_append split: option.split)
next
  fix c dto
  assume "communityStep x w = w\<lparr>communities := updateMany (\<lambda>r. cm_id r = c) (applyCommunityUpdate dto) (communities w)\<rparr>"
  then show ?thesis
    by (cases "findUnique cm_id k (communities w)")
       (auto simp: membersColumn_def membersOfCommunity_def column_update)
qed simp

interpretation members_cache: counter_cache membersColumn membersOfCommunity communityWf communityStep
  by unfold_locales (rule communityWf_step members_moves, assumption)+

section \<open>Who becomes an active member\<close>

definition memberStatusOf :: "uid \<Rightarrow> uid \<Rightarrow> 'a community_db_scheme \<Rightarrow> memberStatus option" where
  "memberStatusOf c u w = map_option mb_status (getMembership c u w)"

lemma getMembership_write [simp]:
  "getMembership c u (membershipWrite c' d ms w) = findUnique membershipKey (c, u) ms"
  by (simp add: getMembership_def membershipWrite_def)

lemma members_write [simp]: "communityMembers (membershipWrite c' d ms w) = ms"
  by (simp add: membershipWrite_def)

lemma memberStatusOf_append:
  "getMembership (mb_communityId m) (mb_userId m) w = None \<Longrightarrow>
   memberStatusOf c u (membershipWrite c' d (communityMembers w @ [m]) w) =
     (if membershipKey m = (c, u) then Some (mb_status m) else memberStatusOf c u w)"
  by (auto simp: memberStatusOf_def findUnique_append getMembership_def split: option.split)

lemma memberStatusOf_update:
  assumes "\<And>r. membershipKey (f r) = membershipKey r" and "getMembership c' u' w = Some m"
  shows "memberStatusOf c u (membershipWrite c' d (updateMany (\<lambda>r. membershipKey r = (c', u')) f (communityMembers w)) w) =
     (if (c, u) = (c', u') then Some (mb_status (f m)) else memberStatusOf c u w)"
proof -
  have "findUnique membershipKey (c, u) (updateMany (\<lambda>r. membershipKey r = (c', u')) f (communityMembers w)) =
      map_option (\<lambda>r. if membershipKey r = (c', u') then f r else r) (getMembership c u w)"
    unfolding getMembership_def using findUnique_updateMany [of membershipKey f] assms(1) by simp
  moreover have "membershipKey r = (c, u)" if "getMembership c u w = Some r" for r
    using that findUnique_Some unfolding getMembership_def by fast
  ultimately show ?thesis using assms(2)
    by (cases "getMembership c u w") (auto simp: memberStatusOf_def)
qed

lemma memberStatusOf_delete:
  "memberStatusOf c u (membershipWrite c' d (deleteMany (\<lambda>r. membershipKey r = (c', u')) (communityMembers w)) w) =
     (if (c, u) = (c', u') then None else memberStatusOf c u w)"
proof (cases "(c, u) = (c', u')")
  case True
  then show ?thesis
    using findUnique_deleteMany_same [of membershipKey "(c, u)" "communityMembers w"] by (simp add: memberStatusOf_def)
next
  case False
  then show ?thesis
    using findUnique_deleteMany_other [of "(c, u)" "(c', u')" membershipKey "communityMembers w"]
    by (auto simp: memberStatusOf_def getMembership_def)
qed

text \<open>Every change of a user's status in a community, by the operation that makes it.\<close>

lemma status_changes:
  assumes "communityWf w" and "memberStatusOf c u (communityStep x w) \<noteq> memberStatusOf c u w"
  shows "(\<exists>dto now. x = CreateCommunity u dto now \<and> c = newUuid w \<and> memberStatusOf c u w = None) \<or>
    (\<exists>now r. x = JoinCommunity u c now \<and> findLiveCommunity c w = Some r \<and>
       memberStatusOf c u w \<in> {None, Some M_PENDING} \<and> memberStatusOf c u (communityStep x w) = Some (joinStatus r)) \<or>
    (\<exists>a ok now b. x = RespondJoin a c u ok now \<and> memberStatusOf c u w = Some M_PENDING \<and>
       getMembership c a w = Some b \<and> mb_status b = M_ACTIVE \<and> mb_role b \<in> {C_OWNER, C_ADMIN} \<and>
       memberStatusOf c u (communityStep x w) = (if ok then Some M_ACTIVE else None)) \<or>
    x = LeaveCommunity u c \<and> memberStatusOf c u w = Some M_ACTIVE \<and> memberStatusOf c u (communityStep x w) = None"
proof (cases x)
  case (CreateCommunity v dto now)
  then have "communityMembers (communityStep x w) = communityMembers w @ [\<lparr>mb_communityId = newUuid w, mb_userId = v,
       mb_role = C_OWNER, mb_status = M_ACTIVE, mb_joinedAt = now\<rparr>]"
    using createCommunity_writes [of v dto now w] assms(2) by auto
  then show ?thesis using CreateCommunity assms(2)
    by (auto simp: memberStatusOf_def getMembership_def findUnique_append split: option.splits if_splits)
next
  case (UpdateCommunity v k dto)
  then have "memberStatusOf c u (communityStep x w) = memberStatusOf c u w"
    using updateCommunity_writes [of v k dto w] by (auto simp: memberStatusOf_def getMembership_def)
  then show ?thesis using assms(2) by simp
next
  case (JoinCommunity v k now)
  show ?thesis using joinCommunity_writes [of v k now w] JoinCommunity assms(2)
    by (elim disjE exE conjE)
       (simp_all add: memberStatusOf_append memberStatusOf_update del: prod.inject split: if_splits,
        auto simp: memberStatusOf_def)
next
  case (RespondJoin a k v ok now)
  show ?thesis using respondJoin_writes [OF assms(1), of a k v ok now] RespondJoin assms(2)
    by (elim disjE exE conjE)
       (simp_all add: memberStatusOf_delete memberStatusOf_update del: prod.inject split: if_splits,
        auto simp: memberStatusOf_def)
next
  case (LeaveCommunity v k)
  show ?thesis using leaveCommunity_writes [OF assms(1), of v k] LeaveCommunity assms(2)
    by (elim disjE exE conjE)
       (simp_all add: memberStatusOf_delete del: prod.inject split: if_splits, auto simp: memberStatusOf_def)
next
  case (UpdateMemberRole a k v r)
  have "memberStatusOf c u (communityStep x w) = memberStatusOf c u w"
    using updateMemberRole_writes [of a k v r w] UpdateMemberRole
    by (elim disjE exE conjE) (simp_all add: memberStatusOf_update del: prod.inject split: if_splits, auto simp: memberStatusOf_def)
  then show ?thesis using assms(2) by simp
qed

definition banned :: "uid \<Rightarrow> uid \<Rightarrow> 'a community_db_scheme \<Rightarrow> bool" where
  "banned c u w \<longleftrightarrow> communityWf w \<and> memberStatusOf c u w = Some M_BANNED"

lemma banned_step: "banned c u w \<Longrightarrow> banned c u (communityStep x w)"
  using status_changes [of w c u x] communityWf_step [of w x] by (fastforce simp: banned_def)

interpretation ban: invariant_system communityStep "banned c u" for c u
  by unfold_locales (rule banned_step)

section \<open>Properties\<close>

definition membersExact :: "'a community_db_scheme \<Rightarrow> bool" where
  "membersExact w \<longleftrightarrow> (\<forall>c \<in> set (communities w). cm_membersCount c = int (membersOfCommunity w (cm_id c)))"

lemma membersExact_iff: "communityWf w \<Longrightarrow> membersExact w \<longleftrightarrow> members_cache.consistent w"
  using findUnique_iff [of cm_id "communities w"]
  by (fastforce simp: membersExact_def members_cache.consistent_def membersColumn_def communityWf_def)

text \<open>
  C20: \<open>membersCount\<close> of every community is the number of its ACTIVE membership rows, after
  any sequence of community operations by any users, failed ones included; and the unique
  and foreign keys hold.
\<close>

theorem members_count_exact:
  assumes "communityWf w" and "membersExact w"
  shows "communityWf (fold communityStep ops w) \<and> membersExact (fold communityStep ops w)"
proof -
  have "members_cache.consistent w" using assms membersExact_iff by blast
  then have "members_cache.consistent (fold communityStep ops w)" by (rule members_cache.cache.run_inv)
  then show ?thesis using membersExact_iff members_cache.consistent_def by blast
qed

definition sampleCommunityDto :: "communityVisibility \<Rightarrow> createCommunityDto" where
  "sampleCommunityDto v =
     \<lparr>ccd_name = ''Club'', ccd_description = None, ccd_avatarUrl = None, ccd_coverImageUrl = None,
      ccd_visibility = v, ccd_region = None, ccd_tags = [], ccd_rules = None,
      ccd_latitude = None, ccd_longitude = None\<rparr>"

definition sampleCommunities :: community_db where
  "sampleCommunities = core_db.extend sampleCore \<lparr>communities = [], communityMembers = []\<rparr>"

text \<open>User \<open>a\<close> owns a private community with the first identifier; \<open>b\<close> asked to join.\<close>

definition sampleClub :: community_db where
  "sampleClub = fold communityStep [CreateCommunity ''a'' (sampleCommunityDto V_PRIVATE) 1, JoinCommunity ''b'' [] 2]
     sampleCommunities"

theorem members_count_exact_witness:
  "membersExact (fold communityStep [RespondJoin ''a'' [] ''b'' True 3, LeaveCommunity ''b'' []] sampleClub)"
proof -
  have "communityWf sampleClub" "membersExact sampleClub" by code_simp+
  then show ?thesis using members_count_exact by blast
qed

text \<open>
  C28: nobody becomes an active member without the right to: one operation turns a user who
  is not active in a community into an active member only if the user just created it, or
  joined it while it was PUBLIC and not deleted, or an active OWNER or ADMIN accepted the
  user's PENDING request. In particular a banned user is never admitted.
\<close>

theorem admission_needs_approval:
  assumes "communityWf w" and "memberStatusOf c u w \<noteq> Some M_ACTIVE"
    and "memberStatusOf c u (communityStep x w) = Some M_ACTIVE"
  shows "memberStatusOf c u w \<noteq> Some M_BANNED \<and>
    ((\<exists>dto now. x = CreateCommunity u dto now \<and> c = newUuid w) \<or>
     (\<exists>now r. x = JoinCommunity u c now \<and> findLiveCommunity c w = Some r \<and> cm_visibility r = V_PUBLIC) \<or>
     (\<exists>a now b. x = RespondJoin a c u True now \<and> memberStatusOf c u w = Some M_PENDING \<and>
        getMembership c a w = Some b \<and> mb_status b = M_ACTIVE \<and> mb_role b \<in> {C_OWNER, C_ADMIN}))"
proof -
  have "memberStatusOf c u (communityStep x w) \<noteq> memberStatusOf c u w" using assms by simp
  from status_changes [OF assms(1) this] assms(3) show ?thesis
    by (elim disjE exE conjE) (simp_all add: joinStatus_def split: if_splits, auto)
qed

theorem admission_needs_approval_witness:
  "\<exists>a now b. RespondJoin ''a'' [] ''b'' True 3 = RespondJoin a [] ''b'' True now \<and>
     getMembership [] a sampleClub = Some b \<and> mb_role b \<in> {C_OWNER, C_ADMIN}"
proof -
  have "communityWf sampleClub" "memberStatusOf [] ''b'' sampleClub \<noteq> Some M_ACTIVE"
    "memberStatusOf [] ''b'' (communityStep (RespondJoin ''a'' [] ''b'' True 3) sampleClub) = Some M_ACTIVE"
    by code_simp+
  from admission_needs_approval [OF this] show ?thesis by auto
qed

text \<open>
  A ban is final for these operations: a BANNED user stays banned whatever operations
  anyone runs, is never an active member again, and every attempt to join the community
  while it exists is refused with FORBIDDEN.
\<close>

theorem banned_stays_out:
  assumes "communityWf w" and "memberStatusOf c u w = Some M_BANNED"
  shows "memberStatusOf c u (fold communityStep ops w) = Some M_BANNED \<and>
    (findLiveCommunity c (fold communityStep ops w) \<noteq> None \<longrightarrow>
       fst (joinCommunity u c now (fold communityStep ops w)) =
         Inl (Http Forbidden ''User is banned from this community'' (Some FORBIDDEN) []))"
proof -
  have "banned c u (fold communityStep ops w)" by (rule ban.run_inv) (simp add: banned_def assms)
  then show ?thesis by (auto simp: banned_def joinCommunity_def memberStatusOf_def Let_def)
qed

theorem banned_stays_out_witness:
  "fst (joinCommunity ''b'' [] 9 (fold communityStep [LeaveCommunity ''b'' [], RespondJoin ''a'' [] ''b'' True 3]
      (sampleClub\<lparr>communityMembers := map (\<lambda>m. if mb_userId m = ''b'' then m\<lparr>mb_status := M_BANNED\<rparr> else m)
         (communityMembers sampleClub)\<rparr>))) =
   Inl (Http Forbidden ''User is banned from this community'' (Some FORBIDDEN) [])"
proof -
  define w where "w = sampleClub\<lparr>communityMembers := map (\<lambda>m. if mb_userId m = ''b'' then m\<lparr>mb_status := M_BANNED\<rparr> else m)
         (communityMembers sampleClub)\<rparr>"
  have "communityWf w" "memberStatusOf [] ''b'' w = Some M_BANNED"
    "findLiveCommunity [] (fold communityStep [LeaveCommunity ''b'' [], RespondJoin ''a'' [] ''b'' True 3] w) \<noteq> None"
    unfolding w_def by code_simp+
  then show ?thesis unfolding w_def [symmetric] using banned_stays_out by blast
qed

text \<open>
  The search of communities, read page by page, answers exactly the public and private
  communities that are not deleted and whose name or description contains the trimmed query
  in the database's case folding, ordered by id, once each; a hidden community is in no
  page, and its detail and member list are NOT_FOUND to everyone but its active members.
\<close>

theorem community_search_complete:
  assumes "communityWf w" and "0 < limit" and "length (communities w) < fuel"
  shows "walkPages fuel (\<lambda>cursor. searchCommunities lower q cursor limit w) None =
      Some (map communityToSummary (sort_key cm_id (searchRows lower q w))) \<and>
    (findLiveCommunity c w = Some r \<and> cm_visibility r = V_HIDDEN \<and> memberStatusOf c u w \<noteq> Some M_ACTIVE \<longrightarrow>
       c \<notin> cm_id ` set (searchRows lower q w) \<and>
       fst (getCommunityDetail c (Some u) w) = Inl (Http NotFound ''Community not found'' (Some NOT_FOUND) []) \<and>
       fst (listCommunityMembers c u w) = Inl (Http NotFound ''Community not found'' (Some NOT_FOUND) []))"
proof (intro conjI impI)
  have "distinct (map cm_id (searchRows lower q w))" "length (searchRows lower q w) < fuel"
    using assms(1,3) le_less_trans [OF length_filter_le]
    by (auto simp: searchRows_def communityWf_def distinct_map_filter)
  moreover have "walkPages fuel (\<lambda>cursor. searchCommunities lower q cursor limit w) None =
      map_option (map communityToSummary)
        (walkPages fuel (\<lambda>c. keysetPage cm_id c limit (searchRows lower q w)) None)"
    by (rule walkPages_hom) (simp_all add: searchCommunities_def split: prod.split)
  ultimately show "walkPages fuel (\<lambda>cursor. searchCommunities lower q cursor limit w) None =
      Some (map communityToSummary (sort_key cm_id (searchRows lower q w)))"
    using assms(2) by (simp add: walkPages_all)
next
  assume h: "findLiveCommunity c w = Some r \<and> cm_visibility r = V_HIDDEN \<and> memberStatusOf c u w \<noteq> Some M_ACTIVE"
  then have "r \<in> set (communities w)" "cm_id r = c" by (auto simp: findLiveCommunity_def dest!: find_row)
  then have "r' = r" if "r' \<in> set (communities w)" "cm_id r' = c" for r'
    using that assms(1) unique_row [of cm_id "communities w" r' r] by (simp add: communityWf_def)
  then show "c \<notin> cm_id ` set (searchRows lower q w)" using h by (fastforce simp: searchRows_def)
  have "(case getMembership c u w of None \<Rightarrow> True | Some m \<Rightarrow> mb_status m \<noteq> M_ACTIVE)"
    using h by (auto simp: memberStatusOf_def split: option.split)
  then show "fst (getCommunityDetail c (Some u) w) = Inl (Http NotFound ''Community not found'' (Some NOT_FOUND) [])"
    "fst (listCommunityMembers c u w) = Inl (Http NotFound ''Community not found'' (Some NOT_FOUND) [])"
    using h by (simp_all add: getCommunityDetail_def listCommunityMembers_def assertViewableCommunity_def)
qed

theorem community_search_complete_witness:
  "walkPages 2 (\<lambda>cursor. searchCommunities (\<lambda>s. s) ''lu '' cursor 1 sampleClub) None =
   Some (map communityToSummary (sort_key cm_id (searchRows (\<lambda>s. s) ''lu '' sampleClub)))"
proof -
  have "communityWf sampleClub" "length (communities sampleClub) < 2" by code_simp+
  then show ?thesis using community_search_complete [of sampleClub 1 2] by simp
qed

text \<open>The owner can give the role away by demoting himself: nobody owns the community then.\<close>

lemma owner_demotes_himself:
  "fst (updateMemberRole ''a'' [] ''a'' C_MEMBER sampleClub) = Inr () \<and>
   filter (\<lambda>m. mb_role m = C_OWNER) (communityMembers (snd (updateMemberRole ''a'' [] ''a'' C_MEMBER sampleClub))) = []"
  by (rule conjI) code_simp+

end
