(* ===== verification/Event.thy ===== *)
theory Event
  imports Community
begin

text \<open>
  \<open>event.service.ts\<close>: events with their participants, the RSVP state machine with its
  automatic waiting list, the search, the nearby listing and the soft delete.
  \<open>participantsCount\<close> caches the number of GOING rows (an instance of \<open>counter_cache\<close>).
  PostGIS is the parameter \<open>near\<close>: the rows of \<open>find_events_within\<close>, or \<open>None\<close> when the
  query throws; the case folding of the search is the parameter \<open>lower\<close>.
\<close>

section \<open>State\<close>

datatype eventVisibility = E_PUBLIC | E_PRIVATE | E_GROUP_ONLY

datatype rsvpStatus = GOING | INTERESTED | NOT_GOING | WAITLIST

text \<open>The order of the enum, which \<open>orderBy: { rsvpStatus: 'asc' }\<close> sorts by.\<close>

fun rsvpRank :: "rsvpStatus \<Rightarrow> nat" where
  "rsvpRank GOING = 0" | "rsvpRank INTERESTED = 1" | "rsvpRank NOT_GOING = 2" | "rsvpRank WAITLIST = 3"

instantiation rsvpStatus :: linorder
begin

definition less_eq_rsvpStatus :: "rsvpStatus \<Rightarrow> rsvpStatus \<Rightarrow> bool" where
  "less_eq_rsvpStatus a b \<longleftrightarrow> rsvpRank a \<le> rsvpRank b"

definition less_rsvpStatus :: "rsvpStatus \<Rightarrow> rsvpStatus \<Rightarrow> bool" where
  "less_rsvpStatus a b \<longleftrightarrow> rsvpRank a < rsvpRank b"

instance
proof
  fix a b :: rsvpStatus
  show "a \<le> b \<Longrightarrow> b \<le> a \<Longrightarrow> a = b"
    by (cases a; cases b) (simp_all add: less_eq_rsvpStatus_def)
qed (auto simp: less_eq_rsvpStatus_def less_rsvpStatus_def)

end

record event =
  ev_id :: uid
  ev_title :: string
  ev_description :: "string option"
  ev_organizerId :: uid
  ev_coHostIds :: "uid list"
  ev_communityId :: "uid option"
  ev_routeId :: "uid option"
  ev_meetingPointLat :: rat
  ev_meetingPointLng :: rat
  ev_meetingPointName :: string
  ev_startTime :: time
  ev_endTime :: "time option"
  ev_visibility :: eventVisibility
  ev_difficulty :: "string option"
  ev_distance :: "rat option"
  ev_category :: "string option"
  ev_maxParticipants :: "nat option"
  ev_rules :: "string option"
  ev_participantsCount :: int
  ev_createdAt :: time
  ev_deletedAt :: "time option"

record eventParticipant =
  ep_eventId :: uid
  ep_userId :: uid
  ep_rsvpStatus :: rsvpStatus
  ep_checkedIn :: bool
  ep_joinedAt :: time

record event_db = community_db +
  events :: "event list"
  eventParticipants :: "eventParticipant list"

abbreviation participationKey :: "eventParticipant \<Rightarrow> uid \<times> uid" where
  "participationKey p \<equiv> (ep_eventId p, ep_userId p)"

section \<open>Results\<close>

record eventSummary =
  es_id :: uid
  es_title :: string
  es_description :: "string option"
  es_organizerId :: uid
  es_communityId :: "uid option"
  es_meetingPointLat :: rat
  es_meetingPointLng :: rat
  es_meetingPointName :: string
  es_startTime :: time
  es_endTime :: "time option"
  es_visibility :: eventVisibility
  es_difficulty :: "string option"
  es_category :: "string option"
  es_maxParticipants :: "nat option"
  es_participantsCount :: int
  es_createdAt :: time

record eventDetail =
  ed_summary :: eventSummary
  ed_rules :: "string option"
  ed_routeId :: "uid option"
  ed_coHostIds :: "uid list"
  ed_viewerRsvp :: "rsvpStatus option"

definition eventToSummary :: "event \<Rightarrow> eventSummary" where
  "eventToSummary e =
     \<lparr>es_id = ev_id e, es_title = ev_title e, es_description = ev_description e,
      es_organizerId = ev_organizerId e, es_communityId = ev_communityId e,
      es_meetingPointLat = ev_meetingPointLat e, es_meetingPointLng = ev_meetingPointLng e,
      es_meetingPointName = ev_meetingPointName e, es_startTime = ev_startTime e,
      es_endTime = ev_endTime e, es_visibility = ev_visibility e, es_difficulty = ev_difficulty e,
      es_category = ev_category e, es_maxParticipants = ev_maxParticipants e,
      es_participantsCount = ev_participantsCount e, es_createdAt = ev_createdAt e\<rparr>"

definition eventToDetail :: "event \<Rightarrow> rsvpStatus option \<Rightarrow> eventDetail" where
  "eventToDetail e viewerRsvp =
     \<lparr>ed_summary = eventToSummary e, ed_rules = ev_rules e, ed_routeId = ev_routeId e,
      ed_coHostIds = ev_coHostIds e, ed_viewerRsvp = viewerRsvp\<rparr>"

section \<open>Helpers\<close>

definition findParticipation :: "uid \<Rightarrow> uid \<Rightarrow> 'a event_db_scheme \<Rightarrow> eventParticipant option" where
  "findParticipation eventId userId w = findUnique participationKey (eventId, userId) (eventParticipants w)"

definition requireExistingEvent ::
  "uid \<Rightarrow> 'a event_db_scheme \<Rightarrow> (event, 'a event_db_scheme) outcome" where
  "requireExistingEvent eventId w =
     (case find (\<lambda>e. ev_id e = eventId \<and> ev_deletedAt e = None) (events w) of
        None \<Rightarrow> throwHttp NotFound ''Event not found'' NOT_FOUND w
      | Some e \<Rightarrow> ret e w)"

definition assertViewableEvent ::
  "uid \<Rightarrow> uid \<Rightarrow> 'a event_db_scheme \<Rightarrow> (event, 'a event_db_scheme) outcome" where
  "assertViewableEvent eventId userId w =
     and_then (requireExistingEvent eventId w)
       (\<lambda>e w. if ev_visibility e = E_PRIVATE \<and> ev_organizerId e \<noteq> userId \<and> userId \<notin> set (ev_coHostIds e)
              then if findParticipation eventId userId w = None
                   then throwHttp Forbidden ''Event is private'' FORBIDDEN w else ret e w
              else ret e w)"

definition assertCommunityPrivilege ::
  "uid \<Rightarrow> uid \<Rightarrow> 'a event_db_scheme \<Rightarrow> (unit, 'a event_db_scheme) outcome" where
  "assertCommunityPrivilege communityId userId w =
     (case getMembership communityId userId w of
        None \<Rightarrow> throwHttp Forbidden ''Need OWNER/ADMIN/MODERATOR role in community'' FORBIDDEN w
      | Some m \<Rightarrow>
          if mb_status m \<noteq> M_ACTIVE \<or> mb_role m \<notin> {C_OWNER, C_ADMIN, C_MODERATOR}
          then throwHttp Forbidden ''Need OWNER/ADMIN/MODERATOR role in community'' FORBIDDEN w
          else ret () w)"

definition addParticipants :: "int \<Rightarrow> event \<Rightarrow> event" where
  "addParticipants n e = e\<lparr>ev_participantsCount := ev_participantsCount e + n\<rparr>"

definition updateEventRow ::
  "uid \<Rightarrow> (event \<Rightarrow> event) \<Rightarrow> 'a event_db_scheme \<Rightarrow> (unit, 'a event_db_scheme) outcome" where
  "updateEventRow i f w =
     write_or RecordNotFound (updateRow ev_id i f (events w)) (\<lambda>t. w\<lparr>events := t\<rparr>) w"

definition createParticipation ::
  "eventParticipant \<Rightarrow> 'a event_db_scheme \<Rightarrow> (unit, 'a event_db_scheme) outcome" where
  "createParticipation p w =
     (if ep_eventId p \<notin> ev_id ` set (events w) then raise ForeignKeyViolation w
      else write_or UniqueViolation (createRow participationKey p (eventParticipants w))
        (\<lambda>t. w\<lparr>eventParticipants := t\<rparr>) w)"

definition setRsvp ::
  "uid \<times> uid \<Rightarrow> rsvpStatus \<Rightarrow> 'a event_db_scheme \<Rightarrow> (unit, 'a event_db_scheme) outcome" where
  "setRsvp k s w =
     write_or RecordNotFound
       (updateRow participationKey k (\<lambda>p. p\<lparr>ep_rsvpStatus := s\<rparr>) (eventParticipants w))
       (\<lambda>t. w\<lparr>eventParticipants := t\<rparr>) w"

definition deleteParticipation ::
  "uid \<times> uid \<Rightarrow> 'a event_db_scheme \<Rightarrow> (unit, 'a event_db_scheme) outcome" where
  "deleteParticipation k w =
     write_or RecordNotFound (deleteRow participationKey k (eventParticipants w))
       (\<lambda>t. w\<lparr>eventParticipants := t\<rparr>) w"

section \<open>Creating, editing, deleting\<close>

record createEventDto =
  ced_title :: string
  ced_description :: "string option"
  ced_communityId :: "uid option"
  ced_coHostIds :: "uid list"
  ced_routeId :: "uid option"
  ced_meetingPointLat :: rat
  ced_meetingPointLng :: rat
  ced_meetingPointName :: string
  ced_startTime :: time
  ced_endTime :: "time option"
  ced_visibility :: eventVisibility
  ced_difficulty :: "string option"
  ced_distance :: "rat option"
  ced_category :: "string option"
  ced_maxParticipants :: "nat option"
  ced_rules :: "string option"

definition newEvent :: "uid \<Rightarrow> uid \<Rightarrow> createEventDto \<Rightarrow> time \<Rightarrow> event" where
  "newEvent i organizerId dto now =
     \<lparr>ev_id = i, ev_title = ced_title dto, ev_description = ced_description dto,
      ev_organizerId = organizerId, ev_coHostIds = ced_coHostIds dto,
      ev_communityId = ced_communityId dto, ev_routeId = ced_routeId dto,
      ev_meetingPointLat = ced_meetingPointLat dto, ev_meetingPointLng = ced_meetingPointLng dto,
      ev_meetingPointName = ced_meetingPointName dto, ev_startTime = ced_startTime dto,
      ev_endTime = ced_endTime dto, ev_visibility = ced_visibility dto,
      ev_difficulty = ced_difficulty dto, ev_distance = ced_distance dto,
      ev_category = ced_category dto, ev_maxParticipants = ced_maxParticipants dto,
      ev_rules = ced_rules dto, ev_participantsCount = 1, ev_createdAt = now, ev_deletedAt = None\<rparr>"

definition createEvent ::
  "uid \<Rightarrow> createEventDto \<Rightarrow> time \<Rightarrow> 'a event_db_scheme \<Rightarrow> (eventDetail, 'a event_db_scheme) outcome" where
  "createEvent organizerId dto now w =
     (if (case ced_endTime dto of None \<Rightarrow> False | Some t \<Rightarrow> t < ced_startTime dto)
      then throwHttp BadRequest ''endTime must be after startTime'' VALIDATION_FAILED w
      else and_then
        (case ced_communityId dto of
           None \<Rightarrow> ret () w | Some c \<Rightarrow> assertCommunityPrivilege c organizerId w)
        (\<lambda>_ w. and_then
          (transaction
             (\<lambda>w. let created = newEvent (newUuid w) organizerId dto now in
                and_then
                  (write_or UniqueViolation (createRow ev_id created (events w))
                     (\<lambda>t. (takeUuid w)\<lparr>events := t\<rparr>) w)
                  (\<lambda>_ w1. and_then
                     (createParticipation \<lparr>ep_eventId = ev_id created, ep_userId = organizerId,
                        ep_rsvpStatus = GOING, ep_checkedIn = False, ep_joinedAt = now\<rparr> w1)
                     (\<lambda>_ w2. ret created w2))) w)
          (\<lambda>e w3. ret (eventToDetail e (Some GOING)) w3)))"

text \<open>\<open>UpdateEventDto\<close>: every field of the creation body, optional.\<close>

record updateEventDto =
  ued_title :: "string option"
  ued_description :: "string option"
  ued_communityId :: "uid option"
  ued_coHostIds :: "uid list option"
  ued_routeId :: "uid option"
  ued_meetingPointLat :: "rat option"
  ued_meetingPointLng :: "rat option"
  ued_meetingPointName :: "string option"
  ued_startTime :: "time option"
  ued_endTime :: "time option"
  ued_visibility :: "eventVisibility option"
  ued_difficulty :: "string option"
  ued_distance :: "rat option"
  ued_category :: "string option"
  ued_maxParticipants :: "nat option"
  ued_rules :: "string option"

definition applyEventUpdate :: "updateEventDto \<Rightarrow> event \<Rightarrow> event" where
  "applyEventUpdate dto e =
     e\<lparr>ev_title := override (ev_title e) (ued_title dto),
       ev_description := overrideNull (ev_description e) (ued_description dto),
       ev_coHostIds := override (ev_coHostIds e) (ued_coHostIds dto),
       ev_communityId := overrideNull (ev_communityId e) (ued_communityId dto),
       ev_routeId := overrideNull (ev_routeId e) (ued_routeId dto),
       ev_meetingPointLat := override (ev_meetingPointLat e) (ued_meetingPointLat dto),
       ev_meetingPointLng := override (ev_meetingPointLng e) (ued_meetingPointLng dto),
       ev_meetingPointName := override (ev_meetingPointName e) (ued_meetingPointName dto),
       ev_startTime := override (ev_startTime e) (ued_startTime dto),
       ev_endTime := overrideNull (ev_endTime e) (ued_endTime dto),
       ev_visibility := override (ev_visibility e) (ued_visibility dto),
       ev_difficulty := overrideNull (ev_difficulty e) (ued_difficulty dto),
       ev_distance := overrideNull (ev_distance e) (ued_distance dto),
       ev_category := overrideNull (ev_category e) (ued_category dto),
       ev_maxParticipants := overrideNull (ev_maxParticipants e) (ued_maxParticipants dto),
       ev_rules := overrideNull (ev_rules e) (ued_rules dto)\<rparr>"

definition updateEvent ::
  "uid \<Rightarrow> uid \<Rightarrow> updateEventDto \<Rightarrow> 'a event_db_scheme \<Rightarrow> (eventDetail, 'a event_db_scheme) outcome" where
  "updateEvent actorUserId eventId dto w =
     and_then (requireExistingEvent eventId w)
       (\<lambda>e w. if ev_organizerId e \<noteq> actorUserId \<and> actorUserId \<notin> set (ev_coHostIds e)
              then throwHttp Forbidden ''Only organizer or co-hosts may edit'' FORBIDDEN w
              else and_then (updateEventRow eventId (applyEventUpdate dto) w)
                (\<lambda>_ w1. case findUnique ev_id eventId (events w1) of
                   None \<Rightarrow> raise RecordNotFound w1
                 | Some updated \<Rightarrow>
                     ret (eventToDetail updated
                           (map_option ep_rsvpStatus (findParticipation eventId actorUserId w1))) w1))"

definition deleteEvent ::
  "uid \<Rightarrow> uid \<Rightarrow> time \<Rightarrow> 'a event_db_scheme \<Rightarrow> (unit, 'a event_db_scheme) outcome" where
  "deleteEvent actorUserId eventId now w =
     and_then (requireExistingEvent eventId w)
       (\<lambda>e w. if ev_organizerId e \<noteq> actorUserId
              then throwHttp Forbidden ''Only organizer can delete event'' FORBIDDEN w
              else updateEventRow eventId (\<lambda>e. e\<lparr>ev_deletedAt := Some now\<rparr>) w)"

section \<open>Reading\<close>

definition getEventDetail ::
  "uid \<Rightarrow> uid \<Rightarrow> 'a event_db_scheme \<Rightarrow> (eventDetail, 'a event_db_scheme) outcome" where
  "getEventDetail eventId viewerId w =
     and_then (requireExistingEvent eventId w)
       (\<lambda>e w. and_then
          (if ev_visibility e = E_PRIVATE \<and> ev_organizerId e \<noteq> viewerId \<and> viewerId \<notin> set (ev_coHostIds e)
           then if findParticipation eventId viewerId w = None
                then throwHttp Forbidden ''Event is private'' FORBIDDEN w else ret () w
           else ret () w)
          (\<lambda>_ w. ret (eventToDetail e
                   (map_option ep_rsvpStatus (findParticipation eventId viewerId w))) w))"

definition eventSearchRows :: "(string \<Rightarrow> string) \<Rightarrow> string \<Rightarrow> time \<Rightarrow> 'a event_db_scheme \<Rightarrow> event list" where
  "eventSearchRows lower q now w =
     filter (\<lambda>e. ev_deletedAt e = None \<and> ev_visibility e = E_PUBLIC \<and>
         (matchesText lower (trim q) (Some (ev_title e)) \<or> matchesText lower (trim q) (ev_description e)) \<and>
         (now < ev_startTime e \<or>
          ev_startTime e \<le> now \<and> (case ev_endTime e of None \<Rightarrow> True | Some t \<Rightarrow> now \<le> t)))
       (events w)"

definition searchEvents ::
  "(string \<Rightarrow> string) \<Rightarrow> string \<Rightarrow> uid option \<Rightarrow> nat \<Rightarrow> time \<Rightarrow> 'a event_db_scheme \<Rightarrow>
   eventSummary list \<times> uid option" where
  "searchEvents lower q cursor limit now w =
     (let (page, nextCursor) = keysetPage ev_id cursor limit (eventSearchRows lower q now w)
      in (map eventToSummary page, nextCursor))"

definition listMyEvents :: "uid \<Rightarrow> 'a event_db_scheme \<Rightarrow> eventSummary list" where
  "listMyEvents userId w =
     (let participations = rev (sort_key ep_joinedAt
            (filter (\<lambda>p. ep_userId p = userId \<and> ep_rsvpStatus p \<in> {GOING, INTERESTED, WAITLIST})
               (eventParticipants w)));
          rows = List.map_filter (\<lambda>p. findUnique ev_id (ep_eventId p) (events w)) participations
      in map eventToSummary (filter (\<lambda>e. ev_deletedAt e = None) rows))"

record participantDto =
  pd_userId :: uid
  pd_username :: string
  pd_avatarUrl :: "string option"
  pd_rsvpStatus :: rsvpStatus
  pd_checkedIn :: bool
  pd_joinedAt :: time

definition participantDtoOf :: "'a core_db_scheme \<Rightarrow> eventParticipant \<Rightarrow> participantDto option" where
  "participantDtoOf w p =
     map_option (\<lambda>u. \<lparr>pd_userId = ep_userId p, pd_username = u_username u, pd_avatarUrl = u_avatarUrl u,
         pd_rsvpStatus = ep_rsvpStatus p, pd_checkedIn = ep_checkedIn p, pd_joinedAt = ep_joinedAt p\<rparr>)
       (findUser (ep_userId p) w)"

definition listParticipants ::
  "uid \<Rightarrow> uid \<Rightarrow> 'a event_db_scheme \<Rightarrow> (participantDto list, 'a event_db_scheme) outcome" where
  "listParticipants eventId viewerId w =
     and_then (assertViewableEvent eventId viewerId w)
       (\<lambda>_ w. ret (List.map_filter (participantDtoOf w)
          (sort_key (\<lambda>p. (ep_rsvpStatus p, ep_joinedAt p))
             (filter (\<lambda>p. ep_eventId p = eventId) (eventParticipants w)))) w)"

record nearbyEventsQuery =
  neq_lat :: rat
  neq_lng :: rat
  neq_radius :: rat
  neq_limit :: nat
  neq_from :: "time option"
  neq_to :: "time option"

definition startsWithin :: "nearbyEventsQuery \<Rightarrow> time \<Rightarrow> event \<Rightarrow> bool" where
  "startsWithin dto now e \<longleftrightarrow>
     (case neq_from dto of None \<Rightarrow> now | Some t \<Rightarrow> t) \<le> ev_startTime e \<and>
     (case neq_to dto of None \<Rightarrow> True | Some t \<Rightarrow> ev_startTime e \<le> t)"

definition listNearbyEvents ::
  "(nearbyEventsQuery \<Rightarrow> (uid \<times> rat) list option) \<Rightarrow> nearbyEventsQuery \<Rightarrow> time \<Rightarrow> 'a event_db_scheme \<Rightarrow>
   (eventSummary \<times> rat option) list" where
  "listNearbyEvents near dto now w =
     (let rows = (case near dto of None \<Rightarrow> [] | Some rows \<Rightarrow> take (neq_limit dto) rows)
      in if rows = []
         then map (\<lambda>e. (eventToSummary e, None))
                (take (neq_limit dto) (sort_key ev_startTime
                   (filter (\<lambda>e. ev_deletedAt e = None \<and> ev_visibility e = E_PUBLIC \<and> startsWithin dto now e)
                      (events w))))
         else sortByDistance
                (map (\<lambda>e. (eventToSummary e, map_of (rev rows) (ev_id e)))
                   (filter (\<lambda>e. ev_id e \<in> fst ` set rows \<and> ev_deletedAt e = None \<and> startsWithin dto now e)
                      (events w))))"

section \<open>RSVP\<close>

text \<open>\<open>if (event.maxParticipants)\<close>: a limit of 0 counts as none.\<close>

definition seats :: "event \<Rightarrow> nat option" where
  "seats e = (case ev_maxParticipants e of None \<Rightarrow> None | Some m \<Rightarrow> if m = 0 then None else Some m)"

definition goingCount :: "uid \<Rightarrow> 'a event_db_scheme \<Rightarrow> nat" where
  "goingCount eventId w = countRows (\<lambda>p. ep_eventId p = eventId \<and> ep_rsvpStatus p = GOING) (eventParticipants w)"

text \<open>\<open>findFirst({ WAITLIST }, orderBy: { joinedAt: 'asc' })\<close>\<close>

definition firstWaiting :: "uid \<Rightarrow> 'a event_db_scheme \<Rightarrow> eventParticipant option" where
  "firstWaiting eventId w =
     (case sort_key ep_joinedAt
        (filter (\<lambda>p. ep_eventId p = eventId \<and> ep_rsvpStatus p = WAITLIST) (eventParticipants w)) of
        [] \<Rightarrow> None | p # _ \<Rightarrow> Some p)"

definition promoteNext ::
  "uid \<Rightarrow> 'a event_db_scheme \<Rightarrow> (uid list, 'a event_db_scheme) outcome" where
  "promoteNext eventId w =
     (case firstWaiting eventId w of
        None \<Rightarrow> ret [] w
      | Some nxt \<Rightarrow>
          and_then (setRsvp (eventId, ep_userId nxt) GOING w)
            (\<lambda>_ w1. and_then (updateEventRow eventId (addParticipants 1) w1)
               (\<lambda>_ w2. ret [ep_userId nxt] w2)))"

definition withdraw ::
  "event \<Rightarrow> uid \<Rightarrow> eventParticipant \<Rightarrow> 'a event_db_scheme \<Rightarrow> (uid list, 'a event_db_scheme) outcome" where
  "withdraw e userId existing w =
     transaction
       (\<lambda>w. and_then (deleteParticipation (ev_id e, userId) w)
          (\<lambda>_ w1. if ep_rsvpStatus existing = GOING
             then and_then (updateEventRow (ev_id e) (addParticipants (-1)) w1)
                    (\<lambda>_ w2. if seats e \<noteq> None then promoteNext (ev_id e) w2 else ret [] w2)
             else ret [] w1)) w"

definition effectiveRsvp ::
  "event \<Rightarrow> eventParticipant option \<Rightarrow> rsvpStatus \<Rightarrow> 'a event_db_scheme \<Rightarrow> rsvpStatus" where
  "effectiveRsvp e existing status w =
     (case seats e of
        None \<Rightarrow> status
      | Some m \<Rightarrow>
          if status = GOING then
            let going = goingCount (ev_id e) w;
                wasGoing = (map_option ep_rsvpStatus existing = Some GOING);
                effectiveCount = (if wasGoing then going else going + 1)
            in if effectiveCount > m then WAITLIST else status
          else status)"

definition saveRsvp ::
  "uid \<Rightarrow> uid \<Rightarrow> eventParticipant option \<Rightarrow> rsvpStatus \<Rightarrow> time \<Rightarrow> 'a event_db_scheme \<Rightarrow>
   (unit, 'a event_db_scheme) outcome" where
  "saveRsvp eventId userId existing effective now w =
     transaction
       (\<lambda>w. case existing of
          Some ex \<Rightarrow>
            and_then (setRsvp (eventId, userId) effective w)
              (\<lambda>_ w1. and_then
                 (if ep_rsvpStatus ex \<noteq> GOING \<and> effective = GOING
                  then updateEventRow eventId (addParticipants 1) w1 else ret () w1)
                 (\<lambda>_ w2. if ep_rsvpStatus ex = GOING \<and> effective \<noteq> GOING
                         then updateEventRow eventId (addParticipants (-1)) w2 else ret () w2))
        | None \<Rightarrow>
            and_then (createParticipation \<lparr>ep_eventId = eventId, ep_userId = userId,
                ep_rsvpStatus = effective, ep_checkedIn = False, ep_joinedAt = now\<rparr> w)
              (\<lambda>_ w1. if effective = GOING then updateEventRow eventId (addParticipants 1) w1 else ret () w1)) w"

definition rsvp ::
  "uid \<Rightarrow> uid \<Rightarrow> rsvpStatus \<Rightarrow> time \<Rightarrow> 'a event_db_scheme \<Rightarrow>
   (rsvpStatus \<times> uid list option, 'a event_db_scheme) outcome" where
  "rsvp userId eventId status now w =
     and_then (requireExistingEvent eventId w)
       (\<lambda>e w. let existing = findParticipation eventId userId w in
          if status = NOT_GOING
          then case existing of
                 None \<Rightarrow> ret (NOT_GOING, None) w
               | Some ex \<Rightarrow> and_then (withdraw e userId ex w) (\<lambda>promoted w1. ret (NOT_GOING, Some promoted) w1)
          else let effective = effectiveRsvp e existing status w in
               and_then (saveRsvp eventId userId existing effective now w)
                 (\<lambda>_ w1. ret (effective, Some []) w1))"

section \<open>The operations as steps\<close>

datatype event_op =
    CreateEvent uid createEventDto time
  | UpdateEvent uid uid updateEventDto
  | DeleteEvent uid uid time
  | Rsvp uid uid rsvpStatus time

fun eventStep :: "event_op \<Rightarrow> 'a event_db_scheme \<Rightarrow> 'a event_db_scheme" where
  "eventStep (CreateEvent u dto now) w = snd (createEvent u dto now w)"
| "eventStep (UpdateEvent u i dto) w = snd (updateEvent u i dto w)"
| "eventStep (DeleteEvent u i now) w = snd (deleteEvent u i now w)"
| "eventStep (Rsvp u i s now) w = snd (rsvp u i s now w)"

section \<open>What one operation writes\<close>

definition eventWf :: "'a event_db_scheme \<Rightarrow> bool" where
  "eventWf w \<longleftrightarrow> unique ev_id (events w) \<and> unique participationKey (eventParticipants w) \<and>
     ep_eventId ` set (eventParticipants w) \<subseteq> ev_id ` set (events w)"

text \<open>The participants replaced and the count of event \<open>i\<close> moved by \<open>d\<close>.\<close>

definition participationWrite ::
  "uid \<Rightarrow> int \<Rightarrow> eventParticipant list \<Rightarrow> 'a event_db_scheme \<Rightarrow> 'a event_db_scheme" where
  "participationWrite i d ps w =
     w\<lparr>eventParticipants := ps, events := updateMany (\<lambda>r. ev_id r = i) (addParticipants d) (events w)\<rparr>"

lemma participationWrite_fields [simp]:
  "eventParticipants (participationWrite i d ps w) = ps"
  "events (participationWrite i d ps w) = updateMany (\<lambda>r. ev_id r = i) (addParticipants d) (events w)"
  by (simp_all add: participationWrite_def)

lemma event_fields [simp]:
  "ev_id (addParticipants n e) = ev_id e" "ev_participantsCount (addParticipants n e) = ev_participantsCount e + n"
  "ev_deletedAt (addParticipants n e) = ev_deletedAt e"
  "ev_id (applyEventUpdate dto e) = ev_id e" "ev_participantsCount (applyEventUpdate dto e) = ev_participantsCount e"
  "ev_id (newEvent i u cdto now) = i" "ev_participantsCount (newEvent i u cdto now) = 1"
  by (simp_all add: addParticipants_def applyEventUpdate_def newEvent_def)

lemma addParticipants_twice:
  "updateMany (\<lambda>r. ev_id r = i) (addParticipants a) (updateMany (\<lambda>r. ev_id r = i) (addParticipants b) es) =
   updateMany (\<lambda>r. ev_id r = i) (addParticipants (b + a)) es"
  by (simp add: updateMany_def addParticipants_def)

lemma addParticipants_0: "updateMany (\<lambda>r. ev_id r = i) (addParticipants 0) es = es"
  unfolding updateMany_def by (rule map_idI) (simp add: addParticipants_def)

lemma updateEventRow_cases:
  "updateEventRow i f w =
     (if i \<in> ev_id ` set (events w)
      then (Inr (), w\<lparr>events := updateMany (\<lambda>e. ev_id e = i) f (events w)\<rparr>) else (Inl RecordNotFound, w))"
  by (simp add: updateEventRow_def write_or_def updateRow_def raise_def ret_def)

lemma setRsvp_cases:
  "setRsvp k s w =
     (if k \<in> participationKey ` set (eventParticipants w)
      then (Inr (), w\<lparr>eventParticipants :=
              updateMany (\<lambda>p. participationKey p = k) (\<lambda>p. p\<lparr>ep_rsvpStatus := s\<rparr>) (eventParticipants w)\<rparr>)
      else (Inl RecordNotFound, w))"
  by (simp add: setRsvp_def write_or_def updateRow_def raise_def ret_def)

lemma deleteParticipation_cases:
  "deleteParticipation k w =
     (if k \<in> participationKey ` set (eventParticipants w)
      then (Inr (), w\<lparr>eventParticipants := deleteMany (\<lambda>p. participationKey p = k) (eventParticipants w)\<rparr>)
      else (Inl RecordNotFound, w))"
  by (simp add: deleteParticipation_def write_or_def deleteRow_def raise_def ret_def)

lemma createParticipation_cases:
  "createParticipation p w =
     (if ep_eventId p \<notin> ev_id ` set (events w) then (Inl ForeignKeyViolation, w)
      else if participationKey p \<in> participationKey ` set (eventParticipants w) then (Inl UniqueViolation, w)
      else (Inr (), w\<lparr>eventParticipants := eventParticipants w @ [p]\<rparr>))"
  by (simp add: createParticipation_def write_or_def createRow_def raise_def ret_def)

lemma requireExistingEvent_cases:
  "requireExistingEvent i w =
     (case find (\<lambda>e. ev_id e = i \<and> ev_deletedAt e = None) (events w) of
        None \<Rightarrow> (Inl (Http NotFound ''Event not found'' (Some NOT_FOUND) []), w) | Some e \<Rightarrow> (Inr e, w))"
  by (simp add: requireExistingEvent_def throwHttp_def raise_def ret_def split: option.split)

lemma participation_in_table:
  "findParticipation i u w = Some p \<Longrightarrow> p \<in> set (eventParticipants w) \<and> ep_eventId p = i \<and> ep_userId p = u"
  unfolding findParticipation_def by (drule findUnique_Some) simp

lemma participation_key:
  "findParticipation i u w = Some p \<Longrightarrow> (i, u) \<in> participationKey ` set (eventParticipants w)"
  by (drule participation_in_table) (auto intro!: image_eqI [of _ _ p])

lemma firstWaiting_Some:
  "firstWaiting i w = Some p \<Longrightarrow> p \<in> set (eventParticipants w) \<and> ep_eventId p = i \<and> ep_rsvpStatus p = WAITLIST"
proof -
  assume "firstWaiting i w = Some p"
  then obtain ps where "sort_key ep_joinedAt
      (filter (\<lambda>p. ep_eventId p = i \<and> ep_rsvpStatus p = WAITLIST) (eventParticipants w)) = p # ps"
    by (auto simp: firstWaiting_def split: list.splits)
  then have "p \<in> set (sort_key ep_joinedAt
      (filter (\<lambda>p. ep_eventId p = i \<and> ep_rsvpStatus p = WAITLIST) (eventParticipants w)))" by simp
  then show ?thesis by simp
qed

text \<open>The result of \<open>withdraw\<close> and \<open>saveRsvp\<close>: both always succeed.\<close>

lemma withdraw_result:
  assumes "findParticipation (ev_id e) u w = Some ex" and "ev_id e \<in> ev_id ` set (events w)"
    and "ps = deleteMany (\<lambda>p. participationKey p = (ev_id e, u)) (eventParticipants w)"
  shows "withdraw e u ex w =
    (if ep_rsvpStatus ex \<noteq> GOING then (Inr [], participationWrite (ev_id e) 0 ps w)
     else if seats e = None then (Inr [], participationWrite (ev_id e) (-1) ps w)
     else case firstWaiting (ev_id e) (w\<lparr>eventParticipants := ps\<rparr>) of
        None \<Rightarrow> (Inr [], participationWrite (ev_id e) (-1) ps w)
      | Some nxt \<Rightarrow> (Inr [ep_userId nxt], participationWrite (ev_id e) 0
          (updateMany (\<lambda>p. participationKey p = (ev_id e, ep_userId nxt)) (\<lambda>p. p\<lparr>ep_rsvpStatus := GOING\<rparr>) ps) w))"
proof -
  define es where "es = updateMany (\<lambda>r. ev_id r = ev_id e) (addParticipants (-1)) (events w)"
  have ids: "ev_id e \<in> ev_id ` set es" using assms(2) by (simp add: es_def keys_updateMany)
  have start: "withdraw e u ex w = transaction (\<lambda>_.
      if ep_rsvpStatus ex = GOING
      then if seats e \<noteq> None then promoteNext (ev_id e) (w\<lparr>eventParticipants := ps, events := es\<rparr>)
           else (Inr [], w\<lparr>eventParticipants := ps, events := es\<rparr>)
      else (Inr [], w\<lparr>eventParticipants := ps\<rparr>)) w"
    using participation_key [OF assms(1)] assms(2,3)
    by (simp add: withdraw_def transaction_def deleteParticipation_cases updateEventRow_cases es_def ret_def
        del: prod.inject)
  have same: "firstWaiting (ev_id e) (w\<lparr>eventParticipants := ps, events := x\<rparr>) =
      firstWaiting (ev_id e) (w\<lparr>eventParticipants := ps\<rparr>)" for x by (simp add: firstWaiting_def)
  show ?thesis
  proof (cases "firstWaiting (ev_id e) (w\<lparr>eventParticipants := ps\<rparr>)")
    case None
    then show ?thesis
      by (simp add: start transaction_def promoteNext_def same ret_def participationWrite_def addParticipants_0 es_def)
  next
    case (Some nxt)
    then have "(ev_id e, ep_userId nxt) \<in> participationKey ` set ps"
      using firstWaiting_Some [OF Some] by (auto intro!: image_eqI [of _ _ nxt])
    moreover have "updateMany (\<lambda>r. ev_id r = ev_id e) (addParticipants 1) es = events w"
      by (simp add: es_def addParticipants_twice addParticipants_0)
    ultimately show ?thesis using Some ids
      by (simp add: start transaction_def promoteNext_def same ret_def participationWrite_def addParticipants_0
          setRsvp_cases updateEventRow_cases es_def del: prod.inject)
  qed
qed

lemma saveRsvp_result:
  assumes "i \<in> ev_id ` set (events w)" and "existing = findParticipation i u w"
  shows "saveRsvp i u existing s now w =
    (Inr (), case existing of
       Some ex \<Rightarrow> participationWrite i ((if s = GOING then 1 else 0) - (if ep_rsvpStatus ex = GOING then 1 else 0))
         (updateMany (\<lambda>p. participationKey p = (i, u)) (\<lambda>p. p\<lparr>ep_rsvpStatus := s\<rparr>) (eventParticipants w)) w
     | None \<Rightarrow> participationWrite i (if s = GOING then 1 else 0)
         (eventParticipants w @ [\<lparr>ep_eventId = i, ep_userId = u, ep_rsvpStatus = s, ep_checkedIn = False,
            ep_joinedAt = now\<rparr>]) w)"
proof (cases existing)
  case None
  then have "(i, u) \<notin> participationKey ` set (eventParticipants w)"
    using assms(2) by (simp add: findParticipation_def findUnique_None)
  then show ?thesis using None assms(1)
    by (simp add: saveRsvp_def transaction_def createParticipation_cases updateEventRow_cases ret_def
        participationWrite_def addParticipants_0)
next
  case (Some ex)
  then have "(i, u) \<in> participationKey ` set (eventParticipants w)"
    using assms(2) participation_key by metis
  then show ?thesis using Some assms(1)
    by (cases "s = GOING"; cases "ep_rsvpStatus ex = GOING")
       (simp_all add: saveRsvp_def transaction_def setRsvp_cases updateEventRow_cases ret_def
        participationWrite_def addParticipants_0 del: prod.inject)
qed


section \<open>The cached count\<close>

abbreviation goingRows :: "uid \<Rightarrow> int \<Rightarrow> eventParticipant list \<Rightarrow> eventParticipant list \<Rightarrow> bool" where
  "goingRows \<equiv> counted ep_eventId (\<lambda>p. ep_rsvpStatus p = GOING)"

definition participationEffect :: "uid \<Rightarrow> 'a event_db_scheme \<Rightarrow> 'a event_db_scheme \<Rightarrow> bool" where
  "participationEffect i w w' \<longleftrightarrow>
     (\<exists>d ps. w' = participationWrite i d ps w \<and> goingRows i d (eventParticipants w) ps \<and>
        unique participationKey ps \<and> ep_eventId ` set ps \<subseteq> ev_id ` set (events w))"

lemma participationEffectI:
  assumes "w' = participationWrite i d ps w" and "goingRows i d (eventParticipants w) ps"
    and "unique participationKey ps" and "ep_eventId ` set ps \<subseteq> ev_id ` set (events w)"
  shows "participationEffect i w w'"
  using assms unfolding participationEffect_def by blast

lemma setRsvp_rows [simp]:
  "map participationKey (updateMany P (\<lambda>p. p\<lparr>ep_rsvpStatus := s\<rparr>) ps) = map participationKey ps"
  "ep_eventId ` set (updateMany P (\<lambda>p. p\<lparr>ep_rsvpStatus := s\<rparr>) ps) = ep_eventId ` set ps"
  by (simp_all add: map_updateMany keys_updateMany)

lemma going_set:
  assumes "unique participationKey ps" and "p \<in> set ps" and "participationKey p = (i, u)"
    and "d = (if s = GOING then 1 else 0) - (if ep_rsvpStatus p = GOING then 1 else 0)"
  shows "goingRows i d ps (updateMany (\<lambda>p. participationKey p = (i, u)) (\<lambda>p. p\<lparr>ep_rsvpStatus := s\<rparr>) ps)"
proof (rule counted_update [OF assms(1)])
  show "findUnique participationKey (i, u) ps = Some p" using findUnique_iff [OF assms(1)] assms(2,3) by blast
qed (use assms(3,4) in simp_all)

lemma going_delete:
  assumes "unique participationKey ps" and "p \<in> set ps" and "participationKey p = (i, u)"
    and "d = - (if ep_rsvpStatus p = GOING then 1 else 0)"
  shows "goingRows i d ps (deleteMany (\<lambda>p. participationKey p = (i, u)) ps)"
proof (rule counted_delete [OF assms(1)])
  show "findUnique participationKey (i, u) ps = Some p" using findUnique_iff [OF assms(1)] assms(2,3) by blast
qed (use assms(3,4) in simp_all)

lemma withdraw_effect:
  assumes "eventWf w" and "findParticipation (ev_id e) u w = Some ex" and "ev_id e \<in> ev_id ` set (events w)"
  shows "participationEffect (ev_id e) w (snd (withdraw e u ex w))"
proof -
  define ps where "ps = deleteMany (\<lambda>p. participationKey p = (ev_id e, u)) (eventParticipants w)"
  have wf: "unique participationKey (eventParticipants w)" "ep_eventId ` set (eventParticipants w) \<subseteq> ev_id ` set (events w)"
    using assms(1) by (simp_all add: eventWf_def)
  have ex: "ex \<in> set (eventParticipants w)" "participationKey ex = (ev_id e, u)"
    using participation_in_table [OF assms(2)] by simp_all
  have ps: "unique participationKey ps" "ep_eventId ` set ps \<subseteq> ev_id ` set (events w)"
    using wf by (auto simp: ps_def unique_deleteMany)
  have del: "goingRows (ev_id e) (- (if ep_rsvpStatus ex = GOING then 1 else 0)) (eventParticipants w) ps"
    unfolding ps_def by (rule going_delete [OF wf(1) ex refl])
  note result = withdraw_result [OF assms(2,3) ps_def]
  consider "ep_rsvpStatus ex \<noteq> GOING"
    | "ep_rsvpStatus ex = GOING" "snd (withdraw e u ex w) = participationWrite (ev_id e) (-1) ps w"
    | nxt where "ep_rsvpStatus ex = GOING" "firstWaiting (ev_id e) (w\<lparr>eventParticipants := ps\<rparr>) = Some nxt"
        "snd (withdraw e u ex w) = participationWrite (ev_id e) 0
          (updateMany (\<lambda>p. participationKey p = (ev_id e, ep_userId nxt)) (\<lambda>p. p\<lparr>ep_rsvpStatus := GOING\<rparr>) ps) w"
    using result by (cases "firstWaiting (ev_id e) (w\<lparr>eventParticipants := ps\<rparr>)") (fastforce split: if_splits)+
  then show ?thesis
  proof cases
    case 1
    then show ?thesis using result del ps by (intro participationEffectI [of _ _ 0 ps]) simp_all
  next
    case 2
    then show ?thesis using del ps by (intro participationEffectI [of _ _ "-1" ps]) simp_all
  next
    case 3
    have "goingRows (ev_id e) 1 ps
        (updateMany (\<lambda>p. participationKey p = (ev_id e, ep_userId nxt)) (\<lambda>p. p\<lparr>ep_rsvpStatus := GOING\<rparr>) ps)"
      using firstWaiting_Some [OF 3(2)] by (intro going_set [OF ps(1), of nxt]) simp_all
    from counted_trans [OF del this] show ?thesis using 3 ps
      by (intro participationEffectI [OF 3(3)]) simp_all
  qed
qed

lemma saveRsvp_effect:
  assumes "eventWf w" and "i \<in> ev_id ` set (events w)"
  shows "participationEffect i w (snd (saveRsvp i u (findParticipation i u w) s now w))"
proof -
  have wf: "unique participationKey (eventParticipants w)" "ep_eventId ` set (eventParticipants w) \<subseteq> ev_id ` set (events w)"
    using assms(1) by (simp_all add: eventWf_def)
  note result = saveRsvp_result [OF assms(2) refl, of u s now]
  show ?thesis
  proof (cases "findParticipation i u w")
    case None
    then have "(i, u) \<notin> participationKey ` set (eventParticipants w)"
      by (simp add: findParticipation_def findUnique_None)
    then show ?thesis using None result wf assms(2)
      by (intro participationEffectI [of _ i "if s = GOING then 1 else 0"
            "eventParticipants w @ [\<lparr>ep_eventId = i, ep_userId = u, ep_rsvpStatus = s, ep_checkedIn = False,
               ep_joinedAt = now\<rparr>]"]) (simp_all add: counted_append)
  next
    case (Some ex)
    note row = participation_in_table [OF Some]
    show ?thesis
    proof (rule participationEffectI)
      show "snd (saveRsvp i u (findParticipation i u w) s now w) =
          participationWrite i ((if s = GOING then 1 else 0) - (if ep_rsvpStatus ex = GOING then 1 else 0))
            (updateMany (\<lambda>p. participationKey p = (i, u)) (\<lambda>p. p\<lparr>ep_rsvpStatus := s\<rparr>) (eventParticipants w)) w"
        using result Some by simp
    qed (use row wf in \<open>simp_all add: going_set [of _ ex] del: prod.inject\<close>)
  qed
qed

lemma find_live_id:
  "find (\<lambda>e. ev_id e = i \<and> ev_deletedAt e = None) (events w) = Some e \<Longrightarrow> ev_id e = i \<and> i \<in> ev_id ` set (events w)"
  by (auto dest!: find_row)

lemma rsvp_effect:
  assumes "eventWf w"
  shows "snd (rsvp u i s now w) = w \<or> participationEffect i w (snd (rsvp u i s now w))"
proof (cases "find (\<lambda>e. ev_id e = i \<and> ev_deletedAt e = None) (events w)")
  case None
  then show ?thesis by (simp add: rsvp_def requireExistingEvent_cases)
next
  case (Some e)
  note e = find_live_id [OF Some]
  show ?thesis
  proof (cases "s = NOT_GOING")
    case True
    then show ?thesis using Some e withdraw_effect [OF assms, of e u]
      by (cases "findParticipation i u w") (auto simp: rsvp_def requireExistingEvent_cases Let_def)
  next
    case False
    then show ?thesis using Some e saveRsvp_effect [OF assms, of i u]
      by (auto simp: rsvp_def requireExistingEvent_cases Let_def)
  qed
qed


lemma createEvent_writes:
  "snd (createEvent u dto now w) = w \<or>
   newUuid w \<notin> ev_id ` set (events w) \<and>
   snd (createEvent u dto now w) = (takeUuid w)\<lparr>events := events w @ [newEvent (newUuid w) u dto now],
     eventParticipants := eventParticipants w @ [\<lparr>ep_eventId = newUuid w, ep_userId = u,
       ep_rsvpStatus = GOING, ep_checkedIn = False, ep_joinedAt = now\<rparr>]\<rparr>"
proof (cases "case ced_communityId dto of None \<Rightarrow> ret () w | Some c \<Rightarrow> assertCommunityPrivilege c u w")
  case (Pair r v)
  then have "v = w"
    by (auto simp: assertCommunityPrivilege_def ret_def throwHttp_def raise_def split: option.splits if_splits)
  then show ?thesis using Pair
    by (cases r) (auto simp: createEvent_def transaction_def write_or_def createRow_def
        createParticipation_cases ret_def raise_def takeUuid_def Let_def)
qed

lemma updateEvent_writes:
  "snd (updateEvent u i dto w) = w \<or>
   snd (updateEvent u i dto w) = w\<lparr>events := updateMany (\<lambda>r. ev_id r = i) (applyEventUpdate dto) (events w)\<rparr>"
  by (auto simp: updateEvent_def requireExistingEvent_cases updateEventRow_cases split: option.split)

lemma deleteEvent_writes:
  "snd (deleteEvent u i now w) = w \<or>
   snd (deleteEvent u i now w) = w\<lparr>events := updateMany (\<lambda>r. ev_id r = i) (\<lambda>e. e\<lparr>ev_deletedAt := Some now\<rparr>) (events w)\<rparr>"
  by (auto simp: deleteEvent_def requireExistingEvent_cases updateEventRow_cases split: option.split)

definition participantsColumn :: "'a event_db_scheme \<Rightarrow> uid \<Rightarrow> int option" where
  "participantsColumn w k = map_option ev_participantsCount (findUnique ev_id k (events w))"

lemma eventStep_effect:
  assumes "eventWf w"
  shows "eventStep x w = w \<or> (\<exists>i. participationEffect i w (eventStep x w)) \<or>
    (\<exists>u dto now. newUuid w \<notin> ev_id ` set (events w) \<and>
       eventStep x w = (takeUuid w)\<lparr>events := events w @ [newEvent (newUuid w) u dto now],
         eventParticipants := eventParticipants w @ [\<lparr>ep_eventId = newUuid w, ep_userId = u,
           ep_rsvpStatus = GOING, ep_checkedIn = False, ep_joinedAt = now\<rparr>]\<rparr>) \<or>
    (\<exists>i f. eventStep x w = w\<lparr>events := updateMany (\<lambda>r. ev_id r = i) f (events w)\<rparr> \<and>
       (\<forall>e. ev_id (f e) = ev_id e \<and> ev_participantsCount (f e) = ev_participantsCount e))"
proof (cases x)
  case (CreateEvent u dto now)
  then show ?thesis using createEvent_writes [of u dto now w] by (simp only: eventStep.simps) blast
next
  case (UpdateEvent u i dto)
  have "\<forall>e. ev_id (applyEventUpdate dto e) = ev_id e \<and>
      ev_participantsCount (applyEventUpdate dto e) = ev_participantsCount e" by simp
  then show ?thesis using UpdateEvent updateEvent_writes [of u i dto w] by (simp only: eventStep.simps) blast
next
  case (DeleteEvent u i now)
  have "\<forall>e. ev_id (e\<lparr>ev_deletedAt := Some now\<rparr>) = ev_id e \<and>
      ev_participantsCount (e\<lparr>ev_deletedAt := Some now\<rparr>) = ev_participantsCount e" by simp
  then show ?thesis using DeleteEvent deleteEvent_writes [of u i now w] by (simp only: eventStep.simps) blast
next
  case (Rsvp u i s now)
  then show ?thesis using rsvp_effect [OF assms, of u i s now] by (simp only: eventStep.simps) blast
qed

lemma eventWf_step:
  assumes "eventWf w" shows "eventWf (eventStep x w)"
  using eventStep_effect [OF assms, of x]
proof (elim disjE exE conjE)
  fix i
  assume "participationEffect i w (eventStep x w)"
  then obtain d ps where step: "eventStep x w = participationWrite i d ps w"
    and ps: "unique participationKey ps" "ep_eventId ` set ps \<subseteq> ev_id ` set (events w)"
    by (auto simp: participationEffect_def)
  show ?thesis using assms ps by (simp add: step eventWf_def map_updateMany keys_updateMany)
next
  fix u dto now
  assume new: "newUuid w \<notin> ev_id ` set (events w)"
    and step: "eventStep x w = (takeUuid w)\<lparr>events := events w @ [newEvent (newUuid w) u dto now],
      eventParticipants := eventParticipants w @ [\<lparr>ep_eventId = newUuid w, ep_userId = u,
        ep_rsvpStatus = GOING, ep_checkedIn = False, ep_joinedAt = now\<rparr>]\<rparr>"
  have "(newUuid w, u) \<notin> participationKey ` set (eventParticipants w)"
    using new assms by (auto simp: eventWf_def)
  then show ?thesis using new assms by (simp add: step eventWf_def takeUuid_def subset_insertI2)
next
  fix i f
  assume "eventStep x w = w\<lparr>events := updateMany (\<lambda>r. ev_id r = i) f (events w)\<rparr>"
    "\<forall>e. ev_id (f e) = ev_id e \<and> ev_participantsCount (f e) = ev_participantsCount e"
  then show ?thesis using assms by (simp add: eventWf_def map_updateMany keys_updateMany)
qed (use assms in simp)

lemma participants_moves:
  assumes "eventWf w"
  shows "moves_together (participantsColumn w k) (goingCount k w)
    (participantsColumn (eventStep x w) k) (goingCount k (eventStep x w))"
  using eventStep_effect [OF assms, of x]
proof (elim disjE exE conjE)
  fix i
  assume "participationEffect i w (eventStep x w)"
  then show ?thesis
    by (cases "findUnique ev_id k (events w)")
       (auto simp: participationEffect_def participantsColumn_def goingCount_def column_update counted_def)
next
  fix u dto now
  assume new: "newUuid w \<notin> ev_id ` set (events w)"
    and step: "eventStep x w = (takeUuid w)\<lparr>events := events w @ [newEvent (newUuid w) u dto now],
      eventParticipants := eventParticipants w @ [\<lparr>ep_eventId = newUuid w, ep_userId = u,
        ep_rsvpStatus = GOING, ep_checkedIn = False, ep_joinedAt = now\<rparr>]\<rparr>"
  have "findUnique ev_id k (events w) = None \<Longrightarrow>
      countRows (\<lambda>p. ep_eventId p = k \<and> ep_rsvpStatus p = GOING) (eventParticipants w) = 0"
    using assms by (auto simp: eventWf_def countRows_0 findUnique_None)
  moreover have "findUnique ev_id (newUuid w) (events w) = None" using new by (simp add: findUnique_None)
  ultimately show ?thesis
    by (auto simp: step participantsColumn_def goingCount_def takeUuid_def findUnique_append split: option.split)
next
  fix i f
  assume "eventStep x w = w\<lparr>events := updateMany (\<lambda>r. ev_id r = i) f (events w)\<rparr>"
    "\<forall>e. ev_id (f e) = ev_id e \<and> ev_participantsCount (f e) = ev_participantsCount e"
  then show ?thesis
    by (cases "findUnique ev_id k (events w)") (auto simp: participantsColumn_def goingCount_def column_update)
qed simp

interpretation participants_cache: counter_cache participantsColumn "\<lambda>w k. goingCount k w" eventWf eventStep
  by unfold_locales (rule eventWf_step participants_moves, assumption)+

section \<open>The waiting line: an abstract RSVP\<close>

text \<open>
  What the RSVP promises, without tables and counters: an event is a line of users with
  their answers in order of arrival and a number of seats. Withdrawing frees the seat for
  the first who waits; answering GOING when the seats are taken means waiting.
\<close>

type_synonym line = "(uid \<times> rsvpStatus) list"

definition going :: "line \<Rightarrow> nat" where
  "going l = countRows (\<lambda>x. snd x = GOING) l"

fun promoteLine :: "line \<Rightarrow> uid list \<times> line" where
  "promoteLine [] = ([], [])"
| "promoteLine ((u, s) # l) =
     (if s = WAITLIST then ([u], (u, GOING) # l) else (let (p, l') = promoteLine l in (p, (u, s) # l')))"

definition putLine :: "uid \<Rightarrow> rsvpStatus \<Rightarrow> line \<Rightarrow> line" where
  "putLine u s l =
     (if u \<in> fst ` set l then updateMany (\<lambda>x. fst x = u) (\<lambda>_. (u, s)) l else l @ [(u, s)])"

definition admit :: "nat option \<Rightarrow> uid \<Rightarrow> rsvpStatus \<Rightarrow> line \<Rightarrow> rsvpStatus" where
  "admit cap u s l =
     (case cap of None \<Rightarrow> s
      | Some m \<Rightarrow> if s = GOING \<and> going l + (if (u, GOING) \<in> set l then 0 else 1) > m then WAITLIST else s)"

definition absRsvp :: "nat option \<Rightarrow> uid \<Rightarrow> rsvpStatus \<Rightarrow> line \<Rightarrow> (rsvpStatus \<times> uid list option) \<times> line" where
  "absRsvp cap u s l =
     (if s = NOT_GOING then
        if u \<notin> fst ` set l then ((NOT_GOING, None), l)
        else let rest = deleteMany (\<lambda>x. fst x = u) l in
             if (u, GOING) \<in> set l \<and> cap \<noteq> None
             then let (p, l') = promoteLine rest in ((NOT_GOING, Some p), l')
             else ((NOT_GOING, Some []), rest)
      else let s' = admit cap u s l in ((s', Some []), putLine u s' l))"

lemma promoteLine_going: "going (snd (promoteLine l)) = going l + length (fst (promoteLine l))"
  by (induction l rule: promoteLine.induct) (auto simp: going_def countRows_Cons split: prod.splits)

lemma promoteLine_one: "length (fst (promoteLine l)) \<le> 1"
  by (induction l rule: promoteLine.induct) (auto split: prod.splits)

lemma line_entry:
  assumes "distinct (map fst l)" and "u \<in> fst ` set l"
  shows "\<exists>t. findUnique fst u l = Some (u, t) \<and> ((u, GOING) \<in> set l \<longleftrightarrow> t = GOING)"
proof -
  from assms(2) obtain t where t: "(u, t) \<in> set l" by auto
  then have "(u, GOING) \<in> set l \<longleftrightarrow> t = GOING"
    using unique_row [OF assms(1) t, of "(u, GOING)"] by auto
  moreover have "findUnique fst u l = Some (u, t)" using t findUnique_iff [OF assms(1)] by simp
  ultimately show ?thesis by blast
qed

lemma going_out:
  assumes "distinct (map fst l)" and "u \<in> fst ` set l"
  shows "int (going (deleteMany (\<lambda>x. fst x = u) l)) = int (going l) - (if (u, GOING) \<in> set l then 1 else 0)"
proof -
  obtain t where t: "findUnique fst u l = Some (u, t)" "(u, GOING) \<in> set l \<longleftrightarrow> t = GOING"
    using line_entry [OF assms] by blast
  show ?thesis using countRows_delete_key [OF assms(1) t(1), of "\<lambda>x. snd x = GOING"] t(2) by (simp add: going_def)
qed

lemma going_put:
  assumes "distinct (map fst l)"
  shows "int (going (putLine u s l)) =
    int (going l) - (if (u, GOING) \<in> set l then 1 else 0) + (if s = GOING then 1 else 0)"
proof (cases "u \<in> fst ` set l")
  case True
  obtain t where t: "findUnique fst u l = Some (u, t)" "(u, GOING) \<in> set l \<longleftrightarrow> t = GOING"
    using line_entry [OF assms True] by blast
  show ?thesis
    using countRows_update_key [OF assms t(1), of "\<lambda>x. snd x = GOING" "\<lambda>_. (u, s)"] True t(2)
    by (simp add: putLine_def going_def)
next
  case False
  then have "(u, GOING) \<notin> set l" by (auto simp: image_iff)
  then show ?thesis using False by (simp add: putLine_def going_def)
qed

text \<open>The seats are never oversold by an answer.\<close>

lemma absRsvp_capacity:
  assumes "distinct (map fst l)" and "cap = Some m"
  shows "going (snd (absRsvp cap u s l)) \<le> max m (going l)"
proof (cases "s = NOT_GOING")
  case True
  define rest where "rest = deleteMany (\<lambda>x. fst x = u) l"
  have p: "going (snd (promoteLine rest)) \<le> going rest + 1"
    using promoteLine_going [of rest] promoteLine_one [of rest] by simp
  have "u \<in> fst ` set l \<Longrightarrow> int (going rest) = int (going l) - (if (u, GOING) \<in> set l then 1 else 0)"
    unfolding rest_def by (rule going_out [OF assms(1)])
  then show ?thesis using True p
    by (cases "u \<in> fst ` set l"; cases "(u, GOING) \<in> set l")
       (auto simp: absRsvp_def Let_def rest_def [symmetric] assms(2) split: prod.splits)
next
  case False
  have "int (going (putLine u (admit cap u s l) l)) \<le> max (int m) (int (going l))"
    unfolding going_put [OF assms(1)] by (auto simp: admit_def assms(2) max_def)
  then show ?thesis using False by (simp add: absRsvp_def Let_def)
qed

subsection \<open>The line of an event\<close>

definition arrivals :: "uid \<Rightarrow> eventParticipant list \<Rightarrow> eventParticipant list" where
  "arrivals i ps = sort_key ep_joinedAt (filter (\<lambda>p. ep_eventId p = i) ps)"

definition entry :: "eventParticipant \<Rightarrow> uid \<times> rsvpStatus" where
  "entry p = (ep_userId p, ep_rsvpStatus p)"

definition lineOf :: "uid \<Rightarrow> 'a event_db_scheme \<Rightarrow> line" where
  "lineOf i w = map entry (arrivals i (eventParticipants w))"

lemma insort_key_last: "k y \<le> k x \<Longrightarrow> insort_key k y (l @ [x]) = insort_key k y l @ [x]"
  by (induction l) auto

lemma sort_key_last: "\<forall>y \<in> set xs. k y \<le> k x \<Longrightarrow> sort_key k (xs @ [x]) = sort_key k xs @ [x]"
  by (induction xs) (auto simp: insort_key_last)

lemma arrivals_delete:
  "arrivals i (deleteMany (\<lambda>p. participationKey p = (i, u)) ps) = deleteMany (\<lambda>p. ep_userId p = u) (arrivals i ps)"
  by (simp add: arrivals_def deleteMany_def filter_sort) (rule arg_cong [of _ _ "sort_key ep_joinedAt"], metis)

lemma arrivals_set:
  "arrivals i (updateMany (\<lambda>p. participationKey p = (i, u)) (\<lambda>p. p\<lparr>ep_rsvpStatus := s\<rparr>) ps) =
   updateMany (\<lambda>p. ep_userId p = u) (\<lambda>p. p\<lparr>ep_rsvpStatus := s\<rparr>) (arrivals i ps)"
proof -
  define f :: "eventParticipant \<Rightarrow> eventParticipant" where
    "f = (\<lambda>p. if ep_userId p = u then p\<lparr>ep_rsvpStatus := s\<rparr> else p)"
  have "filter (\<lambda>p. ep_eventId p = i)
      (updateMany (\<lambda>p. participationKey p = (i, u)) (\<lambda>p. p\<lparr>ep_rsvpStatus := s\<rparr>) ps) =
    map f (filter (\<lambda>p. ep_eventId p = i) ps)"
    by (induction ps) (auto simp: updateMany_def f_def)
  moreover have "ep_joinedAt (f p) = ep_joinedAt p" for p by (simp add: f_def)
  ultimately show ?thesis
    by (simp add: arrivals_def sort_key_map) (simp add: updateMany_def f_def)
qed

lemma arrivals_append:
  assumes "\<forall>q \<in> set ps. ep_eventId q = ep_eventId p \<longrightarrow> ep_joinedAt q \<le> ep_joinedAt p"
  shows "arrivals (ep_eventId p) (ps @ [p]) = arrivals (ep_eventId p) ps @ [p]"
  using assms by (simp add: arrivals_def sort_key_last)


lemma entry_delete:
  "map entry (deleteMany (\<lambda>p. ep_userId p = u) ps) = deleteMany (\<lambda>x. fst x = u) (map entry ps)"
  by (simp add: deleteMany_def filter_map comp_def entry_def)

lemma entry_set:
  "map entry (updateMany (\<lambda>p. ep_userId p = u) (\<lambda>p. p\<lparr>ep_rsvpStatus := s\<rparr>) ps) =
   updateMany (\<lambda>x. fst x = u) (\<lambda>_. (u, s)) (map entry ps)"
  by (auto simp: updateMany_def entry_def)

lemma promoteLine_entry:
  assumes "distinct (map ep_userId ps)"
  shows "promoteLine (map entry ps) =
    (case filter (\<lambda>p. ep_rsvpStatus p = WAITLIST) ps of
       [] \<Rightarrow> ([], map entry ps)
     | p # _ \<Rightarrow> ([ep_userId p],
         map entry (updateMany (\<lambda>q. ep_userId q = ep_userId p) (\<lambda>q. q\<lparr>ep_rsvpStatus := GOING\<rparr>) ps)))"
  using assms
proof (induction ps)
  case Nil
  then show ?case by simp
next
  case (Cons a ps)
  show ?case
  proof (cases "ep_rsvpStatus a = WAITLIST")
    case True
    have "updateMany (\<lambda>q. ep_userId q = ep_userId a) (\<lambda>q. q\<lparr>ep_rsvpStatus := GOING\<rparr>) ps = ps"
      unfolding updateMany_def using Cons.prems by (intro map_idI) (auto simp: image_iff)
    then show ?thesis using True by (simp add: entry_def updateMany_def)
  next
    case False
    show ?thesis
    proof (cases "filter (\<lambda>p. ep_rsvpStatus p = WAITLIST) ps")
      case Nil
      then show ?thesis using False Cons by (simp add: entry_def)
    next
      case (Cons p rest)
      then have "p \<in> set (filter (\<lambda>p. ep_rsvpStatus p = WAITLIST) ps)" by simp
      then have "ep_userId a \<noteq> ep_userId p" using Cons.prems by auto
      then show ?thesis using False Cons Cons.IH Cons.prems by (simp add: entry_def updateMany_def)
    qed
  qed
qed

lemma firstWaiting_arrivals:
  "firstWaiting i w = (case filter (\<lambda>p. ep_rsvpStatus p = WAITLIST) (arrivals i (eventParticipants w)) of
     [] \<Rightarrow> None | p # _ \<Rightarrow> Some p)"
  by (simp add: firstWaiting_def arrivals_def filter_sort conj_commute)

lemma set_arrivals [simp]: "set (arrivals i ps) = {p \<in> set ps. ep_eventId p = i}"
  by (simp add: arrivals_def)

lemma distinct_arrivals:
  assumes "unique participationKey ps" shows "distinct (map ep_userId (arrivals i ps))"
proof -
  have "distinct (map ep_userId (filter (\<lambda>p. ep_eventId p = i) ps))"
    using assms by (induction ps) (auto simp: image_iff)
  moreover have "mset (map ep_userId (arrivals i ps)) = mset (map ep_userId (filter (\<lambda>p. ep_eventId p = i) ps))"
    by (simp add: arrivals_def)
  ultimately show ?thesis using mset_eq_imp_distinct_iff by blast
qed

lemma distinct_line:
  "eventWf w \<Longrightarrow> distinct (map fst (lineOf i w))"
  using distinct_arrivals [of "eventParticipants w" i]
  by (simp add: eventWf_def lineOf_def comp_def entry_def)

lemma in_line: "u \<in> fst ` set (lineOf i w) \<longleftrightarrow> findParticipation i u w \<noteq> None"
  by (force simp: lineOf_def entry_def findParticipation_def findUnique_None image_iff)

lemma status_in_line:
  assumes "eventWf w" and "findParticipation i u w = Some p"
  shows "(u, s) \<in> set (lineOf i w) \<longleftrightarrow> ep_rsvpStatus p = s"
proof
  note row = participation_in_table [OF assms(2)]
  then show "ep_rsvpStatus p = s \<Longrightarrow> (u, s) \<in> set (lineOf i w)"
    by (auto simp: lineOf_def entry_def intro!: image_eqI [of _ _ p])
  assume "(u, s) \<in> set (lineOf i w)"
  then obtain q where q: "q \<in> set (eventParticipants w)" "participationKey q = (i, u)" "ep_rsvpStatus q = s"
    by (auto simp: lineOf_def entry_def)
  then have "q = p" using row assms(1) unique_row [of participationKey "eventParticipants w" q p]
    by (simp add: eventWf_def)
  then show "ep_rsvpStatus p = s" using q(3) by simp
qed

lemma going_line: "going (lineOf i w) = goingCount i w"
proof -
  have "going (lineOf i w) = length (filter (\<lambda>p. ep_rsvpStatus p = GOING) (arrivals i (eventParticipants w)))"
    by (simp add: going_def lineOf_def countRows_def filter_map comp_def entry_def)
  then show ?thesis by (simp add: arrivals_def filter_sort goingCount_def countRows_def conj_commute)
qed

lemma lineOf_write [simp]: "lineOf k (participationWrite i d ps w) = map entry (arrivals k ps)"
  by (simp add: lineOf_def)

lemma withdraw_line:
  assumes "eventWf w" and "findParticipation i u w = Some ex" and "ev_id e = i" and "i \<in> ev_id ` set (events w)"
  shows "(fst (withdraw e u ex w), lineOf i (snd (withdraw e u ex w))) =
    (if (u, GOING) \<in> set (lineOf i w) \<and> seats e \<noteq> None
     then (Inr (fst (promoteLine (deleteMany (\<lambda>x. fst x = u) (lineOf i w)))),
           snd (promoteLine (deleteMany (\<lambda>x. fst x = u) (lineOf i w))))
     else (Inr [], deleteMany (\<lambda>x. fst x = u) (lineOf i w)))"
proof -
  define ps where "ps = deleteMany (\<lambda>p. participationKey p = (i, u)) (eventParticipants w)"
  have rest: "deleteMany (\<lambda>x. fst x = u) (lineOf i w) = map entry (arrivals i ps)"
    unfolding ps_def lineOf_def arrivals_delete by (rule entry_delete [symmetric])
  have "unique participationKey ps" using assms(1) by (simp add: ps_def eventWf_def unique_deleteMany)
  note promoted = promoteLine_entry [OF distinct_arrivals [OF this]]
  have result: "withdraw e u ex w =
    (if ep_rsvpStatus ex \<noteq> GOING then (Inr [], participationWrite i 0 ps w)
     else if seats e = None then (Inr [], participationWrite i (-1) ps w)
     else case filter (\<lambda>p. ep_rsvpStatus p = WAITLIST) (arrivals i ps) of
        [] \<Rightarrow> (Inr [], participationWrite i (-1) ps w)
      | nxt # _ \<Rightarrow> (Inr [ep_userId nxt], participationWrite i 0
          (updateMany (\<lambda>p. participationKey p = (i, ep_userId nxt)) (\<lambda>p. p\<lparr>ep_rsvpStatus := GOING\<rparr>) ps) w))"
    using withdraw_result [of e u w ex ps] assms(2-4)
    by (simp add: ps_def firstWaiting_arrivals split: list.split)
  show ?thesis
    unfolding rest promoted result status_in_line [OF assms(1,2)]
    by (simp add: arrivals_set [simplified] entry_set [simplified] split: list.split)
qed

lemma saveRsvp_line:
  assumes "eventWf w" and "i \<in> ev_id ` set (events w)"
    and "\<forall>p \<in> set (eventParticipants w). ep_eventId p = i \<longrightarrow> ep_joinedAt p \<le> now"
  shows "fst (saveRsvp i u (findParticipation i u w) s now w) = Inr () \<and>
    lineOf i (snd (saveRsvp i u (findParticipation i u w) s now w)) = putLine u s (lineOf i w)"
proof (cases "findParticipation i u w")
  case None
  then have "u \<notin> fst ` set (lineOf i w)" by (simp add: in_line)
  moreover have "arrivals i (eventParticipants w @ [\<lparr>ep_eventId = i, ep_userId = u, ep_rsvpStatus = s, ep_checkedIn = False,
      ep_joinedAt = now\<rparr>]) = arrivals i (eventParticipants w) @ [\<lparr>ep_eventId = i, ep_userId = u, ep_rsvpStatus = s,
      ep_checkedIn = False, ep_joinedAt = now\<rparr>]"
    using arrivals_append [of "eventParticipants w" "\<lparr>ep_eventId = i, ep_userId = u, ep_rsvpStatus = s,
      ep_checkedIn = False, ep_joinedAt = now\<rparr>"] assms(3) by simp
  ultimately show ?thesis
    using None saveRsvp_result [OF assms(2) refl, of u s now] by (simp add: putLine_def lineOf_def entry_def)
next
  case (Some ex)
  then have "u \<in> fst ` set (lineOf i w)" by (simp add: in_line)
  then show ?thesis
    using Some saveRsvp_result [OF assms(2) refl, of u s now]
    by (simp add: putLine_def arrivals_set [simplified] entry_set [simplified] lineOf_def)
qed

lemma effectiveRsvp_admit:
  assumes "eventWf w" and "ev_id e = i"
  shows "effectiveRsvp e (findParticipation i u w) s w = admit (seats e) u s (lineOf i w)"
proof (cases "findParticipation i u w")
  case None
  then have "(u, GOING) \<notin> set (lineOf i w)" using in_line [of u i w] by (auto simp: image_iff)
  then show ?thesis using None assms(2)
    by (simp add: effectiveRsvp_def admit_def going_line Let_def split: option.split)
next
  case (Some p)
  then show ?thesis using status_in_line [OF assms(1) Some, of GOING] assms(2)
    by (simp add: effectiveRsvp_def admit_def going_line Let_def split: option.split)
qed


lemma rsvp_line:
  assumes "eventWf w" and "find (\<lambda>e. ev_id e = i \<and> ev_deletedAt e = None) (events w) = Some e"
    and "\<forall>p \<in> set (eventParticipants w). ep_eventId p = i \<longrightarrow> ep_joinedAt p \<le> now"
  shows "(fst (rsvp u i s now w), lineOf i (snd (rsvp u i s now w))) =
      (Inr (fst (absRsvp (seats e) u s (lineOf i w))), snd (absRsvp (seats e) u s (lineOf i w)))"
proof -
  note e = find_live_id [OF assms(2)]
  have after: "fst (and_then r (\<lambda>x w. ret (g x) w)) = (case fst r of Inl e \<Rightarrow> Inl e | Inr x \<Rightarrow> Inr (g x))"
    for r :: "('x, 'a event_db_scheme) outcome" and g :: "'x \<Rightarrow> 'y" by (cases r; cases "fst r") auto
  show ?thesis
  proof (cases "s = NOT_GOING")
    case True
    show ?thesis
    proof (cases "findParticipation i u w")
      case None
      then show ?thesis using True assms(2) in_line [of u i w]
        by (simp add: rsvp_def requireExistingEvent_cases absRsvp_def)
    next
      case (Some ex)
      then show ?thesis using True assms(2) in_line [of u i w] withdraw_line [OF assms(1) Some, of e] e
        by (auto simp: rsvp_def requireExistingEvent_cases absRsvp_def Let_def after split: prod.split if_splits)
    qed
  next
    case False
    then show ?thesis
      using assms(2) saveRsvp_line [OF assms(1) _ assms(3), of u] effectiveRsvp_admit [OF assms(1), of e i u s] e
      by (simp add: rsvp_def requireExistingEvent_cases absRsvp_def Let_def after)
  qed
qed

section \<open>Properties\<close>


definition sampleEventDto :: "nat option \<Rightarrow> createEventDto" where
  "sampleEventDto cap =
     \<lparr>ced_title = ''Ride'', ced_description = None, ced_communityId = None, ced_coHostIds = [],
      ced_routeId = None, ced_meetingPointLat = 41, ced_meetingPointLng = 29,
      ced_meetingPointName = ''Pier'', ced_startTime = 1000, ced_endTime = None,
      ced_visibility = E_PUBLIC, ced_difficulty = None, ced_distance = None, ced_category = None,
      ced_maxParticipants = cap, ced_rules = None\<rparr>"

definition sampleEvents :: event_db where
  "sampleEvents = community_db.extend sampleCommunities \<lparr>events = [], eventParticipants = []\<rparr>"

text \<open>A ride with two seats: \<open>a\<close> hosts, \<open>b\<close> goes, \<open>c\<close> and then \<open>d\<close> wait.\<close>

definition sampleMeet :: event_db where
  "sampleMeet = fold eventStep [CreateEvent ''a'' (sampleEventDto (Some 2)) 1, Rsvp ''b'' [] GOING 2,
     Rsvp ''c'' [] GOING 3, Rsvp ''d'' [] GOING 4] sampleEvents"

lemma sampleMeet_facts:
  "eventWf sampleMeet" "eventParticipants sampleMeet =
     map (\<lambda>(u, s, t). \<lparr>ep_eventId = [], ep_userId = u, ep_rsvpStatus = s, ep_checkedIn = False, ep_joinedAt = t\<rparr>)
       [(''a'', GOING, 1), (''b'', GOING, 2), (''c'', WAITLIST, 3), (''d'', WAITLIST, 4)]"
  "map_option seats (find (\<lambda>e. ev_id e = [] \<and> ev_deletedAt e = None) (events sampleMeet)) = Some (Some 2)"
  by code_simp+


text \<open>
  \<open>participantsCount\<close> of every event is the number of its GOING rows after any sequence
  of event operations, and it is never negative.
\<close>

theorem participants_count_exact:
  assumes "eventWf w" and "\<forall>e \<in> set (events w). ev_participantsCount e = int (goingCount (ev_id e) w)"
  shows "\<forall>e \<in> set (events (fold eventStep ops w)).
    ev_participantsCount e = int (goingCount (ev_id e) (fold eventStep ops w)) \<and> 0 \<le> ev_participantsCount e"
proof -
  have iff: "participants_cache.consistent v \<longleftrightarrow>
      eventWf v \<and> (\<forall>e \<in> set (events v). ev_participantsCount e = int (goingCount (ev_id e) v))" for v :: "'a event_db_scheme"
    using findUnique_iff [of ev_id "events v"]
    by (fastforce simp: participants_cache.consistent_def participantsColumn_def eventWf_def)
  have "participants_cache.consistent w" using assms iff by blast
  then have "participants_cache.consistent (fold eventStep ops w)" by (rule participants_cache.cache.run_inv)
  then show ?thesis using iff by force
qed

theorem participants_count_exact_witness:
  "list_all (\<lambda>e. ev_participantsCount e = int (goingCount (ev_id e) (fold eventStep [Rsvp ''b'' [] NOT_GOING 9] sampleMeet)))
     (events (fold eventStep [Rsvp ''b'' [] NOT_GOING 9] sampleMeet))"
proof -
  have "\<forall>e \<in> set (events sampleMeet). ev_participantsCount e = int (goingCount (ev_id e) sampleMeet)" by code_simp
  from participants_count_exact [OF sampleMeet_facts(1) this, of "[Rsvp ''b'' [] NOT_GOING 9]"] show ?thesis
    by (simp only: list_all_iff) blast
qed

text \<open>
  An RSVP never oversells the seats: in an event with a limit, the number of GOING rows
  after any RSVP is at most the limit, or what it was before if that was more already (an
  organizer may have lowered the limit).
\<close>

theorem rsvp_capacity:
  assumes "eventWf w" and "find (\<lambda>e. ev_id e = i \<and> ev_deletedAt e = None) (events w) = Some e"
    and "\<forall>p \<in> set (eventParticipants w). ep_eventId p = i \<longrightarrow> ep_joinedAt p \<le> now"
    and "seats e = Some m"
  shows "goingCount i (snd (rsvp u i s now w)) \<le> max m (goingCount i w)"
proof -
  have "lineOf i (snd (rsvp u i s now w)) = snd (absRsvp (seats e) u s (lineOf i w))"
    using rsvp_line [OF assms(1-3), of u s] by simp
  then show ?thesis
    using absRsvp_capacity [OF distinct_line [OF assms(1), of i] assms(4), of u s] by (simp add: going_line [symmetric])
qed

theorem rsvp_capacity_witness:
  "goingCount [] (snd (rsvp ''c'' [] GOING 9 sampleMeet)) \<le> 2"
proof -
  obtain e where e: "find (\<lambda>e. ev_id e = [] \<and> ev_deletedAt e = None) (events sampleMeet) = Some e" "seats e = Some 2"
    using sampleMeet_facts(3) by auto
  have "\<forall>p \<in> set (eventParticipants sampleMeet). ep_eventId p = [] \<longrightarrow> ep_joinedAt p \<le> 9"
    unfolding sampleMeet_facts(2) by simp
  moreover have "goingCount [] sampleMeet = 2" by code_simp
  ultimately show ?thesis using rsvp_capacity [OF sampleMeet_facts(1) e(1) _ e(2), of 9 "''c''" GOING] by simp
qed

text \<open>A seat given up by answering INTERESTED is offered to nobody, unlike one given up by NOT_GOING.\<close>

lemma interested_promotes_nobody:
  "fst (rsvp ''b'' [] INTERESTED 9 sampleMeet) = Inr (INTERESTED, Some []) \<and>
   lineOf [] (snd (rsvp ''b'' [] INTERESTED 9 sampleMeet)) =
     [(''a'', GOING), (''b'', INTERESTED), (''c'', WAITLIST), (''d'', WAITLIST)]"
  by (rule conjI) code_simp+

end
