(* ===== verification/Messaging.thy ===== *)
theory Messaging
  imports Community Pagination
begin

text \<open>
  \<open>conversation.service.ts\<close> and \<open>message.service.ts\<close>: direct, group and community
  conversations, sending with a rate limit and idempotent client ids, reactions, soft
  deletion, the message history. The callbacks that the gateway registers are the list
  \<open>msgCallbacks\<close> of their calls. The custom checks of the request schemas
  (\<open>message.schema.ts\<close>) are the predicates of the first section.
\<close>

section \<open>State\<close>

datatype conversationType = DIRECT | GROUP_CHAT | COMMUNITY_CHAT

datatype messageType = T_TEXT | T_IMAGE | T_VIDEO | T_FILE | T_RIDE_INVITE | T_EVENT_INVITE | T_SYSTEM

text \<open>The payloads \<open>RideInviteData\<close> and \<open>EventInviteData\<close>.\<close>

record rideInvite =
  ri_partyId :: uid
  ri_partyName :: string
  ri_leaderName :: string
  ri_routeId :: "uid option"

record eventInvite =
  ei_eventId :: uid
  ei_title :: string
  ei_meetingPointName :: string
  ei_startTime :: string

datatype inviteData = RideInvite rideInvite | EventInvite eventInvite

record conversation =
  cv_id :: uid
  cv_type :: conversationType
  cv_name :: "string option"
  cv_avatarUrl :: "string option"
  cv_communityId :: "uid option"
  cv_createdById :: "uid option"
  cv_lastMessageAt :: "time option"
  cv_createdAt :: time
  cv_deletedAt :: "time option"

record convParticipant =
  cp_conversationId :: uid
  cp_userId :: uid
  cp_isMuted :: bool
  cp_mutedUntil :: "time option"
  cp_lastReadAt :: "time option"
  cp_joinedAt :: time
  cp_leftAt :: "time option"

record message =
  ms_id :: uid
  ms_conversationId :: uid
  ms_senderId :: uid
  ms_clientId :: "uid option"
  ms_content :: "string option"
  ms_mediaUrls :: "string list"
  ms_messageType :: messageType
  ms_inviteData :: "inviteData option"
  ms_isDeleted :: bool
  ms_createdAt :: time

record reaction =
  rx_messageId :: uid
  rx_userId :: uid
  rx_emoji :: string
  rx_createdAt :: time

text \<open>\<open>MessageDto\<close>: the row with its reactions.\<close>

type_synonym messageDto = "message \<times> reaction list"

datatype msg_callback =
    MessagePersisted messageDto "uid list"
  | ReactionUpdated uid messageDto reaction bool "uid list"

record messaging_db = community_db +
  conversations :: "conversation list"
  convParticipants :: "convParticipant list"
  messages :: "message list"
  reactions :: "reaction list"
  callbacksRegistered :: bool
  msgCallbacks :: "msg_callback list"

abbreviation convKey :: "convParticipant \<Rightarrow> uid \<times> uid" where
  "convKey p \<equiv> (cp_conversationId p, cp_userId p)"

abbreviation reactionKey :: "reaction \<Rightarrow> uid \<times> uid \<times> string" where
  "reactionKey r \<equiv> (rx_messageId r, rx_userId r, rx_emoji r)"

section \<open>Requests and their checks\<close>

record createConversationDto =
  ccv_type :: conversationType
  ccv_userIds :: "uid list"
  ccv_name :: "string option"
  ccv_communityId :: "uid option"

definition validCreateConversation :: "createConversationDto \<Rightarrow> bool" where
  "validCreateConversation v \<longleftrightarrow>
     1 \<le> length (ccv_userIds v) \<and> length (ccv_userIds v) \<le> 50 \<and>
     (case ccv_name v of None \<Rightarrow> True | Some n \<Rightarrow> 1 \<le> length (trim n) \<and> length (trim n) \<le> 80) \<and>
     \<not> (ccv_type v = DIRECT \<and> length (ccv_userIds v) \<noteq> 1) \<and>
     \<not> (ccv_type v = COMMUNITY_CHAT \<and> ccv_communityId v = None) \<and>
     \<not> (ccv_type v = GROUP_CHAT \<and> length (ccv_userIds v) < 2)"

record sendMessageDto =
  smd_conversationId :: uid
  smd_clientId :: uid
  smd_messageType :: messageType
  smd_content :: "string option"
  smd_mediaUrls :: "string list"
  smd_rideInvite :: "rideInvite option"
  smd_eventInvite :: "eventInvite option"

definition hasText :: "sendMessageDto \<Rightarrow> bool" where
  "hasText dto \<longleftrightarrow> (case smd_content dto of None \<Rightarrow> False | Some c \<Rightarrow> trim c \<noteq> [])"

definition hasMedia :: "sendMessageDto \<Rightarrow> bool" where
  "hasMedia dto \<longleftrightarrow> smd_mediaUrls dto \<noteq> []"

definition inviteOf :: "sendMessageDto \<Rightarrow> inviteData option" where
  "inviteOf dto =
     (case smd_rideInvite dto of
        Some r \<Rightarrow> Some (RideInvite r) | None \<Rightarrow> map_option EventInvite (smd_eventInvite dto))"

definition validSendMessage :: "sendMessageDto \<Rightarrow> bool" where
  "validSendMessage v \<longleftrightarrow>
     (case smd_content v of None \<Rightarrow> True | Some c \<Rightarrow> length c \<le> 4000) \<and> length (smd_mediaUrls v) \<le> 10 \<and>
     \<not> (smd_messageType v = T_TEXT \<and> \<not> hasText v) \<and>
     \<not> (smd_messageType v \<in> {T_IMAGE, T_VIDEO, T_FILE} \<and> \<not> hasMedia v) \<and>
     \<not> (smd_messageType v = T_RIDE_INVITE \<and> smd_rideInvite v = None) \<and>
     \<not> (smd_messageType v = T_EVENT_INVITE \<and> smd_eventInvite v = None) \<and>
     \<not> (\<not> hasText v \<and> \<not> hasMedia v \<and> inviteOf v = None)"

definition validateContent :: "sendMessageDto \<Rightarrow> 'w \<Rightarrow> (unit, 'w) outcome" where
  "validateContent dto w =
     (if \<not> hasText dto \<and> \<not> hasMedia dto \<and> inviteOf dto = None
      then throwHttp BadRequest ''Message must carry text, media, or invite'' VALIDATION_FAILED w
      else ret () w)"

section \<open>Views\<close>

record participantView =
  pv_userId :: uid
  pv_username :: string
  pv_avatarUrl :: "string option"
  pv_isMuted :: bool
  pv_mutedUntil :: "time option"
  pv_lastReadAt :: "time option"
  pv_joinedAt :: time
  pv_leftAt :: "time option"

record conversationDetail =
  cvd_id :: uid
  cvd_type :: conversationType
  cvd_name :: "string option"
  cvd_avatarUrl :: "string option"
  cvd_communityId :: "uid option"
  cvd_participants :: "participantView list"
  cvd_createdAt :: time

definition participantsOf :: "uid \<Rightarrow> 'a messaging_db_scheme \<Rightarrow> convParticipant list" where
  "participantsOf conversationId w = filter (\<lambda>p. cp_conversationId p = conversationId) (convParticipants w)"

definition participantViewOf :: "'a core_db_scheme \<Rightarrow> convParticipant \<Rightarrow> participantView option" where
  "participantViewOf w p =
     map_option (\<lambda>u. \<lparr>pv_userId = cp_userId p, pv_username = u_username u, pv_avatarUrl = u_avatarUrl u,
         pv_isMuted = cp_isMuted p, pv_mutedUntil = cp_mutedUntil p, pv_lastReadAt = cp_lastReadAt p,
         pv_joinedAt = cp_joinedAt p, pv_leftAt = cp_leftAt p\<rparr>) (findUser (cp_userId p) w)"

definition conversationToDetail :: "conversation \<Rightarrow> 'a messaging_db_scheme \<Rightarrow> conversationDetail" where
  "conversationToDetail c w =
     \<lparr>cvd_id = cv_id c, cvd_type = cv_type c, cvd_name = cv_name c, cvd_avatarUrl = cv_avatarUrl c,
      cvd_communityId = cv_communityId c,
      cvd_participants = List.map_filter (participantViewOf w) (participantsOf (cv_id c) w),
      cvd_createdAt = cv_createdAt c\<rparr>"

definition reactionsOf :: "uid \<Rightarrow> 'a messaging_db_scheme \<Rightarrow> reaction list" where
  "reactionsOf messageId w = filter (\<lambda>r. rx_messageId r = messageId) (reactions w)"

definition toMessageDto :: "message \<Rightarrow> 'a messaging_db_scheme \<Rightarrow> messageDto" where
  "toMessageDto m w = (m, reactionsOf (ms_id m) w)"

section \<open>conversation.service.ts\<close>

definition assertNotBlocked ::
  "uid \<Rightarrow> uid \<Rightarrow> 'a messaging_db_scheme \<Rightarrow> (unit, 'a messaging_db_scheme) outcome" where
  "assertNotBlocked userA userB w =
     (if findBlockEitherWay userA userB w \<noteq> None
      then throwHttp Forbidden ''Cannot message blocked user'' BLOCKED w else ret () w)"

definition takesPart :: "uid \<Rightarrow> uid \<Rightarrow> 'a messaging_db_scheme \<Rightarrow> bool" where
  "takesPart conversationId userId w \<longleftrightarrow>
     list_ex (\<lambda>p. cp_userId p = userId \<and> cp_leftAt p = None) (participantsOf conversationId w)"

definition findDirect :: "uid \<Rightarrow> uid \<Rightarrow> 'a messaging_db_scheme \<Rightarrow> conversation option" where
  "findDirect userA userB w =
     find (\<lambda>c. cv_type c = DIRECT \<and> cv_deletedAt c = None \<and>
         takesPart (cv_id c) userA w \<and> takesPart (cv_id c) userB w) (conversations w)"

definition newParticipant :: "uid \<Rightarrow> time \<Rightarrow> uid \<Rightarrow> convParticipant" where
  "newParticipant conversationId now userId =
     \<lparr>cp_conversationId = conversationId, cp_userId = userId, cp_isMuted = False, cp_mutedUntil = None,
      cp_lastReadAt = None, cp_joinedAt = now, cp_leftAt = None\<rparr>"

text \<open>\<open>conversation.create\<close> with its nested \<open>participants: { create: [...] }\<close>: one statement.\<close>

definition insertConversation ::
  "conversationType \<Rightarrow> string option \<Rightarrow> uid option \<Rightarrow> uid \<Rightarrow> uid list \<Rightarrow> time \<Rightarrow>
   'a messaging_db_scheme \<Rightarrow> (conversation, 'a messaging_db_scheme) outcome" where
  "insertConversation ty name communityId createdBy userIds now w =
     (let c = \<lparr>cv_id = newUuid w, cv_type = ty, cv_name = name, cv_avatarUrl = None,
               cv_communityId = communityId, cv_createdById = Some createdBy, cv_lastMessageAt = None,
               cv_createdAt = now, cv_deletedAt = None\<rparr>
      in if cv_id c \<in> cv_id ` set (conversations w) \<or> \<not> distinct userIds then raise UniqueViolation w
         else if \<not> list_all (\<lambda>u. userExists u w) userIds then raise ForeignKeyViolation w
         else ret c ((takeUuid w)\<lparr>conversations := conversations w @ [c],
                convParticipants := convParticipants w @ map (newParticipant (cv_id c) now) userIds\<rparr>))"

definition findOrCreateDirect ::
  "uid \<Rightarrow> uid \<Rightarrow> time \<Rightarrow> 'a messaging_db_scheme \<Rightarrow> (conversationDetail, 'a messaging_db_scheme) outcome" where
  "findOrCreateDirect userAId userBId now w =
     (if userAId = userBId then throwHttp BadRequest ''Cannot DM yourself'' VALIDATION_FAILED w
      else and_then (assertNotBlocked userAId userBId w)
        (\<lambda>_ w. case findDirect userAId userBId w of
           Some existing \<Rightarrow> ret (conversationToDetail existing w) w
         | None \<Rightarrow>
             and_then (insertConversation DIRECT None None userAId [userAId, userBId] now w)
               (\<lambda>created w1. ret (conversationToDetail created w1) w1)))"

text \<open>\<open>Array.from(new Set(xs))\<close>: the first occurrences, in order.\<close>

definition setOrder :: "'x list \<Rightarrow> 'x list" where
  "setOrder xs = rev (remdups (rev xs))"

definition createConversation ::
  "uid \<Rightarrow> createConversationDto \<Rightarrow> time \<Rightarrow> 'a messaging_db_scheme \<Rightarrow>
   (conversationDetail, 'a messaging_db_scheme) outcome" where
  "createConversation creatorId dto now w =
     (case ccv_type dto of
        DIRECT \<Rightarrow>
          (case ccv_userIds dto of
             [] \<Rightarrow> throwHttp BadRequest ''DIRECT conversation requires target user'' VALIDATION_FAILED w
           | target # _ \<Rightarrow> findOrCreateDirect creatorId target now w)
      | COMMUNITY_CHAT \<Rightarrow>
          (case ccv_communityId dto of
             None \<Rightarrow> throwHttp BadRequest ''COMMUNITY_CHAT requires communityId'' VALIDATION_FAILED w
           | Some communityId \<Rightarrow>
               if map_option mb_status (getMembership communityId creatorId w) \<noteq> Some M_ACTIVE
               then throwHttp Forbidden ''Must be active community member'' FORBIDDEN w
               else (case find (\<lambda>c. cv_communityId c = Some communityId \<and> cv_type c = COMMUNITY_CHAT \<and>
                               cv_deletedAt c = None) (conversations w) of
                       Some existing \<Rightarrow> ret (conversationToDetail existing w) w
                     | None \<Rightarrow>
                         and_then (insertConversation COMMUNITY_CHAT (ccv_name dto) (Some communityId)
                             creatorId [creatorId] now w)
                           (\<lambda>created w1. ret (conversationToDetail created w1) w1)))
      | GROUP_CHAT \<Rightarrow>
          let participantIds = setOrder (ccv_userIds dto @ [creatorId])
          in if length participantIds < 3
             then throwHttp BadRequest ''GROUP_CHAT requires at least 3 participants'' VALIDATION_FAILED w
             else and_then (insertConversation GROUP_CHAT (ccv_name dto) None creatorId participantIds now w)
               (\<lambda>created w1. ret (conversationToDetail created w1) w1))"

record conversationPreview =
  cpv_id :: uid
  cpv_type :: conversationType
  cpv_name :: "string option"
  cpv_avatarUrl :: "string option"
  cpv_communityId :: "uid option"
  cpv_otherUserId :: "uid option"
  cpv_otherUsername :: "string option"
  cpv_otherAvatarUrl :: "string option"
  cpv_lastMessage :: "messageDto option"
  cpv_unreadCount :: nat
  cpv_lastReadAt :: "time option"
  cpv_lastMessageAt :: "time option"

definition unreadIn :: "uid \<Rightarrow> convParticipant \<Rightarrow> 'a messaging_db_scheme \<Rightarrow> nat" where
  "unreadIn userId m w =
     countRows (\<lambda>x. ms_conversationId x = cp_conversationId m \<and> \<not> ms_isDeleted x \<and> ms_senderId x \<noteq> userId \<and>
         (case cp_lastReadAt m of None \<Rightarrow> True | Some t \<Rightarrow> t < ms_createdAt x)) (messages w)"

definition previewOf ::
  "uid \<Rightarrow> 'a messaging_db_scheme \<Rightarrow> convParticipant \<times> conversation \<Rightarrow> conversationPreview" where
  "previewOf userId w mc =
     (let (m, conv) = mc;
          other = (if cv_type conv = DIRECT
                   then find (\<lambda>p. cp_userId p \<noteq> userId) (participantsOf (cv_id conv) w) else None);
          otherUser = Option.bind other (\<lambda>p. findUser (cp_userId p) w);
          recent = rev (sort_key ms_createdAt
            (filter (\<lambda>x. ms_conversationId x = cv_id conv \<and> \<not> ms_isDeleted x) (messages w)))
      in \<lparr>cpv_id = cv_id conv, cpv_type = cv_type conv, cpv_name = cv_name conv,
          cpv_avatarUrl = cv_avatarUrl conv, cpv_communityId = cv_communityId conv,
          cpv_otherUserId = map_option cp_userId other, cpv_otherUsername = map_option u_username otherUser,
          cpv_otherAvatarUrl = Option.bind otherUser u_avatarUrl,
          cpv_lastMessage = (case recent of [] \<Rightarrow> None | x # _ \<Rightarrow> Some (toMessageDto x w)),
          cpv_unreadCount = unreadIn userId m w, cpv_lastReadAt = cp_lastReadAt m,
          cpv_lastMessageAt = cv_lastMessageAt conv\<rparr>)"

text \<open>
  \<open>orderBy: [{ lastMessageAt: 'desc' }, { joinedAt: 'desc' }]\<close>; PostgreSQL sorts NULL
  before every value in a descending order.
\<close>

definition listMyConversations ::
  "uid \<Rightarrow> conversationType option \<Rightarrow> 'a messaging_db_scheme \<Rightarrow> conversationPreview list" where
  "listMyConversations userId ty w =
     (let memberships = List.map_filter
            (\<lambda>m. map_option (Pair m) (findUnique cv_id (cp_conversationId m) (conversations w)))
            (filter (\<lambda>m. cp_userId m = userId \<and> cp_leftAt m = None) (convParticipants w));
          wanted = filter (\<lambda>(m, c). cv_deletedAt c = None \<and>
              (case ty of None \<Rightarrow> True | Some t \<Rightarrow> cv_type c = t)) memberships
      in map (previewOf userId w)
           (sort_key (\<lambda>(m, c). ((case cv_lastMessageAt c of None \<Rightarrow> (0 :: int, 0) | Some t \<Rightarrow> (1, - t)),
                - cp_joinedAt m)) wanted))"

definition assertParticipant ::
  "uid \<Rightarrow> uid \<Rightarrow> 'a messaging_db_scheme \<Rightarrow> (convParticipant, 'a messaging_db_scheme) outcome" where
  "assertParticipant conversationId userId w =
     (case findUnique convKey (conversationId, userId) (convParticipants w) of
        None \<Rightarrow> throwHttp Forbidden ''Not a participant'' FORBIDDEN w
      | Some p \<Rightarrow> if cp_leftAt p \<noteq> None then throwHttp Forbidden ''Not a participant'' FORBIDDEN w
                  else ret p w)"

definition getConversationDetail ::
  "uid \<Rightarrow> uid \<Rightarrow> 'a messaging_db_scheme \<Rightarrow> (conversationDetail, 'a messaging_db_scheme) outcome" where
  "getConversationDetail conversationId viewerId w =
     and_then (assertParticipant conversationId viewerId w)
       (\<lambda>_ w. case find (\<lambda>c. cv_id c = conversationId \<and> cv_deletedAt c = None) (conversations w) of
          None \<Rightarrow> throwHttp NotFound ''Conversation not found'' NOT_FOUND w
        | Some conv \<Rightarrow> ret (conversationToDetail conv w) w)"

definition updateParticipant ::
  "uid \<times> uid \<Rightarrow> (convParticipant \<Rightarrow> convParticipant) \<Rightarrow> 'a messaging_db_scheme \<Rightarrow>
   (unit, 'a messaging_db_scheme) outcome" where
  "updateParticipant k f w =
     write_or RecordNotFound (updateRow convKey k f (convParticipants w))
       (\<lambda>t. w\<lparr>convParticipants := t\<rparr>) w"

definition markRead ::
  "uid \<Rightarrow> uid \<Rightarrow> time option \<Rightarrow> time \<Rightarrow> 'a messaging_db_scheme \<Rightarrow> (unit, 'a messaging_db_scheme) outcome" where
  "markRead userId conversationId lastReadAt now w =
     and_then (assertParticipant conversationId userId w)
       (\<lambda>_ w. updateParticipant (conversationId, userId)
          (\<lambda>p. p\<lparr>cp_lastReadAt := Some (case lastReadAt of None \<Rightarrow> now | Some t \<Rightarrow> t)\<rparr>) w)"

definition listParticipantIds :: "uid \<Rightarrow> 'a messaging_db_scheme \<Rightarrow> uid list" where
  "listParticipantIds conversationId w =
     map cp_userId (filter (\<lambda>p. cp_leftAt p = None) (participantsOf conversationId w))"

definition filterPushRecipients :: "uid \<Rightarrow> uid list \<Rightarrow> time \<Rightarrow> 'a messaging_db_scheme \<Rightarrow> uid list" where
  "filterPushRecipients conversationId recipientIds now w =
     (if recipientIds = [] then []
      else let rows = filter (\<lambda>p. cp_userId p \<in> set recipientIds) (participantsOf conversationId w)
           in filter (\<lambda>i. case find (\<lambda>r. cp_userId r = i) rows of
                None \<Rightarrow> False
              | Some p \<Rightarrow> \<not> (cp_isMuted p \<or> (case cp_mutedUntil p of None \<Rightarrow> False | Some t \<Rightarrow> now < t)))
              recipientIds)"

text \<open>\<open>2099-12-31T23:59:59.999Z\<close>\<close>

definition farFuture :: time where
  "farFuture = 4102444799999"

datatype mutedUntilDto = MU_Absent | MU_Null | MU_At time

definition muteConversation ::
  "uid \<Rightarrow> uid \<Rightarrow> mutedUntilDto \<Rightarrow> 'a messaging_db_scheme \<Rightarrow> (unit, 'a messaging_db_scheme) outcome" where
  "muteConversation userId conversationId mutedUntil w =
     and_then (assertParticipant conversationId userId w)
       (\<lambda>_ w. case mutedUntil of
          MU_Null \<Rightarrow> updateParticipant (conversationId, userId)
            (\<lambda>p. p\<lparr>cp_isMuted := False, cp_mutedUntil := None\<rparr>) w
        | MU_At t \<Rightarrow> updateParticipant (conversationId, userId)
            (\<lambda>p. p\<lparr>cp_isMuted := True, cp_mutedUntil := Some t\<rparr>) w
        | MU_Absent \<Rightarrow> updateParticipant (conversationId, userId)
            (\<lambda>p. p\<lparr>cp_isMuted := True, cp_mutedUntil := Some farFuture\<rparr>) w)"

definition leaveConversation ::
  "uid \<Rightarrow> uid \<Rightarrow> time \<Rightarrow> 'a messaging_db_scheme \<Rightarrow> (unit, 'a messaging_db_scheme) outcome" where
  "leaveConversation userId conversationId now w =
     and_then (assertParticipant conversationId userId w)
       (\<lambda>_ w. case find (\<lambda>c. cv_id c = conversationId \<and> cv_deletedAt c = None) (conversations w) of
          None \<Rightarrow> throwHttp NotFound ''Conversation not found'' NOT_FOUND w
        | Some conv \<Rightarrow>
            if cv_type conv = DIRECT then throwHttp BadRequest ''cannot_leave_direct'' VALIDATION_FAILED w
            else if countRows (\<lambda>p. cp_conversationId p = conversationId \<and> cp_leftAt p = None) (convParticipants w) \<le> 1
            then throwHttp BadRequest ''cannot_leave_sole_member'' VALIDATION_FAILED w
            else updateParticipant (conversationId, userId) (\<lambda>p. p\<lparr>cp_leftAt := Some now\<rparr>) w)"

definition getDirectPartner :: "uid \<Rightarrow> uid \<Rightarrow> 'a messaging_db_scheme \<Rightarrow> uid option" where
  "getDirectPartner conversationId userId w =
     (case findUnique cv_id conversationId (conversations w) of
        None \<Rightarrow> None
      | Some conv \<Rightarrow>
          if cv_type conv \<noteq> DIRECT then None
          else map_option cp_userId
            (find (\<lambda>p. cp_userId p \<noteq> userId) (participantsOf conversationId w)))"

section \<open>message.service.ts\<close>

definition MSG_RATE_LIMIT :: nat where "MSG_RATE_LIMIT = 60"
definition MSG_RATE_WINDOW_SECS :: int where "MSG_RATE_WINDOW_SECS = 60"

definition registerCallbacks :: "'a messaging_db_scheme \<Rightarrow> 'a messaging_db_scheme" where
  "registerCallbacks w = w\<lparr>callbacksRegistered := True\<rparr>"

definition callBack :: "msg_callback \<Rightarrow> 'a messaging_db_scheme \<Rightarrow> 'a messaging_db_scheme" where
  "callBack c w = (if callbacksRegistered w then w\<lparr>msgCallbacks := msgCallbacks w @ [c]\<rparr> else w)"

definition enforceRate :: "uid \<Rightarrow> time \<Rightarrow> 'a messaging_db_scheme \<Rightarrow> bool \<times> 'a messaging_db_scheme" where
  "enforceRate userId now w =
     (let (cur, s) = incrWindow MSG_RATE_WINDOW_SECS now (rateKey ''msg'' userId) (rd_counters w)
      in (cur \<le> MSG_RATE_LIMIT, w\<lparr>rd_counters := s\<rparr>))"

definition findByClientId :: "uid \<Rightarrow> uid \<Rightarrow> 'a messaging_db_scheme \<Rightarrow> message option" where
  "findByClientId conversationId clientId w =
     findUnique (\<lambda>m. (ms_conversationId m, ms_clientId m)) (conversationId, Some clientId) (messages w)"

definition newMessage :: "uid \<Rightarrow> uid \<Rightarrow> sendMessageDto \<Rightarrow> time \<Rightarrow> message" where
  "newMessage i senderId dto now =
     \<lparr>ms_id = i, ms_conversationId = smd_conversationId dto, ms_senderId = senderId,
      ms_clientId = Some (smd_clientId dto), ms_content = smd_content dto,
      ms_mediaUrls = smd_mediaUrls dto, ms_messageType = smd_messageType dto,
      ms_inviteData = inviteOf dto, ms_isDeleted = False, ms_createdAt = now\<rparr>"

definition updateConversation ::
  "uid \<Rightarrow> (conversation \<Rightarrow> conversation) \<Rightarrow> 'a messaging_db_scheme \<Rightarrow> (unit, 'a messaging_db_scheme) outcome" where
  "updateConversation i f w =
     write_or RecordNotFound (updateRow cv_id i f (conversations w)) (\<lambda>t. w\<lparr>conversations := t\<rparr>) w"

definition persistMessage ::
  "uid \<Rightarrow> sendMessageDto \<Rightarrow> time \<Rightarrow> 'a messaging_db_scheme \<Rightarrow> (message, 'a messaging_db_scheme) outcome" where
  "persistMessage senderId dto now w =
     transaction
       (\<lambda>w. let msg = newMessage (newUuid w) senderId dto now in
          and_then
            (if smd_conversationId dto \<notin> cv_id ` set (conversations w) then raise ForeignKeyViolation w
             else if ms_id msg \<in> ms_id ` set (messages w) then raise UniqueViolation w
             else write_or UniqueViolation
               (createRow (\<lambda>m. (ms_conversationId m, ms_clientId m)) msg (messages w))
               (\<lambda>t. (takeUuid w)\<lparr>messages := t\<rparr>) w)
            (\<lambda>_ w1. and_then
               (updateConversation (smd_conversationId dto) (\<lambda>c. c\<lparr>cv_lastMessageAt := Some now\<rparr>) w1)
               (\<lambda>_ w2. ret msg w2))) w"

record sendResult =
  sr_message :: messageDto
  sr_recipientIds :: "uid list"
  sr_duplicate :: bool

definition recipientsOf :: "uid \<Rightarrow> uid \<Rightarrow> 'a messaging_db_scheme \<Rightarrow> uid list" where
  "recipientsOf conversationId senderId w = filter (\<lambda>u. u \<noteq> senderId) (listParticipantIds conversationId w)"

definition send ::
  "uid \<Rightarrow> sendMessageDto \<Rightarrow> time \<Rightarrow> 'a messaging_db_scheme \<Rightarrow> (sendResult, 'a messaging_db_scheme) outcome" where
  "send senderId dto now w0 =
     (let conversationId = smd_conversationId dto in
      and_then (assertParticipant conversationId senderId w0)
        (\<lambda>_ w0. let (rateOk, w) = enforceRate senderId now w0 in
           if \<not> rateOk then throwHttp Forbidden ''Too many messages, slow down'' RATE_LIMITED w
           else if (case getDirectPartner conversationId senderId w of
                      None \<Rightarrow> False | Some partner \<Rightarrow> findBlockEitherWay senderId partner w \<noteq> None)
           then throwHttp Forbidden ''Cannot send message to blocked user'' BLOCKED w
           else (case findByClientId conversationId (smd_clientId dto) w of
             Some existing \<Rightarrow>
               ret \<lparr>sr_message = toMessageDto existing w,
                    sr_recipientIds = recipientsOf conversationId senderId w, sr_duplicate = True\<rparr> w
           | None \<Rightarrow>
               and_then (persistMessage senderId dto now w)
                 (\<lambda>created w1.
                    let recipientIds = recipientsOf conversationId senderId w1;
                        messageDto = toMessageDto created w1
                    in and_then (updateParticipant (conversationId, senderId)
                           (\<lambda>p. p\<lparr>cp_lastReadAt := Some (ms_createdAt created)\<rparr>) w1)
                      (\<lambda>_ w2. ret \<lparr>sr_message = messageDto, sr_recipientIds = recipientIds, sr_duplicate = False\<rparr>
                         (callBack (MessagePersisted messageDto recipientIds) w2))))))"

record reactResult =
  rr_removed :: bool
  rr_reaction :: reaction
  rr_conversationId :: uid
  rr_message :: messageDto
  rr_recipientIds :: "uid list"

definition react ::
  "uid \<Rightarrow> uid \<Rightarrow> string \<Rightarrow> bool \<Rightarrow> time \<Rightarrow> 'a messaging_db_scheme \<Rightarrow>
   (reactResult, 'a messaging_db_scheme) outcome" where
  "react userId messageId emoji remove now w =
     (case findUnique ms_id messageId (messages w) of
        None \<Rightarrow> throwHttp NotFound ''Message not found'' NOT_FOUND w
      | Some msg \<Rightarrow>
          and_then (assertParticipant (ms_conversationId msg) userId w)
            (\<lambda>_ w. let new = \<lparr>rx_messageId = messageId, rx_userId = userId, rx_emoji = emoji, rx_createdAt = now\<rparr>;
                 w1 = (if remove
                       then (case deleteRow reactionKey (messageId, userId, emoji) (reactions w) of
                               None \<Rightarrow> w | Some t \<Rightarrow> w\<lparr>reactions := t\<rparr>)
                       else w\<lparr>reactions := upsertRow reactionKey (messageId, userId, emoji) new id (reactions w)\<rparr>);
                 createdAt = (if remove then now
                   else (case findUnique reactionKey (messageId, userId, emoji) (reactions w1) of
                           None \<Rightarrow> now | Some r \<Rightarrow> rx_createdAt r));
                 reaction = \<lparr>rx_messageId = messageId, rx_userId = userId, rx_emoji = emoji, rx_createdAt = createdAt\<rparr>;
                 recipientIds = recipientsOf (ms_conversationId msg) userId w1;
                 dtoMessage = toMessageDto msg w1
               in ret \<lparr>rr_removed = remove, rr_reaction = reaction, rr_conversationId = ms_conversationId msg,
                       rr_message = dtoMessage, rr_recipientIds = recipientIds\<rparr>
                    (callBack (ReactionUpdated (ms_conversationId msg) dtoMessage reaction remove recipientIds) w1)))"

definition eraseMessage :: "message \<Rightarrow> message" where
  "eraseMessage m = m\<lparr>ms_isDeleted := True, ms_content := None, ms_mediaUrls := [], ms_inviteData := None\<rparr>"

definition softDelete ::
  "uid \<Rightarrow> uid \<Rightarrow> 'a messaging_db_scheme \<Rightarrow> (messageDto, 'a messaging_db_scheme) outcome" where
  "softDelete userId messageId w =
     (case findUnique ms_id messageId (messages w) of
        None \<Rightarrow> throwHttp NotFound ''Message not found'' NOT_FOUND w
      | Some msg \<Rightarrow>
          if ms_senderId msg \<noteq> userId then throwHttp Forbidden ''Only sender can delete'' FORBIDDEN w
          else and_then
            (write_or RecordNotFound (updateRow ms_id messageId eraseMessage (messages w))
               (\<lambda>t. w\<lparr>messages := t\<rparr>) w)
            (\<lambda>_ w1. ret (toMessageDto (eraseMessage msg) w1) w1))"

definition listMessages ::
  "uid \<Rightarrow> uid \<Rightarrow> uid option \<Rightarrow> int \<Rightarrow> 'a messaging_db_scheme \<Rightarrow>
   (messageDto list \<times> uid option, 'a messaging_db_scheme) outcome" where
  "listMessages userId conversationId cursor limit w =
     and_then (assertParticipant conversationId userId w)
       (\<lambda>_ w. let n = nat (min (max limit 1) 100);
            (page, nextCursor) = lookaheadPage ms_id cursor n
              (rev (sort_key ms_createdAt (filter (\<lambda>m. ms_conversationId m = conversationId) (messages w))))
          in ret (rev (map (\<lambda>m. toMessageDto m w) page), nextCursor) w)"

section \<open>The operations as steps\<close>

datatype messaging_op =
    OpenDirect uid uid time
  | CreateConversation uid createConversationDto time
  | MarkRead uid uid "time option" time
  | MuteConversation uid uid mutedUntilDto
  | LeaveConversation uid uid time
  | SendMessage uid sendMessageDto time
  | React uid uid string bool time
  | SoftDelete uid uid

fun messagingStep :: "messaging_op \<Rightarrow> 'a messaging_db_scheme \<Rightarrow> 'a messaging_db_scheme" where
  "messagingStep (OpenDirect a b now) w = snd (findOrCreateDirect a b now w)"
| "messagingStep (CreateConversation u dto now) w = snd (createConversation u dto now w)"
| "messagingStep (MarkRead u c t now) w = snd (markRead u c t now w)"
| "messagingStep (MuteConversation u c t) w = snd (muteConversation u c t w)"
| "messagingStep (LeaveConversation u c now) w = snd (leaveConversation u c now w)"
| "messagingStep (SendMessage u dto now) w = snd (send u dto now w)"
| "messagingStep (React u m e remove now) w = snd (react u m e remove now w)"
| "messagingStep (SoftDelete u m) w = snd (softDelete u m w)"

section \<open>The moves of a chat\<close>

text \<open>
  The tables of conversations, participants and messages, and what one operation may do to
  them: open a conversation with a fresh id, touch a participant's settings, leave a
  conversation that is not direct, post a message, erase one.
\<close>

type_synonym chat = "conversation list \<times> convParticipant list \<times> message list"

abbreviation clientKey :: "message \<Rightarrow> uid \<times> uid option" where
  "clientKey m \<equiv> (ms_conversationId m, ms_clientId m)"

inductive chatMove :: "chat \<Rightarrow> chat \<Rightarrow> bool" where
  Idle: "chatMove s s"
| Open: "cv_id c \<notin> cv_id ` set cs \<Longrightarrow> distinct us \<Longrightarrow>
    chatMove (cs, ps, ms) (cs @ [c], ps @ map (newParticipant (cv_id c) now) us, ms)"
| Touch: "(\<And>p. convKey (f p) = convKey p) \<Longrightarrow> (\<And>p. cp_leftAt (f p) = cp_leftAt p) \<Longrightarrow>
    chatMove (cs, ps, ms) (cs, updateMany (\<lambda>p. convKey p = k) f ps, ms)"
| Leave: "c \<in> set cs \<Longrightarrow> cv_type c \<noteq> DIRECT \<Longrightarrow>
    chatMove (cs, ps, ms)
      (cs, updateMany (\<lambda>p. convKey p = (cv_id c, u)) (\<lambda>p. p\<lparr>cp_leftAt := Some now\<rparr>) ps, ms)"
| Post: "clientKey m \<notin> clientKey ` set ms \<Longrightarrow> ms_id m \<notin> ms_id ` set ms \<Longrightarrow>
    chatMove (cs, ps, ms)
      (updateMany (\<lambda>c. cv_id c = ms_conversationId m) (\<lambda>c. c\<lparr>cv_lastMessageAt := Some now\<rparr>) cs,
       updateMany (\<lambda>p. convKey p = (ms_conversationId m, ms_senderId m)) (\<lambda>p. p\<lparr>cp_lastReadAt := Some now\<rparr>) ps,
       ms @ [m])"
| Erase: "chatMove (cs, ps, ms) (cs, ps, updateMany (\<lambda>m. ms_id m = i) eraseMessage ms)"

definition chat :: "'a messaging_db_scheme \<Rightarrow> chat" where
  "chat w = (conversations w, convParticipants w, messages w)"

lemma assertParticipant_cases:
  "assertParticipant c u w =
     (case findUnique convKey (c, u) (convParticipants w) of
        None \<Rightarrow> (Inl (Http Forbidden ''Not a participant'' (Some FORBIDDEN) []), w)
      | Some p \<Rightarrow> if cp_leftAt p \<noteq> None then (Inl (Http Forbidden ''Not a participant'' (Some FORBIDDEN) []), w)
                  else (Inr p, w))"
  by (simp add: assertParticipant_def throwHttp_def raise_def ret_def split: option.split)

lemma participant_key:
  "findUnique convKey (c, u) (convParticipants w) = Some p \<Longrightarrow> (c, u) \<in> convKey ` set (convParticipants w)"
  by (drule findUnique_Some) (auto intro!: image_eqI [of _ _ p])

lemma updateParticipant_cases:
  "updateParticipant k f w =
     (if k \<in> convKey ` set (convParticipants w)
      then (Inr (), w\<lparr>convParticipants := updateMany (\<lambda>p. convKey p = k) f (convParticipants w)\<rparr>)
      else (Inl RecordNotFound, w))"
  by (simp add: updateParticipant_def write_or_def updateRow_def raise_def ret_def)

lemma updateConversation_cases:
  "updateConversation i f w =
     (if i \<in> cv_id ` set (conversations w)
      then (Inr (), w\<lparr>conversations := updateMany (\<lambda>c. cv_id c = i) f (conversations w)\<rparr>)
      else (Inl RecordNotFound, w))"
  by (simp add: updateConversation_def write_or_def updateRow_def raise_def ret_def)

lemma insertConversation_move:
  "chatMove (chat w) (chat (snd (insertConversation ty name com cr us now w)))"
proof -
  define c where "c = \<lparr>cv_id = newUuid w, cv_type = ty, cv_name = name, cv_avatarUrl = None,
     cv_communityId = com, cv_createdById = Some cr, cv_lastMessageAt = None, cv_createdAt = now, cv_deletedAt = None\<rparr>"
  have "snd (insertConversation ty name com cr us now w) =
      (if cv_id c \<in> cv_id ` set (conversations w) \<or> \<not> distinct us \<or> \<not> list_all (\<lambda>u. userExists u w) us then w
       else (takeUuid w)\<lparr>conversations := conversations w @ [c],
         convParticipants := convParticipants w @ map (newParticipant (cv_id c) now) us\<rparr>)"
    by (simp add: insertConversation_def Let_def c_def)
  then show ?thesis
    using Open [of c "conversations w" us "convParticipants w" "messages w" now]
    by (simp add: chat_def takeUuid_def Idle)
qed

lemma assertNotBlocked_cases:
  "assertNotBlocked a b w =
     (if blockedEitherWay a b w then (Inl (Http Forbidden ''Cannot message blocked user'' (Some BLOCKED) []), w)
      else (Inr (), w))"
  by (simp add: assertNotBlocked_def blockedEitherWay_def throwHttp_def raise_def ret_def)

lemma findOrCreateDirect_move: "chatMove (chat w) (chat (snd (findOrCreateDirect a b now w)))"
  using insertConversation_move [of w DIRECT None None a "[a, b]" now]
  by (simp add: findOrCreateDirect_def assertNotBlocked_cases Idle split: option.split)

lemma createConversation_move: "chatMove (chat w) (chat (snd (createConversation u dto now w)))"
proof (cases "ccv_type dto")
  case DIRECT
  then show ?thesis
    using findOrCreateDirect_move [of w u _ now] by (simp add: createConversation_def Idle split: list.split)
next
  case GROUP_CHAT
  then show ?thesis
    using insertConversation_move [of w GROUP_CHAT "ccv_name dto" None u "setOrder (ccv_userIds dto @ [u])" now]
    by (simp add: createConversation_def Let_def Idle)
next
  case COMMUNITY_CHAT
  then show ?thesis
    using insertConversation_move [of w COMMUNITY_CHAT "ccv_name dto" _ u "[u]" now]
    by (simp add: createConversation_def Idle split: option.split)
qed

lemma touch_move:
  assumes "\<And>p. convKey (f p) = convKey p" and "\<And>p. cp_leftAt (f p) = cp_leftAt p"
  shows "chatMove (chat w) (chat (snd (updateParticipant k f w)))"
  using Touch [of f "conversations w" "convParticipants w" "messages w" k] assms
  by (simp add: updateParticipant_cases chat_def Idle del: prod.inject)

lemma leaveConversation_move: "chatMove (chat w) (chat (snd (leaveConversation u i now w)))"
proof (cases "find (\<lambda>c. cv_id c = i \<and> cv_deletedAt c = None) (conversations w)")
  case None
  then show ?thesis by (simp add: leaveConversation_def assertParticipant_cases Idle split: option.split)
next
  case (Some c)
  then have "c \<in> set (conversations w)" "cv_id c = i" by (auto dest: find_row)
  then show ?thesis using Some Leave [of c "conversations w" "convParticipants w" "messages w" u now]
    by (simp add: leaveConversation_def assertParticipant_cases updateParticipant_cases chat_def Idle split: option.split)
qed

lemma enforceRate_cases:
  "enforceRate u now w =
     (Suc (counterGet now (rateKey ''msg'' u) (rd_counters w)) \<le> 60,
      w\<lparr>rd_counters := snd (incrWindow 60 now (rateKey ''msg'' u) (rd_counters w))\<rparr>)"
  using fst_incrWindow [of 60 now "rateKey ''msg'' u" "rd_counters w"]
  by (auto simp: enforceRate_def MSG_RATE_LIMIT_def MSG_RATE_WINDOW_SECS_def split: prod.split)

lemma persistMessage_cases:
  "persistMessage u dto now w =
     (if smd_conversationId dto \<notin> cv_id ` set (conversations w) then (Inl ForeignKeyViolation, w)
      else if newUuid w \<in> ms_id ` set (messages w) \<or>
        (smd_conversationId dto, Some (smd_clientId dto)) \<in> clientKey ` set (messages w)
      then (Inl UniqueViolation, w)
      else (Inr (newMessage (newUuid w) u dto now), (takeUuid w)\<lparr>
        messages := messages w @ [newMessage (newUuid w) u dto now],
        conversations := updateMany (\<lambda>c. cv_id c = smd_conversationId dto)
          (\<lambda>c. c\<lparr>cv_lastMessageAt := Some now\<rparr>) (conversations w)\<rparr>))"
  by (simp add: persistMessage_def transaction_def Let_def updateConversation_cases write_or_def createRow_def
      raise_def ret_def newMessage_def takeUuid_def)

text \<open>The state after a message was posted, the counter already moved.\<close>

definition posted :: "uid \<Rightarrow> sendMessageDto \<Rightarrow> time \<Rightarrow> 'a messaging_db_scheme \<Rightarrow> 'a messaging_db_scheme" where
  "posted u dto now w = (takeUuid w)\<lparr>
     messages := messages w @ [newMessage (newUuid w) u dto now],
     conversations := updateMany (\<lambda>c. cv_id c = smd_conversationId dto)
       (\<lambda>c. c\<lparr>cv_lastMessageAt := Some now\<rparr>) (conversations w),
     convParticipants := updateMany (\<lambda>p. convKey p = (smd_conversationId dto, u))
       (\<lambda>p. p\<lparr>cp_lastReadAt := Some now\<rparr>) (convParticipants w)\<rparr>"

definition counted_in :: "uid \<Rightarrow> time \<Rightarrow> 'a messaging_db_scheme \<Rightarrow> 'a messaging_db_scheme" where
  "counted_in u now w = w\<lparr>rd_counters := snd (incrWindow 60 now (rateKey ''msg'' u) (rd_counters w))\<rparr>"

lemma counted_in_fields [simp]:
  "conversations (counted_in u now w) = conversations w" "convParticipants (counted_in u now w) = convParticipants w"
  "messages (counted_in u now w) = messages w" "reactions (counted_in u now w) = reactions w"
  "blocks (counted_in u now w) = blocks w" "newUuid (counted_in u now w) = newUuid w"
  "findByClientId c k (counted_in u now w) = findByClientId c k w"
  "findBlockEitherWay a b (counted_in u now w) = findBlockEitherWay a b w"
  "getDirectPartner c v (counted_in u now w) = getDirectPartner c v w"
  "recipientsOf c v (counted_in u now w) = recipientsOf c v w"
  "callbacksRegistered (counted_in u now w) = callbacksRegistered w"
  by (simp_all add: counted_in_def newUuid_def findByClientId_def findBlockEitherWay_def getDirectPartner_def
      participantsOf_def recipientsOf_def listParticipantIds_def split: option.split)

text \<open>The four ways \<open>send\<close> ends, and what it leaves.\<close>

lemma send_refused:
  assumes "findUnique convKey (smd_conversationId dto, u) (convParticipants w) = None \<or>
    (\<exists>p. findUnique convKey (smd_conversationId dto, u) (convParticipants w) = Some p \<and> cp_leftAt p \<noteq> None)"
  shows "send u dto now w = (Inl (Http Forbidden ''Not a participant'' (Some FORBIDDEN) []), w)"
  using assms by (auto simp: send_def assertParticipant_cases Let_def)

lemma send_by_participant:
  assumes "findUnique convKey (smd_conversationId dto, u) (convParticipants w) = Some p" and "cp_leftAt p = None"
  shows "send u dto now w =
    (if 60 \<le> counterGet now (rateKey ''msg'' u) (rd_counters w)
     then throwHttp Forbidden ''Too many messages, slow down'' RATE_LIMITED (counted_in u now w)
     else if (case getDirectPartner (smd_conversationId dto) u w of
                None \<Rightarrow> False | Some partner \<Rightarrow> blockedEitherWay u partner w)
     then throwHttp Forbidden ''Cannot send message to blocked user'' BLOCKED (counted_in u now w)
     else (case findByClientId (smd_conversationId dto) (smd_clientId dto) w of
       Some existing \<Rightarrow>
         ret \<lparr>sr_message = toMessageDto existing w,
              sr_recipientIds = recipientsOf (smd_conversationId dto) u w, sr_duplicate = True\<rparr> (counted_in u now w)
     | None \<Rightarrow>
         if smd_conversationId dto \<notin> cv_id ` set (conversations w) then raise ForeignKeyViolation (counted_in u now w)
         else if newUuid w \<in> ms_id ` set (messages w) then raise UniqueViolation (counted_in u now w)
         else let r = \<lparr>sr_message = (newMessage (newUuid w) u dto now, reactionsOf (newUuid w) w),
                       sr_recipientIds = recipientsOf (smd_conversationId dto) u w, sr_duplicate = False\<rparr>
              in ret r (callBack (MessagePersisted (sr_message r) (sr_recipientIds r)) (posted u dto now (counted_in u now w)))))"
proof -
  have key: "(smd_conversationId dto, u) \<in> convKey ` set (convParticipants w)"
    using assms(1) by (rule participant_key)
  have dup: "findByClientId (smd_conversationId dto) (smd_clientId dto) w = None \<longleftrightarrow>
      (smd_conversationId dto, Some (smd_clientId dto)) \<notin> clientKey ` set (messages w)"
    by (simp add: findByClientId_def findUnique_None)
  have start: "enforceRate u now w = (\<not> 60 \<le> counterGet now (rateKey ''msg'' u) (rd_counters w), counted_in u now w)"
    by (auto simp: enforceRate_cases counted_in_def)
  show ?thesis
  proof (cases "findByClientId (smd_conversationId dto) (smd_clientId dto) w")
    case (Some m)
    then show ?thesis
      using assms by (simp add: send_def assertParticipant_cases start blockedEitherWay_def toMessageDto_def
          reactionsOf_def Let_def del: not_None_eq split: option.split)
  next
    case None
    have [simp]: "ms_id (newMessage i u dto now) = i" "ms_createdAt (newMessage i u dto now) = now" for i
      by (simp_all add: newMessage_def)
    show ?thesis
      using assms None dup key
      by (simp add: send_def assertParticipant_cases start blockedEitherWay_def persistMessage_cases Let_def
          updateParticipant_cases toMessageDto_def reactionsOf_def posted_def takeUuid_def raise_def ret_def
          recipientsOf_def listParticipantIds_def participantsOf_def del: not_None_eq prod.inject split: option.split)
  qed
qed

lemma chat_counted [simp]: "chat (counted_in u now w) = chat w" and chat_callBack [simp]: "chat (callBack c w) = chat w"
  by (simp_all add: chat_def callBack_def)

lemma posted_move:
  assumes "findByClientId (smd_conversationId dto) (smd_clientId dto) w = None" and "newUuid w \<notin> ms_id ` set (messages w)"
  shows "chatMove (chat w) (chat (posted u dto now w))"
proof -
  define m where "m = newMessage (newUuid w) u dto now"
  have "clientKey m \<notin> clientKey ` set (messages w)" "ms_id m \<notin> ms_id ` set (messages w)"
    using assms by (simp_all add: m_def newMessage_def findByClientId_def findUnique_None)
  from Post [OF this, of "conversations w" "convParticipants w" now] show ?thesis
    by (simp add: chat_def posted_def takeUuid_def m_def) (simp add: newMessage_def)
qed

lemma send_move: "chatMove (chat w) (chat (snd (send u dto now w)))"
proof (cases "findUnique convKey (smd_conversationId dto, u) (convParticipants w)")
  case None
  then show ?thesis by (simp add: send_refused Idle)
next
  case (Some p)
  show ?thesis
  proof (cases "cp_leftAt p")
    case None
    have idle: "chatMove (chat w) (chat (counted_in u now w))" by (simp add: Idle)
    show ?thesis
    proof (cases "findByClientId (smd_conversationId dto) (smd_clientId dto) w = None \<and> newUuid w \<notin> ms_id ` set (messages w)")
      case True
      then show ?thesis
        using posted_move [of dto "counted_in u now w" u now] by (simp add: send_by_participant [OF Some None] Let_def Idle)
    next
      case False
      then show ?thesis
        by (auto simp: send_by_participant [OF Some None] Let_def Idle raise_def ret_def split: option.split)
    qed
  next
    case (Some t)
    then show ?thesis using \<open>findUnique _ _ _ = Some p\<close> by (simp add: send_refused Idle)
  qed
qed

lemma react_move: "chatMove (chat w) (chat (snd (react u m e rm now w)))"
proof -
  have "chat (snd (react u m e rm now w)) = chat w"
    by (auto simp: react_def assertParticipant_cases Let_def chat_def callBack_def split: option.split)
  then show ?thesis by (simp add: Idle)
qed

lemma softDelete_move: "chatMove (chat w) (chat (snd (softDelete u m w)))"
  using Erase [of "conversations w" "convParticipants w" "messages w" m]
  by (auto simp: softDelete_def write_or_def updateRow_def raise_def ret_def chat_def Idle split: option.split)

lemma messagingStep_move: "chatMove (chat w) (chat (messagingStep x w))"
proof (cases x)
  case (MarkRead u c t now)
  have "chatMove (chat w) (chat (snd (updateParticipant (c, u)
      (\<lambda>p. p\<lparr>cp_lastReadAt := Some (case t of None \<Rightarrow> now | Some t \<Rightarrow> t)\<rparr>) w)))" by (rule touch_move) simp_all
  then show ?thesis by (simp add: MarkRead markRead_def assertParticipant_cases Idle split: option.split)
next
  case (MuteConversation u c t)
  have "chatMove (chat w) (chat (snd (updateParticipant (c, u) (\<lambda>p. p\<lparr>cp_isMuted := on, cp_mutedUntil := until\<rparr>) w)))"
    for on until by (rule touch_move) simp_all
  then show ?thesis
    by (simp add: MuteConversation muteConversation_def assertParticipant_cases Idle split: option.split mutedUntilDto.split)
qed (simp_all add: findOrCreateDirect_move createConversation_move leaveConversation_move send_move react_move softDelete_move)

section \<open>Invariants of the moves\<close>

definition partIn :: "convParticipant list \<Rightarrow> uid \<Rightarrow> uid \<Rightarrow> bool" where
  "partIn ps c u \<longleftrightarrow> (\<exists>p \<in> set ps. convKey p = (c, u) \<and> cp_leftAt p = None)"

lemma takesPart_partIn: "takesPart c u w = partIn (convParticipants w) c u"
  by (auto simp: takesPart_def participantsOf_def list_ex_iff partIn_def)

lemma partIn_touch:
  assumes "\<And>p. convKey (f p) = convKey p" and "\<And>p. cp_leftAt (f p) = cp_leftAt p"
  shows "partIn (updateMany P f ps) c u = partIn ps c u"
  using assms by (induction ps) (auto simp: partIn_def updateMany_def)

lemma partIn_other:
  assumes "c' \<noteq> c"
  shows "partIn (updateMany (\<lambda>p. convKey p = (c, u)) (\<lambda>p. p\<lparr>cp_leftAt := t\<rparr>) ps) c' v = partIn ps c' v"
  using assms by (auto simp: partIn_def set_updateMany)

lemma partIn_new: "c' \<noteq> c \<Longrightarrow> partIn (ps @ map (newParticipant c now) us) c' v = partIn ps c' v"
  by (auto simp: partIn_def newParticipant_def)

definition directBetween :: "uid \<Rightarrow> uid \<Rightarrow> convParticipant list \<Rightarrow> conversation \<Rightarrow> bool" where
  "directBetween a b ps c \<longleftrightarrow>
     cv_type c = DIRECT \<and> cv_deletedAt c = None \<and> partIn ps (cv_id c) a \<and> partIn ps (cv_id c) b"

lemma findDirect_between: "findDirect a b w = find (directBetween a b (convParticipants w)) (conversations w)"
  by (simp add: findDirect_def takesPart_partIn directBetween_def [abs_def])

lemma findDirect_sym: "findDirect a b w = findDirect b a w"
proof -
  have "directBetween a b ps = directBetween b a ps" for ps by (auto simp: directBetween_def)
  then show ?thesis by (simp add: findDirect_between)
qed

fun directIs :: "uid \<Rightarrow> uid \<Rightarrow> uid \<Rightarrow> chat \<Rightarrow> bool" where
  "directIs a b i (cs, ps, ms) \<longleftrightarrow> unique cv_id cs \<and> map_option cv_id (find (directBetween a b ps) cs) = Some i"

fun sentAs :: "uid \<Rightarrow> uid \<Rightarrow> uid \<Rightarrow> chat \<Rightarrow> bool" where
  "sentAs c k i (cs, ps, ms) \<longleftrightarrow> map_option ms_id (findUnique clientKey (c, Some k) ms) = Some i"

lemma find_append: "find P (xs @ ys) = (case find P xs of None \<Rightarrow> find P ys | Some x \<Rightarrow> Some x)"
  by (induction xs) simp_all

lemma find_between_cong:
  "(\<And>c. c \<in> set cs \<Longrightarrow> cv_type c = DIRECT \<Longrightarrow> (partIn ps' (cv_id c) a \<and> partIn ps' (cv_id c) b) =
      (partIn ps (cv_id c) a \<and> partIn ps (cv_id c) b)) \<Longrightarrow>
   find (directBetween a b ps') cs = find (directBetween a b ps) cs"
  by (rule find_cong) (auto simp: directBetween_def)

inductive_cases chatMoveE: "chatMove s s'"

lemma directIs_move: "chatMove s s' \<Longrightarrow> directIs a b i s \<Longrightarrow> directIs a b i s'"
proof (induction rule: chatMove.induct)
  case (Open c cs us ps ms now)
  have "find (directBetween a b (ps @ map (newParticipant (cv_id c) now) us)) cs = find (directBetween a b ps) cs"
    using Open.hyps(1) by (intro find_between_cong) (auto simp: partIn_new image_iff)
  then show ?case using Open by (auto simp: find_append)
next
  case (Touch f cs ps ms k)
  have "partIn (updateMany (\<lambda>p. convKey p = k) f ps) c u = partIn ps c u" for c u
    using Touch.hyps by (rule partIn_touch)
  then show ?case using Touch.prems by (simp add: directBetween_def [abs_def])
next
  case (Leave c cs ps ms u now)
  have "find (directBetween a b (updateMany (\<lambda>p. convKey p = (cv_id c, u)) (\<lambda>p. p\<lparr>cp_leftAt := Some now\<rparr>) ps)) cs =
      find (directBetween a b ps) cs"
  proof (rule find_between_cong)
    fix d assume "d \<in> set cs" "cv_type d = DIRECT"
    then have other: "cv_id d \<noteq> cv_id c" using Leave unique_row [of cv_id cs d c] by auto
    show "(partIn (updateMany (\<lambda>p. convKey p = (cv_id c, u)) (\<lambda>p. p\<lparr>cp_leftAt := Some now\<rparr>) ps) (cv_id d) a \<and>
        partIn (updateMany (\<lambda>p. convKey p = (cv_id c, u)) (\<lambda>p. p\<lparr>cp_leftAt := Some now\<rparr>) ps) (cv_id d) b) =
        (partIn ps (cv_id d) a \<and> partIn ps (cv_id d) b)" unfolding partIn_other [OF other] ..
  qed
  then show ?case using Leave.prems by (simp del: prod.inject)
next
  case (Post m ms cs ps now)
  have "partIn (updateMany (\<lambda>p. convKey p = (ms_conversationId m, ms_senderId m)) (\<lambda>p. p\<lparr>cp_lastReadAt := Some now\<rparr>) ps) c u =
      partIn ps c u" for c u by (rule partIn_touch) simp_all
  then show ?case using Post.prems
    by (simp add: directBetween_def [abs_def] find_updateMany map_updateMany option.map_comp comp_def if_distrib
        cong: if_cong del: prod.inject) 
qed simp_all

lemma sentAs_move: "chatMove s s' \<Longrightarrow> sentAs c k i s \<Longrightarrow> sentAs c k i s'"
proof (induction rule: chatMove.induct)
  case (Post m ms cs ps now)
  then show ?case by (auto simp: findUnique_append)
next
  case (Erase cs ps ms j)
  have "findUnique clientKey (c, Some k) (updateMany (\<lambda>m. ms_id m = j) eraseMessage ms) =
      map_option (\<lambda>m. if ms_id m = j then eraseMessage m else m) (findUnique clientKey (c, Some k) ms)"
    by (rule findUnique_updateMany) (simp add: eraseMessage_def)
  then show ?case using Erase by (cases "findUnique clientKey (c, Some k) ms") (simp_all add: eraseMessage_def)
qed simp_all

interpretation direct: invariant_system messagingStep "\<lambda>w. directIs a b i (chat w)" for a b i
  by unfold_locales (rule directIs_move [OF messagingStep_move])

interpretation sent: invariant_system messagingStep "\<lambda>w. sentAs c k i (chat w)" for c k i
  by unfold_locales (rule sentAs_move [OF messagingStep_move])

section \<open>Facts behind the properties\<close>

lemma direct_opened:
  assumes "unique cv_id (conversations w)" and "fst (findOrCreateDirect a b now w) = Inr d"
  shows "directIs a b (cvd_id d) (chat (snd (findOrCreateDirect a b now w)))"
proof (cases "findDirect a b w")
  case (Some c)
  then have "findOrCreateDirect a b now w = (Inr (conversationToDetail c w), w)"
    using assms(2) by (auto simp: findOrCreateDirect_def assertNotBlocked_cases ret_def split: if_splits)
  moreover from this have "cvd_id d = cv_id c" using assms(2) by (auto simp: conversationToDetail_def)
  ultimately show ?thesis using assms(1) Some by (simp add: chat_def findDirect_between)
next
  case None
  define c where "c = \<lparr>cv_id = newUuid w, cv_type = DIRECT, cv_name = None, cv_avatarUrl = None,
     cv_communityId = None, cv_createdById = Some a, cv_lastMessageAt = None, cv_createdAt = now, cv_deletedAt = None\<rparr>"
  define ps where "ps = convParticipants w @ map (newParticipant (cv_id c) now) [a, b]"
  have new: "cv_id c \<notin> cv_id ` set (conversations w)"
    and d: "cvd_id d = cv_id c"
    and after: "chat (snd (findOrCreateDirect a b now w)) = (conversations w @ [c], ps, messages w)"
    using assms(2) None
    by (auto simp: findOrCreateDirect_def assertNotBlocked_cases insertConversation_def Let_def c_def ps_def
        ret_def raise_def throwHttp_def chat_def takeUuid_def conversationToDetail_def split: if_splits)
  have "find (directBetween a b ps) (conversations w) = find (directBetween a b (convParticipants w)) (conversations w)"
  proof (rule find_between_cong)
    fix e assume "e \<in> set (conversations w)"
    then have other: "cv_id e \<noteq> cv_id c" using new by (metis image_eqI)
    show "(partIn ps (cv_id e) a \<and> partIn ps (cv_id e) b) =
        (partIn (convParticipants w) (cv_id e) a \<and> partIn (convParticipants w) (cv_id e) b)"
      unfolding ps_def partIn_new [OF other] ..
  qed
  then have "find (directBetween a b ps) (conversations w) = None" using None by (simp add: findDirect_between)
  moreover have "directBetween a b ps c" by (auto simp: directBetween_def partIn_def ps_def newParticipant_def c_def)
  ultimately show ?thesis using assms(1) new d by (simp add: after find_append)
qed

lemma send_Inr:
  assumes "fst (send u dto now w) = Inr r"
  shows "\<exists>p. findUnique convKey (smd_conversationId dto, u) (convParticipants w) = Some p \<and> cp_leftAt p = None"
proof (rule ccontr)
  assume "\<not> ?thesis"
  then have "send u dto now w = (Inl (Http Forbidden ''Not a participant'' (Some FORBIDDEN) []), w)"
    by (intro send_refused) (cases "findUnique convKey (smd_conversationId dto, u) (convParticipants w)", auto)
  then show False using assms by simp
qed

text \<open>A successful \<open>send\<close>, with everything it had to pass and what it wrote.\<close>

lemma send_Inr_cases:
  assumes "fst (send u dto now w) = Inr r"
  shows "counterGet now (rateKey ''msg'' u) (rd_counters w) < 60 \<and>
    (\<forall>partner. getDirectPartner (smd_conversationId dto) u w = Some partner \<longrightarrow> \<not> blockedEitherWay u partner w) \<and>
    sr_recipientIds r = recipientsOf (smd_conversationId dto) u w \<and>
    (\<exists>existing. findByClientId (smd_conversationId dto) (smd_clientId dto) w = Some existing \<and>
        sr_duplicate r \<and> sr_message r = toMessageDto existing w \<and> snd (send u dto now w) = counted_in u now w \<or>
     findByClientId (smd_conversationId dto) (smd_clientId dto) w = None \<and> \<not> sr_duplicate r \<and>
        fst (sr_message r) = newMessage (newUuid w) u dto now \<and>
        snd (send u dto now w) = callBack (MessagePersisted (sr_message r) (sr_recipientIds r)) (posted u dto now (counted_in u now w)))"
proof -
  obtain p where p: "findUnique convKey (smd_conversationId dto, u) (convParticipants w) = Some p" "cp_leftAt p = None"
    using send_Inr [OF assms] by blast
  show ?thesis using assms
    by (auto simp: send_by_participant [OF p] Let_def split: if_splits option.splits)
qed

lemma chat_posted:
  "chat (posted u dto now w) =
     (updateMany (\<lambda>c. cv_id c = smd_conversationId dto) (\<lambda>c. c\<lparr>cv_lastMessageAt := Some now\<rparr>) (conversations w),
      updateMany (\<lambda>p. convKey p = (smd_conversationId dto, u)) (\<lambda>p. p\<lparr>cp_lastReadAt := Some now\<rparr>) (convParticipants w),
      messages w @ [newMessage (newUuid w) u dto now])"
  by (simp add: chat_def posted_def takeUuid_def)

lemma newMessage_fields [simp]:
  "ms_id (newMessage i u dto now) = i" "ms_conversationId (newMessage i u dto now) = smd_conversationId dto"
  "ms_clientId (newMessage i u dto now) = Some (smd_clientId dto)"
  by (simp_all add: newMessage_def)

lemma sent_recorded:
  assumes "fst (send u dto now w) = Inr r"
  shows "sentAs (smd_conversationId dto) (smd_clientId dto) (ms_id (fst (sr_message r))) (chat (snd (send u dto now w)))"
  using send_Inr_cases [OF assms]
proof (elim conjE exE disjE)
  fix existing
  assume "findByClientId (smd_conversationId dto) (smd_clientId dto) w = Some existing"
    "sr_message r = toMessageDto existing w" "snd (send u dto now w) = counted_in u now w"
  then show ?thesis by (simp add: chat_def [of w] toMessageDto_def findByClientId_def)
next
  assume "findByClientId (smd_conversationId dto) (smd_clientId dto) w = None"
    "fst (sr_message r) = newMessage (newUuid w) u dto now"
    "snd (send u dto now w) = callBack (MessagePersisted (sr_message r) (sr_recipientIds r)) (posted u dto now (counted_in u now w))"
  then show ?thesis
    by (simp add: chat_posted findUnique_append findByClientId_def)
qed

section \<open>Properties\<close>

text \<open>
  C23: there is one direct conversation between two users: once \<open>findOrCreateDirect\<close> has
  answered with a conversation, every later call for the two users, in either order and
  whatever messaging operations ran in between, answers with the same conversation and
  writes nothing, unless one has blocked the other.
\<close>

theorem direct_conversation_unique:
  assumes "unique cv_id (conversations w)" and "fst (findOrCreateDirect a b now w) = Inr d"
    and "w' = fold messagingStep ops (snd (findOrCreateDirect a b now w))" and "\<not> blockedEitherWay a b w'"
  shows "\<exists>d'. findOrCreateDirect a b now' w' = (Inr d', w') \<and> findOrCreateDirect b a now' w' = (Inr d', w') \<and>
    cvd_id d' = cvd_id d"
proof -
  have "directIs a b (cvd_id d) (chat w')"
    unfolding assms(3) by (rule direct.run_inv [OF direct_opened [OF assms(1,2)]])
  then obtain c where c: "findDirect a b w' = Some c" "cv_id c = cvd_id d"
    by (auto simp: chat_def findDirect_between)
  moreover have "findDirect b a w' = Some c" using c(1) findDirect_sym by metis
  moreover have "a \<noteq> b" using assms(2) by (auto simp: findOrCreateDirect_def)
  ultimately show ?thesis using assms(4) blockedEitherWay_sym [of a b w']
    by (auto simp: findOrCreateDirect_def assertNotBlocked_cases ret_def conversationToDetail_def)
qed

definition sampleChats :: messaging_db where
  "sampleChats = community_db.extend sampleCommunities
     \<lparr>conversations = [], convParticipants = [], messages = [], reactions = [], callbacksRegistered = True,
      msgCallbacks = []\<rparr>"

definition sampleSend :: sendMessageDto where
  "sampleSend =
     \<lparr>smd_conversationId = [], smd_clientId = ''k1'', smd_messageType = T_TEXT, smd_content = Some ''hi'',
      smd_mediaUrls = [], smd_rideInvite = None, smd_eventInvite = None\<rparr>"

definition sampleChat :: messaging_db where
  "sampleChat = snd (findOrCreateDirect ''a'' ''b'' 5 sampleChats)"

theorem direct_conversation_unique_witness:
  "\<exists>d'. findOrCreateDirect ''b'' ''a'' 9 (fold messagingStep [SendMessage ''a'' sampleSend 6] sampleChat) =
     (Inr d', fold messagingStep [SendMessage ''a'' sampleSend 6] sampleChat)"
proof -
  have "unique cv_id (conversations sampleChats)" "map_option cvd_id (case fst (findOrCreateDirect ''a'' ''b'' 5 sampleChats) of
      Inl e \<Rightarrow> None | Inr d \<Rightarrow> Some d) = Some []"
    "\<not> blockedEitherWay ''a'' ''b'' (fold messagingStep [SendMessage ''a'' sampleSend 6] sampleChat)" by code_simp+
  moreover from this(2) obtain d where "fst (findOrCreateDirect ''a'' ''b'' 5 sampleChats) = Inr d"
    by (auto split: sum.splits)
  ultimately show ?thesis unfolding sampleChat_def
    using direct_conversation_unique [OF _ _ refl] by blast
qed

text \<open>
  Sending is idempotent in the client id: after a send that succeeded, every later send
  to the same conversation with the same client id that succeeds, whatever messaging
  operations ran in between, is answered as a duplicate with the id of the first message
  and adds no message.
\<close>

theorem send_idempotent:
  assumes "fst (send u dto now w) = Inr r" and "w' = fold messagingStep ops (snd (send u dto now w))"
    and "smd_conversationId dto' = smd_conversationId dto" and "smd_clientId dto' = smd_clientId dto"
    and "fst (send v dto' now' w') = Inr r'"
  shows "sr_duplicate r' \<and> ms_id (fst (sr_message r')) = ms_id (fst (sr_message r)) \<and>
    messages (snd (send v dto' now' w')) = messages w'"
proof -
  have "sentAs (smd_conversationId dto) (smd_clientId dto) (ms_id (fst (sr_message r))) (chat w')"
    unfolding assms(2) by (rule sent.run_inv [OF sent_recorded [OF assms(1)]])
  then obtain m where "findByClientId (smd_conversationId dto') (smd_clientId dto') w' = Some m"
    "ms_id m = ms_id (fst (sr_message r))"
    by (auto simp: chat_def findByClientId_def assms(3,4))
  then show ?thesis using send_Inr_cases [OF assms(5)] by (auto simp: toMessageDto_def)
qed

lemma success_pair:
  "map_option f (case fst p of Inl e \<Rightarrow> None | Inr r \<Rightarrow> Some r) = Some x \<Longrightarrow> \<exists>r w. p = (Inr r, w)"
  by (cases p; cases "fst p") auto

lemma sampleSend_succeeds:
  "map_option sr_duplicate (case fst (send ''a'' sampleSend 6 sampleChat) of Inl e \<Rightarrow> None | Inr r \<Rightarrow> Some r) = Some False"
  "map_option sr_duplicate (case fst (send ''a'' sampleSend 8 (fold messagingStep [MarkRead ''b'' [] None 7]
      (snd (send ''a'' sampleSend 6 sampleChat)))) of Inl e \<Rightarrow> None | Inr r \<Rightarrow> Some r) = Some True"
  by code_simp+

theorem send_idempotent_witness:
  "messages (snd (send ''a'' sampleSend 8 (fold messagingStep [MarkRead ''b'' [] None 7] (snd (send ''a'' sampleSend 6 sampleChat))))) =
   messages (fold messagingStep [MarkRead ''b'' [] None 7] (snd (send ''a'' sampleSend 6 sampleChat)))"
proof -
  obtain r r' where "fst (send ''a'' sampleSend 6 sampleChat) = Inr r"
    "fst (send ''a'' sampleSend 8 (fold messagingStep [MarkRead ''b'' [] None 7]
      (snd (send ''a'' sampleSend 6 sampleChat)))) = Inr r'"
    using sampleSend_succeeds by (auto split: sum.splits)
  from send_idempotent [OF this(1) refl refl refl this(2)] show ?thesis by blast
qed

text \<open>
  C24: what a successful send went through and did: the sender takes part in the
  conversation, sent fewer than 60 messages in the current minute, and in a direct
  conversation is in no block relation with the partner; the recipients are the other users
  who have not left. It is a duplicate exactly if the conversation already holds a message with
  its client id: then that message is the answer, no message is added and no callback made.
  Otherwise exactly the one message is added and answered, the conversation carries its time
  and the callback got it once if one is registered.
\<close>

theorem send_guarded:
  assumes "send u dto now w = (Inr r, w')"
  shows "takesPart (smd_conversationId dto) u w \<and>
    counterGet now (rateKey ''msg'' u) (rd_counters w) < 60 \<and>
    (\<forall>partner. getDirectPartner (smd_conversationId dto) u w = Some partner \<longrightarrow> \<not> blockedEitherWay u partner w) \<and>
    set (sr_recipientIds r) = {v. v \<noteq> u \<and> takesPart (smd_conversationId dto) v w} \<and>
    (sr_duplicate r \<longleftrightarrow> (\<exists>m \<in> set (messages w). ms_conversationId m = smd_conversationId dto \<and> ms_clientId m = Some (smd_clientId dto))) \<and>
    (if sr_duplicate r then messages w' = messages w \<and> msgCallbacks w' = msgCallbacks w \<and>
       fst (sr_message r) \<in> set (messages w) \<and> ms_conversationId (fst (sr_message r)) = smd_conversationId dto \<and>
       ms_clientId (fst (sr_message r)) = Some (smd_clientId dto)
     else messages w' = messages w @ [newMessage (newUuid w) u dto now] \<and>
       fst (sr_message r) = newMessage (newUuid w) u dto now \<and>
       (\<forall>c \<in> set (conversations w'). cv_id c = smd_conversationId dto \<longrightarrow> cv_lastMessageAt c = Some now) \<and>
       msgCallbacks w' = msgCallbacks w @
         (if callbacksRegistered w then [MessagePersisted (sr_message r) (sr_recipientIds r)] else []))"
proof -
  have Inr: "fst (send u dto now w) = Inr r" and w': "w' = snd (send u dto now w)" by (simp_all add: assms)
  obtain p where "findUnique convKey (smd_conversationId dto, u) (convParticipants w) = Some p" "cp_leftAt p = None"
    using send_Inr [OF Inr] by blast
  then have part: "takesPart (smd_conversationId dto) u w"
    using findUnique_Some by (fastforce simp: takesPart_partIn partIn_def)
  have rec: "set (recipientsOf c u w) = {v. v \<noteq> u \<and> takesPart c v w}" for c
    by (auto simp: recipientsOf_def listParticipantIds_def takesPart_def list_ex_iff)
  from send_Inr_cases [OF Inr] show ?thesis
  proof (elim conjE exE disjE)
    fix existing
    assume found: "findByClientId (smd_conversationId dto) (smd_clientId dto) w = Some existing"
      "sr_message r = toMessageDto existing w"
    assume ok: "counterGet now (rateKey ''msg'' u) (rd_counters w) < 60"
      "\<forall>partner. getDirectPartner (smd_conversationId dto) u w = Some partner \<longrightarrow> \<not> blockedEitherWay u partner w"
      and r: "sr_recipientIds r = recipientsOf (smd_conversationId dto) u w" "sr_duplicate r"
      and after: "snd (send u dto now w) = counted_in u now w"
    have "messages w' = messages w \<and> msgCallbacks w' = msgCallbacks w" by (simp add: w' after) (simp add: counted_in_def)
    moreover have "existing \<in> set (messages w)" "ms_conversationId existing = smd_conversationId dto"
      "ms_clientId existing = Some (smd_clientId dto)"
      using found(1) by (auto simp: findByClientId_def dest: findUnique_Some)
    ultimately show ?thesis using ok r part rec found(2) by (auto simp: toMessageDto_def)
  next
    assume fresh: "findByClientId (smd_conversationId dto) (smd_clientId dto) w = None"
      "fst (sr_message r) = newMessage (newUuid w) u dto now"
    then have new: "\<not> (\<exists>m \<in> set (messages w). ms_conversationId m = smd_conversationId dto \<and> ms_clientId m = Some (smd_clientId dto))"
      by (auto simp: findByClientId_def findUnique_None image_iff)
    assume ok: "counterGet now (rateKey ''msg'' u) (rd_counters w) < 60"
      "\<forall>partner. getDirectPartner (smd_conversationId dto) u w = Some partner \<longrightarrow> \<not> blockedEitherWay u partner w"
      and r: "sr_recipientIds r = recipientsOf (smd_conversationId dto) u w" "\<not> sr_duplicate r"
      and after: "snd (send u dto now w) =
        callBack (MessagePersisted (sr_message r) (sr_recipientIds r)) (posted u dto now (counted_in u now w))"
    define v where "v = posted u dto now (counted_in u now w)"
    have "chat w' = chat v" by (simp add: w' after v_def)
    then have "messages w' = messages w @ [newMessage (newUuid w) u dto now]"
      "conversations w' = updateMany (\<lambda>c. cv_id c = smd_conversationId dto) (\<lambda>c. c\<lparr>cv_lastMessageAt := Some now\<rparr>) (conversations w)"
      by (simp_all add: v_def chat_posted) (simp_all add: chat_def)
    moreover have "msgCallbacks v = msgCallbacks w" "callbacksRegistered v = callbacksRegistered w"
      by (simp_all add: v_def posted_def takeUuid_def) (simp add: counted_in_def)
    then have "msgCallbacks w' = msgCallbacks w @
        (if callbacksRegistered w then [MessagePersisted (sr_message r) (sr_recipientIds r)] else [])"
      by (simp add: w' after v_def [symmetric] callBack_def)
    ultimately show ?thesis using ok r part rec fresh(2) new by (auto simp: set_updateMany)
  qed
qed

theorem send_guarded_witness:
  "\<exists>r w'. send ''a'' sampleSend 6 sampleChat = (Inr r, w') \<and>
     messages w' = messages sampleChat @ [newMessage (newUuid sampleChat) ''a'' sampleSend 6] \<and>
     set (sr_recipientIds r) = {v. v \<noteq> ''a'' \<and> takesPart [] v sampleChat} \<and> ''b'' \<in> set (sr_recipientIds r) \<and>
     (\<exists>r2 w2. send ''a'' sampleSend 8 w' = (Inr r2, w2) \<and> messages w2 = messages w' \<and>
        fst (sr_message r2) \<in> set (messages w'))"
proof -
  obtain r w' where send: "send ''a'' sampleSend 6 sampleChat = (Inr r, w')"
    using sampleSend_succeeds(1) by (metis success_pair)
  have conv: "smd_conversationId sampleSend = []" by code_simp
  note g = send_guarded [OF send, unfolded conv]
  have first: "\<not> sr_duplicate r" using sampleSend_succeeds(1) by (simp add: send)
  have w': "w' = snd (send ''a'' sampleSend 6 sampleChat)" by (simp add: send)
  have "map_option sr_duplicate (case fst (send ''a'' sampleSend 8 w') of Inl e \<Rightarrow> None | Inr r \<Rightarrow> Some r) = Some True"
    unfolding w' by code_simp
  from success_pair [OF this] this obtain r2 w2 where again: "send ''a'' sampleSend 8 w' = (Inr r2, w2)" "sr_duplicate r2" by auto
  have "takesPart [] ''b'' sampleChat" by code_simp
  moreover have "messages w2 = messages w'" "fst (sr_message r2) \<in> set (messages w')"
    using send_guarded [OF again(1)] again(2) by simp_all
  then have "\<exists>r2 w2. send ''a'' sampleSend 8 w' = (Inr r2, w2) \<and> messages w2 = messages w' \<and> fst (sr_message r2) \<in> set (messages w')"
    using again(1) by blast
  ultimately show ?thesis using send g first by (intro exI [of _ r] exI [of _ w']) simp
qed

text \<open>Every request that passes the schema carries what \<open>validateContent\<close> asks for.\<close>

lemma valid_message_has_content: "validSendMessage dto \<Longrightarrow> validateContent dto w = (Inr (), w)"
  by (auto simp: validSendMessage_def validateContent_def ret_def)

end
