(* ===== verification/Emergency.thy ===== *)
theory Emergency
  imports Social Text_Search
begin

text \<open>
  \<open>emergency.service.ts\<close> and \<open>emergency-contacts.service.ts\<close>: SOS alerts with their rate
  limit, the notification of the riders nearby, the responses, the resolution, and the list
  of emergency contacts. The riders nearby (\<open>LocationService.queryNearbyRaw\<close> over the Redis
  GEO index) are the parameter \<open>nearby\<close>. What leaves the service over the WebSocket gateway
  and as push messages is recorded in \<open>sosOut\<close> and \<open>pushOut\<close>.
\<close>

section \<open>State\<close>

datatype emergencyType = GENERAL | ACCIDENT | MECHANICAL | MEDICAL | FUEL | OTHER

datatype emergencyStatus = A_OPEN | A_ACKNOWLEDGED | A_RESOLVED | A_CANCELLED | A_FALSE_ALARM

datatype responderStatus = R_NOTIFIED | R_ACKNOWLEDGED | R_EN_ROUTE | R_ARRIVED | R_DECLINED

text \<open>What a responder may answer and how an owner may close, as the request schemas allow.\<close>

datatype answer = ACKNOWLEDGED | EN_ROUTE | ARRIVED | DECLINED

datatype resolution = RESOLVED | CANCELLED | FALSE_ALARM

fun answerStatus :: "answer \<Rightarrow> responderStatus" where
  "answerStatus ACKNOWLEDGED = R_ACKNOWLEDGED" | "answerStatus EN_ROUTE = R_EN_ROUTE"
| "answerStatus ARRIVED = R_ARRIVED" | "answerStatus DECLINED = R_DECLINED"

fun resolutionStatus :: "resolution \<Rightarrow> emergencyStatus" where
  "resolutionStatus RESOLVED = A_RESOLVED" | "resolutionStatus CANCELLED = A_CANCELLED"
| "resolutionStatus FALSE_ALARM = A_FALSE_ALARM"

record alert =
  al_id :: uid
  al_userId :: uid
  al_type :: emergencyType
  al_description :: "string option"
  al_latitude :: rat
  al_longitude :: rat
  al_accuracyMeters :: "rat option"
  al_radiusMeters :: int
  al_city :: "string option"
  al_status :: emergencyStatus
  al_notifiedCount :: nat
  al_createdAt :: time
  al_resolvedAt :: "time option"
  al_cancelledAt :: "time option"
  al_deletedAt :: "time option"

record responder =
  rp_id :: uid
  rp_alertId :: uid
  rp_responderId :: uid
  rp_status :: responderStatus
  rp_distanceMeters :: "int option"
  rp_etaSeconds :: "int option"
  rp_notifiedAt :: time
  rp_acknowledgedAt :: "time option"
  rp_arrivedAt :: "time option"
  rp_declinedAt :: "time option"

record emergencyContact =
  ec_id :: uid
  ec_userId :: uid
  ec_name :: string
  ec_phone :: string
  ec_relationship :: "string option"
  ec_createdAt :: time

record auditEntry =
  au_actorUserId :: "uid option"
  au_action :: string
  au_targetType :: string
  au_targetId :: uid
  au_metadata :: "(string \<times> detail) list"

record nearbyPayload =
  np_alertId :: uid
  np_requesterId :: uid
  np_requesterUsername :: string
  np_type :: emergencyType
  np_latitude :: rat
  np_longitude :: rat
  np_distanceMeters :: int
  np_createdAt :: time

text \<open>The calls of \<open>EmergencyGatewayBridge\<close>.\<close>

datatype sos_emit =
    BroadcastNearby "uid list" nearbyPayload
  | BroadcastResponderUpdate uid uid responder
  | BroadcastResolved uid "uid list" resolution

record emergency_db = core_db +
  alerts :: "alert list"
  responders :: "responder list"
  emergencyContacts :: "emergencyContact list"
  auditLog :: "auditEntry list"
  gatewayRegistered :: bool
  sosOut :: "sos_emit list"
  pushOut :: "(uid list \<times> (string \<times> string) list) list"

abbreviation responderKey :: "responder \<Rightarrow> uid \<times> uid" where
  "responderKey r \<equiv> (rp_alertId r, rp_responderId r)"

section \<open>Constants\<close>

definition maxAlertsPer10Min :: nat where "maxAlertsPer10Min = 3"
definition sosWindowSeconds :: int where "sosWindowSeconds = 600"
definition SOS_MIN_HOLD_MS :: int where "SOS_MIN_HOLD_MS = 3000"
definition EMERGENCY_DEFAULT_RADIUS_M :: int where "EMERGENCY_DEFAULT_RADIUS_M = 5000"
definition maxRecipients :: nat where "maxRecipients = 100"
definition sosRateKey :: "uid \<Rightarrow> string" where "sosRateKey userId = ''rate:sos:'' @ userId"
definition adminNotifyLock :: "uid \<Rightarrow> string" where "adminNotifyLock userId = ''sos:admin_notified:'' @ userId"
definition MAX_CONTACTS :: nat where "MAX_CONTACTS = 5"

lemmas sos_constants =
  maxAlertsPer10Min_def sosWindowSeconds_def SOS_MIN_HOLD_MS_def EMERGENCY_DEFAULT_RADIUS_M_def
  maxRecipients_def MAX_CONTACTS_def

section \<open>Results\<close>

record alertDto =
  ad_id :: uid
  ad_userId :: uid
  ad_type :: emergencyType
  ad_description :: "string option"
  ad_latitude :: rat
  ad_longitude :: rat
  ad_accuracyMeters :: "rat option"
  ad_radiusMeters :: int
  ad_city :: "string option"
  ad_status :: emergencyStatus
  ad_notifiedCount :: nat
  ad_createdAt :: time
  ad_resolvedAt :: "time option"
  ad_cancelledAt :: "time option"
  ad_responders :: "responder list"

definition toAlertDto :: "alert \<Rightarrow> responder list \<Rightarrow> alertDto" where
  "toAlertDto a rs =
     \<lparr>ad_id = al_id a, ad_userId = al_userId a, ad_type = al_type a, ad_description = al_description a,
      ad_latitude = al_latitude a, ad_longitude = al_longitude a, ad_accuracyMeters = al_accuracyMeters a,
      ad_radiusMeters = al_radiusMeters a, ad_city = al_city a, ad_status = al_status a,
      ad_notifiedCount = al_notifiedCount a, ad_createdAt = al_createdAt a,
      ad_resolvedAt = al_resolvedAt a, ad_cancelledAt = al_cancelledAt a, ad_responders = rs\<rparr>"

section \<open>Helpers\<close>

definition registerGateway :: "'a emergency_db_scheme \<Rightarrow> 'a emergency_db_scheme" where
  "registerGateway w = w\<lparr>gatewayRegistered := True\<rparr>"

definition emitSos :: "sos_emit \<Rightarrow> 'a emergency_db_scheme \<Rightarrow> 'a emergency_db_scheme" where
  "emitSos e w = (if gatewayRegistered w then w\<lparr>sosOut := sosOut w @ [e]\<rparr> else w)"

text \<open>An exception without a \<open>code\<close>.\<close>

definition throwPlain :: "http_exception \<Rightarrow> string \<Rightarrow> 'w \<Rightarrow> ('a, 'w) outcome" where
  "throwPlain ex msg w = raise (Http ex msg None []) w"

text \<open>\<open>Math.round\<close>\<close>

definition mathRound :: "rat \<Rightarrow> int" where
  "mathRound x = \<lfloor>x + 1 / 2\<rfloor>"

definition updateAlert ::
  "uid \<Rightarrow> (alert \<Rightarrow> alert) \<Rightarrow> 'a emergency_db_scheme \<Rightarrow> (unit, 'a emergency_db_scheme) outcome" where
  "updateAlert i f w = write_or RecordNotFound (updateRow al_id i f (alerts w)) (\<lambda>t. w\<lparr>alerts := t\<rparr>) w"

definition findLiveAlert :: "uid \<Rightarrow> 'a emergency_db_scheme \<Rightarrow> alert option" where
  "findLiveAlert i w = find (\<lambda>a. al_id a = i \<and> al_deletedAt a = None) (alerts w)"

definition flagFalseAlarm :: "uid \<Rightarrow> nat \<Rightarrow> time \<Rightarrow> 'a emergency_db_scheme \<Rightarrow> 'a emergency_db_scheme" where
  "flagFalseAlarm userId inWindow now w =
     (let (locked, ks) = kvSetNx now (adminNotifyLock userId) ''1'' sosWindowSeconds (rd_keys w);
          w1 = w\<lparr>rd_keys := ks\<rparr>
      in if \<not> locked then w1
         else w1\<lparr>auditLog := auditLog w1 @
           [\<lparr>au_actorUserId = None, au_action = ''SOS_RATE_LIMIT_TRIGGERED'', au_targetType = ''User'',
             au_targetId = userId, au_metadata = [(''alertsInWindow'', DNum (int inWindow)),
               (''threshold'', DNum (int maxAlertsPer10Min)), (''windowSeconds'', DNum sosWindowSeconds)]\<rparr>]\<rparr>)"

section \<open>Creating an alert\<close>

record createAlertDto =
  cad_type :: emergencyType
  cad_description :: "string option"
  cad_latitude :: rat
  cad_longitude :: rat
  cad_accuracyMeters :: "rat option"
  cad_holdDurationMs :: "int option"
  cad_radiusMeters :: "int option"

record requester =
  rq_username :: string
  rq_city :: "string option"
  rq_isBanned :: bool

text \<open>\<open>queryNearbyRaw(lat, lng, radius, { city, limit })\<close>: the riders and their distances.\<close>

type_synonym nearbyQueryRaw = "rat \<Rightarrow> rat \<Rightarrow> int \<Rightarrow> string option \<Rightarrow> nat \<Rightarrow> (uid \<times> rat) list"

definition newAlert :: "uid \<Rightarrow> uid \<Rightarrow> createAlertDto \<Rightarrow> requester \<Rightarrow> time \<Rightarrow> alert" where
  "newAlert i userId dto user now =
     \<lparr>al_id = i, al_userId = userId, al_type = cad_type dto, al_description = cad_description dto,
      al_latitude = cad_latitude dto, al_longitude = cad_longitude dto,
      al_accuracyMeters = cad_accuracyMeters dto,
      al_radiusMeters = (case cad_radiusMeters dto of None \<Rightarrow> EMERGENCY_DEFAULT_RADIUS_M | Some r \<Rightarrow> r),
      al_city = rq_city user, al_status = A_OPEN, al_notifiedCount = 0, al_createdAt = now,
      al_resolvedAt = None, al_cancelledAt = None, al_deletedAt = None\<rparr>"

definition notifiedResponder :: "uid \<Rightarrow> uid \<Rightarrow> uid \<times> rat \<Rightarrow> time \<Rightarrow> responder" where
  "notifiedResponder i alertId c now =
     \<lparr>rp_id = i, rp_alertId = alertId, rp_responderId = fst c, rp_status = R_NOTIFIED,
      rp_distanceMeters = Some (mathRound (snd c)), rp_etaSeconds = None, rp_notifiedAt = now,
      rp_acknowledgedAt = None, rp_arrivedAt = None, rp_declinedAt = None\<rparr>"

text \<open>\<open>createMany({ data, skipDuplicates: true })\<close>: one statement, checked before it writes.\<close>

fun insertResponders ::
  "uid \<Rightarrow> (uid \<times> rat) list \<Rightarrow> time \<Rightarrow> 'a emergency_db_scheme \<Rightarrow> 'a emergency_db_scheme" where
  "insertResponders alertId [] now w = w"
| "insertResponders alertId (c # cs) now w =
     (let r = notifiedResponder (newUuid w) alertId c now; w1 = takeUuid w
      in insertResponders alertId cs now
           (if rp_id r \<in> rp_id ` set (responders w) \<or> responderKey r \<in> responderKey ` set (responders w)
            then w1 else w1\<lparr>responders := responders w1 @ [r]\<rparr>))"

definition createManyResponders ::
  "uid \<Rightarrow> (uid \<times> rat) list \<Rightarrow> time \<Rightarrow> 'a emergency_db_scheme \<Rightarrow> (unit, 'a emergency_db_scheme) outcome" where
  "createManyResponders alertId cs now w =
     (if \<not> list_all (\<lambda>c. userExists (fst c) w) cs then raise ForeignKeyViolation w
      else ret () (insertResponders alertId cs now w))"

text \<open>\<open>Promise.all(recipients.map(create))\<close>: all run, the first failure is thrown.\<close>

fun notifyAllNearby ::
  "alert \<Rightarrow> (uid \<times> rat) list \<Rightarrow> time \<Rightarrow> 'a emergency_db_scheme \<Rightarrow> (unit, 'a emergency_db_scheme) outcome" where
  "notifyAllNearby a [] now w = ret () w"
| "notifyAllNearby a (c # cs) now w =
     (let (res, w1) = notify (fst c) N_EMERGENCY_NEARBY ''Yakininda bir surucu yardim istiyor''
            ''Yardim edebilir misin?''
            [(''alertId'', DText (al_id a)), (''requesterId'', DText (al_userId a)),
             (''distanceMeters'', DNum (mathRound (snd c)))] now w;
          (rest, w2) = notifyAllNearby a cs now w1
      in (case res of Inl e \<Rightarrow> (Inl e, w2) | Inr _ \<Rightarrow> (rest, w2)))"

fun broadcastAllNearby ::
  "alert \<Rightarrow> string \<Rightarrow> (uid \<times> rat) list \<Rightarrow> 'a emergency_db_scheme \<Rightarrow> 'a emergency_db_scheme" where
  "broadcastAllNearby a username [] w = w"
| "broadcastAllNearby a username (c # cs) w =
     broadcastAllNearby a username cs
       (emitSos (BroadcastNearby [fst c]
          \<lparr>np_alertId = al_id a, np_requesterId = al_userId a, np_requesterUsername = username,
           np_type = al_type a, np_latitude = al_latitude a, np_longitude = al_longitude a,
           np_distanceMeters = mathRound (snd c), np_createdAt = al_createdAt a\<rparr>) w)"

definition dispatchNearbyNotifications ::
  "alert \<Rightarrow> string \<Rightarrow> (uid \<times> rat) list \<Rightarrow> time \<Rightarrow> 'a emergency_db_scheme \<Rightarrow>
   (unit, 'a emergency_db_scheme) outcome" where
  "dispatchNearbyNotifications a username recipients now w =
     and_then (notifyAllNearby a recipients now w)
       (\<lambda>_ w1.
          let w2 = w1\<lparr>pushOut := pushOut w1 @ [(map fst recipients,
                [(''type'', ''EMERGENCY_NEARBY''), (''alertId'', al_id a), (''requesterId'', al_userId a)])]\<rparr>
          in ret () (broadcastAllNearby a username recipients w2))"

text \<open>The riders nearby without the requester and without anyone in a block relation with him.\<close>

definition sosRecipients :: "uid \<Rightarrow> (uid \<times> rat) list \<Rightarrow> 'a core_db_scheme \<Rightarrow> (uid \<times> rat) list" where
  "sosRecipients userId riders w =
     (let candidates = filter (\<lambda>c. fst c \<noteq> userId) riders;
          ids = set (map fst candidates);
          found = filter (\<lambda>b. bl_initiatorId b = userId \<and> bl_targetId b \<in> ids \<or>
                        bl_targetId b = userId \<and> bl_initiatorId b \<in> ids) (blocks w);
          blockedIds = set (map bl_initiatorId found) \<union> set (map bl_targetId found)
      in filter (\<lambda>c. fst c \<notin> blockedIds) candidates)"

definition notifyNearby ::
  "nearbyQueryRaw \<Rightarrow> alert \<Rightarrow> string \<Rightarrow> time \<Rightarrow> 'a emergency_db_scheme \<Rightarrow>
   (alertDto, 'a emergency_db_scheme) outcome" where
  "notifyNearby nearby a username now w =
     (let riders = nearby (al_latitude a) (al_longitude a) (al_radiusMeters a) (al_city a) maxRecipients;
          filtered = sosRecipients (al_userId a) riders w
      in if filter (\<lambda>c. fst c \<noteq> al_userId a) riders = [] then ret (toAlertDto a []) w
         else and_then (if filtered \<noteq> [] then createManyResponders (al_id a) filtered now w else ret () w)
           (\<lambda>_ w1. and_then (updateAlert (al_id a) (\<lambda>r. r\<lparr>al_notifiedCount := length filtered\<rparr>) w1)
              (\<lambda>_ w2. and_then
                 (if filtered \<noteq> [] then dispatchNearbyNotifications a username filtered now w2 else ret () w2)
                 (\<lambda>_ w3. ret (toAlertDto (a\<lparr>al_notifiedCount := length filtered\<rparr>) []) w3))))"

definition createAlert ::
  "nearbyQueryRaw \<Rightarrow> uid \<Rightarrow> createAlertDto \<Rightarrow> requester \<Rightarrow> time \<Rightarrow> 'a emergency_db_scheme \<Rightarrow>
   (alertDto, 'a emergency_db_scheme) outcome" where
  "createAlert nearby userId dto user now w0 =
     (if rq_isBanned user then throwHttp Forbidden ''user_banned'' FORBIDDEN w0
      else if (case cad_holdDurationMs dto of None \<Rightarrow> False | Some h \<Rightarrow> h < SOS_MIN_HOLD_MS)
      then raise (Http BadRequest ''hold_too_short'' (Some VALIDATION_FAILED) [(''minHoldMs'', DNum SOS_MIN_HOLD_MS)]) w0
      else let (inWindow, s) = incrWindow sosWindowSeconds now (sosRateKey userId) (rd_counters w0);
               w = w0\<lparr>rd_counters := s\<rparr>
           in if inWindow > maxAlertsPer10Min
              then let left = ttl now (sosRateKey userId) (rd_counters w) in
                   raise (Http Forbidden ''sos_rate_limit'' (Some RATE_LIMITED)
                     [(''retryAfterSeconds'', DNum (if left > 0 then left else sosWindowSeconds)),
                      (''accountRestricted'', DFlag True)])
                     (flagFalseAlarm userId inWindow now w)
              else let a = newAlert (newUuid w) userId dto user now in
                   and_then
                     (write_or UniqueViolation (createRow al_id a (alerts w)) (\<lambda>t. (takeUuid w)\<lparr>alerts := t\<rparr>) w)
                     (\<lambda>_ w1. notifyNearby nearby a (rq_username user) now w1))"

section \<open>Responding and resolving\<close>

record respondDto =
  rd_status :: answer
  rd_etaSeconds :: "int option"

definition answered :: "respondDto \<Rightarrow> time \<Rightarrow> responder \<Rightarrow> responder" where
  "answered dto now r =
     (let r1 = r\<lparr>rp_status := answerStatus (rd_status dto), rp_etaSeconds := rd_etaSeconds dto\<rparr>;
          r2 = (if rd_status dto = ACKNOWLEDGED then r1\<lparr>rp_acknowledgedAt := Some now\<rparr> else r1);
          r3 = (if rd_status dto = ARRIVED then r2\<lparr>rp_arrivedAt := Some now\<rparr> else r2)
      in if rd_status dto = DECLINED then r3\<lparr>rp_declinedAt := Some now\<rparr> else r3)"

definition newResponder :: "uid \<Rightarrow> uid \<Rightarrow> uid \<Rightarrow> respondDto \<Rightarrow> time \<Rightarrow> responder" where
  "newResponder i alertId responderId dto now =
     \<lparr>rp_id = i, rp_alertId = alertId, rp_responderId = responderId, rp_status = answerStatus (rd_status dto),
      rp_distanceMeters = None, rp_etaSeconds = rd_etaSeconds dto, rp_notifiedAt = now,
      rp_acknowledgedAt = (if rd_status dto = ACKNOWLEDGED then Some now else None),
      rp_arrivedAt = (if rd_status dto = ARRIVED then Some now else None),
      rp_declinedAt = (if rd_status dto = DECLINED then Some now else None)\<rparr>"

definition saveResponse ::
  "uid \<Rightarrow> uid \<Rightarrow> respondDto \<Rightarrow> time \<Rightarrow> 'a emergency_db_scheme \<Rightarrow> (responder, 'a emergency_db_scheme) outcome" where
  "saveResponse alertId responderId dto now w =
     (case findUnique responderKey (alertId, responderId) (responders w) of
        Some r \<Rightarrow> ret (answered dto now r) (w\<lparr>responders :=
            updateMany (\<lambda>r. responderKey r = (alertId, responderId)) (answered dto now) (responders w)\<rparr>)
      | None \<Rightarrow>
          if newUuid w \<in> rp_id ` set (responders w) then raise UniqueViolation w
          else let r = newResponder (newUuid w) alertId responderId dto now
               in ret r ((takeUuid w)\<lparr>responders := responders w @ [r]\<rparr>))"

definition respond ::
  "uid \<Rightarrow> uid \<Rightarrow> respondDto \<Rightarrow> time \<Rightarrow> 'a emergency_db_scheme \<Rightarrow> (responder, 'a emergency_db_scheme) outcome" where
  "respond responderId alertId dto now w =
     (case findLiveAlert alertId w of
        None \<Rightarrow> throwPlain NotFound ''alert_not_found'' w
      | Some a \<Rightarrow>
          if al_userId a = responderId then throwPlain Forbidden ''cannot_respond_to_own_alert'' w
          else if al_status a = A_RESOLVED \<or> al_status a = A_CANCELLED then throwPlain BadRequest ''alert_closed'' w
          else let existing = findUnique responderKey (alertId, responderId) (responders w) in
            and_then (saveResponse alertId responderId dto now w)
              (\<lambda>saved w1. and_then
                 (if rd_status dto = ACKNOWLEDGED \<and> al_status a = A_OPEN
                  then updateAlert alertId (\<lambda>r. r\<lparr>al_status := A_ACKNOWLEDGED\<rparr>) w1 else ret () w1)
                 (\<lambda>_ w2.
                    let w3 = emitSos (BroadcastResponderUpdate alertId (al_userId a) saved) w2
                    in if rd_status dto = ACKNOWLEDGED \<and> Option.bind existing rp_acknowledgedAt = None
                       then and_then
                         (notify (al_userId a) N_EMERGENCY_NEARBY ''Yardim geliyor''
                            ''Bir surucu sana yardim etmek icin yolda.''
                            [(''alertId'', DText alertId), (''responderId'', DText responderId)] now
                            (emitEvent (GamificationTrigger responderId EMERGENCY_ACKNOWLEDGED 1 [(''alertId'', alertId)]) w3))
                         (\<lambda>_ w4. ret saved w4)
                       else ret saved w3)))"

definition resolve ::
  "uid \<Rightarrow> uid \<Rightarrow> resolution \<Rightarrow> time \<Rightarrow> 'a emergency_db_scheme \<Rightarrow> (alertDto, 'a emergency_db_scheme) outcome" where
  "resolve userId alertId resolution now w =
     (case findLiveAlert alertId w of
        None \<Rightarrow> throwPlain NotFound ''alert_not_found'' w
      | Some a \<Rightarrow>
          if al_userId a \<noteq> userId then throwPlain Forbidden ''not_alert_owner'' w
          else let close = (\<lambda>r. r\<lparr>al_status := resolutionStatus resolution,
                       al_resolvedAt := (if resolution = RESOLVED then Some now else None),
                       al_cancelledAt := (if resolution \<noteq> RESOLVED then Some now else None)\<rparr>)
            in and_then (updateAlert alertId close w)
              (\<lambda>_ w1. ret (toAlertDto (close a) [])
                 (emitSos (BroadcastResolved alertId
                    (map rp_responderId (filter (\<lambda>r. rp_alertId r = alertId) (responders w1))) resolution) w1)))"

definition listAlertsForUser :: "uid \<Rightarrow> nat \<Rightarrow> 'a emergency_db_scheme \<Rightarrow> alertDto list" where
  "listAlertsForUser userId limit w =
     map (\<lambda>a. toAlertDto a [])
       (take limit (rev (sort_key al_createdAt
          (filter (\<lambda>a. al_userId a = userId \<and> al_deletedAt a = None) (alerts w)))))"

definition getAlert ::
  "uid \<Rightarrow> uid \<Rightarrow> 'a emergency_db_scheme \<Rightarrow> (alertDto, 'a emergency_db_scheme) outcome" where
  "getAlert requesterId alertId w =
     (case findLiveAlert alertId w of
        None \<Rightarrow> throwPlain NotFound ''alert_not_found'' w
      | Some a \<Rightarrow>
          if al_userId a \<noteq> requesterId \<and>
             findUnique responderKey (alertId, requesterId) (responders w) = None
          then throwPlain Forbidden ''not_authorized'' w
          else ret (toAlertDto a
            (take 50 (sort_key rp_notifiedAt (filter (\<lambda>r. rp_alertId r = alertId) (responders w))))) w)"

section \<open>emergency-contacts.service.ts\<close>

definition listContacts :: "uid \<Rightarrow> 'a emergency_db_scheme \<Rightarrow> emergencyContact list" where
  "listContacts userId w = sort_key ec_createdAt (filter (\<lambda>c. ec_userId c = userId) (emergencyContacts w))"

definition createContact ::
  "uid \<Rightarrow> string \<Rightarrow> string \<Rightarrow> string option \<Rightarrow> time \<Rightarrow> 'a emergency_db_scheme \<Rightarrow>
   (emergencyContact, 'a emergency_db_scheme) outcome" where
  "createContact userId name phone relationship now w =
     (if countRows (\<lambda>c. ec_userId c = userId) (emergencyContacts w) \<ge> MAX_CONTACTS
      then throwHttp BadRequest ''emergency_contacts_limit'' VALIDATION_FAILED w
      else let row = \<lparr>ec_id = newUuid w, ec_userId = userId, ec_name = trim name, ec_phone = trim phone,
                      ec_relationship = map_option trim relationship, ec_createdAt = now\<rparr>
           in and_then
             (write_or UniqueViolation (createRow ec_id row (emergencyContacts w))
                (\<lambda>t. (takeUuid w)\<lparr>emergencyContacts := t\<rparr>) w)
             (\<lambda>_ w1. ret row w1))"

definition removeContact ::
  "uid \<Rightarrow> uid \<Rightarrow> 'a emergency_db_scheme \<Rightarrow> (unit, 'a emergency_db_scheme) outcome" where
  "removeContact userId contactId w =
     (if find (\<lambda>c. ec_id c = contactId \<and> ec_userId c = userId) (emergencyContacts w) = None
      then throwHttp NotFound ''contact_not_found'' NOT_FOUND w
      else write_or RecordNotFound (deleteRow ec_id contactId (emergencyContacts w))
        (\<lambda>t. w\<lparr>emergencyContacts := t\<rparr>) w)"

section \<open>The operations as steps\<close>

datatype emergency_op =
    CreateAlert uid createAlertDto requester time
  | Respond uid uid respondDto time
  | Resolve uid uid resolution time
  | CreateContact uid string string "string option" time
  | RemoveContact uid uid

fun emergencyStep :: "nearbyQueryRaw \<Rightarrow> emergency_op \<Rightarrow> 'a emergency_db_scheme \<Rightarrow> 'a emergency_db_scheme" where
  "emergencyStep nearby (CreateAlert u dto user now) w = snd (createAlert nearby u dto user now w)"
| "emergencyStep nearby (Respond u a dto now) w = snd (respond u a dto now w)"
| "emergencyStep nearby (Resolve u a res now) w = snd (resolve u a res now w)"
| "emergencyStep nearby (CreateContact u n p rel now) w = snd (createContact u n p rel now w)"
| "emergencyStep nearby (RemoveContact u c) w = snd (removeContact u c w)"

section \<open>The moves of an alert\<close>

text \<open>The tables of alerts and responders and the bus, and what an operation may do to them.\<close>

type_synonym sosView = "alert list \<times> responder list \<times> bus_event list"

abbreviation ackTrigger :: "uid \<Rightarrow> uid \<Rightarrow> bus_event" where
  "ackTrigger i u \<equiv> GamificationTrigger u EMERGENCY_ACKNOWLEDGED 1 [(''alertId'', i)]"

definition closeAlert :: "resolution \<Rightarrow> time \<Rightarrow> alert \<Rightarrow> alert" where
  "closeAlert res now r = r\<lparr>al_status := resolutionStatus res,
     al_resolvedAt := (if res = RESOLVED then Some now else None),
     al_cancelledAt := (if res \<noteq> RESOLVED then Some now else None)\<rparr>"

definition answeredRows ::
  "uid \<Rightarrow> uid \<Rightarrow> uid \<Rightarrow> respondDto \<Rightarrow> time \<Rightarrow> responder list \<Rightarrow> responder list" where
  "answeredRows new i u dto now rs =
     (case findUnique responderKey (i, u) rs of
        Some r \<Rightarrow> updateMany (\<lambda>r. responderKey r = (i, u)) (answered dto now) rs
      | None \<Rightarrow> rs @ [newResponder new i u dto now])"

inductive sosMove :: "sosView \<Rightarrow> sosView \<Rightarrow> bool" where
  Idle: "sosMove s s"
| Raise: "al_id a \<notin> al_id ` set as \<Longrightarrow> al_status a = A_OPEN \<Longrightarrow> al_resolvedAt a = None \<Longrightarrow>
    al_cancelledAt a = None \<Longrightarrow> sosMove (as, rs, bs) (as @ [a], rs, bs)"
| Count: "sosMove (as, rs, bs) (updateMany (\<lambda>a. al_id a = i) (\<lambda>a. a\<lparr>al_notifiedCount := n\<rparr>) as, rs, bs)"
| Notify: "responderKey r \<notin> responderKey ` set rs \<Longrightarrow> rp_acknowledgedAt r = None \<Longrightarrow>
    sosMove (as, rs, bs) (as, rs @ [r], bs)"
| Answer: "a \<in> set as \<Longrightarrow> al_status a \<noteq> A_RESOLVED \<Longrightarrow> al_status a \<noteq> A_CANCELLED \<Longrightarrow>
    sosMove (as, rs, bs)
      (if rd_status dto = ACKNOWLEDGED \<and> al_status a = A_OPEN
       then updateMany (\<lambda>r. al_id r = al_id a) (\<lambda>r. r\<lparr>al_status := A_ACKNOWLEDGED\<rparr>) as else as,
       answeredRows new (al_id a) u dto now rs,
       bs @ (if rd_status dto = ACKNOWLEDGED \<and>
                Option.bind (findUnique responderKey (al_id a, u) rs) rp_acknowledgedAt = None
             then [ackTrigger (al_id a) u] else []))"
| Close: "sosMove (as, rs, bs) (updateMany (\<lambda>a. al_id a = i) (closeAlert res now) as, rs, bs)"

definition sosView :: "'a emergency_db_scheme \<Rightarrow> sosView" where
  "sosView w = (alerts w, responders w, bus w)"

lemma sosView_frame [simp]:
  "sosView (emitSos e w) = sosView w" "sosView (takeUuid w) = sosView w"
  "sosView (w\<lparr>pushOut := x\<rparr>) = sosView w" "sosView (w\<lparr>rd_counters := c\<rparr>) = sosView w"
  "sosView (flagFalseAlarm u n now w) = sosView w" "sosView (w\<lparr>emergencyContacts := y\<rparr>) = sosView w"
  by (simp_all add: sosView_def emitSos_def takeUuid_def flagFalseAlarm_def Let_def split: prod.split)

lemma notify_view [simp]: "sosView (snd (notify u ty t b d now w)) = sosView w"
  by (simp add: notify_def Let_def write_or_def createRow_def raise_def ret_def sosView_def takeUuid_def)

lemma notifyAllNearby_view [simp]: "sosView (snd (notifyAllNearby a cs now w)) = sosView w"
proof (induction cs arbitrary: w)
  case Nil
  then show ?case by simp
next
  case (Cons c cs)
  obtain res w1 where n: "notify (fst c) N_EMERGENCY_NEARBY ''Yakininda bir surucu yardim istiyor''
      ''Yardim edebilir misin?'' [(''alertId'', DText (al_id a)), (''requesterId'', DText (al_userId a)),
       (''distanceMeters'', DNum (mathRound (snd c)))] now w = (res, w1)" by fastforce
  then have "sosView w1 = sosView w" using notify_view by (metis snd_conv)
  then show ?case using Cons [of w1]
    by (cases "notifyAllNearby a cs now w1") (simp add: n split: sum.split)
qed

lemma broadcastAllNearby_view [simp]: "sosView (broadcastAllNearby a n cs w) = sosView w"
  by (induction cs arbitrary: w) simp_all

lemma dispatch_view [simp]: "sosView (snd (dispatchNearbyNotifications a n cs now w)) = sosView w"
proof -
  obtain res w1 where n: "notifyAllNearby a cs now w = (res, w1)" by fastforce
  then have "sosView w1 = sosView w" using notifyAllNearby_view by (metis snd_conv)
  then show ?thesis by (cases res) (simp_all add: dispatchNearbyNotifications_def n Let_def)
qed

lemma updateAlert_cases:
  "updateAlert i f w =
     (if i \<in> al_id ` set (alerts w)
      then (Inr (), w\<lparr>alerts := updateMany (\<lambda>a. al_id a = i) f (alerts w)\<rparr>) else (Inl RecordNotFound, w))"
  by (simp add: updateAlert_def write_or_def updateRow_def raise_def ret_def)

lemma insertResponders_moves: "sosMove\<^sup>*\<^sup>* (sosView w) (sosView (insertResponders i cs now w))"
proof (induction cs arbitrary: w)
  case Nil
  then show ?case by simp
next
  case (Cons c cs)
  define r where "r = notifiedResponder (newUuid w) i c now"
  define w1 where "w1 = (if rp_id r \<in> rp_id ` set (responders w) \<or> responderKey r \<in> responderKey ` set (responders w)
      then takeUuid w else (takeUuid w)\<lparr>responders := responders (takeUuid w) @ [r]\<rparr>)"
  have "sosMove (sosView w) (sosView w1)"
    using Notify [of r "responders w" "alerts w" "bus w"] Idle [of "sosView w"]
    by (auto simp: w1_def sosView_def takeUuid_def r_def notifiedResponder_def)
  moreover have "insertResponders i (c # cs) now w = insertResponders i cs now w1"
    by (simp add: Let_def w1_def r_def)
  ultimately show ?case using Cons [of w1] by (metis converse_rtranclp_into_rtranclp)
qed

lemma moves_and_then:
  assumes "sosMove\<^sup>*\<^sup>* s (sosView (snd r))" and "\<And>x. sosMove\<^sup>*\<^sup>* (sosView (snd r)) (sosView (snd (f x (snd r))))"
  shows "sosMove\<^sup>*\<^sup>* s (sosView (snd (and_then r f)))"
  using assms by (cases "(r, f)" rule: and_then.cases) (auto intro: rtranclp_trans)

lemma updateAlert_count: "sosMove\<^sup>*\<^sup>* (sosView w) (sosView (snd (updateAlert i (\<lambda>a. a\<lparr>al_notifiedCount := n\<rparr>) w)))"
  using Count [of "alerts w" "responders w" "bus w" i n]
  by (auto simp: updateAlert_cases sosView_def)

lemma notifyNearby_moves: "sosMove\<^sup>*\<^sup>* (sosView w) (sosView (snd (notifyNearby nearby a n now w)))"
proof -
  have create: "sosMove\<^sup>*\<^sup>* (sosView w) (sosView (snd (createManyResponders i cs now w)))" for i cs
    using insertResponders_moves [of w i cs now] by (simp add: createManyResponders_def)
  show ?thesis unfolding notifyNearby_def Let_def
    by (simp del: snd_and_then_ret, intro conjI impI moves_and_then create updateAlert_count) simp_all
qed

lemma createAlert_moves: "sosMove\<^sup>*\<^sup>* (sosView w) (sosView (snd (createAlert nearby u dto user now w)))"
proof -
  have raised: "sosMove\<^sup>*\<^sup>* (sosView w) (sosView (snd
      (write_or UniqueViolation (createRow al_id (newAlert i u dto user now) (alerts w))
         (\<lambda>t. (takeUuid (w\<lparr>rd_counters := c\<rparr>))\<lparr>alerts := t\<rparr>) (w\<lparr>rd_counters := c\<rparr>))))" for i c
    using Raise [of "newAlert i u dto user now" "alerts w" "responders w" "bus w"]
    by (auto simp: write_or_def createRow_def sosView_def takeUuid_def newAlert_def ret_def raise_def)
  show ?thesis
    by (auto simp: createAlert_def Let_def split: prod.split
        simp del: snd_and_then_ret intro!: moves_and_then raised notifyNearby_moves)
qed

lemma findLiveAlert_Some:
  "findLiveAlert i w = Some a \<Longrightarrow> a \<in> set (alerts w) \<and> al_id a = i"
  by (auto simp: findLiveAlert_def dest: find_row)

text \<open>A response that got past the checks, and the three places where it may stop.\<close>

lemma saveResponse_view:
  "fst (saveResponse i u dto now w) = Inr r \<Longrightarrow>
   sosView (snd (saveResponse i u dto now w)) = (alerts w, answeredRows (newUuid w) i u dto now (responders w), bus w)"
  by (auto simp: saveResponse_def sosView_def answeredRows_def Let_def takeUuid_def raise_def ret_def
      split: option.splits if_splits)

lemma saveResponse_failed:
  "fst (saveResponse i u dto now w) = Inl e \<Longrightarrow> snd (saveResponse i u dto now w) = w"
  by (auto simp: saveResponse_def Let_def split: option.splits if_splits)

lemma respond_move: "sosMove (sosView w) (sosView (snd (respond u i dto now w)))"
proof (cases "\<exists>a r. findLiveAlert i w = Some a \<and> al_userId a \<noteq> u \<and> al_status a \<noteq> A_RESOLVED \<and>
    al_status a \<noteq> A_CANCELLED \<and> fst (saveResponse i u dto now w) = Inr r")
  case False
  have failed: "snd (respond u i dto now w) = w"
    if "fst (saveResponse i u dto now w) = Inl e" "findLiveAlert i w = Some a" for e a
  proof -
    have "saveResponse i u dto now w = (Inl e, w)"
      using saveResponse_failed [OF that(1)] that(1) by (metis prod.collapse)
    then show ?thesis using that(2) by (simp add: respond_def throwPlain_def)
  qed
  have "snd (respond u i dto now w) = w"
  proof (cases "findLiveAlert i w")
    case None
    then show ?thesis by (simp add: respond_def throwPlain_def)
  next
    case (Some a)
    then show ?thesis using False failed
      by (cases "fst (saveResponse i u dto now w)") (auto simp: respond_def throwPlain_def)
  qed
  then show ?thesis by (simp add: Idle)
next
  case True
  then obtain a r where a: "findLiveAlert i w = Some a" "al_userId a \<noteq> u" "al_status a \<noteq> A_RESOLVED"
    "al_status a \<noteq> A_CANCELLED" and r: "fst (saveResponse i u dto now w) = Inr r" by blast
  obtain w1 where w1: "saveResponse i u dto now w = (Inr r, w1)" using r by (metis prod.collapse)
  have row: "a \<in> set (alerts w)" "al_id a = i" using findLiveAlert_Some [OF a(1)] by simp_all
  have v1: "alerts w1 = alerts w" "responders w1 = answeredRows (newUuid w) i u dto now (responders w)" "bus w1 = bus w"
    using saveResponse_view [OF r] by (simp_all add: w1 sosView_def)
  define w2 where "w2 = (if rd_status dto = ACKNOWLEDGED \<and> al_status a = A_OPEN
    then w1\<lparr>alerts := updateMany (\<lambda>r. al_id r = i) (\<lambda>r. r\<lparr>al_status := A_ACKNOWLEDGED\<rparr>) (alerts w)\<rparr> else w1)"
  have "i \<in> al_id ` set (alerts w)" using row by auto
  then have step: "(if rd_status dto = ACKNOWLEDGED \<and> al_status a = A_OPEN
      then updateAlert i (\<lambda>r. r\<lparr>al_status := A_ACKNOWLEDGED\<rparr>) w1 else ret () w1) = (Inr (), w2)"
    by (simp add: updateAlert_cases v1 w2_def ret_def)
  have "sosView (snd (respond u i dto now w)) =
      (if rd_status dto = ACKNOWLEDGED \<and> Option.bind (findUnique responderKey (i, u) (responders w)) rp_acknowledgedAt = None
       then sosView (emitEvent (ackTrigger i u) w2) else sosView w2)"
    using a w1 step by (simp add: respond_def Let_def) (simp add: emitEvent_def sosView_def emitSos_def)
  also have "\<dots> = (if rd_status dto = ACKNOWLEDGED \<and> al_status a = A_OPEN
       then updateMany (\<lambda>r. al_id r = i) (\<lambda>r. r\<lparr>al_status := A_ACKNOWLEDGED\<rparr>) (alerts w) else alerts w,
       answeredRows (newUuid w) i u dto now (responders w),
       bus w @ (if rd_status dto = ACKNOWLEDGED \<and>
                Option.bind (findUnique responderKey (i, u) (responders w)) rp_acknowledgedAt = None
             then [ackTrigger i u] else []))"
    by (simp add: sosView_def w2_def v1 emitEvent_def)
  finally show ?thesis
    using Answer [OF row(1) a(3,4), of "responders w" "bus w" dto "newUuid w" u now]
    unfolding row(2) by (simp add: sosView_def)
qed

lemma resolve_move: "sosMove (sosView w) (sosView (snd (resolve u i res now w)))"
proof -
  have "sosView (snd (resolve u i res now w)) = sosView w \<or>
      sosView (snd (resolve u i res now w)) =
        (updateMany (\<lambda>a. al_id a = i) (closeAlert res now) (alerts w), responders w, bus w)"
    by (simp add: resolve_def throwPlain_def updateAlert_cases closeAlert_def [abs_def] split: option.split)
       (simp add: sosView_def emitSos_def)
  then show ?thesis using Close [of "alerts w" "responders w" "bus w" i res now]
    by (auto simp: Idle sosView_def)
qed

lemma emergencyStep_moves: "sosMove\<^sup>*\<^sup>* (sosView w) (sosView (emergencyStep nearby x w))"
proof (cases x)
  case (CreateAlert u dto user now)
  then show ?thesis by (simp add: createAlert_moves)
next
  case (Respond u i dto now)
  then show ?thesis by (simp only: emergencyStep.simps, intro r_into_rtranclp respond_move)
next
  case (Resolve u i res now)
  then show ?thesis by (simp only: emergencyStep.simps, intro r_into_rtranclp resolve_move)
next
  case (CreateContact u n p rel now)
  have "sosView (emergencyStep nearby x w) = sosView w"
    by (simp add: CreateContact createContact_def Let_def write_or_def createRow_def raise_def ret_def sosView_def takeUuid_def)
  then show ?thesis by simp
next
  case (RemoveContact u c)
  then show ?thesis by (simp add: removeContact_def write_or_def deleteRow_def raise_def ret_def)
qed

section \<open>The invariant\<close>

definition acknowledged :: "uid \<Rightarrow> uid \<Rightarrow> responder list \<Rightarrow> bool" where
  "acknowledged i u rs \<longleftrightarrow> (\<exists>r \<in> set rs. responderKey r = (i, u) \<and> rp_acknowledgedAt r \<noteq> None)"

definition datesFit :: "alert \<Rightarrow> bool" where
  "datesFit a \<longleftrightarrow> (al_resolvedAt a \<noteq> None) = (al_status a = A_RESOLVED) \<and>
     (al_cancelledAt a \<noteq> None) = (al_status a \<in> {A_CANCELLED, A_FALSE_ALARM})"

fun sosInv :: "sosView \<Rightarrow> bool" where
  "sosInv (as, rs, bs) \<longleftrightarrow> unique al_id as \<and> unique responderKey rs \<and> (\<forall>a \<in> set as. datesFit a) \<and>
     (\<forall>a \<in> set as. al_status a = A_ACKNOWLEDGED \<longrightarrow> (\<exists>u. acknowledged (al_id a) u rs)) \<and>
     (\<forall>i u. countRows (\<lambda>e. e = ackTrigger i u) bs = (if acknowledged i u rs then 1 else 0))"

lemma answered_key [simp]:
  "rp_alertId (answered dto now r) = rp_alertId r" "rp_responderId (answered dto now r) = rp_responderId r"
  "rp_acknowledgedAt (answered dto now r) = (if rd_status dto = ACKNOWLEDGED then Some now else rp_acknowledgedAt r)"
  by (simp_all add: answered_def Let_def)

lemma newResponder_key [simp]:
  "rp_alertId (newResponder n i u dto now) = i" "rp_responderId (newResponder n i u dto now) = u"
  "rp_acknowledgedAt (newResponder n i u dto now) = (if rd_status dto = ACKNOWLEDGED then Some now else None)"
  by (simp_all add: newResponder_def)

lemma acknowledged_iff:
  assumes "unique responderKey rs"
  shows "acknowledged i u rs \<longleftrightarrow> Option.bind (findUnique responderKey (i, u) rs) rp_acknowledgedAt \<noteq> None"
proof (cases "findUnique responderKey (i, u) rs")
  case None
  then have "\<forall>r \<in> set rs. responderKey r \<noteq> (i, u)" by (auto simp: findUnique_None image_iff)
  then have "\<not> acknowledged i u rs" by (auto simp: acknowledged_def)
  then show ?thesis by (simp add: None)
next
  case (Some r)
  then have "r \<in> set rs" "responderKey r = (i, u)" by (simp_all add: findUnique_iff [OF assms])
  moreover from this have "s = r" if "s \<in> set rs" "responderKey s = (i, u)" for s
    using that unique_row [OF assms, of s r] by simp
  ultimately have "acknowledged i u rs \<longleftrightarrow> rp_acknowledgedAt r \<noteq> None"
    unfolding acknowledged_def by blast
  then show ?thesis by (simp add: Some)
qed

lemma answeredRows_unique:
  assumes "unique responderKey rs" shows "unique responderKey (answeredRows n i u dto now rs)"
proof (cases "findUnique responderKey (i, u) rs")
  case None
  then have "(i, u) \<notin> responderKey ` set rs" by (simp add: findUnique_None)
  moreover have "answeredRows n i u dto now rs = rs @ [newResponder n i u dto now]"
    by (simp add: answeredRows_def None)
  ultimately show ?thesis using assms by simp
next
  case (Some r)
  then have "answeredRows n i u dto now rs = updateMany (\<lambda>r. responderKey r = (i, u)) (answered dto now) rs"
    by (simp add: answeredRows_def)
  moreover have "map responderKey (updateMany (\<lambda>r. responderKey r = (i, u)) (answered dto now) rs) = map responderKey rs"
    by (rule map_updateMany) simp
  ultimately show ?thesis using assms by simp
qed

lemma findUnique_answered:
  "findUnique responderKey (j, v) (answeredRows n i u dto now rs) =
     (if (j, v) = (i, u) then Some (case findUnique responderKey (i, u) rs of
        Some r \<Rightarrow> answered dto now r | None \<Rightarrow> newResponder n i u dto now)
      else findUnique responderKey (j, v) rs)"
proof (cases "findUnique responderKey (i, u) rs")
  case None
  then show ?thesis by (auto simp: answeredRows_def findUnique_append split: option.split)
next
  case (Some r)
  have "findUnique responderKey (j, v) (updateMany (\<lambda>r. responderKey r = (i, u)) (answered dto now) rs) =
      map_option (\<lambda>r. if responderKey r = (i, u) then answered dto now r else r) (findUnique responderKey (j, v) rs)"
    by (rule findUnique_updateMany) simp
  moreover have "responderKey s = (j, v)" if "findUnique responderKey (j, v) rs = Some s" for s
    using findUnique_Some [OF that] by simp
  ultimately show ?thesis using Some
    by (cases "findUnique responderKey (j, v) rs") (auto simp: answeredRows_def)
qed

lemma acknowledged_answered:
  assumes "unique responderKey rs"
  shows "acknowledged j v (answeredRows n i u dto now rs) \<longleftrightarrow>
    acknowledged j v rs \<or> (j, v) = (i, u) \<and> rd_status dto = ACKNOWLEDGED"
  unfolding acknowledged_iff [OF answeredRows_unique [OF assms]] acknowledged_iff [OF assms] findUnique_answered
  by (cases "findUnique responderKey (i, u) rs") auto

lemma acknowledged_append:
  "rp_acknowledgedAt r = None \<Longrightarrow> acknowledged i u (rs @ [r]) = acknowledged i u rs"
  by (auto simp: acknowledged_def)

lemma sosInv_move: "sosMove s s' \<Longrightarrow> sosInv s \<Longrightarrow> sosInv s'"
proof (induction rule: sosMove.induct)
  case (Idle s)
  then show ?case by simp
next
  case (Raise a as rs bs)
  then show ?case by (simp add: datesFit_def)
next
  case (Count as rs bs i n)
  then show ?case by (auto simp: map_updateMany set_updateMany datesFit_def)
next
  case (Notify r rs as bs)
  then show ?case by (simp add: acknowledged_append)
next
  case (Answer a as rs bs dto new u now)
  have uniq: "unique responderKey rs" "unique al_id as" using Answer.prems by simp_all
  have xp: "countRows (\<lambda>e. e = ackTrigger j v) (bs @ (if rd_status dto = ACKNOWLEDGED \<and>
      Option.bind (findUnique responderKey (al_id a, u) rs) rp_acknowledgedAt = None then [ackTrigger (al_id a) u] else [])) =
    (if acknowledged j v (answeredRows new (al_id a) u dto now rs) then 1 else 0)" for j v
    using Answer.prems acknowledged_iff [OF uniq(1), of "al_id a" u]
    by (auto simp: acknowledged_answered [OF uniq(1)])
  define as' where "as' = (if rd_status dto = ACKNOWLEDGED \<and> al_status a = A_OPEN
    then updateMany (\<lambda>r. al_id r = al_id a) (\<lambda>r. r\<lparr>al_status := A_ACKNOWLEDGED\<rparr>) as else as)"
  have ids: "unique al_id as'" using uniq(2) by (simp add: as'_def map_updateMany)
  have rows: "datesFit b \<and> (al_status b = A_ACKNOWLEDGED \<longrightarrow>
      (\<exists>v. acknowledged (al_id b) v (answeredRows new (al_id a) u dto now rs)))" if "b \<in> set as'" for b
  proof (cases "b \<in> set as")
    case True
    then show ?thesis using Answer.prems by (auto simp: acknowledged_answered [OF uniq(1)])
  next
    case False
    then have on: "rd_status dto = ACKNOWLEDGED" "al_status a = A_OPEN"
      using that by (simp_all add: as'_def split: if_splits)
    then have "b \<in> set (updateMany (\<lambda>r. al_id r = al_id a) (\<lambda>r. r\<lparr>al_status := A_ACKNOWLEDGED\<rparr>) as)"
      using that by (simp add: as'_def)
    then obtain c where "c \<in> set as" "b = (if al_id c = al_id a then c\<lparr>al_status := A_ACKNOWLEDGED\<rparr> else c)"
      unfolding set_updateMany by (rule imageE)
    moreover from this False have "al_id c = al_id a" by (auto split: if_splits)
    ultimately have c: "rd_status dto = ACKNOWLEDGED" "al_status a = A_OPEN" "c \<in> set as" "al_id c = al_id a"
      "b = c\<lparr>al_status := A_ACKNOWLEDGED\<rparr>" using on by simp_all
    then have "c = a" using unique_row [OF uniq(2) c(3) Answer.hyps(1)] by simp
    moreover have "datesFit a" using Answer.prems Answer.hyps(1) by simp
    ultimately show ?thesis using c by (auto simp: datesFit_def acknowledged_answered [OF uniq(1)])
  qed
  show ?case unfolding as'_def [symmetric] sosInv.simps
    using ids answeredRows_unique [OF uniq(1)] rows xp by blast
next
  case (Close as rs bs i res now)
  have "datesFit (closeAlert res now a)" "al_status (closeAlert res now a) \<noteq> A_ACKNOWLEDGED"
    "al_id (closeAlert res now a) = al_id a" for a
    by (cases res; simp add: datesFit_def closeAlert_def)+
  then show ?case using Close by (auto simp: map_updateMany set_updateMany)
qed

lemma sosInv_moves: "sosMove\<^sup>*\<^sup>* s s' \<Longrightarrow> sosInv s \<Longrightarrow> sosInv s'"
  by (induction rule: rtranclp_induct) (auto intro: sosInv_move)

lemma sosInv_step: "sosInv (sosView w) \<Longrightarrow> sosInv (sosView (emergencyStep nearby x w))"
  by (rule sosInv_moves [OF emergencyStep_moves])

interpretation sos: invariant_system "emergencyStep nearby" "\<lambda>w. sosInv (sosView w)" for nearby
  by unfold_locales (rule sosInv_step)

section \<open>Who is told of an alert\<close>

lemma sosRecipients_iff:
  "c \<in> set (sosRecipients u riders w) \<longleftrightarrow> c \<in> set riders \<and> fst c \<noteq> u \<and> \<not> blockedEitherWay u (fst c) w"
proof -
  define ids where "ids = set (map fst (filter (\<lambda>c. fst c \<noteq> u) riders))"
  define found where "found = filter (\<lambda>b. bl_initiatorId b = u \<and> bl_targetId b \<in> ids \<or>
      bl_targetId b = u \<and> bl_initiatorId b \<in> ids) (blocks w)"
  have "(\<exists>b \<in> set found. bl_initiatorId b = fst c \<or> bl_targetId b = fst c) \<longleftrightarrow>
      (\<exists>b \<in> set (blocks w). blockKey b = (u, fst c) \<or> blockKey b = (fst c, u))"
    if c: "c \<in> set riders" "fst c \<noteq> u"
  proof -
    have "fst c \<in> ids" using c by (simp add: ids_def)
    then show ?thesis using c(2) unfolding found_def by auto
  qed
  moreover have "blockedEitherWay u (fst c) w \<longleftrightarrow> (\<exists>b \<in> set (blocks w). blockKey b = (u, fst c) \<or> blockKey b = (fst c, u))"
    unfolding blockedEitherWay_iff image_iff by metis
  moreover have "c \<in> set (sosRecipients u riders w) \<longleftrightarrow> c \<in> set riders \<and> fst c \<noteq> u \<and>
      \<not> (\<exists>b \<in> set found. bl_initiatorId b = fst c \<or> bl_targetId b = fst c)"
    unfolding sosRecipients_def Let_def ids_def [symmetric] found_def [symmetric] by (simp add: image_iff) metis
  ultimately show ?thesis by blast
qed

lemma sosRecipients_cong: "blocks v = blocks w \<Longrightarrow> sosRecipients u riders v = sosRecipients u riders w"
  by (simp add: sosRecipients_def)

lemma sosRecipients_none: "filter (\<lambda>c. fst c \<noteq> u) riders = [] \<Longrightarrow> sosRecipients u riders w = []"
  by (simp add: sosRecipients_def Let_def)

definition outView :: "'a emergency_db_scheme \<Rightarrow> sos_emit list \<times> (uid list \<times> (string \<times> string) list) list \<times> bool" where
  "outView w = (sosOut w, pushOut w, gatewayRegistered w)"

lemma outView_frame [simp]:
  "outView (takeUuid w) = outView w" "outView (w\<lparr>alerts := t\<rparr>) = outView w" "outView (w\<lparr>responders := r\<rparr>) = outView w"
  by (simp_all add: outView_def takeUuid_def)

lemma notify_out [simp]: "outView (snd (notify u ty t b d now w)) = outView w"
  by (simp add: notify_def Let_def write_or_def createRow_def raise_def ret_def outView_def takeUuid_def)

lemma notifyAllNearby_out [simp]: "outView (snd (notifyAllNearby a cs now w)) = outView w"
proof (induction cs arbitrary: w)
  case Nil
  then show ?case by simp
next
  case (Cons c cs)
  obtain res w1 where n: "notify (fst c) N_EMERGENCY_NEARBY ''Yakininda bir surucu yardim istiyor''
      ''Yardim edebilir misin?'' [(''alertId'', DText (al_id a)), (''requesterId'', DText (al_userId a)),
       (''distanceMeters'', DNum (mathRound (snd c)))] now w = (res, w1)" by fastforce
  then have "outView w1 = outView w" using notify_out by (metis snd_conv)
  then show ?case using Cons [of w1]
    by (cases "notifyAllNearby a cs now w1") (simp add: n split: sum.split)
qed

definition nearbyCall :: "alert \<Rightarrow> string \<Rightarrow> uid \<times> rat \<Rightarrow> sos_emit" where
  "nearbyCall a username c = BroadcastNearby [fst c]
     \<lparr>np_alertId = al_id a, np_requesterId = al_userId a, np_requesterUsername = username,
      np_type = al_type a, np_latitude = al_latitude a, np_longitude = al_longitude a,
      np_distanceMeters = mathRound (snd c), np_createdAt = al_createdAt a\<rparr>"

lemma broadcastAllNearby_out:
  "sosOut (broadcastAllNearby a n cs w) = sosOut w @ (if gatewayRegistered w then map (nearbyCall a n) cs else []) \<and>
   pushOut (broadcastAllNearby a n cs w) = pushOut w"
  by (induction cs arbitrary: w) (simp_all add: emitSos_def nearbyCall_def)

lemma insertResponders_out [simp]: "outView (insertResponders i cs now w) = outView w"
  by (induction cs arbitrary: w) (auto simp: Let_def)

lemma insertResponders_grows: "set (responders w) \<subseteq> set (responders (insertResponders i cs now w))"
proof (induction cs arbitrary: w)
  case Nil
  then show ?case by simp
next
  case (Cons c cs)
  show ?case unfolding insertResponders.simps Let_def
    by (rule order_trans [OF _ Cons]) (auto simp: takeUuid_def)
qed

text \<open>The supply still has unused identifiers for responder rows.\<close>

definition freshResponderIds :: "'a emergency_db_scheme \<Rightarrow> bool" where
  "freshResponderIds w \<longleftrightarrow> inj (uuidSeq w) \<and> (\<forall>n \<ge> uuidNext w. uuidSeq w n \<notin> rp_id ` set (responders w))"

definition nextInsert :: "uid \<Rightarrow> uid \<times> rat \<Rightarrow> time \<Rightarrow> 'a emergency_db_scheme \<Rightarrow> 'a emergency_db_scheme" where
  "nextInsert i d now w = (let r = notifiedResponder (newUuid w) i d now
     in if rp_id r \<in> rp_id ` set (responders w) \<or> responderKey r \<in> responderKey ` set (responders w)
      then takeUuid w else (takeUuid w)\<lparr>responders := responders (takeUuid w) @ [r]\<rparr>)"

lemma insertResponders_next: "insertResponders i (d # cs) now w = insertResponders i cs now (nextInsert i d now w)"
  by (simp add: Let_def nextInsert_def)

lemma freshResponderIds_next: "freshResponderIds w \<Longrightarrow> freshResponderIds (nextInsert i d now w)"
  by (auto simp: freshResponderIds_def nextInsert_def Let_def notifiedResponder_def newUuid_def takeUuid_def dest: injD)

lemma insertResponders_all:
  assumes "freshResponderIds w" and "c \<in> set cs"
  shows "(i, fst c) \<in> responderKey ` set (responders (insertResponders i cs now w))"
  using assms
proof (induction cs arbitrary: w)
  case Nil
  then show ?case by simp
next
  case (Cons d cs)
  have new: "newUuid w \<notin> rp_id ` set (responders w)" using Cons.prems(1) by (simp add: freshResponderIds_def newUuid_def)
  show ?case
  proof (cases "c = d")
    case True
    have "(i, fst c) \<in> responderKey ` set (responders (nextInsert i d now w))"
      using new True by (auto simp: nextInsert_def Let_def notifiedResponder_def takeUuid_def simp del: prod.inject)
    then show ?thesis unfolding insertResponders_next
      using insertResponders_grows [of "nextInsert i d now w" i cs now] by blast
  next
    case False
    then show ?thesis unfolding insertResponders_next
      using Cons.IH [OF freshResponderIds_next [OF Cons.prems(1)]] Cons.prems(2) by simp
  qed
qed

text \<open>Everything a completed notification round has done.\<close>

lemma notifyNearby_done:
  assumes "notifyNearby nearby a n now w = (Inr d, w')" and "freshResponderIds w"
    and "R = sosRecipients (al_userId a) (nearby (al_latitude a) (al_longitude a) (al_radiusMeters a) (al_city a) maxRecipients) w"
    and "al_notifiedCount a = 0"
  shows "d = toAlertDto (a\<lparr>al_notifiedCount := length R\<rparr>) [] \<and>
    (\<forall>c \<in> set R. (al_id a, fst c) \<in> responderKey ` set (responders w')) \<and>
    pushOut w' = pushOut w @ (if R = [] then [] else [(map fst R, [(''type'', ''EMERGENCY_NEARBY''),
       (''alertId'', al_id a), (''requesterId'', al_userId a)])]) \<and>
    sosOut w' = sosOut w @ (if gatewayRegistered w then map (nearbyCall a n) R else [])"
proof (cases "filter (\<lambda>c. fst c \<noteq> al_userId a)
    (nearby (al_latitude a) (al_longitude a) (al_radiusMeters a) (al_city a) maxRecipients) = []")
  case True
  then have "R = []" unfolding assms(3) by (rule sosRecipients_none)
  moreover have "d = toAlertDto a []" "w' = w" using assms(1) True by (auto simp: notifyNearby_def ret_def)
  moreover have "a\<lparr>al_notifiedCount := 0\<rparr> = a" using assms(4) by (cases a) simp
  ultimately show ?thesis by simp
next
  case False
  show ?thesis
  proof (cases "R = []")
    case True
    have "updateAlert (al_id a) (\<lambda>r. r\<lparr>al_notifiedCount := 0\<rparr>) w = (Inr (), w')" "d = toAlertDto (a\<lparr>al_notifiedCount := 0\<rparr>) []"
      using assms(1) False True unfolding assms(3)
      by (auto simp: notifyNearby_def Let_def and_then_Inr_iff ret_def)
    moreover from this(1) have "outView w' = outView w" "responders w' = responders w"
      by (auto simp: updateAlert_cases split: if_splits)
    ultimately show ?thesis using True by (auto simp: outView_def)
  next
    case ne: False
    obtain w1 w2 w3 where ok: "createManyResponders (al_id a) R now w = (Inr (), w1)"
      and w2: "updateAlert (al_id a) (\<lambda>r. r\<lparr>al_notifiedCount := length R\<rparr>) w1 = (Inr (), w2)"
      and w3: "notifyAllNearby a R now w2 = (Inr (), w3)"
      and d: "d = toAlertDto (a\<lparr>al_notifiedCount := length R\<rparr>) []"
      and w': "w' = broadcastAllNearby a n R (w3\<lparr>pushOut := pushOut w3 @ [(map fst R, [(''type'', ''EMERGENCY_NEARBY''),
         (''alertId'', al_id a), (''requesterId'', al_userId a)])]\<rparr>)"
      using assms(1) False ne
      by (auto simp: notifyNearby_def Let_def and_then_Inr_iff dispatchNearbyNotifications_def ret_def assms(3) [symmetric])
    have w1: "w1 = insertResponders (al_id a) R now w"
      using ok by (auto simp: createManyResponders_def ret_def raise_def split: if_splits)
    have "sosView w3 = sosView w2" using notifyAllNearby_view [of a R now w2] by (simp add: w3)
    moreover have "sosView w' = sosView w3" by (simp add: w')
    moreover have "responders w2 = responders w1" using w2 by (auto simp: updateAlert_cases split: if_splits)
    ultimately have rows: "responders w' = responders w1" by (simp add: sosView_def)
    have "outView w3 = outView w2" using notifyAllNearby_out [of a R now w2] by (simp add: w3)
    moreover have "outView w2 = outView w1" using w2 by (auto simp: updateAlert_cases split: if_splits)
    ultimately have out: "sosOut w3 = sosOut w" "pushOut w3 = pushOut w" "gatewayRegistered w3 = gatewayRegistered w"
      using insertResponders_out [of "al_id a" R now w] by (simp_all add: w1 outView_def)
    have "\<forall>c \<in> set R. (al_id a, fst c) \<in> responderKey ` set (responders w')"
      unfolding rows w1 using insertResponders_all [OF assms(2)] by blast
    moreover have "sosOut w' = sosOut w @ (if gatewayRegistered w then map (nearbyCall a n) R else [])"
      "pushOut w' = pushOut w @ [(map fst R, [(''type'', ''EMERGENCY_NEARBY''),
         (''alertId'', al_id a), (''requesterId'', al_userId a)])]"
      by (simp_all add: w' out broadcastAllNearby_out)
    ultimately show ?thesis using d ne by simp
  qed
qed

section \<open>Properties\<close>

text \<open>
  C9: the life of an alert, whatever operations run: resolvedAt is set exactly for RESOLVED
  alerts and cancelledAt exactly for CANCELLED and FALSE_ALARM ones; an ACKNOWLEDGED alert
  has a responder who acknowledged it; and the quest trigger of an acknowledgement was
  emitted exactly once for every responder who acknowledged an alert, and never for others.
\<close>

theorem alert_lifecycle:
  assumes "sosInv (sosView w)" and "w' = fold (emergencyStep nearby) ops w"
  shows "sosInv (sosView w') \<and>
    (\<forall>a \<in> set (alerts w'). (al_resolvedAt a \<noteq> None) = (al_status a = A_RESOLVED) \<and>
       (al_cancelledAt a \<noteq> None) = (al_status a \<in> {A_CANCELLED, A_FALSE_ALARM}) \<and>
       (al_status a = A_ACKNOWLEDGED \<longrightarrow> (\<exists>u. acknowledged (al_id a) u (responders w')))) \<and>
    (\<forall>i u. countRows (\<lambda>e. e = ackTrigger i u) (bus w') = (if acknowledged i u (responders w') then 1 else 0))"
proof -
  have inv: "sosInv (sosView w')" unfolding assms(2) using assms(1) by (rule sos.run_inv)
  have "sosView w' = (alerts w', responders w', bus w')" by (simp add: sosView_def)
  then have "\<forall>a \<in> set (alerts w'). datesFit a"
    "\<forall>a \<in> set (alerts w'). al_status a = A_ACKNOWLEDGED \<longrightarrow> (\<exists>u. acknowledged (al_id a) u (responders w'))"
    "\<forall>i u. countRows (\<lambda>e. e = ackTrigger i u) (bus w') = (if acknowledged i u (responders w') then 1 else 0)"
    using inv by simp_all
  then show ?thesis using inv unfolding datesFit_def by blast
qed

definition sampleSos :: emergency_db where
  "sampleSos = core_db.extend sampleCore
     \<lparr>alerts = [], responders = [], emergencyContacts = [], auditLog = [], gatewayRegistered = True,
      sosOut = [], pushOut = []\<rparr>"

definition sampleAlertDto :: createAlertDto where
  "sampleAlertDto =
     \<lparr>cad_type = ACCIDENT, cad_description = None, cad_latitude = 41, cad_longitude = 29,
      cad_accuracyMeters = None, cad_holdDurationMs = Some 3500, cad_radiusMeters = None\<rparr>"

definition sampleRequester :: requester where
  "sampleRequester = \<lparr>rq_username = ''a'', rq_city = None, rq_isBanned = False\<rparr>"

definition sampleNearby :: nearbyQueryRaw where
  "sampleNearby lat lng r city n = [(''a'', 0), (''b'', 120), (''c'', 900)]"

theorem alert_lifecycle_witness:
  "countRows (\<lambda>e. e = ackTrigger [] ''b'')
     (bus (fold (emergencyStep sampleNearby)
        [CreateAlert ''a'' sampleAlertDto sampleRequester 1, Respond ''b'' [] \<lparr>rd_status = ACKNOWLEDGED, rd_etaSeconds = None\<rparr> 2,
         Respond ''b'' [] \<lparr>rd_status = ACKNOWLEDGED, rd_etaSeconds = None\<rparr> 3] sampleSos)) = 1"
proof -
  have "sosInv (sosView sampleSos)" by (simp add: sosView_def sampleSos_def sampleCore_def core_db.defs acknowledged_def)
  note inv = alert_lifecycle [OF this refl, of sampleNearby]
  have "acknowledged [] ''b'' (responders (fold (emergencyStep sampleNearby)
      [CreateAlert ''a'' sampleAlertDto sampleRequester 1, Respond ''b'' [] \<lparr>rd_status = ACKNOWLEDGED, rd_etaSeconds = None\<rparr> 2,
       Respond ''b'' [] \<lparr>rd_status = ACKNOWLEDGED, rd_etaSeconds = None\<rparr> 3] sampleSos))" by code_simp
  then show ?thesis using inv by presburger
qed

text \<open>
  Who an SOS reaches: when \<open>createAlert\<close> succeeds, the notified users are exactly the
  riders found nearby other than the requester and in no block relation with him; each of
  them has a responder row for the alert, got the push message and, with a gateway, one
  nearby broadcast; and the answer counts them.
\<close>

lemma createAlert_done:
  assumes "createAlert nearby u dto user now w = (Inr d, w')" and "freshResponderIds w"
    and "riders = nearby (cad_latitude dto) (cad_longitude dto)
      (case cad_radiusMeters dto of None \<Rightarrow> 5000 | Some r \<Rightarrow> r) (rq_city user) 100"
    and "R = sosRecipients u riders w"
  shows "(\<forall>c. c \<in> set R \<longleftrightarrow> c \<in> set riders \<and> fst c \<noteq> u \<and> \<not> blockedEitherWay u (fst c) w) \<and>
    ad_notifiedCount d = length R \<and>
    (\<forall>c \<in> set R. (ad_id d, fst c) \<in> responderKey ` set (responders w')) \<and>
    map fst (pushOut w') = map fst (pushOut w) @ (if R = [] then [] else [map fst R]) \<and>
    sosOut w' = sosOut w @ (if gatewayRegistered w then map (nearbyCall (newAlert (ad_id d) u dto user now) (rq_username user)) R
      else [])"
proof -
  obtain c where step: "notifyNearby nearby (newAlert (newUuid w) u dto user now) (rq_username user) now
      ((takeUuid (w\<lparr>rd_counters := c\<rparr>))\<lparr>alerts := alerts w @ [newAlert (newUuid w) u dto user now]\<rparr>) = (Inr d, w')"
    using assms(1)
    by (auto simp: createAlert_def Let_def write_or_def createRow_def raise_def ret_def throwHttp_def newUuid_def
        split: if_splits prod.splits)
  define a where "a = newAlert (newUuid w) u dto user now"
  define v where "v = (takeUuid (w\<lparr>rd_counters := c\<rparr>))\<lparr>alerts := alerts w @ [a]\<rparr>"
  have fields: "al_userId a = u" "al_latitude a = cad_latitude dto" "al_longitude a = cad_longitude dto"
    "al_radiusMeters a = (case cad_radiusMeters dto of None \<Rightarrow> 5000 | Some r \<Rightarrow> r)" "al_city a = rq_city user"
    "al_notifiedCount a = 0" "al_id a = newUuid w"
    by (simp_all add: a_def newAlert_def EMERGENCY_DEFAULT_RADIUS_M_def split: option.split)
  have R: "R = sosRecipients (al_userId a) (nearby (al_latitude a) (al_longitude a) (al_radiusMeters a) (al_city a) maxRecipients) v"
    unfolding assms(3,4) fields maxRecipients_def by (rule sosRecipients_cong) (simp add: v_def takeUuid_def)
  have fresh: "freshResponderIds v" using assms(2) by (simp add: freshResponderIds_def v_def takeUuid_def)
  have v: "pushOut v = pushOut w" "sosOut v = sosOut w" "gatewayRegistered v = gatewayRegistered w"
    by (simp_all add: v_def takeUuid_def)
  have told: "d = toAlertDto (a\<lparr>al_notifiedCount := length R\<rparr>) [] \<and>
    (\<forall>c \<in> set R. (al_id a, fst c) \<in> responderKey ` set (responders w')) \<and>
    pushOut w' = pushOut v @ (if R = [] then [] else [(map fst R, [(''type'', ''EMERGENCY_NEARBY''),
       (''alertId'', al_id a), (''requesterId'', al_userId a)])]) \<and>
    sosOut w' = sosOut v @ (if gatewayRegistered v then map (nearbyCall a (rq_username user)) R else [])"
    by (rule notifyNearby_done [OF step [folded a_def, folded v_def] fresh R fields(6)])
  then have d: "ad_id d = newUuid w" "ad_notifiedCount d = length R" by (simp_all add: toAlertDto_def fields)
  have "\<forall>c. c \<in> set R \<longleftrightarrow> c \<in> set riders \<and> fst c \<noteq> u \<and> \<not> blockedEitherWay u (fst c) w"
    unfolding assms(4) by (simp add: sosRecipients_iff)
  moreover have id: "al_id a = ad_id d" "newAlert (ad_id d) u dto user now = a" unfolding d fields by (simp_all add: a_def)
  ultimately show ?thesis using told d(2) unfolding v id by (auto simp del: split_paired_All)
qed

lemma sampleSos_fresh: "freshResponderIds sampleSos"
  by (auto simp: freshResponderIds_def sampleSos_def sampleCore_def core_db.defs inj_def dest: arg_cong [of _ _ length])

text \<open>A closed alert accepts no response, but FALSE_ALARM does not count as closed.\<close>

lemma false_alarm_still_answered:
  "fst (respond ''b'' [] \<lparr>rd_status = ACKNOWLEDGED, rd_etaSeconds = None\<rparr> 3
     (fold (emergencyStep sampleNearby) [CreateAlert ''a'' sampleAlertDto sampleRequester 1,
        Resolve ''a'' [] FALSE_ALARM 2] sampleSos)) \<noteq> Inl (Http BadRequest ''alert_closed'' None [])"
  by code_simp

end
