(* ===== verification/Utc_Calendar.thy ===== *)
theory Utc_Calendar
  imports Prelude
begin

text \<open>
  The calendar arithmetic of the JavaScript \<open>Date\<close> object that the quest resets use: days
  since the epoch, years and months in UTC (ECMAScript \<open>Day\<close>, \<open>DayFromYear\<close>,
  \<open>YearFromTime\<close>, \<open>MonthFromTime\<close>, \<open>DateFromTime\<close>, \<open>WeekDay\<close>), for every time, before the
  epoch too. The year of a day is found by the search \<open>yearFrom\<close>, whose termination is
  proved.
\<close>

section \<open>Days and years\<close>

definition msPerDay :: int where "msPerDay = 86400000"

definition dayOf :: "time \<Rightarrow> int" where "dayOf t = t div msPerDay"

definition weekDay :: "time \<Rightarrow> int" where "weekDay t = (dayOf t + 4) mod 7"

definition leapYear :: "int \<Rightarrow> bool" where
  "leapYear y \<longleftrightarrow> y mod 4 = 0 \<and> (y mod 100 \<noteq> 0 \<or> y mod 400 = 0)"

definition dayFromYear :: "int \<Rightarrow> int" where
  "dayFromYear y = 365 * (y - 1970) + (y - 1969) div 4 - (y - 1901) div 100 + (y - 1601) div 400"

lemma div_next:
  fixes x m :: int
  assumes "0 < m"
  shows "(x + 1) div m = x div m + (if (x + 1) mod m = 0 then 1 else 0)"
proof -
  obtain q r where x: "x = r + q * m" and r: "0 \<le> r" "r < m"
    using assms mod_div_mult_eq [of x m] by (metis pos_mod_bound pos_mod_sign)
  have "(r + 1 + q * m) div m = q + (r + 1) div m" "(r + 1 + q * m) mod m = (r + 1) mod m" "(r + q * m) div m = q"
    using assms r by simp_all
  moreover have "(r + 1) div m = (if (r + 1) mod m = 0 then 1 else 0)"
  proof (cases "r + 1 = m")
    case True
    then show ?thesis using assms by simp
  next
    case False
    then have "(r + 1) mod m = r + 1" "(r + 1) div m = 0" using r by simp_all
    then show ?thesis using r(1) by simp
  qed
  moreover have "x + 1 = r + 1 + q * m" unfolding x by simp
  ultimately show ?thesis unfolding x by presburger
qed

lemma dayFromYear_next: "dayFromYear (y + 1) = dayFromYear y + (if leapYear y then 366 else 365)"
proof -
  have "(y - 1968) mod 4 = y mod 4" using mod_mult_self1 [of y "-492" 4] by simp
  then have four: "(y + 1 - 1969) div 4 = (y - 1969) div 4 + (if y mod 4 = 0 then 1 else 0)"
    using div_next [of 4 "y - 1969"] by simp
  have "(y - 1900) mod 100 = y mod 100" using mod_mult_self1 [of y "-19" 100] by simp
  then have hundred: "(y + 1 - 1901) div 100 = (y - 1901) div 100 + (if y mod 100 = 0 then 1 else 0)"
    using div_next [of 100 "y - 1901"] by simp
  have "(y - 1600) mod 400 = y mod 400" using mod_mult_self1 [of y "-4" 400] by simp
  then have more: "(y + 1 - 1601) div 400 = (y - 1601) div 400 + (if y mod 400 = 0 then 1 else 0)"
    using div_next [of 400 "y - 1601"] by simp
  have "y mod 100 mod 4 = y mod 4" "y mod 400 mod 100 = y mod 100"
    by (simp_all add: mod_mod_cancel)
  then have nested: "y mod 100 = 0 \<Longrightarrow> y mod 4 = 0" "y mod 400 = 0 \<Longrightarrow> y mod 100 = 0" by fastforce+
  show ?thesis
    unfolding dayFromYear_def leapYear_def four hundred more using nested
    by (cases "y mod 400 = 0"; cases "y mod 100 = 0"; cases "y mod 4 = 0") simp_all
qed

lemma dayFromYear_less: "dayFromYear y < dayFromYear (y + 1)"
  by (simp add: dayFromYear_next)

lemma dayFromYear_mono: "y \<le> z \<Longrightarrow> dayFromYear y \<le> dayFromYear z"
proof (induction z rule: int_ge_induct)
  case base
  then show ?case by simp
next
  case (step z)
  then show ?case using dayFromYear_less [of z] by simp
qed

text \<open>The year in which the day \<open>d\<close> falls, searched upwards from a year that is not after it.\<close>

function yearFrom :: "int \<Rightarrow> int \<Rightarrow> int" where
  "yearFrom d y = (if dayFromYear (y + 1) \<le> d then yearFrom d (y + 1) else y)"
  by pat_completeness auto

termination yearFrom
proof (relation "measure (\<lambda>(d, y). nat (d - dayFromYear y))")
  fix d y :: int
  assume "dayFromYear (y + 1) \<le> d"
  then show "((d, y + 1), d, y) \<in> measure (\<lambda>(d, y). nat (d - dayFromYear y))"
    using dayFromYear_less [of y] by simp
qed simp

declare yearFrom.simps [simp del]

definition startYear :: "int \<Rightarrow> int" where
  "startYear d = 1970 + (if 0 \<le> d then d div 366 else d div 365)"

definition yearOf :: "time \<Rightarrow> int" where "yearOf t = yearFrom (dayOf t) (startYear (dayOf t))"

lemma startYear_not_after: "dayFromYear (startYear d) \<le> d"
proof (cases "0 \<le> d")
  case True
  define n where "n = d div 366"
  have n: "0 \<le> n" "366 * n \<le> d" using True by (simp_all add: n_def)
  have "(n + 1) div 4 - (n + 69) div 100 + (n + 369) div 400 \<le> n"
  proof (cases "n = 0 \<or> n = 1")
    case True
    then show ?thesis by auto
  next
    case False
    then show ?thesis using n(1) by linarith
  qed
  then have "dayFromYear (1970 + n) \<le> 366 * n" by (simp add: dayFromYear_def add.commute)
  then show ?thesis using True n(2) by (simp add: startYear_def n_def)
next
  case False
  define n where "n = d div 365"
  have n: "n < 0" "365 * n \<le> d" using False by (simp_all add: n_def)
  have "(n + 1) div 4 - (n + 69) div 100 + (n + 369) div 400 \<le> 0"
  proof (cases "n < - 6")
    case True
    then show ?thesis by linarith
  next
    case False
    then have "n = - 1 \<or> n = - 2 \<or> n = - 3 \<or> n = - 4 \<or> n = - 5 \<or> n = - 6" using n(1) by linarith
    then show ?thesis by (elim disjE) simp_all
  qed
  then have "dayFromYear (1970 + n) \<le> 365 * n" by (simp add: dayFromYear_def add.commute)
  then show ?thesis using False n(2) by (simp add: startYear_def n_def)
qed

lemma yearFrom_spec:
  "dayFromYear y \<le> d \<Longrightarrow> dayFromYear (yearFrom d y) \<le> d \<and> d < dayFromYear (yearFrom d y + 1)"
proof (induction d y rule: yearFrom.induct)
  case (1 d y)
  show ?case
  proof (cases "dayFromYear (y + 1) \<le> d")
    case True
    then show ?thesis using 1 by (simp add: yearFrom.simps [of d y])
  next
    case False
    then show ?thesis using "1.prems" by (simp add: yearFrom.simps [of d y])
  qed
qed

lemma year_bracket: "dayFromYear (yearOf t) \<le> dayOf t \<and> dayOf t < dayFromYear (yearOf t + 1)"
  unfolding yearOf_def by (rule yearFrom_spec) (rule startYear_not_after)

lemma year_unique:
  assumes "dayFromYear y \<le> dayOf t" and "dayOf t < dayFromYear (y + 1)"
  shows "yearOf t = y"
proof (rule antisym)
  show "yearOf t \<le> y"
  proof (rule ccontr)
    assume "\<not> yearOf t \<le> y"
    then have "dayFromYear (y + 1) \<le> dayFromYear (yearOf t)" by (intro dayFromYear_mono) simp
    then show False using assms year_bracket [of t] by simp
  qed
  show "y \<le> yearOf t"
  proof (rule ccontr)
    assume "\<not> y \<le> yearOf t"
    then have "dayFromYear (yearOf t + 1) \<le> dayFromYear y" by (intro dayFromYear_mono) simp
    then show False using assms year_bracket [of t] by simp
  qed
qed

section \<open>Months\<close>

definition leapDay :: "int \<Rightarrow> int" where "leapDay y = (if leapYear y then 1 else 0)"

text \<open>The day within the year on which month \<open>m\<close> (0 = January) starts.\<close>

definition monthStart :: "int \<Rightarrow> int \<Rightarrow> int" where
  "monthStart y m =
     (if m = 0 then 0 else if m = 1 then 31
      else leapDay y + (if m = 2 then 59 else if m = 3 then 90 else if m = 4 then 120 else if m = 5 then 151
        else if m = 6 then 181 else if m = 7 then 212 else if m = 8 then 243 else if m = 9 then 273
        else if m = 10 then 304 else if m = 11 then 334 else 365))"

definition monthWithin :: "int \<Rightarrow> int \<Rightarrow> int" where
  "monthWithin y d =
     (if d < monthStart y 1 then 0 else if d < monthStart y 2 then 1 else if d < monthStart y 3 then 2
      else if d < monthStart y 4 then 3 else if d < monthStart y 5 then 4 else if d < monthStart y 6 then 5
      else if d < monthStart y 7 then 6 else if d < monthStart y 8 then 7 else if d < monthStart y 9 then 8
      else if d < monthStart y 10 then 9 else if d < monthStart y 11 then 10 else 11)"

definition dayWithinYear :: "time \<Rightarrow> int" where "dayWithinYear t = dayOf t - dayFromYear (yearOf t)"

definition monthOf :: "time \<Rightarrow> int" where "monthOf t = monthWithin (yearOf t) (dayWithinYear t)"

definition dateOf :: "time \<Rightarrow> int" where
  "dateOf t = dayWithinYear t - monthStart (yearOf t) (monthOf t) + 1"

text \<open>\<open>MakeDay(y, m, 1)\<close>, with the overflow of the month into the year.\<close>

definition firstOfMonth :: "int \<Rightarrow> int \<Rightarrow> int" where
  "firstOfMonth y m = dayFromYear (y + m div 12) + monthStart (y + m div 12) (m mod 12)"

lemma month_bracket:
  assumes "0 \<le> d" and "d < 365 + leapDay y"
  shows "0 \<le> monthWithin y d \<and> monthWithin y d \<le> 11 \<and> monthStart y (monthWithin y d) \<le> d \<and>
    d < monthStart y (monthWithin y d + 1)"
  using assms by (simp add: monthWithin_def monthStart_def leapDay_def)

lemma month_length:
  "0 \<le> m \<Longrightarrow> m \<le> 11 \<Longrightarrow> monthStart y m < monthStart y (m + 1) \<and> monthStart y (m + 1) \<le> monthStart y m + 31"
proof -
  assume "0 \<le> m" "m \<le> 11"
  then have "m = 0 \<or> m = 1 \<or> m = 2 \<or> m = 3 \<or> m = 4 \<or> m = 5 \<or> m = 6 \<or> m = 7 \<or> m = 8 \<or> m = 9 \<or> m = 10 \<or> m = 11"
    by presburger
  then show ?thesis by (elim disjE) (simp_all add: monthStart_def leapDay_def)
qed

text \<open>A month that runs over into January starts where the next year does.\<close>

lemma firstOfMonth_next:
  assumes "0 \<le> m" and "m \<le> 11"
  shows "firstOfMonth y (m + 1) = dayFromYear y + monthStart y (m + 1)"
proof (cases "m = 11")
  case True
  then show ?thesis
    by (simp add: firstOfMonth_def monthStart_def leapDay_def dayFromYear_next)
next
  case False
  then have "(m + 1) div 12 = 0" "(m + 1) mod 12 = m + 1" using assms by simp_all
  then show ?thesis by (simp add: firstOfMonth_def)
qed

lemma dayOf_midnight: "dayOf (d * msPerDay) = d"
  by (simp add: dayOf_def msPerDay_def)

lemma dayOf_bracket: "dayOf t * msPerDay \<le> t \<and> t < (dayOf t + 1) * msPerDay"
proof -
  have "t mod 86400000 + t div 86400000 * 86400000 = t" by (rule mod_div_mult_eq)
  moreover have "0 \<le> t mod 86400000" "t mod 86400000 < 86400000" by simp_all
  ultimately show ?thesis unfolding dayOf_def msPerDay_def distrib_right by (intro conjI) linarith+
qed

lemma monthStart_first:
  assumes "0 \<le> m" and "m \<le> 11"
  shows "monthWithin y (monthStart y m) = m \<and> 0 \<le> monthStart y m \<and> monthStart y m < 365 + leapDay y"
proof -
  have "m = 0 \<or> m = 1 \<or> m = 2 \<or> m = 3 \<or> m = 4 \<or> m = 5 \<or> m = 6 \<or> m = 7 \<or> m = 8 \<or> m = 9 \<or> m = 10 \<or> m = 11"
    using assms by presburger
  then show ?thesis by (elim disjE) (simp_all add: monthWithin_def monthStart_def leapDay_def)
qed

text \<open>The first of a month is the first of that month.\<close>

lemma firstOfMonth_date:
  assumes "0 \<le> m" and "m \<le> 12"
  shows "dateOf (firstOfMonth y m * msPerDay) = 1 \<and> monthOf (firstOfMonth y m * msPerDay) = m mod 12 \<and>
    yearOf (firstOfMonth y m * msPerDay) = y + m div 12"
proof -
  let ?t = "firstOfMonth y m * msPerDay" and ?y = "y + m div 12" and ?m = "m mod 12"
  have range: "0 \<le> ?m" "?m \<le> 11" using pos_mod_bound [of 12 m] pos_mod_sign [of 12 m] by simp_all
  note first = monthStart_first [OF range, of ?y]
  have day: "dayOf ?t = dayFromYear ?y + monthStart ?y ?m" by (simp add: dayOf_midnight firstOfMonth_def)
  have year: "yearOf ?t = ?y"
    using first day by (intro year_unique) (auto simp: dayFromYear_next leapDay_def split: if_splits)
  have "dayWithinYear ?t = monthStart ?y ?m" by (simp add: dayWithinYear_def year day)
  then show ?thesis using first year by (simp add: dateOf_def monthOf_def)
qed

lemma month_facts:
  "0 \<le> monthOf t \<and> monthOf t \<le> 11 \<and> dayFromYear (yearOf t) + monthStart (yearOf t) (monthOf t) \<le> dayOf t \<and>
   dayOf t < dayFromYear (yearOf t) + monthStart (yearOf t) (monthOf t + 1)"
proof -
  have "0 \<le> dayWithinYear t" "dayWithinYear t < 365 + leapDay (yearOf t)"
    using year_bracket [of t] by (auto simp: dayWithinYear_def leapDay_def dayFromYear_next split: if_splits)
  from month_bracket [OF this] show ?thesis by (simp add: monthOf_def dayWithinYear_def)
qed

end
