(* ===== verification/Gamification.thy ===== *)
theory Gamification
  imports Notifications Utc_Calendar
begin

text \<open>
  \<open>gamification.service.ts\<close>: quests, their progress and periodic reset, experience points
  and levels, badges. \<open>onTrigger\<close> is the subscriber of the bus events that the other services
  emit. What leaves over the WebSocket gateway and as push messages is recorded in
  \<open>gameOut\<close> and \<open>gamePush\<close>.
\<close>

section \<open>State\<close>

datatype badgeRarity = COMMON | UNCOMMON | RARE | EPIC | LEGENDARY

datatype questResetPeriod = NONE | DAILY | WEEKLY | MONTHLY

record badge =
  ba_id :: uid
  ba_code :: string
  ba_name :: string
  ba_description :: string
  ba_iconUrl :: "string option"
  ba_category :: "string option"
  ba_rarity :: badgeRarity
  ba_xpReward :: int
  ba_isActive :: bool

record userBadge =
  ub_userId :: uid
  ub_badgeId :: uid
  ub_earnedAt :: time
  ub_source :: "string option"
  ub_showcased :: bool

record quest =
  qu_id :: uid
  qu_code :: string
  qu_name :: string
  qu_description :: string
  qu_trigger :: questTrigger
  qu_targetValue :: int
  qu_xpReward :: int
  qu_badgeId :: "uid option"
  qu_repeatable :: bool
  qu_resetPeriod :: questResetPeriod
  qu_isActive :: bool
  qu_createdAt :: time

record questProgress =
  qp_userId :: uid
  qp_questId :: uid
  qp_progress :: int
  qp_completed :: bool
  qp_completedAt :: "time option"
  qp_resetAt :: "time option"

text \<open>\<open>BadgeDto\<close> has the columns of the badge row that \<open>toBadgeDto\<close> copies: all the modelled ones.\<close>

record badgeDto =
  bd_id :: uid
  bd_code :: string
  bd_name :: string
  bd_description :: string
  bd_iconUrl :: "string option"
  bd_category :: "string option"
  bd_rarity :: badgeRarity
  bd_xpReward :: int
  bd_isActive :: bool

record questCompletedDto =
  qc_questId :: uid
  qc_questCode :: string
  qc_xpAwarded :: int
  qc_newUserLevel :: int
  qc_newUserXp :: int
  qc_badgeUnlocked :: "badgeDto option"

text \<open>The calls of \<open>GamificationGatewayBridge\<close>.\<close>

datatype game_emit =
    BroadcastQuestCompleted uid questCompletedDto string
  | BroadcastBadgeEarned uid badgeDto

record game_db = core_db +
  quests :: "quest list"
  questProgresses :: "questProgress list"
  badges :: "badge list"
  userBadges :: "userBadge list"
  gameGateway :: bool
  gameOut :: "game_emit list"
  gamePush :: "(uid \<times> string \<times> string \<times> (string \<times> string) list) list"

abbreviation progressKey :: "questProgress \<Rightarrow> uid \<times> uid" where
  "progressKey r \<equiv> (qp_userId r, qp_questId r)"

abbreviation userBadgeKey :: "userBadge \<Rightarrow> uid \<times> uid" where
  "userBadgeKey r \<equiv> (ub_userId r, ub_badgeId r)"

definition registerGameGateway :: "'a game_db_scheme \<Rightarrow> 'a game_db_scheme" where
  "registerGameGateway w = w\<lparr>gameGateway := True\<rparr>"

definition emitGame :: "game_emit \<Rightarrow> 'a game_db_scheme \<Rightarrow> 'a game_db_scheme" where
  "emitGame e w = (if gameGateway w then w\<lparr>gameOut := gameOut w @ [e]\<rparr> else w)"

section \<open>Levels\<close>

text \<open>
  \<open>Math.floor(Math.sqrt(xp / 50)) + 1\<close> for a non-negative \<open>xp\<close>. The code computes it with
  doubles; for the 32-bit \<open>xp\<close> of the column the rounded root crosses an integer nowhere, so
  the floor is the integer square root, computed here digit by digit in base 4.
\<close>

fun isqrt :: "nat \<Rightarrow> nat" where
  "isqrt n = (if n = 0 then 0
     else let r = 2 * isqrt (n div 4) in if (r + 1) * (r + 1) \<le> n then r + 1 else r)"

declare isqrt.simps [simp del]

definition levelFor :: "int \<Rightarrow> int" where
  "levelFor xp = int (isqrt (nat (xp div 50))) + 1"

section \<open>Resets\<close>

definition nextResetAt :: "time \<Rightarrow> questResetPeriod \<Rightarrow> time option" where
  "nextResetAt from period =
     (case period of
        DAILY \<Rightarrow> Some ((dayOf from + 1) * msPerDay)
      | WEEKLY \<Rightarrow>
          (let day = weekDay from;
               diff = (if (7 - day) mod 7 = 0 then 7 else (7 - day) mod 7)
           in Some ((dayOf from + diff) * msPerDay))
      | MONTHLY \<Rightarrow> Some (firstOfMonth (yearOf from) (monthOf from + 1) * msPerDay)
      | NONE \<Rightarrow> None)"

section \<open>Triggering\<close>

record triggerPayload =
  tp_userId :: uid
  tp_trigger :: questTrigger
  tp_increment :: int

text \<open>A number in a template string.\<close>

fun showNat :: "nat \<Rightarrow> string" where
  "showNat n = (if n < 10 then [char_of (48 + n)] else showNat (n div 10) @ [char_of (48 + n mod 10)])"

declare showNat.simps [simp del]

definition showInt :: "int \<Rightarrow> string" where
  "showInt i = (if i < 0 then ''-'' @ showNat (nat (- i)) else showNat (nat i))"

definition toBadgeDto :: "badge \<Rightarrow> badgeDto" where
  "toBadgeDto b =
     \<lparr>bd_id = ba_id b, bd_code = ba_code b, bd_name = ba_name b, bd_description = ba_description b,
      bd_iconUrl = ba_iconUrl b, bd_category = ba_category b, bd_rarity = ba_rarity b,
      bd_xpReward = ba_xpReward b, bd_isActive = ba_isActive b\<rparr>"

text \<open>The new progress and reset time of a quest, from the row that exists.\<close>

definition nextProgress ::
  "quest \<Rightarrow> questProgress option \<Rightarrow> int \<Rightarrow> time \<Rightarrow> int \<times> time option" where
  "nextProgress q existing increment now =
     (case existing of
        None \<Rightarrow> (increment, if qu_repeatable q then nextResetAt now (qu_resetPeriod q) else None)
      | Some p \<Rightarrow>
          (if qu_repeatable q \<and> (case qp_resetAt p of None \<Rightarrow> False | Some t \<Rightarrow> t \<le> now)
           then (increment, nextResetAt now (qu_resetPeriod q))
           else (qp_progress p + increment, qp_resetAt p)))"

definition saveProgress ::
  "uid \<Rightarrow> quest \<Rightarrow> int \<Rightarrow> time option \<Rightarrow> bool \<Rightarrow> time \<Rightarrow> 'a game_db_scheme \<Rightarrow>
   (unit, 'a game_db_scheme) outcome" where
  "saveProgress u q progress resetAt completedNow now w =
     (if \<not> userExists u w \<or> qu_id q \<notin> qu_id ` set (quests w) then raise ForeignKeyViolation w
      else ret () (w\<lparr>questProgresses := upsertRow progressKey (u, qu_id q)
        \<lparr>qp_userId = u, qp_questId = qu_id q, qp_progress = progress, qp_completed = completedNow,
         qp_completedAt = (if completedNow then Some now else None), qp_resetAt = resetAt\<rparr>
        (\<lambda>p. p\<lparr>qp_progress := progress, qp_completed := completedNow,
           qp_completedAt := (if completedNow then Some now else qp_completedAt p), qp_resetAt := resetAt\<rparr>)
        (questProgresses w)\<rparr>))"

definition awardXp ::
  "uid \<Rightarrow> int \<Rightarrow> 'a game_db_scheme \<Rightarrow> (int \<times> int, 'a game_db_scheme) outcome" where
  "awardXp u reward w =
     and_then (updateUser u (\<lambda>r. r\<lparr>u_xp := u_xp r + reward\<rparr>) w) (\<lambda>_ w1.
       case findUser u w1 of
         None \<Rightarrow> raise RecordNotFound w1
       | Some r \<Rightarrow> (let newLevel = levelFor (u_xp r) in
           and_then (updateUser u (\<lambda>r. r\<lparr>u_level := newLevel\<rparr>) w1) (\<lambda>_ w2. ret (u_xp r, newLevel) w2)))"

definition unlockBadge ::
  "uid \<Rightarrow> quest \<Rightarrow> time \<Rightarrow> 'a game_db_scheme \<Rightarrow> (badgeDto option, 'a game_db_scheme) outcome" where
  "unlockBadge u q now w =
     (case qu_badgeId q of
        None \<Rightarrow> ret None w
      | Some b \<Rightarrow>
          (case findUnique ba_id b (badges w) of
             None \<Rightarrow> raise ForeignKeyViolation w
           | Some r \<Rightarrow> ret (Some (toBadgeDto r)) (w\<lparr>userBadges := upsertRow userBadgeKey (u, b)
               \<lparr>ub_userId = u, ub_badgeId = b, ub_earnedAt = now, ub_source = Some (qu_id q),
                ub_showcased = False\<rparr> (\<lambda>r. r) (userBadges w)\<rparr>)))"

text \<open>Notifications, push and broadcasts of one completion.\<close>

definition pushAndBroadcast ::
  "uid \<Rightarrow> quest \<Rightarrow> questCompletedDto \<Rightarrow> 'a game_db_scheme \<Rightarrow> 'a game_db_scheme" where
  "pushAndBroadcast u q d w =
     (let w1 = w\<lparr>gamePush := gamePush w @ [(u, ''Gorev tamamlandi!'',
                  qu_name q @ '' (+'' @ showInt (qu_xpReward q) @ '' XP)'',
                  [(''type'', ''QUEST_COMPLETED''), (''questId'', qu_id q)])]\<rparr>;
          w2 = emitGame (BroadcastQuestCompleted u d (qu_name q)) w1
      in case qc_badgeUnlocked d of None \<Rightarrow> w2 | Some b \<Rightarrow> emitGame (BroadcastBadgeEarned u b) w2)"

definition announce ::
  "uid \<Rightarrow> quest \<Rightarrow> questCompletedDto \<Rightarrow> time \<Rightarrow> 'a game_db_scheme \<Rightarrow> (unit, 'a game_db_scheme) outcome"
where
  "announce u q d now w =
     and_then (notify u N_QUEST_COMPLETED ''Gorev tamamlandi!''
         (qu_name q @ '' gorevini tamamladin ve '' @ showInt (qu_xpReward q) @ '' XP kazandin.'')
         [(''questId'', DText (qu_id q)), (''xp'', DNum (qu_xpReward q))] now w) (\<lambda>_ w1.
     and_then (case qc_badgeUnlocked d of
         None \<Rightarrow> ret None w1
       | Some b \<Rightarrow> notify u N_BADGE_EARNED ''Yeni rozet kazandin!'' (bd_name b @ '' rozetini kazandin.'')
           [(''badgeId'', DText (bd_id b))] now w1) (\<lambda>_ w2.
       ret () (pushAndBroadcast u q d w2)))"

definition completeQuest ::
  "uid \<Rightarrow> quest \<Rightarrow> time \<Rightarrow> 'a game_db_scheme \<Rightarrow> (questCompletedDto, 'a game_db_scheme) outcome" where
  "completeQuest u q now w =
     and_then (awardXp u (qu_xpReward q) w) (\<lambda>(xp, newLevel) w1.
     and_then (unlockBadge u q now w1) (\<lambda>unlocked w2.
       let d = \<lparr>qc_questId = qu_id q, qc_questCode = qu_code q, qc_xpAwarded = qu_xpReward q,
                qc_newUserLevel = newLevel, qc_newUserXp = xp, qc_badgeUnlocked = unlocked\<rparr>
       in and_then (announce u q d now w2) (\<lambda>_ w3. ret d w3)))"

text \<open>The body of the loop over the quests of the trigger.\<close>

definition advanceQuest ::
  "uid \<Rightarrow> int \<Rightarrow> time \<Rightarrow> quest \<Rightarrow> questCompletedDto list \<Rightarrow> 'a game_db_scheme \<Rightarrow>
   (questCompletedDto list, 'a game_db_scheme) outcome" where
  "advanceQuest u increment now q completed w =
     (let existing = findUnique progressKey (u, qu_id q) (questProgresses w);
          (progress, resetAt) = nextProgress q existing increment now;
          wasAlreadyCompleted = ((case existing of None \<Rightarrow> False | Some p \<Rightarrow> qp_completed p) \<and> \<not> qu_repeatable q);
          completedNow = (qu_targetValue q \<le> progress)
      in if wasAlreadyCompleted then ret completed w
         else and_then (saveProgress u q progress resetAt completedNow now w) (\<lambda>_ w1.
           if \<not> completedNow then ret completed w1
           else and_then (completeQuest u q now w1) (\<lambda>d w2. ret (completed @ [d]) w2)))"

definition triggerQuest ::
  "triggerPayload \<Rightarrow> time \<Rightarrow> 'a game_db_scheme \<Rightarrow> (questCompletedDto list, 'a game_db_scheme) outcome" where
  "triggerQuest p now w =
     for_each (advanceQuest (tp_userId p) (tp_increment p) now)
       (filter (\<lambda>q. qu_trigger q = tp_trigger p \<and> qu_isActive q) (quests w)) [] w"

text \<open>
  The subscriber: the payload schema lets only a positive increment through, and neither an
  invalid payload nor a failure reaches the emitter; what was written before a failure stays.
\<close>

definition onTrigger :: "triggerPayload \<Rightarrow> time \<Rightarrow> 'a game_db_scheme \<Rightarrow> 'a game_db_scheme" where
  "onTrigger p now w = (if 0 < tp_increment p then snd (triggerQuest p now w) else w)"

section \<open>Badges and listings\<close>

record userBadgeDto =
  ud_badge :: badgeDto
  ud_earnedAt :: time
  ud_showcased :: bool
  ud_source :: "string option"

definition toUserBadgeDto :: "userBadge \<Rightarrow> badge \<Rightarrow> userBadgeDto" where
  "toUserBadgeDto r b = \<lparr>ud_badge = toBadgeDto b, ud_earnedAt = ub_earnedAt r, ud_showcased = ub_showcased r,
     ud_source = ub_source r\<rparr>"

definition listUserBadges :: "uid \<Rightarrow> 'a game_db_scheme \<Rightarrow> userBadgeDto list" where
  "listUserBadges userId w =
     concat (map (\<lambda>r. case findUnique ba_id (ub_badgeId r) (badges w) of
                        None \<Rightarrow> []
                      | Some b \<Rightarrow> if ba_isActive b then [toUserBadgeDto r b] else [])
       (rev (sort_key ub_earnedAt (filter (\<lambda>r. ub_userId r = userId) (userBadges w)))))"

definition toggleShowcase ::
  "uid \<Rightarrow> uid \<Rightarrow> bool \<Rightarrow> 'a game_db_scheme \<Rightarrow> (userBadgeDto, 'a game_db_scheme) outcome" where
  "toggleShowcase userId badgeId showcased w =
     (case findUnique userBadgeKey (userId, badgeId) (userBadges w) of
        None \<Rightarrow> raise (PlainError ''badge_not_owned'') w
      | Some _ \<Rightarrow>
          and_then (write_or RecordNotFound
              (updateRow userBadgeKey (userId, badgeId) (\<lambda>r. r\<lparr>ub_showcased := showcased\<rparr>) (userBadges w))
              (\<lambda>t. w\<lparr>userBadges := t\<rparr>) w) (\<lambda>_ w1.
            case (findUnique userBadgeKey (userId, badgeId) (userBadges w1), findUnique ba_id badgeId (badges w1)) of
              (Some r, Some b) \<Rightarrow> ret (toUserBadgeDto r b) w1
            | _ \<Rightarrow> raise RecordNotFound w1))"

record questProgressDto =
  qd_progress :: int
  qd_completed :: bool
  qd_completedAt :: "time option"
  qd_resetAt :: "time option"
  qd_quest :: quest

text \<open>The \<open>questId\<close> and \<open>targetValue\<close> of the answer repeat those of its \<open>quest\<close>.\<close>

definition listUserQuests :: "uid \<Rightarrow> 'a game_db_scheme \<Rightarrow> questProgressDto list" where
  "listUserQuests userId w =
     map (\<lambda>q. case find (\<lambda>p. qp_userId p = userId \<and> qp_questId p = qu_id q) (questProgresses w) of
            None \<Rightarrow> \<lparr>qd_progress = 0, qd_completed = False, qd_completedAt = None, qd_resetAt = None, qd_quest = q\<rparr>
          | Some p \<Rightarrow> \<lparr>qd_progress = qp_progress p, qd_completed = qp_completed p,
              qd_completedAt = qp_completedAt p, qd_resetAt = qp_resetAt p, qd_quest = q\<rparr>)
       (sort_key qu_createdAt (filter qu_isActive (quests w)))"

section \<open>Levels and resets\<close>

lemma isqrt_bracket: "isqrt n * isqrt n \<le> n \<and> n < (isqrt n + 1) * (isqrt n + 1)"
proof (induction n rule: isqrt.induct)
  case (1 n)
  show ?case
  proof (cases "n = 0")
    case True
    then show ?thesis by (simp add: isqrt.simps)
  next
    case False
    define s where "s = isqrt (n div 4)"
    have "s * s \<le> n div 4" "n div 4 < (s + 1) * (s + 1)" using 1 False by (simp_all add: s_def)
    then have low: "4 * (s * s) \<le> n" and high: "n < 4 * ((s + 1) * (s + 1))" by linarith+
    have "isqrt n = (if (2 * s + 1) * (2 * s + 1) \<le> n then 2 * s + 1 else 2 * s)"
      using False by (simp add: isqrt.simps [of n] s_def Let_def)
    then show ?thesis using low high by (simp add: algebra_simps)
  qed
qed

text \<open>
  The level computed without floating point is the documented formula
  \<open>floor(sqrt(xp / 50)) + 1\<close> over the real numbers.
\<close>

theorem level_formula:
  assumes "0 \<le> xp"
  shows "levelFor xp = \<lfloor>sqrt (real_of_int xp / 50)\<rfloor> + 1"
proof -
  define m where "m = nat (xp div 50)"
  define r where "r = isqrt m"
  have xp: "xp div 50 = int m" using assms by (simp add: m_def)
  then have m: "50 * int m \<le> xp" "xp < 50 * int m + 50" by linarith+
  have "r * r \<le> m" "m + 1 \<le> (r + 1) * (r + 1)" using isqrt_bracket [of m] by (simp_all add: r_def)
  then have "int (r * r) \<le> int m" "int m + 1 \<le> int ((r + 1) * (r + 1))" by linarith+
  then have "50 * int (r * r) \<le> xp" "xp < 50 * int ((r + 1) * (r + 1))" using m by linarith+
  then have low: "real (r * r) \<le> real_of_int xp / 50" and high: "real_of_int xp / 50 < real ((r + 1) * (r + 1))"
    by linarith+
  have "real r \<le> sqrt (real_of_int xp / 50)"
    using low by (intro real_le_rsqrt) (simp add: power2_eq_square)
  moreover have "sqrt (real_of_int xp / 50) < real r + 1"
    using high by (intro real_less_lsqrt) (simp_all add: power2_eq_square algebra_simps)
  ultimately have "\<lfloor>sqrt (real_of_int xp / 50)\<rfloor> = int r" by linarith
  then show ?thesis by (simp add: levelFor_def m_def r_def)
qed

theorem level_formula_witness: "levelFor 1250 = \<lfloor>sqrt (real_of_int 1250 / 50)\<rfloor> + 1 \<and> levelFor 1250 = 6"
proof
  show "levelFor 1250 = \<lfloor>sqrt (real_of_int 1250 / 50)\<rfloor> + 1" by (rule level_formula) simp
  show "levelFor 1250 = 6" by code_simp
qed

text \<open>
  A reset lies strictly in the future, on a UTC midnight: the next one for DAILY, the
  next Sunday's for WEEKLY (a week away on a Sunday), the first of the following month for
  MONTHLY, at most 31 days away; NONE never resets.
\<close>

theorem reset_next_period:
  "nextResetAt now NONE = None \<and>
   (\<exists>t. nextResetAt now DAILY = Some t \<and> now < t \<and> t \<le> now + msPerDay \<and> t mod msPerDay = 0) \<and>
   (\<exists>t. nextResetAt now WEEKLY = Some t \<and> now < t \<and> t \<le> now + 7 * msPerDay \<and> t mod msPerDay = 0 \<and> weekDay t = 0) \<and>
   (\<exists>t. nextResetAt now MONTHLY = Some t \<and> now < t \<and> t \<le> now + 31 * msPerDay \<and> t mod msPerDay = 0 \<and>
      dateOf t = 1 \<and> monthOf t = (monthOf now + 1) mod 12 \<and> yearOf t = yearOf now + (monthOf now + 1) div 12)"
proof (intro conjI)
  note day = dayOf_bracket [of now]
  have ms: "0 < msPerDay" by (simp add: msPerDay_def)
  show "nextResetAt now NONE = None" by (simp add: nextResetAt_def)
  have ahead: "now < (dayOf now + k) * msPerDay \<and> (dayOf now + k) * msPerDay \<le> now + k * msPerDay"
    if "1 \<le> k" for k
  proof -
    have "(dayOf now + 1) * msPerDay \<le> (dayOf now + k) * msPerDay" using that ms by (intro mult_right_mono) simp_all
    then show ?thesis using day unfolding distrib_right by linarith
  qed
  show "\<exists>t. nextResetAt now DAILY = Some t \<and> now < t \<and> t \<le> now + msPerDay \<and> t mod msPerDay = 0"
    using ahead [of 1] by (simp add: nextResetAt_def)
  show "\<exists>t. nextResetAt now WEEKLY = Some t \<and> now < t \<and> t \<le> now + 7 * msPerDay \<and> t mod msPerDay = 0 \<and> weekDay t = 0"
  proof -
    define k where "k = (if (7 - weekDay now) mod 7 = 0 then 7 else (7 - weekDay now) mod 7)"
    have k: "1 \<le> k" "k \<le> 7" unfolding k_def by presburger+
    have "(dayOf now + k + 4) mod 7 = 0" unfolding k_def weekDay_def by presburger
    moreover have "k * msPerDay \<le> 7 * msPerDay" using k ms by (intro mult_right_mono) simp_all
    moreover have "nextResetAt now WEEKLY = Some ((dayOf now + k) * msPerDay)"
      by (simp add: nextResetAt_def k_def Let_def)
    ultimately show ?thesis using ahead [OF k(1)]
      by (intro exI [of _ "(dayOf now + k) * msPerDay"]) (simp add: weekDay_def dayOf_midnight)
  qed
  show "\<exists>t. nextResetAt now MONTHLY = Some t \<and> now < t \<and> t \<le> now + 31 * msPerDay \<and> t mod msPerDay = 0 \<and>
      dateOf t = 1 \<and> monthOf t = (monthOf now + 1) mod 12 \<and> yearOf t = yearOf now + (monthOf now + 1) div 12"
  proof -
    note m = month_facts [of now]
    define k where "k = firstOfMonth (yearOf now) (monthOf now + 1) - dayOf now"
    have first: "firstOfMonth (yearOf now) (monthOf now + 1) = dayOf now + k" by (simp add: k_def)
    have "1 \<le> k" "k \<le> 31"
      using m month_length [of "monthOf now" "yearOf now"] firstOfMonth_next [of "monthOf now" "yearOf now"]
      by (simp_all add: k_def)
    moreover have "k * msPerDay \<le> 31 * msPerDay" using \<open>k \<le> 31\<close> ms by (intro mult_right_mono) simp_all
    moreover have "nextResetAt now MONTHLY = Some ((dayOf now + k) * msPerDay)"
      by (simp add: nextResetAt_def first)
    moreover have "dateOf ((dayOf now + k) * msPerDay) = 1 \<and> monthOf ((dayOf now + k) * msPerDay) = (monthOf now + 1) mod 12 \<and>
        yearOf ((dayOf now + k) * msPerDay) = yearOf now + (monthOf now + 1) div 12"
      unfolding first [symmetric] using m by (intro firstOfMonth_date) simp_all
    ultimately show ?thesis using ahead [of k]
      by (intro exI [of _ "(dayOf now + k) * msPerDay"]) simp
  qed
qed

section \<open>What each part writes\<close>

text \<open>The loop reads the catalogue and the progress rows; \<open>gameView\<close> is what it depends on.\<close>

definition gameView :: "'a game_db_scheme \<Rightarrow> quest list \<times> questProgress list \<times> game_emit list" where
  "gameView w = (quests w, questProgresses w, gameOut w)"

lemma gameView_update [simp]:
  "gameView (w\<lparr>users := us\<rparr>) = gameView w" "gameView (w\<lparr>userBadges := bs\<rparr>) = gameView w"
  "gameView (w\<lparr>notifications := ns, uuidNext := n\<rparr>) = gameView w" "gameView (w\<lparr>gamePush := ps\<rparr>) = gameView w"
  by (simp_all add: gameView_def)

lemma notify_gameView [simp]: "gameView (snd (notify u ty ti bo da now w)) = gameView w"
proof -
  obtain t n where "snd (notify u ty ti bo da now w) = w\<lparr>notifications := t, uuidNext := n\<rparr>"
    using notify_writes by blast
  then show ?thesis by simp
qed

lemma notify_users [simp]: "users (snd (notify u ty ti bo da now w)) = users w"
  using in_app.send_view [of u ty ti bo da now w] by (simp add: quietCore_def)

lemma emitGame_users [simp]: "users (emitGame e w) = users w"
  by (simp add: emitGame_def)

lemma awardXp_gameView [simp]: "gameView (snd (awardXp u r w)) = gameView w"
  by (auto simp: awardXp_def updateUser_cases Let_def ret_def raise_def split: option.split)

lemma unlockBadge_gameView [simp]: "gameView (snd (unlockBadge u q now w)) = gameView w"
  and unlockBadge_users [simp]: "users (snd (unlockBadge u q now w)) = users w"
  by (auto simp: unlockBadge_def split: option.split)

text \<open>XP and level move together, so every outcome of an award leaves the level of the formula.\<close>

definition levelsAgree :: "user list \<Rightarrow> bool" where
  "levelsAgree us \<longleftrightarrow> (\<forall>u \<in> set us. u_level u = levelFor (u_xp u))"

definition xpOf :: "uid \<Rightarrow> 'a game_db_scheme \<Rightarrow> int option" where
  "xpOf u w = map_option u_xp (findUser u w)"

lemma awardXp_cases:
  "awardXp u reward w =
     (case findUser u w of
        None \<Rightarrow> (Inl RecordNotFound, w)
      | Some r \<Rightarrow> (Inr (u_xp r + reward, levelFor (u_xp r + reward)),
          w\<lparr>users := updateMany (\<lambda>r. u_id r = u)
             (\<lambda>s. s\<lparr>u_xp := u_xp s + reward, u_level := levelFor (u_xp r + reward)\<rparr>) (users w)\<rparr>))"
proof (cases "findUser u w")
  case None
  then have "u \<notin> u_id ` set (users w)" unfolding findUser_def findUnique_None .
  then show ?thesis by (simp add: None awardXp_def updateUser_cases)
next
  case (Some r)
  then have r: "r \<in> set (users w)" "u_id r = u" by (auto simp: findUser_def dest: findUnique_Some)
  then have mem: "u \<in> u_id ` set (users w)" by force
  let ?us = "updateMany (\<lambda>r. u_id r = u) (\<lambda>r. r\<lparr>u_xp := u_xp r + reward\<rparr>) (users w)"
  have "findUnique u_id u ?us = Some (r\<lparr>u_xp := u_xp r + reward\<rparr>)"
    using Some r(2) by (subst findUnique_updateMany) (simp_all add: findUser_def)
  moreover have "u_id ` set ?us = u_id ` set (users w)" by (rule keys_updateMany) simp
  ultimately show ?thesis
    using mem Some by (simp add: awardXp_def updateUser_cases findUser_def Let_def ret_def updateMany_twice)
qed

lemma awardXp_levels:
  assumes "levelsAgree (users w)" and "unique u_id (users w)"
  shows "levelsAgree (users (snd (awardXp u reward w)))"
proof (cases "findUser u w")
  case None
  then show ?thesis using assms(1) by (simp add: awardXp_cases)
next
  case (Some r)
  have same: "s = r" if "s \<in> set (users w)" "u_id s = u" for s
    using that Some unique_row [OF assms(2)] by (auto simp: findUser_def dest: findUnique_Some)
  show ?thesis
    unfolding levelsAgree_def
  proof
    fix s
    assume "s \<in> set (users (snd (awardXp u reward w)))"
    then obtain t where t: "t \<in> set (users w)" "s = (if u_id t = u
        then t\<lparr>u_xp := u_xp t + reward, u_level := levelFor (u_xp r + reward)\<rparr> else t)"
      by (simp add: awardXp_cases Some set_updateMany) (elim disjE imageE conjE IntE; simp)
    then show "u_level s = levelFor (u_xp s)" using assms(1) same [OF t(1)] by (auto simp: levelsAgree_def)
  qed
qed

lemma awardXp_ids: "map u_id (users (snd (awardXp u reward w))) = map u_id (users w)"
  by (auto simp: awardXp_cases map_updateMany split: option.split)

lemma awardXp_xp:
  assumes "awardXp u reward w = (Inr x, w')"
  shows "xpOf v w' = map_option (\<lambda>n. if v = u then n + reward else n) (xpOf v w)" and "xpOf u w \<noteq> None"
proof -
  obtain r where r: "findUser u w = Some r" using assms by (auto simp: awardXp_cases split: option.splits)
  then have w': "w' = w\<lparr>users := updateMany (\<lambda>r. u_id r = u)
             (\<lambda>s. s\<lparr>u_xp := u_xp s + reward, u_level := levelFor (u_xp r + reward)\<rparr>) (users w)\<rparr>"
    using assms by (simp add: awardXp_cases)
  show "xpOf v w' = map_option (\<lambda>n. if v = u then n + reward else n) (xpOf v w)"
    by (cases "findUnique u_id v (users w)")
       (auto simp: xpOf_def findUser_def w' findUnique_updateMany dest: findUnique_Some)
  show "xpOf u w \<noteq> None" by (simp add: xpOf_def r)
qed

definition badgeNews :: "uid \<Rightarrow> questCompletedDto \<Rightarrow> time \<Rightarrow> 'a game_db_scheme \<Rightarrow> (notification option, 'a game_db_scheme) outcome"
where
  "badgeNews u d now w = (case qc_badgeUnlocked d of
         None \<Rightarrow> ret None w
       | Some b \<Rightarrow> notify u N_BADGE_EARNED ''Yeni rozet kazandin!'' (bd_name b @ '' rozetini kazandin.'')
           [(''badgeId'', DText (bd_id b))] now w)"

lemma badgeNews_writes [simp]:
  "gameView (snd (badgeNews u d now w)) = gameView w" "users (snd (badgeNews u d now w)) = users w"
  by (simp_all add: badgeNews_def split: option.split)

lemma announce_post:
  assumes "\<And>v. gameView v = gameView w \<Longrightarrow> users v = users w \<Longrightarrow> Q v"
    and "\<And>v. gameView v = gameView w \<Longrightarrow> users v = users w \<Longrightarrow> Q (pushAndBroadcast u q d v)"
  shows "Q (snd (announce u q d now w))"
  unfolding announce_def badgeNews_def [symmetric]
  by (rule post_and_then, simp add: assms(1), rule post_and_then, simp_all add: assms)

lemma announce_users [simp]: "users (snd (announce u q d now w)) = users w"
  by (rule announce_post [where Q = "\<lambda>v. users v = users w"])
     (simp_all add: pushAndBroadcast_def Let_def split: option.split)

lemma completeQuest_users:
  "users (snd (completeQuest u q now w)) = users (snd (awardXp u (qu_xpReward q) w))"
proof (cases "awardXp u (qu_xpReward q) w")
  case (Pair a v)
  show ?thesis
  proof (cases a)
    case (Inl e)
    then show ?thesis by (simp add: completeQuest_def Pair)
  next
    case (Inr x)
    let ?rest = "and_then (unlockBadge u q now v) (\<lambda>unlocked w2.
       let d = \<lparr>qc_questId = qu_id q, qc_questCode = qu_code q, qc_xpAwarded = qu_xpReward q,
                qc_newUserLevel = snd x, qc_newUserXp = fst x, qc_badgeUnlocked = unlocked\<rparr>
       in and_then (announce u q d now w2) (\<lambda>_ w3. ret d w3))"
    have "users (snd ?rest) = users v"
      by (rule inv_and_then [where P = "\<lambda>z. users z = users v"]) (simp_all add: Let_def)
    then show ?thesis by (simp add: completeQuest_def Pair Inr case_prod_beta)
  qed
qed

lemma saveProgress_cases:
  "saveProgress u q progress resetAt c now w =
     (if findUser u w = None \<or> qu_id q \<notin> qu_id ` set (quests w) then (Inl ForeignKeyViolation, w)
      else (Inr (), w\<lparr>questProgresses := upsertRow progressKey (u, qu_id q)
        \<lparr>qp_userId = u, qp_questId = qu_id q, qp_progress = progress, qp_completed = c,
         qp_completedAt = (if c then Some now else None), qp_resetAt = resetAt\<rparr>
        (\<lambda>p. p\<lparr>qp_progress := progress, qp_completed := c,
           qp_completedAt := (if c then Some now else qp_completedAt p), qp_resetAt := resetAt\<rparr>)
        (questProgresses w)\<rparr>))"
  by (simp add: saveProgress_def userExists_def raise_def ret_def)

lemma saveProgress_users [simp]: "users (snd (saveProgress u q p t c now w)) = users w"
  by (simp add: saveProgress_cases)

lemma advanceQuest_shape:
  "advanceQuest u k now q ds w = (Inr ds, w) \<or>
   (\<exists>p t c. advanceQuest u k now q ds w =
      and_then (saveProgress u q p t c now w) (\<lambda>_ w1. if \<not> c then ret ds w1
        else and_then (completeQuest u q now w1) (\<lambda>d w2. ret (ds @ [d]) w2)))"
  by (simp add: advanceQuest_def Let_def ret_def split: prod.split) blast

lemma advanceQuest_levels:
  assumes "levelsAgree (users w) \<and> unique u_id (users w)"
  shows "levelsAgree (users (snd (advanceQuest u k now q ds w))) \<and> unique u_id (users (snd (advanceQuest u k now q ds w)))"
    (is "?P (snd (advanceQuest u k now q ds w))")
  using advanceQuest_shape [of u k now q ds w]
proof (elim disjE exE)
  assume "advanceQuest u k now q ds w = (Inr ds, w)"
  then show ?thesis using assms by simp
next
  fix p t c
  assume shape: "advanceQuest u k now q ds w =
      and_then (saveProgress u q p t c now w) (\<lambda>_ w1. if \<not> c then ret ds w1
        else and_then (completeQuest u q now w1) (\<lambda>d w2. ret (ds @ [d]) w2))"
  show ?thesis
    unfolding shape
  proof (rule inv_and_then [where P = ?P])
    show "?P (snd (saveProgress u q p t c now w))" using assms by simp
  next
    fix x
    assume "?P (snd (saveProgress u q p t c now w))"
    then show "?P (snd (if \<not> c then ret ds (snd (saveProgress u q p t c now w))
        else and_then (completeQuest u q now (snd (saveProgress u q p t c now w))) (\<lambda>d w2. ret (ds @ [d]) w2)))"
      by (auto simp: completeQuest_users awardXp_levels awardXp_ids)
  qed
qed

section \<open>Histories\<close>

datatype gameOp =
    OnTrigger triggerPayload time
  | ToggleShowcase uid uid bool
  | RegisterGameGateway

fun gameStep :: "gameOp \<Rightarrow> 'a game_db_scheme \<Rightarrow> 'a game_db_scheme" where
  "gameStep (OnTrigger p now) w = onTrigger p now w"
| "gameStep (ToggleShowcase u b s) w = snd (toggleShowcase u b s w)"
| "gameStep RegisterGameGateway w = registerGameGateway w"

lemma toggleShowcase_writes: "\<exists>t. snd (toggleShowcase u b s w) = w\<lparr>userBadges := t\<rparr>"
proof -
  have "snd (toggleShowcase u b s w) \<in> {w\<lparr>userBadges := userBadges w\<rparr>,
      w\<lparr>userBadges := updateMany (\<lambda>r. userBadgeKey r = (u, b)) (\<lambda>r. r\<lparr>ub_showcased := s\<rparr>) (userBadges w)\<rparr>}"
    by (auto simp: toggleShowcase_def write_or_def updateRow_def simp del: prod.inject split: option.split)
  then show ?thesis by blast
qed

interpretation game_levels: invariant_system gameStep "\<lambda>w. levelsAgree (users w) \<and> unique u_id (users w)"
proof
  fix w :: "'a game_db_scheme" and x
  assume inv: "levelsAgree (users w) \<and> unique u_id (users w)"
  show "levelsAgree (users (gameStep x w)) \<and> unique u_id (users (gameStep x w))"
  proof (cases x)
    case (OnTrigger p now)
    have "levelsAgree (users (snd (triggerQuest p now w))) \<and> unique u_id (users (snd (triggerQuest p now w)))"
      unfolding triggerQuest_def
      by (rule inv_for_each [where P = "\<lambda>w. levelsAgree (users w) \<and> unique u_id (users w)"])
         (rule inv, rule advanceQuest_levels)
    then show ?thesis using inv by (simp add: OnTrigger onTrigger_def)
  next
    case (ToggleShowcase u b s)
    then show ?thesis using inv toggleShowcase_writes [of u b s w] by auto
  next
    case RegisterGameGateway
    then show ?thesis using inv by (simp add: registerGameGateway_def)
  qed
qed

text \<open>
  Whatever triggers arrive, valid or not and failing anywhere, every user's level stays
  the one of the formula for his experience points.
\<close>

theorem levels_match_xp:
  assumes "unique u_id (users w)" and "levelsAgree (users w)" and "r \<in> set (users (fold gameStep ops w))"
  shows "u_level r = levelFor (u_xp r)"
  using game_levels.run_inv [of w ops] assms by (simp add: levelsAgree_def)

definition sampleQuest :: "uid \<Rightarrow> int \<Rightarrow> bool \<Rightarrow> quest" where
  "sampleQuest i n rep =
     \<lparr>qu_id = i, qu_code = i, qu_name = i, qu_description = [], qu_trigger = POST_CREATED, qu_targetValue = n,
      qu_xpReward = 60, qu_badgeId = Some ''g'', qu_repeatable = rep, qu_resetPeriod = NONE, qu_isActive = True,
      qu_createdAt = 0\<rparr>"

definition sampleGame :: "quest list \<Rightarrow> game_db" where
  "sampleGame qs = core_db.extend sampleCore
     \<lparr>quests = qs, questProgresses = [],
      badges = [\<lparr>ba_id = ''g'', ba_code = ''g'', ba_name = ''g'', ba_description = [], ba_iconUrl = None,
        ba_category = None, ba_rarity = COMMON, ba_xpReward = 0, ba_isActive = True\<rparr>],
      userBadges = [], gameGateway = True, gameOut = [], gamePush = []\<rparr>"

abbreviation samplePost :: "uid \<Rightarrow> int \<Rightarrow> gameOp" where
  "samplePost u now \<equiv> OnTrigger \<lparr>tp_userId = u, tp_trigger = POST_CREATED, tp_increment = 1\<rparr> now"

theorem levels_match_xp_witness:
  "(case users (fold gameStep [samplePost ''a'' 1, samplePost ''a'' 2] (sampleGame [sampleQuest ''q'' 2 False])) of
      [] \<Rightarrow> False | r # _ \<Rightarrow> u_xp r = 60 \<and> u_level r = levelFor (u_xp r))"
proof -
  let ?w = "sampleGame [sampleQuest ''q'' 2 False]" and ?ops = "[samplePost ''a'' 1, samplePost ''a'' 2]"
  have "unique u_id (users ?w)" "levelsAgree (users ?w)"
    by (code_simp, simp add: levelsAgree_def sampleGame_def sampleCore_def sampleUser_def core_db.defs levelFor_def isqrt.simps)
  note agree = levels_match_xp [OF this, of _ ?ops]
  have "(case users (fold gameStep ?ops ?w) of [] \<Rightarrow> False | r # _ \<Rightarrow> u_xp r = 60)" by code_simp
  then show ?thesis using agree by (auto split: list.splits)
qed

section \<open>Experience is paid out as reported\<close>

lemma xpOf_cong: "users w = users v \<Longrightarrow> xpOf u w = xpOf u v"
  by (simp add: xpOf_def findUser_def)

lemma completeQuest_xp:
  assumes "completeQuest u q now w = (Inr d, w')"
  shows "xpOf v w' = map_option (\<lambda>n. if v = u then n + qu_xpReward q else n) (xpOf v w)"
    and "qc_xpAwarded d = qu_xpReward q" and "qc_questId d = qu_id q"
proof -
  obtain x w1 where award: "awardXp u (qu_xpReward q) w = (Inr x, w1)"
    using assms by (auto simp: completeQuest_def and_then_Inr_iff)
  have "users w' = users w1" using completeQuest_users [of u q now w] by (simp add: assms award)
  from xpOf_cong [OF this] show "xpOf v w' = map_option (\<lambda>n. if v = u then n + qu_xpReward q else n) (xpOf v w)"
    by (simp add: awardXp_xp(1) [OF award])
  show "qc_xpAwarded d = qu_xpReward q" "qc_questId d = qu_id q"
    using assms by (auto simp: completeQuest_def and_then_Inr_iff Let_def ret_def)
qed

definition paid :: "questCompletedDto list \<Rightarrow> int" where
  "paid ds = sum_list (map qc_xpAwarded ds)"

lemma advanceQuest_xp:
  assumes "advanceQuest u k now q ds w = (Inr ds', w')"
  shows "xpOf v w' = map_option (\<lambda>n. if v = u then n + (paid ds' - paid ds) else n) (xpOf v w)"
  using advanceQuest_shape [of u k now q ds w]
proof (elim disjE exE)
  assume "advanceQuest u k now q ds w = (Inr ds, w)"
  then show ?thesis using assms by (auto simp: option.map_ident cong: if_cong)
next
  fix p t c
  assume shape: "advanceQuest u k now q ds w =
      and_then (saveProgress u q p t c now w) (\<lambda>_ w1. if \<not> c then ret ds w1
        else and_then (completeQuest u q now w1) (\<lambda>d w2. ret (ds @ [d]) w2))"
  then obtain w1 where save: "saveProgress u q p t c now w = (Inr (), w1)"
    and rest: "(if \<not> c then ret ds w1 else and_then (completeQuest u q now w1) (\<lambda>d w2. ret (ds @ [d]) w2)) = (Inr ds', w')"
    using assms unfolding shape and_then_Inr_iff by auto
  have "users w1 = users w" using saveProgress_users [of u q p t c now w] by (simp add: save)
  note same = xpOf_cong [OF this]
  show ?thesis
  proof (cases c)
    case False
    then show ?thesis using rest same by (auto simp: ret_def option.map_ident cong: if_cong)
  next
    case True
    then obtain d where d: "completeQuest u q now w1 = (Inr d, w')" "ds' = ds @ [d]"
      using rest by (auto simp: and_then_Inr_iff ret_def)
    have pay: "paid ds' - paid ds = qu_xpReward q" unfolding d(2) by (simp add: paid_def completeQuest_xp(2) [OF d(1)])
    show ?thesis unfolding pay completeQuest_xp(1) [OF d(1)] same ..
  qed
qed

lemma loop_xp:
  "for_each (advanceQuest u k now) qs ds w = (Inr ds', w') \<Longrightarrow>
     xpOf v w' = map_option (\<lambda>n. if v = u then n + (paid ds' - paid ds) else n) (xpOf v w)"
proof (induction qs arbitrary: ds w)
  case Nil
  then show ?case by (auto simp: ret_def option.map_ident cong: if_cong)
next
  case (Cons q qs)
  then obtain ds1 w1 where one: "advanceQuest u k now q ds w = (Inr ds1, w1)"
    and more: "for_each (advanceQuest u k now) qs ds1 w1 = (Inr ds', w')"
    by (auto simp: and_then_Inr_iff)
  show ?case
    unfolding Cons.IH [OF more] advanceQuest_xp [OF one] by (cases "xpOf v w") simp_all
qed

text \<open>
  Experience is accounted for: a successful trigger adds to its user exactly the sum of
  the \<open>xpAwarded\<close> it reports, and nothing to anybody else.
\<close>

theorem xp_accounting:
  assumes "triggerQuest p now w = (Inr ds, w')"
  shows "xpOf (tp_userId p) w' = map_option (\<lambda>n. n + sum_list (map qc_xpAwarded ds)) (xpOf (tp_userId p) w) \<and>
    (v \<noteq> tp_userId p \<longrightarrow> xpOf v w' = xpOf v w)"
  using loop_xp [OF assms [unfolded triggerQuest_def]] by (simp_all add: paid_def option.map_ident cong: if_cong)

theorem xp_accounting_witness:
  "\<exists>ds w'. triggerQuest \<lparr>tp_userId = ''a'', tp_trigger = POST_CREATED, tp_increment = 1\<rparr> 5
       (sampleGame [sampleQuest ''q'' 1 False, sampleQuest ''r'' 1 True]) = (Inr ds, w') \<and>
     sum_list (map qc_xpAwarded ds) = 120 \<and> xpOf ''a'' w' = Some 120 \<and> xpOf ''b'' w' = Some 0"
proof -
  let ?w = "sampleGame [sampleQuest ''q'' 1 False, sampleQuest ''r'' 1 True]"
  let ?p = "\<lparr>tp_userId = ''a'', tp_trigger = POST_CREATED, tp_increment = 1\<rparr>"
  have run: "(case fst (triggerQuest ?p 5 ?w) of Inl e \<Rightarrow> False | Inr ds \<Rightarrow> sum_list (map qc_xpAwarded ds) = 120)"
    by code_simp
  obtain ds w' where ds: "triggerQuest ?p 5 ?w = (Inr ds, w')" "sum_list (map qc_xpAwarded ds) = 120"
    using run by (cases "triggerQuest ?p 5 ?w") (simp split: sum.splits)
  have "xpOf ''a'' ?w = Some 0" "xpOf ''b'' ?w = Some 0" by code_simp+
  then show ?thesis using ds xp_accounting [OF ds(1), of "''b''"] by (intro exI [of _ ds] exI [of _ w']) simp
qed

section \<open>One-shot quests\<close>

text \<open>How often the completion of quest \<open>q\<close> was broadcast to \<open>u\<close>, and whether it is recorded.\<close>

fun announces :: "uid \<Rightarrow> uid \<Rightarrow> game_emit \<Rightarrow> bool" where
  "announces u q (BroadcastQuestCompleted v d _) \<longleftrightarrow> v = u \<and> qc_questId d = q"
| "announces u q (BroadcastBadgeEarned _ _) \<longleftrightarrow> False"

definition recorded :: "uid \<Rightarrow> uid \<Rightarrow> questProgress list \<Rightarrow> bool" where
  "recorded u q ps \<longleftrightarrow> (case findUnique progressKey (u, q) ps of None \<Rightarrow> False | Some p \<Rightarrow> qp_completed p)"

fun onceInv :: "quest list \<times> questProgress list \<times> game_emit list \<Rightarrow> bool" where
  "onceInv (qs, ps, out) \<longleftrightarrow> unique qu_id qs \<and>
     (\<forall>q \<in> set qs. qu_repeatable q \<or> (\<forall>u. countRows (announces u (qu_id q)) out \<le> (if recorded u (qu_id q) ps then 1 else 0)))"

text \<open>What a completion adds to the broadcasts: nothing, or one for its user and quest.\<close>

lemma pushAndBroadcast_view:
  "\<exists>es. gameView (pushAndBroadcast u q d w) = (quests w, questProgresses w, gameOut w @ es) \<and>
     (\<forall>v r. countRows (announces v r) es \<le> (if v = u \<and> r = qc_questId d then 1 else 0))"
proof -
  define es where "es = (if \<not> gameGateway w then [] else BroadcastQuestCompleted u d (qu_name q) #
      (case qc_badgeUnlocked d of None \<Rightarrow> [] | Some b \<Rightarrow> [BroadcastBadgeEarned u b]))"
  have "gameView (pushAndBroadcast u q d w) = (quests w, questProgresses w, gameOut w @ es)"
    by (simp add: pushAndBroadcast_def es_def Let_def emitGame_def gameView_def split: option.split)
  moreover have "countRows (announces v r) es \<le> (if v = u \<and> r = qc_questId d then 1 else 0)" for v r
    by (auto simp: es_def countRows_def split: option.split)
  ultimately show ?thesis by blast
qed

definition told :: "uid \<Rightarrow> uid \<Rightarrow> 'a game_db_scheme \<Rightarrow> 'b game_db_scheme \<Rightarrow> bool" where
  "told u q w v \<longleftrightarrow> (\<exists>es. gameView v = (quests w, questProgresses w, gameOut w @ es) \<and>
     (\<forall>v r. countRows (announces v r) es \<le> (if v = u \<and> r = q then 1 else 0)))"

lemma told_nothing: "gameView v = gameView w \<Longrightarrow> told u q w v"
  unfolding told_def by (rule exI [of _ "[]"]) (simp add: gameView_def countRows_def)

lemma announce_told:
  assumes "gameView w = gameView w0"
  shows "told u (qc_questId d) w0 (snd (announce u q d now w))"
proof (rule announce_post)
  fix v :: "'a game_db_scheme"
  assume v: "gameView v = gameView w"
  then show "told u (qc_questId d) w0 v" using assms by (intro told_nothing) simp
  show "told u (qc_questId d) w0 (pushAndBroadcast u q d v)"
    using pushAndBroadcast_view [of u q d v] v assms by (simp add: told_def gameView_def)
qed

lemma completeQuest_told: "told u (qu_id q) w (snd (completeQuest u q now w))"
  unfolding completeQuest_def case_prod_beta Let_def
proof (rule post_and_then, simp add: told_nothing, rule post_and_then, simp add: told_nothing)
  fix x b
  let ?w2 = "snd (unlockBadge u q now (snd (awardXp u (qu_xpReward q) w)))"
  let ?d = "\<lparr>qc_questId = qu_id q, qc_questCode = qu_code q, qc_xpAwarded = qu_xpReward q,
                qc_newUserLevel = snd x, qc_newUserXp = fst x, qc_badgeUnlocked = b\<rparr>"
  have "told u (qc_questId ?d) w (snd (announce u q ?d now ?w2))" by (rule announce_told) simp
  then show "told u (qu_id q) w (snd (and_then (announce u q ?d now ?w2) (\<lambda>_ w3. ret ?d w3)))" by simp
qed

lemma recorded_upsert:
  assumes "\<And>p. progressKey (f p) = progressKey p" and "\<And>p. qp_completed (f p) = c"
    and "progressKey new = (u, q)" and "qp_completed new = c"
  shows "recorded v r (upsertRow progressKey (u, q) new f ps) = (if v = u \<and> r = q then c else recorded v r ps)"
proof (cases "v = u \<and> r = q")
  case True
  have "findUnique progressKey (u, q) (upsertRow progressKey (u, q) new f ps) =
      Some (case findUnique progressKey (u, q) ps of None \<Rightarrow> new | Some r \<Rightarrow> f r)"
    by (rule findUnique_upsert_same) (rule assms)+
  then show ?thesis using True assms(2,4) by (simp add: recorded_def split: option.split)
next
  case False
  then have "(v, r) \<noteq> (u, q)" by simp
  then have "findUnique progressKey (v, r) (upsertRow progressKey (u, q) new f ps) = findUnique progressKey (v, r) ps"
    by (intro findUnique_upsert_other assms)
  then show ?thesis using False by (auto simp: recorded_def)
qed

lemma saveProgress_recorded:
  assumes "saveProgress u q p t c now w = (Inr (), w1)"
  shows "quests w1 = quests w \<and> gameOut w1 = gameOut w \<and>
    recorded v r (questProgresses w1) = (if v = u \<and> r = qu_id q then c else recorded v r (questProgresses w))"
proof -
  have w1: "w1 = w\<lparr>questProgresses := upsertRow progressKey (u, qu_id q)
        \<lparr>qp_userId = u, qp_questId = qu_id q, qp_progress = p, qp_completed = c,
         qp_completedAt = (if c then Some now else None), qp_resetAt = t\<rparr>
        (\<lambda>r. r\<lparr>qp_progress := p, qp_completed := c,
           qp_completedAt := (if c then Some now else qp_completedAt r), qp_resetAt := t\<rparr>)
        (questProgresses w)\<rparr>"
    using assms by (simp add: saveProgress_cases split: if_splits)
  define new where "new = \<lparr>qp_userId = u, qp_questId = qu_id q, qp_progress = p, qp_completed = c,
    qp_completedAt = (if c then Some now else None), qp_resetAt = t\<rparr>"
  define f where "f = (\<lambda>r :: questProgress. r\<lparr>qp_progress := p, qp_completed := c,
    qp_completedAt := (if c then Some now else qp_completedAt r), qp_resetAt := t\<rparr>)"
  have ps: "questProgresses w1 = upsertRow progressKey (u, qu_id q) new f (questProgresses w)"
    unfolding w1 new_def f_def by simp
  have "recorded v r (upsertRow progressKey (u, qu_id q) new f (questProgresses w)) =
      (if v = u \<and> r = qu_id q then c else recorded v r (questProgresses w))"
    by (rule recorded_upsert) (simp_all add: new_def f_def)
  then show ?thesis unfolding ps by (simp add: w1)
qed

declare onceInv.simps [simp del]

lemma onceInvD:
  "onceInv (qs, ps, out) \<Longrightarrow> q \<in> set qs \<Longrightarrow> \<not> qu_repeatable q \<Longrightarrow>
     countRows (announces u (qu_id q)) out \<le> (if recorded u (qu_id q) ps then 1 else 0)"
  unfolding onceInv.simps by blast

lemma advanceQuest_finished:
  "recorded u (qu_id q) (questProgresses w) \<Longrightarrow> \<not> qu_repeatable q \<Longrightarrow> advanceQuest u k now q ds w = (Inr ds, w)"
  by (auto simp: advanceQuest_def recorded_def ret_def Let_def split: option.splits prod.split)

lemma once_step:
  assumes inv: "onceInv (quests w, questProgresses w, gameOut w)" and "q0 \<in> set (quests w)"
    and save: "saveProgress u q0 p t c now w = (Inr (), w1)"
    and once: "qu_repeatable q0 \<or> \<not> recorded u (qu_id q0) (questProgresses w)"
    and out: "\<forall>v r. countRows (announces v r) out' \<le> countRows (announces v r) (gameOut w) + (if v = u \<and> r = qu_id q0 \<and> c then 1 else 0)"
  shows "onceInv (quests w, questProgresses w1, out')"
proof -
  have rec: "recorded v r (questProgresses w1) = (if v = u \<and> r = qu_id q0 then c else recorded v r (questProgresses w))" for v r
    using saveProgress_recorded [OF save] by blast
  have ids: "unique qu_id (quests w)" using inv by (simp add: onceInv.simps)
  have "countRows (announces v (qu_id q)) out' \<le> (if recorded v (qu_id q) (questProgresses w1) then 1 else 0)"
    if "q \<in> set (quests w)" "\<not> qu_repeatable q" for q v
  proof (cases "v = u \<and> qu_id q = qu_id q0")
    case True
    then have "q = q0" using unique_row [OF ids that(1) assms(2)] by simp
    then have "countRows (announces u (qu_id q0)) (gameOut w) \<le> 0" using onceInvD [OF inv that, of u] that(2) once by simp
    then show ?thesis using out [rule_format, of u "qu_id q0"] True rec [of u "qu_id q0"] by auto
  next
    case False
    have "countRows (announces v (qu_id q)) (gameOut w) \<le> (if recorded v (qu_id q) (questProgresses w) then 1 else 0)"
      by (rule onceInvD [OF inv that])
    then show ?thesis using out [rule_format, of v "qu_id q"] False rec [of v "qu_id q"] by auto
  qed
  then show ?thesis unfolding onceInv.simps using ids by blast
qed

lemma advanceQuest_once:
  assumes "onceInv (gameView w) \<and> quests w = qs" and "q0 \<in> set qs"
  shows "onceInv (gameView (snd (advanceQuest u k now q0 ds w))) \<and> quests (snd (advanceQuest u k now q0 ds w)) = qs"
proof (cases "recorded u (qu_id q0) (questProgresses w) \<and> \<not> qu_repeatable q0")
  case True
  then show ?thesis using assms by (simp add: advanceQuest_finished)
next
  case False
  then have fresh: "qu_repeatable q0 \<or> \<not> recorded u (qu_id q0) (questProgresses w)" by blast
  have inv: "onceInv (quests w, questProgresses w, gameOut w)" and mem: "q0 \<in> set (quests w)"
    using assms by (auto simp: gameView_def)
  show ?thesis
    using advanceQuest_shape [of u k now q0 ds w]
  proof (elim disjE exE)
    assume "advanceQuest u k now q0 ds w = (Inr ds, w)"
    then show ?thesis using assms by simp
  next
    fix p t c
    assume shape: "advanceQuest u k now q0 ds w =
        and_then (saveProgress u q0 p t c now w) (\<lambda>_ w1. if \<not> c then ret ds w1
          else and_then (completeQuest u q0 now w1) (\<lambda>d w2. ret (ds @ [d]) w2))"
    show ?thesis
    proof (cases "\<exists>w1. saveProgress u q0 p t c now w = (Inr (), w1)")
      case False
      then have "saveProgress u q0 p t c now w = (Inl ForeignKeyViolation, w)"
        by (auto simp: saveProgress_cases split: if_splits)
      then show ?thesis using assms by (simp add: shape)
    next
      case True
      then obtain w1 where save: "saveProgress u q0 p t c now w = (Inr (), w1)" by blast
      have w1: "quests w1 = quests w" "gameOut w1 = gameOut w" using saveProgress_recorded [OF save] by blast+
      have told: "told u (qu_id q0) w1 (snd (completeQuest u q0 now w1))" by (rule completeQuest_told)
      have final: "snd (advanceQuest u k now q0 ds w) = (if c then snd (completeQuest u q0 now w1) else w1)"
        by (simp add: shape save)
      obtain es where es: "gameView (snd (advanceQuest u k now q0 ds w)) = (quests w, questProgresses w1, gameOut w @ es)"
        and few: "\<forall>v r. countRows (announces v r) es \<le> (if v = u \<and> r = qu_id q0 \<and> c then 1 else 0)"
      proof (cases c)
        case True
        then show ?thesis using told that unfolding told_def final w1 by auto
      next
        case False
        then show ?thesis using that [of "[]"] by (simp add: final gameView_def w1 countRows_def)
      qed
      have "onceInv (quests w, questProgresses w1, gameOut w @ es)"
        by (rule once_step [OF inv mem save]) (use fresh few in auto)
      then show ?thesis using es assms by (simp add: gameView_def)
    qed
  qed
qed

interpretation game_once: invariant_system gameStep "\<lambda>w. onceInv (gameView w) \<and> quests w = qs" for qs
proof
  fix w :: "'a game_db_scheme" and x
  assume inv: "onceInv (gameView w) \<and> quests w = qs"
  show "onceInv (gameView (gameStep x w)) \<and> quests (gameStep x w) = qs"
  proof (cases x)
    case (OnTrigger p now)
    have "onceInv (gameView (snd (triggerQuest p now w))) \<and> quests (snd (triggerQuest p now w)) = qs"
      unfolding triggerQuest_def
    proof (rule inv_for_each [where P = "\<lambda>w. onceInv (gameView w) \<and> quests w = qs"])
      fix q ds and v :: "'a game_db_scheme"
      assume "q \<in> set (filter (\<lambda>q. qu_trigger q = tp_trigger p \<and> qu_isActive q) (quests w))"
        and "onceInv (gameView v) \<and> quests v = qs"
      then show "onceInv (gameView (snd (advanceQuest (tp_userId p) (tp_increment p) now q ds v))) \<and>
          quests (snd (advanceQuest (tp_userId p) (tp_increment p) now q ds v)) = qs"
        using inv by (intro advanceQuest_once) simp_all
    qed (rule inv)
    then show ?thesis using inv by (simp add: OnTrigger onTrigger_def)
  next
    case (ToggleShowcase u b s)
    then show ?thesis using inv toggleShowcase_writes [of u b s w] by (auto simp: gameView_def)
  next
    case RegisterGameGateway
    then show ?thesis using inv by (auto simp: registerGameGateway_def gameView_def)
  qed
qed

lemma once_announced:
  "onceInv (gameView w) \<Longrightarrow> q \<in> set (quests w) \<Longrightarrow> \<not> qu_repeatable q \<Longrightarrow> countRows (announces u (qu_id q)) (gameOut w) \<le> 1"
  using onceInvD [of "quests w" "questProgresses w" "gameOut w" q u] by (auto simp: gameView_def split: if_splits)

text \<open>
  The books of the experience: what a user has, and what the one-shot quests recorded as completed
  are worth. \<open>balanced\<close>: from \<open>w\<close> to \<open>v\<close> he gained at most what was recorded in between, and \<open>extra\<close>.
\<close>

definition experience :: "uid \<Rightarrow> 'a game_db_scheme \<Rightarrow> int" where
  "experience u w = (case xpOf u w of None \<Rightarrow> 0 | Some n \<Rightarrow> n)"

definition oneShotsDone :: "uid \<Rightarrow> quest list \<Rightarrow> questProgress list \<Rightarrow> quest list" where
  "oneShotsDone u qs ps = filter (\<lambda>q. \<not> qu_repeatable q \<and> recorded u (qu_id q) ps) qs"

definition worth :: "quest list \<Rightarrow> int" where
  "worth qs = sum_list (map qu_xpReward qs)"

definition balanced :: "uid \<Rightarrow> int \<Rightarrow> 'a game_db_scheme \<Rightarrow> 'a game_db_scheme \<Rightarrow> bool" where
  "balanced u extra w v \<longleftrightarrow> quests v = quests w \<and>
     experience u v + worth (oneShotsDone u (quests w) (questProgresses w)) \<le>
     experience u w + worth (oneShotsDone u (quests v) (questProgresses v)) + extra"

lemma balanced_refl: "0 \<le> extra \<Longrightarrow> balanced u extra w w"
  by (simp add: balanced_def)

lemma balanced_trans: "balanced u m w v \<Longrightarrow> balanced u n v x \<Longrightarrow> balanced u (m + n) w x"
  by (auto simp: balanced_def)

lemma experience_cong: "users w = users v \<Longrightarrow> experience u w = experience u v"
  by (simp add: experience_def xpOf_cong [of w v])

lemma experience_award:
  assumes "0 \<le> reward"
  shows "experience v (snd (awardXp u reward w)) \<le> experience v w + (if v = u then reward else 0)"
proof (cases "awardXp u reward w")
  case (Pair r w')
  show ?thesis
  proof (cases r)
    case (Inl e)
    then have "w' = w" using Pair by (auto simp: awardXp_cases split: option.splits)
    then show ?thesis using Pair assms by simp
  next
    case (Inr x)
    note run = Pair [unfolded Inr]
    show ?thesis using awardXp_xp(2) [OF run]
      by (auto simp: run experience_def awardXp_xp(1) [OF run] split: option.split)
  qed
qed

lemma worth_cong:
  "(\<And>q. q \<in> set qs \<Longrightarrow> \<not> qu_repeatable q \<Longrightarrow> recorded u (qu_id q) ps' = recorded u (qu_id q) ps) \<Longrightarrow>
     worth (oneShotsDone u qs ps') = worth (oneShotsDone u qs ps)"
  unfolding oneShotsDone_def by (rule arg_cong [where f = worth], rule filter_cong) auto

lemma worth_record:
  assumes "unique qu_id qs" and "q0 \<in> set qs" and "\<not> qu_repeatable q0" and "\<not> recorded u (qu_id q0) ps"
    and "\<And>r. recorded u r ps' = (if r = qu_id q0 then c else recorded u r ps)"
  shows "worth (oneShotsDone u qs ps') = worth (oneShotsDone u qs ps) + (if c then qu_xpReward q0 else 0)"
  using assms(1,2)
proof (induction qs)
  case (Cons q qs)
  show ?case
  proof (cases "q = q0")
    case True
    then have "qu_id q0 \<notin> qu_id ` set qs" using Cons.prems(1) by simp
    then have "qu_id r \<noteq> qu_id q0" if "r \<in> set qs" for r using that by (metis image_eqI)
    then have "worth (oneShotsDone u qs ps') = worth (oneShotsDone u qs ps)" by (intro worth_cong) (simp add: assms(5))
    then show ?thesis using True assms(3-5) by (simp add: oneShotsDone_def worth_def)
  next
    case False
    then have q0: "q0 \<in> set qs" using Cons.prems(2) by simp
    then have "qu_id q \<noteq> qu_id q0" using Cons.prems(1) by auto
    then show ?thesis using Cons.IH q0 Cons.prems(1) assms(5) by (simp add: oneShotsDone_def worth_def)
  qed
qed simp

lemma advanceQuest_balanced:
  assumes ids: "unique qu_id (quests w)" and mem: "q0 \<in> set (quests w)" and gain: "0 \<le> qu_xpReward q0"
  shows "balanced v (if v = u \<and> qu_repeatable q0 then qu_xpReward q0 else 0) w (snd (advanceQuest u k now q0 ds w))"
    (is "balanced v ?extra w ?w")
proof (cases "recorded u (qu_id q0) (questProgresses w) \<and> \<not> qu_repeatable q0")
  case True
  then show ?thesis using gain by (simp add: advanceQuest_finished balanced_refl)
next
  case False
  then have fresh: "qu_repeatable q0 \<or> \<not> recorded u (qu_id q0) (questProgresses w)" by blast
  show ?thesis
    using advanceQuest_shape [of u k now q0 ds w]
  proof (elim disjE exE)
    assume "advanceQuest u k now q0 ds w = (Inr ds, w)"
    then show ?thesis using gain by (simp add: balanced_refl)
  next
    fix p t c
    assume shape: "advanceQuest u k now q0 ds w =
        and_then (saveProgress u q0 p t c now w) (\<lambda>_ w1. if \<not> c then ret ds w1
          else and_then (completeQuest u q0 now w1) (\<lambda>d w2. ret (ds @ [d]) w2))"
    show ?thesis
    proof (cases "\<exists>w1. saveProgress u q0 p t c now w = (Inr (), w1)")
      case False
      then have "saveProgress u q0 p t c now w = (Inl ForeignKeyViolation, w)"
        by (auto simp: saveProgress_cases split: if_splits)
      then show ?thesis using gain by (simp add: shape balanced_refl)
    next
      case True
      then obtain w1 where save: "saveProgress u q0 p t c now w = (Inr (), w1)" by blast
      have final: "?w = (if c then snd (completeQuest u q0 now w1) else w1)" by (simp add: shape save)
      have w1: "quests w1 = quests w" "users w1 = users w"
        and rec: "\<And>v r. recorded v r (questProgresses w1) = (if v = u \<and> r = qu_id q0 then c else recorded v r (questProgresses w))"
        using saveProgress_recorded [OF save] saveProgress_users [of u q0 p t c now w] by (simp_all add: save)
      have view: "quests ?w = quests w" "questProgresses ?w = questProgresses w1"
        using completeQuest_told [of u q0 w1 now] by (auto simp: told_def gameView_def final w1)
      have paid: "experience v ?w \<le> experience v w + (if v = u \<and> c then qu_xpReward q0 else 0)"
      proof -
        have "experience v (snd (completeQuest u q0 now w1)) = experience v (snd (awardXp u (qu_xpReward q0) w1))"
          by (rule experience_cong) (rule completeQuest_users)
        then show ?thesis
          using experience_award [OF gain, of v u w1] experience_cong [OF w1(2), of v] by (cases "v = u") (auto simp: final)
      qed
      have "worth (oneShotsDone v (quests w) (questProgresses w1)) = worth (oneShotsDone v (quests w) (questProgresses w)) +
          (if v = u \<and> c \<and> \<not> qu_repeatable q0 then qu_xpReward q0 else 0)"
      proof (cases "v = u \<and> \<not> qu_repeatable q0")
        case True
        then have "\<not> qu_repeatable q0" "\<not> recorded v (qu_id q0) (questProgresses w)" using fresh by auto
        from worth_record [OF ids mem this, of "questProgresses w1" c] show ?thesis using True by (simp add: rec)
      next
        case other: False
        have "q \<noteq> q0 \<or> v \<noteq> u" if "\<not> qu_repeatable q" for q using other that by auto
        moreover have "qu_id q \<noteq> qu_id q0" if "q \<in> set (quests w)" "q \<noteq> q0" for q using unique_row [OF ids that(1) mem] that(2) by blast
        ultimately have "worth (oneShotsDone v (quests w) (questProgresses w1)) = worth (oneShotsDone v (quests w) (questProgresses w))"
          by (intro worth_cong) (use rec in \<open>metis (full_types)\<close>)
        then show ?thesis using other by auto
      qed
      then show ?thesis using paid gain unfolding balanced_def view by (auto split: if_splits)
    qed
  qed
qed

definition repeatPay :: "uid \<Rightarrow> uid \<Rightarrow> quest list \<Rightarrow> int" where
  "repeatPay v u qs = (if v = u then worth (filter qu_repeatable qs) else 0)"

lemma repeatPay_Cons: "repeatPay v u (q # qs) = (if v = u \<and> qu_repeatable q then qu_xpReward q else 0) + repeatPay v u qs"
  by (simp add: repeatPay_def worth_def)

lemma repeatPay_nonneg:
  assumes "\<forall>q \<in> set qs. 0 \<le> qu_xpReward q" shows "0 \<le> repeatPay v u qs"
  unfolding repeatPay_def worth_def using assms by (auto intro!: sum_list_nonneg)

lemma loop_balanced:
  "unique qu_id (quests w) \<Longrightarrow> \<forall>q \<in> set (quests w). 0 \<le> qu_xpReward q \<Longrightarrow> set qs \<subseteq> set (quests w) \<Longrightarrow>
     balanced v (repeatPay v u qs) w (snd (for_each (advanceQuest u k now) qs ds w))"
proof (induction qs arbitrary: ds w)
  case Nil
  then show ?case by (simp add: ret_def balanced_refl repeatPay_def worth_def)
next
  case (Cons q qs)
  obtain r w1 where one: "advanceQuest u k now q ds w = (r, w1)" by force
  have step: "balanced v (if v = u \<and> qu_repeatable q then qu_xpReward q else 0) w w1"
    using advanceQuest_balanced [of w q v u k now ds] Cons.prems one by auto
  have rest: "0 \<le> repeatPay v u qs" using Cons.prems(2,3) by (intro repeatPay_nonneg) auto
  show ?case
  proof (cases r)
    case (Inl e)
    from balanced_trans [OF step balanced_refl [OF rest]] show ?thesis by (simp add: one Inl repeatPay_Cons)
  next
    case (Inr ds1)
    have same: "quests w1 = quests w" using step by (simp add: balanced_def)
    have "balanced v (repeatPay v u qs) w1 (snd (for_each (advanceQuest u k now) qs ds1 w1))"
      by (rule Cons.IH) (use Cons.prems same in auto)
    from balanced_trans [OF step this] show ?thesis by (simp add: one Inr repeatPay_Cons)
  qed
qed

text \<open>What a step may pay for repeatable quests: the active ones of the trigger, once each.\<close>

fun repeatable :: "uid \<Rightarrow> quest list \<Rightarrow> gameOp \<Rightarrow> int" where
  "repeatable v qs (OnTrigger p now) = repeatPay v (tp_userId p) (filter (\<lambda>q. qu_trigger q = tp_trigger p \<and> qu_isActive q) qs)"
| "repeatable v qs x = 0"

lemma gameStep_balanced:
  assumes "unique qu_id (quests w)" and "\<forall>q \<in> set (quests w). 0 \<le> qu_xpReward q"
  shows "balanced v (repeatable v (quests w) x) w (gameStep x w)"
proof (cases x)
  case (OnTrigger p now)
  let ?qs = "filter (\<lambda>q. qu_trigger q = tp_trigger p \<and> qu_isActive q) (quests w)"
  have "0 \<le> repeatPay v (tp_userId p) ?qs" using assms(2) by (intro repeatPay_nonneg) simp
  from balanced_refl [OF this, of v w] show ?thesis using loop_balanced [OF assms, of ?qs]
    by (simp add: OnTrigger onTrigger_def triggerQuest_def)
next
  case (ToggleShowcase u b s)
  then show ?thesis using toggleShowcase_writes [of u b s w] by (auto simp: balanced_def experience_def xpOf_def findUser_def)
next
  case RegisterGameGateway
  then show ?thesis by (simp add: registerGameGateway_def balanced_def experience_def xpOf_def findUser_def)
qed

text \<open>
  A repeatable quest whose target is reached keeps paying on every further trigger: its
  progress is reset only when \<open>resetAt\<close> has passed, which with NONE is never.
\<close>

lemma repeatable_pays_every_time:
  "xpOf ''a'' (fold gameStep [samplePost ''a'' 1, samplePost ''a'' 2, samplePost ''a'' 3, samplePost ''a'' 4]
     (sampleGame [sampleQuest ''q'' 2 True])) = Some 180"
  by code_simp

end
