(* ===== verification/Auth.thy ===== *)
theory Auth
  imports Core_Db Text_Search
begin

text \<open>
  \<open>auth.service.ts\<close> and \<open>token.service.ts\<close>: registration, login, refresh with rotation, logout,
  change and reset of the password, change of the e-mail address, one-time codes by SMS, and
  sign-in with Apple and Google. Cryptography and the identity providers are the fields of
  \<open>auth_env\<close>, together with the configuration; random bytes come from a supply in the state;
  mails and text messages are recorded in \<open>outbox\<close>.
\<close>

section \<open>What the service is given\<close>

record refreshPayload =
  rf_sub :: uid
  rf_jti :: uid
  rf_typ :: string

text \<open>
  \<open>lower\<close> is the case folding of the database, \<open>bcryptHash salt\<close> and \<open>bcryptCompare\<close> are bcrypt,
  \<open>sha256\<close> the hex digest, \<open>sign...\<close> and \<open>verifyRefreshJwt\<close> the JWT library with the two secrets,
  \<open>verifyApple\<close> and \<open>verifyGoogle\<close> the functions of \<open>oauth-token.verify.ts\<close>, which answer \<open>None\<close>
  where they throw.
\<close>

record auth_env =
  lower :: "string \<Rightarrow> string"
  bcryptHash :: "nat \<Rightarrow> string \<Rightarrow> string"
  bcryptCompare :: "string \<Rightarrow> string \<Rightarrow> bool"
  sha256 :: "string \<Rightarrow> string"
  signAccess :: "uid \<Rightarrow> string \<Rightarrow> userRole \<Rightarrow> time \<Rightarrow> string"
  signRefresh :: "uid \<Rightarrow> uid \<Rightarrow> time \<Rightarrow> string"
  verifyRefreshJwt :: "time \<Rightarrow> string \<Rightarrow> refreshPayload option"
  verifyApple :: "string \<Rightarrow> string \<Rightarrow> (string \<times> string option) option"
  verifyGoogle :: "string \<Rightarrow> string list \<Rightarrow> (string \<times> string \<times> string option) option"
  OTP_AUTH_ENABLED :: bool
  APPLE_CLIENT_ID :: "string option"
  GOOGLE_CLIENT_IDS :: "string option"

section \<open>State\<close>

record accountDeletion =
  de_userId :: uid
  de_requestedAt :: time
  de_scheduledFor :: time
  de_reason :: "string option"
  de_cancelledAt :: "time option"
  de_executedAt :: "time option"
  de_jobId :: "string option"

record resetToken =
  rt_id :: uid
  rt_userId :: uid
  rt_tokenHash :: string
  rt_expiresAt :: time
  rt_usedAt :: "time option"

record emailToken =
  et_id :: uid
  et_userId :: uid
  et_newEmail :: string
  et_tokenHash :: string
  et_expiresAt :: time
  et_usedAt :: "time option"

record otpCode =
  ot_id :: uid
  ot_phone :: string
  ot_codeHash :: string
  ot_expiresAt :: time
  ot_attemptCount :: nat
  ot_usedAt :: "time option"
  ot_createdAt :: time

datatype outMessage =
    ResetMail uid string string
  | EmailChangeMail uid string string string
  | OtpSms string string

record auth_db = core_db +
  userSettings :: "(uid \<times> string) list"
  accountDeletions :: "accountDeletion list"
  resetTokens :: "resetToken list"
  emailTokens :: "emailToken list"
  otpCodes :: "otpCode list"
  outbox :: "outMessage list"
  randomHex :: "nat \<Rightarrow> nat \<Rightarrow> string"
  randomInt :: "nat \<Rightarrow> int"
  rndNext :: nat

section \<open>Constants\<close>

definition ACCESS_TTL_SECONDS :: int where "ACCESS_TTL_SECONDS = 15 * 60"
definition REFRESH_TTL_SECONDS :: int where "REFRESH_TTL_SECONDS = 7 * 24 * 60 * 60"
definition PASSWORD_RESET_TTL_MS :: int where "PASSWORD_RESET_TTL_MS = 30 * 60 * 1000"
definition EMAIL_CHANGE_TTL_MS :: int where "EMAIL_CHANGE_TTL_MS = 48 * 60 * 60 * 1000"
definition OTP_TTL_MS :: int where "OTP_TTL_MS = 5 * 60 * 1000"
definition OTP_COOLDOWN_MS :: int where "OTP_COOLDOWN_MS = 60 * 1000"
definition OTP_MAX_ATTEMPTS :: nat where "OTP_MAX_ATTEMPTS = 5"
definition OAUTH_NOT_CONFIGURED :: nat where "OAUTH_NOT_CONFIGURED = 5030"

section \<open>Strings and randomness\<close>

definition normalise :: "string \<Rightarrow> string" where
  "normalise s = toLowerCase (trim s)"

definition takeRnd :: "'a auth_db_scheme \<Rightarrow> 'a auth_db_scheme" where
  "takeRnd w = w\<lparr>rndNext := Suc (rndNext w)\<rparr>"

definition randomBytesHex :: "nat \<Rightarrow> 'a auth_db_scheme \<Rightarrow> string" where
  "randomBytesHex n w = randomHex w n (rndNext w)"

fun padDigits :: "nat \<Rightarrow> int \<Rightarrow> string" where
  "padDigits 0 n = []"
| "padDigits (Suc k) n = padDigits k (n div 10) @ [char_of (48 + n mod 10)]"

text \<open>\<open>String(randomInt(0, 1_000_000)).padStart(6, '0')\<close>\<close>

definition randomOtpCode :: "'a auth_db_scheme \<Rightarrow> string" where
  "randomOtpCode w = padDigits 6 (randomInt w (rndNext w) mod 1000000)"

definition sendOut :: "outMessage \<Rightarrow> 'a auth_db_scheme \<Rightarrow> 'a auth_db_scheme" where
  "sendOut m w = w\<lparr>outbox := outbox w @ [m]\<rparr>"

section \<open>Token service\<close>

record tokenPair =
  accessToken :: string
  refreshToken :: string
  accessTokenExpiresIn :: int
  refreshTokenExpiresIn :: int

definition issueTokenPair ::
  "auth_env \<Rightarrow> uid \<Rightarrow> string \<Rightarrow> userRole \<Rightarrow> time \<Rightarrow> 'a auth_db_scheme \<Rightarrow> tokenPair \<times> 'a auth_db_scheme" where
  "issueTokenPair env userId username role now w =
     (let jti = newUuid w; w1 = takeUuid w
      in (\<lparr>accessToken = signAccess env userId username role now, refreshToken = signRefresh env userId jti now,
           accessTokenExpiresIn = ACCESS_TTL_SECONDS, refreshTokenExpiresIn = REFRESH_TTL_SECONDS\<rparr>,
          w1\<lparr>rd_keys := setRefreshToken userId jti REFRESH_TTL_SECONDS now (rd_keys w1)\<rparr>))"

definition verifyRefresh :: "auth_env \<Rightarrow> string \<Rightarrow> time \<Rightarrow> refreshPayload option" where
  "verifyRefresh env token now = verifyRefreshJwt env now token"

definition revokeRefresh :: "uid \<Rightarrow> uid \<Rightarrow> 'a auth_db_scheme \<Rightarrow> 'a auth_db_scheme" where
  "revokeRefresh userId jti w = w\<lparr>rd_keys := revokeRefreshToken userId jti (rd_keys w)\<rparr>"

definition revokeAllForUser :: "uid \<Rightarrow> time \<Rightarrow> 'a auth_db_scheme \<Rightarrow> nat \<times> 'a auth_db_scheme" where
  "revokeAllForUser userId now w =
     (let (n, s) = revokeAllUserRefreshTokens userId now (rd_keys w) in (n, w\<lparr>rd_keys := s\<rparr>))"

definition isRefreshActive :: "uid \<Rightarrow> uid \<Rightarrow> time \<Rightarrow> 'a auth_db_scheme \<Rightarrow> bool" where
  "isRefreshActive userId jti now w = isRefreshTokenValid userId jti now (rd_keys w)"

section \<open>Accounts\<close>

text \<open>\<open>{ equals: x, mode: 'insensitive' }\<close> on a column and on a nullable column.\<close>

definition sameText :: "auth_env \<Rightarrow> string \<Rightarrow> string \<Rightarrow> bool" where
  "sameText env x y \<longleftrightarrow> lower env x = lower env y"

definition sameTextOpt :: "auth_env \<Rightarrow> string \<Rightarrow> string option \<Rightarrow> bool" where
  "sameTextOpt env x y \<longleftrightarrow> (case y of None \<Rightarrow> False | Some s \<Rightarrow> sameText env x s)"

definition sameColumn :: "'a option \<Rightarrow> 'a option \<Rightarrow> bool" where
  "sameColumn x y \<longleftrightarrow> x \<noteq> None \<and> x = y"

text \<open>A new row collides with an old one on a unique column of \<open>User\<close>.\<close>

definition userCollides :: "user \<Rightarrow> user \<Rightarrow> bool" where
  "userCollides r s \<longleftrightarrow> u_id r = u_id s \<or> u_username r = u_username s \<or> u_email r = u_email s \<or>
     sameColumn (u_phoneNumber r) (u_phoneNumber s) \<or> sameColumn (u_appleSub r) (u_appleSub s) \<or>
     sameColumn (u_googleSub r) (u_googleSub s)"

record newUser =
  nu_email :: string
  nu_username :: string
  nu_passwordHash :: "string option"
  nu_appleSub :: "string option"
  nu_googleSub :: "string option"
  nu_name :: "string option"
  nu_preferredLanguage :: string

definition newUserRow :: "uid \<Rightarrow> newUser \<Rightarrow> time \<Rightarrow> user" where
  "newUserRow i d now =
     \<lparr>u_id = i, u_username = nu_username d, u_email = nu_email d, u_pendingEmail = None, u_phoneNumber = None,
      u_phoneVerifiedAt = None, u_passwordHash = nu_passwordHash d, u_appleSub = nu_appleSub d,
      u_googleSub = nu_googleSub d, u_name = nu_name d, u_bio = None, u_avatarUrl = None, u_coverImageUrl = None,
      u_city = None, u_country = None, u_ridingStyle = [], u_isPrivate = False, u_locationSharing = LS_OFF,
      u_isVerified = False, u_isBanned = False, u_shadowBanned = False, u_role = USER, u_followersCount = 0, u_followingCount = 0, u_postsCount = 0,
      u_xp = 0, u_level = 1, u_preferredLanguage = nu_preferredLanguage d, u_eulaAcceptedAt = Some now,
      u_lastSeenAt = None, u_usernameChangedAt = None, u_createdAt = now, u_deletedAt = None\<rparr>"

text \<open>\<open>user.create\<close> with the nested \<open>settings\<close> row; P2002 on a collision.\<close>

definition createUser ::
  "newUser \<Rightarrow> time \<Rightarrow> 'a auth_db_scheme \<Rightarrow> (user, 'a auth_db_scheme) outcome" where
  "createUser d now w =
     (let r = newUserRow (newUuid w) d now; w1 = takeUuid w
      in if \<exists>s \<in> set (users w1). userCollides r s then raise UniqueViolation w1
         else ret r (w1\<lparr>users := users w1 @ [r],
                        userSettings := userSettings w1 @ [(u_id r, nu_preferredLanguage d)]\<rparr>))"

text \<open>The check that an account being deleted may still come back.\<close>

definition canRestore :: "uid \<Rightarrow> time \<Rightarrow> 'a auth_db_scheme \<Rightarrow> bool" where
  "canRestore userId now w =
     (case findUnique de_userId userId (accountDeletions w) of
        None \<Rightarrow> False
      | Some d \<Rightarrow> de_executedAt d = None \<and> de_cancelledAt d = None \<and> now < de_scheduledFor d)"

record session =
  se_userId :: uid
  se_tokens :: tokenPair

record registerDto =
  rg_email :: string
  rg_username :: string
  rg_password :: string
  rg_name :: "string option"
  rg_preferredLanguage :: string

definition register ::
  "auth_env \<Rightarrow> registerDto \<Rightarrow> time \<Rightarrow> 'a auth_db_scheme \<Rightarrow> (session, 'a auth_db_scheme) outcome" where
  "register env dto now w =
     (let usernameNorm = normalise (rg_username dto); emailNorm = normalise (rg_email dto)
      in case find (\<lambda>u. sameText env emailNorm (u_email u) \<or> sameTextOpt env emailNorm (u_pendingEmail u) \<or>
                        sameText env usernameNorm (u_username u)) (users w) of
           Some _ \<Rightarrow> throwHttp Conflict ''user_already_exists'' USER_EXISTS w
         | None \<Rightarrow>
             (let passwordHash = bcryptHash env (rndNext w) (rg_password dto); w1 = takeRnd w
              in and_then (createUser \<lparr>nu_email = emailNorm, nu_username = usernameNorm,
                     nu_passwordHash = Some passwordHash, nu_appleSub = None, nu_googleSub = None,
                     nu_name = rg_name dto, nu_preferredLanguage = rg_preferredLanguage dto\<rparr> now w1) (\<lambda>u w2.
                   let (t, w3) = issueTokenPair env (u_id u) (u_username u) (u_role u) now w2
                   in ret \<lparr>se_userId = u_id u, se_tokens = t\<rparr> w3)))"

text \<open>The last steps of every login: \<open>lastSeenAt\<close>, the login event, the tokens.\<close>

definition openSession ::
  "auth_env \<Rightarrow> user \<Rightarrow> time \<Rightarrow> 'a auth_db_scheme \<Rightarrow> (session, 'a auth_db_scheme) outcome" where
  "openSession env u now w =
     and_then (updateUser (u_id u) (\<lambda>r. r\<lparr>u_lastSeenAt := Some now\<rparr>) w) (\<lambda>_ w1.
       let w2 = emitEvent (AuthLoginSuccess (u_id u) now) w1;
           (t, w3) = issueTokenPair env (u_id u) (u_username u) (u_role u) now w2
       in ret \<lparr>se_userId = u_id u, se_tokens = t\<rparr> w3)"

definition login ::
  "auth_env \<Rightarrow> string \<Rightarrow> string \<Rightarrow> time \<Rightarrow> 'a auth_db_scheme \<Rightarrow> (session, 'a auth_db_scheme) outcome" where
  "login env ident password now w =
     (let identifier = normalise ident
      in case find (\<lambda>u. sameText env identifier (u_email u) \<or> sameText env identifier (u_username u)) (users w) of
           None \<Rightarrow> throwHttp Unauthorized ''invalid_credentials'' INVALID_CREDENTIALS w
         | Some u \<Rightarrow>
             (case u_passwordHash u of
                None \<Rightarrow> throwHttp Unauthorized ''invalid_credentials'' INVALID_CREDENTIALS w
              | Some hash \<Rightarrow>
                  if hash = [] then throwHttp Unauthorized ''invalid_credentials'' INVALID_CREDENTIALS w
                  else if u_isBanned u then throwHttp Unauthorized ''account_banned'' BLOCKED w
                  else if u_deletedAt u \<noteq> None \<and> \<not> canRestore (u_id u) now w
                  then throwHttp Unauthorized ''account_deleted'' UNAUTHORIZED w
                  else if \<not> bcryptCompare env password hash
                  then throwHttp Unauthorized ''invalid_credentials'' INVALID_CREDENTIALS w
                  else openSession env u now w))"

definition refresh ::
  "auth_env \<Rightarrow> string \<Rightarrow> time \<Rightarrow> 'a auth_db_scheme \<Rightarrow> (tokenPair, 'a auth_db_scheme) outcome" where
  "refresh env token now w =
     (case verifyRefresh env token now of
        None \<Rightarrow> throwHttp Unauthorized ''refresh_token_invalid'' TOKEN_INVALID w
      | Some p \<Rightarrow>
          if rf_typ p \<noteq> ''refresh'' then throwHttp Unauthorized ''wrong_token_type'' TOKEN_INVALID w
          else if \<not> isRefreshActive (rf_sub p) (rf_jti p) now w
          then throwHttp Unauthorized ''refresh_token_revoked'' TOKEN_INVALID w
          else let w1 = revokeRefresh (rf_sub p) (rf_jti p) w
               in case findUser (rf_sub p) w1 of
                    None \<Rightarrow> throwHttp Unauthorized ''user_inactive'' UNAUTHORIZED w1
                  | Some u \<Rightarrow>
                      if u_isBanned u \<or> u_deletedAt u \<noteq> None
                      then throwHttp Unauthorized ''user_inactive'' UNAUTHORIZED w1
                      else let (t, w2) = issueTokenPair env (u_id u) (u_username u) (u_role u) now w1 in ret t w2)"

definition logout ::
  "auth_env \<Rightarrow> uid \<Rightarrow> string option \<Rightarrow> bool \<Rightarrow> time \<Rightarrow> 'a auth_db_scheme \<Rightarrow> 'a auth_db_scheme" where
  "logout env userId token allDevices now w =
     (if allDevices then snd (revokeAllForUser userId now w)
      else case token of
             None \<Rightarrow> w
           | Some t \<Rightarrow> (case verifyRefresh env t now of
                          None \<Rightarrow> w
                        | Some p \<Rightarrow> revokeRefresh (rf_sub p) (rf_jti p) w))"

section \<open>Passwords\<close>

definition checkPassword ::
  "auth_env \<Rightarrow> uid \<Rightarrow> string \<Rightarrow> 'a auth_db_scheme \<Rightarrow> (user, 'a auth_db_scheme) outcome" where
  "checkPassword env userId password w =
     (case findUser userId w of
        None \<Rightarrow> throwHttp Unauthorized ''invalid_credentials'' INVALID_CREDENTIALS w
      | Some u \<Rightarrow>
          (case u_passwordHash u of
             None \<Rightarrow> throwHttp Unauthorized ''invalid_credentials'' INVALID_CREDENTIALS w
           | Some hash \<Rightarrow>
               if hash \<noteq> [] \<and> bcryptCompare env password hash then ret u w
               else throwHttp Unauthorized ''invalid_credentials'' INVALID_CREDENTIALS w))"

definition changePassword ::
  "auth_env \<Rightarrow> uid \<Rightarrow> string \<Rightarrow> string \<Rightarrow> time \<Rightarrow> 'a auth_db_scheme \<Rightarrow> (nat, 'a auth_db_scheme) outcome" where
  "changePassword env userId current new now w =
     and_then (checkPassword env userId current w) (\<lambda>_ w1.
       let newHash = bcryptHash env (rndNext w1) new; w2 = takeRnd w1
       in and_then (updateUser userId (\<lambda>r. r\<lparr>u_passwordHash := Some newHash\<rparr>) w2) (\<lambda>_ w3.
            let (n, w4) = revokeAllForUser userId now w3 in ret n w4))"

definition forgotPassword ::
  "auth_env \<Rightarrow> string \<Rightarrow> time \<Rightarrow> 'a auth_db_scheme \<Rightarrow> (unit, 'a auth_db_scheme) outcome" where
  "forgotPassword env mail now w =
     (let email = normalise mail
      in case find (\<lambda>u. sameText env email (u_email u)) (users w) of
           None \<Rightarrow> ret () w
         | Some u \<Rightarrow>
             if u_passwordHash u = None \<or> u_passwordHash u = Some [] \<or> u_isBanned u \<or> u_deletedAt u \<noteq> None \<and> \<not> canRestore (u_id u) now w
             then ret () w
             else let w1 = w\<lparr>resetTokens := deleteMany (\<lambda>r. rt_userId r = u_id u \<and> rt_usedAt r = None) (resetTokens w)\<rparr>;
                      plainToken = randomBytesHex 32 w1;
                      w2 = takeRnd w1;
                      row = \<lparr>rt_id = newUuid w2, rt_userId = u_id u, rt_tokenHash = sha256 env plainToken,
                             rt_expiresAt = now + PASSWORD_RESET_TTL_MS, rt_usedAt = None\<rparr>;
                      w3 = takeUuid w2
                  in and_then (write_or UniqueViolation (createRow rt_tokenHash row (resetTokens w3))
                        (\<lambda>t. w3\<lparr>resetTokens := t\<rparr>) w3) (\<lambda>_ w4.
                       ret () (sendOut (ResetMail (u_id u) (u_email u) plainToken) w4)))"

definition spendResetToken ::
  "auth_env \<Rightarrow> resetToken \<Rightarrow> string \<Rightarrow> time \<Rightarrow> 'a auth_db_scheme \<Rightarrow> (unit, 'a auth_db_scheme) outcome" where
  "spendResetToken env rec newHash now w = transaction (\<lambda>tx.
     and_then (write_or RecordNotFound
         (updateRow rt_id (rt_id rec) (\<lambda>r. r\<lparr>rt_usedAt := Some now\<rparr>) (resetTokens tx))
         (\<lambda>t. tx\<lparr>resetTokens := t\<rparr>) tx) (\<lambda>_ tx1.
       updateUser (rt_userId rec) (\<lambda>r. r\<lparr>u_passwordHash := Some newHash\<rparr>) tx1)) w"

definition resetPassword ::
  "auth_env \<Rightarrow> string \<Rightarrow> string \<Rightarrow> time \<Rightarrow> 'a auth_db_scheme \<Rightarrow> (nat, 'a auth_db_scheme) outcome" where
  "resetPassword env token new now w =
     (let tokenHash = sha256 env token
      in case find (\<lambda>r. rt_tokenHash r = tokenHash \<and> rt_usedAt r = None \<and> now < rt_expiresAt r) (resetTokens w) of
           None \<Rightarrow> throwHttp BadRequest ''reset_token_invalid'' VALIDATION_FAILED w
         | Some rec \<Rightarrow>
             (case findUser (rt_userId rec) w of
                None \<Rightarrow> raise RecordNotFound w
              | Some u \<Rightarrow>
                  if u_isBanned u \<or> u_deletedAt u \<noteq> None
                  then throwHttp BadRequest ''reset_token_invalid'' VALIDATION_FAILED w
                  else let newHash = bcryptHash env (rndNext w) new; w1 = takeRnd w
                       in and_then (spendResetToken env rec newHash now w1) (\<lambda>_ w2.
                            let (n, w3) = revokeAllForUser (rt_userId rec) now w2 in ret n w3)))"

section \<open>Change of the e-mail address\<close>

definition openEmailChange ::
  "auth_env \<Rightarrow> user \<Rightarrow> string \<Rightarrow> time \<Rightarrow> 'a auth_db_scheme \<Rightarrow> (string, 'a auth_db_scheme) outcome" where
  "openEmailChange env u newNorm now w =
     (let w1 = w\<lparr>emailTokens := deleteMany (\<lambda>r. et_userId r = u_id u \<and> et_usedAt r = None) (emailTokens w)\<rparr>;
          plainToken = randomBytesHex 32 w1;
          w2 = takeRnd w1;
          row = \<lparr>et_id = newUuid w2, et_userId = u_id u, et_newEmail = newNorm, et_tokenHash = sha256 env plainToken,
                 et_expiresAt = now + EMAIL_CHANGE_TTL_MS, et_usedAt = None\<rparr>;
          w3 = takeUuid w2
      in and_then (transaction (\<lambda>tx.
           and_then (updateUser (u_id u) (\<lambda>r. r\<lparr>u_pendingEmail := Some newNorm\<rparr>) tx) (\<lambda>_ tx1.
             write_or UniqueViolation (createRow et_tokenHash row (emailTokens tx1))
               (\<lambda>t. tx1\<lparr>emailTokens := t\<rparr>) tx1)) w3) (\<lambda>_ w4.
           ret newNorm (sendOut (EmailChangeMail (u_id u) (u_email u) newNorm plainToken) w4)))"

definition requestEmailChange ::
  "auth_env \<Rightarrow> uid \<Rightarrow> string \<Rightarrow> string \<Rightarrow> time \<Rightarrow> 'a auth_db_scheme \<Rightarrow> (string, 'a auth_db_scheme) outcome" where
  "requestEmailChange env userId newEmail password now w =
     (let newNorm = normalise newEmail
      in and_then (checkPassword env userId password w) (\<lambda>u w0.
         if newNorm = normalise (u_email u) then throwHttp BadRequest ''email_unchanged'' VALIDATION_FAILED w0
         else if find (\<lambda>v. u_id v \<noteq> userId \<and> u_deletedAt v = None \<and>
                   (sameText env newNorm (u_email v) \<or> sameTextOpt env newNorm (u_pendingEmail v))) (users w0) \<noteq> None
         then throwHttp Conflict ''email_taken'' CONFLICT w0
         else openEmailChange env u newNorm now w0))"

text \<open>\<open>user.update({ email: newNorm, pendingEmail: null })\<close>, with the unique index on \<open>email\<close>.\<close>

definition setEmail ::
  "uid \<Rightarrow> string \<Rightarrow> 'a auth_db_scheme \<Rightarrow> (unit, 'a auth_db_scheme) outcome" where
  "setEmail userId email w =
     (if \<exists>v \<in> set (users w). u_id v \<noteq> userId \<and> u_email v = email then raise UniqueViolation w
      else updateUser userId (\<lambda>r. r\<lparr>u_email := email, u_pendingEmail := None\<rparr>) w)"

definition verifyEmailChange ::
  "auth_env \<Rightarrow> string \<Rightarrow> time \<Rightarrow> 'a auth_db_scheme \<Rightarrow> (unit, 'a auth_db_scheme) outcome" where
  "verifyEmailChange env token now w =
     (let tokenHash = sha256 env token
      in case find (\<lambda>r. et_tokenHash r = tokenHash \<and> et_usedAt r = None \<and> now < et_expiresAt r) (emailTokens w) of
           None \<Rightarrow> throwHttp BadRequest ''email_change_token_invalid'' VALIDATION_FAILED w
         | Some rec \<Rightarrow>
             (case findUser (et_userId rec) w of
                None \<Rightarrow> raise RecordNotFound w
              | Some u \<Rightarrow>
                  let pendingNorm = map_option normalise (u_pendingEmail u); newNorm = normalise (et_newEmail rec)
                  in if u_isBanned u \<or> u_deletedAt u \<noteq> None
                     then throwHttp BadRequest ''email_change_token_invalid'' VALIDATION_FAILED w
                     else if pendingNorm = None \<or> pendingNorm = Some [] \<or> pendingNorm \<noteq> Some newNorm
                     then throwHttp BadRequest ''email_change_token_invalid'' VALIDATION_FAILED w
                     else and_then (transaction (\<lambda>tx.
                            and_then (write_or RecordNotFound
                                (updateRow et_id (et_id rec) (\<lambda>r. r\<lparr>et_usedAt := Some now\<rparr>) (emailTokens tx))
                                (\<lambda>t. tx\<lparr>emailTokens := t\<rparr>) tx) (\<lambda>_ tx1.
                              setEmail (et_userId rec) newNorm tx1)) w) (\<lambda>_ w1.
                            ret () (snd (revokeAllForUser (et_userId rec) now w1)))))"

section \<open>One-time codes\<close>

definition assertOtpEnabled :: "auth_env \<Rightarrow> 'a auth_db_scheme \<Rightarrow> (unit, 'a auth_db_scheme) outcome" where
  "assertOtpEnabled env w =
     (if OTP_AUTH_ENABLED env then ret () w else throwHttp Forbidden ''otp_disabled'' FORBIDDEN w)"

definition getCapabilities :: "auth_env \<Rightarrow> bool" where
  "getCapabilities env = OTP_AUTH_ENABLED env"

text \<open>\<open>findFirst({ where, orderBy: { createdAt: 'desc' } })\<close>\<close>

definition latestOtp :: "(otpCode \<Rightarrow> bool) \<Rightarrow> otpCode list \<Rightarrow> otpCode option" where
  "latestOtp P t = (case rev (sort_key ot_createdAt (filter P t)) of [] \<Rightarrow> None | r # _ \<Rightarrow> Some r)"

definition requestOtp ::
  "auth_env \<Rightarrow> string \<Rightarrow> time \<Rightarrow> 'a auth_db_scheme \<Rightarrow> (unit, 'a auth_db_scheme) outcome" where
  "requestOtp env phoneNumber now w =
     and_then (assertOtpEnabled env w) (\<lambda>_ w.
       let phone = trim phoneNumber
       in case find (\<lambda>u. u_phoneNumber u = Some phone \<and> u_deletedAt u = None \<and> \<not> u_isBanned u) (users w) of
            None \<Rightarrow> ret () w
          | Some _ \<Rightarrow>
              if (case latestOtp (\<lambda>r. ot_phone r = phone \<and> ot_usedAt r = None) (otpCodes w) of
                    None \<Rightarrow> False | Some r \<Rightarrow> now - ot_createdAt r < OTP_COOLDOWN_MS)
              then throwHttp TooManyRequests ''otp_rate_limited'' RATE_LIMITED w
              else let w1 = w\<lparr>otpCodes := updateMany (\<lambda>r. ot_phone r = phone \<and> ot_usedAt r = None)
                                (\<lambda>r. r\<lparr>ot_usedAt := Some now\<rparr>) (otpCodes w)\<rparr>;
                       plain = randomOtpCode w1;
                       w2 = takeRnd w1;
                       row = \<lparr>ot_id = newUuid w2, ot_phone = phone, ot_codeHash = bcryptHash env (rndNext w2) plain,
                              ot_expiresAt = now + OTP_TTL_MS, ot_attemptCount = 0, ot_usedAt = None,
                              ot_createdAt = now\<rparr>;
                       w3 = takeUuid (takeRnd w2)
                   in and_then (write_or UniqueViolation (createRow ot_id row (otpCodes w3))
                         (\<lambda>t. w3\<lparr>otpCodes := t\<rparr>) w3) (\<lambda>_ w4. ret () (sendOut (OtpSms phone plain) w4)))"

definition updateOtp ::
  "uid \<Rightarrow> (otpCode \<Rightarrow> otpCode) \<Rightarrow> 'a auth_db_scheme \<Rightarrow> (unit, 'a auth_db_scheme) outcome" where
  "updateOtp i f w = write_or RecordNotFound (updateRow ot_id i f (otpCodes w)) (\<lambda>t. w\<lparr>otpCodes := t\<rparr>) w"

definition verifyOtp ::
  "auth_env \<Rightarrow> string \<Rightarrow> string \<Rightarrow> time \<Rightarrow> 'a auth_db_scheme \<Rightarrow> (bool, 'a auth_db_scheme) outcome" where
  "verifyOtp env phoneNumber code0 now w =
     and_then (assertOtpEnabled env w) (\<lambda>_ w.
       let phone = trim phoneNumber; code = trim code0
       in case latestOtp (\<lambda>r. ot_phone r = phone \<and> ot_usedAt r = None \<and> now < ot_expiresAt r) (otpCodes w) of
            None \<Rightarrow> throwHttp BadRequest ''otp_invalid_or_expired'' VALIDATION_FAILED w
          | Some row \<Rightarrow>
              if OTP_MAX_ATTEMPTS \<le> ot_attemptCount row then throwHttp Forbidden ''otp_locked'' FORBIDDEN w
              else if \<not> bcryptCompare env code (ot_codeHash row)
              then and_then (updateOtp (ot_id row) (\<lambda>r. r\<lparr>ot_attemptCount := ot_attemptCount r + 1\<rparr>) w) (\<lambda>_ w1.
                     throwHttp Unauthorized ''otp_code_invalid'' INVALID_CREDENTIALS w1)
              else and_then (updateOtp (ot_id row) (\<lambda>r. r\<lparr>ot_usedAt := Some now\<rparr>) w) (\<lambda>_ w1.
                     let hit = (\<lambda>u. u_phoneNumber u = Some phone \<and> u_deletedAt u = None)
                     in ret (0 < countRows hit (users w1))
                          (w1\<lparr>users := updateMany hit (\<lambda>u. u\<lparr>u_phoneVerifiedAt := Some now\<rparr>) (users w1)\<rparr>)))"

section \<open>Sign-in with Apple and Google\<close>

definition assertPasswordlessUserCanLogin ::
  "user \<Rightarrow> time \<Rightarrow> 'a auth_db_scheme \<Rightarrow> (unit, 'a auth_db_scheme) outcome" where
  "assertPasswordlessUserCanLogin u now w =
     (if u_isBanned u then throwHttp Unauthorized ''account_banned'' BLOCKED w
      else if u_deletedAt u = None then ret () w
      else if canRestore (u_id u) now w then ret () w
      else throwHttp Unauthorized ''account_deleted'' UNAUTHORIZED w)"

definition issueSessionAfterLogin ::
  "auth_env \<Rightarrow> user \<Rightarrow> time \<Rightarrow> 'a auth_db_scheme \<Rightarrow> (session, 'a auth_db_scheme) outcome" where
  "issueSessionAfterLogin env u now w =
     and_then (assertPasswordlessUserCanLogin u now w) (\<lambda>_ w1. openSession env u now w1)"

definition usernameChar :: "char \<Rightarrow> char" where
  "usernameChar c = (let n = of_char c :: nat in
     if 97 \<le> n \<and> n \<le> 122 \<or> 48 \<le> n \<and> n \<le> 57 \<or> c = CHR ''_'' \<or> c = CHR ''.'' then c else CHR ''_'')"

fun squeeze :: "string \<Rightarrow> string" where
  "squeeze (a # b # cs) = (if a = CHR ''_'' \<and> b = CHR ''_'' then squeeze (b # cs) else a # squeeze (b # cs))"
| "squeeze cs = cs"

definition dropOne :: "string \<Rightarrow> string" where
  "dropOne s = (case s of [] \<Rightarrow> [] | c # cs \<Rightarrow> if c = CHR ''_'' then cs else s)"

definition usernameCandidateFromEmail :: "string \<Rightarrow> string \<Rightarrow> string" where
  "usernameCandidateFromEmail email suffix =
     (let base = take 20 (rev (dropOne (rev (dropOne (squeeze (map usernameChar
                   (toLowerCase (takeWhile (\<lambda>c. c \<noteq> CHR ''@'') email))))))));
          prefix = take 20 (if 3 \<le> length base then base else ''u_'' @ base)
      in take 30 (prefix @ ''_'' @ suffix))"

text \<open>Up to \<open>attempts\<close> candidate names; only P2002 leads to another attempt.\<close>

fun createOAuthUser ::
  "nat \<Rightarrow> newUser \<Rightarrow> time \<Rightarrow> 'a auth_db_scheme \<Rightarrow> (user, 'a auth_db_scheme) outcome" where
  "createOAuthUser 0 d now w = throwHttp Conflict ''oauth_username_exhausted'' CONFLICT w"
| "createOAuthUser (Suc attempts) d now w =
     (let username = usernameCandidateFromEmail (nu_email d) (randomBytesHex 3 w)
      in case createUser (d\<lparr>nu_username := username\<rparr>) now (takeRnd w) of
           (Inr u, w1) \<Rightarrow> ret u w1
         | (Inl UniqueViolation, w1) \<Rightarrow> createOAuthUser attempts d now w1
         | (Inl e, w1) \<Rightarrow> raise e w1)"

definition assertNoOAuthEmailConflict ::
  "auth_env \<Rightarrow> (user \<Rightarrow> string option) \<Rightarrow> string \<Rightarrow> string \<Rightarrow> 'a auth_db_scheme \<Rightarrow> (unit, 'a auth_db_scheme) outcome"
where
  "assertNoOAuthEmailConflict env column emailNorm sub w =
     (case find (\<lambda>u. sameText env emailNorm (u_email u)) (users w) of
        None \<Rightarrow> ret () w
      | Some u \<Rightarrow> if column u = Some sub then ret () w
                  else throwHttp Conflict ''oauth_email_provider_mismatch'' CONFLICT w)"

definition applePlaceholderEmail :: "auth_env \<Rightarrow> string \<Rightarrow> string" where
  "applePlaceholderEmail env sub = ''apple_'' @ take 32 (sha256 env sub) @ ''@oauth.motogram.local''"

definition displayNameFromAppleFullName :: "(string option \<times> string option) option \<Rightarrow> string option" where
  "displayNameFromAppleFullName fullName =
     (case fullName of
        None \<Rightarrow> None
      | Some (given, family) \<Rightarrow>
          (let parts = filter (\<lambda>x. trim x \<noteq> []) (concat (map (\<lambda>x. case x of None \<Rightarrow> [] | Some s \<Rightarrow> [s]) [given, family]))
           in case parts of
                [] \<Rightarrow> None
              | p # ps \<Rightarrow> (let joined = trim (p @ concat (map (\<lambda>q. '' '' @ q) ps))
                           in if joined = [] then None else Some (take 80 joined))))"

record appleDto =
  ap_identityToken :: string
  ap_fullName :: "(string option \<times> string option) option"
  ap_email :: "string option"
  ap_preferredLanguage :: string

definition appleSignIn ::
  "auth_env \<Rightarrow> appleDto \<Rightarrow> time \<Rightarrow> 'a auth_db_scheme \<Rightarrow> (session, 'a auth_db_scheme) outcome" where
  "appleSignIn env dto now w =
     (case APPLE_CLIENT_ID env of
        None \<Rightarrow> throwHttp ServiceUnavailable ''oauth_apple_not_configured'' OAUTH_NOT_CONFIGURED w
      | Some clientId \<Rightarrow>
          if clientId = [] then throwHttp ServiceUnavailable ''oauth_apple_not_configured'' OAUTH_NOT_CONFIGURED w
          else case verifyApple env (ap_identityToken dto) clientId of
            None \<Rightarrow> throwHttp Unauthorized ''oauth_token_invalid'' TOKEN_INVALID w
          | Some (sub, mail) \<Rightarrow>
              (case find (\<lambda>u. u_appleSub u = Some sub) (users w) of
                 Some u \<Rightarrow> issueSessionAfterLogin env u now w
               | None \<Rightarrow>
                   (let emailNorm = (case ap_email dto of
                          Some e \<Rightarrow> normalise e
                        | None \<Rightarrow> (case mail of Some e \<Rightarrow> normalise e | None \<Rightarrow> applePlaceholderEmail env sub))
                    in and_then (assertNoOAuthEmailConflict env u_appleSub emailNorm sub w) (\<lambda>_ w1.
                       and_then (createOAuthUser 8 \<lparr>nu_email = emailNorm, nu_username = [], nu_passwordHash = None,
                           nu_appleSub = Some sub, nu_googleSub = None,
                           nu_name = displayNameFromAppleFullName (ap_fullName dto),
                           nu_preferredLanguage = ap_preferredLanguage dto\<rparr> now w1) (\<lambda>u w2.
                         issueSessionAfterLogin env u now w2)))))"

definition parseGoogleClientIds :: "auth_env \<Rightarrow> string list" where
  "parseGoogleClientIds env =
     (case GOOGLE_CLIENT_IDS env of
        None \<Rightarrow> []
      | Some raw \<Rightarrow> if trim raw = [] then [] else filter (\<lambda>s. s \<noteq> []) (map trim (splitComma raw)))"

definition googleSignIn ::
  "auth_env \<Rightarrow> string \<Rightarrow> string \<Rightarrow> time \<Rightarrow> 'a auth_db_scheme \<Rightarrow> (session, 'a auth_db_scheme) outcome" where
  "googleSignIn env idToken language now w =
     (let audiences = parseGoogleClientIds env
      in if audiences = [] then throwHttp ServiceUnavailable ''oauth_google_not_configured'' OAUTH_NOT_CONFIGURED w
         else case verifyGoogle env idToken audiences of
           None \<Rightarrow> throwHttp Unauthorized ''oauth_token_invalid'' TOKEN_INVALID w
         | Some (sub, mail, nm) \<Rightarrow>
             (case find (\<lambda>u. u_googleSub u = Some sub) (users w) of
                Some u \<Rightarrow> issueSessionAfterLogin env u now w
              | None \<Rightarrow>
                  (let emailNorm = normalise mail;
                       nameRaw = map_option trim nm
                   in and_then (assertNoOAuthEmailConflict env u_googleSub emailNorm sub w) (\<lambda>_ w1.
                      and_then (createOAuthUser 8 \<lparr>nu_email = emailNorm, nu_username = [], nu_passwordHash = None,
                          nu_appleSub = None, nu_googleSub = Some sub,
                          nu_name = (case nameRaw of None \<Rightarrow> None | Some n \<Rightarrow> if n = [] then None else Some (take 80 n)),
                          nu_preferredLanguage = language\<rparr> now w1) (\<lambda>u w2.
                        issueSessionAfterLogin env u now w2)))))"

section \<open>What the operations do to sessions and reset tokens\<close>

text \<open>A reset token of this hash has been used; the index on the hash keeps it the only one.\<close>

definition spent :: "string \<Rightarrow> resetToken list \<Rightarrow> bool" where
  "spent h rs \<longleftrightarrow> (\<exists>r \<in> set rs. rt_tokenHash r = h \<and> rt_usedAt r \<noteq> None)"

definition keepsSpent :: "resetToken list \<Rightarrow> resetToken list \<Rightarrow> bool" where
  "keepsSpent rs rs' \<longleftrightarrow> (unique rt_tokenHash rs \<longrightarrow> unique rt_tokenHash rs' \<and> (\<forall>h. spent h rs \<longrightarrow> spent h rs'))"

type_synonym authView = "(nat \<Rightarrow> uid) \<times> nat \<times> keyspace \<times> resetToken list"

text \<open>
  The writes of the service, seen from the sessions and the reset tokens: an identifier is
  drawn, a session is opened under a fresh identifier, keys go away, the reset tokens change
  without reviving a used one.
\<close>

inductive authMove :: "authView \<Rightarrow> authView \<Rightarrow> bool" where
  Draw: "authMove (sq, n, k, rs) (sq, Suc n, k, rs)"
| Issue: "authMove (sq, n, k, rs) (sq, Suc n, setRefreshToken u (sq n) ttlSeconds now k, rs)"
| Drop: "(\<And>t key v. kvGet t key k' = Some v \<Longrightarrow> kvGet t key k = Some v) \<Longrightarrow> authMove (sq, n, k, rs) (sq, n, k', rs)"
| Resets: "keepsSpent rs rs' \<Longrightarrow> authMove (sq, n, k, rs) (sq, n, k, rs')"

definition authView :: "'a auth_db_scheme \<Rightarrow> authView" where
  "authView w = (uuidSeq w, uuidNext w, rd_keys w, resetTokens w)"

definition reach :: "authView \<Rightarrow> 'a auth_db_scheme \<Rightarrow> bool" where
  "reach v w \<longleftrightarrow> authMove\<^sup>*\<^sup>* v (authView w)"

lemma reach_start: "reach (authView w) w"
  by (simp add: reach_def)

lemma reach_move: "reach v w \<Longrightarrow> authMove (authView w) (authView w') \<Longrightarrow> reach v w'"
  unfolding reach_def by (rule rtranclp.rtrancl_into_rtrancl)

lemma reach_same: "reach v w \<Longrightarrow> authView w' = authView w \<Longrightarrow> reach v w'"
  by (simp add: reach_def)

lemma reach_quiet [simp]:
  "reach v (w\<lparr>users := us\<rparr>) = reach v w" "reach v (w\<lparr>bus := es\<rparr>) = reach v w"
  "reach v (w\<lparr>emailTokens := ts\<rparr>) = reach v w" "reach v (w\<lparr>otpCodes := os\<rparr>) = reach v w"
  "reach v (w\<lparr>outbox := ms\<rparr>) = reach v w" "reach v (w\<lparr>userSettings := ss\<rparr>) = reach v w"
  "reach v (sendOut m w) = reach v w" "reach v (takeRnd w) = reach v w" "reach v (emitEvent e w) = reach v w"
  by (simp_all add: reach_def authView_def sendOut_def takeRnd_def emitEvent_def)

lemma reach_takeUuid [simp]: "reach v w \<Longrightarrow> reach v (takeUuid w)"
  by (erule reach_move) (simp add: authView_def takeUuid_def authMove.Draw)

lemma reach_issue [simp]: "reach v w \<Longrightarrow> reach v (snd (issueTokenPair env u n r now w))"
  by (erule reach_move) (simp add: authView_def issueTokenPair_def takeUuid_def newUuid_def Let_def authMove.Issue)

lemma reach_revoke [simp]: "reach v w \<Longrightarrow> reach v (revokeRefresh u t w)"
  by (erule reach_move) (auto simp: authView_def revokeRefresh_def revokeRefreshToken_def kvGet_Del
      intro!: authMove.Drop split: if_splits)

lemma reach_revokeAll [simp]: "reach v w \<Longrightarrow> reach v (snd (revokeAllForUser u now w))"
  using revokeAll_kvGet [of _ _ u now "rd_keys w"]
  by (elim reach_move) (auto simp: authView_def revokeAllForUser_def case_prod_beta
      intro!: authMove.Drop split: if_splits)

lemma reach_resets:
  assumes "reach v w" and "keepsSpent (resetTokens w) rs"
  shows "reach v (w\<lparr>resetTokens := rs\<rparr>)"
  using assms by (elim reach_move) (simp add: authView_def authMove.Resets)

lemma keepsSpent_delete: "keepsSpent rs (deleteMany (\<lambda>r. rt_userId r = u \<and> rt_usedAt r = None) rs)"
  by (auto simp: keepsSpent_def spent_def unique_deleteMany)

lemma keepsSpent_create: "createRow rt_tokenHash r rs = Some rs' \<Longrightarrow> keepsSpent rs rs'"
  by (auto simp: keepsSpent_def spent_def createRow_Some)

lemma keepsSpent_use:
  assumes "updateRow rt_id i (\<lambda>r. r\<lparr>rt_usedAt := Some now\<rparr>) rs = Some rs'"
  shows "keepsSpent rs rs'"
proof -
  have rs': "rs' = updateMany (\<lambda>r. rt_id r = i) (\<lambda>r. r\<lparr>rt_usedAt := Some now\<rparr>) rs"
    using assms by (simp add: updateRow_def split: if_splits)
  have "spent h rs'" if old: "spent h rs" for h
  proof -
    obtain r where r: "r \<in> set rs" "rt_tokenHash r = h" "rt_usedAt r \<noteq> None" using old unfolding spent_def by blast
    then have "(if rt_id r = i then r\<lparr>rt_usedAt := Some now\<rparr> else r) \<in> set rs'" by (simp add: rs' set_updateMany)
    then show ?thesis unfolding spent_def using r by (elim bexI [rotated]) auto
  qed
  then show ?thesis by (simp add: keepsSpent_def rs' unique_updateMany)
qed

section \<open>The writes of the service\<close>

text \<open>
  What the operations write, as a contract for invariants: rows of \<open>User\<close> are appended, or
  updated in columns other than the identifier, the username, the role, the bans and the
  deletion; the rest are the tables and keys of the service. A predicate that these writes keep is kept by every
  operation and every history of them.
\<close>

definition keepsAccount :: "(user \<Rightarrow> user) \<Rightarrow> bool" where
  "keepsAccount f \<longleftrightarrow> (\<forall>r. u_id (f r) = u_id r \<and> u_role (f r) = u_role r \<and> u_isBanned (f r) = u_isBanned r \<and>
     u_shadowBanned (f r) = u_shadowBanned r \<and> u_deletedAt (f r) = u_deletedAt r \<and> u_username (f r) = u_username r \<and>
     u_usernameChangedAt (f r) = u_usernameChangedAt r)"

datatype authOp =
    Register registerDto time
  | Login string string time
  | Refresh string time
  | Logout uid "string option" bool time
  | ChangePassword uid string string time
  | ForgotPassword string time
  | ResetPassword string string time
  | RequestEmailChange uid string string time
  | VerifyEmailChange string time
  | RequestOtp string time
  | VerifyOtp string string time
  | AppleSignIn appleDto time
  | GoogleSignIn string string time

fun authStep :: "auth_env \<Rightarrow> authOp \<Rightarrow> 'a auth_db_scheme \<Rightarrow> 'a auth_db_scheme" where
  "authStep env (Register d now) w = snd (register env d now w)"
| "authStep env (Login i p now) w = snd (login env i p now w)"
| "authStep env (Refresh t now) w = snd (refresh env t now w)"
| "authStep env (Logout u t a now) w = logout env u t a now w"
| "authStep env (ChangePassword u c n now) w = snd (changePassword env u c n now w)"
| "authStep env (ForgotPassword m now) w = snd (forgotPassword env m now w)"
| "authStep env (ResetPassword t n now) w = snd (resetPassword env t n now w)"
| "authStep env (RequestEmailChange u m p now) w = snd (requestEmailChange env u m p now w)"
| "authStep env (VerifyEmailChange t now) w = snd (verifyEmailChange env t now w)"
| "authStep env (RequestOtp p now) w = snd (requestOtp env p now w)"
| "authStep env (VerifyOtp p c now) w = snd (verifyOtp env p c now w)"
| "authStep env (AppleSignIn d now) w = snd (appleSignIn env d now w)"
| "authStep env (GoogleSignIn t l now) w = snd (googleSignIn env t l now w)"

lemma keepsAccount_column [simp]:
  "keepsAccount (u_passwordHash_update g)" "keepsAccount (u_pendingEmail_update f)" "keepsAccount (u_lastSeenAt_update h)"
  "keepsAccount (u_phoneVerifiedAt_update h)" "keepsAccount (\<lambda>r. r\<lparr>u_email := m, u_pendingEmail := p\<rparr>)"
  by (simp_all add: keepsAccount_def)

lemma fresh_row: "\<forall>s \<in> set us. \<not> userCollides (newUserRow i d now) s \<Longrightarrow> i \<notin> u_id ` set us"
  by (auto simp: userCollides_def newUserRow_def)

locale auth_writes =
  fixes P :: "'a auth_db_scheme \<Rightarrow> bool"
  assumes P_updates: "P w \<Longrightarrow> keepsAccount f \<Longrightarrow> P (w\<lparr>users := updateMany Q f (users w)\<rparr>)"
    and P_creates: "P w \<Longrightarrow> i \<notin> u_id ` set (users w) \<Longrightarrow> P (w\<lparr>users := users w @ [newUserRow i d now]\<rparr>)"
    and P_bus: "P (w\<lparr>bus := es\<rparr>) = P w"
    and P_emailTokens: "P (w\<lparr>emailTokens := ts\<rparr>) = P w"
    and P_otpCodes: "P (w\<lparr>otpCodes := os\<rparr>) = P w"
    and P_outbox: "P (w\<lparr>outbox := ms\<rparr>) = P w"
    and P_settings: "P (w\<lparr>userSettings := ss\<rparr>) = P w"
    and P_rnd: "P (takeRnd w) = P w"
    and P_uuid: "P w \<Longrightarrow> P (takeUuid w)"
    and P_issue: "P w \<Longrightarrow> P (snd (issueTokenPair env u n r now w))"
    and P_revoke: "P w \<Longrightarrow> P (revokeRefresh u t w)"
    and P_revokeAll: "P w \<Longrightarrow> P (snd (revokeAllForUser u now w))"
    and P_resets: "P w \<Longrightarrow> keepsSpent (resetTokens w) rs \<Longrightarrow> P (w\<lparr>resetTokens := rs\<rparr>)"
begin

lemma P_out: "P (sendOut m w) = P w"
  by (simp add: sendOut_def P_outbox)

lemma P_emit: "P (emitEvent e w) = P w"
  by (simp add: emitEvent_def P_bus)

lemmas P_quiet [simp] =
  P_bus P_emailTokens P_otpCodes P_outbox P_settings P_rnd P_uuid P_issue P_revoke P_revokeAll P_out P_emit

lemma P_write_or:
  "P w \<Longrightarrow> (\<And>t'. t = Some t' \<Longrightarrow> P (put t')) \<Longrightarrow> P (snd (write_or e t put w))"
  by (simp add: write_or_def split: option.split)

lemma P_clear [simp]:
  "P w \<Longrightarrow> P (w\<lparr>resetTokens := deleteMany (\<lambda>r. rt_userId r = u \<and> rt_usedAt r = None) (resetTokens w)\<rparr>)"
  by (rule P_resets) (simp_all add: keepsSpent_delete)

lemma P_addReset [simp]:
  "P w \<Longrightarrow> P (snd (write_or e (createRow rt_tokenHash r (resetTokens w)) (\<lambda>t. w\<lparr>resetTokens := t\<rparr>) w))"
  by (rule P_write_or) (auto intro: P_resets dest: keepsSpent_create)

lemma P_addEmail [simp]:
  "P w \<Longrightarrow> P (snd (write_or e t (\<lambda>t. w\<lparr>emailTokens := t\<rparr>) w))"
  "P w \<Longrightarrow> P (snd (write_or e t' (\<lambda>t. w\<lparr>otpCodes := t\<rparr>) w))"
  by (simp_all add: write_or_def split: option.split)

lemma P_seq: "P (snd r) \<Longrightarrow> (\<And>x w. P w \<Longrightarrow> P (snd (f x w))) \<Longrightarrow> P (snd (and_then r f))"
  by (rule inv_and_then)

lemma P_transaction: "P w \<Longrightarrow> (\<And>w. P w \<Longrightarrow> P (snd (body w))) \<Longrightarrow> P (snd (transaction body w))"
  by (rule inv_transaction)

lemma P_updateUser [simp]: "P w \<Longrightarrow> keepsAccount f \<Longrightarrow> P (snd (updateUser i f w))"
  by (simp add: updateUser_cases P_updates)

lemma P_createUser [simp]: "P w \<Longrightarrow> P (snd (createUser d now w))"
  by (auto simp: createUser_def Let_def intro!: P_creates dest: fresh_row)

lemma P_openSession [simp]: "P w \<Longrightarrow> P (snd (openSession env u now w))"
  unfolding openSession_def by (rule inv_and_then [where P = P]) (simp_all add: Let_def case_prod_beta)

lemma P_checkPassword [simp]: "P w \<Longrightarrow> P (snd (checkPassword env u p w))"
  by (simp add: checkPassword_def split: option.split)

lemma P_register: "P w \<Longrightarrow> P (snd (register env dto now w))"
  unfolding register_def Let_def
  by (auto split: option.split intro!: inv_and_then [where P = P] simp: case_prod_beta)

lemma P_login: "P w \<Longrightarrow> P (snd (login env i p now w))"
  by (simp add: login_def Let_def split: option.split)

lemma P_refresh: "P w \<Longrightarrow> P (snd (refresh env t now w))"
  by (simp add: refresh_def Let_def case_prod_beta split: option.split)

lemma P_logout: "P w \<Longrightarrow> P (logout env u t a now w)"
  by (simp add: logout_def split: option.split)

lemma P_changePassword: "P w \<Longrightarrow> P (snd (changePassword env u c n now w))"
  unfolding changePassword_def Let_def
  by (intro inv_and_then [where P = P]) (simp_all add: case_prod_beta)

lemma P_forgotPassword: "P w \<Longrightarrow> P (snd (forgotPassword env m now w))"
  unfolding forgotPassword_def Let_def
  by (simp split: option.split, intro allI impI P_seq) simp_all

lemma P_spend: "P w \<Longrightarrow> P (snd (spendResetToken env rec h now w))"
  unfolding spendResetToken_def
  by (rule inv_transaction, assumption, rule inv_and_then [where P = P])
     (auto simp: write_or_def split: option.split intro!: P_resets dest: keepsSpent_use)

lemma P_resetPassword: "P w \<Longrightarrow> P (snd (resetPassword env t n now w))"
  unfolding resetPassword_def Let_def
  by (auto split: option.split intro!: inv_and_then [where P = P] P_spend simp: case_prod_beta)

lemma P_openEmailChange [simp]: "P w \<Longrightarrow> P (snd (openEmailChange env u m now w))"
  unfolding openEmailChange_def Let_def by (intro P_seq P_transaction) simp_all

lemma P_requestEmailChange: "P w \<Longrightarrow> P (snd (requestEmailChange env u m p now w))"
  unfolding requestEmailChange_def Let_def by (rule P_seq) simp_all

lemma P_setEmail [simp]: "P w \<Longrightarrow> P (snd (setEmail u m w))"
  by (simp add: setEmail_def)

lemma P_verifyEmailChange: "P w \<Longrightarrow> P (snd (verifyEmailChange env t now w))"
  unfolding verifyEmailChange_def Let_def
  by (simp split: option.split, intro allI impI conjI P_seq P_transaction) simp_all

lemma P_assertOtpEnabled [simp]: "P w \<Longrightarrow> P (snd (assertOtpEnabled env w))"
  by (simp add: assertOtpEnabled_def)

lemma P_requestOtp: "P w \<Longrightarrow> P (snd (requestOtp env p now w))"
  unfolding requestOtp_def Let_def
  by (rule inv_and_then [where P = P])
     (auto split: option.split intro!: inv_and_then [where P = P] simp: write_or_def)

lemma P_updateOtp [simp]: "P w \<Longrightarrow> P (snd (updateOtp i f w))"
  by (simp add: updateOtp_def write_or_def split: option.split)

lemma P_verifyOtp: "P w \<Longrightarrow> P (snd (verifyOtp env p c now w))"
  unfolding verifyOtp_def Let_def
  by (rule inv_and_then [where P = P])
     (auto split: option.split intro!: inv_and_then [where P = P] P_updates)

lemma P_sessionAfterLogin [simp]: "P w \<Longrightarrow> P (snd (issueSessionAfterLogin env u now w))"
  unfolding issueSessionAfterLogin_def
  by (rule inv_and_then [where P = P]) (simp_all add: assertPasswordlessUserCanLogin_def)

lemma P_createOAuthUser [simp]: "P w \<Longrightarrow> P (snd (createOAuthUser k d now w))"
proof (induction k arbitrary: w)
  case 0
  then show ?case by simp
next
  case (Suc k)
  let ?r = "createUser (d\<lparr>nu_username := usernameCandidateFromEmail (nu_email d) (randomBytesHex 3 w)\<rparr>) now (takeRnd w)"
  have "P (snd ?r)" using Suc.prems by simp
  then show ?case using Suc.IH [of "snd ?r"]
    by (auto simp: Let_def split: prod.split sum.split failure.split)
qed

lemma P_noConflict [simp]: "P w \<Longrightarrow> P (snd (assertNoOAuthEmailConflict env c m s w))"
  by (simp add: assertNoOAuthEmailConflict_def split: option.split)

lemma P_appleSignIn: "P w \<Longrightarrow> P (snd (appleSignIn env dto now w))"
  unfolding appleSignIn_def Let_def
  by (auto split: option.split intro!: inv_and_then [where P = P])

lemma P_googleSignIn: "P w \<Longrightarrow> P (snd (googleSignIn env t l now w))"
  unfolding googleSignIn_def Let_def
  by (auto split: option.split intro!: inv_and_then [where P = P])

lemma P_step: "P w \<Longrightarrow> P (authStep env x w)"
  by (cases x) (simp_all add: P_register P_login P_refresh P_logout P_changePassword
      P_forgotPassword P_resetPassword P_requestEmailChange P_verifyEmailChange
      P_requestOtp P_verifyOtp P_appleSignIn P_googleSignIn)

lemma P_run: "P w \<Longrightarrow> P (fold (authStep env) ops w)"
  by (induction ops arbitrary: w) (simp_all add: P_step)

end

interpretation auth_moves: auth_writes "reach v" for v
  by unfold_locales (simp_all add: reach_resets)

section \<open>Sample states\<close>

text \<open>An environment and a state at which the properties below are instantiated.\<close>

definition sampleEnv :: auth_env where
  "sampleEnv =
     \<lparr>lower = (\<lambda>s. s), bcryptHash = (\<lambda>salt p. p), bcryptCompare = (\<lambda>p h. p = h), sha256 = (\<lambda>s. s),
      signAccess = (\<lambda>u n r t. u), signRefresh = (\<lambda>u j t. u @ ''.'' @ j),
      verifyRefreshJwt = (\<lambda>t s. Some \<lparr>rf_sub = takeWhile (\<lambda>c. c \<noteq> CHR ''.'') s,
        rf_jti = tl (dropWhile (\<lambda>c. c \<noteq> CHR ''.'') s), rf_typ = ''refresh''\<rparr>),
      verifyApple = (\<lambda>t c. None), verifyGoogle = (\<lambda>t c. None), OTP_AUTH_ENABLED = True,
      APPLE_CLIENT_ID = None, GOOGLE_CLIENT_IDS = None\<rparr>"

definition sampleAuth :: auth_db where
  "sampleAuth = core_db.extend
     (sampleCore\<lparr>users := [(sampleUser ''a'' False)\<lparr>u_passwordHash := Some ''pw'', u_phoneNumber := Some ''+90''\<rparr>,
        (sampleUser ''b'' False)\<lparr>u_passwordHash := Some ''qw''\<rparr>,
        (sampleUser ''d'' False)\<lparr>u_passwordHash := Some ''rw'', u_deletedAt := Some 0\<rparr>]\<rparr>)
     \<lparr>userSettings = [],
      accountDeletions = [\<lparr>de_userId = ''d'', de_requestedAt = -2591000000, de_scheduledFor = 1000000, de_reason = None,
        de_cancelledAt = None, de_executedAt = None, de_jobId = None\<rparr>],
      resetTokens = [], emailTokens = [], otpCodes = [], outbox = [],
      randomHex = (\<lambda>n i. replicate i (CHR ''x'')), randomInt = (\<lambda>i. 123456), rndNext = 0\<rparr>"

section \<open>A refresh token works once\<close>

text \<open>
  The session \<open>(u, t)\<close> is closed for good: its identifier has been drawn, so no later token
  pair carries it, and no key of the store makes it active. Identifiers are uuids: drawn
  once, without a colon.
\<close>

fun closed :: "uid \<Rightarrow> uid \<Rightarrow> authView \<Rightarrow> bool" where
  "closed u t (sq, n, k, rs) \<longleftrightarrow> inj sq \<and> (\<forall>i. colonFree (sq i)) \<and> t \<in> sq ` {..<n} \<and>
     (\<forall>now. \<not> isRefreshTokenValid u t now k)"

lemma refreshKey_token:
  assumes "colonFree t" and "colonFree t'" and "refreshKey u t = refreshKey v t'"
  shows "t = t'"
proof -
  have "rev t @ CHR '':'' # rev (''refresh_token:'' @ u) = rev t' @ CHR '':'' # rev (''refresh_token:'' @ v)"
    using arg_cong [OF assms(3), of rev] by (simp add: refreshKey_def)
  then have "rev t = rev t'" using assms(1,2) append_colon_inj [of "rev t" "rev t'"] by (simp add: colonFree_def)
  then show ?thesis by simp
qed

lemma closed_move:
  assumes "authMove x y" and "closed u t x"
  shows "closed u t y"
  using assms
proof (induction rule: authMove.induct)
  case (Draw sq n k rs)
  then show ?case by (auto simp: less_Suc_eq)
next
  case (Issue sq n k rs v ttlSeconds now)
  then obtain i where i: "i < n" "t = sq i" by auto
  then have "sq n \<noteq> t" using Issue by (auto simp: inj_eq)
  moreover have "colonFree (sq n)" "colonFree t" using Issue i by simp_all
  ultimately have "refreshKey u t \<noteq> refreshKey v (sq n)" using refreshKey_token by blast
  then have "isRefreshTokenValid u t now' (setRefreshToken v (sq n) ttlSeconds now k) = isRefreshTokenValid u t now' k" for now'
    by (simp add: isRefreshTokenValid_def setRefreshToken_def kvGet_Set)
  then show ?case using Issue by (auto simp: less_Suc_eq)
next
  case (Drop k' k sq n rs)
  then have "\<not> isRefreshTokenValid u t now k'" for now by (fastforce simp: isRefreshTokenValid_def)
  then show ?case using Drop by simp
next
  case (Resets rs rs' sq n k)
  then show ?case by simp
qed

lemma closed_reach:
  assumes "closed u t v" and "reach v w"
  shows "closed u t (authView w)"
  using assms(2) unfolding reach_def by (induction rule: rtranclp_induct) (simp_all add: assms(1) closed_move)

lemma closed_run: "closed u t (authView w) \<Longrightarrow> closed u t (authView (fold (authStep env) ops w))"
  by (erule closed_reach) (rule auth_moves.P_run, rule reach_start)

lemma isRefreshTokenValid_closed: "closed u t (authView w) \<Longrightarrow> \<not> isRefreshActive u t now w"
  by (simp add: authView_def isRefreshActive_def)

text \<open>A successful refresh has found an active session and closes it.\<close>

lemma refresh_success:
  assumes "refresh env token now w = (Inr pair, w')"
  shows "\<exists>p u. verifyRefreshJwt env now token = Some p \<and> isRefreshActive (rf_sub p) (rf_jti p) now w \<and>
    findUser (rf_sub p) w = Some u \<and> \<not> u_isBanned u \<and> u_deletedAt u = None \<and>
    (pair, w') = issueTokenPair env (u_id u) (u_username u) (u_role u) now (revokeRefresh (rf_sub p) (rf_jti p) w)"
  using assms
  by (auto simp: refresh_def verifyRefresh_def Let_def throwHttp_def raise_def ret_def case_prod_beta
      revokeRefresh_def findUser_def prod_eq_iff
      split: option.splits if_splits)

lemma login_effect:
  assumes "login env ident password now w = (Inr s, w')"
  shows "\<exists>u. u \<in> set (users w) \<and> openSession env u now w = (Inr s, w')"
  using assms by (auto simp: login_def Let_def throwHttp_def raise_def dest: find_row split: option.splits if_splits)

text \<open>
  C1: refresh tokens rotate: after a token has been exchanged, no sequence of operations of
  the service makes it acceptable again, at any time; the answer is then always 401.
\<close>

theorem refresh_no_replay:
  assumes "refresh env token now w = (Inr pair, w')"
    and "\<And>i. colonFree (uuidSeq w i)" and "inj (uuidSeq w)"
    and "verifyRefreshJwt env now token = Some p" and "rf_jti p \<in> uuidSeq w ` {..<uuidNext w}"
    and "\<And>t q. verifyRefreshJwt env t token = Some q \<Longrightarrow> q = p"
  shows "\<exists>msg. fst (refresh env token now' (fold (authStep env) ops w')) = Inl (Http Unauthorized msg (Some TOKEN_INVALID) [])"
proof -
  obtain u :: user where pair: "(pair, w') = issueTokenPair env (u_id u) (u_username u) (u_role u) now
      (revokeRefresh (rf_sub p) (rf_jti p) w)"
    using refresh_success [OF assms(1)] assms(4) by auto
  let ?w1 = "revokeRefresh (rf_sub p) (rf_jti p) w"
  have "closed (rf_sub p) (rf_jti p) (authView ?w1)"
    unfolding authView_def closed.simps
    by (intro conjI allI) (use assms(2,3,5) in \<open>simp_all add: revokeRefresh_def isRefreshTokenValid_def revokeRefreshToken_def kvGet_Del\<close>)
  moreover have "w' = snd (issueTokenPair env (u_id u) (u_username u) (u_role u) now ?w1)"
    using arg_cong [OF pair, of snd] by simp
  then have "reach (authView ?w1) w'" by (simp add: reach_start)
  ultimately have "closed (rf_sub p) (rf_jti p) (authView w')" by (rule closed_reach)
  then have "\<not> isRefreshActive (rf_sub p) (rf_jti p) now' (fold (authStep env) ops w')"
    by (intro isRefreshTokenValid_closed closed_run)
  then show ?thesis using assms(6) by (auto simp: refresh_def verifyRefresh_def split: option.split)
qed

theorem refresh_no_replay_witness:
  "\<exists>pair w'. refresh sampleEnv ''a.'' 2 (snd (login sampleEnv ''a'' ''pw'' 1 sampleAuth)) = (Inr pair, w') \<and>
     (\<exists>msg. fst (refresh sampleEnv ''a.'' 4 (fold (authStep sampleEnv) [Login ''a'' ''pw'' 3] w')) =
       Inl (Http Unauthorized msg (Some TOKEN_INVALID) []))"
proof -
  let ?w = "snd (login sampleEnv ''a'' ''pw'' 1 sampleAuth)"
  let ?p = "\<lparr>rf_sub = ''a'', rf_jti = [], rf_typ = ''refresh''\<rparr>"
  have "(case fst (refresh sampleEnv ''a.'' 2 ?w) of Inl e \<Rightarrow> False | Inr d \<Rightarrow> True)" by code_simp
  then obtain pair w' where run: "refresh sampleEnv ''a.'' 2 ?w = (Inr pair, w')"
    by (cases "refresh sampleEnv ''a.'' 2 ?w") (simp split: sum.splits)
  have seq: "uuidSeq ?w = (\<lambda>n. replicate n (CHR ''u''))" "uuidNext ?w = 1"
    by (simp_all add: login_def openSession_def sampleAuth_def sampleCore_def sampleUser_def core_db.defs sampleEnv_def
        normalise_def trim_def isSpace_def toLowerCase_def lowerChar_def Let_def sameText_def updateUser_cases
        issueTokenPair_def takeUuid_def emitEvent_def ret_def)
  have "colonFree (uuidSeq ?w i)" for i by (simp add: seq colonFree_def)
  moreover have "inj (uuidSeq ?w)" by (auto simp: seq inj_def dest: arg_cong [of _ _ length])
  moreover have "verifyRefreshJwt sampleEnv 2 ''a.'' = Some ?p" by (simp add: sampleEnv_def)
  moreover have "rf_jti ?p \<in> uuidSeq ?w ` {..<uuidNext ?w}" by (simp add: seq)
  moreover have "q = ?p" if "verifyRefreshJwt sampleEnv t ''a.'' = Some q" for t q
    using that by (simp add: sampleEnv_def)
  ultimately show ?thesis
    using refresh_no_replay [OF run, of ?p 4 "[Login ''a'' ''pw'' 3]"] run by blast
qed

section \<open>A reset token works once\<close>

lemma spent_run:
  assumes "unique rt_tokenHash (resetTokens w)" and "spent h (resetTokens w)"
  shows "unique rt_tokenHash (resetTokens (fold (authStep env) ops w)) \<and> spent h (resetTokens (fold (authStep env) ops w))"
proof -
  let ?P = "\<lambda>(sq, n, k, rs). unique rt_tokenHash rs \<and> spent h rs"
  have step: "?P y" if "authMove x y" "?P x" for x y :: authView
    using that by (induction rule: authMove.induct) (auto simp: keepsSpent_def)
  have "reach (authView w) (fold (authStep env) ops w)" by (rule auth_moves.P_run) (rule reach_start)
  then have "?P (authView (fold (authStep env) ops w))"
    unfolding reach_def
  proof (induction rule: rtranclp_induct)
    case base
    then show ?case using assms by (simp add: authView_def)
  next
    case (step x y)
    then show ?case using \<open>\<And>x y. authMove x y \<Longrightarrow> ?P x \<Longrightarrow> ?P y\<close> by blast
  qed
  then show ?thesis by (simp add: authView_def)
qed

lemma spend_success:
  assumes "spendResetToken env rec h now w = (Inr x, w')" and "rec \<in> set (resetTokens w)"
  shows "spent (rt_tokenHash rec) (resetTokens w')" and "rd_keys w' = rd_keys w"
    and "unique rt_tokenHash (resetTokens w) \<Longrightarrow> unique rt_tokenHash (resetTokens w')"
proof -
  let ?rs = "updateMany (\<lambda>r. rt_id r = rt_id rec) (\<lambda>r. r\<lparr>rt_usedAt := Some now\<rparr>) (resetTokens w)"
  have w': "resetTokens w' = ?rs \<and> rd_keys w' = rd_keys w"
    using assms by (auto simp: spendResetToken_def transaction_def write_or_def updateRow_def updateUser_cases ret_def
        split: if_splits)
  have "rec\<lparr>rt_usedAt := Some now\<rparr> \<in> set ?rs" using assms(2) by (force simp: set_updateMany)
  then have "rec\<lparr>rt_usedAt := Some now\<rparr> \<in> set (resetTokens w')" using w' by simp
  then show "spent (rt_tokenHash rec) (resetTokens w')" unfolding spent_def by (rule bexI [rotated]) simp
  show "rd_keys w' = rd_keys w" using w' by simp
  show "unique rt_tokenHash (resetTokens w')" if "unique rt_tokenHash (resetTokens w)"
    using that w' by (simp add: unique_updateMany)
qed

lemma rd_keys_revokeAll: "rd_keys (snd (revokeAllForUser u now w)) = snd (revokeAllUserRefreshTokens u now (rd_keys w))"
  by (simp add: revokeAllForUser_def case_prod_beta)

lemma resetPassword_success:
  assumes "resetPassword env token new now w = (Inr n, w')"
  shows "\<exists>rec w2. rec \<in> set (resetTokens w) \<and> rt_tokenHash rec = sha256 env token \<and>
    spent (sha256 env token) (resetTokens w2) \<and> rd_keys w2 = rd_keys w \<and>
    (unique rt_tokenHash (resetTokens w) \<longrightarrow> unique rt_tokenHash (resetTokens w2)) \<and>
    w' = snd (revokeAllForUser (rt_userId rec) now w2)"
proof -
  obtain rec where rec: "find (\<lambda>r. rt_tokenHash r = sha256 env token \<and> rt_usedAt r = None \<and> now < rt_expiresAt r)
      (resetTokens w) = Some rec"
    using assms by (auto simp: resetPassword_def throwHttp_def raise_def split: option.splits)
  obtain x w2 where spend: "spendResetToken env rec (bcryptHash env (rndNext w) new) now (takeRnd w) = (Inr x, w2)"
    and w': "w' = snd (revokeAllForUser (rt_userId rec) now w2)"
    using assms by (auto simp: resetPassword_def rec throwHttp_def raise_def ret_def Let_def and_then_Inr_iff case_prod_beta
        split: option.splits if_splits)
  have mem: "rec \<in> set (resetTokens w)" "rt_tokenHash rec = sha256 env token" using find_row [OF rec] by simp_all
  then have "rec \<in> set (resetTokens (takeRnd w))" by (simp add: takeRnd_def)
  note facts = spend_success [OF spend this]
  show ?thesis
    by (intro exI [of _ rec] exI [of _ w2]) (use facts mem w' in \<open>simp add: takeRnd_def\<close>)
qed

text \<open>
  C13: a password reset link works once: after it has been used, no operations of the service
  make the token acceptable again, at any time.
\<close>

theorem reset_token_single_use:
  assumes "resetPassword env token new now w = (Inr n, w')" and "unique rt_tokenHash (resetTokens w)"
  shows "fst (resetPassword env token new' now' (fold (authStep env) ops w')) =
    Inl (Http BadRequest ''reset_token_invalid'' (Some VALIDATION_FAILED) [])"
proof -
  obtain rec :: resetToken and w2 where w2: "spent (sha256 env token) (resetTokens w2)" "unique rt_tokenHash (resetTokens w2)"
    and w': "w' = snd (revokeAllForUser (rt_userId rec) now w2)"
    using resetPassword_success [OF assms(1)] assms(2) by blast
  have "resetTokens w' = resetTokens w2" by (simp add: w' revokeAllForUser_def case_prod_beta)
  then obtain v where v: "v = fold (authStep env) ops w'" "unique rt_tokenHash (resetTokens v)"
    "spent (sha256 env token) (resetTokens v)"
    using spent_run [of w' "sha256 env token" env ops] w2 by auto
  have "find (\<lambda>r. rt_tokenHash r = sha256 env token \<and> rt_usedAt r = None \<and> now' < rt_expiresAt r) (resetTokens v) = None"
    using v(2,3) unique_row [OF v(2)] unfolding find_none spent_def by fastforce
  then show ?thesis unfolding v(1) [symmetric] by (simp add: resetPassword_def Let_def)
qed

theorem reset_token_single_use_witness:
  "\<exists>n w'. resetPassword sampleEnv [] ''new'' 2 (snd (forgotPassword sampleEnv ''a'' 1 sampleAuth)) = (Inr n, w') \<and>
     fst (resetPassword sampleEnv [] ''other'' 4 (fold (authStep sampleEnv) [ForgotPassword ''a'' 3] w')) =
       Inl (Http BadRequest ''reset_token_invalid'' (Some VALIDATION_FAILED) [])"
proof -
  let ?w = "snd (forgotPassword sampleEnv ''a'' 1 sampleAuth)"
  have "(case fst (resetPassword sampleEnv [] ''new'' 2 ?w) of Inl e \<Rightarrow> False | Inr d \<Rightarrow> True)" by code_simp
  then obtain n w' where run: "resetPassword sampleEnv [] ''new'' 2 ?w = (Inr n, w')"
    by (cases "resetPassword sampleEnv [] ''new'' 2 ?w") (simp split: sum.splits)
  have "unique rt_tokenHash (resetTokens ?w)" by code_simp
  from reset_token_single_use [OF run this] run show ?thesis by blast
qed

text \<open>
  An account that is being deleted but may still be restored is sent a reset link, and the
  link is refused: \<open>resetPassword\<close> accepts no user with \<open>deletedAt\<close>.
\<close>

lemma reset_link_of_deleted_refused:
  "outbox (snd (forgotPassword sampleEnv ''d'' 1 sampleAuth)) = [ResetMail ''d'' ''d'' []] \<and>
   fst (resetPassword sampleEnv [] ''new'' 2 (snd (forgotPassword sampleEnv ''d'' 1 sampleAuth))) =
     Inl (Http BadRequest ''reset_token_invalid'' (Some VALIDATION_FAILED) [])"
  by code_simp

section \<open>New credentials end the sessions\<close>

lemma updateUser_keys: "updateUser i f w = (Inr x, w') \<Longrightarrow> rd_keys w' = rd_keys w"
  by (auto simp: updateUser_cases split: if_splits)

lemma checkPassword_keys: "checkPassword env u p w = (Inr x, w') \<Longrightarrow> w' = w"
  by (auto simp: checkPassword_def throwHttp_def raise_def ret_def split: option.splits if_splits)

lemma changePassword_success:
  assumes "changePassword env u c n now w = (Inr k, w')"
  shows "\<exists>w2. rd_keys w2 = rd_keys w \<and> w' = snd (revokeAllForUser u now w2)"
proof -
  obtain w2 where "updateUser u (\<lambda>r. r\<lparr>u_passwordHash := Some (bcryptHash env (rndNext w) n)\<rparr>) (takeRnd w) = (Inr (), w2)"
    and w': "w' = snd (revokeAllForUser u now w2)"
    using assms
    by (auto simp: changePassword_def Let_def and_then_Inr_iff ret_def case_prod_beta dest!: checkPassword_keys)
  from updateUser_keys [OF this(1)] have "rd_keys w2 = rd_keys w" by (simp add: takeRnd_def)
  then show ?thesis using w' by blast
qed

lemma setEmail_keys: "setEmail u m w = (Inr x, w') \<Longrightarrow> rd_keys w' = rd_keys w"
  by (auto simp: setEmail_def updateUser_cases raise_def split: if_splits)

lemma verifyEmailChange_success:
  assumes "verifyEmailChange env tok now w = (Inr x, w')"
  shows "\<exists>rec \<in> set (emailTokens w). et_tokenHash rec = sha256 env tok \<and>
    (\<exists>w2. rd_keys w2 = rd_keys w \<and> w' = snd (revokeAllForUser (et_userId rec) now w2))"
proof -
  obtain rec where rec: "find (\<lambda>r. et_tokenHash r = sha256 env tok \<and> et_usedAt r = None \<and> now < et_expiresAt r)
      (emailTokens w) = Some rec"
    using assms by (auto simp: verifyEmailChange_def throwHttp_def raise_def split: option.splits)
  let ?body = "\<lambda>tx. and_then (write_or RecordNotFound
      (updateRow et_id (et_id rec) (\<lambda>r. r\<lparr>et_usedAt := Some now\<rparr>) (emailTokens tx)) (\<lambda>t. tx\<lparr>emailTokens := t\<rparr>) tx)
    (\<lambda>_ tx1. setEmail (et_userId rec) (normalise (et_newEmail rec)) tx1)"
  obtain y w2 where "transaction ?body w = (Inr y, w2)" and w': "w' = snd (revokeAllForUser (et_userId rec) now w2)"
    using assms
    by (auto simp: verifyEmailChange_def rec throwHttp_def raise_def ret_def Let_def and_then_Inr_iff
        split: option.splits if_splits)
  from transaction_success [OF this(1)] have "rd_keys w2 = rd_keys w"
    by (auto simp: and_then_Inr_iff write_or_def raise_def ret_def dest: setEmail_keys split: option.splits)
  then show ?thesis using w' find_row [OF rec] by blast
qed

text \<open>
  C26: whoever changes or resets his password, or confirms a new e-mail address, is logged
  out everywhere: none of his refresh tokens is active from then on, and the sessions of
  everybody else are as they were.
\<close>

theorem credential_change_ends_sessions:
  assumes "changePassword env u c n now w = (Inr k, w') \<or>
      (\<exists>r \<in> set (resetTokens w). rt_userId r = u \<and> rt_tokenHash r = sha256 env tok) \<and>
        resetPassword env tok n now w = (Inr k, w') \<or>
      (\<exists>r \<in> set (emailTokens w). et_userId r = u \<and> et_tokenHash r = sha256 env tok) \<and>
        verifyEmailChange env tok now w = (Inr (), w')"
    and "unique rt_tokenHash (resetTokens w)" and "unique et_tokenHash (emailTokens w)"
    and "now \<le> now'" and "colonFree u" and "colonFree v" and "v \<noteq> u"
  shows "\<not> isRefreshActive u t now' w' \<and> (isRefreshActive v t now' w' \<longleftrightarrow> isRefreshActive v t now' w)"
proof -
  have "\<exists>w2. rd_keys w2 = rd_keys w \<and> w' = snd (revokeAllForUser u now w2)"
    using assms(1)
  proof (elim disjE conjE bexE)
    assume "changePassword env u c n now w = (Inr k, w')"
    then show ?thesis by (rule changePassword_success)
  next
    fix r
    assume r: "r \<in> set (resetTokens w)" "rt_userId r = u" "rt_tokenHash r = sha256 env tok"
    assume "resetPassword env tok n now w = (Inr k, w')"
    from resetPassword_success [OF this] obtain rec w2 where "rec \<in> set (resetTokens w)" "rt_tokenHash rec = sha256 env tok"
      and w2: "rd_keys w2 = rd_keys w" "w' = snd (revokeAllForUser (rt_userId rec) now w2)"
      by blast
    then have "rec = r" using r unique_row [OF assms(2)] by simp
    then show ?thesis using w2 r(2) by blast
  next
    fix r
    assume r: "r \<in> set (emailTokens w)" "et_userId r = u" "et_tokenHash r = sha256 env tok"
    assume "verifyEmailChange env tok now w = (Inr (), w')"
    from verifyEmailChange_success [OF this] obtain rec w2 where "rec \<in> set (emailTokens w)" "et_tokenHash rec = sha256 env tok"
      and w2: "rd_keys w2 = rd_keys w" "w' = snd (revokeAllForUser (et_userId rec) now w2)"
      by blast
    then have "rec = r" using r unique_row [OF assms(3)] by simp
    then show ?thesis using w2 r(2) by blast
  qed
  then obtain w2 where "rd_keys w2 = rd_keys w" and w': "w' = snd (revokeAllForUser u now w2)" by blast
  then have "rd_keys w' = snd (revokeAllUserRefreshTokens u now (rd_keys w))" by (simp add: rd_keys_revokeAll)
  then show ?thesis
    using sessions.revokeAll_own [OF assms(4)] sessions.revokeAll_other [OF assms(5,6) assms(7) [symmetric]]
    by (simp add: isRefreshActive_def)
qed

theorem credential_change_ends_sessions_witness:
  "\<exists>k w'. changePassword sampleEnv ''a'' ''pw'' ''nw'' 3 (fold (authStep sampleEnv) [Login ''a'' ''pw'' 1, Login ''b'' ''qw'' 2] sampleAuth) = (Inr k, w') \<and>
     \<not> isRefreshActive ''a'' [] 4 w' \<and> isRefreshActive ''b'' ''u'' 4 w'"
proof -
  let ?w = "fold (authStep sampleEnv) [Login ''a'' ''pw'' 1, Login ''b'' ''qw'' 2] sampleAuth"
  have "(case fst (changePassword sampleEnv ''a'' ''pw'' ''nw'' 3 ?w) of Inl e \<Rightarrow> False | Inr d \<Rightarrow> True)" by code_simp
  then obtain k w' where run: "changePassword sampleEnv ''a'' ''pw'' ''nw'' 3 ?w = (Inr k, w')"
    by (cases "changePassword sampleEnv ''a'' ''pw'' ''nw'' 3 ?w") (simp split: sum.splits)
  have facts: "unique rt_tokenHash (resetTokens ?w)" "unique et_tokenHash (emailTokens ?w)"
    "colonFree ''a''" "colonFree ''b''" "isRefreshActive ''b'' ''u'' 4 ?w" by (code_simp, code_simp, code_simp, code_simp, code_simp)
  have "\<not> isRefreshActive ''a'' t 4 w' \<and> isRefreshActive ''b'' t 4 w' = isRefreshActive ''b'' t 4 ?w" for t
    by (rule credential_change_ends_sessions [OF disjI1 [OF run] facts(1,2) _ facts(3,4)]) simp_all
  then show ?thesis using run facts(5) by blast
qed

section \<open>Five guesses\<close>

definition currentOtp :: "string \<Rightarrow> time \<Rightarrow> 'a auth_db_scheme \<Rightarrow> otpCode option" where
  "currentOtp phone now w =
     latestOtp (\<lambda>r. ot_phone r = phone \<and> ot_usedAt r = None \<and> now < ot_expiresAt r) (otpCodes w)"

lemma latestOtp_update:
  assumes "\<And>r. P (f r) = P r" and "\<And>r. ot_createdAt (f r) = ot_createdAt r"
  shows "latestOtp P (updateMany Q f t) = map_option (\<lambda>r. if Q r then f r else r) (latestOtp P t)"
proof -
  let ?g = "\<lambda>r. if Q r then f r else r"
  have "filter P (map ?g t) = map ?g (filter P t)" using assms(1) by (simp add: filter_map comp_def if_distrib cong: if_cong)
  then have "sort_key ot_createdAt (filter P (updateMany Q f t)) = map ?g (sort_key ot_createdAt (filter P t))"
    using sort_key_map [of ot_createdAt ?g "filter P t"] assms(2) by (simp add: updateMany_def if_distrib cong: if_cong)
  then show ?thesis by (simp add: latestOtp_def rev_map split: list.split)
qed

lemma latestOtp_Some: "latestOtp P t = Some r \<Longrightarrow> r \<in> set t \<and> P r"
proof -
  assume "latestOtp P t = Some r"
  then obtain rs where "rev (sort_key ot_createdAt (filter P t)) = r # rs" by (auto simp: latestOtp_def split: list.splits)
  then have "r \<in> set (rev (sort_key ot_createdAt (filter P t)))" by simp
  then show ?thesis by simp
qed

lemma verifyOtp_wrong:
  assumes "OTP_AUTH_ENABLED env" and "currentOtp (trim phone) now w = Some r"
    and "\<not> bcryptCompare env (trim code) (ot_codeHash r)" and "ot_attemptCount r < OTP_MAX_ATTEMPTS"
  shows "snd (verifyOtp env phone code now w) =
    w\<lparr>otpCodes := updateMany (\<lambda>s. ot_id s = ot_id r) (\<lambda>s. s\<lparr>ot_attemptCount := ot_attemptCount s + 1\<rparr>) (otpCodes w)\<rparr>"
proof -
  have "r \<in> set (otpCodes w)" using assms(2) latestOtp_Some unfolding currentOtp_def by blast
  then have "ot_id r \<in> ot_id ` set (otpCodes w)" by simp
  then show ?thesis using assms
    by (simp add: verifyOtp_def assertOtpEnabled_def currentOtp_def updateOtp_def write_or_def updateRow_def Let_def)
qed

lemma verifyOtp_locked:
  assumes "OTP_AUTH_ENABLED env" and "currentOtp (trim phone) now w = Some r" and "OTP_MAX_ATTEMPTS \<le> ot_attemptCount r"
  shows "verifyOtp env phone code now w = throwHttp Forbidden ''otp_locked'' FORBIDDEN w"
  using assms by (simp add: verifyOtp_def assertOtpEnabled_def currentOtp_def Let_def)

text \<open>
  C19: a one-time code stands at most five guesses: once five wrong codes have been tried
  against it, verification answers \<open>otp_locked\<close> to every further code, the right one too.
\<close>

theorem otp_lockout:
  assumes "OTP_AUTH_ENABLED env"
    and "\<And>t. t \<in> insert now (snd ` set guesses) \<Longrightarrow> currentOtp (trim phone) t w = Some r"
    and "\<And>g. g \<in> set guesses \<Longrightarrow> \<not> bcryptCompare env (trim (fst g)) (ot_codeHash r)"
    and "OTP_MAX_ATTEMPTS \<le> ot_attemptCount r + length guesses"
  shows "fst (verifyOtp env phone code now
      (fold (\<lambda>g w. snd (verifyOtp env phone (fst g) (snd g) w)) guesses w)) =
    Inl (Http Forbidden ''otp_locked'' (Some FORBIDDEN) [])"
  using assms(2-4)
proof (induction guesses arbitrary: w r)
  case Nil
  then show ?case using verifyOtp_locked [OF assms(1), of phone now w r code] by simp
next
  case (Cons g gs)
  let ?w = "snd (verifyOtp env phone (fst g) (snd g) w)"
  have now: "currentOtp (trim phone) (snd g) w = Some r" using Cons.prems(1) by simp
  show ?case
  proof (cases "OTP_MAX_ATTEMPTS \<le> ot_attemptCount r")
    case True
    then have "?w = w" using verifyOtp_locked [OF assms(1) now] by simp
    have "currentOtp (trim phone) t w = Some r" if "t \<in> insert now (snd ` set gs)" for t
      by (rule Cons.prems(1)) (use that in auto)
    from Cons.IH [OF this] Cons.prems(2) True \<open>?w = w\<close> show ?thesis by simp
  next
    case False
    let ?r = "r\<lparr>ot_attemptCount := ot_attemptCount r + 1\<rparr>"
    have w: "?w = w\<lparr>otpCodes := updateMany (\<lambda>s. ot_id s = ot_id r) (\<lambda>s. s\<lparr>ot_attemptCount := ot_attemptCount s + 1\<rparr>) (otpCodes w)\<rparr>"
      using False Cons.prems(2) [of g] by (intro verifyOtp_wrong [OF assms(1) now]) simp_all
    have "currentOtp (trim phone) t ?w = Some ?r" if "t \<in> insert now (snd ` set gs)" for t
    proof -
      have "currentOtp (trim phone) t w = Some r" by (rule Cons.prems(1)) (use that in auto)
      then show ?thesis unfolding w by (simp add: currentOtp_def latestOtp_update)
    qed
    then have "fst (verifyOtp env phone code now (fold (\<lambda>g w. snd (verifyOtp env phone (fst g) (snd g) w)) gs ?w)) =
        Inl (Http Forbidden ''otp_locked'' (Some FORBIDDEN) [])"
      using Cons.prems(2,3) by (intro Cons.IH [of ?w ?r]) simp_all
    then show ?thesis by simp
  qed
qed

theorem otp_lockout_witness:
  "fst (verifyOtp sampleEnv ''+90'' ''123456'' 7
      (fold (\<lambda>g w. snd (verifyOtp sampleEnv ''+90'' (fst g) (snd g) w))
        [(''000000'', 2), (''000001'', 3), (''000002'', 4), (''000003'', 5), (''000004'', 6)]
        (snd (requestOtp sampleEnv ''+90'' 1 sampleAuth)))) =
    Inl (Http Forbidden ''otp_locked'' (Some FORBIDDEN) [])"
proof -
  let ?w = "snd (requestOtp sampleEnv ''+90'' 1 sampleAuth)"
  let ?gs = "[(''000000'', 2), (''000001'', 3), (''000002'', 4), (''000003'', 5), (''000004'', 6)] :: (string \<times> time) list"
  let ?r = "\<lparr>ot_id = [], ot_phone = ''+90'', ot_codeHash = ''123456'', ot_expiresAt = 300001, ot_attemptCount = 0,
    ot_usedAt = None, ot_createdAt = 1\<rparr>"
  have codes: "otpCodes ?w = [?r]" by code_simp
  have phone: "trim ''+90'' = ''+90''" by code_simp
  have cur: "currentOtp (trim ''+90'') t ?w = Some ?r" if "t \<in> insert 7 (snd ` set ?gs)" for t
    using that by (auto simp: currentOtp_def latestOtp_def codes phone)
  have wrong: "\<not> bcryptCompare sampleEnv (trim (fst g)) (ot_codeHash ?r)" if "g \<in> set ?gs" for g
    using that by (auto simp: sampleEnv_def trim_def isSpace_def)
  have on: "OTP_AUTH_ENABLED sampleEnv" by (simp add: sampleEnv_def)
  have enough: "OTP_MAX_ATTEMPTS \<le> ot_attemptCount ?r + length ?gs" by (simp add: OTP_MAX_ATTEMPTS_def)
  show ?thesis by (rule otp_lockout [OF on]) (rule cur, assumption, rule wrong, assumption, rule enough)
qed

end
