(* ===== verification/Interplay.thy ===== *)
theory Interplay
  imports Social Messaging
begin

text \<open>
  Properties that span services: the block list is written by \<open>blocks.service.ts\<close> and read by
  the messaging services, over the state they share. No messaging operation touches it, so
  a block stays in force across any history of theirs.
\<close>

section \<open>Messaging leaves the block list alone\<close>

lemma insertConversation_blocks [simp]: "blocks (snd (insertConversation ty n c u us now w)) = blocks w"
  by (simp add: insertConversation_def Let_def takeUuid_def)

lemma findOrCreateDirect_blocks [simp]: "blocks (snd (findOrCreateDirect a b now w)) = blocks w"
  by (simp add: findOrCreateDirect_def assertNotBlocked_cases split: option.split)

lemma createConversation_blocks [simp]: "blocks (snd (createConversation u dto now w)) = blocks w"
  by (cases "ccv_type dto") (simp_all add: createConversation_def Let_def split: list.split option.split)

lemma updateParticipant_blocks [simp]: "blocks (snd (updateParticipant k f w)) = blocks w"
  by (simp add: updateParticipant_cases del: prod.inject)

lemma callBack_blocks [simp]: "blocks (callBack c w) = blocks w"
  by (simp add: callBack_def)

lemma posted_blocks [simp]: "blocks (posted u dto now w) = blocks w"
  by (simp add: posted_def takeUuid_def)

lemma send_blocks [simp]: "blocks (snd (send u dto now w)) = blocks w"
proof (cases "\<exists>p. findUnique convKey (smd_conversationId dto, u) (convParticipants w) = Some p \<and> cp_leftAt p = None")
  case True
  then obtain p where "findUnique convKey (smd_conversationId dto, u) (convParticipants w) = Some p" "cp_leftAt p = None"
    by blast
  from send_by_participant [OF this] show ?thesis by (simp add: Let_def split: option.split)
next
  case False
  then have "findUnique convKey (smd_conversationId dto, u) (convParticipants w) = None \<or>
      (\<exists>p. findUnique convKey (smd_conversationId dto, u) (convParticipants w) = Some p \<and> cp_leftAt p \<noteq> None)"
    by (cases "findUnique convKey (smd_conversationId dto, u) (convParticipants w)") auto
  then show ?thesis by (simp add: send_refused)
qed

interpretation messaging_blocks: invariant_system messagingStep "\<lambda>w. blocks w = B" for B
proof
  fix w :: "'a messaging_db_scheme" and x
  assume B: "blocks w = B"
  have "blocks (messagingStep x w) = blocks w"
    by (cases x) (simp_all add: markRead_def muteConversation_def leaveConversation_def assertParticipant_cases react_def
        softDelete_def write_or_def Let_def split: option.split mutedUntilDto.split)
  then show "blocks (messagingStep x w) = B" using B by simp
qed

section \<open>A block silences\<close>

lemma findOrCreateDirect_blocked:
  "a \<noteq> b \<Longrightarrow> blockedEitherWay a b w \<Longrightarrow>
   findOrCreateDirect a b now w = (Inl (Http Forbidden ''Cannot message blocked user'' (Some BLOCKED) []), w)"
  by (simp add: findOrCreateDirect_def assertNotBlocked_cases)

lemma send_blocked:
  assumes "blockedEitherWay a b w" and "getDirectPartner (smd_conversationId dto) a w = Some b"
  shows "(\<exists>e. fst (send a dto now w) = Inl e) \<and> messages (snd (send a dto now w)) = messages w"
proof (cases "\<exists>p. findUnique convKey (smd_conversationId dto, a) (convParticipants w) = Some p \<and> cp_leftAt p = None")
  case True
  then obtain p where "findUnique convKey (smd_conversationId dto, a) (convParticipants w) = Some p" "cp_leftAt p = None"
    by blast
  from send_by_participant [OF this] show ?thesis using assms by simp
next
  case False
  then have "findUnique convKey (smd_conversationId dto, a) (convParticipants w) = None \<or>
      (\<exists>p. findUnique convKey (smd_conversationId dto, a) (convParticipants w) = Some p \<and> cp_leftAt p \<noteq> None)"
    by (cases "findUnique convKey (smd_conversationId dto, a) (convParticipants w)") auto
  then show ?thesis by (simp add: send_refused)
qed

text \<open>
  C2: once \<open>a\<close> has blocked \<open>b\<close>, then after any history of messaging neither can open a direct
  conversation with the other, and in a direct conversation that they already have neither
  can send: the call fails and no message is written.
\<close>

theorem block_silences:
  assumes "blockUser a b now w = (Inr r, w')" and "v = fold messagingStep ops w'"
  shows "fst (findOrCreateDirect a b t v) = Inl (Http Forbidden ''Cannot message blocked user'' (Some BLOCKED) []) \<and>
    fst (findOrCreateDirect b a t v) = Inl (Http Forbidden ''Cannot message blocked user'' (Some BLOCKED) []) \<and>
    (getDirectPartner (smd_conversationId dto) a v = Some b \<longrightarrow>
       (\<exists>e. fst (send a dto t v) = Inl e) \<and> messages (snd (send a dto t v)) = messages v) \<and>
    (getDirectPartner (smd_conversationId dto) b v = Some a \<longrightarrow>
       (\<exists>e. fst (send b dto t v) = Inl e) \<and> messages (snd (send b dto t v)) = messages v)"
proof -
  have ne: "a \<noteq> b" using assms(1) by (auto simp: blockUser_def throwHttp_def raise_def)
  have "blockedEitherWay a b w'" using blockUser_Inr(3) [OF assms(1)] by (simp add: blockedEitherWay_iff)
  moreover have "blocks v = blocks w'" unfolding assms(2) by (rule messaging_blocks.run_inv) (rule refl)
  ultimately have ab: "blockedEitherWay a b v" using blockedEitherWay_cong by blast
  then have ba: "blockedEitherWay b a v" by (simp add: blockedEitherWay_sym)
  show ?thesis
    using findOrCreateDirect_blocked [OF ne ab] findOrCreateDirect_blocked [OF ne [symmetric] ba]
      send_blocked [OF ab] send_blocked [OF ba] by simp
qed

definition blockedChat :: messaging_db where
  "blockedChat = snd (blockUser ''a'' ''b'' 5 (snd (findOrCreateDirect ''a'' ''b'' 1 sampleChats)))"

theorem block_silences_witness:
  "fst (findOrCreateDirect ''b'' ''a'' 9 (fold messagingStep [OpenDirect ''a'' ''c'' 6] blockedChat)) =
     Inl (Http Forbidden ''Cannot message blocked user'' (Some BLOCKED) []) \<and>
   (\<exists>e. fst (send ''b'' sampleSend 9 (fold messagingStep [OpenDirect ''a'' ''c'' 6] blockedChat)) = Inl e)"
proof -
  let ?w = "snd (findOrCreateDirect ''a'' ''b'' 1 sampleChats)"
  have "fst (blockUser ''a'' ''b'' 5 ?w) = Inr (''b'', 5)" by code_simp
  then have run: "blockUser ''a'' ''b'' 5 ?w = (Inr (''b'', 5), blockedChat)"
    unfolding blockedChat_def by (metis prod.collapse)
  have "getDirectPartner (smd_conversationId sampleSend) ''b'' (fold messagingStep [OpenDirect ''a'' ''c'' 6] blockedChat) = Some ''a''"
    unfolding blockedChat_def by code_simp
  then show ?thesis using block_silences [OF run refl, of 9 "[OpenDirect ''a'' ''c'' 6]" sampleSend] by simp
qed

end
