(* ===== verification/Location.thy ===== *)
theory Location
  imports Party Text_Search
begin

text \<open>
  \<open>location.service.ts\<close>, \<open>location.constants.ts\<close>, \<open>location-cleanup.service.ts\<close>,
  \<open>map.service.ts\<close> and the handlers of \<open>location.controller.ts\<close>: the live positions of riders
  in the Redis GEO shards, who may see them, their expiry and sweep, the live sessions and
  the stored pings. The state extends the party's, because a location update with a party
  writes the party's member set. A status hash is a record with one optional field per hash
  field; an absent field and the empty string read alike in the code and are both \<open>None\<close>. The
  distance on the sphere and the grid on which Redis rounds coordinates are the fields of
  \<open>geo_env\<close>. Cities are assumed not to be \<open>_shards\<close> (see \<open>shard_index_collision\<close>).
\<close>

section \<open>State\<close>

record geo_env =
  geoDist :: "rat \<times> rat \<Rightarrow> rat \<times> rat \<Rightarrow> rat"
  geoCell :: "rat \<times> rat \<Rightarrow> rat \<times> rat"

datatype sessionSource = GLOBAL_VISIBILITY | S_PARTY | S_EMERGENCY

record liveSession =
  ls_id :: uid
  ls_userId :: uid
  ls_sourceType :: sessionSource
  ls_sourceId :: "uid option"
  ls_visibilityMode :: locationSharingMode
  ls_startedAt :: time
  ls_expiresAt :: time
  ls_isActive :: bool

record locationPing =
  lp_sessionId :: uid
  lp_userId :: uid
  lp_latitude :: rat
  lp_longitude :: rat
  lp_heading :: "rat option"
  lp_speed :: "rat option"
  lp_accuracy :: "rat option"
  lp_batteryLevel :: "rat option"
  lp_timestamp :: time

text \<open>The hash \<open>user:{id}:status\<close>.\<close>

record statusHash =
  st_online :: bool
  st_inParty :: "uid option"
  st_privacyMode :: "locationSharingMode option"
  st_lastPing :: "time option"
  st_heading :: "rat option"
  st_speed :: "rat option"
  st_city :: "string option"

text \<open>
  \<open>rd_geo\<close> are the GEO sets by key, \<open>rd_status\<close> and \<open>rd_ping\<close> the keys \<open>user:{id}:status\<close> and
  \<open>user:{id}:ping\<close> by user, each with its expiry.
\<close>

record location_db = party_db +
  rd_geo :: "string \<Rightarrow> (uid \<times> (rat \<times> rat)) list"
  rd_shards :: "string list"
  rd_status :: "uid \<Rightarrow> (statusHash \<times> time option) option"
  rd_ping :: "uid \<Rightarrow> (time \<times> time option) option"
  liveSessions :: "liveSession list"
  locationPings :: "locationPing list"

abbreviation pingKey :: "locationPing \<Rightarrow> uid \<times> time" where
  "pingKey p \<equiv> (lp_userId p, lp_timestamp p)"

section \<open>Constants and keys\<close>

definition USER_STATUS_TTL :: int where "USER_STATUS_TTL = 60"
definition USER_PING_TTL :: int where "USER_PING_TTL = 30"
definition ZOMBIE_THRESHOLD :: int where "ZOMBIE_THRESHOLD = 300"
definition locationPingPerSecond :: nat where "locationPingPerSecond = 1"
definition PING_RETENTION_MS :: int where "PING_RETENTION_MS = 7 * 24 * 60 * 60 * 1000"

lemmas location_constants =
  USER_STATUS_TTL_def USER_PING_TTL_def ZOMBIE_THRESHOLD_def locationPingPerSecond_def PING_RETENTION_MS_def

definition userLocationShard :: "string option \<Rightarrow> string" where
  "userLocationShard city =
     (case city of
        None \<Rightarrow> ''user_locations:global''
      | Some c \<Rightarrow> (let key = toLowerCase (trim c) in
          if key = [] then ''user_locations:global'' else ''user_locations:'' @ key))"

definition userLocationShardIndex :: string where
  "userLocationShardIndex = ''user_locations:_shards''"

definition orElse :: "'a option \<Rightarrow> 'a option \<Rightarrow> 'a option" where
  "orElse a b = (case a of None \<Rightarrow> b | Some x \<Rightarrow> Some x)"

section \<open>Redis commands\<close>

definition statusGet :: "time \<Rightarrow> uid \<Rightarrow> 'a location_db_scheme \<Rightarrow> statusHash option" where
  "statusGet now u w =
     (case rd_status w u of Some (s, ex) \<Rightarrow> if live now ex then Some s else None | None \<Rightarrow> None)"

definition pingGet :: "time \<Rightarrow> uid \<Rightarrow> 'a location_db_scheme \<Rightarrow> time option" where
  "pingGet now u w =
     (case rd_ping w u of Some (t, ex) \<Rightarrow> if live now ex then Some t else None | None \<Rightarrow> None)"

definition geoadd :: "uid \<Rightarrow> rat \<times> rat \<Rightarrow> (uid \<times> (rat \<times> rat)) list \<Rightarrow> (uid \<times> (rat \<times> rat)) list" where
  "geoadd u pos z = filter (\<lambda>e. fst e \<noteq> u) z @ [(u, pos)]"

definition georem :: "uid \<Rightarrow> (uid \<times> (rat \<times> rat)) list \<Rightarrow> (uid \<times> (rat \<times> rat)) list" where
  "georem u z = filter (\<lambda>e. fst e \<noteq> u) z"

text \<open>\<open>GEOSEARCH ... FROMLONLAT BYRADIUS m WITHCOORD WITHDIST ASC COUNT limit\<close>\<close>

definition geosearch ::
  "geo_env \<Rightarrow> rat \<times> rat \<Rightarrow> rat \<Rightarrow> nat \<Rightarrow> (uid \<times> (rat \<times> rat)) list \<Rightarrow> (uid \<times> rat \<times> (rat \<times> rat)) list" where
  "geosearch env centre radius limit z =
     take limit (sort_key (\<lambda>e. fst (snd e))
       (filter (\<lambda>e. fst (snd e) \<le> radius) (map (\<lambda>(u, pos). (u, geoDist env centre pos, pos)) z)))"

text \<open>
  \<open>HSET user:{id}:status online false\<close>: an expired or missing hash is created with this field
  alone and without an expiry, a live one keeps its other fields and its expiry.
\<close>

definition hsetOffline ::
  "time \<Rightarrow> (statusHash \<times> time option) option \<Rightarrow> (statusHash \<times> time option) option" where
  "hsetOffline now h =
     (let fresh = (\<lparr>st_online = False, st_inParty = None, st_privacyMode = None, st_lastPing = None,
                    st_heading = None, st_speed = None, st_city = None\<rparr>, None)
      in Some (case h of
                 None \<Rightarrow> fresh
               | Some (s, ex) \<Rightarrow> if live now ex then (s\<lparr>st_online := False\<rparr>, ex) else fresh))"

section \<open>Updates\<close>

record updateLocationDto =
  ul_lat :: rat
  ul_lng :: rat
  ul_heading :: "rat option"
  ul_speed :: "rat option"
  ul_city :: "string option"
  ul_partyId :: "uid option"

record riderContext =
  rc_city :: "string option"
  rc_locationSharing :: locationSharingMode
  rc_isBanned :: bool

datatype skipReason = RATE_LIMITED_PING | SHARING_DISABLED

record updateLocationResult =
  ur_accepted :: bool
  ur_shard :: string
  ur_skipped :: "skipReason option"

definition removeFromRedis ::
  "uid \<Rightarrow> string option \<Rightarrow> time \<Rightarrow> 'a location_db_scheme \<Rightarrow> 'a location_db_scheme" where
  "removeFromRedis userId city now w =
     (let shard = userLocationShard city
      in w\<lparr>rd_geo := (rd_geo w)(shard := georem userId (rd_geo w shard)),
           rd_status := (rd_status w)(userId := hsetOffline now (rd_status w userId)),
           rd_ping := (rd_ping w)(userId := None)\<rparr>)"

text \<open>The pipeline of an accepted update.\<close>

definition writeLocation ::
  "geo_env \<Rightarrow> uid \<Rightarrow> updateLocationDto \<Rightarrow> locationSharingMode \<Rightarrow> string option \<Rightarrow> time \<Rightarrow>
   'a location_db_scheme \<Rightarrow> 'a location_db_scheme" where
  "writeLocation env userId dto sharing city now w =
     (let shard = userLocationShard city;
          w1 = w\<lparr>rd_geo := (rd_geo w)(shard := geoadd userId (geoCell env (ul_lng dto, ul_lat dto)) (rd_geo w shard)),
                 rd_status := (rd_status w)(userId \<mapsto>
                   (\<lparr>st_online = True, st_inParty = truthy (ul_partyId dto), st_privacyMode = Some sharing,
                     st_lastPing = Some now, st_heading = ul_heading dto, st_speed = ul_speed dto,
                     st_city = city\<rparr>, Some (now + USER_STATUS_TTL * 1000))),
                 rd_ping := (rd_ping w)(userId \<mapsto> (now, Some (now + USER_PING_TTL * 1000))),
                 rd_shards := sadd shard (rd_shards w)\<rparr>
      in case truthy (ul_partyId dto) of
           None \<Rightarrow> w1
         | Some p \<Rightarrow> w1\<lparr>rd_members := (rd_members w1)(p := sadd userId (rd_members w1 p))\<rparr>)"

definition updateLocation ::
  "geo_env \<Rightarrow> uid \<Rightarrow> updateLocationDto \<Rightarrow> riderContext \<Rightarrow> time \<Rightarrow> 'a location_db_scheme \<Rightarrow>
   (updateLocationResult, 'a location_db_scheme) outcome" where
  "updateLocation env userId dto user now w =
     (if rc_isBanned user then throwHttp Forbidden ''user_banned'' FORBIDDEN w
      else let (count, w1) = incrRate userId ''location_ping'' 1 now w in
        if count > locationPingPerSecond
        then ret \<lparr>ur_accepted = False, ur_shard = userLocationShard (orElse (ul_city dto) (rc_city user)),
                  ur_skipped = Some RATE_LIMITED_PING\<rparr> w1
        else if rc_locationSharing user = LS_OFF \<and> truthy (ul_partyId dto) = None
        then ret \<lparr>ur_accepted = False, ur_shard = userLocationShard (rc_city user),
                  ur_skipped = Some SHARING_DISABLED\<rparr> (removeFromRedis userId (rc_city user) now w1)
        else let city = truthy (orElse (ul_city dto) (rc_city user))
             in ret \<lparr>ur_accepted = True, ur_shard = userLocationShard city, ur_skipped = None\<rparr>
                  (writeLocation env userId dto (rc_locationSharing user) city now w1))"

text \<open>\<open>PUT /location/update\<close>\<close>

definition putLocation ::
  "geo_env \<Rightarrow> uid \<Rightarrow> updateLocationDto \<Rightarrow> time \<Rightarrow> 'a location_db_scheme \<Rightarrow>
   (updateLocationResult, 'a location_db_scheme) outcome" where
  "putLocation env userId dto now w =
     (case findUser userId w of
        None \<Rightarrow> throwHttp NotFound ''user_not_found'' NOT_FOUND w
      | Some u \<Rightarrow> updateLocation env userId dto
          \<lparr>rc_city = u_city u, rc_locationSharing = u_locationSharing u, rc_isBanned = u_isBanned u\<rparr> now w)"

text \<open>\<open>PUT /location/sharing\<close>\<close>

definition updateSharing ::
  "uid \<Rightarrow> locationSharingMode \<Rightarrow> time \<Rightarrow> 'a location_db_scheme \<Rightarrow>
   (locationSharingMode, 'a location_db_scheme) outcome" where
  "updateSharing userId mode now w =
     and_then (updateUser userId (\<lambda>u. u\<lparr>u_locationSharing := mode\<rparr>) w) (\<lambda>_ w1.
       ret mode (if mode = LS_OFF
                 then removeFromRedis userId (Option.bind (findUser userId w1) u_city) now w1 else w1))"

section \<open>Queries\<close>

record nearbyRider =
  nr_userId :: uid
  nr_lat :: rat
  nr_lng :: rat
  nr_distance :: rat
  nr_inParty :: bool
  nr_partyId :: "uid option"
  nr_heading :: "rat option"
  nr_privacyMode :: locationSharingMode
  nr_lastPingAt :: time

definition riderOf :: "uid \<times> rat \<times> (rat \<times> rat) \<Rightarrow> statusHash \<Rightarrow> nearbyRider" where
  "riderOf hit st =
     \<lparr>nr_userId = fst hit, nr_lat = snd (snd (snd hit)), nr_lng = fst (snd (snd hit)), nr_distance = fst (snd hit),
      nr_inParty = (st_inParty st \<noteq> None), nr_partyId = st_inParty st, nr_heading = st_heading st,
      nr_privacyMode = (case st_privacyMode st of None \<Rightarrow> LS_OFF | Some m \<Rightarrow> m),
      nr_lastPingAt = (case st_lastPing st of None \<Rightarrow> 0 | Some t \<Rightarrow> t)\<rparr>"

definition queryNearbyRaw ::
  "geo_env \<Rightarrow> rat \<Rightarrow> rat \<Rightarrow> rat \<Rightarrow> string option \<Rightarrow> nat option \<Rightarrow> time \<Rightarrow> 'a location_db_scheme \<Rightarrow>
   nearbyRider list \<times> string" where
  "queryNearbyRaw env lat lng radius city limit now w =
     (let shard = userLocationShard city;
          raw = geosearch env (lng, lat) radius (case limit of None \<Rightarrow> 50 | Some n \<Rightarrow> n) (rd_geo w shard)
      in (List.map_filter (\<lambda>hit. map_option (riderOf hit) (statusGet now (fst hit) w)) raw, shard))"

definition hasBlock :: "uid \<Rightarrow> uid \<Rightarrow> 'a core_db_scheme \<Rightarrow> bool" where
  "hasBlock viewerId targetId w \<longleftrightarrow> findBlockEitherWay viewerId targetId w \<noteq> None"

definition acceptedFollow :: "uid \<Rightarrow> uid \<Rightarrow> 'a core_db_scheme \<Rightarrow> bool" where
  "acceptedFollow a b w \<longleftrightarrow>
     (case findUnique followKey (a, b) (follows w) of None \<Rightarrow> False | Some r \<Rightarrow> fo_status r = F_ACCEPTED)"

definition canViewBasedOnPrivacy ::
  "uid \<Rightarrow> uid \<Rightarrow> locationSharingMode \<Rightarrow> bool \<Rightarrow> bool \<Rightarrow> 'a core_db_scheme \<Rightarrow> bool" where
  "canViewBasedOnPrivacy viewerId targetId mode targetInParty viewerInSameParty w =
     (if viewerId = targetId then True
      else if viewerInSameParty \<and> targetInParty then True
      else if mode = LS_OFF then False
      else if mode = LS_PUBLIC then \<not> hasBlock viewerId targetId w
      else if mode = PARTY_ONLY then False
      else if hasBlock viewerId targetId w then False
      else if mode = FOLLOWERS_ONLY then acceptedFollow viewerId targetId w
      else if mode = MUTUAL_FOLLOWERS
      then acceptedFollow viewerId targetId w \<and> acceptedFollow targetId viewerId w
      else False)"

datatype nearbyFilter = NEARBY | FRIENDS | PARTIES | EVENTS

record nearbyQuery =
  nq_lat :: rat
  nq_lng :: rat
  nq_radius :: rat
  nq_filter :: nearbyFilter
  nq_limit :: nat
  nq_city :: "string option"

record mapRider =
  mr_userId :: uid
  mr_username :: string
  mr_avatarUrl :: "string option"
  mr_lat :: rat
  mr_lng :: rat
  mr_distance :: rat
  mr_inParty :: bool
  mr_partyId :: "uid option"
  mr_heading :: "rat option"
  mr_lastPingAt :: time

definition getMutualFollowerIds :: "uid \<Rightarrow> 'a core_db_scheme \<Rightarrow> uid set" where
  "getMutualFollowerIds userId w =
     (let followingIds = map fo_followingId
            (filter (\<lambda>f. fo_followerId f = userId \<and> fo_status f = F_ACCEPTED) (follows w))
      in if followingIds = [] then {}
         else set (map fo_followerId
           (filter (\<lambda>f. fo_followerId f \<in> set followingIds \<and> fo_followingId f = userId \<and> fo_status f = F_ACCEPTED)
              (follows w))))"

text \<open>The body of the loop of \<open>getNearbyRiders\<close>: a rider is shown or skipped.\<close>

definition showRider ::
  "uid \<Rightarrow> nearbyFilter \<Rightarrow> uid set option \<Rightarrow> uid option \<Rightarrow> nearbyRider \<Rightarrow> 'a core_db_scheme \<Rightarrow> mapRider option" where
  "showRider viewerId flt allowedIds viewerParty r w =
     (if (case allowedIds of None \<Rightarrow> False | Some ids \<Rightarrow> nr_userId r \<notin> ids) then None
      else if flt = PARTIES \<and> \<not> nr_inParty r then None
      else let viewerInSameParty = (truthy viewerParty \<noteq> None \<and> nr_partyId r \<noteq> None \<and> viewerParty = nr_partyId r)
        in if \<not> canViewBasedOnPrivacy viewerId (nr_userId r) (nr_privacyMode r) (nr_inParty r) viewerInSameParty w
           then None
           else case findUser (nr_userId r) w of
                  None \<Rightarrow> None
                | Some u \<Rightarrow>
                    if u_deletedAt u \<noteq> None \<or> u_isBanned u then None
                    else Some \<lparr>mr_userId = nr_userId r, mr_username = u_username u, mr_avatarUrl = u_avatarUrl u,
                      mr_lat = nr_lat r, mr_lng = nr_lng r, mr_distance = nr_distance r, mr_inParty = nr_inParty r,
                      mr_partyId = nr_partyId r, mr_heading = nr_heading r, mr_lastPingAt = nr_lastPingAt r\<rparr>)"

definition getNearbyRiders ::
  "geo_env \<Rightarrow> uid \<Rightarrow> nearbyQuery \<Rightarrow> string option \<Rightarrow> uid option \<Rightarrow> time \<Rightarrow> 'a location_db_scheme \<Rightarrow>
   mapRider list \<times> string" where
  "getNearbyRiders env viewerId query viewerCity viewerParty now w =
     (let (riders, shard) = queryNearbyRaw env (nq_lat query) (nq_lng query) (nq_radius query)
            (orElse (nq_city query) viewerCity) (Some (nq_limit query)) now w;
          candidates = filter (\<lambda>r. nr_userId r \<noteq> viewerId) riders;
          allowedIds = (if nq_filter query = FRIENDS then Some (getMutualFollowerIds viewerId w) else None)
      in (List.map_filter (\<lambda>r. showRider viewerId (nq_filter query) allowedIds viewerParty r w) candidates, shard))"

definition getRiderCountPerShard :: "'a location_db_scheme \<Rightarrow> (string \<times> nat) list" where
  "getRiderCountPerShard w =
     sort_key (\<lambda>c. - int (snd c)) (map (\<lambda>s. (s, length (rd_geo w s))) (rd_shards w))"

section \<open>Cleanup\<close>

text \<open>A member of a shard is a zombie when its ping key is missing, zero or too old.\<close>

definition isZombie :: "time \<Rightarrow> 'a location_db_scheme \<Rightarrow> uid \<Rightarrow> bool" where
  "isZombie now w u =
     (let lastPing = (case pingGet now u w of None \<Rightarrow> 0 | Some t \<Rightarrow> t)
      in lastPing = 0 \<or> lastPing < now - ZOMBIE_THRESHOLD * 1000)"

definition sweepShard ::
  "time \<Rightarrow> string \<Rightarrow> nat \<times> nat \<times> 'a location_db_scheme \<Rightarrow> nat \<times> nat \<times> 'a location_db_scheme" where
  "sweepShard now shard acc =
     (case acc of (removed, scanned, w) \<Rightarrow>
        let members = map fst (rd_geo w shard);
            toRemove = filter (isZombie now w) members
        in (removed + length toRemove, scanned + length members,
            w\<lparr>rd_geo := (rd_geo w)(shard := filter (\<lambda>e. fst e \<notin> set toRemove) (rd_geo w shard)),
              rd_status := (\<lambda>u. if u \<in> set toRemove then hsetOffline now (rd_status w u) else rd_status w u)\<rparr>))"

definition sweepLocations ::
  "time \<Rightarrow> 'a location_db_scheme \<Rightarrow> (nat \<times> nat \<times> nat) \<times> 'a location_db_scheme" where
  "sweepLocations now w =
     (let (removed, scanned, w') = fold (sweepShard now) (rd_shards w) (0, 0, w)
      in ((removed, scanned, length (rd_shards w)), w'))"

section \<open>Live sessions and stored pings\<close>

record liveSessionInput =
  li_sourceType :: sessionSource
  li_sourceId :: "uid option"
  li_visibilityMode :: locationSharingMode
  li_expiresInMinutes :: int

definition startLiveSession ::
  "uid \<Rightarrow> liveSessionInput \<Rightarrow> time \<Rightarrow> 'a location_db_scheme \<Rightarrow> (liveSession option, 'a location_db_scheme) outcome" where
  "startLiveSession userId i now w =
     (let expiresAt = now + li_expiresInMinutes i * 60 * 1000
      in if userId \<notin> ls_userId ` set (liveSessions w) \<and> \<not> userExists userId w then raise ForeignKeyViolation w
         else let t = upsertRow ls_userId userId
                    \<lparr>ls_id = newUuid w, ls_userId = userId, ls_sourceType = li_sourceType i, ls_sourceId = li_sourceId i,
                     ls_visibilityMode = li_visibilityMode i, ls_startedAt = now, ls_expiresAt = expiresAt,
                     ls_isActive = True\<rparr>
                    (\<lambda>s. s\<lparr>ls_sourceType := li_sourceType i, ls_sourceId := li_sourceId i,
                           ls_visibilityMode := li_visibilityMode i, ls_startedAt := now,
                           ls_expiresAt := expiresAt, ls_isActive := True\<rparr>) (liveSessions w);
                  w1 = (takeUuid w)\<lparr>liveSessions := t\<rparr>
              in ret (findUnique ls_userId userId t) w1)"

definition stopLiveSession ::
  "uid \<Rightarrow> 'a location_db_scheme \<Rightarrow> (unit, 'a location_db_scheme) outcome" where
  "stopLiveSession userId w =
     (case findUnique ls_userId userId (liveSessions w) of
        None \<Rightarrow> ret () w
      | Some _ \<Rightarrow> write_or RecordNotFound
          (updateRow ls_userId userId (\<lambda>s. s\<lparr>ls_isActive := False\<rparr>) (liveSessions w))
          (\<lambda>t. w\<lparr>liveSessions := t\<rparr>) w)"

text \<open>\<open>POST /location/session/stop\<close>\<close>

definition stopSession ::
  "uid \<Rightarrow> time \<Rightarrow> 'a location_db_scheme \<Rightarrow> (unit, 'a location_db_scheme) outcome" where
  "stopSession userId now w =
     and_then (stopLiveSession userId w) (\<lambda>_ w1.
       ret () (removeFromRedis userId (Option.bind (findUser userId w1) u_city) now w1))"

datatype pingOutcome = INSERTED | SKIPPED

definition persistPing ::
  "locationPing \<Rightarrow> 'a location_db_scheme \<Rightarrow> (pingOutcome, 'a location_db_scheme) outcome" where
  "persistPing p w =
     (case createRow pingKey p (locationPings w) of
        None \<Rightarrow> ret SKIPPED w
      | Some t \<Rightarrow>
          if lp_sessionId p \<notin> ls_id ` set (liveSessions w) \<or> \<not> userExists (lp_userId p) w
          then raise ForeignKeyViolation w
          else ret INSERTED (w\<lparr>locationPings := t\<rparr>))"

definition purgeOldPings :: "time \<Rightarrow> 'a location_db_scheme \<Rightarrow> nat \<times> 'a location_db_scheme" where
  "purgeOldPings now w =
     (let old = (\<lambda>p. lp_timestamp p < now - PING_RETENTION_MS)
      in (countRows old (locationPings w), w\<lparr>locationPings := deleteMany old (locationPings w)\<rparr>))"

section \<open>Who may see a rider\<close>

text \<open>The rules that the comment of \<open>canViewBasedOnPrivacy\<close> lists, as a table over the modes.\<close>

fun sharedWith :: "locationSharingMode \<Rightarrow> bool \<Rightarrow> bool \<Rightarrow> bool" where
  "sharedWith LS_PUBLIC out back = True"
| "sharedWith FOLLOWERS_ONLY out back = out"
| "sharedWith MUTUAL_FOLLOWERS out back = (out \<and> back)"
| "sharedWith LS_OFF out back = False"
| "sharedWith GROUP_MEMBERS out back = False"
| "sharedWith PARTY_ONLY out back = False"

definition mayLocate :: "uid \<Rightarrow> uid \<Rightarrow> locationSharingMode \<Rightarrow> bool \<Rightarrow> 'a core_db_scheme \<Rightarrow> bool" where
  "mayLocate viewer target mode sameParty w \<longleftrightarrow>
     viewer = target \<or> sameParty \<or>
     \<not> blockedEitherWay viewer target w \<and>
     sharedWith mode (acceptedFollow viewer target w) (acceptedFollow target viewer w)"

lemma canView_iff:
  "canViewBasedOnPrivacy viewer target mode inParty same w \<longleftrightarrow>
     mayLocate viewer target mode (same \<and> inParty) w"
  by (cases mode) (auto simp: canViewBasedOnPrivacy_def mayLocate_def hasBlock_def blockedEitherWay_def)

lemma mutuals_iff:
  assumes "unique followKey (follows w)"
  shows "u \<in> getMutualFollowerIds viewer w \<longleftrightarrow> acceptedFollow viewer u w \<and> acceptedFollow u viewer w"
proof -
  have acc: "acceptedFollow a b w \<longleftrightarrow>
      (\<exists>r \<in> set (follows w). fo_followerId r = a \<and> fo_followingId r = b \<and> fo_status r = F_ACCEPTED)" for a b
    using findUnique_iff [OF assms, of "(a, b)"] findUnique_Some [of followKey "(a, b)" "follows w"]
    by (cases "findUnique followKey (a, b) (follows w)") (force simp: acceptedFollow_def)+
  show ?thesis unfolding acc getMutualFollowerIds_def by (auto simp: filter_empty_conv Let_def; force)
qed

section \<open>The invariant of the live positions\<close>

text \<open>
  Every shard in use is indexed and lists a rider once; a status that carries a sharing mode
  or a party expires 60 s after its last ping, one without is what an offline mark leaves;
  a ping key expires 30 s after it was written.
\<close>

definition geoOk :: "(string \<Rightarrow> (uid \<times> (rat \<times> rat)) list) \<Rightarrow> string list \<Rightarrow> bool" where
  "geoOk g idx \<longleftrightarrow> (\<forall>s. distinct (map fst (g s)) \<and> (g s \<noteq> [] \<longrightarrow> s \<in> set idx))"

definition hashOk :: "statusHash \<times> time option \<Rightarrow> bool" where
  "hashOk h = (case st_lastPing (fst h) of
     None \<Rightarrow> st_privacyMode (fst h) = None \<and> st_inParty (fst h) = None
   | Some t \<Rightarrow> st_privacyMode (fst h) \<noteq> None \<and> snd h = Some (t + USER_STATUS_TTL * 1000))"

definition statusOk :: "(uid \<Rightarrow> (statusHash \<times> time option) option) \<Rightarrow> bool" where
  "statusOk m \<longleftrightarrow> (\<forall>u h. m u = Some h \<longrightarrow> hashOk h)"

definition pingOk :: "(uid \<Rightarrow> (time \<times> time option) option) \<Rightarrow> bool" where
  "pingOk m \<longleftrightarrow> (\<forall>u p. m u = Some p \<longrightarrow> snd p = Some (fst p + USER_PING_TTL * 1000))"

definition locationInv :: "'a location_db_scheme \<Rightarrow> bool" where
  "locationInv w \<longleftrightarrow> geoOk (rd_geo w) (rd_shards w) \<and> statusOk (rd_status w) \<and> pingOk (rd_ping w)"

definition locationView where
  "locationView w = (rd_geo w, rd_shards w, rd_status w, rd_ping w)"

lemma locationInv_cong: "locationView w = locationView v \<Longrightarrow> locationInv w = locationInv v"
  by (simp add: locationInv_def locationView_def)

lemma geoOk_filter: "geoOk g idx \<Longrightarrow> geoOk (g(s := filter P (g s))) idx"
  by (cases "g s = []") (auto simp: geoOk_def distinct_map_filter)

lemma geoOk_add: "geoOk g idx \<Longrightarrow> geoOk (g(s := geoadd u pos (g s))) (sadd s idx)"
  by (auto simp: geoOk_def geoadd_def distinct_map_filter)

lemma hashOk_offline: "(\<And>h. h0 = Some h \<Longrightarrow> hashOk h) \<Longrightarrow> hsetOffline now h0 = Some h' \<Longrightarrow> hashOk h'"
  by (auto simp: hsetOffline_def Let_def hashOk_def split: option.splits if_splits)

lemma statusOk_offline: "statusOk m \<Longrightarrow> statusOk (m(u := hsetOffline now (m u)))"
  unfolding statusOk_def using hashOk_offline by (metis fun_upd_apply)

lemma statusOk_offlines: "statusOk m \<Longrightarrow> statusOk (\<lambda>u. if P u then hsetOffline now (m u) else m u)"
  unfolding statusOk_def using hashOk_offline by metis

lemma removeFromRedis_inv: "locationInv w \<Longrightarrow> locationInv (removeFromRedis u city now w)"
  by (simp add: locationInv_def removeFromRedis_def Let_def georem_def geoOk_filter statusOk_offline)
    (simp add: pingOk_def)

lemma writeLocation_inv: "locationInv w \<Longrightarrow> locationInv (writeLocation env u dto m city now w)"
  by (simp add: locationInv_def writeLocation_def Let_def geoOk_add split: option.split)
    (auto simp: pingOk_def statusOk_def hashOk_def)

lemma incrRate_locationView [simp]: "locationView (snd (incrRate u a s now w)) = locationView w"
  by (simp add: incrRate_cases locationView_def)

lemma updateLocation_inv:
  assumes "locationInv w" shows "locationInv (snd (updateLocation env u dto ctx now w))"
proof -
  have "locationInv (snd (incrRate u ''location_ping'' 1 now w))"
    using assms by (subst locationInv_cong [where v = w]) simp_all
  then show ?thesis using assms
    by (auto simp: updateLocation_def Let_def writeLocation_inv removeFromRedis_inv split: prod.split)
qed

lemma updateUser_locationView [simp]: "locationView (snd (updateUser i f w)) = locationView w"
  by (simp add: updateUser_cases locationView_def)

lemma updateSharing_inv:
  assumes "locationInv w" shows "locationInv (snd (updateSharing u m now w))"
  unfolding updateSharing_def
proof (rule inv_and_then)
  show "locationInv (snd (updateUser u (\<lambda>v. v\<lparr>u_locationSharing := m\<rparr>) w))"
    using assms by (subst locationInv_cong [where v = w]) simp_all
qed (auto simp: removeFromRedis_inv)

lemma stopLiveSession_view [simp]: "locationView (snd (stopLiveSession u w)) = locationView w"
  by (simp add: stopLiveSession_def write_or_def locationView_def split: option.split)

lemma stopSession_inv:
  assumes "locationInv w" shows "locationInv (snd (stopSession u now w))"
  unfolding stopSession_def
proof (rule inv_and_then)
  show "locationInv (snd (stopLiveSession u w))"
    using assms by (subst locationInv_cong [where v = w]) simp_all
qed (auto simp: removeFromRedis_inv)

lemma startLiveSession_view [simp]: "locationView (snd (startLiveSession u i now w)) = locationView w"
  by (simp add: startLiveSession_def locationView_def Let_def takeUuid_def)

lemma persistPing_view [simp]: "locationView (snd (persistPing p w)) = locationView w"
  by (simp add: persistPing_def locationView_def split: option.split)

lemma purgeOldPings_view [simp]: "locationView (snd (purgeOldPings now w)) = locationView w"
  by (simp add: purgeOldPings_def locationView_def Let_def)

subsection \<open>The sweep\<close>

lemma isZombie_cong: "rd_ping w = rd_ping v \<Longrightarrow> isZombie now w u = isZombie now v u"
  by (simp add: isZombie_def pingGet_def)

lemma not_zombies: "filter (\<lambda>e. fst e \<notin> set (filter Z (map fst l))) l = filter (\<lambda>e. \<not> Z (fst e)) l"
  by (rule filter_cong) auto

lemma sweepShard_fields:
  "rd_geo (snd (snd (sweepShard now s (a, b, w)))) = (rd_geo w)(s := filter (\<lambda>e. \<not> isZombie now w (fst e)) (rd_geo w s))"
  "rd_ping (snd (snd (sweepShard now s (a, b, w)))) = rd_ping w"
  "rd_shards (snd (snd (sweepShard now s (a, b, w)))) = rd_shards w"
  by (simp_all add: sweepShard_def Let_def not_zombies del: set_filter)

lemma sweepShard_inv: "locationInv w \<Longrightarrow> locationInv (snd (snd (sweepShard now s (a, b, w))))"
  by (simp add: locationInv_def sweepShard_def Let_def geoOk_filter statusOk_offlines)

lemma sweep_fold:
  assumes "snd (snd (fold (sweepShard now) ss (a, b, w))) = v"
  shows "(locationInv w \<longrightarrow> locationInv v) \<and> rd_ping v = rd_ping w \<and> rd_shards v = rd_shards w \<and>
    rd_geo v = (\<lambda>s. if s \<in> set ss then filter (\<lambda>e. \<not> isZombie now w (fst e)) (rd_geo w s) else rd_geo w s)"
  using assms
proof (induction ss arbitrary: a b w)
  case Nil
  then show ?case by auto
next
  case (Cons s ss)
  obtain a' b' u where step: "sweepShard now s (a, b, w) = (a', b', u)" by (metis prod_cases3)
  note f = sweepShard_fields [of now s a b w, unfolded step, simplified]
  have z: "isZombie now u x = isZombie now w x" for x using f(2) by (rule isZombie_cong)
  have inv: "locationInv w \<longrightarrow> locationInv u" using sweepShard_inv [of w now s a b] step by simp
  have "snd (snd (fold (sweepShard now) ss (a', b', u))) = v" using Cons.prems step by simp
  from Cons.IH [OF this] show ?case using f inv z by auto
qed

lemma sweepLocations_fields:
  "snd (sweepLocations now w) = snd (snd (fold (sweepShard now) (rd_shards w) (0, 0, w)))"
  by (simp add: sweepLocations_def split: prod.split)

lemma sweepLocations_inv: "locationInv w \<Longrightarrow> locationInv (snd (sweepLocations now w))"
  using sweep_fold [OF sweepLocations_fields [of now w, symmetric]] by blast

lemma sweepLocations_geo:
  assumes "locationInv w"
  shows "rd_geo (snd (sweepLocations now w)) s = filter (\<lambda>e. \<not> isZombie now w (fst e)) (rd_geo w s)"
  using assms sweep_fold [OF sweepLocations_fields [of now w, symmetric]]
  by (cases "rd_geo w s = []") (auto simp: locationInv_def geoOk_def)

lemma isZombie_iff:
  assumes "locationInv w"
  shows "\<not> isZombie now w u \<longleftrightarrow> (\<exists>t ex. rd_ping w u = Some (t, ex) \<and> t \<noteq> 0 \<and> now < t + USER_PING_TTL * 1000)"
proof (cases "rd_ping w u")
  case None
  then show ?thesis by (simp add: isZombie_def pingGet_def)
next
  case (Some p)
  then have "snd p = Some (fst p + USER_PING_TTL * 1000)" using assms by (simp add: locationInv_def pingOk_def)
  with Some show ?thesis by (cases p) (auto simp: isZombie_def pingGet_def location_constants)
qed

section \<open>Histories\<close>

datatype locationOp =
    PutLocation uid updateLocationDto time
  | UpdateSharing uid locationSharingMode time
  | StartSession uid liveSessionInput time
  | StopSession uid time
  | PersistPing locationPing
  | PurgePings time
  | SweepLocations time

fun locationStep :: "geo_env \<Rightarrow> locationOp \<Rightarrow> 'a location_db_scheme \<Rightarrow> 'a location_db_scheme" where
  "locationStep env (PutLocation u dto now) w = snd (putLocation env u dto now w)"
| "locationStep env (UpdateSharing u m now) w = snd (updateSharing u m now w)"
| "locationStep env (StartSession u i now) w = snd (startLiveSession u i now w)"
| "locationStep env (StopSession u now) w = snd (stopSession u now w)"
| "locationStep env (PersistPing p) w = snd (persistPing p w)"
| "locationStep env (PurgePings now) w = snd (purgeOldPings now w)"
| "locationStep env (SweepLocations now) w = snd (sweepLocations now w)"

lemma putLocation_inv: "locationInv w \<Longrightarrow> locationInv (snd (putLocation env u dto now w))"
  by (simp add: putLocation_def updateLocation_inv split: option.split)

interpretation positions: invariant_system "locationStep env" locationInv for env
proof
  fix w :: "'a location_db_scheme" and x
  assume "locationInv w"
  then show "locationInv (locationStep env x w)"
    by (cases x)
      (simp_all add: putLocation_inv updateSharing_inv stopSession_inv sweepLocations_inv
        locationInv_cong [OF startLiveSession_view] locationInv_cong [OF persistPing_view]
        locationInv_cong [OF purgeOldPings_view])
qed

section \<open>The sweep is exact\<close>

text \<open>
  After any history of location operations a sweep leaves a rider in a shard exactly when
  the rider was there and pinged within the last 30 seconds: the ping key, which lives 30 s,
  decides, and the threshold of five minutes never does.
\<close>

theorem location_sweep_exact:
  assumes "locationInv w0" and "w = fold (locationStep env) ops w0"
  shows "e \<in> set (rd_geo (snd (sweepLocations now w)) s) \<longleftrightarrow>
    e \<in> set (rd_geo w s) \<and>
    (\<exists>t ex. rd_ping w (fst e) = Some (t, ex) \<and> t \<noteq> 0 \<and> now < t + 30000)"
proof -
  have inv: "locationInv w" unfolding assms(2) by (rule positions.run_inv [OF assms(1)])
  show ?thesis using sweepLocations_geo [OF inv, of now s] isZombie_iff [OF inv, of now "fst e"]
    by (auto simp: location_constants)
qed

section \<open>What the map shows\<close>

lemma in_map_filter: "y \<in> set (List.map_filter f xs) \<longleftrightarrow> (\<exists>x \<in> set xs. f x = Some y)"
  by (induction xs) (auto split: option.split)

lemma queryNearbyRaw_rider:
  assumes "r \<in> set (fst (queryNearbyRaw env lat lng radius city limit now w))"
  obtains st where "statusGet now (nr_userId r) w = Some st" and "nr_partyId r = st_inParty st"
    and "nr_inParty r \<longleftrightarrow> st_inParty st \<noteq> None"
    and "nr_privacyMode r = (case st_privacyMode st of None \<Rightarrow> LS_OFF | Some m \<Rightarrow> m)"
    and "nr_lastPingAt r = (case st_lastPing st of None \<Rightarrow> 0 | Some t \<Rightarrow> t)"
    and "nr_userId r \<in> fst ` set (rd_geo w (userLocationShard city))"
proof -
  let ?raw = "geosearch env (lng, lat) radius (case limit of None \<Rightarrow> 50 | Some n \<Rightarrow> n) (rd_geo w (userLocationShard city))"
  from assms obtain hit st where hit: "hit \<in> set ?raw" "statusGet now (fst hit) w = Some st" "r = riderOf hit st"
    by (auto simp: queryNearbyRaw_def Let_def in_map_filter)
  have "fst hit \<in> fst ` set (rd_geo w (userLocationShard city))"
    using in_set_takeD [OF hit(1) [unfolded geosearch_def]] by force
  then show thesis using hit(2,3) by (intro that [of st]) (simp_all add: riderOf_def)
qed

lemma getNearbyRiders_shown:
  assumes "m \<in> set (fst (getNearbyRiders env viewer q city party now w))"
  obtains r ids where "showRider viewer (nq_filter q) ids party r w = Some m" and "nr_userId r \<noteq> viewer"
    and "r \<in> set (fst (queryNearbyRaw env (nq_lat q) (nq_lng q) (nq_radius q) (orElse (nq_city q) city) (Some (nq_limit q)) now w))"
    and "nq_filter q = FRIENDS \<Longrightarrow> ids = Some (getMutualFollowerIds viewer w)"
  using assms by (auto simp: getNearbyRiders_def Let_def in_map_filter split: prod.splits)

lemma showRider_Some:
  assumes "showRider viewer flt ids party r w = Some m"
  obtains u where "findUser (nr_userId r) w = Some u" and "u_deletedAt u = None" and "\<not> u_isBanned u"
    and "mr_userId m = nr_userId r" and "mr_lastPingAt m = nr_lastPingAt r" and "mr_partyId m = nr_partyId r"
    and "mayLocate viewer (nr_userId r) (nr_privacyMode r) (party \<noteq> None \<and> party = nr_partyId r \<and> nr_inParty r) w"
    and "\<And>a. ids = Some a \<Longrightarrow> nr_userId r \<in> a" and "flt = PARTIES \<Longrightarrow> nr_inParty r"
proof -
  have view: "canViewBasedOnPrivacy viewer (nr_userId r) (nr_privacyMode r) (nr_inParty r)
      (truthy party \<noteq> None \<and> nr_partyId r \<noteq> None \<and> party = nr_partyId r) w"
    using assms by (auto simp: showRider_def Let_def split: if_splits)
  then have "mayLocate viewer (nr_userId r) (nr_privacyMode r) (party \<noteq> None \<and> party = nr_partyId r \<and> nr_inParty r) w"
    by (auto simp: canView_iff mayLocate_def)
  with assms that show thesis
    by (auto simp: showRider_def Let_def split: if_splits option.splits)
qed




section \<open>Turning sharing off\<close>

lemma removeFromRedis_shard: "u \<notin> fst ` set (rd_geo (removeFromRedis u city now w) (userLocationShard city))"
  by (auto simp: removeFromRedis_def Let_def georem_def)

text \<open>
  Once a rider turns sharing off, the map of the city of the rider's profile, asked by
  anybody with any filter at any time before the rider's next ping, does not show the rider.
\<close>

theorem sharing_off_hides:
  assumes "updateSharing u LS_OFF now w = (Inr m, w')" and "findUser u w = Some r"
    and "userLocationShard (orElse (nq_city q) city) = userLocationShard (u_city r)"
  shows "u \<notin> mr_userId ` set (fst (getNearbyRiders env viewer q city party t w'))"
proof -
  obtain w1 where w1: "w' = removeFromRedis u (Option.bind (findUser u w1) u_city) now w1"
      "w1 = w\<lparr>users := updateMany (\<lambda>v. u_id v = u) (\<lambda>v. v\<lparr>u_locationSharing := LS_OFF\<rparr>) (users w)\<rparr>"
    using assms(1) by (auto simp: updateSharing_def updateUser_cases ret_def split: if_splits)
  have "Option.bind (findUser u w1) u_city = u_city r"
    using assms(2) findUnique_updateMany [of u_id "\<lambda>v. v\<lparr>u_locationSharing := LS_OFF\<rparr>" u "\<lambda>v. u_id v = u" "users w"]
    by (simp add: w1(2) findUser_def)
  then have gone: "u \<notin> fst ` set (rd_geo w' (userLocationShard (u_city r)))"
    using removeFromRedis_shard [of u "u_city r" now w1] w1(1) by simp
  show ?thesis
  proof
    assume "u \<in> mr_userId ` set (fst (getNearbyRiders env viewer q city party t w'))"
    then obtain s where s: "s \<in> set (fst (getNearbyRiders env viewer q city party t w'))" "mr_userId s = u" by blast
    obtain x ids where x: "showRider viewer (nq_filter q) ids party x w' = Some s"
      and q: "x \<in> set (fst (queryNearbyRaw env (nq_lat q) (nq_lng q) (nq_radius q) (orElse (nq_city q) city)
        (Some (nq_limit q)) t w'))"
      using getNearbyRiders_shown [OF s(1)] by blast
    have "mr_userId s = nr_userId x" using showRider_Some [OF x] by metis
    moreover have "nr_userId x \<in> fst ` set (rd_geo w' (userLocationShard (u_city r)))"
      using queryNearbyRaw_rider [OF q] assms(3) by metis
    ultimately show False using gone s(2) by simp
  qed
qed

section \<open>Stored pings\<close>

lemma persistPing_Inr:
  assumes "persistPing p w = (Inr r, w')"
  shows "pingKey p \<in> pingKey ` set (locationPings w')"
    and "locationPings w' = (if r = INSERTED then locationPings w @ [p] else locationPings w)"
  using assms by (auto simp: persistPing_def createRow_def outcome split: option.splits if_splits)

lemma persistPing_dup: "pingKey p \<in> pingKey ` set (locationPings w) \<Longrightarrow> persistPing p w = (Inr SKIPPED, w)"
  by (simp add: persistPing_def createRow_def ret_def)

text \<open>
  The write-behind insert is idempotent: after it has succeeded, a second delivery of a ping
  of the same user and timestamp, whatever else it carries, is skipped and writes nothing.
\<close>

theorem persistPing_idempotent:
  assumes "persistPing p w = (Inr r, w')" and "lp_userId q = lp_userId p" and "lp_timestamp q = lp_timestamp p"
  shows "persistPing q w' = (Inr SKIPPED, w')"
  using persistPing_Inr(1) [OF assms(1)] assms(2,3) by (intro persistPing_dup) simp

section \<open>A sample\<close>

text \<open>Rider \<open>a\<close> leads the party \<open>u\<close>; \<open>b\<close> and \<open>c\<close> ride alone, and \<open>b\<close> shares with everybody.\<close>

definition sampleGeo :: geo_env where
  "sampleGeo = \<lparr>geoDist = (\<lambda>p q. abs (fst p - fst q) + abs (snd p - snd q)), geoCell = (\<lambda>p. p)\<rparr>"

definition sampleLocations :: location_db where
  "sampleLocations =
     snd (updateSharing ''b'' LS_PUBLIC 11 (party_db.extend (snd (createParty ''a'' samplePartyDto 10 (sampleParties\<lparr>uuidNext := 1\<rparr>)))
       \<lparr>rd_geo = (\<lambda>_. []), rd_shards = [], rd_status = (\<lambda>_. None), rd_ping = (\<lambda>_. None), liveSessions = [],
        locationPings = []\<rparr>))"

definition samplePing :: updateLocationDto where
  "samplePing = \<lparr>ul_lat = 1, ul_lng = 2, ul_heading = None, ul_speed = None, ul_city = None, ul_partyId = None\<rparr>"

definition sampleNearby :: nearbyQuery where
  "sampleNearby = \<lparr>nq_lat = 1, nq_lng = 1, nq_radius = 10, nq_filter = NEARBY, nq_limit = 5, nq_city = None\<rparr>"

lemma sampleLocations_inv: "locationInv sampleLocations"
proof -
  let ?w = "party_db.extend (snd (createParty ''a'' samplePartyDto 10 (sampleParties\<lparr>uuidNext := 1\<rparr>)))
       \<lparr>rd_geo = (\<lambda>_. []), rd_shards = [], rd_status = (\<lambda>_. None), rd_ping = (\<lambda>_. None), liveSessions = [],
        locationPings = []\<rparr> :: location_db"
  have "locationInv ?w"
    by (simp add: locationInv_def geoOk_def statusOk_def pingOk_def party_db.extend_def)
  then show ?thesis unfolding sampleLocations_def by (rule updateSharing_inv)
qed

theorem location_sweep_exact_witness:
  "(''b'', (2, 1)) \<in> set (rd_geo (snd (sweepLocations 20000 (fold (locationStep sampleGeo)
      [PutLocation ''b'' samplePing 1000] sampleLocations))) ''user_locations:global'') \<and>
   (''b'', (2, 1)) \<notin> set (rd_geo (snd (sweepLocations 31000 (fold (locationStep sampleGeo)
      [PutLocation ''b'' samplePing 1000] sampleLocations))) ''user_locations:global'')"
proof -
  let ?w = "fold (locationStep sampleGeo) [PutLocation ''b'' samplePing 1000] sampleLocations"
  have "(''b'', (2, 1)) \<in> set (rd_geo ?w ''user_locations:global'')" by code_simp
  moreover have "rd_ping ?w ''b'' = Some (1000, Some 31000)" by code_simp
  ultimately show ?thesis
    using location_sweep_exact [OF sampleLocations_inv refl, of "(''b'', (2, 1))" 20000 sampleGeo
        "[PutLocation ''b'' samplePing 1000]" "''user_locations:global''"]
      location_sweep_exact [OF sampleLocations_inv refl, of "(''b'', (2, 1))" 31000 sampleGeo
        "[PutLocation ''b'' samplePing 1000]" "''user_locations:global''"]
    by simp
qed


lemma sharing_off_run:
  "\<exists>w'. updateSharing ''b'' LS_OFF 1500 (snd (putLocation sampleGeo ''b'' samplePing 1000 sampleLocations)) = (Inr LS_OFF, w')"
proof -
  have "(case fst (updateSharing ''b'' LS_OFF 1500 (snd (putLocation sampleGeo ''b'' samplePing 1000 sampleLocations))) of
    Inl e \<Rightarrow> False | Inr m \<Rightarrow> m = LS_OFF)" by code_simp
  from ran_ok [OF this] show ?thesis by blast
qed

theorem sharing_off_hides_witness:
  "''b'' \<notin> mr_userId ` set (fst (getNearbyRiders sampleGeo ''c'' sampleNearby None None 1600
     (snd (updateSharing ''b'' LS_OFF 1500 (snd (putLocation sampleGeo ''b'' samplePing 1000 sampleLocations))))))"
proof -
  let ?w = "snd (putLocation sampleGeo ''b'' samplePing 1000 sampleLocations)"
  obtain w' where run: "updateSharing ''b'' LS_OFF 1500 ?w = (Inr LS_OFF, w')" using sharing_off_run by blast
  have "map_option u_city (findUser ''b'' ?w) = Some None" by code_simp
  then obtain r where "findUser ''b'' ?w = Some r" "u_city r = None" by auto
  from sharing_off_hides [OF run this(1), of sampleNearby None sampleGeo "''c''" None 1600] this(2) run
  show ?thesis by (simp add: sampleNearby_def orElse_def)
qed

theorem persistPing_idempotent_witness:
  "persistPing \<lparr>lp_sessionId = ''u'', lp_userId = ''b'', lp_latitude = 3, lp_longitude = 4, lp_heading = None,
     lp_speed = None, lp_accuracy = None, lp_batteryLevel = None, lp_timestamp = 7\<rparr>
     (sampleLocations\<lparr>locationPings := [\<lparr>lp_sessionId = ''u'', lp_userId = ''b'', lp_latitude = 1, lp_longitude = 2,
        lp_heading = None, lp_speed = None, lp_accuracy = None, lp_batteryLevel = None, lp_timestamp = 7\<rparr>]\<rparr>) =
   (Inr SKIPPED, sampleLocations\<lparr>locationPings := [\<lparr>lp_sessionId = ''u'', lp_userId = ''b'', lp_latitude = 1, lp_longitude = 2,
        lp_heading = None, lp_speed = None, lp_accuracy = None, lp_batteryLevel = None, lp_timestamp = 7\<rparr>]\<rparr>)"
  by (rule persistPing_idempotent [OF persistPing_dup [of "\<lparr>lp_sessionId = ''u'', lp_userId = ''b'', lp_latitude = 1,
     lp_longitude = 2, lp_heading = None, lp_speed = None, lp_accuracy = None, lp_batteryLevel = None, lp_timestamp = 7\<rparr>"]])
    simp_all

section \<open>What the model shows\<close>

text \<open>
  \<open>PUT /location/update\<close> adds the caller to the Redis member set of any party it names: \<open>c\<close>,
  who has no member row in the party of \<open>a\<close>, is refused a signal before the update and
  signals the party after it.
\<close>

lemma outsider_joins_by_ping:
  "(case fst (recordSignal ''u'' ''c'' ''REGROUP'' ''c'' 900 sampleLocations) of Inl e \<Rightarrow> True | Inr r \<Rightarrow> False) \<and>
   (let w = snd (putLocation sampleGeo ''c'' (samplePing\<lparr>ul_partyId := Some ''u''\<rparr>) 1000 sampleLocations)
    in ''c'' \<in> set (rd_members w ''u'') \<and> find (\<lambda>m. pm_userId m = ''c'') (partyMembers w) = None \<and>
       fst (recordSignal ''u'' ''c'' ''REGROUP'' ''c'' 1100 w) = Inr (True, 1))"
  by code_simp

text \<open>
  A rider who pinged for another city than the one of the profile and then turns sharing off
  stays on the map of that city: only the shard of the profile's city is cleaned.
\<close>

lemma sharing_off_other_city_shown:
  "(let w = snd (updateSharing ''b'' LS_OFF 1500
         (snd (putLocation sampleGeo ''b'' (samplePing\<lparr>ul_city := Some ''Ankara''\<rparr>) 1000 sampleLocations)))
    in map u_locationSharing (filter (\<lambda>u. u_id u = ''b'') (users w)) = [LS_OFF] \<and>
       map mr_userId (fst (getNearbyRiders sampleGeo ''c'' (sampleNearby\<lparr>nq_city := Some ''ankara''\<rparr>) None None 2000 w)) = [''b''])"
  by code_simp

text \<open>Two riders of one party see each other even when one has blocked the other.\<close>

lemma party_bypasses_block:
  "canViewBasedOnPrivacy ''a'' ''b'' LS_PUBLIC True True
     (sampleCore\<lparr>blocks := [\<lparr>bl_id = ''x'', bl_initiatorId = ''b'', bl_targetId = ''a'', bl_createdAt = 0\<rparr>]\<rparr>)"
  by code_simp

text \<open>The key of the shard of a city \<open>_shards\<close> is the key of the set of the shards.\<close>

lemma shard_index_collision: "userLocationShard (Some ''_Shards'') = userLocationShardIndex"
  by code_simp

end
