(* ===== verification/Job_Queue.thy ===== *)
theory Job_Queue
  imports Prelude
begin

text \<open>
  The queues of BullMQ as the services use them (\<open>common/queue/typed-queue.factory.ts\<close>): a queue
  is the list of its jobs. A job is added once per id, waits until its time, and is attempted
  by the worker; a failed attempt is repeated after an exponential backoff until the number of
  attempts is used up. The account and media services have a queue each.
\<close>

datatype jobState = J_DELAYED | J_COMPLETED | J_FAILED

record 'd job =
  jb_id :: string
  jb_data :: 'd
  jb_runAt :: time
  jb_attempts :: nat
  jb_state :: jobState

record jobOptions =
  jo_attempts :: nat
  jo_backoff :: int

text \<open>Whether a handler returned.\<close>

fun isOk :: "failure + 'a \<Rightarrow> bool" where
  "isOk (Inr x) = True" | "isOk (Inl e) = False"

text \<open>A job whose id is in the queue already is not added again.\<close>

definition addJob :: "string \<Rightarrow> 'd \<Rightarrow> time \<Rightarrow> 'd job list \<Rightarrow> 'd job list" where
  "addJob jobId d runAt jobs =
     (case createRow jb_id \<lparr>jb_id = jobId, jb_data = d, jb_runAt = runAt, jb_attempts = 0, jb_state = J_DELAYED\<rparr> jobs of
        None \<Rightarrow> jobs | Some t \<Rightarrow> t)"

definition removeJob :: "string \<Rightarrow> 'd job list \<Rightarrow> 'd job list" where
  "removeJob jobId jobs = deleteMany (\<lambda>j. jb_id j = jobId) jobs"

text \<open>The job that a worker may take at a time.\<close>

definition dueJob :: "string \<Rightarrow> time \<Rightarrow> 'd job list \<Rightarrow> 'd job option" where
  "dueJob jobId now jobs =
     (case findUnique jb_id jobId jobs of
        None \<Rightarrow> None
      | Some j \<Rightarrow> if jb_state j \<noteq> J_DELAYED \<or> now < jb_runAt j then None else Some j)"

definition afterAttempt :: "jobOptions \<Rightarrow> bool \<Rightarrow> time \<Rightarrow> 'd job \<Rightarrow> 'd job" where
  "afterAttempt opt done now j =
     (if done then j\<lparr>jb_state := J_COMPLETED\<rparr>
      else if jb_attempts j + 1 < jo_attempts opt
      then j\<lparr>jb_attempts := jb_attempts j + 1, jb_runAt := now + jo_backoff opt * 2 ^ jb_attempts j\<rparr>
      else j\<lparr>jb_attempts := jb_attempts j + 1, jb_state := J_FAILED\<rparr>)"

definition attempted :: "jobOptions \<Rightarrow> string \<Rightarrow> bool \<Rightarrow> time \<Rightarrow> 'd job list \<Rightarrow> 'd job list" where
  "attempted opt jobId done now jobs = updateMany (\<lambda>j. jb_id j = jobId) (afterAttempt opt done now) jobs"

section \<open>What stays of a job\<close>

lemma afterAttempt_fields [simp]:
  "jb_id (afterAttempt opt d now j) = jb_id j" "jb_data (afterAttempt opt d now j) = jb_data j"
  by (simp_all add: afterAttempt_def)

lemma set_addJob: "j \<in> set (addJob i d t jobs) \<Longrightarrow> j \<in> set jobs \<or> jb_id j = i \<and> jb_data j = d"
  by (auto simp: addJob_def createRow_def split: if_splits)

lemma addJob_fresh:
  "i \<notin> jb_id ` set jobs \<Longrightarrow>
   addJob i d t jobs = jobs @ [\<lparr>jb_id = i, jb_data = d, jb_runAt = t, jb_attempts = 0, jb_state = J_DELAYED\<rparr>]"
  by (simp add: addJob_def createRow_def)

lemma find_addJob_fresh:
  assumes "i \<notin> jb_id ` set jobs"
  shows "findUnique jb_id i (addJob i d t jobs) =
     Some \<lparr>jb_id = i, jb_data = d, jb_runAt = t, jb_attempts = 0, jb_state = J_DELAYED\<rparr>"
proof -
  have "findUnique jb_id i jobs = None" using assms by (simp add: findUnique_None)
  then show ?thesis by (simp add: addJob_fresh [OF assms] findUnique_append)
qed

lemma addJob_unique: "unique jb_id jobs \<Longrightarrow> unique jb_id (addJob i d t jobs)"
  by (simp add: addJob_def createRow_def)

lemma set_attempted: "j \<in> set (attempted opt i d now jobs) \<Longrightarrow> \<exists>k \<in> set jobs. jb_id j = jb_id k \<and> jb_data j = jb_data k"
  by (auto simp: attempted_def set_updateMany split: if_splits)

lemma attempted_ids: "map jb_id (attempted opt i d now jobs) = map jb_id jobs"
  by (simp add: attempted_def map_updateMany)

lemma find_attempted:
  "findUnique jb_id k (attempted opt i d now jobs) =
     map_option (\<lambda>j. if jb_id j = i then afterAttempt opt d now j else j) (findUnique jb_id k jobs)"
  unfolding attempted_def by (rule findUnique_updateMany) simp

lemma dueJob_Some:
  "dueJob i now jobs = Some j \<longleftrightarrow>
     findUnique jb_id i jobs = Some j \<and> jb_state j = J_DELAYED \<and> jb_runAt j \<le> now"
  by (auto simp: dueJob_def split: option.splits)

text \<open>An attempt brings a waiting job nearer to its end.\<close>

lemma afterAttempt_ends:
  "jb_state (afterAttempt opt d now j) = J_DELAYED \<Longrightarrow> jb_state j = J_DELAYED \<Longrightarrow>
   \<not> d \<and> jb_attempts (afterAttempt opt d now j) = jb_attempts j + 1 \<and> jb_attempts j + 1 < jo_attempts opt \<and>
   jb_runAt (afterAttempt opt d now j) = now + jo_backoff opt * 2 ^ jb_attempts j"
  by (auto simp: afterAttempt_def split: if_splits)

end
