(* ===== verification/Account.thy ===== *)
theory Account
  imports Auth Job_Queue
begin

text \<open>
  \<open>account.service.ts\<close>, \<open>retention.worker.ts\<close> and the job handling of \<open>deletion.queue.ts\<close>: the
  deletion of an account after thirty days of grace, its cancellation by the owner or by a
  login, the delayed job and the hourly batch that carry it out. The state is the
  authentication service's, extended by the jobs of the queue. A deleted row of \<open>User\<close> takes
  the rows of this state that refer to it along (\<open>onDelete: Cascade\<close>); the tables of the other
  services are not part of this state. \<open>isoDate\<close> is \<open>Date.toISOString\<close>, \<open>up\<close> tells whether the queue
  can be reached during a call.
\<close>

section \<open>State\<close>

text \<open>\<open>AccountDeletionJob\<close>, the data of a job of the queue.\<close>

record deletionJobData =
  dj_userId :: uid
  dj_scheduledFor :: time
  dj_reason :: "string option"

record account_db = auth_db +
  deletionJobs :: "deletionJobData job list"

definition DELETION_GRACE_MS :: int where "DELETION_GRACE_MS = 30 * 24 * 3600 * 1000"
definition deletionJobOptions :: jobOptions where "deletionJobOptions = \<lparr>jo_attempts = 3, jo_backoff = 60000\<rparr>"
definition RETENTION_BATCH :: nat where "RETENTION_BATCH = 50"

definition pendingDeletion :: "accountDeletion \<Rightarrow> bool" where
  "pendingDeletion d \<longleftrightarrow> de_executedAt d = None \<and> de_cancelledAt d = None"

section \<open>Status\<close>

record deletionStatus =
  ds_pending :: bool
  ds_requestedAt :: "time option"
  ds_scheduledFor :: "time option"
  ds_daysRemaining :: "int option"

definition toStatus :: "time \<Rightarrow> accountDeletion option \<Rightarrow> deletionStatus" where
  "toStatus now rec =
     (case rec of
        None \<Rightarrow> \<lparr>ds_pending = False, ds_requestedAt = None, ds_scheduledFor = None, ds_daysRemaining = None\<rparr>
      | Some d \<Rightarrow>
          if de_cancelledAt d \<noteq> None \<or> de_executedAt d \<noteq> None
          then \<lparr>ds_pending = False, ds_requestedAt = None, ds_scheduledFor = None, ds_daysRemaining = None\<rparr>
          else let remainingMs = de_scheduledFor d - now
               in \<lparr>ds_pending = True, ds_requestedAt = Some (de_requestedAt d), ds_scheduledFor = Some (de_scheduledFor d),
                   ds_daysRemaining = Some (max 0 (- ((- remainingMs) div (24 * 3600 * 1000))))\<rparr>)"

definition getStatus :: "uid \<Rightarrow> time \<Rightarrow> 'a auth_db_scheme \<Rightarrow> deletionStatus" where
  "getStatus userId now w = toStatus now (findUnique de_userId userId (accountDeletions w))"

section \<open>The queue\<close>

definition jobIdOf :: "(time \<Rightarrow> string) \<Rightarrow> uid \<Rightarrow> time \<Rightarrow> string" where
  "jobIdOf isoDate userId scheduledFor = ''deletion:'' @ userId @ '':'' @ isoDate scheduledFor"

definition enqueueDelayed ::
  "(time \<Rightarrow> string) \<Rightarrow> bool \<Rightarrow> deletionJobData \<Rightarrow> int \<Rightarrow> time \<Rightarrow> 'a account_db_scheme \<Rightarrow>
   (string, 'a account_db_scheme) outcome" where
  "enqueueDelayed isoDate up job delayMs now w =
     (if \<not> up then raise (PlainError ''queue_unavailable'') w
      else let jobId = jobIdOf isoDate (dj_userId job) (dj_scheduledFor job)
           in ret jobId (w\<lparr>deletionJobs := addJob jobId job (now + max 0 delayMs) (deletionJobs w)\<rparr>))"

definition cancelByJobId ::
  "bool \<Rightarrow> string \<Rightarrow> 'a account_db_scheme \<Rightarrow> (bool, 'a account_db_scheme) outcome" where
  "cancelByJobId up jobId w =
     (if \<not> up then raise (PlainError ''queue_unavailable'') w
      else case findUnique jb_id jobId (deletionJobs w) of
             None \<Rightarrow> ret False w
           | Some j \<Rightarrow> if jb_state j \<noteq> J_DELAYED then ret False w
               else ret True (w\<lparr>deletionJobs := removeJob jobId (deletionJobs w)\<rparr>))"

section \<open>Request and cancellation\<close>

definition updateDeletion ::
  "uid \<Rightarrow> (accountDeletion \<Rightarrow> accountDeletion) \<Rightarrow> 'a auth_db_scheme \<Rightarrow> (unit, 'a auth_db_scheme) outcome" where
  "updateDeletion userId f w =
     write_or RecordNotFound (updateRow de_userId userId f (accountDeletions w)) (\<lambda>t. w\<lparr>accountDeletions := t\<rparr>) w"

definition openDeletion ::
  "uid \<Rightarrow> string option \<Rightarrow> time \<Rightarrow> time \<Rightarrow> 'a auth_db_scheme \<Rightarrow> (accountDeletion option, 'a auth_db_scheme) outcome" where
  "openDeletion userId reason now scheduledFor w = transaction (\<lambda>tx.
     and_then (updateUser userId (\<lambda>u. u\<lparr>u_deletedAt := Some now\<rparr>) tx) (\<lambda>_ tx1.
       let t = upsertRow de_userId userId
             \<lparr>de_userId = userId, de_requestedAt = now, de_scheduledFor = scheduledFor, de_reason = reason,
              de_cancelledAt = None, de_executedAt = None, de_jobId = None\<rparr>
             (\<lambda>d. d\<lparr>de_requestedAt := now, de_scheduledFor := scheduledFor, de_reason := reason,
                    de_cancelledAt := None, de_executedAt := None\<rparr>) (accountDeletions tx1)
       in ret (findUnique de_userId userId t) (tx1\<lparr>accountDeletions := t\<rparr>))) w"

text \<open>The block \<open>try { enqueueDelayed; update jobId } catch { warn }\<close>.\<close>

definition scheduleJob ::
  "(time \<Rightarrow> string) \<Rightarrow> bool \<Rightarrow> uid \<Rightarrow> string option \<Rightarrow> time \<Rightarrow> time \<Rightarrow> 'a account_db_scheme \<Rightarrow> 'a account_db_scheme" where
  "scheduleJob isoDate up userId reason scheduledFor now w =
     snd (and_then (enqueueDelayed isoDate up \<lparr>dj_userId = userId, dj_scheduledFor = scheduledFor, dj_reason = reason\<rparr>
         (scheduledFor - now) now w) (\<lambda>jobId w1.
       if jobId = [] then ret () w1 else updateDeletion userId (\<lambda>d. d\<lparr>de_jobId := Some jobId\<rparr>) w1))"

definition requestDeletion ::
  "(time \<Rightarrow> string) \<Rightarrow> bool \<Rightarrow> uid \<Rightarrow> string option \<Rightarrow> time \<Rightarrow> 'a account_db_scheme \<Rightarrow>
   (deletionStatus, 'a account_db_scheme) outcome" where
  "requestDeletion isoDate up userId reason now w =
     (case findUser userId w of
        None \<Rightarrow> throwHttp NotFound ''user_not_found'' NOT_FOUND w
      | Some _ \<Rightarrow>
          (let old = findUnique de_userId userId (accountDeletions w)
           in if (case old of None \<Rightarrow> False | Some d \<Rightarrow> pendingDeletion d) then ret (toStatus now old) w
              else let scheduledFor = now + DELETION_GRACE_MS
                   in and_then (openDeletion userId reason now scheduledFor w) (\<lambda>record w1.
                        ret (toStatus now record) (scheduleJob isoDate up userId reason scheduledFor now w1))))"

definition closeDeletion ::
  "uid \<Rightarrow> time \<Rightarrow> 'a auth_db_scheme \<Rightarrow> (unit, 'a auth_db_scheme) outcome" where
  "closeDeletion userId now w = transaction (\<lambda>tx.
     and_then (updateUser userId (\<lambda>u. u\<lparr>u_deletedAt := None\<rparr>) tx) (\<lambda>_ tx1.
       updateDeletion userId (\<lambda>d. d\<lparr>de_cancelledAt := Some now\<rparr>) tx1)) w"

text \<open>The block \<open>if (record.jobId) try { cancelByJobId } catch { warn }\<close>.\<close>

definition dropJob :: "bool \<Rightarrow> accountDeletion \<Rightarrow> 'a account_db_scheme \<Rightarrow> 'a account_db_scheme" where
  "dropJob up rec w =
     (case de_jobId rec of None \<Rightarrow> w | Some j \<Rightarrow> if j = [] then w else snd (cancelByJobId up j w))"

definition cancelDeletionOnLogin ::
  "bool \<Rightarrow> uid \<Rightarrow> time \<Rightarrow> 'a account_db_scheme \<Rightarrow> (bool, 'a account_db_scheme) outcome" where
  "cancelDeletionOnLogin up userId now w =
     (case findUnique de_userId userId (accountDeletions w) of
        None \<Rightarrow> ret False w
      | Some rec \<Rightarrow>
          if de_executedAt rec \<noteq> None \<or> de_cancelledAt rec \<noteq> None then ret False w
          else and_then (closeDeletion userId now w) (\<lambda>_ w1. ret True (dropJob up rec w1)))"

text \<open>The subscriber of \<open>AUTH_LOGIN_EVENT\<close>: a failure is logged and swallowed.\<close>

definition onAuthLogin :: "bool \<Rightarrow> bus_event \<Rightarrow> time \<Rightarrow> 'a account_db_scheme \<Rightarrow> 'a account_db_scheme" where
  "onAuthLogin up payload now w =
     (case payload of AuthLoginSuccess userId _ \<Rightarrow> snd (cancelDeletionOnLogin up userId now w) | _ \<Rightarrow> w)"

definition cancelDeletion ::
  "bool \<Rightarrow> uid \<Rightarrow> time \<Rightarrow> 'a account_db_scheme \<Rightarrow> (deletionStatus, 'a account_db_scheme) outcome" where
  "cancelDeletion up userId now w =
     (case findUnique de_userId userId (accountDeletions w) of
        None \<Rightarrow> throwHttp BadRequest ''no_active_deletion'' VALIDATION_FAILED w
      | Some rec \<Rightarrow>
          if de_executedAt rec \<noteq> None then throwHttp BadRequest ''no_active_deletion'' VALIDATION_FAILED w
          else if de_cancelledAt rec \<noteq> None then ret (toStatus now (Some rec)) w
          else and_then (closeDeletion userId now w) (\<lambda>_ w1.
                 ret (toStatus now (Some (rec\<lparr>de_cancelledAt := Some now\<rparr>))) (dropJob up rec w1)))"

section \<open>Deletion\<close>

text \<open>\<open>user.delete\<close>: the row, and by cascade the rows that refer to it.\<close>

definition deleteUser :: "uid \<Rightarrow> 'a auth_db_scheme \<Rightarrow> (unit, 'a auth_db_scheme) outcome" where
  "deleteUser userId w =
     (if \<not> userExists userId w then raise RecordNotFound w
      else ret () (w\<lparr>users := deleteMany (\<lambda>u. u_id u = userId) (users w),
        blocks := deleteMany (\<lambda>b. bl_initiatorId b = userId \<or> bl_targetId b = userId) (blocks w),
        follows := deleteMany (\<lambda>f. fo_followerId f = userId \<or> fo_followingId f = userId) (follows w),
        notifications := deleteMany (\<lambda>n. no_userId n = userId) (notifications w),
        notificationPrefs := deleteMany (\<lambda>p. fst p = userId) (notificationPrefs w),
        userSettings := deleteMany (\<lambda>s. fst s = userId) (userSettings w),
        accountDeletions := deleteMany (\<lambda>d. de_userId d = userId) (accountDeletions w),
        resetTokens := deleteMany (\<lambda>r. rt_userId r = userId) (resetTokens w),
        emailTokens := deleteMany (\<lambda>r. et_userId r = userId) (emailTokens w)\<rparr>))"

definition executeSingleDeletion :: "uid \<Rightarrow> 'a auth_db_scheme \<Rightarrow> (unit, 'a auth_db_scheme) outcome" where
  "executeSingleDeletion userId w = transaction (deleteUser userId) w"

text \<open>The processor that \<open>onModuleInit\<close> registers with the queue.\<close>

definition processDeletionJob :: "uid \<Rightarrow> 'a auth_db_scheme \<Rightarrow> (unit, 'a auth_db_scheme) outcome" where
  "processDeletionJob userId w =
     (case findUnique de_userId userId (accountDeletions w) of
        None \<Rightarrow> ret () w
      | Some rec \<Rightarrow>
          if de_cancelledAt rec \<noteq> None then ret () w
          else if de_executedAt rec \<noteq> None then ret () w
          else executeSingleDeletion userId w)"

text \<open>The worker takes a job that is due; a failed attempt is repeated after the backoff, thrice at most.\<close>

definition runDeletionJob :: "string \<Rightarrow> time \<Rightarrow> 'a account_db_scheme \<Rightarrow> 'a account_db_scheme" where
  "runDeletionJob jobId now w =
     (case dueJob jobId now (deletionJobs w) of
        None \<Rightarrow> w
      | Some j \<Rightarrow>
          let (r, w1) = processDeletionJob (dj_userId (jb_data j)) w
          in w1\<lparr>deletionJobs := attempted deletionJobOptions jobId (isOk r) now (deletionJobs w1)\<rparr>)"

definition dueDeletion :: "time \<Rightarrow> accountDeletion \<Rightarrow> bool" where
  "dueDeletion now d \<longleftrightarrow> de_scheduledFor d \<le> now \<and> pendingDeletion d"

text \<open>One round of the loop: a failure is counted and the loop goes on.\<close>

definition executeOne ::
  "accountDeletion \<Rightarrow> nat \<times> nat \<times> 'a auth_db_scheme \<Rightarrow> nat \<times> nat \<times> 'a auth_db_scheme" where
  "executeOne rec acc =
     (case acc of (processed, errors, w) \<Rightarrow>
        (case transaction (deleteUser (de_userId rec)) w of
           (Inr _, w1) \<Rightarrow> (processed + 1, errors, w1)
         | (Inl _, w1) \<Rightarrow> (processed, errors + 1, w1)))"

definition executeDeletions :: "time \<Rightarrow> 'a auth_db_scheme \<Rightarrow> (nat \<times> nat) \<times> 'a auth_db_scheme" where
  "executeDeletions now w =
     (let pending = take RETENTION_BATCH (filter (dueDeletion now) (accountDeletions w));
          (processed, errors, w1) = fold executeOne pending (0, 0, w)
      in ((processed, errors), w1))"

text \<open>The hourly cron only logs the numbers.\<close>

definition runHourly :: "time \<Rightarrow> 'a auth_db_scheme \<Rightarrow> 'a auth_db_scheme" where
  "runHourly now w = snd (executeDeletions now w)"

section \<open>The lifecycle\<close>

text \<open>
  The soft-delete column and the deletion records say the same: an account is marked deleted
  exactly while a record of it is pending; a record belongs to an account, is the only one of
  it, and is scheduled thirty days after its request. \<open>lifeOk\<close> says so of the marks, by
  account, and of the records.
\<close>

definition mark :: "'a core_db_scheme \<Rightarrow> uid \<Rightarrow> time option option" where
  "mark w i = map_option u_deletedAt (findUser i w)"

definition isPending :: "accountDeletion list \<Rightarrow> uid \<Rightarrow> bool" where
  "isPending ds i \<longleftrightarrow> (\<exists>d \<in> set ds. de_userId d = i \<and> pendingDeletion d)"

definition recordOk :: "accountDeletion \<Rightarrow> bool" where
  "recordOk d \<longleftrightarrow> de_executedAt d = None \<and> de_scheduledFor d = de_requestedAt d + DELETION_GRACE_MS"

definition lifeOk :: "(uid \<Rightarrow> time option option) \<Rightarrow> accountDeletion list \<Rightarrow> bool" where
  "lifeOk mk ds \<longleftrightarrow> unique de_userId ds \<and> (\<forall>d \<in> set ds. recordOk d \<and> mk (de_userId d) \<noteq> None) \<and>
     (\<forall>i m. mk i = Some m \<longrightarrow> (m \<noteq> None) = isPending ds i)"

definition deletionInv :: "'a auth_db_scheme \<Rightarrow> bool" where
  "deletionInv w \<longleftrightarrow> unique u_id (users w) \<and> lifeOk (mark w) (accountDeletions w)"

lemma mark_users_cong: "users w = users v \<Longrightarrow> mark w = mark v"
  by (simp add: mark_def findUser_def fun_eq_iff)

lemma deletionInv_cong:
  "users w = users v \<Longrightarrow> accountDeletions w = accountDeletions v \<Longrightarrow> deletionInv w = deletionInv v"
  using mark_users_cong [of w v] by (simp add: deletionInv_def)

lemma mark_None: "mark w i = None \<longleftrightarrow> i \<notin> u_id ` set (users w)"
  by (simp add: mark_def findUser_def findUnique_None)

lemma mark_append:
  "u_id r \<notin> u_id ` set (users w) \<Longrightarrow> mark (w\<lparr>users := users w @ [r]\<rparr>) = (mark w)(u_id r \<mapsto> u_deletedAt r)"
  by (auto simp: mark_def findUser_def findUnique_append fun_eq_iff findUnique_None [THEN iffD2] split: option.split)

lemma mark_update:
  assumes "\<And>r. u_id (f r) = u_id r" and "\<And>r. u_deletedAt (f r) = m" and "u \<in> u_id ` set (users w)"
  shows "mark (w\<lparr>users := updateMany (\<lambda>r. u_id r = u) f (users w)\<rparr>) = (mark w)(u \<mapsto> m)"
proof
  fix i
  have "findUnique u_id u (users w) \<noteq> None" using assms(3) by (simp add: findUnique_None)
  then show "mark (w\<lparr>users := updateMany (\<lambda>r. u_id r = u) f (users w)\<rparr>) i = ((mark w)(u \<mapsto> m)) i"
    using column_update [of u_id f u_deletedAt i u "users w"] assms(1,2)
    by (cases "findUnique u_id i (users w)")
      (auto simp: mark_def findUser_def findUnique_updateMany dest: findUnique_Some)
qed

lemma mark_keep: "keepsAccount f \<Longrightarrow> mark (w\<lparr>users := updateMany Q f (users w)\<rparr>) = mark w"
  by (auto simp: mark_def findUser_def fun_eq_iff findUnique_updateMany keepsAccount_def option.map_comp comp_def
      intro!: map_option_cong)

lemma mark_delete: "mark (w\<lparr>users := deleteMany (\<lambda>r. u_id r = u) (users w)\<rparr>) = (mark w)(u := None)"
  by (auto simp: mark_def findUser_def fun_eq_iff findUnique_deleteMany_same findUnique_deleteMany_other)

lemma keepsAccount_unique: "keepsAccount f \<Longrightarrow> unique u_id (updateMany Q f us) = unique u_id us"
  by (rule unique_updateMany) (simp add: keepsAccount_def)

subsection \<open>The authentication service keeps it\<close>

lemma lifeOk_new: "lifeOk mk ds \<Longrightarrow> mk i = None \<Longrightarrow> lifeOk (mk(i \<mapsto> None)) ds"
  by (auto simp: lifeOk_def isPending_def)

interpretation deletion_auth: auth_writes deletionInv
proof (unfold_locales, goal_cases)
  case (1 w f Q)
  then show ?case by (simp add: deletionInv_def mark_keep keepsAccount_unique)
next
  case (2 w i d now)
  then show ?case using mark_append [of "newUserRow i d now" w] lifeOk_new [of "mark w" "accountDeletions w" i]
    by (simp add: deletionInv_def mark_None newUserRow_def)
qed (simp_all add: deletionInv_def mark_def [abs_def] findUser_def [abs_def] takeRnd_def takeUuid_def issueTokenPair_def Let_def
    revokeRefresh_def revokeAllForUser_def case_prod_beta)

subsection \<open>Opening, closing and carrying out a deletion\<close>

lemma isPending_update:
  assumes "\<And>d. de_userId (f d) = de_userId d"
  shows "isPending (updateMany (\<lambda>d. de_userId d = u) f ds) i \<longleftrightarrow>
    (\<exists>d \<in> set ds. de_userId d = i \<and> pendingDeletion (if i = u then f d else d))"
  unfolding isPending_def set_updateMany bex_simps by (intro bex_cong refl) (auto simp: assms)

lemma isPending_upsert:
  assumes "de_userId new = u" and "pendingDeletion new" and "\<And>d. de_userId (f d) = de_userId d" and "\<And>d. pendingDeletion (f d)"
  shows "isPending (upsertRow de_userId u new f ds) i \<longleftrightarrow> i = u \<or> isPending ds i"
proof (cases "u \<in> de_userId ` set ds")
  case True
  then show ?thesis using assms
    by (simp add: upsertRow_def isPending_update) (auto simp: isPending_def)
next
  case False
  then show ?thesis using assms by (auto simp: upsertRow_def isPending_def)
qed

lemma isPending_cancel:
  assumes "\<And>d. de_userId (f d) = de_userId d" and "\<And>d. \<not> pendingDeletion (f d)"
  shows "isPending (updateMany (\<lambda>d. de_userId d = u) f ds) i \<longleftrightarrow> i \<noteq> u \<and> isPending ds i"
  unfolding isPending_update [OF assms(1)] using assms(2) by (auto simp: isPending_def)

lemma isPending_delete: "isPending (deleteMany (\<lambda>d. de_userId d = u) ds) i \<longleftrightarrow> i \<noteq> u \<and> isPending ds i"
  by (auto simp: isPending_def)

lemma lifeOk_open:
  assumes "lifeOk mk ds" and "de_userId new = u" and "pendingDeletion new" and "recordOk new"
    and "\<And>d. de_userId (f d) = de_userId d" and "\<And>d. pendingDeletion (f d)" and "\<And>d. recordOk (f d)"
  shows "lifeOk (mk(u \<mapsto> Some now)) (upsertRow de_userId u new f ds)"
proof -
  have "unique de_userId (upsertRow de_userId u new f ds)"
    using assms by (intro upsertRow_unique) (simp_all add: lifeOk_def)
  moreover have "\<forall>d \<in> set (upsertRow de_userId u new f ds). recordOk d \<and> (mk(u \<mapsto> Some now)) (de_userId d) \<noteq> None"
    using assms by (auto simp: lifeOk_def upsertRow_def set_updateMany)
  ultimately show ?thesis
    using assms isPending_upsert [of new u f ds] by (auto simp: lifeOk_def)
qed

lemma lifeOk_close:
  assumes "lifeOk mk ds"
  shows "lifeOk (mk(u \<mapsto> None)) (updateMany (\<lambda>d. de_userId d = u) (\<lambda>d. d\<lparr>de_cancelledAt := Some now\<rparr>) ds)"
  using assms isPending_cancel [of "\<lambda>d. d\<lparr>de_cancelledAt := Some now\<rparr>" u ds]
  by (auto simp: lifeOk_def unique_updateMany set_updateMany recordOk_def pendingDeletion_def)

lemma lifeOk_delete:
  "lifeOk mk ds \<Longrightarrow> lifeOk (mk(u := None)) (deleteMany (\<lambda>d. de_userId d = u) ds)"
  by (auto simp: lifeOk_def unique_deleteMany isPending_delete)

lemma lifeOk_jobs: "lifeOk mk ds \<Longrightarrow> lifeOk mk (updateMany (\<lambda>d. de_userId d = u) (\<lambda>d. d\<lparr>de_jobId := j\<rparr>) ds)"
proof -
  have "isPending (updateMany (\<lambda>d. de_userId d = u) (\<lambda>d. d\<lparr>de_jobId := j\<rparr>) ds) i = isPending ds i" for i
    by (subst isPending_update) (auto simp: isPending_def pendingDeletion_def)
  then show "lifeOk mk ds \<Longrightarrow> ?thesis"
    by (auto simp: lifeOk_def unique_updateMany set_updateMany recordOk_def)
qed

subsection \<open>Every operation keeps it\<close>

lemma openDeletion_cases:
  "openDeletion u reason now sched w =
     (if u \<in> u_id ` set (users w)
      then (let t = upsertRow de_userId u
                 \<lparr>de_userId = u, de_requestedAt = now, de_scheduledFor = sched, de_reason = reason,
                  de_cancelledAt = None, de_executedAt = None, de_jobId = None\<rparr>
                 (\<lambda>d. d\<lparr>de_requestedAt := now, de_scheduledFor := sched, de_reason := reason,
                        de_cancelledAt := None, de_executedAt := None\<rparr>) (accountDeletions w)
            in (Inr (findUnique de_userId u t),
                w\<lparr>users := updateMany (\<lambda>r. u_id r = u) (\<lambda>r. r\<lparr>u_deletedAt := Some now\<rparr>) (users w), accountDeletions := t\<rparr>))
      else (Inl RecordNotFound, w))"
  by (simp add: openDeletion_def transaction_def updateUser_cases Let_def ret_def)

lemma closeDeletion_cases:
  "closeDeletion u now w =
     (if u \<in> u_id ` set (users w) \<and> u \<in> de_userId ` set (accountDeletions w)
      then (Inr (), w\<lparr>users := updateMany (\<lambda>r. u_id r = u) (\<lambda>r. r\<lparr>u_deletedAt := None\<rparr>) (users w),
              accountDeletions := updateMany (\<lambda>d. de_userId d = u) (\<lambda>d. d\<lparr>de_cancelledAt := Some now\<rparr>) (accountDeletions w)\<rparr>)
      else (Inl RecordNotFound, w))"
  by (auto simp: closeDeletion_def transaction_def updateUser_cases updateDeletion_def write_or_def updateRow_def
      raise_def ret_def)

lemma deletionInv_write:
  assumes "deletionInv w" and "u \<in> u_id ` set (users w)" and "\<And>r. u_id (f r) = u_id r" and "\<And>r. u_deletedAt (f r) = m"
    and "lifeOk ((mark w)(u \<mapsto> m)) ds"
  shows "deletionInv (w\<lparr>users := updateMany (\<lambda>r. u_id r = u) f (users w), accountDeletions := ds\<rparr>)"
proof -
  have "mark (w\<lparr>users := updateMany (\<lambda>r. u_id r = u) f (users w), accountDeletions := ds\<rparr>) = (mark w)(u \<mapsto> m)"
    using mark_update [of f m u w] assms(2-4) by (simp add: mark_def [abs_def] findUser_def)
  then show ?thesis using assms(1,3,5) by (simp add: deletionInv_def unique_updateMany)
qed

lemma openDeletion_inv:
  "deletionInv w \<Longrightarrow> deletionInv (snd (openDeletion u reason now (now + DELETION_GRACE_MS) w))"
  by (auto simp: openDeletion_cases Let_def deletionInv_def [of w] pendingDeletion_def recordOk_def
      intro!: deletionInv_write lifeOk_open)

lemma closeDeletion_inv: "deletionInv w \<Longrightarrow> deletionInv (snd (closeDeletion u now w))"
  by (auto simp: closeDeletion_cases deletionInv_def [of w] intro!: deletionInv_write lifeOk_close)

lemma deletionInv_jobs [simp]: "deletionInv (w\<lparr>deletionJobs := js\<rparr>) = deletionInv w"
  by (simp add: deletionInv_def mark_def [abs_def] findUser_def)

lemma updateJobId_inv: "deletionInv w \<Longrightarrow> deletionInv (snd (updateDeletion u (\<lambda>d. d\<lparr>de_jobId := j\<rparr>) w))"
  by (auto simp: updateDeletion_def write_or_def updateRow_def deletionInv_def mark_def [abs_def] findUser_def lifeOk_jobs
      split: option.split)

lemma enqueueDelayed_inv: "deletionInv w \<Longrightarrow> deletionInv (snd (enqueueDelayed isoDate up job delay now w))"
  by (simp add: enqueueDelayed_def Let_def split: option.split)

lemma scheduleJob_inv: "deletionInv w \<Longrightarrow> deletionInv (scheduleJob isoDate up u reason sched now w)"
  unfolding scheduleJob_def by (rule inv_and_then) (auto simp: enqueueDelayed_inv updateJobId_inv)

lemma requestDeletion_inv: "deletionInv w \<Longrightarrow> deletionInv (snd (requestDeletion isoDate up u reason now w))"
  unfolding requestDeletion_def Let_def
  by (auto split: option.split intro!: inv_and_then [where P = deletionInv] scheduleJob_inv openDeletion_inv)

lemma dropJob_tables [simp]:
  "users (dropJob up rec w) = users w" "accountDeletions (dropJob up rec w) = accountDeletions w"
  by (auto simp: dropJob_def cancelByJobId_def split: option.split)

lemma dropJob_inv: "deletionInv w \<Longrightarrow> deletionInv (dropJob up rec w)"
  by (simp add: deletionInv_def mark_def [abs_def] findUser_def)

lemma cancelOnLogin_inv: "deletionInv w \<Longrightarrow> deletionInv (snd (cancelDeletionOnLogin up u now w))"
  unfolding cancelDeletionOnLogin_def
  by (auto split: option.split intro!: inv_and_then [where P = deletionInv] closeDeletion_inv dropJob_inv)

lemma onAuthLogin_inv: "deletionInv w \<Longrightarrow> deletionInv (onAuthLogin up e now w)"
  by (simp add: onAuthLogin_def cancelOnLogin_inv split: bus_event.split)

lemma cancelDeletion_inv: "deletionInv w \<Longrightarrow> deletionInv (snd (cancelDeletion up u now w))"
  unfolding cancelDeletion_def
  by (auto split: option.split intro!: inv_and_then [where P = deletionInv] closeDeletion_inv dropJob_inv)

lemma deleteUser_fields:
  assumes "u \<in> u_id ` set (users w)"
  shows "fst (deleteUser u w) = Inr ()"
    and "users (snd (deleteUser u w)) = deleteMany (\<lambda>r. u_id r = u) (users w)"
    and "accountDeletions (snd (deleteUser u w)) = deleteMany (\<lambda>d. de_userId d = u) (accountDeletions w)"
  using assms by (simp_all add: deleteUser_def userExists_def findUser_def findUnique_None)

lemma deleteUser_absent: "u \<notin> u_id ` set (users w) \<Longrightarrow> deleteUser u w = (Inl RecordNotFound, w)"
  by (simp add: deleteUser_def userExists_def findUser_def findUnique_None raise_def)

lemma deleteUser_inv:
  assumes "deletionInv w" shows "deletionInv (snd (deleteUser u w))"
proof (cases "u \<in> u_id ` set (users w)")
  case True
  note f = deleteUser_fields [OF True]
  have "mark (snd (deleteUser u w)) = (mark w)(u := None)"
    using mark_delete [where w = w and u = u] f(2) by (simp add: mark_def [abs_def] findUser_def)
  then show ?thesis using assms lifeOk_delete [of "mark w"] f by (simp add: deletionInv_def unique_deleteMany)
qed (simp add: deleteUser_absent assms)

lemma processDeletionJob_inv: "deletionInv w \<Longrightarrow> deletionInv (snd (processDeletionJob u w))"
  by (simp add: processDeletionJob_def executeSingleDeletion_def inv_transaction deleteUser_inv split: option.split)

lemma runDeletionJob_inv:
  assumes "deletionInv w" shows "deletionInv (runDeletionJob j now w)"
  using assms processDeletionJob_inv [OF assms]
  by (auto simp: runDeletionJob_def Let_def case_prod_beta split: option.split)

lemma executeOne_state:
  "snd (snd (executeOne d (p, e, w))) = snd (transaction (deleteUser (de_userId d)) w)"
proof -
  obtain r v where run: "transaction (deleteUser (de_userId d)) w = (r, v)" by (cases "transaction (deleteUser (de_userId d)) w")
  show ?thesis by (cases r) (simp_all add: executeOne_def run)
qed

lemma executeAll_inv: "deletionInv w \<Longrightarrow> deletionInv (snd (snd (fold executeOne ds (p, e, w))))"
proof (induction ds arbitrary: p e w)
  case (Cons d ds)
  obtain p' e' v where v: "executeOne d (p, e, w) = (p', e', v)" by (metis prod_cases3)
  have "deletionInv (snd (transaction (deleteUser (de_userId d)) w))"
    by (rule inv_transaction [where P = deletionInv]) (simp_all add: Cons.prems deleteUser_inv)
  then have "deletionInv v" using executeOne_state [of d p e w] v by simp
  with Cons.IH v show ?case by simp
qed simp

lemma runHourly_inv: "deletionInv w \<Longrightarrow> deletionInv (runHourly now w)"
  using executeAll_inv [of w]
  by (simp add: runHourly_def executeDeletions_def Let_def case_prod_beta)

datatype accountOp =
    AuthOp authOp
  | RequestDeletion uid "string option" bool time
  | CancelDeletion uid bool time
  | LoginEvent bus_event bool time
  | RunDeletionJob string time
  | Hourly time

fun accountStep ::
  "auth_env \<Rightarrow> (time \<Rightarrow> string) \<Rightarrow> accountOp \<Rightarrow> 'a account_db_scheme \<Rightarrow> 'a account_db_scheme" where
  "accountStep env isoDate (AuthOp x) w = authStep env x w"
| "accountStep env isoDate (RequestDeletion u r up now) w = snd (requestDeletion isoDate up u r now w)"
| "accountStep env isoDate (CancelDeletion u up now) w = snd (cancelDeletion up u now w)"
| "accountStep env isoDate (LoginEvent e up now) w = onAuthLogin up e now w"
| "accountStep env isoDate (RunDeletionJob j now) w = runDeletionJob j now w"
| "accountStep env isoDate (Hourly now) w = runHourly now w"

interpretation deletions: invariant_system "accountStep env isoDate" deletionInv for env isoDate
proof
  fix w :: "'a account_db_scheme" and x
  assume "deletionInv w"
  then show "deletionInv (accountStep env isoDate x w)"
    by (cases x) (simp_all add: deletion_auth.P_step requestDeletion_inv cancelDeletion_inv onAuthLogin_inv
        runDeletionJob_inv runHourly_inv)
qed

text \<open>
  C8: after any history of the authentication and account services, an account is marked
  deleted exactly while a deletion of it is pending, and every deletion record belongs to an
  account that exists and is scheduled thirty days after it was requested.
\<close>

theorem deletion_lifecycle:
  assumes "deletionInv w0" and "w = fold (accountStep env isoDate) ops w0"
  shows "(\<forall>i u. findUser i w = Some u \<longrightarrow>
      (u_deletedAt u \<noteq> None \<longleftrightarrow> (\<exists>d. findUnique de_userId i (accountDeletions w) = Some d \<and> pendingDeletion d))) \<and>
    (\<forall>d \<in> set (accountDeletions w). findUser (de_userId d) w \<noteq> None \<and>
       de_scheduledFor d = de_requestedAt d + 30 * 24 * 3600 * 1000)"
proof -
  have inv: "deletionInv w" unfolding assms(2) by (rule deletions.run_inv [OF assms(1)])
  then have uniq: "unique de_userId (accountDeletions w)" by (simp add: deletionInv_def lifeOk_def)
  have "isPending (accountDeletions w) i \<longleftrightarrow> (\<exists>d. findUnique de_userId i (accountDeletions w) = Some d \<and> pendingDeletion d)" for i
    using findUnique_iff [OF uniq] by (auto simp: isPending_def)
  then show ?thesis using inv
    by (auto simp: deletionInv_def lifeOk_def mark_def recordOk_def DELETION_GRACE_MS_def)
qed

section \<open>A login takes the account back\<close>

lemma openSession_effect:
  assumes "openSession env u now w = (Inr s, w')"
  shows "se_userId s = u_id u" and "bus w' = bus w @ [AuthLoginSuccess (u_id u) now]"
  using assms by (auto simp: openSession_def updateUser_cases issueTokenPair_def Let_def ret_def emitEvent_def takeUuid_def
      split: if_splits)

lemma deletionInv_mark:
  assumes "deletionInv w" and "i \<in> u_id ` set (users w)" and "\<not> isPending (accountDeletions w) i"
  shows "mark w i = Some None"
proof -
  obtain m where m: "mark w i = Some m" using assms(2) mark_None [of w i] by auto
  then have "(m \<noteq> None) = isPending (accountDeletions w) i" using assms(1) unfolding deletionInv_def lifeOk_def by blast
  with m assms(3) show ?thesis by simp
qed

lemma cancelOnLogin_restores:
  assumes "deletionInv w" and "u \<in> u_id ` set (users w)" and "v = snd (cancelDeletionOnLogin up u now w)"
  shows "mark v u = Some None \<and> \<not> isPending (accountDeletions v) u"
proof (cases "isPending (accountDeletions w) u")
  case True
  have inv: "deletionInv v" unfolding assms(3) by (rule cancelOnLogin_inv [OF assms(1)])
  have uniq: "unique de_userId (accountDeletions w)" using assms(1) by (simp add: deletionInv_def lifeOk_def)
  from True obtain d where d: "d \<in> set (accountDeletions w)" "de_userId d = u" "pendingDeletion d"
    by (auto simp: isPending_def)
  then have found: "findUnique de_userId u (accountDeletions w) = Some d" using findUnique_iff [OF uniq] by blast
  have closed: "fst (closeDeletion u now w) = Inr ()" using d assms(2) by (auto simp: closeDeletion_cases)
  have "users v = users (snd (closeDeletion u now w))"
    and ads: "accountDeletions v = accountDeletions (snd (closeDeletion u now w))"
    using found d(3) closed
    by (cases "closeDeletion u now w"; simp add: assms(3) cancelDeletionOnLogin_def pendingDeletion_def ret_def)+
  then have "\<not> isPending (accountDeletions v) u"
    using d assms(2) isPending_cancel [of "\<lambda>d. d\<lparr>de_cancelledAt := Some now\<rparr>" u "accountDeletions w" u]
    by (auto simp: closeDeletion_cases pendingDeletion_def)
  moreover have "u \<in> u_id ` set (users v)"
    using \<open>users v = _\<close> assms(2) keys_updateMany [of "\<lambda>r. u_id r = u" u_id "\<lambda>r. r\<lparr>u_deletedAt := None\<rparr>" "users w"]
    by (simp add: closeDeletion_cases)
  ultimately show ?thesis using deletionInv_mark [OF inv] by blast
next
  case False
  have "v = w"
    using False by (auto simp: assms(3) cancelDeletionOnLogin_def isPending_def pendingDeletion_def ret_def
        dest!: findUnique_Some split: option.split)
  then show ?thesis using deletionInv_mark [OF assms(1,2) False] False by simp
qed

text \<open>
  C34: a login within the thirty days takes the account back: a login that succeeds emits the
  login event, and once the account service has handled it the account of the session is not
  marked deleted and no deletion of it is pending, whether the queue could be reached or not.
\<close>

theorem login_restores:
  assumes "deletionInv w" and "login env ident password now w = (Inr s, w')" and "v = onAuthLogin up (last (bus w')) t w'"
  shows "bus w' = bus w @ [AuthLoginSuccess (se_userId s) now] \<and>
    (\<exists>u. findUser (se_userId s) v = Some u \<and> u_deletedAt u = None) \<and>
    \<not> ds_pending (getStatus (se_userId s) t' v)"
proof -
  from login_effect [OF assms(2)] obtain u :: user
    where u: "u \<in> set (users w)" "openSession env u now w = (Inr s, w')" by blast
  note eff = openSession_effect [OF u(2)]
  have inv: "deletionInv w'" using deletion_auth.P_login [OF assms(1), of env ident password now] assms(2) by simp
  have "users w' = updateMany (\<lambda>r. u_id r = u_id u) (\<lambda>r. r\<lparr>u_lastSeenAt := Some now\<rparr>) (users w)"
    using u by (auto simp: openSession_def updateUser_cases issueTokenPair_def Let_def ret_def emitEvent_def takeUuid_def)
  then have mem: "u_id u \<in> u_id ` set (users w')"
    using u(1) keys_updateMany [of "\<lambda>r. u_id r = u_id u" u_id "\<lambda>r. r\<lparr>u_lastSeenAt := Some now\<rparr>" "users w"] by simp
  have "v = snd (cancelDeletionOnLogin up (u_id u) t w')" by (simp add: assms(3) eff onAuthLogin_def)
  from cancelOnLogin_restores [OF inv mem this] have r: "mark v (u_id u) = Some None" "\<not> isPending (accountDeletions v) (u_id u)"
    by simp_all
  have "\<not> ds_pending (getStatus (u_id u) t' v)"
    using r(2) by (auto simp: getStatus_def toStatus_def isPending_def pendingDeletion_def Let_def
        dest!: findUnique_Some split: option.split)
  with r(1) eff show ?thesis by (auto simp: mark_def)
qed

section \<open>The retention batch\<close>

lemma executeOne_ok: "deleteUser (de_userId d) w = (Inr (), v) \<Longrightarrow> executeOne d (p, e, w) = (p + 1, e, v)"
  by (simp add: executeOne_def transaction_def)

lemma executeAll_fields:
  assumes "distinct (map de_userId ds)" and "\<forall>d \<in> set ds. de_userId d \<in> u_id ` set (users w)"
    and "fold executeOne ds (p, e, w) = (p', e', v)"
  shows "p' = p + length ds \<and> e' = e \<and>
    users v = filter (\<lambda>u. u_id u \<notin> de_userId ` set ds) (users w) \<and>
    accountDeletions v = filter (\<lambda>d. de_userId d \<notin> de_userId ` set ds) (accountDeletions w)"
  using assms
proof (induction ds arbitrary: p w)
  case Nil
  then show ?case by simp
next
  case (Cons d ds)
  let ?i = "de_userId d"
  have f: "?i \<in> u_id ` set (users w)" using Cons.prems(2) by simp
  note g = deleteUser_fields [OF f]
  obtain w1 where w1: "deleteUser ?i w = (Inr (), w1)" using g(1) by (cases "deleteUser ?i w") simp
  have "fold executeOne ds (p + 1, e, w1) = (p', e', v)"
    using Cons.prems(3) executeOne_ok [OF w1] by simp
  moreover have "\<forall>x \<in> set ds. de_userId x \<in> u_id ` set (users w1)"
    using Cons.prems(1,2) g(2) w1 by (fastforce simp: image_iff)
  ultimately show ?case
    using Cons.IH [of w1 "p + 1"] Cons.prems(1) g(2,3) w1 by (simp add: deleteMany_def conj_commute)
qed

definition retentionBatch :: "time \<Rightarrow> 'a auth_db_scheme \<Rightarrow> accountDeletion list" where
  "retentionBatch now w = take RETENTION_BATCH (filter (dueDeletion now) (accountDeletions w))"

lemma executeDeletions_fields:
  assumes "deletionInv w"
  shows "fst (executeDeletions now w) = (length (retentionBatch now w), 0)"
    and "users (runHourly now w) = filter (\<lambda>u. u_id u \<notin> de_userId ` set (retentionBatch now w)) (users w)"
    and "accountDeletions (runHourly now w) =
      filter (\<lambda>d. de_userId d \<notin> de_userId ` set (retentionBatch now w)) (accountDeletions w)"
proof -
  have life: "lifeOk (mark w) (accountDeletions w)" using assms by (simp add: deletionInv_def)
  have "distinct (map de_userId (retentionBatch now w))"
    using life unfolding retentionBatch_def lifeOk_def by (simp add: distinct_map_filter take_map [symmetric] del: take_map)
  moreover have "de_userId d \<in> u_id ` set (users w)" if "d \<in> set (retentionBatch now w)" for d
  proof -
    have "d \<in> set (accountDeletions w)" using that in_set_takeD unfolding retentionBatch_def by fastforce
    then have "mark w (de_userId d) \<noteq> None" using life by (simp add: lifeOk_def)
    then show ?thesis using mark_None [of w "de_userId d"] by simp
  qed
  moreover obtain p e v where run: "fold executeOne (retentionBatch now w) (0, 0, w) = (p, e, v)" by (metis prod_cases3)
  ultimately have "p = length (retentionBatch now w) \<and> e = 0 \<and>
      users v = filter (\<lambda>u. u_id u \<notin> de_userId ` set (retentionBatch now w)) (users w) \<and>
      accountDeletions v = filter (\<lambda>d. de_userId d \<notin> de_userId ` set (retentionBatch now w)) (accountDeletions w)"
    using executeAll_fields [OF _ _ run] by simp
  then show "fst (executeDeletions now w) = (length (retentionBatch now w), 0)"
    and "users (runHourly now w) = filter (\<lambda>u. u_id u \<notin> de_userId ` set (retentionBatch now w)) (users w)"
    and "accountDeletions (runHourly now w) =
      filter (\<lambda>d. de_userId d \<notin> de_userId ` set (retentionBatch now w)) (accountDeletions w)"
    using run by (simp_all add: runHourly_def executeDeletions_def Let_def retentionBatch_def)
qed

text \<open>
  The hourly batch deletes an account only when its owner asked for it at least thirty days
  ago and has not taken it back; every other account stays.
\<close>

theorem retention_respects_grace:
  assumes "deletionInv w" and "findUser i w \<noteq> None" and "findUser i (runHourly now w) = None"
  shows "\<exists>d. findUnique de_userId i (accountDeletions w) = Some d \<and> de_cancelledAt d = None \<and>
    de_requestedAt d + 30 * 24 * 3600 * 1000 \<le> now"
proof -
  have life: "lifeOk (mark w) (accountDeletions w)" using assms(1) by (simp add: deletionInv_def)
  have "i \<in> de_userId ` set (retentionBatch now w)"
    using assms(2,3) executeDeletions_fields(2) [OF assms(1), of now]
    by (auto simp: findUser_def findUnique_None image_iff)
  then obtain d where "d \<in> set (retentionBatch now w)" "de_userId d = i" by blast
  then have d: "d \<in> set (accountDeletions w)" "dueDeletion now d" "de_userId d = i"
    using in_set_takeD [of d RETENTION_BATCH "filter (dueDeletion now) (accountDeletions w)"] by (auto simp: retentionBatch_def)
  moreover from d(1) life have "recordOk d" by (simp add: lifeOk_def)
  moreover have "findUnique de_userId i (accountDeletions w) = Some d"
    using life d findUnique_iff [of de_userId "accountDeletions w" i d] by (simp add: lifeOk_def)
  ultimately show ?thesis by (auto simp: dueDeletion_def pendingDeletion_def recordOk_def DELETION_GRACE_MS_def)
qed

subsection \<open>Every due deletion is carried out\<close>

text \<open>What a number of hourly runs does: the accounts of one set of identifiers go, with their records.\<close>

lemma runs_fields:
  assumes "deletionInv w"
  shows "\<exists>B. users (fold runHourly ts w) = filter (\<lambda>u. u_id u \<notin> B) (users w) \<and>
    accountDeletions (fold runHourly ts w) = filter (\<lambda>d. de_userId d \<notin> B) (accountDeletions w)"
  using assms
proof (induction ts arbitrary: w)
  case Nil
  have "users w = filter (\<lambda>u. u_id u \<notin> {}) (users w)" by simp
  then show ?case by (intro exI [of _ "{}"]) simp
next
  case (Cons t ts)
  from Cons.IH [OF runHourly_inv [OF Cons.prems, of t]] obtain B where
    B: "users (fold runHourly ts (runHourly t w)) = filter (\<lambda>u. u_id u \<notin> B) (users (runHourly t w))"
      "accountDeletions (fold runHourly ts (runHourly t w)) = filter (\<lambda>d. de_userId d \<notin> B) (accountDeletions (runHourly t w))"
    by blast
  show ?case
    by (rule exI [of _ "B \<union> de_userId ` set (retentionBatch t w)"])
      (simp add: B executeDeletions_fields(2,3) [OF Cons.prems] conj_commute)
qed

lemma due_mono: "dueDeletion t d \<Longrightarrow> t \<le> t' \<Longrightarrow> dueDeletion t' d"
  by (simp add: dueDeletion_def)

lemma filter_length_less:
  assumes "B \<subseteq> {d \<in> set ds. P d}" and "distinct ds"
  shows "length (filter (\<lambda>d. d \<notin> B \<and> P d) ds) = length (filter P ds) - card B"
proof -
  have "set (filter (\<lambda>d. d \<notin> B \<and> P d) ds) = set (filter P ds) - B" by auto
  moreover have "length (filter Q ds) = card (set (filter Q ds))" for Q
    using assms(2) by (metis distinct_card distinct_filter)
  ultimately show ?thesis using assms(1) by (simp add: card_Diff_subset finite_subset [OF assms(1)])
qed

lemma batch_count:
  assumes "deletionInv w" and "t \<le> T"
  shows "countRows (dueDeletion T) (accountDeletions (runHourly t w)) =
    countRows (dueDeletion T) (accountDeletions w) - length (retentionBatch t w)"
proof -
  have uniq: "unique de_userId (accountDeletions w)" using assms(1) by (simp add: deletionInv_def lifeOk_def)
  let ?B = "set (retentionBatch t w)" and ?ds = "accountDeletions w"
  have sub: "?B \<subseteq> {d \<in> set ?ds. dueDeletion t d}" using set_take_subset unfolding retentionBatch_def by fastforce
  have dist: "distinct ?ds" using uniq distinct_map by blast
  have "distinct (retentionBatch t w)" using dist unfolding retentionBatch_def by simp
  then have card: "card ?B = length (retentionBatch t w)" by (rule distinct_card)
  have "de_userId d \<in> de_userId ` ?B \<longleftrightarrow> d \<in> ?B" if d: "d \<in> set ?ds" for d
  proof
    assume "de_userId d \<in> de_userId ` ?B"
    then obtain b where b: "b \<in> ?B" "de_userId d = de_userId b" by blast
    then have "b \<in> set ?ds" using sub by blast
    then have "d = b" using unique_row [OF uniq d] b(2) by blast
    with b(1) show "d \<in> ?B" by simp
  qed simp
  then have "filter (dueDeletion T) (filter (\<lambda>d. de_userId d \<notin> de_userId ` ?B) ?ds) =
      filter (\<lambda>d. d \<notin> ?B \<and> dueDeletion T d) ?ds"
    by (auto intro!: filter_cong)
  moreover have "?B \<subseteq> {d \<in> set ?ds. dueDeletion T d}" using sub due_mono [OF _ assms(2)] by blast
  ultimately show ?thesis
    using filter_length_less [of ?B ?ds "dueDeletion T"] dist card
    by (simp add: countRows_def executeDeletions_fields(3) [OF assms(1)])
qed

lemma batch_all:
  assumes "deletionInv w" and "length (filter (dueDeletion t) (accountDeletions w)) \<le> RETENTION_BATCH"
  shows "\<forall>d \<in> set (accountDeletions (runHourly t w)). \<not> dueDeletion t d"
  using assms(2) by (auto simp: executeDeletions_fields(3) [OF assms(1)] retentionBatch_def)

lemma runs_due:
  assumes "deletionInv w" and "\<forall>t \<in> set ts. now \<le> t \<and> t \<le> T" and "now \<le> T"
    and "countRows (dueDeletion T) (accountDeletions w) \<le> RETENTION_BATCH * length ts"
  shows "\<forall>d \<in> set (accountDeletions (fold runHourly ts w)). \<not> dueDeletion now d"
  using assms(1,2,4)
proof (induction ts arbitrary: w)
  case Nil
  then show ?case using due_mono assms(3) by (fastforce simp: countRows_0)
next
  case (Cons t ts)
  let ?w = "runHourly t w"
  have t: "now \<le> t" "t \<le> T" using Cons.prems(2) by simp_all
  note inv = runHourly_inv [OF Cons.prems(1), of t]
  show ?case
  proof (cases "length (filter (dueDeletion t) (accountDeletions w)) \<le> RETENTION_BATCH")
    case True
    from runs_fields [OF inv, of ts] obtain B where
      "accountDeletions (fold runHourly ts ?w) = filter (\<lambda>d. de_userId d \<notin> B) (accountDeletions ?w)" by blast
    then show ?thesis using batch_all [OF Cons.prems(1) True] due_mono [OF _ t(1)] by auto
  next
    case False
    then have "length (retentionBatch t w) = RETENTION_BATCH" by (simp add: retentionBatch_def)
    then have "countRows (dueDeletion T) (accountDeletions ?w) \<le> RETENTION_BATCH * length ts"
      using batch_count [OF Cons.prems(1) t(2)] Cons.prems(3) by simp
    then show ?thesis using Cons.IH [OF inv] Cons.prems(2) by simp
  qed
qed

text \<open>
  C21: no deletion is forgotten: when the hourly job runs a fiftieth as often as there are records
  due by the last run, every account whose deletion was due before the first is gone.
\<close>

theorem retention_completes:
  assumes "deletionInv w" and "\<forall>t \<in> set ts. now \<le> t \<and> t \<le> T" and "now \<le> T"
    and "countRows (dueDeletion T) (accountDeletions w) \<le> 50 * length ts"
    and "d \<in> set (accountDeletions w)" and "dueDeletion now d"
  shows "findUser (de_userId d) (fold runHourly ts w) = None"
proof -
  have gone: "d \<notin> set (accountDeletions (fold runHourly ts w))"
    using runs_due [OF assms(1-3)] assms(4,6) by (auto simp: RETENTION_BATCH_def)
  from runs_fields [OF assms(1), of ts] obtain B where
    B: "users (fold runHourly ts w) = filter (\<lambda>u. u_id u \<notin> B) (users w)"
      "accountDeletions (fold runHourly ts w) = filter (\<lambda>d. de_userId d \<notin> B) (accountDeletions w)" by blast
  then have "de_userId d \<in> B" using gone assms(5) by simp
  then show ?thesis using B(1) by (auto simp: findUser_def findUnique_None)
qed

section \<open>A sample\<close>

text \<open>The accounts of \<open>sampleAuth\<close>: the deletion of \<open>d\<close> is pending and due at 1000000.\<close>

definition sampleAccount :: account_db where
  "sampleAccount = auth_db.extend sampleAuth \<lparr>deletionJobs = []\<rparr>"

definition sampleIso :: "time \<Rightarrow> string" where
  "sampleIso t = (if t \<le> 2592000000 then ''x'' else ''y'')"

lemma sampleAccount_inv: "deletionInv sampleAccount"
proof -
  have users: "map (\<lambda>u. (u_id u, u_deletedAt u)) (users sampleAccount) = [(''a'', None), (''b'', None), (''d'', Some 0)]"
    by code_simp
  have ads: "accountDeletions sampleAccount = [\<lparr>de_userId = ''d'', de_requestedAt = -2591000000, de_scheduledFor = 1000000,
      de_reason = None, de_cancelledAt = None, de_executedAt = None, de_jobId = None\<rparr>]" by code_simp
  have "map fst (map (\<lambda>u. (u_id u, u_deletedAt u)) (users sampleAccount)) = map u_id (users sampleAccount)" by simp
  then have ids: "map u_id (users sampleAccount) = [''a'', ''b'', ''d'']" unfolding users by simp
  have mk: "mark sampleAccount i = map_of [(''a'', None), (''b'', None), (''d'', Some 0)] i" for i
  proof -
    have "map_option u_deletedAt (findUnique u_id i us) = map_of (map (\<lambda>u. (u_id u, u_deletedAt u)) us) i" for us
      by (induction us) (auto simp: findUnique_def)
    from this [of "users sampleAccount"] show ?thesis unfolding users mark_def findUser_def .
  qed
  show ?thesis unfolding deletionInv_def lifeOk_def mk ids ads
    by (auto simp: isPending_def pendingDeletion_def recordOk_def DELETION_GRACE_MS_def split: if_splits)
qed

theorem deletion_lifecycle_witness:
  "\<exists>d. findUnique de_userId ''a'' (accountDeletions (fold (accountStep sampleEnv sampleIso)
      [RequestDeletion ''a'' None True 7] sampleAccount)) = Some d \<and> pendingDeletion d"
proof -
  let ?w = "fold (accountStep sampleEnv sampleIso) [RequestDeletion ''a'' None True 7] sampleAccount"
  have "map_option u_deletedAt (findUser ''a'' ?w) = Some (Some 7)" by code_simp
  then obtain u where "findUser ''a'' ?w = Some u" "u_deletedAt u = Some 7" by auto
  then show ?thesis using deletion_lifecycle [OF sampleAccount_inv refl] by blast
qed

theorem login_restores_witness:
  "\<exists>s w'. login sampleEnv ''d'' ''rw'' 5 sampleAccount = (Inr s, w') \<and>
     (\<exists>u. findUser (se_userId s) (onAuthLogin False (last (bus w')) 6 w') = Some u \<and> u_deletedAt u = None)"
proof -
  have "case fst (login sampleEnv ''d'' ''rw'' 5 sampleAccount) of Inl e \<Rightarrow> False | Inr s \<Rightarrow> True" by code_simp
  from ran_ok [OF this] obtain s w' where run: "login sampleEnv ''d'' ''rw'' 5 sampleAccount = (Inr s, w')" by blast
  from login_restores [OF sampleAccount_inv run refl] run show ?thesis by blast
qed

theorem retention_respects_grace_witness:
  "\<exists>d. findUnique de_userId ''d'' (accountDeletions sampleAccount) = Some d \<and>
     de_requestedAt d + 30 * 24 * 3600 * 1000 \<le> 2000000"
proof -
  have "findUser ''d'' sampleAccount \<noteq> None" "findUser ''d'' (runHourly 2000000 sampleAccount) = None" by code_simp+
  from retention_respects_grace [OF sampleAccount_inv this] show ?thesis by blast
qed

theorem retention_completes_witness:
  "findUser ''d'' (fold runHourly [2000000, 5000000] sampleAccount) = None"
proof -
  have ads: "accountDeletions sampleAccount = [\<lparr>de_userId = ''d'', de_requestedAt = -2591000000, de_scheduledFor = 1000000,
      de_reason = None, de_cancelledAt = None, de_executedAt = None, de_jobId = None\<rparr>]" by code_simp
  show ?thesis
    using retention_completes [OF sampleAccount_inv, of "[2000000, 5000000]" 1000000 6000000 "hd (accountDeletions sampleAccount)"]
    by (simp add: ads dueDeletion_def pendingDeletion_def countRows_def)
qed

section \<open>What the model shows\<close>

text \<open>
  The processor of a job does not look at \<open>scheduledFor\<close>: when the queue could not be reached at a
  cancellation the job of the first request survives it, and deletes the account on its own
  date although a second request has opened a new period of grace.
\<close>

lemma old_job_ends_new_grace:
  "(let w = fold (accountStep sampleEnv sampleIso)
         [RequestDeletion ''a'' None True 0, CancelDeletion ''a'' False 100, RequestDeletion ''a'' None True 2000] sampleAccount;
        v = runDeletionJob (jobIdOf sampleIso ''a'' 2592000000) 2592000000 w
    in map de_scheduledFor (filter (\<lambda>d. de_userId d = ''a'') (accountDeletions w)) = [2592002000] \<and>
       findUser ''a'' w \<noteq> None \<and> findUser ''a'' v = None)"
  by code_simp

text \<open>
  The cascade removes the follow rows of a deleted account but not what they count: the
  account it followed keeps its \<open>followersCount\<close>.
\<close>

lemma deletion_keeps_counters:
  "(let w = sampleAccount\<lparr>users := updateMany (\<lambda>u. u_id u = ''b'') (\<lambda>u. u\<lparr>u_followersCount := 1\<rparr>) (users sampleAccount),
          follows := [\<lparr>fo_id = ''x'', fo_followerId = ''d'', fo_followingId = ''b'', fo_status = F_ACCEPTED\<rparr>]\<rparr>;
        v = runHourly 2000000 w
    in follows v = [] \<and> map u_followersCount (filter (\<lambda>u. u_id u = ''b'') (users v)) = [1])"
  by code_simp

end
