(* ===== verification/Flags.thy ===== *)
theory Flags
  imports Core_Db Text_Search
begin

text \<open>
  \<open>feature-flag.service.ts\<close> and \<open>ab-test.service.ts\<close>. A flag is a Redis hash of strings, so
  what a write stores and a read returns is a codec: numbers in decimal, lists with commas.
  A test is a JSON value under a key (here the value itself, checked against its schema when
  it is read), and an assignment a string key. SHA-1 in hexadecimal (\<open>sha1\<close>), the order of
  \<open>localeCompare\<close> (\<open>collate\<close>, the key by which it sorts) and \<open>Date.toISOString\<close> (\<open>isoDate\<close>)
  are parameters.
\<close>

section \<open>Decimal and hexadecimal numbers\<close>

text \<open>\<open>String(n)\<close> of an integer that is not negative.\<close>

function showDecimal :: "int \<Rightarrow> string" where
  "showDecimal n = (if n < 10 then [char_of (48 + n)] else showDecimal (n div 10) @ [char_of (48 + n mod 10)])"
  by auto
termination by (relation "measure nat") auto

declare showDecimal.simps [simp del]

definition digitOf :: "char \<Rightarrow> int option" where
  "digitOf c = (let n = of_char c :: int in if 48 \<le> n \<and> n \<le> 57 then Some (n - 48) else None)"

text \<open>\<open>Number(s)\<close> on the decimal strings that this service stores; \<open>None\<close> is \<open>NaN\<close>.\<close>

fun readDigits :: "int \<Rightarrow> string \<Rightarrow> int option" where
  "readDigits acc [] = Some acc"
| "readDigits acc (c # cs) =
     (case digitOf c of None \<Rightarrow> None | Some d \<Rightarrow> readDigits (10 * acc + d) cs)"

definition readDecimal :: "string \<Rightarrow> int option" where
  "readDecimal s = readDigits 0 s"

definition hexDigit :: "char \<Rightarrow> int" where
  "hexDigit c = (let n = of_char c :: int in
     if 48 \<le> n \<and> n \<le> 57 then n - 48 else if 97 \<le> n \<and> n \<le> 102 then n - 87 else 0)"

text \<open>\<open>parseInt(hex.slice(0, 8), 16)\<close>\<close>

definition hexPrefix :: "string \<Rightarrow> int" where
  "hexPrefix hex = foldl (\<lambda>acc c. acc * 16 + hexDigit c) 0 (take 8 hex)"

section \<open>State\<close>

type_synonym hashes = "(string \<times> (string \<times> string) list) list"

record abVariant =
  va_id :: string
  va_weight :: nat
  va_label :: "string option"

record abConfig =
  ab_key :: string
  ab_description :: "string option"
  ab_variants :: "abVariant list"
  ab_enabled :: bool
  ab_createdAt :: "string option"
  ab_updatedBy :: "string option"

record flags_db = core_db +
  flagHashes :: hashes
  abConfigs :: "(string \<times> abConfig) list"

section \<open>Feature flags\<close>

datatype flagStrategy = S_OFF | S_ON | S_PERCENTAGE | S_USER_LIST

fun strategyName :: "flagStrategy \<Rightarrow> string" where
  "strategyName S_OFF = ''OFF''" | "strategyName S_ON = ''ON''"
| "strategyName S_PERCENTAGE = ''PERCENTAGE''" | "strategyName S_USER_LIST = ''USER_LIST''"

text \<open>The strategies as they are read back; any other string is an unknown strategy.\<close>

definition strategyOf :: "string \<Rightarrow> flagStrategy option" where
  "strategyOf s =
     (if s = [] \<or> s = ''OFF'' then Some S_OFF else if s = ''ON'' then Some S_ON
      else if s = ''PERCENTAGE'' then Some S_PERCENTAGE else if s = ''USER_LIST'' then Some S_USER_LIST else None)"

record upsertFlagDto =
  uf_key :: string
  uf_strategy :: flagStrategy
  uf_percentage :: "int option"
  uf_userIds :: "string list option"
  uf_description :: "string option"

record flagValue =
  fv_strategy :: "flagStrategy option"
  fv_percentage :: "int option"
  fv_userIds :: "string list option"
  fv_description :: "string option"
  fv_updatedAt :: "string option"
  fv_updatedBy :: "string option"

definition flagPrefix :: string where "flagPrefix = ''feature_flag:''"

definition flagKey :: "string \<Rightarrow> string" where "flagKey k = flagPrefix @ k"

definition field :: "string \<Rightarrow> string option \<Rightarrow> (string \<times> string) list" where
  "field name v = (case v of None \<Rightarrow> [] | Some s \<Rightarrow> [(name, s)])"

definition flagPayload :: "upsertFlagDto \<Rightarrow> string option \<Rightarrow> string \<Rightarrow> (string \<times> string) list" where
  "flagPayload dto updatedBy nowIso =
     [(''strategy'', strategyName (uf_strategy dto)), (''updatedAt'', nowIso)] @
     field ''percentage'' (map_option showDecimal (uf_percentage dto)) @
     field ''userIds'' (case uf_userIds dto of None \<Rightarrow> None
                          | Some ids \<Rightarrow> if ids = [] then None else Some (joinComma ids)) @
     field ''description'' (truthy (uf_description dto)) @
     field ''updatedBy'' (truthy updatedBy)"

definition readFlag :: "(string \<times> string) list \<Rightarrow> flagValue" where
  "readFlag raw =
     \<lparr>fv_strategy = (case map_of raw ''strategy'' of None \<Rightarrow> Some S_OFF | Some s \<Rightarrow> strategyOf s),
      fv_percentage = (case map_of raw ''percentage'' of
         None \<Rightarrow> None | Some s \<Rightarrow> Some (case readDecimal s of None \<Rightarrow> 0 | Some n \<Rightarrow> n)),
      fv_userIds = (case truthy (map_of raw ''userIds'') of
         None \<Rightarrow> None | Some s \<Rightarrow> Some (filter (\<lambda>i. i \<noteq> []) (map trim (splitComma s)))),
      fv_description = truthy (map_of raw ''description''),
      fv_updatedAt = truthy (map_of raw ''updatedAt''),
      fv_updatedBy = truthy (map_of raw ''updatedBy'')\<rparr>"

definition readValue :: "string \<Rightarrow> 'a flags_db_scheme \<Rightarrow> flagValue option" where
  "readValue k w =
     (case map_of (flagHashes w) (flagKey k) of
        None \<Rightarrow> None | Some raw \<Rightarrow> if raw = [] then None else Some (readFlag raw))"

definition upsertFlag ::
  "(time \<Rightarrow> string) \<Rightarrow> upsertFlagDto \<Rightarrow> string option \<Rightarrow> time \<Rightarrow> 'a flags_db_scheme \<Rightarrow>
   flagValue option \<times> 'a flags_db_scheme" where
  "upsertFlag isoDate dto updatedBy now w =
     (let k = flagKey (uf_key dto);
          w1 = w\<lparr>flagHashes := filter (\<lambda>e. fst e \<noteq> k) (flagHashes w)\<rparr>;
          w2 = w1\<lparr>flagHashes := (k, flagPayload dto updatedBy (isoDate now)) # flagHashes w1\<rparr>
      in (readValue (uf_key dto) w2, w2))"

definition deleteFlag :: "string \<Rightarrow> 'a flags_db_scheme \<Rightarrow> bool \<times> 'a flags_db_scheme" where
  "deleteFlag k w =
     (map_of (flagHashes w) (flagKey k) \<noteq> None, w\<lparr>flagHashes := filter (\<lambda>e. fst e \<noteq> flagKey k) (flagHashes w)\<rparr>)"

definition listFlags :: "(string \<Rightarrow> string) \<Rightarrow> 'a flags_db_scheme \<Rightarrow> (string \<times> flagValue) list" where
  "listFlags collate w =
     (let keys = map fst (filter (\<lambda>e. take (length flagPrefix) (fst e) = flagPrefix) (flagHashes w));
          results = List.map_filter (\<lambda>full. let k = drop (length flagPrefix) full
                                            in map_option (\<lambda>v. (k, v)) (readValue k w)) keys
      in sort_key (\<lambda>r. collate (fst r)) results)"

record flagEvaluation =
  fe_key :: string
  fe_enabled :: bool
  fe_strategy :: flagStrategy
  fe_userId :: "uid option"
  fe_reason :: "string option"

definition hashBucket :: "(string \<Rightarrow> string) \<Rightarrow> string \<Rightarrow> uid \<Rightarrow> int" where
  "hashBucket sha1 k userId = hexPrefix (sha1 (k @ '':'' @ userId)) mod 100"

definition evaluateValue ::
  "(string \<Rightarrow> string) \<Rightarrow> string \<Rightarrow> uid option \<Rightarrow> flagValue option \<Rightarrow> flagEvaluation" where
  "evaluateValue sha1 k userId value =
     (case value of
        None \<Rightarrow> \<lparr>fe_key = k, fe_enabled = False, fe_strategy = S_OFF, fe_userId = None, fe_reason = Some ''flag_not_found''\<rparr>
      | Some v \<Rightarrow>
          (case fv_strategy v of
             None \<Rightarrow> \<lparr>fe_key = k, fe_enabled = False, fe_strategy = S_OFF, fe_userId = None, fe_reason = Some ''unknown_strategy''\<rparr>
           | Some S_OFF \<Rightarrow> \<lparr>fe_key = k, fe_enabled = False, fe_strategy = S_OFF, fe_userId = userId, fe_reason = None\<rparr>
           | Some S_ON \<Rightarrow> \<lparr>fe_key = k, fe_enabled = True, fe_strategy = S_ON, fe_userId = userId, fe_reason = None\<rparr>
           | Some S_USER_LIST \<Rightarrow>
               (case truthy userId of
                  None \<Rightarrow> \<lparr>fe_key = k, fe_enabled = False, fe_strategy = S_USER_LIST, fe_userId = None,
                           fe_reason = Some ''userId_required''\<rparr>
                | Some u \<Rightarrow>
                    \<lparr>fe_key = k, fe_enabled = (u \<in> set (case fv_userIds v of None \<Rightarrow> [] | Some l \<Rightarrow> l)),
                     fe_strategy = S_USER_LIST, fe_userId = Some u, fe_reason = None\<rparr>)
           | Some S_PERCENTAGE \<Rightarrow>
               (let pct = (case fv_percentage v of None \<Rightarrow> 0 | Some p \<Rightarrow> p)
                in if pct \<le> 0
                   then \<lparr>fe_key = k, fe_enabled = False, fe_strategy = S_PERCENTAGE, fe_userId = userId, fe_reason = None\<rparr>
                   else if 100 \<le> pct
                   then \<lparr>fe_key = k, fe_enabled = True, fe_strategy = S_PERCENTAGE, fe_userId = userId, fe_reason = None\<rparr>
                   else case truthy userId of
                          None \<Rightarrow> \<lparr>fe_key = k, fe_enabled = False, fe_strategy = S_PERCENTAGE, fe_userId = None,
                                   fe_reason = Some ''userId_required''\<rparr>
                        | Some u \<Rightarrow> \<lparr>fe_key = k, fe_enabled = (hashBucket sha1 k u < pct), fe_strategy = S_PERCENTAGE,
                                    fe_userId = Some u, fe_reason = None\<rparr>)))"

definition evaluateFlag ::
  "(string \<Rightarrow> string) \<Rightarrow> string \<Rightarrow> uid option \<Rightarrow> 'a flags_db_scheme \<Rightarrow> flagEvaluation" where
  "evaluateFlag sha1 k userId w = evaluateValue sha1 k userId (readValue k w)"

section \<open>A/B tests\<close>

definition abConfigPrefix :: string where "abConfigPrefix = ''ab_test:config:''"
definition abAssignPrefix :: string where "abAssignPrefix = ''ab_test:assign:''"

text \<open>The checks of \<open>AbTestConfigSchema\<close> on weights and identifiers.\<close>

definition abConfigSchema :: "abConfig \<Rightarrow> bool" where
  "abConfigSchema c \<longleftrightarrow> 2 \<le> length (ab_variants c) \<and> length (ab_variants c) \<le> 6 \<and>
     (\<forall>v \<in> set (ab_variants c). 1 \<le> va_weight v \<and> va_weight v \<le> 100 \<and> va_id v \<noteq> []) \<and>
     sum_list (map va_weight (ab_variants c)) = 100 \<and> distinct (map va_id (ab_variants c))"

definition upsertTest ::
  "(time \<Rightarrow> string) \<Rightarrow> abConfig \<Rightarrow> string option \<Rightarrow> time \<Rightarrow> 'a flags_db_scheme \<Rightarrow> abConfig \<times> 'a flags_db_scheme" where
  "upsertTest isoDate dto updatedBy now w =
     (let config = dto\<lparr>ab_createdAt := Some (isoDate now), ab_updatedBy := updatedBy\<rparr>; k = abConfigPrefix @ ab_key dto
      in (config, w\<lparr>abConfigs := (k, config) # filter (\<lambda>e. fst e \<noteq> k) (abConfigs w)\<rparr>))"

definition getTest :: "string \<Rightarrow> 'a flags_db_scheme \<Rightarrow> abConfig option" where
  "getTest k w =
     (case map_of (abConfigs w) (abConfigPrefix @ k) of
        None \<Rightarrow> None | Some c \<Rightarrow> if abConfigSchema c then Some c else None)"

definition listTests :: "(string \<Rightarrow> string) \<Rightarrow> 'a flags_db_scheme \<Rightarrow> abConfig list" where
  "listTests collate w =
     sort_key (\<lambda>c. collate (ab_key c))
       (filter abConfigSchema (map snd (filter (\<lambda>e. take (length abConfigPrefix) (fst e) = abConfigPrefix) (abConfigs w))))"

definition deleteTest :: "string \<Rightarrow> time \<Rightarrow> 'a flags_db_scheme \<Rightarrow> bool \<times> 'a flags_db_scheme" where
  "deleteTest k now w =
     (let removed = map_of (abConfigs w) (abConfigPrefix @ k) \<noteq> None;
          w1 = w\<lparr>abConfigs := filter (\<lambda>e. fst e \<noteq> abConfigPrefix @ k) (abConfigs w)\<rparr>;
          assignments = kvKeys now (abAssignPrefix @ k @ '':'') (rd_keys w1)
      in (removed, if assignments = [] then w1 else w1\<lparr>rd_keys := kvDelAll assignments (rd_keys w1)\<rparr>))"

text \<open>The loop of \<open>pickVariant\<close>: the first variant whose cumulative weight exceeds the bucket.\<close>

fun pickFrom :: "nat \<Rightarrow> nat \<Rightarrow> abVariant list \<Rightarrow> string option" where
  "pickFrom bucket cum [] = None"
| "pickFrom bucket cum (v # vs) =
     (let cum' = cum + va_weight v in if bucket < cum' then Some (va_id v) else pickFrom bucket cum' vs)"

definition pickVariant :: "(string \<Rightarrow> string) \<Rightarrow> abConfig \<Rightarrow> uid \<Rightarrow> string" where
  "pickVariant sha1 config userId =
     (let total = sum_list (map va_weight (ab_variants config));
          bucket = nat (hexPrefix (sha1 (ab_key config @ '':'' @ userId)) mod int total)
      in case pickFrom bucket 0 (ab_variants config) of
           Some i \<Rightarrow> i | None \<Rightarrow> va_id (last (ab_variants config)))"

definition assignKey :: "string \<Rightarrow> uid \<Rightarrow> string" where
  "assignKey k userId = abAssignPrefix @ k @ '':'' @ userId"

definition assignVariant ::
  "(string \<Rightarrow> string) \<Rightarrow> string \<Rightarrow> uid \<Rightarrow> time \<Rightarrow> 'a flags_db_scheme \<Rightarrow> (string, 'a flags_db_scheme) outcome" where
  "assignVariant sha1 k userId now w =
     (case getTest k w of
        None \<Rightarrow> throwHttp NotFound ''ab_test_not_found'' NOT_FOUND w
      | Some config \<Rightarrow>
          if \<not> ab_enabled config then ret (va_id (hd (ab_variants config))) w
          else let fresh = (let v = pickVariant sha1 config userId
                            in ret v (w\<lparr>rd_keys := kvSet (assignKey k userId) v None (rd_keys w)\<rparr>))
               in case truthy (kvGet now (assignKey k userId) (rd_keys w)) of
                    Some cached \<Rightarrow> if cached \<in> va_id ` set (ab_variants config) then ret cached w else fresh
                  | None \<Rightarrow> fresh)"

section \<open>The codec of a flag\<close>

lemma digitOf_char: "0 \<le> n \<Longrightarrow> n < 10 \<Longrightarrow> digitOf (char_of (48 + n)) = Some n"
  by (simp add: digitOf_def of_char_of)

lemma readDigits_append:
  "readDigits acc (xs @ ys) = Option.bind (readDigits acc xs) (\<lambda>a. readDigits a ys)"
  by (induction xs arbitrary: acc) (auto split: option.split)

lemma readDecimal_show: "0 \<le> n \<Longrightarrow> readDecimal (showDecimal n) = Some n"
  unfolding readDecimal_def
proof (induction n rule: showDecimal.induct)
  case (1 n)
  show ?case
  proof (cases "n < 10")
    case True
    then show ?thesis using 1(2) by (simp add: showDecimal.simps [of n] digitOf_char)
  next
    case False
    then have "readDigits 0 (showDecimal (n div 10)) = Some (n div 10)" using 1 by simp
    then show ?thesis using False
      by (simp add: showDecimal.simps [of n] readDigits_append digitOf_char)
  qed
qed

lemma showDecimal_ne [simp]: "showDecimal n \<noteq> []"
  by (simp add: showDecimal.simps [of n])

lemma strategyOf_name [simp]: "strategyOf (strategyName s) = Some s"
  by (cases s) (simp_all add: strategyOf_def)

text \<open>An identifier that survives the list: a uuid has no comma and no blank at its ends.\<close>

definition plainId :: "string \<Rightarrow> bool" where
  "plainId i \<longleftrightarrow> i \<noteq> [] \<and> commaFree i \<and> trim i = i"

lemma map_of_field: "map_of (field n v @ xs) k = (if k = n \<and> v \<noteq> None then v else map_of xs k)"
  by (auto simp: field_def split: option.split)

lemma map_of_field_end: "map_of (field n v) k = (if k = n then v else None)"
  by (auto simp: field_def split: option.split)

lemma joinComma_ne: "ss \<noteq> [] \<Longrightarrow> \<forall>s \<in> set ss. s \<noteq> [] \<Longrightarrow> joinComma ss \<noteq> []"
  by (cases ss rule: joinComma.cases) auto

lemma ids_roundtrip:
  assumes "\<forall>i \<in> set ids. plainId i" and "ids \<noteq> []"
  shows "filter (\<lambda>i. i \<noteq> []) (map trim (splitComma (joinComma ids))) = ids" and "joinComma ids \<noteq> []"
proof -
  have "splitComma (joinComma ids) = ids" using assms by (intro splitComma_join) (auto simp: plainId_def)
  moreover have "map trim ids = ids" using assms(1) by (intro map_idI) (simp add: plainId_def)
  moreover have "filter (\<lambda>i. i \<noteq> []) ids = ids" using assms(1) by (simp add: plainId_def)
  ultimately show "filter (\<lambda>i. i \<noteq> []) (map trim (splitComma (joinComma ids))) = ids" by simp
  show "joinComma ids \<noteq> []" using assms by (intro joinComma_ne) (auto simp: plainId_def)
qed

lemma truthy_truthy [simp]: "truthy (truthy s) = truthy s"
  by (simp add: truthy_def split: option.split)

lemma payload_fields:
  "map_of (flagPayload dto who d) ''strategy'' = Some (strategyName (uf_strategy dto))"
  "map_of (flagPayload dto who d) ''updatedAt'' = Some d"
  "map_of (flagPayload dto who d) ''percentage'' = map_option showDecimal (uf_percentage dto)"
  "map_of (flagPayload dto who d) ''userIds'' = (case uf_userIds dto of None \<Rightarrow> None
     | Some ids \<Rightarrow> if ids = [] then None else Some (joinComma ids))"
  "map_of (flagPayload dto who d) ''description'' = truthy (uf_description dto)"
  "map_of (flagPayload dto who d) ''updatedBy'' = truthy who"
  by (simp_all add: flagPayload_def map_of_field map_of_field_end split: option.split del: map_of_append)

lemma readFlag_payload:
  assumes "\<forall>n. uf_percentage dto = Some n \<longrightarrow> 0 \<le> n" and "\<forall>ids. uf_userIds dto = Some ids \<longrightarrow> (\<forall>i \<in> set ids. plainId i)"
    and "d \<noteq> []"
  shows "readFlag (flagPayload dto who d) =
    \<lparr>fv_strategy = Some (uf_strategy dto), fv_percentage = uf_percentage dto,
     fv_userIds = (if uf_userIds dto = Some [] then None else uf_userIds dto),
     fv_description = truthy (uf_description dto), fv_updatedAt = Some d, fv_updatedBy = truthy who\<rparr>"
proof -
  have p: "(case map_option showDecimal (uf_percentage dto) of None \<Rightarrow> None
      | Some s \<Rightarrow> Some (case readDecimal s of None \<Rightarrow> 0 | Some n \<Rightarrow> n)) = uf_percentage dto"
    using assms(1) by (cases "uf_percentage dto") (simp_all add: readDecimal_show)
  have i: "(case truthy (case uf_userIds dto of None \<Rightarrow> None | Some ids \<Rightarrow> if ids = [] then None else Some (joinComma ids)) of
      None \<Rightarrow> None | Some s \<Rightarrow> Some (filter (\<lambda>i. i \<noteq> []) (map trim (splitComma s)))) =
      (if uf_userIds dto = Some [] then None else uf_userIds dto)"
  proof (cases "uf_userIds dto")
    case (Some ids)
    then show ?thesis using assms(2) ids_roundtrip [of ids] by (cases "ids = []") (simp_all add: truthy_def)
  qed (simp add: truthy_def)
  show ?thesis
    using p i assms(3) by (simp add: readFlag_def payload_fields truthy_def [of "Some d"])
qed

lemma flagKey_inj [simp]: "flagKey a = flagKey b \<longleftrightarrow> a = b"
  by (simp add: flagKey_def)

lemma readValue_upsert:
  "readValue k (snd (upsertFlag isoDate dto who now w)) =
     (if k = uf_key dto then Some (readFlag (flagPayload dto who (isoDate now))) else readValue k w)"
  by (auto simp: readValue_def upsertFlag_def Let_def flagPayload_def map_of_filter_ne)

text \<open>
  C32: what is stored of a flag is read back: after an upsert the flag has the strategy, the
  percentage, the users and the texts that were sent (an empty list or text counts as absent),
  that value is the answer, and no other flag has changed.
\<close>

theorem flag_roundtrip:
  assumes "upsertFlag isoDate dto who now w = (v, w')" and "isoDate now \<noteq> []"
    and "\<forall>n. uf_percentage dto = Some n \<longrightarrow> 0 \<le> n" and "\<forall>ids. uf_userIds dto = Some ids \<longrightarrow> (\<forall>i \<in> set ids. plainId i)"
  shows "v = readValue (uf_key dto) w' \<and>
    readValue (uf_key dto) w' = Some
      \<lparr>fv_strategy = Some (uf_strategy dto), fv_percentage = uf_percentage dto,
       fv_userIds = (if uf_userIds dto = Some [] then None else uf_userIds dto),
       fv_description = truthy (uf_description dto), fv_updatedAt = Some (isoDate now), fv_updatedBy = truthy who\<rparr> \<and>
    (\<forall>k. k \<noteq> uf_key dto \<longrightarrow> readValue k w' = readValue k w)"
proof -
  have w': "w' = snd (upsertFlag isoDate dto who now w)" using assms(1) by simp
  have "v = readValue (uf_key dto) w'" using assms(1) by (auto simp: upsertFlag_def Let_def)
  then show ?thesis using readFlag_payload [OF assms(3,4,2)] by (simp add: w' readValue_upsert)
qed

section \<open>Rollouts\<close>

lemma evaluateValue_percentage:
  assumes "fv_strategy v = Some S_PERCENTAGE" and "fv_percentage v = Some p"
  shows "fe_enabled (evaluateValue sha1 k u (Some v)) \<longleftrightarrow>
    \<not> p \<le> 0 \<and> (100 \<le> p \<or> (case truthy u of None \<Rightarrow> False | Some i \<Rightarrow> hashBucket sha1 k i < p))"
  unfolding evaluateValue_def Let_def option.case assms flagStrategy.case
  by (cases "p \<le> 0"; cases "100 \<le> p"; cases "truthy u") simp_all

lemma evaluate_percentage:
  assumes "uf_strategy dto = S_PERCENTAGE" and "uf_percentage dto = Some p" and "0 \<le> p"
  shows "fe_enabled (evaluateFlag sha1 (uf_key dto) u (snd (upsertFlag isoDate dto who now w))) \<longleftrightarrow>
    \<not> p \<le> 0 \<and> (100 \<le> p \<or> (case truthy u of None \<Rightarrow> False | Some i \<Rightarrow> hashBucket sha1 (uf_key dto) i < p))"
proof -
  let ?v = "readFlag (flagPayload dto who (isoDate now))"
  have "fv_strategy ?v = Some S_PERCENTAGE"
    using assms(1) strategyOf_name [of S_PERCENTAGE] by (simp add: readFlag_def payload_fields del: strategyName.simps)
  moreover have "fv_percentage ?v = Some p"
    using assms(2,3) by (simp add: readFlag_def payload_fields readDecimal_show)
  ultimately have "fe_enabled (evaluateValue sha1 (uf_key dto) u (Some ?v)) \<longleftrightarrow>
    \<not> p \<le> 0 \<and> (100 \<le> p \<or> (case truthy u of None \<Rightarrow> False | Some i \<Rightarrow> hashBucket sha1 (uf_key dto) i < p))"
    by (rule evaluateValue_percentage)
  then show ?thesis unfolding evaluateFlag_def readValue_upsert by simp
qed

text \<open>
  Raising the percentage of a rollout never takes the feature away from anybody: who has it
  at \<open>p\<close> per cent has it at every larger percentage, whenever and by whomever it is set.
\<close>

theorem rollout_monotone:
  assumes "uf_strategy dto = S_PERCENTAGE" and "uf_percentage dto = Some p" and "0 \<le> p" and "p \<le> p'"
    and "fe_enabled (evaluateFlag sha1 (uf_key dto) u (snd (upsertFlag isoDate dto who now w)))"
  shows "fe_enabled (evaluateFlag sha1 (uf_key dto) u
    (snd (upsertFlag isoDate (dto\<lparr>uf_percentage := Some p'\<rparr>) who' now' w')))"
proof -
  let ?d = "dto\<lparr>uf_percentage := Some p'\<rparr>"
  have "fe_enabled (evaluateFlag sha1 (uf_key ?d) u (snd (upsertFlag isoDate ?d who' now' w'))) \<longleftrightarrow>
    \<not> p' \<le> 0 \<and> (100 \<le> p' \<or> (case truthy u of None \<Rightarrow> False | Some i \<Rightarrow> hashBucket sha1 (uf_key ?d) i < p'))"
    by (rule evaluate_percentage) (use assms in simp_all)
  moreover have "\<not> p \<le> 0 \<and> (100 \<le> p \<or> (case truthy u of None \<Rightarrow> False | Some i \<Rightarrow> hashBucket sha1 (uf_key dto) i < p))"
    using assms(5) unfolding evaluate_percentage [OF assms(1-3)] .
  ultimately show ?thesis using assms(4) by (cases "truthy u") auto
qed

section \<open>The split of an A/B test\<close>

text \<open>
  The reference for \<open>pickVariant\<close>: a table with one slot per unit of weight, each slot naming
  its variant; the bucket is an index into it.
\<close>

definition slots :: "abVariant list \<Rightarrow> string list" where
  "slots vs = concat (map (\<lambda>v. replicate (va_weight v) (va_id v)) vs)"

lemma length_slots: "length (slots vs) = sum_list (map va_weight vs)"
  by (induction vs) (simp_all add: slots_def)

lemma pickFrom_slots:
  "pickFrom (cum + b) cum vs = (if b < length (slots vs) then Some (slots vs ! b) else None)"
proof (induction vs arbitrary: cum b)
  case Nil
  then show ?case by (simp add: slots_def)
next
  case (Cons v vs)
  have slots: "slots (v # vs) = replicate (va_weight v) (va_id v) @ slots vs" by (simp add: slots_def)
  show ?case
  proof (cases "b < va_weight v")
    case True
    then show ?thesis by (simp add: slots nth_append)
  next
    case False
    then obtain b' where b: "b = va_weight v + b'" by (metis le_add_diff_inverse not_less)
    have "pickFrom (cum + va_weight v + b') (cum + va_weight v) vs =
      (if b' < length (slots vs) then Some (slots vs ! b') else None)" by (rule Cons.IH)
    then show ?thesis by (simp add: slots b add.assoc nth_append)
  qed
qed

lemma slots_share:
  assumes "distinct (map va_id vs)" and "v \<in> set vs"
  shows "card {b. b < length (slots vs) \<and> slots vs ! b = va_id v} = va_weight v"
proof -
  have "length (filter (\<lambda>x. x = va_id v) (slots vs)) = va_weight v"
    using assms
  proof (induction vs)
    case (Cons u vs)
    have other: "filter (\<lambda>x. x = va_id u) (slots vs) = []" if "va_id u \<notin> va_id ` set vs"
      using that by (auto simp: filter_empty_conv slots_def) (metis imageI)
    show ?case
    proof (cases "v = u")
      case True
      then show ?thesis using other Cons.prems(1) by (simp add: slots_def)
    next
      case False
      then have "v \<in> set vs" using Cons.prems(2) by simp
      moreover from this have "va_id v \<noteq> va_id u" using Cons.prems(1) by (metis distinct.simps(2) image_eqI list.map(2) list.set_map)
      ultimately show ?thesis using Cons by (simp add: slots_def)
    qed
  qed simp
  then show ?thesis by (simp add: length_filter_conv_card)
qed

lemma variant_pick:
  assumes "abConfigSchema c"
  shows "pickVariant sha1 c u = slots (ab_variants c) ! nat (hexPrefix (sha1 (ab_key c @ '':'' @ u)) mod 100)"
    and "length (slots (ab_variants c)) = 100"
proof -
  have total: "sum_list (map va_weight (ab_variants c)) = 100" using assms by (simp add: abConfigSchema_def)
  then show len: "length (slots (ab_variants c)) = 100" by (simp add: length_slots)
  let ?b = "nat (hexPrefix (sha1 (ab_key c @ '':'' @ u)) mod 100)"
  have "?b < 100" by (simp add: nat_less_iff)
  then have "pickFrom ?b 0 (ab_variants c) = Some (slots (ab_variants c) ! ?b)"
    using pickFrom_slots [of 0 ?b "ab_variants c"] len by simp
  then show "pickVariant sha1 c u = slots (ab_variants c) ! ?b" using total by (simp add: pickVariant_def Let_def)
qed

text \<open>
  C31: \<open>pickVariant\<close> is the lookup of the hash of the user in the table of slots, never the
  fallback, and of the hundred buckets every variant gets as many as its weight: the split has
  exactly the configured proportions.
\<close>

theorem variant_split:
  assumes "abConfigSchema c" and "v \<in> set (ab_variants c)"
  shows "pickVariant sha1 c u = slots (ab_variants c) ! nat (hexPrefix (sha1 (ab_key c @ '':'' @ u)) mod 100) \<and>
    length (slots (ab_variants c)) = 100 \<and>
    card {b. b < 100 \<and> slots (ab_variants c) ! b = va_id v} = va_weight v"
proof -
  have "distinct (map va_id (ab_variants c))" using assms(1) by (simp add: abConfigSchema_def)
  from slots_share [OF this assms(2)] show ?thesis using variant_pick [OF assms(1)] by simp
qed

section \<open>Assignments last\<close>

lemma assignKey_inj:
  "colonFree k \<Longrightarrow> colonFree k' \<Longrightarrow> assignKey k u = assignKey k' u' \<longleftrightarrow> k = k' \<and> u = u'"
  using append_colon_inj [of k k' u u'] by (auto simp: assignKey_def colonFree_def)

lemma assignKey_prefix:
  assumes "colonFree k" and "colonFree k'"
  shows "take (length (abAssignPrefix @ k @ '':'')) (assignKey k' u) = abAssignPrefix @ k @ '':'' \<longleftrightarrow> k = k'"
proof
  let ?p = "abAssignPrefix @ k @ '':''"
  assume "take (length ?p) (assignKey k' u) = ?p"
  then have "assignKey k' u = ?p @ drop (length ?p) (assignKey k' u)" by (metis append_take_drop_id)
  then have "assignKey k' u = assignKey k (drop (length ?p) (assignKey k' u))" by (simp add: assignKey_def)
  then show "k = k'" using assms assignKey_inj by blast
qed (simp add: assignKey_def)

lemma deleteTest_keys:
  "rd_keys (snd (deleteTest k now w)) = (let ks = kvKeys now (abAssignPrefix @ k @ '':'') (rd_keys w)
     in if ks = [] then rd_keys w else kvDelAll ks (rd_keys w))"
  by (simp add: deleteTest_def Let_def)

lemma deleteTest_other:
  assumes "colonFree k" and "colonFree k'" and "k \<noteq> k'"
  shows "kvGet t (assignKey k' u) (rd_keys (snd (deleteTest k now w))) = kvGet t (assignKey k' u) (rd_keys w)"
proof -
  have "assignKey k' u \<notin> set (kvKeys now (abAssignPrefix @ k @ '':'') (rd_keys w))"
    using kvKeys_prefix assignKey_prefix [OF assms(1,2)] assms(3) by blast
  then show ?thesis by (simp add: deleteTest_keys Let_def kvGet_DelAll)
qed

lemma deleteTest_clears:
  assumes "colonFree k" and "now \<le> t"
  shows "kvGet t (assignKey k u) (rd_keys (snd (deleteTest k now w))) = None"
proof (cases "kvGet t (assignKey k u) (rd_keys w)")
  case None
  then show ?thesis by (simp add: deleteTest_keys Let_def kvGet_DelAll)
next
  case (Some v)
  then have "kvGet now (assignKey k u) (rd_keys w) = Some v" by (rule kvGet_mono [OF assms(2)])
  then have "assignKey k u \<in> set (kvKeys now (abAssignPrefix @ k @ '':'') (rd_keys w))"
    using kvKeys_live assignKey_prefix [OF assms(1,1)] by blast
  then show ?thesis by (auto simp: deleteTest_keys Let_def kvGet_DelAll)
qed

datatype flagsOp =
    UpsertFlag upsertFlagDto "string option" time
  | DeleteFlag string
  | UpsertTest abConfig "string option" time
  | DeleteTest string time
  | AssignVariant string uid time

fun flagsStep :: "(time \<Rightarrow> string) \<Rightarrow> (string \<Rightarrow> string) \<Rightarrow> flagsOp \<Rightarrow> 'a flags_db_scheme \<Rightarrow> 'a flags_db_scheme" where
  "flagsStep isoDate sha1 (UpsertFlag dto who now) w = snd (upsertFlag isoDate dto who now w)"
| "flagsStep isoDate sha1 (DeleteFlag k) w = snd (deleteFlag k w)"
| "flagsStep isoDate sha1 (UpsertTest c who now) w = snd (upsertTest isoDate c who now w)"
| "flagsStep isoDate sha1 (DeleteTest k now) w = snd (deleteTest k now w)"
| "flagsStep isoDate sha1 (AssignVariant k u now) w = snd (assignVariant sha1 k u now w)"

text \<open>
  The operations that leave a test running with a variant: any on flags and on other tests, any
  assignment, and an update of the test itself that keeps it valid, enabled and with the variant.
\<close>

fun keepsTest :: "string \<Rightarrow> string \<Rightarrow> flagsOp \<Rightarrow> bool" where
  "keepsTest k v (UpsertTest c who now) = (ab_key c = k \<longrightarrow> abConfigSchema c \<and> ab_enabled c \<and> v \<in> va_id ` set (ab_variants c))"
| "keepsTest k v (DeleteTest k' now) = (k' \<noteq> k \<and> colonFree k')"
| "keepsTest k v (AssignVariant k' u now) = colonFree k'"
| "keepsTest k v x = True"

definition assigned :: "string \<Rightarrow> uid \<Rightarrow> string \<Rightarrow> 'a flags_db_scheme \<Rightarrow> bool" where
  "assigned k u v w \<longleftrightarrow> (\<forall>t. kvGet t (assignKey k u) (rd_keys w) = Some v) \<and> v \<noteq> [] \<and>
     (\<exists>c. getTest k w = Some c \<and> ab_enabled c \<and> v \<in> va_id ` set (ab_variants c))"

lemma assigned_answer: "assigned k u v w \<Longrightarrow> assignVariant sha1 k u now w = (Inr v, w)"
  by (auto simp: assigned_def assignVariant_def truthy_def ret_def)

lemma getTest_cong: "abConfigs w = abConfigs w' \<Longrightarrow> getTest k w = getTest k w'"
  by (simp add: getTest_def)

lemma assignVariant_fields:
  "abConfigs (snd (assignVariant sha1 k u now w)) = abConfigs w"
  "rd_keys (snd (assignVariant sha1 k u now w)) = rd_keys w \<or>
   (\<exists>v. rd_keys (snd (assignVariant sha1 k u now w)) = kvSet (assignKey k u) v None (rd_keys w))"
  by (auto simp: assignVariant_def Let_def split: option.split)

lemma abConfigSchema_stamp [simp]:
  "abConfigSchema (c\<lparr>ab_createdAt := d, ab_updatedBy := b\<rparr>) = abConfigSchema c"
  by (simp add: abConfigSchema_def)

lemma getTest_upsert:
  "getTest k (snd (upsertTest isoDate c who now w)) =
     (if k = ab_key c then (if abConfigSchema c then Some (c\<lparr>ab_createdAt := Some (isoDate now), ab_updatedBy := who\<rparr>) else None)
      else getTest k w)"
  by (auto simp: getTest_def upsertTest_def Let_def map_of_filter_ne)

lemma getTest_delete: "k \<noteq> k' \<Longrightarrow> getTest k (snd (deleteTest k' now w)) = getTest k w"
  by (simp add: getTest_def deleteTest_def Let_def map_of_filter_ne)

lemma assigned_step:
  assumes "assigned k u v w" and "keepsTest k v x" and "colonFree k"
  shows "assigned k u v (flagsStep isoDate sha1 x w)"
proof (cases x)
  case (UpsertTest c who now)
  have "rd_keys (snd (upsertTest isoDate c who now w)) = rd_keys w" by (simp add: upsertTest_def Let_def)
  then show ?thesis using assms UpsertTest by (auto simp: assigned_def getTest_upsert)
next
  case (DeleteTest k' now)
  then show ?thesis using assms getTest_delete [of k k' now w] by (auto simp: assigned_def deleteTest_other)
next
  case (AssignVariant k' u' now)
  show ?thesis
  proof (cases "k' = k \<and> u' = u")
    case True
    then show ?thesis using AssignVariant assms(1) assigned_answer [OF assms(1)] by simp
  next
    case False
    then have "assignKey k' u' \<noteq> assignKey k u" using assms(2,3) AssignVariant by (simp add: assignKey_inj)
    moreover have "getTest k (snd (assignVariant sha1 k' u' now w)) = getTest k w"
      by (rule getTest_cong) (rule assignVariant_fields(1))
    ultimately show ?thesis using assms(1) AssignVariant assignVariant_fields(2) [of sha1 k' u' now w]
      by (auto simp: assigned_def kvGet_Set)
  qed
next
  case (UpsertFlag dto who now)
  have "rd_keys (snd (upsertFlag isoDate dto who now w)) = rd_keys w" "abConfigs (snd (upsertFlag isoDate dto who now w)) = abConfigs w"
    by (simp_all add: upsertFlag_def Let_def)
  then show ?thesis using assms UpsertFlag by (simp add: assigned_def getTest_def)
next
  case (DeleteFlag k')
  then show ?thesis using assms by (simp add: assigned_def getTest_def deleteFlag_def)
qed

lemma pickVariant_member:
  assumes "abConfigSchema c" shows "pickVariant sha1 c u \<in> va_id ` set (ab_variants c)"
proof -
  have vs: "ab_variants c \<noteq> []" and total: "sum_list (map va_weight (ab_variants c)) = 100"
    using assms by (auto simp: abConfigSchema_def)
  let ?b = "nat (hexPrefix (sha1 (ab_key c @ '':'' @ u)) mod 100)"
  have "?b < length (slots (ab_variants c))" using total by (simp add: length_slots nat_less_iff)
  then have "slots (ab_variants c) ! ?b \<in> set (slots (ab_variants c))" by (rule nth_mem)
  moreover have "pickVariant sha1 c u = slots (ab_variants c) ! ?b"
    using variant_pick [OF assms] by simp
  ultimately show ?thesis by (auto simp: slots_def)
qed

lemma assignVariant_assigned:
  assumes "assignVariant sha1 k u now w = (Inr v, w')" and "getTest k w = Some c" and "ab_enabled c"
  shows "v \<in> va_id ` set (ab_variants c) \<and> getTest k w' = Some c \<and> kvGet now (assignKey k u) (rd_keys w') = Some v"
proof -
  have "abConfigSchema c" using assms(2) by (auto simp: getTest_def split: option.splits if_splits)
  then show ?thesis using assms pickVariant_member [of c sha1 u]
    by (auto simp: assignVariant_def Let_def ret_def getTest_def truthy_def kvGet_Set split: option.splits if_splits)
qed

text \<open>
  An assignment lasts: once a running test has given a user a variant that is stored for
  good, every later question gives the same variant without a write, whatever has happened
  meanwhile to flags and other tests, and to the test itself as long as it stays valid, enabled
  and has the variant.
\<close>

theorem assignment_sticky:
  assumes "assignVariant sha1 k u now w = (Inr v, w')" and "getTest k w = Some c" and "ab_enabled c"
    and "\<forall>t. kvGet t (assignKey k u) (rd_keys w') = Some v" and "colonFree k" and "\<forall>x \<in> set ops. keepsTest k v x"
    and "w'' = fold (flagsStep isoDate sha1) ops w'"
  shows "assignVariant sha1 k u now' w'' = (Inr v, w'')"
proof -
  have c: "v \<in> va_id ` set (ab_variants c)" "getTest k w' = Some c"
    using assignVariant_assigned [OF assms(1-3)] by simp_all
  then have "v \<noteq> []" by (auto simp: getTest_def abConfigSchema_def split: option.splits if_splits)
  then have "assigned k u v w'" using assms(3,4) c by (auto simp: assigned_def)
  then have "assigned k u v w''" unfolding assms(7) using assms(6)
    by (induction ops arbitrary: w') (simp_all add: assigned_step assms(5))
  then show ?thesis by (rule assigned_answer)
qed

text \<open>
  Deleting a test resets it: afterwards it has no configuration and no user an assignment,
  so the next assignment of a test of that name starts afresh; other tests keep theirs.
\<close>

theorem test_reset:
  assumes "colonFree k" and "w' = snd (deleteTest k now w)" and "now \<le> t"
  shows "getTest k w' = None \<and> kvGet t (assignKey k u) (rd_keys w') = None \<and>
    (\<forall>k' u'. colonFree k' \<and> k' \<noteq> k \<longrightarrow>
       getTest k' w' = getTest k' w \<and> kvGet t (assignKey k' u') (rd_keys w') = kvGet t (assignKey k' u') (rd_keys w))"
proof -
  have "getTest k w' = None" by (simp add: assms(2) getTest_def deleteTest_def Let_def map_of_filter_ne)
  moreover have "kvGet t (assignKey k u) (rd_keys w') = None"
    unfolding assms(2) by (rule deleteTest_clears [OF assms(1,3)])
  moreover have "getTest k' w' = getTest k' w \<and> kvGet t (assignKey k' u') (rd_keys w') = kvGet t (assignKey k' u') (rd_keys w)"
    if "colonFree k'" "k' \<noteq> k" for k' u'
    unfolding assms(2) using that by (simp add: getTest_delete deleteTest_other [OF assms(1)])
  ultimately show ?thesis by blast
qed

section \<open>A sample\<close>

definition sampleFlags :: flags_db where
  "sampleFlags = core_db.extend sampleCore \<lparr>flagHashes = [], abConfigs = []\<rparr>"

definition sampleFlagDto :: upsertFlagDto where
  "sampleFlagDto = \<lparr>uf_key = ''voice_rooms'', uf_strategy = S_PERCENTAGE, uf_percentage = Some 42,
     uf_userIds = Some [''u-1'', ''u-2''], uf_description = None\<rparr>"

definition sampleTest :: abConfig where
  "sampleTest = \<lparr>ab_key = ''feed'', ab_description = None,
     ab_variants = [\<lparr>va_id = ''A'', va_weight = 30, va_label = None\<rparr>, \<lparr>va_id = ''B'', va_weight = 70, va_label = None\<rparr>],
     ab_enabled = True, ab_createdAt = None, ab_updatedBy = None\<rparr>"

theorem flag_roundtrip_witness:
  "readValue ''voice_rooms'' (snd (upsertFlag (\<lambda>t. ''now'') sampleFlagDto None 5 sampleFlags)) = Some
     \<lparr>fv_strategy = Some S_PERCENTAGE, fv_percentage = Some 42, fv_userIds = Some [''u-1'', ''u-2''], fv_description = None,
      fv_updatedAt = Some ''now'', fv_updatedBy = None\<rparr>"
proof -
  have ids: "\<forall>ids. uf_userIds sampleFlagDto = Some ids \<longrightarrow> (\<forall>i \<in> set ids. plainId i)"
  proof -
    have "list_all plainId [''u-1'', ''u-2'']" by code_simp
    then show ?thesis by (simp add: sampleFlagDto_def)
  qed
  show ?thesis
    using flag_roundtrip [OF prod.collapse [symmetric], of "\<lambda>t. ''now''" 5 sampleFlagDto None sampleFlags] ids
    by (simp add: sampleFlagDto_def truthy_def)
qed

theorem rollout_monotone_witness:
  "fe_enabled (evaluateFlag (\<lambda>s. ''00000010ff'') ''voice_rooms'' (Some ''u-1'')
     (snd (upsertFlag (\<lambda>t. ''now'') (sampleFlagDto\<lparr>uf_percentage := Some 60\<rparr>) None 9 sampleFlags)))"
proof -
  have "fe_enabled (evaluateFlag (\<lambda>s. ''00000010ff'') (uf_key sampleFlagDto) (Some ''u-1'')
     (snd (upsertFlag (\<lambda>t. ''now'') sampleFlagDto None 5 sampleFlags)))" by code_simp
  from rollout_monotone [where p = 42 and p' = 60 and who' = None and now' = 9 and w' = sampleFlags, OF _ _ _ _ this] show ?thesis
    by (simp add: sampleFlagDto_def)
qed

lemma sampleTest_schema: "abConfigSchema sampleTest"
  by (simp add: abConfigSchema_def sampleTest_def)

theorem variant_split_witness:
  "card {b. b < 100 \<and> slots (ab_variants sampleTest) ! b = ''A''} = 30"
  using variant_split [OF sampleTest_schema, of "\<lparr>va_id = ''A'', va_weight = 30, va_label = None\<rparr>"]
  by (simp add: sampleTest_def)

theorem assignment_sticky_witness:
  "\<exists>v. fst (assignVariant (\<lambda>s. ''0000001eff'') ''feed'' ''u'' 9 (fold (flagsStep (\<lambda>t. ''x'') (\<lambda>s. ''0000001eff''))
     [AssignVariant ''feed'' ''v'' 7, UpsertFlag sampleFlagDto None 8]
     (snd (assignVariant (\<lambda>s. ''0000001eff'') ''feed'' ''u'' 6 (snd (upsertTest (\<lambda>t. ''x'') sampleTest None 5 sampleFlags)))))) = Inr v"
proof -
  let ?w = "snd (upsertTest (\<lambda>t. ''x'') sampleTest None 5 sampleFlags)"
  have test: "getTest ''feed'' ?w = Some (sampleTest\<lparr>ab_createdAt := Some ''x'', ab_updatedBy := None\<rparr>)"
    using sampleTest_schema by (simp add: getTest_upsert) (simp add: sampleTest_def)
  have "case fst (assignVariant (\<lambda>s. ''0000001eff'') ''feed'' ''u'' 6 ?w) of Inl e \<Rightarrow> False | Inr v \<Rightarrow> True"
    unfolding assignVariant_def test by (simp add: sampleTest_def ret_def Let_def split: option.split)
  from ran_ok [OF this] obtain v w' where run: "assignVariant (\<lambda>s. ''0000001eff'') ''feed'' ''u'' 6 ?w = (Inr v, w')" by blast
  have keys: "rd_keys ?w = []" by (simp add: upsertTest_def Let_def sampleFlags_def sampleCore_def core_db.extend_def)
  then have "rd_keys w' = [(assignKey ''feed'' ''u'', (v, None))]"
    using run unfolding assignVariant_def test
    by (auto simp: sampleTest_def ret_def Let_def kvGet_def truthy_def kvSet_def kvDel_def)
  then have stored: "\<forall>t. kvGet t (assignKey ''feed'' ''u'') (rd_keys w') = Some v" by (simp add: kvGet_def)
  have cf: "colonFree ''feed''" by (simp add: colonFree_def)
  have "\<forall>x \<in> set [AssignVariant ''feed'' ''v'' 7, UpsertFlag sampleFlagDto None 8]. keepsTest ''feed'' v x"
    by (simp add: colonFree_def)
  from assignment_sticky [OF run test _ stored cf this refl] show ?thesis
    using run by (simp add: sampleTest_def)
qed

theorem test_reset_witness:
  "getTest ''feed'' (snd (deleteTest ''feed'' 8 (snd (upsertTest (\<lambda>t. ''x'') sampleTest None 5 sampleFlags)))) = None"
proof -
  have "colonFree ''feed''" by (simp add: colonFree_def)
  from test_reset [OF this refl, of 8 8] show ?thesis by blast
qed

end
