(* ===== verification/Users.thy ===== *)
theory Users
  imports Auth Pagination
begin

text \<open>
  \<open>users.service.ts\<close> with the username rules of \<open>user.schema.ts\<close>: profiles, the change of the
  username with its cooldown, the search. The state is the authentication service's. The case
  folding of the database is the field \<open>lower\<close> of the environment, as there.
\<close>

section \<open>Usernames\<close>

definition USERNAME_CHANGE_COOLDOWN_MS :: int where
  "USERNAME_CHANGE_COOLDOWN_MS = 30 * 24 * 60 * 60 * 1000"

definition normalizeUsernameForStorage :: "string \<Rightarrow> string" where
  "normalizeUsernameForStorage raw = toLowerCase (trim raw)"

definition RESERVED_USERNAMES_LOWER :: "string list" where
  "RESERVED_USERNAMES_LOWER =
     [''admin'', ''administrator'', ''mod'', ''moderator'', ''motogram'', ''motogramapp'', ''motogram_team'',
      ''motogramofficial'', ''support'', ''help'', ''root'', ''system'', ''api'', ''www'', ''mail'', ''noreply'',
      ''no-reply'', ''team'', ''staff'', ''security'', ''abuse'', ''official'', ''null'', ''undefined'']"

definition isReservedUsername :: "string \<Rightarrow> bool" where
  "isReservedUsername username \<longleftrightarrow>
     (let n = normalizeUsernameForStorage username
      in n = [] \<or> n \<in> set RESERVED_USERNAMES_LOWER \<or> take 8 n = ''motogram'')"

section \<open>Profiles\<close>

record publicUser =
  pu_id :: uid
  pu_username :: string
  pu_name :: "string option"
  pu_bio :: "string option"
  pu_avatarUrl :: "string option"
  pu_coverImageUrl :: "string option"
  pu_city :: "string option"
  pu_country :: "string option"
  pu_ridingStyle :: "string list"
  pu_isPrivate :: bool
  pu_isVerified :: bool
  pu_followersCount :: int
  pu_followingCount :: int
  pu_postsCount :: int
  pu_xp :: int
  pu_level :: int
  pu_createdAt :: time

definition publicSelect :: "user \<Rightarrow> publicUser" where
  "publicSelect u =
     \<lparr>pu_id = u_id u, pu_username = u_username u, pu_name = u_name u, pu_bio = u_bio u, pu_avatarUrl = u_avatarUrl u,
      pu_coverImageUrl = u_coverImageUrl u, pu_city = u_city u, pu_country = u_country u,
      pu_ridingStyle = u_ridingStyle u, pu_isPrivate = u_isPrivate u, pu_isVerified = u_isVerified u,
      pu_followersCount = u_followersCount u, pu_followingCount = u_followingCount u, pu_postsCount = u_postsCount u,
      pu_xp = u_xp u, pu_level = u_level u, pu_createdAt = u_createdAt u\<rparr>"

definition getPublicProfileByUsername ::
  "auth_env \<Rightarrow> string \<Rightarrow> 'a auth_db_scheme \<Rightarrow> (publicUser, 'a auth_db_scheme) outcome" where
  "getPublicProfileByUsername env username w =
     (case find (\<lambda>u. sameText env (trim username) (u_username u) \<and> u_deletedAt u = None \<and> \<not> u_isBanned u) (users w) of
        None \<Rightarrow> throwHttp NotFound ''user_not_found'' NOT_FOUND w
      | Some u \<Rightarrow> ret (publicSelect u) w)"

record meUser =
  me_public :: publicUser
  me_email :: string
  me_pendingEmail :: "string option"
  me_phoneNumber :: "string option"
  me_phoneVerifiedAt :: "time option"
  me_language :: "string option"

definition getMe :: "uid \<Rightarrow> 'a auth_db_scheme \<Rightarrow> (meUser, 'a auth_db_scheme) outcome" where
  "getMe userId w =
     (case find (\<lambda>u. u_id u = userId \<and> u_deletedAt u = None) (users w) of
        None \<Rightarrow> throwHttp NotFound ''user_not_found'' NOT_FOUND w
      | Some u \<Rightarrow> ret \<lparr>me_public = publicSelect u, me_email = u_email u, me_pendingEmail = u_pendingEmail u,
          me_phoneNumber = u_phoneNumber u, me_phoneVerifiedAt = u_phoneVerifiedAt u,
          me_language = map_of (userSettings w) userId\<rparr> w)"

text \<open>The fields that \<open>UpdateProfileSchema\<close> lets through; an absent field is not written.\<close>

record updateProfileDto =
  up_name :: "string option"
  up_bio :: "string option"
  up_city :: "string option"
  up_country :: "string option"
  up_ridingStyle :: "string list option"
  up_isPrivate :: "bool option"
  up_avatarUrl :: "string option"
  up_coverImageUrl :: "string option"

definition given :: "'b option \<Rightarrow> 'b option \<Rightarrow> 'b option" where
  "given new old = (case new of None \<Rightarrow> old | Some v \<Rightarrow> Some v)"

definition applyProfile :: "updateProfileDto \<Rightarrow> user \<Rightarrow> user" where
  "applyProfile d u =
     u\<lparr>u_name := given (up_name d) (u_name u), u_bio := given (up_bio d) (u_bio u),
       u_city := given (up_city d) (u_city u), u_country := given (up_country d) (u_country u),
       u_ridingStyle := (case up_ridingStyle d of None \<Rightarrow> u_ridingStyle u | Some r \<Rightarrow> r),
       u_isPrivate := (case up_isPrivate d of None \<Rightarrow> u_isPrivate u | Some p \<Rightarrow> p),
       u_avatarUrl := given (up_avatarUrl d) (u_avatarUrl u),
       u_coverImageUrl := given (up_coverImageUrl d) (u_coverImageUrl u)\<rparr>"

text \<open>The row after an update, as \<open>user.update\<close> returns it.\<close>

definition selectUser :: "uid \<Rightarrow> 'a auth_db_scheme \<Rightarrow> (publicUser, 'a auth_db_scheme) outcome" where
  "selectUser userId w =
     (case findUser userId w of None \<Rightarrow> raise RecordNotFound w | Some u \<Rightarrow> ret (publicSelect u) w)"

definition updateProfile ::
  "uid \<Rightarrow> updateProfileDto \<Rightarrow> 'a auth_db_scheme \<Rightarrow> (publicUser, 'a auth_db_scheme) outcome" where
  "updateProfile userId dto w = and_then (updateUser userId (applyProfile dto) w) (\<lambda>_ w1. selectUser userId w1)"

text \<open>\<open>user.update({ username, usernameChangedAt })\<close>, with the unique index on \<open>username\<close>.\<close>

definition setUsername ::
  "uid \<Rightarrow> string \<Rightarrow> time \<Rightarrow> 'a auth_db_scheme \<Rightarrow> (unit, 'a auth_db_scheme) outcome" where
  "setUsername userId name now w =
     (if \<exists>v \<in> set (users w). u_id v \<noteq> userId \<and> u_username v = name then raise UniqueViolation w
      else updateUser userId (\<lambda>u. u\<lparr>u_username := name, u_usernameChangedAt := Some now\<rparr>) w)"

definition changeUsername ::
  "auth_env \<Rightarrow> uid \<Rightarrow> string \<Rightarrow> time \<Rightarrow> 'a auth_db_scheme \<Rightarrow> (publicUser, 'a auth_db_scheme) outcome" where
  "changeUsername env userId username now w =
     (let nxt = normalizeUsernameForStorage username
      in case find (\<lambda>u. u_id u = userId \<and> u_deletedAt u = None) (users w) of
           None \<Rightarrow> throwHttp NotFound ''user_not_found'' NOT_FOUND w
         | Some u \<Rightarrow>
             if normalizeUsernameForStorage (u_username u) = nxt then selectUser userId w
             else if isReservedUsername nxt then throwHttp BadRequest ''username_reserved'' VALIDATION_FAILED w
             else if (case u_usernameChangedAt u of None \<Rightarrow> False | Some t \<Rightarrow> now - t < USERNAME_CHANGE_COOLDOWN_MS)
             then throwHttp BadRequest ''username_change_cooldown'' VALIDATION_FAILED w
             else case find (\<lambda>v. u_id v \<noteq> userId \<and> sameText env nxt (u_username v) \<and> u_deletedAt v = None) (users w) of
                    Some _ \<Rightarrow> throwHttp Conflict ''username_taken'' CONFLICT w
                  | None \<Rightarrow> and_then (setUsername userId nxt now w) (\<lambda>_ w1. selectUser userId w1))"

section \<open>Search\<close>

definition blockRelatedUserIds :: "uid \<Rightarrow> 'a core_db_scheme \<Rightarrow> uid list" where
  "blockRelatedUserIds viewerId w =
     (let rows = filter (\<lambda>b. bl_initiatorId b = viewerId \<or> bl_targetId b = viewerId) (blocks w)
      in fold (\<lambda>b ids. sadd (if bl_initiatorId b = viewerId then bl_targetId b else bl_initiatorId b) ids) rows [viewerId])"

definition startsWithText :: "auth_env \<Rightarrow> string \<Rightarrow> string \<Rightarrow> bool" where
  "startsWithText env q s \<longleftrightarrow> take (length (lower env q)) (lower env s) = lower env q"

definition searchHit :: "auth_env \<Rightarrow> string \<Rightarrow> user \<Rightarrow> bool" where
  "searchHit env q u \<longleftrightarrow> u_deletedAt u = None \<and> \<not> u_isBanned u \<and>
     (startsWithText env q (u_username u) \<or> matchesText (lower env) q (u_name u))"

text \<open>
  The filter has the key \<open>id\<close> twice: \<open>id: { notIn: excluded }\<close>, and with a cursor, by the
  spread at its end, \<open>id: { gt: cursor }\<close>, which replaces the first.
\<close>

definition searchUsers ::
  "auth_env \<Rightarrow> uid \<Rightarrow> string \<Rightarrow> nat \<Rightarrow> uid option \<Rightarrow> 'a core_db_scheme \<Rightarrow> publicUser list \<times> uid option" where
  "searchUsers env viewerId q limit cursor w =
     (let excluded = blockRelatedUserIds viewerId w;
          idOk = (\<lambda>u. case truthy cursor of None \<Rightarrow> u_id u \<notin> set excluded | Some c \<Rightarrow> c < u_id u);
          rows = take (limit + 1) (sort_key u_id (filter (\<lambda>u. idOk u \<and> searchHit env (trim q) u) (users w)));
          (page, nxt) = pageOf u_id limit rows
      in (map publicSelect page, nxt))"

section \<open>Usernames change once in thirty days\<close>

datatype usersOp =
    UsersAuth authOp
  | UpdateProfile uid updateProfileDto
  | ChangeUsername uid string time

fun usersStep :: "auth_env \<Rightarrow> usersOp \<Rightarrow> 'a auth_db_scheme \<Rightarrow> 'a auth_db_scheme" where
  "usersStep env (UsersAuth x) w = authStep env x w"
| "usersStep env (UpdateProfile u d) w = snd (updateProfile u d w)"
| "usersStep env (ChangeUsername u n now) w = snd (changeUsername env u n now w)"

lemma selectUser_state [simp]: "snd (selectUser u w) = w"
  by (simp add: selectUser_def split: option.split)

lemma updateProfile_state: "snd (updateProfile u d w) =
    (if u \<in> u_id ` set (users w) then w\<lparr>users := updateMany (\<lambda>r. u_id r = u) (applyProfile d) (users w)\<rparr> else w)"
  by (simp add: updateProfile_def updateUser_cases)

text \<open>A change that goes through, and the only way the state changes.\<close>

lemma changeUsername_state:
  "snd (changeUsername env u n now w) = w \<or>
   (\<exists>r. find (\<lambda>x. u_id x = u \<and> u_deletedAt x = None) (users w) = Some r \<and>
      normalizeUsernameForStorage (u_username r) \<noteq> normalizeUsernameForStorage n \<and>
      \<not> isReservedUsername (normalizeUsernameForStorage n) \<and>
      (\<forall>t. u_usernameChangedAt r = Some t \<longrightarrow> t + USERNAME_CHANGE_COOLDOWN_MS \<le> now) \<and>
      (\<forall>v \<in> set (users w). u_id v \<noteq> u \<and> u_deletedAt v = None \<longrightarrow>
         \<not> sameText env (normalizeUsernameForStorage n) (u_username v)) \<and>
      snd (changeUsername env u n now w) = w\<lparr>users := updateMany (\<lambda>x. u_id x = u)
        (\<lambda>x. x\<lparr>u_username := normalizeUsernameForStorage n, u_usernameChangedAt := Some now\<rparr>) (users w)\<rparr>)"
  by (auto simp: changeUsername_def Let_def setUsername_def updateUser_cases find_none and_then_split
      split: option.split if_splits)

text \<open>The account \<open>u\<close> exists and has had the name \<open>n\<close> since \<open>t\<close>.\<close>

definition namedSince :: "uid \<Rightarrow> string \<Rightarrow> time \<Rightarrow> 'a core_db_scheme \<Rightarrow> bool" where
  "namedSince u n t w \<longleftrightarrow> u \<in> u_id ` set (users w) \<and>
     (\<forall>r \<in> set (users w). u_id r = u \<longrightarrow> u_username r = n \<and> u_usernameChangedAt r = Some t)"

lemma namedSince_cong: "users w = users v \<Longrightarrow> namedSince u n t w = namedSince u n t v"
  by (simp add: namedSince_def)

lemma namedSince_update:
  assumes "namedSince u n t w"
    and "\<And>r. Q r \<Longrightarrow> u_id (f r) = u_id r"
    and "\<And>r. Q r \<Longrightarrow> u_id r = u \<Longrightarrow> u_username (f r) = u_username r \<and> u_usernameChangedAt (f r) = u_usernameChangedAt r"
  shows "namedSince u n t (w\<lparr>users := updateMany Q f (users w)\<rparr>)"
  using assms keys_updateMany [of Q u_id f "users w"] by (auto simp: namedSince_def set_updateMany)

interpretation names_auth: auth_writes "namedSince u n t" for u n t
proof (unfold_locales, goal_cases)
  case (1 w f Q)
  then show ?case by (intro namedSince_update) (simp_all add: keepsAccount_def)
next
  case (2 w i d now)
  then show ?case by (auto simp: namedSince_def newUserRow_def)
qed (simp_all add: namedSince_def takeRnd_def takeUuid_def issueTokenPair_def Let_def
    revokeRefresh_def revokeAllForUser_def case_prod_beta)

lemma namedSince_step:
  assumes "namedSince u n t w" and "\<And>v m now. x = ChangeUsername v m now \<Longrightarrow> now < t + USERNAME_CHANGE_COOLDOWN_MS"
  shows "namedSince u n t (usersStep env x w)"
proof (cases x)
  case (UsersAuth y)
  then show ?thesis using names_auth.P_step [OF assms(1)] by simp
next
  case (UpdateProfile v d)
  then show ?thesis using assms(1)
    by (auto simp: updateProfile_state applyProfile_def intro!: namedSince_update)
next
  case (ChangeUsername v m now)
  then have now: "now < t + USERNAME_CHANGE_COOLDOWN_MS" using assms(2) by blast
  let ?w = "snd (changeUsername env v m now w)"
  show ?thesis
  proof (cases "?w = w")
    case True
    then show ?thesis using ChangeUsername assms(1) by simp
  next
    case False
    then obtain r where r: "find (\<lambda>x. u_id x = v \<and> u_deletedAt x = None) (users w) = Some r"
        "\<forall>s. u_usernameChangedAt r = Some s \<longrightarrow> s + USERNAME_CHANGE_COOLDOWN_MS \<le> now"
        "?w = w\<lparr>users := updateMany (\<lambda>x. u_id x = v)
          (\<lambda>x. x\<lparr>u_username := normalizeUsernameForStorage m, u_usernameChangedAt := Some now\<rparr>) (users w)\<rparr>"
      using changeUsername_state [of env v m now w] by blast
    have "v \<noteq> u" using find_row [OF r(1)] r(2) assms(1) now by (force simp: namedSince_def)
    then have "namedSince u n t ?w" unfolding r(3) by (intro namedSince_update [OF assms(1)]) auto
    then show ?thesis using ChangeUsername by simp
  qed
qed

text \<open>
  A change of the username that takes effect gives the account the normalised name, which is
  not reserved, and no history of the authentication and user services gives it another one
  before thirty days have passed.
\<close>

theorem username_cooldown:
  assumes "w' = snd (changeUsername env u name t w)" and "w' \<noteq> w"
    and "\<forall>x \<in> set ops. \<forall>v m now. x = ChangeUsername v m now \<longrightarrow> now < t + 30 * 24 * 60 * 60 * 1000"
  shows "\<not> isReservedUsername (normalizeUsernameForStorage name) \<and>
    (\<exists>r \<in> set (users (fold (usersStep env) ops w')). u_id r = u) \<and>
    (\<forall>r \<in> set (users (fold (usersStep env) ops w')). u_id r = u \<longrightarrow> u_username r = normalizeUsernameForStorage name)"
proof -
  let ?n = "normalizeUsernameForStorage name"
  obtain r where r: "find (\<lambda>x. u_id x = u \<and> u_deletedAt x = None) (users w) = Some r" "\<not> isReservedUsername ?n"
      "w' = w\<lparr>users := updateMany (\<lambda>x. u_id x = u) (\<lambda>x. x\<lparr>u_username := ?n, u_usernameChangedAt := Some t\<rparr>) (users w)\<rparr>"
    using changeUsername_state [of env u name t w] assms(1,2) by blast
  have "u \<in> u_id ` set (users w)" using find_row [OF r(1)] by auto
  then have "namedSince u ?n t w'"
    using keys_updateMany [of "\<lambda>x. u_id x = u" u_id "\<lambda>x. x\<lparr>u_username := ?n, u_usernameChangedAt := Some t\<rparr>" "users w"]
    by (auto simp: r(3) namedSince_def set_updateMany)
  then have "namedSince u ?n t (fold (usersStep env) ops w')"
    using assms(3)
  proof (induction ops arbitrary: w')
    case (Cons x ops)
    then have "namedSince u ?n t (usersStep env x w')"
      by (intro namedSince_step) (auto simp: USERNAME_CHANGE_COOLDOWN_MS_def)
    with Cons show ?case by simp
  qed simp
  then show ?thesis using r(2) by (auto simp: namedSince_def)
qed

section \<open>The search\<close>

lemma blockRelated_iff: "i \<in> set (blockRelatedUserIds v w) \<longleftrightarrow> i = v \<or> blockedEitherWay v i w"
proof -
  have fold: "set (fold (\<lambda>b ids. sadd (g b) ids) rows acc) = g ` set rows \<union> set acc" for g :: "block \<Rightarrow> uid" and rows acc
    by (induction rows arbitrary: acc) auto
  show ?thesis
    by (force simp: blockRelatedUserIds_def Let_def fold blockedEitherWay_iff image_iff)
qed

text \<open>
  The first page of a search shows, among those that match, only accounts that are neither
  deleted nor banned, not the viewer and nobody with a block to or from the viewer.
\<close>

theorem search_first_page:
  assumes "p \<in> set (fst (searchUsers env viewer q limit None w))"
  shows "pu_id p \<noteq> viewer \<and> \<not> blockedEitherWay viewer (pu_id p) w \<and>
    (\<exists>u \<in> set (users w). p = publicSelect u \<and> searchHit env (trim q) u \<and> u_deletedAt u = None \<and> \<not> u_isBanned u)"
proof -
  let ?rows = "sort_key u_id (filter (\<lambda>u. u_id u \<notin> set (blockRelatedUserIds viewer w) \<and> searchHit env (trim q) u) (users w))"
  obtain u where u: "u \<in> set (fst (pageOf u_id limit (take (limit + 1) ?rows)))" "p = publicSelect u"
    using assms by (auto simp: searchUsers_def Let_def truthy_def case_prod_beta)
  have "u \<in> set (take (limit + 1) ?rows)" by (rule subsetD [OF set_pageOf u(1)])
  then have "u \<in> set (users w)" "u_id u \<notin> set (blockRelatedUserIds viewer w)" "searchHit env (trim q) u"
    by (auto dest: in_set_takeD)
  then show ?thesis using u(2) by (auto simp: blockRelated_iff publicSelect_def searchHit_def)
qed

section \<open>A sample\<close>

theorem username_cooldown_witness:
  "\<exists>r. r \<in> set (users (fold (usersStep sampleEnv) [ChangeUsername ''a'' ''other'' 1000, UsersAuth (Login ''b'' ''qw'' 1001)]
       (snd (changeUsername sampleEnv ''a'' '' Rider_1 '' 5 sampleAuth)))) \<and> u_id r = ''a'' \<and> u_username r = ''rider_1''"
proof -
  let ?w = "snd (changeUsername sampleEnv ''a'' '' Rider_1 '' 5 sampleAuth)"
  have "map u_username (users ?w) \<noteq> map u_username (users sampleAuth)" by code_simp
  then have changed: "?w \<noteq> sampleAuth" by metis
  have "\<forall>x \<in> set [ChangeUsername ''a'' ''other'' 1000, UsersAuth (Login ''b'' ''qw'' 1001)].
      \<forall>v m now. x = ChangeUsername v m now \<longrightarrow> now < 5 + 30 * 24 * 60 * 60 * 1000" by simp
  from username_cooldown [OF refl changed this]
  obtain r where "r \<in> set (users (fold (usersStep sampleEnv) [ChangeUsername ''a'' ''other'' 1000, UsersAuth (Login ''b'' ''qw'' 1001)] ?w))"
      "u_id r = ''a''" "u_username r = normalizeUsernameForStorage '' Rider_1 ''" by blast
  moreover have "normalizeUsernameForStorage '' Rider_1 '' = ''rider_1''" by code_simp
  ultimately show ?thesis by metis
qed

theorem search_first_page_witness:
  "\<exists>p. p \<in> set (fst (searchUsers sampleEnv ''a'' ''b'' 5 None sampleAuth)) \<and> pu_id p = ''b'' \<and> pu_id p \<noteq> ''a''"
proof -
  have "map pu_id (fst (searchUsers sampleEnv ''a'' ''b'' 5 None sampleAuth)) = [''b'']" by code_simp
  from map_singleton [OF this] obtain p where
    p: "p \<in> set (fst (searchUsers sampleEnv ''a'' ''b'' 5 None sampleAuth))" "pu_id p = ''b''" by blast
  from search_first_page [OF p(1)] p show ?thesis by blast
qed

section \<open>What the model shows\<close>

definition sampleBlocked :: auth_db where
  "sampleBlocked = sampleAuth\<lparr>
     users := [(sampleUser ''a'' False)\<lparr>u_username := ''rider1''\<rparr>, (sampleUser ''b'' False)\<lparr>u_username := ''rider2''\<rparr>,
               (sampleUser ''c'' False)\<lparr>u_username := ''rider3''\<rparr>],
     blocks := [\<lparr>bl_id = ''x'', bl_initiatorId = ''c'', bl_targetId = ''b'', bl_createdAt = 0\<rparr>]\<rparr>"

text \<open>
  With a cursor the filter on blocks is gone: \<open>b\<close> does not find \<open>c\<close>, who has blocked \<open>b\<close>, on the
  first page, and finds \<open>c\<close> and itself on the page after \<open>a\<close>.
\<close>

lemma search_next_page_leaks:
  "map pu_id (fst (searchUsers sampleEnv ''b'' ''rider'' 5 None sampleBlocked)) = [''a''] \<and>
   map pu_id (fst (searchUsers sampleEnv ''b'' ''rider'' 5 (Some ''a'') sampleBlocked)) = [''b'', ''c'']"
  by code_simp

text \<open>
  A name that an account marked as deleted still holds passes the check, and the unique index
  then raises P2002, which nothing turns into the 409 of a taken name.
\<close>

lemma name_of_deleted_account:
  "fst (changeUsername sampleEnv ''a'' ''Rider9'' 5 (sampleAuth\<lparr>users := users sampleAuth @
     [(sampleUser ''z'' False)\<lparr>u_username := ''rider9'', u_deletedAt := Some 0\<rparr>]\<rparr>)) = Inl UniqueViolation"
  by code_simp

end
