(* ===== verification/Moderation.thy ===== *)
theory Moderation
  imports Users
begin

text \<open>
  \<open>reports.service.ts\<close> and \<open>admin.service.ts\<close>: reports and their review, bans, roles, and the
  audit log that every moderation writes in the transaction of the change. The state is the
  authentication service's, extended by the reports and the log. The dashboard, which counts
  rows of every service, is not modelled.
\<close>

section \<open>State\<close>

datatype reportTarget = RT_USER | RT_POST | RT_COMMENT | RT_MESSAGE | RT_GROUP | RT_EVENT

datatype reportStatus = RS_PENDING | RS_REVIEWING | RS_RESOLVED | RS_DISMISSED

record report =
  re_id :: uid
  re_reporterId :: uid
  re_targetType :: reportTarget
  re_targetId :: uid
  re_reason :: string
  re_description :: "string option"
  re_status :: reportStatus
  re_reviewedBy :: "uid option"
  re_reviewedAt :: "time option"
  re_createdAt :: time

record auditRow =
  ag_id :: uid
  ag_actorUserId :: "uid option"
  ag_action :: string
  ag_targetType :: "string option"
  ag_targetId :: "uid option"
  ag_metadata :: "(string \<times> string) list option"
  ag_createdAt :: time

record moderation_db = auth_db +
  reports :: "report list"
  auditLogs :: "auditRow list"

section \<open>Reports\<close>

definition REPORT_DEDUPE_WINDOW_MS :: int where "REPORT_DEDUPE_WINDOW_MS = 24 * 60 * 60 * 1000"

record createReportDto =
  cr_targetType :: reportTarget
  cr_targetId :: uid
  cr_reason :: string
  cr_description :: "string option"

definition createReport ::
  "uid \<Rightarrow> createReportDto \<Rightarrow> time \<Rightarrow> 'a moderation_db_scheme \<Rightarrow> (report, 'a moderation_db_scheme) outcome" where
  "createReport reporterId dto now w =
     (let since = now - REPORT_DEDUPE_WINDOW_MS
      in case find (\<lambda>r. re_reporterId r = reporterId \<and> re_targetType r = cr_targetType dto \<and>
                    re_targetId r = cr_targetId dto \<and> since \<le> re_createdAt r) (reports w) of
           Some _ \<Rightarrow> throwHttp Conflict ''report_duplicate'' CONFLICT w
         | None \<Rightarrow>
             if \<not> userExists reporterId w then raise ForeignKeyViolation w
             else let row = \<lparr>re_id = newUuid w, re_reporterId = reporterId, re_targetType = cr_targetType dto,
                         re_targetId = cr_targetId dto, re_reason = cr_reason dto, re_description = cr_description dto,
                         re_status = RS_PENDING, re_reviewedBy = None, re_reviewedAt = None, re_createdAt = now\<rparr>;
                      w1 = takeUuid w
                  in ret row (w1\<lparr>reports := reports w1 @ [row]\<rparr>))"

record listReportsQuery =
  lq_status :: "reportStatus option"
  lq_targetType :: "reportTarget option"
  lq_reporterId :: "uid option"
  lq_cursor :: "uid option"
  lq_limit :: nat

definition wanted :: "'b option \<Rightarrow> 'b \<Rightarrow> bool" where
  "wanted want v \<longleftrightarrow> (case want of None \<Rightarrow> True | Some x \<Rightarrow> v = x)"

text \<open>\<open>orderBy: { createdAt: 'desc' }\<close>\<close>

definition newestFirst :: "('r \<Rightarrow> time) \<Rightarrow> 'r list \<Rightarrow> 'r list" where
  "newestFirst stamp rows = sort_key (\<lambda>r. - stamp r) rows"

definition listReports ::
  "listReportsQuery \<Rightarrow> 'a moderation_db_scheme \<Rightarrow> (report \<times> (uid \<times> string \<times> string option) option) list" where
  "listReports q w =
     map (\<lambda>r. (r, map_option (\<lambda>u. (u_id u, u_username u, u_avatarUrl u)) (findUser (re_reporterId r) w)))
       (afterCursor re_id (lq_cursor q) (lq_limit q)
         (newestFirst re_createdAt (filter (\<lambda>r. wanted (lq_status q) (re_status r) \<and>
            wanted (lq_targetType q) (re_targetType r) \<and> wanted (lq_reporterId q) (re_reporterId r)) (reports w))))"

section \<open>The audit log\<close>

definition addAudit ::
  "uid \<Rightarrow> string \<Rightarrow> string \<Rightarrow> uid \<Rightarrow> (string \<times> string) list option \<Rightarrow> time \<Rightarrow> 'a moderation_db_scheme \<Rightarrow>
   (unit, 'a moderation_db_scheme) outcome" where
  "addAudit actorId action targetType targetId metadata now w =
     (if \<not> userExists actorId w then raise ForeignKeyViolation w
      else let w1 = takeUuid w
           in ret () (w1\<lparr>auditLogs := auditLogs w1 @
                [\<lparr>ag_id = newUuid w, ag_actorUserId = Some actorId, ag_action = action, ag_targetType = Some targetType,
                  ag_targetId = Some targetId, ag_metadata = metadata, ag_createdAt = now\<rparr>]\<rparr>))"

record listAuditQuery =
  laq_action :: "string option"
  laq_actorUserId :: "uid option"
  laq_targetType :: "string option"
  laq_targetId :: "uid option"
  laq_fromDate :: "time option"
  laq_toDate :: "time option"
  laq_cursor :: "uid option"
  laq_limit :: nat

definition listAuditLogs :: "listAuditQuery \<Rightarrow> 'a moderation_db_scheme \<Rightarrow> auditRow list" where
  "listAuditLogs q w =
     afterCursor ag_id (laq_cursor q) (laq_limit q)
       (newestFirst ag_createdAt (filter (\<lambda>r.
          wanted (truthy (laq_action q)) (ag_action r) \<and>
          wanted (map_option Some (truthy (laq_actorUserId q))) (ag_actorUserId r) \<and>
          wanted (map_option Some (truthy (laq_targetType q))) (ag_targetType r) \<and>
          wanted (map_option Some (truthy (laq_targetId q))) (ag_targetId r) \<and>
          (case laq_fromDate q of None \<Rightarrow> True | Some t \<Rightarrow> t \<le> ag_createdAt r) \<and>
          (case laq_toDate q of None \<Rightarrow> True | Some t \<Rightarrow> ag_createdAt r \<le> t)) (auditLogs w)))"

section \<open>Review\<close>

datatype reviewStatus = REVIEWING | RESOLVED | DISMISSED

fun reviewed :: "reviewStatus \<Rightarrow> reportStatus" where
  "reviewed REVIEWING = RS_REVIEWING" | "reviewed RESOLVED = RS_RESOLVED" | "reviewed DISMISSED = RS_DISMISSED"

fun reviewAction :: "reviewStatus \<Rightarrow> string" where
  "reviewAction REVIEWING = ''report.reviewing''" | "reviewAction RESOLVED = ''report.resolved''"
| "reviewAction DISMISSED = ''report.dismissed''"

definition reviewReport ::
  "uid \<Rightarrow> uid \<Rightarrow> reviewStatus \<Rightarrow> string option \<Rightarrow> time \<Rightarrow> 'a moderation_db_scheme \<Rightarrow>
   (report option, 'a moderation_db_scheme) outcome" where
  "reviewReport reportId actorId status note now w =
     (case findUnique re_id reportId (reports w) of
        None \<Rightarrow> throwHttp NotFound ''report_not_found'' NOT_FOUND w
      | Some _ \<Rightarrow> transaction (\<lambda>tx.
          and_then (write_or RecordNotFound
              (updateRow re_id reportId (\<lambda>r. r\<lparr>re_status := reviewed status, re_reviewedBy := Some actorId,
                 re_reviewedAt := Some now\<rparr>) (reports tx)) (\<lambda>t. tx\<lparr>reports := t\<rparr>) tx) (\<lambda>_ tx1.
            and_then (addAudit actorId (reviewAction status) ''report'' reportId
                (map_option (\<lambda>n. [(''note'', n)]) (truthy note)) now tx1) (\<lambda>_ tx2.
              ret (findUnique re_id reportId (reports tx2)) tx2))) w)"

section \<open>Bans and roles\<close>

record adminUser =
  ad_id :: uid
  ad_username :: string
  ad_email :: string
  ad_role :: userRole
  ad_isBanned :: bool
  ad_shadowBanned :: bool
  ad_isVerified :: bool
  ad_deletedAt :: "time option"
  ad_xp :: int
  ad_level :: int
  ad_followersCount :: int
  ad_postsCount :: int
  ad_createdAt :: time
  ad_lastSeenAt :: "time option"

definition adminSelect :: "user \<Rightarrow> adminUser" where
  "adminSelect u =
     \<lparr>ad_id = u_id u, ad_username = u_username u, ad_email = u_email u, ad_role = u_role u, ad_isBanned = u_isBanned u,
      ad_shadowBanned = u_shadowBanned u, ad_isVerified = u_isVerified u, ad_deletedAt = u_deletedAt u, ad_xp = u_xp u,
      ad_level = u_level u, ad_followersCount = u_followersCount u, ad_postsCount = u_postsCount u,
      ad_createdAt = u_createdAt u, ad_lastSeenAt = u_lastSeenAt u\<rparr>"

record listUsersQuery =
  luq_role :: "userRole option"
  luq_isBanned :: "bool option"
  luq_shadowBanned :: "bool option"
  luq_search :: "string option"
  luq_cursor :: "uid option"
  luq_limit :: nat

definition listAdminUsers :: "auth_env \<Rightarrow> listUsersQuery \<Rightarrow> 'a core_db_scheme \<Rightarrow> adminUser list" where
  "listAdminUsers env q w =
     map adminSelect (afterCursor u_id (luq_cursor q) (luq_limit q)
       (newestFirst u_createdAt (filter (\<lambda>u. wanted (luq_role q) (u_role u) \<and> wanted (luq_isBanned q) (u_isBanned u) \<and>
          wanted (luq_shadowBanned q) (u_shadowBanned u) \<and>
          (case truthy (luq_search q) of None \<Rightarrow> True
           | Some s \<Rightarrow> matchesText (lower env) s (Some (u_username u)) \<or> matchesText (lower env) s (Some (u_email u))))
          (users w))))"

text \<open>The transaction that the three handlers share: one update of the user, one row of the log.\<close>

definition moderateUser ::
  "uid \<Rightarrow> uid \<Rightarrow> (user \<Rightarrow> user) \<Rightarrow> string \<Rightarrow> (string \<times> string) list option \<Rightarrow> time \<Rightarrow> 'a moderation_db_scheme \<Rightarrow>
   (adminUser option, 'a moderation_db_scheme) outcome" where
  "moderateUser userId actorId f action metadata now w = transaction (\<lambda>tx.
     and_then (updateUser userId f tx) (\<lambda>_ tx1.
       and_then (addAudit actorId action ''user'' userId metadata now tx1) (\<lambda>_ tx2.
         ret (map_option adminSelect (findUser userId tx2)) tx2))) w"

definition banUser ::
  "uid \<Rightarrow> uid \<Rightarrow> string \<Rightarrow> bool \<Rightarrow> time \<Rightarrow> 'a moderation_db_scheme \<Rightarrow> (adminUser option, 'a moderation_db_scheme) outcome" where
  "banUser userId actorId reason shadowOnly now w =
     (case findUser userId w of
        None \<Rightarrow> throwHttp NotFound ''user_not_found'' NOT_FOUND w
      | Some _ \<Rightarrow> moderateUser userId actorId
          (\<lambda>u. if shadowOnly then u\<lparr>u_shadowBanned := True\<rparr> else u\<lparr>u_isBanned := True, u_shadowBanned := True\<rparr>)
          (if shadowOnly then ''user.shadow_banned'' else ''user.banned'') (Some [(''reason'', reason)]) now w)"

definition unbanUser ::
  "uid \<Rightarrow> uid \<Rightarrow> time \<Rightarrow> 'a moderation_db_scheme \<Rightarrow> (unit, 'a moderation_db_scheme) outcome" where
  "unbanUser userId actorId now w =
     (case findUser userId w of
        None \<Rightarrow> throwHttp NotFound ''user_not_found'' NOT_FOUND w
      | Some _ \<Rightarrow> and_then (moderateUser userId actorId (\<lambda>u. u\<lparr>u_isBanned := False, u_shadowBanned := False\<rparr>)
          ''user.unbanned'' None now w) (\<lambda>_ w1. ret () w1))"

fun roleName :: "userRole \<Rightarrow> string" where
  "roleName USER = ''USER''" | "roleName MODERATOR = ''MODERATOR''" | "roleName ADMIN = ''ADMIN''"

definition setUserRole ::
  "uid \<Rightarrow> uid \<Rightarrow> userRole \<Rightarrow> time \<Rightarrow> 'a moderation_db_scheme \<Rightarrow> (adminUser option, 'a moderation_db_scheme) outcome" where
  "setUserRole userId actorId role now w =
     (case findUser userId w of
        None \<Rightarrow> throwHttp NotFound ''user_not_found'' NOT_FOUND w
      | Some u \<Rightarrow> moderateUser userId actorId (\<lambda>r. r\<lparr>u_role := role\<rparr>) ''user.role_changed''
          (Some [(''from'', roleName (u_role u)), (''to'', roleName role)]) now w)"

section \<open>Histories\<close>

datatype moderationOp =
    ByUsers usersOp
  | CreateReport uid createReportDto time
  | ReviewReport uid uid reviewStatus "string option" time
  | BanUser uid uid string bool time
  | UnbanUser uid uid time
  | SetUserRole uid uid userRole time

fun moderationStep :: "auth_env \<Rightarrow> moderationOp \<Rightarrow> 'a moderation_db_scheme \<Rightarrow> 'a moderation_db_scheme" where
  "moderationStep env (ByUsers x) w = usersStep env x w"
| "moderationStep env (CreateReport u dto now) w = snd (createReport u dto now w)"
| "moderationStep env (ReviewReport r a st n now) w = snd (reviewReport r a st n now w)"
| "moderationStep env (BanUser u a reason s now) w = snd (banUser u a reason s now w)"
| "moderationStep env (UnbanUser u a now) w = snd (unbanUser u a now w)"
| "moderationStep env (SetUserRole u a role now) w = snd (setUserRole u a role now w)"

text \<open>A moderation changes nothing, or one user and the log by the row that says so.\<close>

lemma moderateUser_state:
  "snd (moderateUser u a f action metadata now w) = w \<or>
   (u \<in> u_id ` set (users w) \<and> a \<in> u_id ` set (users (snd (moderateUser u a f action metadata now w))) \<and>
    users (snd (moderateUser u a f action metadata now w)) = updateMany (\<lambda>r. u_id r = u) f (users w) \<and>
    reports (snd (moderateUser u a f action metadata now w)) = reports w \<and>
    auditLogs (snd (moderateUser u a f action metadata now w)) = auditLogs w @
      [\<lparr>ag_id = newUuid w, ag_actorUserId = Some a, ag_action = action, ag_targetType = Some ''user'',
        ag_targetId = Some u, ag_metadata = metadata, ag_createdAt = now\<rparr>])"
  by (simp add: moderateUser_def transaction_def updateUser_cases addAudit_def Let_def raise_def ret_def takeUuid_def newUuid_def
      userExists_def findUser_def findUnique_None)

lemma moderateUser_ok:
  assumes "moderateUser u a f action metadata now w = (Inr r, w')"
  shows "u \<in> u_id ` set (users w)" and "users w' = updateMany (\<lambda>r. u_id r = u) f (users w)"
  using assms by (auto simp: moderateUser_def transaction_def updateUser_cases addAudit_def Let_def raise_def ret_def
      takeUuid_def split: if_splits)

text \<open>What a report does: a row more, or nothing.\<close>

lemma createReport_state:
  "snd (createReport u dto now w) = w \<or>
   (\<exists>row. reports (snd (createReport u dto now w)) = reports w @ [row] \<and> re_createdAt row = now \<and>
      re_reporterId row = u \<and> re_targetType row = cr_targetType dto \<and> re_targetId row = cr_targetId dto \<and>
      (\<forall>r \<in> set (reports w). re_reporterId r = u \<and> re_targetType r = cr_targetType dto \<and> re_targetId r = cr_targetId dto \<longrightarrow>
         re_createdAt r + REPORT_DEDUPE_WINDOW_MS < now) \<and>
      users (snd (createReport u dto now w)) = users w \<and> auditLogs (snd (createReport u dto now w)) = auditLogs w)"
  by (auto simp: createReport_def Let_def find_none takeUuid_def split: option.split)

lemma reviewReport_state:
  "users (snd (reviewReport r a st n now w)) = users w"
  "snd (reviewReport r a st n now w) = w \<or>
   (reports (snd (reviewReport r a st n now w)) = updateMany (\<lambda>x. re_id x = r)
      (\<lambda>x. x\<lparr>re_status := reviewed st, re_reviewedBy := Some a, re_reviewedAt := Some now\<rparr>) (reports w) \<and>
    (\<exists>row. auditLogs (snd (reviewReport r a st n now w)) = auditLogs w @ [row] \<and> ag_actorUserId row = Some a \<and>
       a \<in> u_id ` set (users w) \<and> ag_targetType row = Some ''report'' \<and> ag_targetId row = Some r \<and> ag_createdAt row = now))"
  by (auto simp: reviewReport_def transaction_def write_or_def updateRow_def addAudit_def Let_def raise_def ret_def
      takeUuid_def userExists_def findUser_def findUnique_None split: option.split)

subsection \<open>One report a day\<close>

text \<open>Of two reports of one reporter on one target the later is more than a day younger.\<close>

fun spaced :: "report list \<Rightarrow> bool" where
  "spaced [] = True"
| "spaced (r # rs) \<longleftrightarrow> spaced rs \<and>
     (\<forall>s \<in> set rs. re_reporterId s = re_reporterId r \<and> re_targetType s = re_targetType r \<and> re_targetId s = re_targetId r \<longrightarrow>
        re_createdAt r + REPORT_DEDUPE_WINDOW_MS < re_createdAt s)"

lemma spaced_append:
  "spaced (rs @ [s]) \<longleftrightarrow> spaced rs \<and>
     (\<forall>r \<in> set rs. re_reporterId s = re_reporterId r \<and> re_targetType s = re_targetType r \<and> re_targetId s = re_targetId r \<longrightarrow>
        re_createdAt r + REPORT_DEDUPE_WINDOW_MS < re_createdAt s)"
  by (induction rs) auto

lemma spaced_map:
  assumes "\<And>r. re_reporterId (g r) = re_reporterId r" and "\<And>r. re_targetType (g r) = re_targetType r"
    and "\<And>r. re_targetId (g r) = re_targetId r" and "\<And>r. re_createdAt (g r) = re_createdAt r"
  shows "spaced (map g rs) = spaced rs"
  using assms by (induction rs) simp_all

interpretation records_auth: auth_writes
  "\<lambda>w :: 'a moderation_db_scheme. reports w = R \<and> auditLogs w = L" for R L
  by unfold_locales (simp_all add: takeRnd_def takeUuid_def issueTokenPair_def Let_def
    revokeRefresh_def revokeAllForUser_def case_prod_beta)

lemma usersStep_records [simp]:
  "reports (usersStep env x w) = reports w \<and> auditLogs (usersStep env x w) = auditLogs w"
proof (cases x)
  case (UsersAuth y)
  then show ?thesis using records_auth.P_step [of w "reports w" "auditLogs w" env y] by simp
next
  case (UpdateProfile u d)
  then show ?thesis by (simp add: updateProfile_state)
next
  case (ChangeUsername u n now)
  then show ?thesis using changeUsername_state [of env u n now w] by auto
qed

lemma moderateUser_reports [simp]: "reports (snd (moderateUser u a f action metadata now w)) = reports w"
  using moderateUser_state [of u a f action metadata now w] by auto

lemma bans_reports [simp]:
  "reports (snd (banUser u a reason s now w)) = reports w" "reports (snd (unbanUser u a now w)) = reports w"
  "reports (snd (setUserRole u a role now w)) = reports w"
  by (simp_all add: banUser_def unbanUser_def setUserRole_def split: option.split)

lemma spaced_step:
  assumes "spaced (reports w)" shows "spaced (reports (moderationStep env x w))"
proof (cases x)
  case (CreateReport u dto now)
  then show ?thesis using assms createReport_state [of u dto now w] by (auto simp: spaced_append)
next
  case (ReviewReport r a st n now)
  then show ?thesis using assms reviewReport_state(2) [of r a st n now w]
    by (auto simp: updateMany_def spaced_map)
qed (use assms in simp_all)

interpretation spacing: invariant_system "moderationStep env" "\<lambda>w. spaced (reports w)" for env
  by unfold_locales (rule spaced_step)

lemma spaced_nth:
  assumes "spaced rs" and "i < j" and "j < length rs" and "re_reporterId (rs ! i) = re_reporterId (rs ! j)"
    and "re_targetType (rs ! i) = re_targetType (rs ! j)" and "re_targetId (rs ! i) = re_targetId (rs ! j)"
  shows "re_createdAt (rs ! i) + REPORT_DEDUPE_WINDOW_MS < re_createdAt (rs ! j)"
  using assms
proof (induction rs arbitrary: i j)
  case (Cons r rs)
  obtain j' where j: "j = Suc j'" using Cons.prems(2) by (cases j) auto
  show ?case
  proof (cases i)
    case 0
    then have "rs ! j' \<in> set rs" using Cons.prems(3) j by simp
    then show ?thesis using Cons.prems(1,4-6) 0 j by auto
  next
    case (Suc i')
    then show ?thesis using Cons.IH [of i' j'] Cons.prems j by simp
  qed
qed simp

text \<open>
  Nobody reports the same target twice in a day: after any history of the services, of two
  reports of one reporter on one target the one filed later was created more than 24 hours
  after the other.
\<close>

theorem report_dedupe:
  assumes "reports w0 = []" and "w = fold (moderationStep env) ops w0" and "i < j" and "j < length (reports w)"
    and "re_reporterId (reports w ! i) = re_reporterId (reports w ! j)"
    and "re_targetType (reports w ! i) = re_targetType (reports w ! j)"
    and "re_targetId (reports w ! i) = re_targetId (reports w ! j)"
  shows "re_createdAt (reports w ! i) + 24 * 60 * 60 * 1000 < re_createdAt (reports w ! j)"
proof -
  have "spaced (reports w)" unfolding assms(2) by (rule spacing.run_inv) (simp add: assms(1))
  from spaced_nth [OF this assms(3-7)] show ?thesis by (simp add: REPORT_DEDUPE_WINDOW_MS_def)
qed

section \<open>Bans and roles are what the log says\<close>

text \<open>
  The privileges of an account are its role, its ban and its shadow ban. Reading an entry of the
  log says what they become; the log is replayed from those the account had at the start, or, for
  an account created since, from those of a new one.
\<close>

type_synonym standing = "userRole \<times> bool \<times> bool"

definition standing :: "user \<Rightarrow> standing" where
  "standing r = (u_role r, u_isBanned r, u_shadowBanned r)"

definition roleNamed :: "string \<Rightarrow> userRole" where
  "roleNamed n = (if n = ''ADMIN'' then ADMIN else if n = ''MODERATOR'' then MODERATOR else USER)"

lemma roleNamed_name [simp]: "roleNamed (roleName r) = r"
  by (cases r) (simp_all add: roleNamed_def)

definition newRole :: "auditRow \<Rightarrow> userRole" where
  "newRole g = roleNamed (the (map_of (the (ag_metadata g)) ''to''))"

definition replay :: "auditRow \<Rightarrow> standing \<Rightarrow> standing" where
  "replay g s = (case s of (role, banned, shadow) \<Rightarrow>
     if ag_action g = ''user.banned'' then (role, True, True)
     else if ag_action g = ''user.shadow_banned'' then (role, banned, True)
     else if ag_action g = ''user.unbanned'' then (role, False, False)
     else if ag_action g = ''user.role_changed'' then (newRole g, banned, shadow)
     else s)"

definition entriesOf :: "uid \<Rightarrow> auditRow list \<Rightarrow> auditRow list" where
  "entriesOf u gs = filter (\<lambda>g. ag_targetType g = Some ''user'' \<and> ag_targetId g = Some u) gs"

definition firstStanding :: "uid \<Rightarrow> user list \<Rightarrow> standing" where
  "firstStanding u us = (case findUnique u_id u us of None \<Rightarrow> (USER, False, False) | Some r \<Rightarrow> standing r)"

text \<open>
  The log has grown by \<open>new\<close>, each entry by an account and, if on a user, on an existing one; what
  it replays to is what the rows hold.
\<close>

definition accounted :: "user list \<Rightarrow> auditRow list \<Rightarrow> 'a moderation_db_scheme \<Rightarrow> bool" where
  "accounted us old w \<longleftrightarrow> u_id ` set us \<subseteq> u_id ` set (users w) \<and>
     (\<exists>new. auditLogs w = old @ new \<and>
        (\<forall>g \<in> set new. (\<exists>a. ag_actorUserId g = Some a \<and> a \<in> u_id ` set (users w)) \<and>
           (ag_targetType g = Some ''user'' \<longrightarrow> (\<exists>u. ag_targetId g = Some u \<and> u \<in> u_id ` set (users w)))) \<and>
        (\<forall>r \<in> set (users w). standing r = fold replay (entriesOf (u_id r) new) (firstStanding (u_id r) us)))"

lemma accounted_start:
  assumes "unique u_id (users w)" shows "accounted (users w) (auditLogs w) w"
proof -
  have "findUnique u_id (u_id r) (users w) = Some r" if "r \<in> set (users w)" for r
    using that assms by (simp add: findUnique_iff)
  then show ?thesis by (simp add: accounted_def entriesOf_def firstStanding_def)
qed

lemma accounted_users:
  assumes "accounted us old w" and "auditLogs w' = auditLogs w" and "users w' = updateMany Q f (users w)"
    and "\<And>r. u_id (f r) = u_id r" and "\<And>r. standing (f r) = standing r"
  shows "accounted us old w'"
proof -
  have ids: "u_id ` set (users w') = u_id ` set (users w)" unfolding assms(3) by (rule keys_updateMany) (rule assms(4))
  have rows: "\<exists>r \<in> set (users w). u_id s = u_id r \<and> standing s = standing r" if "s \<in> set (users w')" for s
    using that assms(4,5) unfolding assms(3) set_updateMany by fastforce
  from assms(1) show ?thesis unfolding accounted_def ids assms(2) using rows by (metis (no_types, lifting))
qed

lemma accounted_same:
  "accounted us old w \<Longrightarrow> auditLogs w' = auditLogs w \<Longrightarrow> users w' = users w \<Longrightarrow> accounted us old w'"
  by (simp add: accounted_def)

lemma accounted_create:
  assumes "accounted us old w" and "u_id r \<notin> u_id ` set (users w)" and "standing r = (USER, False, False)"
    and "users w' = users w @ [r]" and "auditLogs w' = auditLogs w"
  shows "accounted us old w'"
proof -
  from assms(1) obtain new where new: "u_id ` set us \<subseteq> u_id ` set (users w)" "auditLogs w = old @ new"
    "\<forall>g \<in> set new. (\<exists>a. ag_actorUserId g = Some a \<and> a \<in> u_id ` set (users w)) \<and>
       (ag_targetType g = Some ''user'' \<longrightarrow> (\<exists>u. ag_targetId g = Some u \<and> u \<in> u_id ` set (users w)))"
    "\<forall>r \<in> set (users w). standing r = fold replay (entriesOf (u_id r) new) (firstStanding (u_id r) us)"
    unfolding accounted_def by blast
  have "\<not> (ag_targetType g = Some ''user'' \<and> ag_targetId g = Some (u_id r))" if "g \<in> set new" for g
    using new(3) assms(2) that by (metis option.inject)
  then have "entriesOf (u_id r) new = []" by (simp add: entriesOf_def filter_empty_conv)
  moreover have "findUnique u_id (u_id r) us = None" using new(1) assms(2) by (auto simp: findUnique_None)
  ultimately have "standing r = fold replay (entriesOf (u_id r) new) (firstStanding (u_id r) us)"
    by (simp add: firstStanding_def assms(3))
  then have "\<forall>s \<in> set (users w'). standing s = fold replay (entriesOf (u_id s) new) (firstStanding (u_id s) us)"
    using new(4) by (simp add: assms(4))
  moreover have "u_id ` set (users w) \<subseteq> u_id ` set (users w')" by (auto simp: assms(4))
  ultimately show ?thesis unfolding accounted_def assms(5)
    using new(1-3) by (intro conjI exI [of _ new]) (simp_all add: subset_iff, metis+)
qed

interpretation accounted_auth: auth_writes "accounted us old" for us old
proof (unfold_locales, goal_cases)
  case (1 w f Q)
  show ?case by (rule accounted_users [where f = f and Q = Q, OF 1(1)]) (use 1(2) in \<open>simp_all add: keepsAccount_def standing_def\<close>)
next
  case (2 w i d now)
  show ?case by (rule accounted_create [OF 2(1), of "newUserRow i d now"]) (use 2(2) in \<open>simp_all add: newUserRow_def standing_def\<close>)
qed (simp_all add: accounted_def takeRnd_def takeUuid_def issueTokenPair_def Let_def
    revokeRefresh_def revokeAllForUser_def case_prod_beta)

text \<open>One row more: the entry says what becomes of its account, and of no other.\<close>

lemma accounted_entry:
  assumes "accounted us old w" and "auditLogs w' = auditLogs w @ [g]" and "u_id ` set (users w') = u_id ` set (users w)"
    and "ag_actorUserId g = Some a" and "a \<in> u_id ` set (users w)"
    and "ag_targetType g = Some ''user'' \<Longrightarrow> \<exists>u. ag_targetId g = Some u \<and> u \<in> u_id ` set (users w)"
    and "\<And>s. s \<in> set (users w') \<Longrightarrow> \<exists>r \<in> set (users w). u_id s = u_id r \<and>
      standing s = (if ag_targetType g = Some ''user'' \<and> ag_targetId g = Some (u_id r) then replay g (standing r) else standing r)"
  shows "accounted us old w'"
proof -
  from assms(1) obtain new where new: "u_id ` set us \<subseteq> u_id ` set (users w)" "auditLogs w = old @ new"
    "\<forall>g \<in> set new. (\<exists>a. ag_actorUserId g = Some a \<and> a \<in> u_id ` set (users w)) \<and>
       (ag_targetType g = Some ''user'' \<longrightarrow> (\<exists>u. ag_targetId g = Some u \<and> u \<in> u_id ` set (users w)))"
    "\<forall>r \<in> set (users w). standing r = fold replay (entriesOf (u_id r) new) (firstStanding (u_id r) us)"
    unfolding accounted_def by blast
  have "standing s = fold replay (entriesOf (u_id s) (new @ [g])) (firstStanding (u_id s) us)" if s: "s \<in> set (users w')" for s
  proof -
    obtain r where r: "r \<in> set (users w)" "u_id s = u_id r"
      "standing s = (if ag_targetType g = Some ''user'' \<and> ag_targetId g = Some (u_id r) then replay g (standing r) else standing r)"
      using assms(7) [OF s] by blast
    have "standing r = fold replay (entriesOf (u_id r) new) (firstStanding (u_id r) us)" using new(4) r(1) by blast
    then show ?thesis unfolding r(2,3) by (simp add: entriesOf_def)
  qed
  moreover have "\<forall>h \<in> set (new @ [g]). (\<exists>a. ag_actorUserId h = Some a \<and> a \<in> u_id ` set (users w')) \<and>
       (ag_targetType h = Some ''user'' \<longrightarrow> (\<exists>u. ag_targetId h = Some u \<and> u \<in> u_id ` set (users w')))"
    unfolding assms(3) using new(3) assms(4-6) by simp
  moreover have "auditLogs w' = old @ (new @ [g])" by (simp add: assms(2) new(2))
  ultimately show ?thesis using new(1) unfolding accounted_def assms(3) by blast
qed

lemma accounted_moderate:
  assumes "accounted us old w" and "\<And>r. u_id (f r) = u_id r"
    and "\<And>r i t. standing (f r) = replay \<lparr>ag_id = i, ag_actorUserId = Some a, ag_action = action, ag_targetType = Some ''user'',
      ag_targetId = Some u, ag_metadata = metadata, ag_createdAt = t\<rparr> (standing r)"
  shows "accounted us old (snd (moderateUser u a f action metadata now w))"
  using moderateUser_state [of u a f action metadata now w]
proof (elim disjE conjE)
  let ?w = "snd (moderateUser u a f action metadata now w)"
  let ?g = "\<lparr>ag_id = newUuid w, ag_actorUserId = Some a, ag_action = action, ag_targetType = Some ''user'',
        ag_targetId = Some u, ag_metadata = metadata, ag_createdAt = now\<rparr>"
  assume u: "u \<in> u_id ` set (users w)" and a: "a \<in> u_id ` set (users ?w)"
    and us: "users ?w = updateMany (\<lambda>r. u_id r = u) f (users w)" and log: "auditLogs ?w = auditLogs w @ [?g]"
  have ids: "u_id ` set (users ?w) = u_id ` set (users w)" unfolding us by (rule keys_updateMany) (rule assms(2))
  show ?thesis
  proof (rule accounted_entry [OF assms(1) log ids, of a])
    fix s
    assume "s \<in> set (users ?w)"
    then obtain r where "r \<in> set (users w)" "s = (if u_id r = u then f r else r)" by (auto simp: us set_updateMany)
    then show "\<exists>r \<in> set (users w). u_id s = u_id r \<and> standing s =
        (if ag_targetType ?g = Some ''user'' \<and> ag_targetId ?g = Some (u_id r) then replay ?g (standing r) else standing r)"
      using assms(2,3) by (intro bexI [of _ r]) auto
  qed (use u a ids in simp_all)
qed (use assms(1) in simp)

lemma accounted_step:
  assumes "accounted us old w" shows "accounted us old (moderationStep env x w)"
proof (cases x)
  case (ByUsers y)
  show ?thesis
  proof (cases y)
    case (UsersAuth z)
    then show ?thesis using ByUsers accounted_auth.P_step [OF assms] by simp
  next
    case (UpdateProfile u d)
    then show ?thesis using ByUsers assms
      by (auto simp: updateProfile_state applyProfile_def standing_def intro!: accounted_users [OF assms])
  next
    case (ChangeUsername u n now)
    then show ?thesis using ByUsers assms changeUsername_state [of env u n now w]
      by (cases "snd (changeUsername env u n now w) = w") (auto simp: standing_def intro!: accounted_users [OF assms])
  qed
next
  case (CreateReport u dto now)
  then show ?thesis using assms createReport_state [of u dto now w] accounted_same [OF assms] by auto
next
  case (ReviewReport r a st n now)
  show ?thesis
  proof (cases "snd (reviewReport r a st n now w) = w")
    case False
    then obtain g where g: "auditLogs (snd (reviewReport r a st n now w)) = auditLogs w @ [g]"
        "ag_actorUserId g = Some a" "a \<in> u_id ` set (users w)" "ag_targetType g = Some ''report''"
      using reviewReport_state(2) [of r a st n now w] by blast
    have "accounted us old (snd (reviewReport r a st n now w))"
      by (rule accounted_entry [OF assms g(1) _ g(2,3)]) (use g(4) in \<open>auto simp: reviewReport_state(1)\<close>)
    then show ?thesis using ReviewReport by simp
  qed (use ReviewReport assms in simp)
next
  case (BanUser u a reason shadow now)
  then show ?thesis using assms
    by (auto simp: banUser_def standing_def replay_def split: option.split intro!: accounted_moderate)
next
  case (UnbanUser u a now)
  then show ?thesis using assms
    by (auto simp: unbanUser_def standing_def replay_def split: option.split intro!: accounted_moderate)
next
  case (SetUserRole u a role now)
  then show ?thesis using assms
    by (auto simp: setUserRole_def standing_def replay_def newRole_def split: option.split intro!: accounted_moderate)
qed

interpretation accounting: invariant_system "moderationStep env" "accounted us old" for env us old
  by unfold_locales (rule accounted_step)

text \<open>
  C12: the audit log says every privilege: after any history of the authentication, user, report
  and admin services the role, the ban and the shadow ban of an account are those it had at the
  start (those of a plain user for an account created since), changed by the entries on it that
  were added since, read in their order: a ban, a shadow ban, the lifting of both, the role
  it was given. Every such entry names an account as its author, and older entries stay.
\<close>

theorem privileges_audited:
  assumes "unique u_id (users w0)" and "w = fold (moderationStep env) ops w0" and "r \<in> set (users w)"
  shows "\<exists>new. auditLogs w = auditLogs w0 @ new \<and>
    (u_role r, u_isBanned r, u_shadowBanned r) = fold replay (entriesOf (u_id r) new) (firstStanding (u_id r) (users w0)) \<and>
    (\<forall>g \<in> set new. \<exists>a. ag_actorUserId g = Some a \<and> a \<in> u_id ` set (users w))"
proof -
  have "accounted (users w0) (auditLogs w0) w"
    unfolding assms(2) by (rule accounting.run_inv) (rule accounted_start [OF assms(1)])
  then show ?thesis using assms(3) unfolding accounted_def standing_def by blast
qed

section \<open>A ban locks out\<close>

text \<open>The account \<open>u\<close> exists and every row of it is banned.\<close>

definition lockedOut :: "uid \<Rightarrow> 'a core_db_scheme \<Rightarrow> bool" where
  "lockedOut u w \<longleftrightarrow> u \<in> u_id ` set (users w) \<and> (\<forall>r \<in> set (users w). u_id r = u \<longrightarrow> u_isBanned r)"

lemma lockedOut_update:
  assumes "lockedOut u w" and "\<And>r. u_id (f r) = u_id r" and "\<And>r. u_isBanned r \<Longrightarrow> u_isBanned (f r)"
  shows "lockedOut u (w\<lparr>users := updateMany Q f (users w)\<rparr>)"
  using assms keys_updateMany [of Q u_id f "users w"] by (auto simp: lockedOut_def set_updateMany)

interpretation locked_auth: auth_writes "lockedOut u" for u
proof (unfold_locales, goal_cases)
  case (1 w f Q)
  then show ?case by (intro lockedOut_update) (simp_all add: keepsAccount_def)
next
  case (2 w i d now)
  then show ?case by (auto simp: lockedOut_def newUserRow_def)
qed (simp_all add: lockedOut_def takeRnd_def takeUuid_def issueTokenPair_def Let_def
    revokeRefresh_def revokeAllForUser_def case_prod_beta)

lemma lockedOut_users:
  assumes "lockedOut u w" shows "lockedOut u (usersStep env x w)"
proof (cases x)
  case (UsersAuth y)
  then show ?thesis using locked_auth.P_step [OF assms] by simp
next
  case (UpdateProfile v d)
  then show ?thesis using assms by (auto simp: updateProfile_state applyProfile_def intro!: lockedOut_update)
next
  case (ChangeUsername v n now)
  then show ?thesis using assms changeUsername_state [of env v n now w] by (auto intro!: lockedOut_update)
qed

lemma lockedOut_moderate:
  assumes "lockedOut u w" and "\<And>r. u_id (f r) = u_id r" and "\<And>r. u_id r = u \<Longrightarrow> v = u \<Longrightarrow> u_isBanned r \<Longrightarrow> u_isBanned (f r)"
  shows "lockedOut u (snd (moderateUser v a f action metadata now w))"
  using moderateUser_state [of v a f action metadata now w]
proof (elim disjE conjE)
  assume us: "users (snd (moderateUser v a f action metadata now w)) = updateMany (\<lambda>r. u_id r = v) f (users w)"
  have "u_id ` set (updateMany (\<lambda>r. u_id r = v) f (users w)) = u_id ` set (users w)" by (rule keys_updateMany) (rule assms(2))
  then show ?thesis using assms unfolding lockedOut_def us by (auto simp: set_updateMany)
qed (use assms(1) in simp)

text \<open>The operation that lifts the ban of \<open>u\<close>; no other step does.\<close>

fun liftsBan :: "uid \<Rightarrow> moderationOp \<Rightarrow> bool" where
  "liftsBan u (UnbanUser v a now) \<longleftrightarrow> v = u"
| "liftsBan u x \<longleftrightarrow> False"

lemma lockedOut_step:
  assumes "lockedOut u w" and "\<not> liftsBan u x" shows "lockedOut u (moderationStep env x w)"
proof (cases x)
  case (ByUsers y)
  then show ?thesis using lockedOut_users [OF assms(1)] by simp
next
  case (CreateReport v dto now)
  then show ?thesis using assms createReport_state [of v dto now w] by (auto simp: lockedOut_def)
next
  case (ReviewReport r a st n now)
  then show ?thesis using assms by (simp add: lockedOut_def reviewReport_state(1))
next
  case (BanUser v a reason shadow now)
  then show ?thesis using assms by (auto simp: banUser_def split: option.split intro!: lockedOut_moderate)
next
  case (UnbanUser v a now)
  then show ?thesis using assms by (auto simp: unbanUser_def split: option.split intro!: lockedOut_moderate)
next
  case (SetUserRole v a role now)
  then show ?thesis using assms by (auto simp: setUserRole_def split: option.split intro!: lockedOut_moderate)
qed

lemma lockedOut_run:
  "lockedOut u w \<Longrightarrow> list_all (\<lambda>x. \<not> liftsBan u x) ops \<Longrightarrow> lockedOut u (fold (moderationStep env) ops w)"
  by (induction ops arbitrary: w) (simp_all add: lockedOut_step)

subsection \<open>Who gets a session\<close>

lemma openSession_user: "openSession env x now w = (Inr s, w') \<Longrightarrow> se_userId s = u_id x"
  by (auto simp: openSession_def updateUser_cases issueTokenPair_def Let_def ret_def case_prod_beta split: if_splits)

lemma login_opens:
  assumes "login env ident password now w = (Inr s, w')"
  shows "\<exists>x. x \<in> set (users w) \<and> \<not> u_isBanned x \<and> se_userId s = u_id x"
  using assms by (auto simp: login_def Let_def throwHttp_def raise_def openSession_def updateUser_cases issueTokenPair_def
      ret_def emitEvent_def takeUuid_def dest: find_row split: option.splits if_splits)

text \<open>Sign-in without a password: an account that is not banned, or one created just now.\<close>

lemma sessionAfterLogin_user:
  "issueSessionAfterLogin env x now w = (Inr s, w') \<Longrightarrow> \<not> u_isBanned x \<and> se_userId s = u_id x"
  by (auto simp: issueSessionAfterLogin_def assertPasswordlessUserCanLogin_def and_then_Inr_iff throwHttp_def raise_def
      dest: openSession_user split: if_splits)

lemma createUser_id:
  assumes "createUser d now w = (Inr x, w')" shows "u_id x \<notin> u_id ` set (users w)"
proof -
  have x: "x = newUserRow (newUuid w) d now" and "\<forall>s \<in> set (users w). \<not> userCollides x s"
    using assms by (auto simp: createUser_def Let_def raise_def ret_def takeUuid_def split: if_splits)
  then have "newUuid w \<notin> u_id ` set (users w)" using fresh_row [of "users w" "newUuid w" d now] by simp
  then show ?thesis unfolding x by (simp add: newUserRow_def)
qed

lemma createUser_failed: "createUser d now w = (Inl e, w') \<Longrightarrow> users w' = users w"
  by (auto simp: createUser_def Let_def raise_def ret_def takeUuid_def split: if_splits)

lemma createOAuthUser_id:
  "createOAuthUser k d now w = (Inr x, w') \<Longrightarrow> u_id x \<notin> u_id ` set (users w)"
proof (induction k arbitrary: w)
  case 0
  then show ?case by (simp add: throwHttp_def raise_def)
next
  case (Suc k)
  define v where "v = takeRnd w"
  define e where "e = d\<lparr>nu_username := usernameCandidateFromEmail (nu_email d) (randomBytesHex 3 w)\<rparr>"
  have run: "createOAuthUser (Suc k) d now w = (case createUser e now v of
           (Inr u, w1) \<Rightarrow> ret u w1
         | (Inl UniqueViolation, w1) \<Rightarrow> createOAuthUser k d now w1
         | (Inl e, w1) \<Rightarrow> raise e w1)"
    by (simp add: v_def e_def Let_def)
  have v: "users v = users w" by (simp add: v_def takeRnd_def)
  obtain r w1 where c: "createUser e now v = (r, w1)" by force
  show ?case
  proof (cases r)
    case (Inr y)
    then have "y = x" using Suc.prems unfolding run c by (simp add: ret_def)
    from createUser_id [OF c [unfolded Inr this]] show ?thesis unfolding v .
  next
    case (Inl f)
    then have "f = UniqueViolation" using Suc.prems unfolding run c by (cases f) (simp_all add: raise_def)
    then have "createOAuthUser k d now w1 = (Inr x, w')" using Suc.prems Inl unfolding run c by simp
    from Suc.IH [OF this] show ?thesis unfolding createUser_failed [OF c [unfolded Inl]] v .
  qed
qed

lemma noConflict_same: "assertNoOAuthEmailConflict env c m s w = (Inr x, w') \<Longrightarrow> w' = w"
  by (auto simp: assertNoOAuthEmailConflict_def throwHttp_def raise_def ret_def split: option.splits if_splits)

definition mayEnter :: "uid \<Rightarrow> 'a core_db_scheme \<Rightarrow> bool" where
  "mayEnter u w \<longleftrightarrow> u \<notin> u_id ` set (users w) \<or> (\<exists>x \<in> set (users w). u_id x = u \<and> \<not> u_isBanned x)"

lemma mayEnter_locked: "mayEnter u w \<Longrightarrow> \<not> lockedOut u w"
  by (auto simp: mayEnter_def lockedOut_def)

lemma oauth_created:
  assumes "and_then (assertNoOAuthEmailConflict env c m sub w) (\<lambda>_ w1. and_then (createOAuthUser k d now w1)
      (\<lambda>x w2. issueSessionAfterLogin env x now w2)) = (Inr s, w')"
  shows "mayEnter (se_userId s) w"
proof -
  obtain x w2 where "createOAuthUser k d now w = (Inr x, w2)" "issueSessionAfterLogin env x now w2 = (Inr s, w')"
    using assms unfolding and_then_Inr_iff by (auto dest: noConflict_same)
  then show ?thesis using createOAuthUser_id sessionAfterLogin_user unfolding mayEnter_def by fastforce
qed

lemma oauth_found:
  "find P (users w) = Some x \<Longrightarrow> issueSessionAfterLogin env x now w = (Inr s, w') \<Longrightarrow> mayEnter (se_userId s) w"
  unfolding mayEnter_def using sessionAfterLogin_user find_row by (metis (mono_tags))

lemma appleSignIn_enters:
  assumes "appleSignIn env dto now w = (Inr s, w')" shows "mayEnter (se_userId s) w"
proof -
  obtain c where c: "APPLE_CLIENT_ID env = Some c" "c \<noteq> []"
    using assms by (auto simp: appleSignIn_def throwHttp_def raise_def split: option.splits if_splits)
  obtain sub mail where v: "verifyApple env (ap_identityToken dto) c = Some (sub, mail)"
    using assms c by (cases "verifyApple env (ap_identityToken dto) c") (auto simp: appleSignIn_def throwHttp_def raise_def)
  note run = assms [unfolded appleSignIn_def Let_def c(1) v option.case prod.case if_not_P [OF c(2)]]
  show ?thesis
  proof (cases "find (\<lambda>u. u_appleSub u = Some sub) (users w)")
    case None
    show ?thesis by (rule oauth_created [OF run [unfolded None option.case]])
  next
    case (Some x)
    show ?thesis by (rule oauth_found [OF Some run [unfolded Some option.case]])
  qed
qed

lemma googleSignIn_enters:
  assumes "googleSignIn env tok lang now w = (Inr s, w')" shows "mayEnter (se_userId s) w"
proof -
  have c: "parseGoogleClientIds env \<noteq> []"
    using assms by (auto simp: googleSignIn_def throwHttp_def raise_def)
  obtain sub mail nm where v: "verifyGoogle env tok (parseGoogleClientIds env) = Some (sub, mail, nm)"
    using assms c by (cases "verifyGoogle env tok (parseGoogleClientIds env)") (auto simp: googleSignIn_def throwHttp_def raise_def)
  note run = assms [unfolded googleSignIn_def Let_def v option.case prod.case if_not_P [OF c]]
  show ?thesis
  proof (cases "find (\<lambda>u. u_googleSub u = Some sub) (users w)")
    case None
    show ?thesis by (rule oauth_created [OF run [unfolded None option.case]])
  next
    case (Some x)
    show ?thesis by (rule oauth_found [OF Some run [unfolded Some option.case]])
  qed
qed

lemma register_enters:
  assumes "register env dto now w = (Inr s, w')" shows "mayEnter (se_userId s) w"
proof -
  define d where "d = \<lparr>nu_email = normalise (rg_email dto), nu_username = normalise (rg_username dto),
    nu_passwordHash = Some (bcryptHash env (rndNext w) (rg_password dto)), nu_appleSub = None, nu_googleSub = None,
    nu_name = rg_name dto, nu_preferredLanguage = rg_preferredLanguage dto\<rparr>"
  obtain x w2 where "createUser d now (takeRnd w) = (Inr x, w2)" "se_userId s = u_id x"
    using assms by (auto simp: register_def d_def throwHttp_def raise_def Let_def and_then_Inr_iff ret_def case_prod_beta split: option.splits)
  then show ?thesis using createUser_id [of d now "takeRnd w" x w2] by (simp add: mayEnter_def takeRnd_def)
qed

lemma login_enters:
  assumes "login env ident password now w = (Inr s, w')" shows "mayEnter (se_userId s) w"
proof -
  obtain x :: user where "x \<in> set (users w)" "\<not> u_isBanned x" "se_userId s = u_id x" using login_opens [OF assms] by blast
  then show ?thesis unfolding mayEnter_def by auto
qed

text \<open>
  C27: once a ban (not a shadow ban) has been written, and until it is lifted, the account gets
  no session, by name and password, by Apple, by Google or by registering, and no refresh token of it
  is exchanged, after any history of the authentication, user, report and admin services in
  which nobody lifts the ban.
\<close>

theorem ban_locks_out:
  assumes "banUser u actor reason False now w = (Inr r, w')" and "v = fold (moderationStep env) ops w'"
    and "list_all (\<lambda>x. \<not> liftsBan u x) ops"
  shows "(login env ident password t v = (Inr s1, v1) \<longrightarrow> se_userId s1 \<noteq> u) \<and>
    (appleSignIn env apple t v = (Inr s2, v2) \<longrightarrow> se_userId s2 \<noteq> u) \<and>
    (googleSignIn env idToken language t v = (Inr s3, v3) \<longrightarrow> se_userId s3 \<noteq> u) \<and>
    (register env dto t v = (Inr s4, v4) \<longrightarrow> se_userId s4 \<noteq> u) \<and>
    (refresh env token t v = (Inr pair, v5) \<longrightarrow> (\<exists>p. verifyRefreshJwt env t token = Some p \<and> rf_sub p \<noteq> u))"
proof -
  have run: "moderateUser u actor (\<lambda>x. x\<lparr>u_isBanned := True, u_shadowBanned := True\<rparr>) ''user.banned''
      (Some [(''reason'', reason)]) now w = (Inr r, w')"
    using assms(1) by (auto simp: banUser_def throwHttp_def raise_def split: option.splits)
  note us = moderateUser_ok(2) [OF run]
  have "u_id ` set (users w') = u_id ` set (users w)" unfolding us by (rule keys_updateMany) simp
  then have "u \<in> u_id ` set (users w')" using moderateUser_ok(1) [OF run] by blast
  moreover have "\<forall>x \<in> set (users w'). u_id x = u \<longrightarrow> u_isBanned x"
    unfolding us set_updateMany ball_simps by simp
  ultimately have "lockedOut u w'" unfolding lockedOut_def by blast
  then have locked: "lockedOut u v" unfolding assms(2) by (rule lockedOut_run [OF _ assms(3)])
  then have closed: "\<not> mayEnter u v" using mayEnter_locked by blast
  have "\<exists>p. verifyRefreshJwt env t token = Some p \<and> rf_sub p \<noteq> u"
    if run: "refresh env token t v = (Inr pair, v5)"
  proof -
    obtain p and x :: user where x: "verifyRefreshJwt env t token = Some p" "findUser (rf_sub p) v = Some x" "\<not> u_isBanned x"
      using refresh_success [OF run] by blast
    then have "x \<in> set (users v) \<and> u_id x = rf_sub p" unfolding findUser_def by (blast dest: findUnique_Some)
    then show ?thesis using locked x unfolding lockedOut_def by auto
  qed
  moreover have "se_userId s1 \<noteq> u" if "login env ident password t v = (Inr s1, v1)" using login_enters [OF that] closed by blast
  moreover have "se_userId s2 \<noteq> u" if "appleSignIn env apple t v = (Inr s2, v2)" using appleSignIn_enters [OF that] closed by blast
  moreover have "se_userId s3 \<noteq> u" if "googleSignIn env idToken language t v = (Inr s3, v3)"
    using googleSignIn_enters [OF that] closed by blast
  moreover have "se_userId s4 \<noteq> u" if "register env dto t v = (Inr s4, v4)" using register_enters [OF that] closed by blast
  ultimately show ?thesis by blast
qed

section \<open>A sample\<close>

definition sampleModeration :: moderation_db where
  "sampleModeration = auth_db.extend (sampleAuth\<lparr>users := users sampleAuth @ [(sampleUser ''m'' False)\<lparr>u_role := ADMIN\<rparr>]\<rparr>)
     \<lparr>reports = [], auditLogs = []\<rparr>"

definition sampleReport :: createReportDto where
  "sampleReport = \<lparr>cr_targetType = RT_USER, cr_targetId = ''b'', cr_reason = ''spam'', cr_description = None\<rparr>"

theorem report_dedupe_witness:
  "re_createdAt (reports (fold (moderationStep sampleEnv) [CreateReport ''a'' sampleReport 5, CreateReport ''a'' sampleReport 9,
      CreateReport ''a'' sampleReport 90000000] sampleModeration) ! 0) + 24 * 60 * 60 * 1000 <
   re_createdAt (reports (fold (moderationStep sampleEnv) [CreateReport ''a'' sampleReport 5, CreateReport ''a'' sampleReport 9,
      CreateReport ''a'' sampleReport 90000000] sampleModeration) ! 1)"
proof -
  let ?ops = "[CreateReport ''a'' sampleReport 5, CreateReport ''a'' sampleReport 9, CreateReport ''a'' sampleReport 90000000]"
  have "map (\<lambda>r. (re_reporterId r, re_targetType r, re_targetId r)) (reports (fold (moderationStep sampleEnv) ?ops sampleModeration)) =
    [(''a'', RT_USER, ''b''), (''a'', RT_USER, ''b'')]" by code_simp
  then obtain r s where rs: "reports (fold (moderationStep sampleEnv) ?ops sampleModeration) = [r, s]"
      "re_reporterId r = re_reporterId s" "re_targetType r = re_targetType s" "re_targetId r = re_targetId s"
    by (auto simp del: fold.simps)
  have "reports sampleModeration = []" by (simp add: sampleModeration_def auth_db.extend_def)
  from report_dedupe [OF this refl, of 0 1 sampleEnv ?ops] rs show ?thesis by (simp del: fold.simps)
qed

text \<open>\<open>a\<close> becomes a moderator and a user again, is banned and unbanned; \<open>b\<close> is banned in the shadow.\<close>

definition sampleCase :: "moderationOp list" where
  "sampleCase = [SetUserRole ''a'' ''m'' MODERATOR 7, BanUser ''a'' ''m'' ''spam'' False 8, BanUser ''b'' ''m'' ''spam'' True 9,
     SetUserRole ''a'' ''m'' USER 10, UnbanUser ''a'' ''m'' 11]"

theorem privileges_audited_witness:
  "\<exists>new. auditLogs (fold (moderationStep sampleEnv) sampleCase sampleModeration) = new \<and>
     map ag_action new = [''user.role_changed'', ''user.banned'', ''user.shadow_banned'', ''user.role_changed'', ''user.unbanned''] \<and>
     fold replay (entriesOf ''a'' new) (USER, False, False) = (USER, False, False) \<and>
     fold replay (entriesOf ''b'' new) (USER, False, False) = (USER, False, True)"
proof -
  let ?w = "fold (moderationStep sampleEnv) sampleCase sampleModeration"
  have ids: "unique u_id (users sampleModeration)" by code_simp
  have "map (\<lambda>r. (u_id r, u_role r, u_isBanned r, u_shadowBanned r)) (users ?w) =
    [(''a'', USER, False, False), (''b'', USER, False, True), (''d'', USER, False, False), (''m'', ADMIN, False, False)]" by code_simp
  then obtain r1 r2 rs where r: "users ?w = r1 # r2 # rs" "u_id r1 = ''a''" "u_id r2 = ''b''"
      "(u_role r1, u_isBanned r1, u_shadowBanned r1) = (USER, False, False)"
      "(u_role r2, u_isBanned r2, u_shadowBanned r2) = (USER, False, True)"
    by (auto simp del: fold.simps)
  have start: "firstStanding ''a'' (users sampleModeration) = (USER, False, False)"
    "firstStanding ''b'' (users sampleModeration) = (USER, False, False)" by code_simp+
  have none: "auditLogs sampleModeration = []" by code_simp
  have "r1 \<in> set (users ?w)" "r2 \<in> set (users ?w)" by (simp_all add: r(1) del: fold.simps)
  note both = privileges_audited [OF ids refl this(1), unfolded r start none append_Nil]
    privileges_audited [OF ids refl this(2), unfolded r start none append_Nil]
  have "map ag_action (auditLogs ?w) =
    [''user.role_changed'', ''user.banned'', ''user.shadow_banned'', ''user.role_changed'', ''user.unbanned'']" by code_simp
  then show ?thesis using both by (intro exI [of _ "auditLogs ?w"]) metis
qed

text \<open>\<open>a\<close> has a password and is linked with Apple.\<close>

definition sampleApple :: auth_env where
  "sampleApple = sampleEnv\<lparr>APPLE_CLIENT_ID := Some ''c'', verifyApple := (\<lambda>t c. Some (''sub'', None))\<rparr>"

definition sampleLinked :: moderation_db where
  "sampleLinked = sampleModeration\<lparr>users := updateMany (\<lambda>r. u_id r = ''a'') (\<lambda>r. r\<lparr>u_appleSub := Some ''sub''\<rparr>) (users sampleModeration)\<rparr>"

definition sampleAppleDto :: appleDto where
  "sampleAppleDto = \<lparr>ap_identityToken = ''t'', ap_fullName = None, ap_email = None, ap_preferredLanguage = ''tr''\<rparr>"

definition sampleTrials :: "moderationOp list" where
  "sampleTrials = [ByUsers (UsersAuth (Login ''a'' ''pw'' 7)), SetUserRole ''a'' ''m'' MODERATOR 8, UnbanUser ''b'' ''m'' 9]"

theorem ban_locks_out_witness:
  "(\<exists>s v. appleSignIn sampleApple sampleAppleDto 4 sampleLinked = (Inr s, v) \<and> se_userId s = ''a'') \<and>
   (\<exists>r w'. banUser ''a'' ''m'' ''spam'' False 5 sampleLinked = (Inr r, w') \<and>
     \<not> (\<exists>s v. login sampleApple ''a'' ''pw'' 10 (fold (moderationStep sampleApple) sampleTrials w') = (Inr s, v) \<and> se_userId s = ''a'') \<and>
     \<not> (\<exists>s v. appleSignIn sampleApple sampleAppleDto 10 (fold (moderationStep sampleApple) sampleTrials w') = (Inr s, v) \<and>
        se_userId s = ''a''))"
proof -
  have "case fst (appleSignIn sampleApple sampleAppleDto 4 sampleLinked) of Inl e \<Rightarrow> False | Inr s \<Rightarrow> se_userId s = ''a''" by code_simp
  then have before: "\<exists>s v. appleSignIn sampleApple sampleAppleDto 4 sampleLinked = (Inr s, v) \<and> se_userId s = ''a''"
    by (cases "appleSignIn sampleApple sampleAppleDto 4 sampleLinked") (auto split: sum.splits)
  have "case fst (banUser ''a'' ''m'' ''spam'' False 5 sampleLinked) of Inl e \<Rightarrow> False | Inr r \<Rightarrow> True" by code_simp
  from ran_ok [OF this] obtain r w' where run: "banUser ''a'' ''m'' ''spam'' False 5 sampleLinked = (Inr r, w')" by blast
  have kept: "list_all (\<lambda>x. \<not> liftsBan ''a'' x) sampleTrials" by (simp add: sampleTrials_def)
  note shut = ban_locks_out [OF run refl kept, where env = sampleApple and t = 10]
  have "\<not> (\<exists>s v. login sampleApple ''a'' ''pw'' 10 (fold (moderationStep sampleApple) sampleTrials w') = (Inr s, v) \<and> se_userId s = ''a'')"
    using shut [where ident = "''a''" and password = "''pw''"] by blast
  moreover have "\<not> (\<exists>s v. appleSignIn sampleApple sampleAppleDto 10 (fold (moderationStep sampleApple) sampleTrials w') = (Inr s, v) \<and>
      se_userId s = ''a'')"
    using shut [where apple = sampleAppleDto] by blast
  ultimately show ?thesis using run before by (intro conjI exI [of _ r] exI [of _ w'])
qed

end
