(* ===== verification/Media.thy ===== *)
theory Media
  imports Core_Db Text_Search Job_Queue
begin

text \<open>
  \<open>media/media.service.ts\<close>, \<open>media.queue.ts\<close>, \<open>media.constants.ts\<close>, \<open>sharp.processor.ts\<close>: the life of an
  uploaded file, from the presigned upload through the queue to the two images that the
  worker derives and stores. The state adds the table MediaAsset, the objects of the store and
  the jobs of the queue. The image library and the signing of links (\<open>media_env\<close>) are
  parameters; so is, for every attempt of the worker, which calls of the object store fail and
  in which order two concurrent uploads land (\<open>attempt\<close>). A client may upload to its presigned
  link at any time before it expires.
\<close>

section \<open>State\<close>

datatype mediaCategory =
    PROFILE_AVATAR | PROFILE_COVER | POST_IMAGE | POST_VIDEO | STORY_IMAGE | STORY_VIDEO
  | MOTORCYCLE_PHOTO | COMMUNITY_COVER | EVENT_COVER | MESSAGE_ATTACHMENT

datatype mediaStatus = UPLOADING | PROCESSING | READY | FAILED

record mediaAsset =
  ma_id :: uid
  ma_ownerId :: uid
  ma_originalFilename :: string
  ma_mimeType :: string
  ma_category :: mediaCategory
  ma_parentType :: "string option"
  ma_parentId :: "string option"
  ma_status :: mediaStatus
  ma_bucket :: string
  ma_originalKey :: "string option"
  ma_thumbnailKey :: "string option"
  ma_mediumKey :: "string option"
  ma_hlsPlaylistKey :: "string option"
  ma_width :: "int option"
  ma_height :: "int option"
  ma_sizeBytes :: "int option"
  ma_durationMs :: "int option"
  ma_processingError :: "string option"
  ma_createdAt :: time
  ma_deletedAt :: "time option"

text \<open>\<open>MediaProcessJobData\<close>\<close>

record mediaJobData =
  mj_assetId :: uid
  mj_originalKey :: string
  mj_bucket :: string
  mj_mimeType :: string
  mj_category :: mediaCategory
  mj_ownerId :: uid
  mj_parentType :: "string option"
  mj_parentId :: "string option"

type_synonym blob = string

record media_db = core_db +
  mediaAssets :: "mediaAsset list"
  objects :: "(string \<times> string) \<Rightarrow> blob option" \<comment> \<open>by bucket and key\<close>
  mediaJobs :: "mediaJobData job list"

text \<open>
  The configured bucket, the links (a failure is its message) and the image library: the size of
  the rotated image, and the WebP of a cover crop and of a given width at a quality.
\<close>

record media_env =
  mv_defaultBucket :: string
  mv_presignPut :: "string \<Rightarrow> string \<Rightarrow> int \<Rightarrow> string + string"
  mv_presignGet :: "string \<Rightarrow> string \<Rightarrow> int \<Rightarrow> string + string"
  mv_metadata :: "blob \<Rightarrow> string + (int option \<times> int option)"
  mv_coverWebp :: "int \<Rightarrow> int \<Rightarrow> int \<Rightarrow> blob \<Rightarrow> string + blob"
  mv_widthWebp :: "int \<Rightarrow> int \<Rightarrow> blob \<Rightarrow> string + blob"

text \<open>The calls to the store during one attempt of the worker: the message of each that fails.\<close>

record attempt =
  at_get :: "string option"
  at_putThumbnail :: "string option"
  at_putMedium :: "string option"
  at_mediumFirst :: bool
  at_remove :: "string option"

section \<open>Constants\<close>

definition MAX_MEDIA_BYTES :: int where "MAX_MEDIA_BYTES = 15 * 1024 * 1024"

definition ALLOWED_IMAGE_MIME :: "string list" where
  "ALLOWED_IMAGE_MIME = [''image/jpeg'', ''image/jpg'', ''image/png'', ''image/webp'', ''image/heic'']"

definition ALLOWED_VIDEO_MIME :: "string list" where
  "ALLOWED_VIDEO_MIME = [''video/mp4'', ''video/quicktime'']"

definition PRESIGN_TTL_SECONDS :: int where "PRESIGN_TTL_SECONDS = 3600"

definition thumbnailWidth :: int where "thumbnailWidth = 300"
definition thumbnailHeight :: int where "thumbnailHeight = 300"
definition mediumWidth :: int where "mediumWidth = 1080"
definition webpQuality :: int where "webpQuality = 85"

definition mediaJobOptions :: jobOptions where
  "mediaJobOptions = \<lparr>jo_attempts = 3, jo_backoff = 2000\<rparr>"

definition fileExtForMime :: "string \<Rightarrow> string" where
  "fileExtForMime mime =
     (if mime = ''image/jpeg'' \<or> mime = ''image/jpg'' then ''jpg''
      else if mime = ''image/png'' then ''png''
      else if mime = ''image/webp'' then ''webp''
      else if mime = ''image/heic'' then ''heic''
      else if mime = ''video/mp4'' then ''mp4''
      else if mime = ''video/quicktime'' then ''mov''
      else ''bin'')"

section \<open>Object keys\<close>

datatype imageSize = Thumbnail | Medium

fun sizeName :: "imageSize \<Rightarrow> string" where
  "sizeName Thumbnail = ''thumbnail''" | "sizeName Medium = ''medium''"

definition tempKey :: "uid \<Rightarrow> string \<Rightarrow> string" where
  "tempKey assetId ext = ''tmp/'' @ assetId @ ''.'' @ ext"

definition profileAvatar :: "uid \<Rightarrow> uid \<Rightarrow> imageSize \<Rightarrow> string" where
  "profileAvatar userId assetId sz = ''users/'' @ userId @ ''/profile/'' @ assetId @ ''_avatar_'' @ sizeName sz @ ''.webp''"

definition profileCover :: "uid \<Rightarrow> uid \<Rightarrow> string" where
  "profileCover userId assetId = ''users/'' @ userId @ ''/profile/'' @ assetId @ ''_cover_medium.webp''"

definition garageKey :: "uid \<Rightarrow> string \<Rightarrow> uid \<Rightarrow> imageSize \<Rightarrow> string" where
  "garageKey userId motorcycleId assetId sz =
     ''users/'' @ userId @ ''/garage/'' @ motorcycleId @ ''/'' @ assetId @ ''_'' @ sizeName sz @ ''.webp''"

definition postKey :: "string \<Rightarrow> uid \<Rightarrow> imageSize \<Rightarrow> string" where
  "postKey postId assetId sz = ''posts/'' @ postId @ ''/'' @ assetId @ ''_'' @ sizeName sz @ ''.webp''"

definition storyKey :: "string \<Rightarrow> uid \<Rightarrow> string" where
  "storyKey storyId assetId = ''stories/'' @ storyId @ ''/'' @ assetId @ ''.webp''"

definition messageKey :: "uid \<Rightarrow> imageSize \<Rightarrow> string" where
  "messageKey assetId sz = ''messages/'' @ assetId @ ''_'' @ sizeName sz @ ''.webp''"

definition communityCover :: "string \<Rightarrow> uid \<Rightarrow> string" where
  "communityCover communityId assetId = ''communities/'' @ communityId @ ''/'' @ assetId @ ''_cover_medium.webp''"

definition eventCover :: "string \<Rightarrow> uid \<Rightarrow> string" where
  "eventCover eventId assetId = ''events/'' @ eventId @ ''/'' @ assetId @ ''_cover_medium.webp''"

text \<open>The keys of the thumbnail and of the medium image.\<close>

definition destinationKeys :: "mediaJobData \<Rightarrow> uid \<Rightarrow> string \<times> string" where
  "destinationKeys job assetId =
     (let orphan = (case mj_parentId job of None \<Rightarrow> ''orphan'' | Some p \<Rightarrow> p)
      in case mj_category job of
           PROFILE_AVATAR \<Rightarrow> (profileAvatar (mj_ownerId job) assetId Thumbnail, profileAvatar (mj_ownerId job) assetId Medium)
         | PROFILE_COVER \<Rightarrow> (let medium = profileCover (mj_ownerId job) assetId in (medium, medium))
         | MOTORCYCLE_PHOTO \<Rightarrow>
             (let bike = (case mj_parentId job of None \<Rightarrow> ''unknown'' | Some p \<Rightarrow> p)
              in (garageKey (mj_ownerId job) bike assetId Thumbnail, garageKey (mj_ownerId job) bike assetId Medium))
         | POST_IMAGE \<Rightarrow> (postKey orphan assetId Thumbnail, postKey orphan assetId Medium)
         | POST_VIDEO \<Rightarrow> (postKey orphan assetId Thumbnail, postKey orphan assetId Medium)
         | STORY_IMAGE \<Rightarrow> (let k = storyKey orphan assetId in (k, k))
         | STORY_VIDEO \<Rightarrow> (let k = storyKey orphan assetId in (k, k))
         | COMMUNITY_COVER \<Rightarrow> (let k = communityCover orphan assetId in (k, k))
         | EVENT_COVER \<Rightarrow> (let k = eventCover orphan assetId in (k, k))
         | MESSAGE_ATTACHMENT \<Rightarrow> (messageKey assetId Thumbnail, messageKey assetId Medium))"

section \<open>Upload\<close>

record initiateDto =
  in_category :: mediaCategory
  in_parentType :: "string option"
  in_parentId :: "string option"
  in_filename :: string
  in_mimeType :: string
  in_sizeBytes :: int

record initiateResponse =
  ir_assetId :: uid
  ir_uploadUrl :: string
  ir_objectKey :: string
  ir_bucket :: string
  ir_expiresInSeconds :: int

text \<open>\<open>mediaAsset.update({ where: { id }, data })\<close>\<close>

definition updateAsset ::
  "uid \<Rightarrow> (mediaAsset \<Rightarrow> mediaAsset) \<Rightarrow> 'a media_db_scheme \<Rightarrow> (unit, 'a media_db_scheme) outcome" where
  "updateAsset i f w =
     write_or RecordNotFound (updateRow ma_id i f (mediaAssets w)) (\<lambda>t. w\<lparr>mediaAssets := t\<rparr>) w"

definition createAsset ::
  "uid \<Rightarrow> initiateDto \<Rightarrow> time \<Rightarrow> 'a media_db_scheme \<Rightarrow> (uid, 'a media_db_scheme) outcome" where
  "createAsset userId dto now w =
     (let i = newUuid w;
          asset = \<lparr>ma_id = i, ma_ownerId = userId, ma_originalFilename = in_filename dto, ma_mimeType = in_mimeType dto,
            ma_category = in_category dto, ma_parentType = in_parentType dto, ma_parentId = in_parentId dto,
            ma_status = UPLOADING, ma_bucket = ''motogram-media'',
            ma_originalKey = Some (tempKey ''placeholder'' (fileExtForMime (in_mimeType dto))),
            ma_thumbnailKey = None, ma_mediumKey = None, ma_hlsPlaylistKey = None, ma_width = None, ma_height = None,
            ma_sizeBytes = Some (in_sizeBytes dto), ma_durationMs = None, ma_processingError = None,
            ma_createdAt = now, ma_deletedAt = None\<rparr>
      in if \<not> userExists userId w then raise ForeignKeyViolation w
         else case createRow ma_id asset (mediaAssets w) of
                None \<Rightarrow> raise UniqueViolation (takeUuid w)
              | Some t \<Rightarrow> ret i ((takeUuid w)\<lparr>mediaAssets := t\<rparr>))"

definition initiateUpload ::
  "media_env \<Rightarrow> uid \<Rightarrow> initiateDto \<Rightarrow> time \<Rightarrow> 'a media_db_scheme \<Rightarrow> (initiateResponse, 'a media_db_scheme) outcome" where
  "initiateUpload env userId dto now w =
     (if MAX_MEDIA_BYTES < in_sizeBytes dto
      then raise (Http BadRequest ''payload_too_large'' (Some VALIDATION_FAILED) [(''maxBytes'', DNum MAX_MEDIA_BYTES)]) w
      else if in_mimeType dto \<notin> set ALLOWED_IMAGE_MIME \<and> in_mimeType dto \<notin> set ALLOWED_VIDEO_MIME
      then throwHttp BadRequest ''unsupported_mime'' VALIDATION_FAILED w
      else and_then (createAsset userId dto now w) (\<lambda>i w1.
        let originalKey = tempKey i (fileExtForMime (in_mimeType dto))
        in and_then (updateAsset i (\<lambda>a. a\<lparr>ma_originalKey := Some originalKey\<rparr>) w1) (\<lambda>_ w2.
             case mv_presignPut env (mv_defaultBucket env) originalKey PRESIGN_TTL_SECONDS of
               Inl m \<Rightarrow> raise (PlainError m) w2
             | Inr url \<Rightarrow> ret \<lparr>ir_assetId = i, ir_uploadUrl = url, ir_objectKey = originalKey,
                 ir_bucket = mv_defaultBucket env, ir_expiresInSeconds = PRESIGN_TTL_SECONDS\<rparr> w2)))"

record mediaAssetDto =
  md_id :: uid
  md_ownerId :: uid
  md_category :: mediaCategory
  md_parentType :: "string option"
  md_parentId :: "string option"
  md_status :: mediaStatus
  md_mimeType :: string
  md_width :: "int option"
  md_height :: "int option"
  md_sizeBytes :: "int option"
  md_durationMs :: "int option"
  md_thumbnailUrl :: "string option"
  md_mediumUrl :: "string option"
  md_hlsUrl :: "string option"
  md_createdAt :: time

definition presignedUrl :: "media_env \<Rightarrow> string \<Rightarrow> string option \<Rightarrow> string option" where
  "presignedUrl env bucket key =
     (case truthy key of
        None \<Rightarrow> None
      | Some k \<Rightarrow> (case mv_presignGet env bucket k PRESIGN_TTL_SECONDS of Inl _ \<Rightarrow> None | Inr url \<Rightarrow> Some url))"

definition toDto :: "media_env \<Rightarrow> mediaAsset \<Rightarrow> mediaAssetDto" where
  "toDto env a =
     \<lparr>md_id = ma_id a, md_ownerId = ma_ownerId a, md_category = ma_category a, md_parentType = ma_parentType a,
      md_parentId = ma_parentId a, md_status = ma_status a, md_mimeType = ma_mimeType a, md_width = ma_width a,
      md_height = ma_height a, md_sizeBytes = ma_sizeBytes a, md_durationMs = ma_durationMs a,
      md_thumbnailUrl = presignedUrl env (ma_bucket a) (ma_thumbnailKey a),
      md_mediumUrl = presignedUrl env (ma_bucket a) (ma_mediumKey a),
      md_hlsUrl = presignedUrl env (ma_bucket a) (ma_hlsPlaylistKey a), md_createdAt = ma_createdAt a\<rparr>"

text \<open>\<open>findFirst({ id, deletedAt: null })\<close>\<close>

definition findAsset :: "uid \<Rightarrow> 'a media_db_scheme \<Rightarrow> mediaAsset option" where
  "findAsset i w = find (\<lambda>a. ma_id a = i \<and> ma_deletedAt a = None) (mediaAssets w)"

definition imageJobId :: "uid \<Rightarrow> string" where
  "imageJobId assetId = ''media:'' @ assetId @ '':image''"

definition enqueueImage ::
  "bool \<Rightarrow> mediaJobData \<Rightarrow> time \<Rightarrow> 'a media_db_scheme \<Rightarrow> (unit, 'a media_db_scheme) outcome" where
  "enqueueImage up job now w =
     (if \<not> up then raise (PlainError ''queue_unavailable'') w
      else ret () (w\<lparr>mediaJobs := addJob (imageJobId (mj_assetId job)) job now (mediaJobs w)\<rparr>))"

definition finalizeUpload ::
  "media_env \<Rightarrow> bool \<Rightarrow> uid \<Rightarrow> uid \<Rightarrow> time \<Rightarrow> 'a media_db_scheme \<Rightarrow> (mediaAssetDto, 'a media_db_scheme) outcome" where
  "finalizeUpload env up userId assetId now w =
     (case findAsset assetId w of
        None \<Rightarrow> raise (Http NotFound ''asset_not_found'' None []) w
      | Some asset \<Rightarrow>
          if ma_ownerId asset \<noteq> userId then raise (Http Forbidden ''not_owner'' None []) w
          else if ma_status asset \<noteq> UPLOADING then ret (toDto env asset) w
          else and_then (updateAsset (ma_id asset) (\<lambda>a. a\<lparr>ma_status := PROCESSING\<rparr>) w) (\<lambda>_ w1.
            case ma_originalKey asset of
              None \<Rightarrow> raise (PlainError ''invalid_queue_payload'') w1
            | Some key \<Rightarrow>
                and_then (enqueueImage up \<lparr>mj_assetId = ma_id asset, mj_originalKey = key, mj_bucket = ma_bucket asset,
                    mj_mimeType = ma_mimeType asset, mj_category = ma_category asset, mj_ownerId = ma_ownerId asset,
                    mj_parentType = ma_parentType asset, mj_parentId = ma_parentId asset\<rparr> now w1) (\<lambda>_ w2.
                  ret (toDto env (asset\<lparr>ma_status := PROCESSING\<rparr>)) w2)))"

section \<open>Processing\<close>

record processedImage =
  pi_thumbnail :: blob
  pi_medium :: blob
  pi_width :: int
  pi_height :: int
  pi_bytesOriginal :: int
  pi_bytesThumbnail :: int
  pi_bytesMedium :: int

definition processImage :: "media_env \<Rightarrow> blob \<Rightarrow> string + processedImage" where
  "processImage env input =
     (case mv_metadata env input of
        Inl m \<Rightarrow> Inl m
      | Inr (wd, ht) \<Rightarrow>
          (case mv_coverWebp env thumbnailWidth thumbnailHeight webpQuality input of
             Inl m \<Rightarrow> Inl m
           | Inr thumbnail \<Rightarrow>
               (case mv_widthWebp env mediumWidth webpQuality input of
                  Inl m \<Rightarrow> Inl m
                | Inr medium \<Rightarrow> Inr \<lparr>pi_thumbnail = thumbnail, pi_medium = medium,
                    pi_width = (case wd of None \<Rightarrow> 0 | Some x \<Rightarrow> x), pi_height = (case ht of None \<Rightarrow> 0 | Some x \<Rightarrow> x),
                    pi_bytesOriginal = int (length input), pi_bytesThumbnail = int (length thumbnail),
                    pi_bytesMedium = int (length medium)\<rparr>)))"

text \<open>The calls to the object store. A call that fails writes nothing.\<close>

definition getObject :: "string option \<Rightarrow> string \<Rightarrow> string \<Rightarrow> 'a media_db_scheme \<Rightarrow> (blob, 'a media_db_scheme) outcome" where
  "getObject err bucket key w =
     (case err of
        Some m \<Rightarrow> raise (PlainError m) w
      | None \<Rightarrow> (case objects w (bucket, key) of
            None \<Rightarrow> raise (PlainError ''The specified key does not exist.'') w
          | Some b \<Rightarrow> ret b w))"

definition putObject ::
  "string option \<Rightarrow> string \<Rightarrow> string \<Rightarrow> blob \<Rightarrow> 'a media_db_scheme \<Rightarrow> (unit, 'a media_db_scheme) outcome" where
  "putObject err bucket key b w =
     (case err of
        Some m \<Rightarrow> raise (PlainError m) w
      | None \<Rightarrow> ret () (w\<lparr>objects := (objects w)((bucket, key) := Some b)\<rparr>))"

text \<open>\<open>removeObject(...).catch(warn)\<close>\<close>

definition removeObject :: "string option \<Rightarrow> string \<Rightarrow> string \<Rightarrow> 'a media_db_scheme \<Rightarrow> 'a media_db_scheme" where
  "removeObject err bucket key w =
     (case err of Some _ \<Rightarrow> w | None \<Rightarrow> w\<lparr>objects := (objects w)((bucket, key) := None)\<rparr>)"

text \<open>
  \<open>Promise.all\<close> of the two uploads: both run, in either order, and the first failure is the
  result.
\<close>

definition putBoth ::
  "attempt \<Rightarrow> string \<Rightarrow> string \<times> string \<Rightarrow> processedImage \<Rightarrow> 'a media_db_scheme \<Rightarrow> (unit, 'a media_db_scheme) outcome" where
  "putBoth io bucket keys p w =
     (let thumb = putObject (at_putThumbnail io) bucket (fst keys) (pi_thumbnail p);
          med = putObject (at_putMedium io) bucket (snd keys) (pi_medium p);
          (first_put, second_put) = (if at_mediumFirst io then (med, thumb) else (thumb, med));
          (r1, w1) = first_put w;
          (r2, w2) = second_put w1
      in (case r1 of Inl e \<Rightarrow> Inl e | Inr _ \<Rightarrow> r2, w2))"

text \<open>The body of the \<open>try\<close> block.\<close>

definition processAndStore ::
  "media_env \<Rightarrow> attempt \<Rightarrow> mediaJobData \<Rightarrow> uid \<Rightarrow> 'a media_db_scheme \<Rightarrow> (unit, 'a media_db_scheme) outcome" where
  "processAndStore env io job assetId w =
     and_then (getObject (at_get io) (mj_bucket job) (mj_originalKey job) w) (\<lambda>buffer w1.
       case processImage env buffer of
         Inl m \<Rightarrow> raise (PlainError m) w1
       | Inr p \<Rightarrow>
           (let keys = destinationKeys job assetId
            in and_then (putBoth io (mj_bucket job) keys p w1) (\<lambda>_ w2.
                 and_then (updateAsset assetId (\<lambda>a. a\<lparr>ma_status := READY, ma_thumbnailKey := Some (fst keys),
                     ma_mediumKey := Some (snd keys), ma_width := Some (pi_width p), ma_height := Some (pi_height p),
                     ma_sizeBytes := Some (pi_bytesMedium p), ma_processingError := None\<rparr>) w2) (\<lambda>_ w3.
                   updateAsset assetId (\<lambda>a. a\<lparr>ma_originalKey := None\<rparr>)
                     (removeObject (at_remove io) (mj_bucket job) (mj_originalKey job) w3)))))"

text \<open>
  \<open>(err as Error).message\<close>. An error of the database client comes from an update of a missing
  row; the update in the \<open>catch\<close> block then fails as well, and the message is not stored.
\<close>

fun errMessage :: "failure \<Rightarrow> string" where
  "errMessage (PlainError m) = m" | "errMessage (Http _ m _ _) = m" | "errMessage _ = []"

definition processImageJob ::
  "media_env \<Rightarrow> attempt \<Rightarrow> mediaJobData \<Rightarrow> 'a media_db_scheme \<Rightarrow> (unit, 'a media_db_scheme) outcome" where
  "processImageJob env io job w =
     (case findUnique ma_id (mj_assetId job) (mediaAssets w) of
        None \<Rightarrow> ret () w
      | Some asset \<Rightarrow>
          if ma_status asset = READY then ret () w
          else case processAndStore env io job (ma_id asset) w of
                 (Inr _, w1) \<Rightarrow> ret () w1
               | (Inl e, w1) \<Rightarrow>
                   and_then (updateAsset (ma_id asset) (\<lambda>a. a\<lparr>ma_status := FAILED,
                       ma_processingError := Some (take 500 (errMessage e))\<rparr>) w1) (\<lambda>_ w2. raise e w2))"

text \<open>One attempt of the worker at a job that is due.\<close>

definition runMediaJob :: "media_env \<Rightarrow> string \<Rightarrow> time \<Rightarrow> attempt \<Rightarrow> 'a media_db_scheme \<Rightarrow> 'a media_db_scheme" where
  "runMediaJob env jobId now io w =
     (case dueJob jobId now (mediaJobs w) of
        None \<Rightarrow> w
      | Some j \<Rightarrow>
          let (r, w1) = processImageJob env io (jb_data j) w
          in w1\<lparr>mediaJobs := attempted mediaJobOptions jobId (isOk r) now (mediaJobs w1)\<rparr>)"

section \<open>Reading and deleting\<close>

definition getAsset :: "media_env \<Rightarrow> uid \<Rightarrow> uid \<Rightarrow> 'a media_db_scheme \<Rightarrow> (mediaAssetDto, 'a media_db_scheme) outcome" where
  "getAsset env userId assetId w =
     (case findAsset assetId w of
        None \<Rightarrow> raise (Http NotFound ''asset_not_found'' None []) w
      | Some asset \<Rightarrow>
          if ma_ownerId asset \<noteq> userId then raise (Http Forbidden ''not_owner'' None []) w
          else ret (toDto env asset) w)"

definition softDelete :: "uid \<Rightarrow> uid \<Rightarrow> time \<Rightarrow> 'a media_db_scheme \<Rightarrow> (unit, 'a media_db_scheme) outcome" where
  "softDelete userId assetId now w =
     (case findAsset assetId w of
        None \<Rightarrow> ret () w
      | Some asset \<Rightarrow>
          if ma_ownerId asset \<noteq> userId then raise (Http Forbidden ''not_owner'' None []) w
          else updateAsset (ma_id asset) (\<lambda>a. a\<lparr>ma_deletedAt := Some now\<rparr>) w)"

section \<open>Histories\<close>

text \<open>A client puts an object at the link it was given, while the link is valid.\<close>

definition clientPut :: "media_env \<Rightarrow> uid \<Rightarrow> blob \<Rightarrow> time \<Rightarrow> 'a media_db_scheme \<Rightarrow> 'a media_db_scheme" where
  "clientPut env assetId b now w =
     (case findUnique ma_id assetId (mediaAssets w) of
        None \<Rightarrow> w
      | Some a \<Rightarrow>
          if now < ma_createdAt a + 1000 * PRESIGN_TTL_SECONDS
          then w\<lparr>objects := (objects w)((mv_defaultBucket env, tempKey assetId (fileExtForMime (ma_mimeType a))) := Some b)\<rparr>
          else w)"

datatype mediaOp =
    InitiateUpload uid initiateDto time
  | ClientPut uid blob time
  | FinalizeUpload bool uid uid time
  | RunMediaJob string time attempt
  | SoftDelete uid uid time

fun mediaStep :: "media_env \<Rightarrow> mediaOp \<Rightarrow> 'a media_db_scheme \<Rightarrow> 'a media_db_scheme" where
  "mediaStep env (InitiateUpload u dto now) w = snd (initiateUpload env u dto now w)"
| "mediaStep env (ClientPut i b now) w = clientPut env i b now w"
| "mediaStep env (FinalizeUpload up u i now) w = snd (finalizeUpload env up u i now w)"
| "mediaStep env (RunMediaJob j now io) w = runMediaJob env j now io w"
| "mediaStep env (SoftDelete u i now) w = snd (softDelete u i now w)"

section \<open>Keys of different assets\<close>

text \<open>What a uuid does not hold: the characters that end a segment of a key or an identifier in it.\<close>

definition keyFree :: "string \<Rightarrow> bool" where
  "keyFree i \<longleftrightarrow> list_all (\<lambda>c. c \<noteq> CHR ''/'' \<and> c \<noteq> CHR ''_'' \<and> c \<noteq> CHR ''.'') i"

definition lastSegment :: "string \<Rightarrow> string" where
  "lastSegment s = rev (takeWhile (\<lambda>c. c \<noteq> CHR ''/'') (rev s))"

definition keyOwner :: "string \<Rightarrow> string" where
  "keyOwner s = takeWhile (\<lambda>c. c \<noteq> CHR ''_'' \<and> c \<noteq> CHR ''.'') (lastSegment s)"

lemma lastSegment_skip: "CHR ''/'' \<in> set t \<Longrightarrow> lastSegment (s @ t) = lastSegment t"
  by (simp add: lastSegment_def takeWhile_append1)

lemma lastSegment_slash: "CHR ''/'' \<notin> set t \<Longrightarrow> lastSegment (CHR ''/'' # t) = t"
proof -
  assume "CHR ''/'' \<notin> set t"
  then have "takeWhile (\<lambda>c. c \<noteq> CHR ''/'') (rev t @ [CHR ''/'']) = rev t @ takeWhile (\<lambda>c. c \<noteq> CHR ''/'') [CHR ''/'']"
    by (intro takeWhile_append2) auto
  then show ?thesis by (simp add: lastSegment_def)
qed

lemma keyOwner_segment:
  assumes "keyFree i" and "c = CHR ''_'' \<or> c = CHR ''.''" and "CHR ''/'' \<notin> set t"
  shows "keyOwner (s @ CHR ''/'' # i @ c # t) = i"
proof -
  have noslash: "CHR ''/'' \<notin> set (i @ c # t)" using assms by (auto simp: keyFree_def list_all_iff)
  have "lastSegment (s @ CHR ''/'' # i @ c # t) = i @ c # t"
    using lastSegment_skip [of "CHR ''/'' # i @ c # t" s] lastSegment_slash [OF noslash] by simp
  moreover have "takeWhile (\<lambda>c. c \<noteq> CHR ''_'' \<and> c \<noteq> CHR ''.'') (i @ c # t) = i"
    using assms(1,2) by (subst takeWhile_append2) (auto simp: keyFree_def list_all_iff)
  ultimately show ?thesis by (simp add: keyOwner_def)
qed

lemmas keyShapes =
  profileAvatar_def profileCover_def garageKey_def postKey_def storyKey_def messageKey_def communityCover_def eventCover_def

lemma keyOwner_sized:
  assumes "keyFree i"
  shows "keyOwner (profileAvatar u i sz) = i" and "keyOwner (garageKey u b i sz) = i"
    and "keyOwner (postKey q i sz) = i" and "keyOwner (messageKey i sz) = i"
  using keyOwner_segment [OF assms, of "CHR ''_''" "''avatar_'' @ sizeName sz @ ''.webp''" "''users/'' @ u @ ''/profile''"]
    keyOwner_segment [OF assms, of "CHR ''_''" "sizeName sz @ ''.webp''" "''users/'' @ u @ ''/garage/'' @ b"]
    keyOwner_segment [OF assms, of "CHR ''_''" "sizeName sz @ ''.webp''" "''posts/'' @ q"]
    keyOwner_segment [OF assms, of "CHR ''_''" "sizeName sz @ ''.webp''" "''messages''"]
  by (cases sz; simp add: keyShapes)+

lemma keyOwner_cover:
  assumes "keyFree i"
  shows "keyOwner (profileCover u i) = i" and "keyOwner (storyKey q i) = i"
    and "keyOwner (communityCover q i) = i" and "keyOwner (eventCover q i) = i"
  using keyOwner_segment [OF assms, of "CHR ''_''" "''cover_medium.webp''" "''users/'' @ u @ ''/profile''"]
    keyOwner_segment [OF assms, of "CHR ''.''" "''webp''" "''stories/'' @ q"]
    keyOwner_segment [OF assms, of "CHR ''_''" "''cover_medium.webp''" "''communities/'' @ q"]
    keyOwner_segment [OF assms, of "CHR ''_''" "''cover_medium.webp''" "''events/'' @ q"]
  by (simp_all add: keyShapes)

text \<open>The keys of an asset name it, and no upload key is among them.\<close>

lemma keyOwner_destination:
  "keyFree i \<Longrightarrow> keyOwner (fst (destinationKeys job i)) = i \<and> keyOwner (snd (destinationKeys job i)) = i"
  by (simp add: destinationKeys_def Let_def keyOwner_sized keyOwner_cover split: mediaCategory.split)

definition uploadKey :: "string \<Rightarrow> bool" where
  "uploadKey k \<longleftrightarrow> take 4 k = ''tmp/''"

lemma uploadKey_tempKey [simp]: "uploadKey (tempKey i e)"
  by (simp add: uploadKey_def tempKey_def)

lemma destination_no_upload: "\<not> uploadKey (fst (destinationKeys job i)) \<and> \<not> uploadKey (snd (destinationKeys job i))"
  by (simp add: destinationKeys_def Let_def uploadKey_def keyShapes split: mediaCategory.split)

section \<open>The invariant\<close>

abbreviation identOf :: "mediaAsset \<Rightarrow> uid \<times> string \<times> mediaCategory \<times> uid \<times> string option" where
  "identOf a \<equiv> (ma_id a, ma_bucket a, ma_category a, ma_ownerId a, ma_parentId a)"

definition jobMatches :: "mediaAsset \<Rightarrow> mediaJobData \<Rightarrow> bool" where
  "jobMatches a d \<longleftrightarrow> (mj_assetId d, mj_bucket d, mj_category d, mj_ownerId d, mj_parentId d) = identOf a \<and>
     uploadKey (mj_originalKey d)"

definition keysOf :: "mediaAsset \<Rightarrow> string \<times> string" where
  "keysOf a = destinationKeys \<lparr>mj_assetId = ma_id a, mj_originalKey = [], mj_bucket = ma_bucket a,
     mj_mimeType = ma_mimeType a, mj_category = ma_category a, mj_ownerId = ma_ownerId a,
     mj_parentType = ma_parentType a, mj_parentId = ma_parentId a\<rparr> (ma_id a)"

lemma destinationKeys_cong:
  "mj_category d = mj_category e \<Longrightarrow> mj_ownerId d = mj_ownerId e \<Longrightarrow> mj_parentId d = mj_parentId e \<Longrightarrow>
   destinationKeys d i = destinationKeys e i"
  by (simp only: destinationKeys_def)

lemma keysOf_job: "jobMatches a d \<Longrightarrow> destinationKeys d (ma_id a) = keysOf a"
  unfolding keysOf_def by (rule destinationKeys_cong) (simp_all add: jobMatches_def)

lemma keysOf_ident:
  assumes "identOf a = identOf b" shows "keysOf a = keysOf b"
proof -
  have "ma_id a = ma_id b" using assms by simp
  then show ?thesis unfolding keysOf_def using assms by (auto intro: destinationKeys_cong)
qed

lemma jobMatches_ident: "identOf a = identOf b \<Longrightarrow> jobMatches a d = jobMatches b d"
  by (simp add: jobMatches_def)

lemma keysOf_no_upload [simp]: "\<not> uploadKey (fst (keysOf a))" "\<not> uploadKey (snd (keysOf a))"
  by (simp_all add: keysOf_def destination_no_upload)

text \<open>What an attempt may do to the objects, uploads aside: nothing disappears, and only its keys change.\<close>

definition grows :: "string \<Rightarrow> string \<times> string \<Rightarrow> (string \<times> string \<Rightarrow> blob option) \<Rightarrow> (string \<times> string \<Rightarrow> blob option) \<Rightarrow> bool" where
  "grows b keys ob ob' \<longleftrightarrow> (\<forall>x. \<not> uploadKey (snd x) \<longrightarrow>
     (ob x \<noteq> None \<longrightarrow> ob' x \<noteq> None) \<and> (x \<noteq> (b, fst keys) \<and> x \<noteq> (b, snd keys) \<longrightarrow> ob' x = ob x))"

definition hasObjects :: "(string \<times> string \<Rightarrow> blob option) \<Rightarrow> mediaAsset \<Rightarrow> bool" where
  "hasObjects ob a \<longleftrightarrow> ob (ma_bucket a, fst (keysOf a)) \<noteq> None \<and> ob (ma_bucket a, snd (keysOf a)) \<noteq> None"

definition assetOk :: "(string \<times> string \<Rightarrow> blob option) \<Rightarrow> mediaAsset \<Rightarrow> bool" where
  "assetOk ob a \<longleftrightarrow> keyFree (ma_id a) \<and> (ma_processingError a \<noteq> None \<longleftrightarrow> ma_status a = FAILED) \<and>
     (if ma_status a = READY
      then ma_thumbnailKey a = Some (fst (keysOf a)) \<and> ma_mediumKey a = Some (snd (keysOf a)) \<and> hasObjects ob a
      else ma_thumbnailKey a = None \<and> ma_mediumKey a = None \<and> (\<exists>k. ma_originalKey a = Some k \<and> uploadKey k))"

definition mediaInv :: "'a media_db_scheme \<Rightarrow> bool" where
  "mediaInv w \<longleftrightarrow> unique ma_id (mediaAssets w) \<and> (\<forall>n. keyFree (uuidSeq w n)) \<and>
     list_all (assetOk (objects w)) (mediaAssets w) \<and> unique jb_id (mediaJobs w) \<and>
     list_all (\<lambda>j. jb_id j = imageJobId (mj_assetId (jb_data j)) \<and>
       list_ex (\<lambda>a. ma_status a \<noteq> UPLOADING \<and> jobMatches a (jb_data j)) (mediaAssets w)) (mediaJobs w)"

lemma assetOk_grows: "assetOk ob a \<Longrightarrow> grows b keys ob ob' \<Longrightarrow> assetOk ob' a"
  by (auto simp: assetOk_def grows_def hasObjects_def split: if_splits)

lemma grows_refl [simp]: "grows b keys ob ob"
  by (simp add: grows_def)

lemma grows_upload [simp]: "uploadKey (snd x) \<Longrightarrow> grows b keys ob (ob(x := o'))"
  by (auto simp: grows_def)

text \<open>One rule for every write: a row or none changes, objects grow, jobs keep their data.\<close>

lemma mediaInv_write:
  assumes inv: "mediaInv w" and rows: "mediaAssets v = updateMany (\<lambda>a. ma_id a = i) f (mediaAssets w)"
    and ident: "\<And>a. identOf (f a) = identOf a" and objs: "grows b keys (objects w) (objects v)"
    and ok: "\<And>a. a \<in> set (mediaAssets w) \<Longrightarrow> ma_id a = i \<Longrightarrow>
      assetOk (objects v) (f a) \<and> (ma_status a \<noteq> UPLOADING \<longrightarrow> ma_status (f a) \<noteq> UPLOADING)"
    and uuids: "uuidSeq v = uuidSeq w" and jobs: "unique jb_id (mediaJobs v)"
    and data: "\<And>j. j \<in> set (mediaJobs v) \<Longrightarrow> (\<exists>k \<in> set (mediaJobs w). jb_id j = jb_id k \<and> jb_data j = jb_data k) \<or>
      jb_id j = imageJobId (mj_assetId (jb_data j)) \<and>
      (\<exists>a \<in> set (mediaAssets v). ma_status a \<noteq> UPLOADING \<and> jobMatches a (jb_data j))"
  shows "mediaInv v"
proof -
  let ?g = "\<lambda>a. if ma_id a = i then f a else a"
  have ids: "map ma_id (mediaAssets v) = map ma_id (mediaAssets w)"
    unfolding rows by (rule map_updateMany) (use ident in simp)
  have set: "set (mediaAssets v) = ?g ` set (mediaAssets w)" unfolding rows by (rule set_updateMany)
  have "assetOk (objects v) a" if "a \<in> set (mediaAssets v)" for a
    using that ok inv assetOk_grows [OF _ objs] by (auto simp: set mediaInv_def list_all_iff)
  moreover have "\<exists>a \<in> set (mediaAssets v). ma_status a \<noteq> UPLOADING \<and> jobMatches a d"
    if "a \<in> set (mediaAssets w)" "ma_status a \<noteq> UPLOADING" "jobMatches a d" for a d
    using that ok [of a] jobMatches_ident [OF ident [of a], of d] by (intro bexI [of _ "?g a"]) (auto simp: set)
  ultimately show ?thesis using inv ids uuids jobs data
    by (simp add: mediaInv_def list_all_iff list_ex_iff) (metis (no_types, lifting))
qed

lemmas mediaInv_row = mediaInv_write [where b = "[]" and keys = "([], [])"]

text \<open>A write that leaves the rows alone.\<close>

lemma mediaInv_still:
  assumes inv: "mediaInv w" and "mediaAssets v = mediaAssets w" and "grows b keys (objects w) (objects v)"
    and "uuidSeq v = uuidSeq w" and "unique jb_id (mediaJobs v)"
    and "\<And>j. j \<in> set (mediaJobs v) \<Longrightarrow> \<exists>k \<in> set (mediaJobs w). jb_id j = jb_id k \<and> jb_data j = jb_data k"
  shows "mediaInv v"
proof (rule mediaInv_write [OF inv, where i = "[]" and f = "\<lambda>a. a"])
  show "assetOk (objects v) a \<and> (ma_status a \<noteq> UPLOADING \<longrightarrow> ma_status a \<noteq> UPLOADING)" if "a \<in> set (mediaAssets w)" for a
    using inv that assetOk_grows [OF _ assms(3)] by (simp add: mediaInv_def list_all_iff)
qed (use assms(2-) in auto)

section \<open>What the operations write\<close>

lemma updateAsset_cases:
  "updateAsset i f w =
     (if i \<in> ma_id ` set (mediaAssets w)
      then (Inr (), w\<lparr>mediaAssets := updateMany (\<lambda>a. ma_id a = i) f (mediaAssets w)\<rparr>)
      else (Inl RecordNotFound, w))"
  by (simp add: updateAsset_def write_or_def updateRow_def raise_def ret_def)

text \<open>Everything but the objects and the assets.\<close>

abbreviation restOf where "restOf w \<equiv> (uuidSeq w, mediaJobs w)"

lemma putBoth_effect:
  assumes "putBoth io b keys p w = (r, v)"
  shows "mediaAssets v = mediaAssets w" and "restOf v = restOf w" and "grows b keys (objects w) (objects v)"
    and "r = Inr () \<Longrightarrow> objects v (b, fst keys) \<noteq> None \<and> objects v (b, snd keys) \<noteq> None"
  using assms
  by (auto simp: putBoth_def putObject_def Let_def grows_def ret_def raise_def split: option.splits if_splits)

text \<open>The row of an asset whose images have been stored.\<close>

definition stored :: "string \<times> string \<Rightarrow> processedImage \<Rightarrow> mediaAsset \<Rightarrow> mediaAsset" where
  "stored keys p a = a\<lparr>ma_status := READY, ma_thumbnailKey := Some (fst keys), ma_mediumKey := Some (snd keys),
     ma_width := Some (pi_width p), ma_height := Some (pi_height p), ma_sizeBytes := Some (pi_bytesMedium p),
     ma_processingError := None, ma_originalKey := None\<rparr>"

lemma removeObject_fields [simp]:
  "mediaAssets (removeObject err b k w) = mediaAssets w" "uuidSeq (removeObject err b k w) = uuidSeq w"
  "mediaJobs (removeObject err b k w) = mediaJobs w"
  "\<not> uploadKey (snd x) \<Longrightarrow> uploadKey k \<Longrightarrow> objects (removeObject err b k w) x = objects w x"
  by (auto simp: removeObject_def split: option.split)

lemma getObject_cases:
  obtains (got) c where "getObject err b k w = (Inr c, w)" | (failed) m where "getObject err b k w = (Inl (PlainError m), w)"
  by (cases "getObject err b k w") (auto simp: getObject_def ret_def raise_def split: option.splits)

lemma processAndStore_effect:
  assumes run: "processAndStore env io job i w = (r, v)" and row: "i \<in> ma_id ` set (mediaAssets w)"
    and key: "uploadKey (mj_originalKey job)" and k: "k = destinationKeys job i"
  shows "restOf v = restOf w \<and> grows (mj_bucket job) k (objects w) (objects v) \<and> (case r of
      Inl e \<Rightarrow> mediaAssets v = mediaAssets w
    | Inr _ \<Rightarrow> \<exists>c p. getObject (at_get io) (mj_bucket job) (mj_originalKey job) w = (Inr c, w) \<and> processImage env c = Inr p \<and>
        mediaAssets v = updateMany (\<lambda>a. ma_id a = i) (stored k p) (mediaAssets w) \<and>
        objects v (mj_bucket job, fst k) \<noteq> None \<and> objects v (mj_bucket job, snd k) \<noteq> None)"
proof (cases rule: getObject_cases [of "at_get io" "mj_bucket job" "mj_originalKey job" w])
  case (failed m)
  then show ?thesis using run by (auto simp: processAndStore_def)
next
  case (got c)
  show ?thesis
  proof (cases "processImage env c")
    case (Inl m)
    then show ?thesis using run got by (auto simp: processAndStore_def raise_def)
  next
    case (Inr p)
    obtain q w2 where both: "putBoth io (mj_bucket job) k p w = (q, w2)" by (cases "putBoth io (mj_bucket job) k p w")
    note eff = putBoth_effect [OF both]
    show ?thesis
    proof (cases q)
      case (Inl e)
      then show ?thesis using run got \<open>processImage env c = Inr p\<close> both eff k by (auto simp: processAndStore_def)
    next
      case u: (Inr u)
      then have "r = Inr ()" "restOf v = restOf w" "mediaAssets v = updateMany (\<lambda>a. ma_id a = i) (stored k p) (mediaAssets w)"
        and objs: "\<And>x. \<not> uploadKey (snd x) \<Longrightarrow> objects v x = objects w2 x"
        using run got Inr both row eff(1,2) k key
        by (auto simp: processAndStore_def Let_def updateAsset_cases keys_updateMany updateMany_twice stored_def [abs_def])
      moreover have "grows (mj_bucket job) k (objects w) (objects v)"
        using eff(3) objs by (simp add: grows_def)
      ultimately show ?thesis using eff(4) u got Inr objs k destination_no_upload by fastforce
    qed
  qed
qed

section \<open>One attempt\<close>

lemma assetOk_stored: "assetOk ob a \<Longrightarrow> hasObjects ob' a \<Longrightarrow> assetOk ob' (stored (keysOf a) p a)"
proof -
  have "keysOf (stored (keysOf a) p a) = keysOf a" by (rule keysOf_ident) (simp add: stored_def)
  then show "assetOk ob a \<Longrightarrow> hasObjects ob' a \<Longrightarrow> ?thesis" by (simp add: assetOk_def hasObjects_def) (simp add: stored_def)
qed

definition refused :: "string \<Rightarrow> mediaAsset \<Rightarrow> mediaAsset" where
  "refused m a = a\<lparr>ma_status := FAILED, ma_processingError := Some m\<rparr>"

lemma assetOk_refused: "assetOk ob a \<Longrightarrow> ma_status a \<noteq> READY \<Longrightarrow> assetOk ob (refused m a)"
  by (simp add: assetOk_def refused_def)

lemma ident_rows [simp]: "identOf (stored k p a) = identOf a" "identOf (refused m a) = identOf a"
  by (simp_all add: stored_def refused_def)

lemma status_rows [simp]: "ma_status (stored k p a) = READY" "ma_status (refused m a) = FAILED"
  by (simp_all add: stored_def refused_def)

lemma mediaInv_find: "mediaInv w \<Longrightarrow> findUnique ma_id i (mediaAssets w) = Some a \<longleftrightarrow> a \<in> set (mediaAssets w) \<and> ma_id a = i"
  by (simp add: mediaInv_def findUnique_iff)

lemma mediaInv_asset: "mediaInv w \<Longrightarrow> a \<in> set (mediaAssets w) \<Longrightarrow> assetOk (objects w) a"
  by (simp add: mediaInv_def list_all_iff)

lemma mediaInv_same: "mediaInv w \<Longrightarrow> a \<in> set (mediaAssets w) \<Longrightarrow> b \<in> set (mediaAssets w) \<Longrightarrow> ma_id a = ma_id b \<Longrightarrow> a = b"
  by (meson mediaInv_def unique_row)

text \<open>An attempt at an asset that is not ready stores it or records why it could not.\<close>

lemma processImageJob_effect:
  assumes inv: "mediaInv w" and a: "a \<in> set (mediaAssets w)" "jobMatches a job" "ma_status a \<noteq> READY"
    and run: "processImageJob env io job w = (r, v)"
  obtains f where "mediaAssets v = updateMany (\<lambda>x. ma_id x = ma_id a) f (mediaAssets w)" and "restOf v = restOf w"
    and "grows (ma_bucket a) (keysOf a) (objects w) (objects v)" and "\<And>x. identOf (f x) = identOf x"
    and "assetOk (objects v) (f a)" and "ma_status (f a) = (if isOk r then READY else FAILED)"
proof -
  have job: "mj_assetId job = ma_id a" "uploadKey (mj_originalKey job)" "mj_bucket job = ma_bucket a"
    using a(2) by (auto simp: jobMatches_def)
  have find: "findUnique ma_id (mj_assetId job) (mediaAssets w) = Some a" using a(1) job mediaInv_find [OF inv] by simp
  have row: "ma_id a \<in> ma_id ` set (mediaAssets w)" using a(1) by blast
  obtain q w1 where body: "processAndStore env io job (ma_id a) w = (q, w1)" by (cases "processAndStore env io job (ma_id a) w")
  note eff = processAndStore_effect [OF body row job(2) keysOf_job [OF a(2), symmetric]]
  show thesis
  proof (cases q)
    case (Inr u)
    then have v: "r = Inr ()" "v = w1" using run find a(3) body by (simp_all add: processImageJob_def ret_def)
    from eff Inr obtain p where p: "mediaAssets w1 = updateMany (\<lambda>x. ma_id x = ma_id a) (stored (keysOf a) p) (mediaAssets w)"
      "hasObjects (objects w1) a" by (auto simp: hasObjects_def job)
    show thesis using that [of "stored (keysOf a) p"] v p eff job(3) assetOk_stored [OF mediaInv_asset [OF inv a(1)] p(2)] by simp
  next
    case (Inl e)
    let ?m = "take 500 (errMessage e)"
    have same: "mediaAssets w1 = mediaAssets w" "grows (ma_bucket a) (keysOf a) (objects w) (objects w1)" "restOf w1 = restOf w"
      using eff Inl job(3) by simp_all
    then have v: "r = Inl e" "v = w1\<lparr>mediaAssets := updateMany (\<lambda>x. ma_id x = ma_id a) (refused ?m) (mediaAssets w)\<rparr>"
      using run find a(3) body Inl row
      by (simp_all add: processImageJob_def updateAsset_cases raise_def refused_def [abs_def])
    have "assetOk (objects v) (refused ?m a)"
      using assetOk_refused [OF assetOk_grows [OF mediaInv_asset [OF inv a(1)] same(2)] a(3)] v by simp
    then show thesis using that [of "refused ?m"] v same by simp
  qed
qed

lemma processImageJob_ready:
  assumes "mediaInv w" and "a \<in> set (mediaAssets w)" and "jobMatches a job" and "ma_status a = READY"
  shows "processImageJob env io job w = (Inr (), w)"
  using assms mediaInv_find [OF assms(1), of "ma_id a" a] by (auto simp: processImageJob_def jobMatches_def ret_def)

text \<open>The asset of a job.\<close>

lemma mediaInv_job:
  assumes "mediaInv w" and "j \<in> set (mediaJobs w)"
  obtains a where "a \<in> set (mediaAssets w)" and "jobMatches a (jb_data j)" and "ma_status a \<noteq> UPLOADING"
    and "jb_id j = imageJobId (ma_id a)"
  using assms by (force simp: mediaInv_def list_all_iff list_ex_iff jobMatches_def)

lemma runMediaJob_cases:
  assumes inv: "mediaInv w"
  obtains (idle) "dueJob i now (mediaJobs w) = None" and "runMediaJob env i now io w = w"
  | (again) j a where "dueJob i now (mediaJobs w) = Some j" and "a \<in> set (mediaAssets w)" and "jobMatches a (jb_data j)"
      and "ma_status a = READY" and "runMediaJob env i now io w = w\<lparr>mediaJobs := attempted mediaJobOptions i True now (mediaJobs w)\<rparr>"
  | (ran) j a f b where "dueJob i now (mediaJobs w) = Some j" and "a \<in> set (mediaAssets w)" and "jobMatches a (jb_data j)"
      and "ma_status a \<noteq> READY" and "ma_status a \<noteq> UPLOADING"
      and "mediaAssets (runMediaJob env i now io w) = updateMany (\<lambda>x. ma_id x = ma_id a) f (mediaAssets w)"
      and "mediaJobs (runMediaJob env i now io w) = attempted mediaJobOptions i b now (mediaJobs w)"
      and "uuidSeq (runMediaJob env i now io w) = uuidSeq w"
      and "grows (ma_bucket a) (keysOf a) (objects w) (objects (runMediaJob env i now io w))"
      and "\<And>x. identOf (f x) = identOf x" and "assetOk (objects (runMediaJob env i now io w)) (f a)"
      and "ma_status (f a) = (if b then READY else FAILED)"
proof (cases "dueJob i now (mediaJobs w)")
  case None
  then show thesis by (intro idle) (simp_all add: runMediaJob_def)
next
  case (Some j)
  then have "j \<in> set (mediaJobs w)" by (auto simp: dueJob_Some dest: findUnique_Some)
  then obtain a where a: "a \<in> set (mediaAssets w)" "jobMatches a (jb_data j)" "ma_status a \<noteq> UPLOADING"
    using mediaInv_job [OF inv] by metis
  obtain r v where run: "processImageJob env io (jb_data j) w = (r, v)" by (cases "processImageJob env io (jb_data j) w")
  then have all: "runMediaJob env i now io w = v\<lparr>mediaJobs := attempted mediaJobOptions i (isOk r) now (mediaJobs v)\<rparr>"
    using Some by (simp add: runMediaJob_def)
  show thesis
  proof (cases "ma_status a = READY")
    case True
    then have "r = Inr ()" "v = w" using processImageJob_ready [OF inv a(1,2) True, of env io] run by simp_all
    then show thesis using again [OF Some a(1,2) True] all by simp
  next
    case False
    show thesis by (rule processImageJob_effect [OF inv a(1,2) False run])
      (rule ran [OF Some a(1,2) False a(3), where b = "isOk r"], simp_all add: all)
  qed
qed

section \<open>Every operation keeps the invariant\<close>

lemma createAsset_effect:
  assumes "createAsset userId dto now w = (Inr i, v)"
  shows "i = newUuid w" and "i \<notin> ma_id ` set (mediaAssets w)" and "objects v = objects w" and "mediaJobs v = mediaJobs w"
    and "uuidSeq v = uuidSeq w"
    and "\<exists>a. mediaAssets v = mediaAssets w @ [a] \<and> ma_id a = i \<and> ma_status a = UPLOADING \<and> ma_processingError a = None \<and>
      ma_thumbnailKey a = None \<and> ma_mediumKey a = None"
  using assms by (auto simp: createAsset_def Let_def createRow_def takeUuid_def outcome split: if_splits option.splits)

lemma createAsset_failed: "createAsset userId dto now w = (Inl e, v) \<Longrightarrow> v = w \<or> v = takeUuid w"
  by (auto simp: createAsset_def Let_def outcome split: if_splits option.splits)

lemma initiate_effect:
  assumes "initiateUpload env u dto now w = (r, v)"
  shows "v = w \<or> v = takeUuid w \<or> (uuidSeq v = uuidSeq w \<and> objects v = objects w \<and> mediaJobs v = mediaJobs w \<and>
    (\<exists>a. mediaAssets v = mediaAssets w @ [a] \<and> ma_id a = newUuid w \<and> newUuid w \<notin> ma_id ` set (mediaAssets w) \<and>
       ma_status a = UPLOADING \<and> ma_processingError a = None \<and> ma_thumbnailKey a = None \<and> ma_mediumKey a = None \<and>
       (\<exists>k. ma_originalKey a = Some k \<and> uploadKey k)))"
proof (cases "fst (createAsset u dto now w)")
  case (Inl e)
  then obtain w1 where c: "createAsset u dto now w = (Inl e, w1)" by (cases "createAsset u dto now w") simp
  show ?thesis using assms createAsset_failed [OF c] c by (auto simp: initiateUpload_def outcome split: if_splits)
next
  case (Inr i)
  then obtain w1 where c: "createAsset u dto now w = (Inr i, w1)" by (cases "createAsset u dto now w") simp
  note f = createAsset_effect [OF c]
  then obtain a where a: "mediaAssets w1 = mediaAssets w @ [a]" "ma_id a = i" "ma_status a = UPLOADING"
    "ma_processingError a = None" "ma_thumbnailKey a = None" "ma_mediumKey a = None" by blast
  let ?a = "a\<lparr>ma_originalKey := Some (tempKey i (fileExtForMime (in_mimeType dto)))\<rparr>"
  have "updateMany (\<lambda>x. ma_id x = i) g (mediaAssets w1) = mediaAssets w @ [g a]" for g
  proof -
    have "updateMany (\<lambda>x. ma_id x = i) g (mediaAssets w) = mediaAssets w"
      unfolding updateMany_def using f(2) by (intro map_idI) auto
    then show ?thesis by (simp add: a updateMany_def)
  qed
  then show ?thesis using assms c a f
    by (auto simp: initiateUpload_def Let_def updateAsset_cases outcome split: if_splits sum.splits)
qed

lemma mediaInv_initiate: "mediaInv w \<Longrightarrow> mediaInv (snd (initiateUpload env u dto now w))"
proof -
  assume inv: "mediaInv w"
  obtain r v where run: "initiateUpload env u dto now w = (r, v)" by (cases "initiateUpload env u dto now w")
  have "keyFree (newUuid w)" using inv by (simp add: mediaInv_def newUuid_def)
  then show ?thesis using initiate_effect [OF run] inv run
    by (auto simp: mediaInv_def takeUuid_def assetOk_def image_iff)
qed

lemma findAsset_Some: "findAsset i w = Some a \<Longrightarrow> a \<in> set (mediaAssets w) \<and> ma_id a = i \<and> ma_deletedAt a = None"
  unfolding findAsset_def by (drule find_row) simp

lemma findAsset_row: "findAsset i w = Some a \<Longrightarrow> i \<in> ma_id ` set (mediaAssets w)"
  using findAsset_Some by blast

lemma softDelete_effect:
  "snd (softDelete u i now w) = w \<or>
   snd (softDelete u i now w) =
     w\<lparr>mediaAssets := updateMany (\<lambda>a. ma_id a = i) (\<lambda>a. a\<lparr>ma_deletedAt := Some now\<rparr>) (mediaAssets w)\<rparr>"
proof -
  have "findAsset i w = Some a \<Longrightarrow> ma_id a = i \<and> i \<in> ma_id ` set (mediaAssets w)" for a
    using findAsset_Some [of i w a] by blast
  then show ?thesis by (auto simp: softDelete_def updateAsset_cases split: option.split)
qed

lemma finalize_effect:
  assumes inv: "mediaInv w" and run: "finalizeUpload env up u i now w = (r, v)"
  obtains (same) "v = w"
    | (queued) a d where "a \<in> set (mediaAssets w)" and "ma_id a = i" and "ma_status a = UPLOADING" and "jobMatches a d"
      and "v = w\<lparr>mediaAssets := updateMany (\<lambda>x. ma_id x = i) (\<lambda>x. x\<lparr>ma_status := PROCESSING\<rparr>) (mediaAssets w),
             mediaJobs := (if up then addJob (imageJobId i) d now (mediaJobs w) else mediaJobs w)\<rparr>"
      and "isOk r \<longleftrightarrow> up"
proof (cases "\<exists>a. findAsset i w = Some a \<and> ma_ownerId a = u \<and> ma_status a = UPLOADING")
  case False
  then have "v = w" using run by (auto simp: finalizeUpload_def outcome split: option.splits if_splits)
  then show thesis by (rule same)
next
  case True
  then obtain a where a: "findAsset i w = Some a" "ma_ownerId a = u" "ma_status a = UPLOADING" by blast
  note row = findAsset_Some [OF a(1)]
  then obtain k where k: "ma_originalKey a = Some k" "uploadKey k"
    using mediaInv_asset [OF inv] a(3) by (fastforce simp: assetOk_def)
  let ?d = "\<lparr>mj_assetId = ma_id a, mj_originalKey = k, mj_bucket = ma_bucket a, mj_mimeType = ma_mimeType a,
    mj_category = ma_category a, mj_ownerId = ma_ownerId a, mj_parentType = ma_parentType a, mj_parentId = ma_parentId a\<rparr>"
  have "i \<in> ma_id ` set (mediaAssets w)" by (rule findAsset_row [OF a(1)])
  then show thesis using run a row k
    by (intro queued [of a ?d]) (auto simp: finalizeUpload_def updateAsset_cases enqueueImage_def jobMatches_def outcome
        split: if_splits)
qed

lemma imageJobId_inj: "imageJobId i = imageJobId j \<longleftrightarrow> i = j"
  by (simp add: imageJobId_def)

lemma assetOk_processing:
  "assetOk ob a \<Longrightarrow> ma_status a = UPLOADING \<Longrightarrow> assetOk ob (a\<lparr>ma_status := PROCESSING\<rparr>)"
  by (simp add: assetOk_def)

lemma assetOk_deleted: "assetOk ob a \<Longrightarrow> assetOk ob (a\<lparr>ma_deletedAt := t\<rparr>)"
proof -
  have "keysOf (a\<lparr>ma_deletedAt := t\<rparr>) = keysOf a" by (rule keysOf_ident) simp
  then show "assetOk ob a \<Longrightarrow> ?thesis" by (auto simp: assetOk_def hasObjects_def split: if_splits)
qed

lemma mediaInv_finalize:
  assumes inv: "mediaInv w" shows "mediaInv (snd (finalizeUpload env up u i now w))"
proof -
  obtain r v where run: "finalizeUpload env up u i now w = (r, v)" by (cases "finalizeUpload env up u i now w")
  from inv run show ?thesis
  proof (cases rule: finalize_effect)
    case same
    then show ?thesis using inv run by simp
  next
    case (queued a d)
    have "mediaInv v"
    proof (rule mediaInv_row [OF inv, where i = i and f = "\<lambda>x. x\<lparr>ma_status := PROCESSING\<rparr>"])
      show "assetOk (objects v) (x\<lparr>ma_status := PROCESSING\<rparr>) \<and>
          (ma_status x \<noteq> UPLOADING \<longrightarrow> ma_status (x\<lparr>ma_status := PROCESSING\<rparr>) \<noteq> UPLOADING)"
        if "x \<in> set (mediaAssets w)" "ma_id x = i" for x
        using that queued mediaInv_same [OF inv] mediaInv_asset [OF inv] assetOk_processing by fastforce
      have "imageJobId i = imageJobId (mj_assetId d)" using queued by (simp add: jobMatches_def)
      moreover have "\<exists>b \<in> set (mediaAssets v). ma_status b \<noteq> UPLOADING \<and> jobMatches b d"
        using queued by (intro bexI [of _ "a\<lparr>ma_status := PROCESSING\<rparr>"]) (auto simp: set_updateMany jobMatches_def)
      ultimately show "(\<exists>k \<in> set (mediaJobs w). jb_id j = jb_id k \<and> jb_data j = jb_data k) \<or>
          jb_id j = imageJobId (mj_assetId (jb_data j)) \<and>
          (\<exists>a \<in> set (mediaAssets v). ma_status a \<noteq> UPLOADING \<and> jobMatches a (jb_data j))"
        if "j \<in> set (mediaJobs v)" for j
        using that queued set_addJob [of j "imageJobId i" d now "mediaJobs w"] by (auto split: if_splits)
    qed (use inv queued in \<open>auto simp: mediaInv_def addJob_unique\<close>)
    then show ?thesis using run by simp
  qed
qed

lemma mediaInv_run:
  assumes inv: "mediaInv w" shows "mediaInv (runMediaJob env i now io w)"
proof -
  have jobs: "unique jb_id (attempted mediaJobOptions i b now (mediaJobs w))" for b
    using inv by (simp add: attempted_ids mediaInv_def)
  from inv show ?thesis
  proof (cases rule: runMediaJob_cases [where env = env and i = i and now = now and io = io])
    case idle
    then show ?thesis using inv by simp
  next
    case (again j a)
    then show ?thesis using inv jobs
      by (intro mediaInv_still [OF inv, where b = "[]" and keys = "([], [])"]) (auto dest: set_attempted)
  next
    case (ran j a f b)
    show ?thesis
    proof (rule mediaInv_write [OF inv ran(6) ran(10) ran(9)])
      show "assetOk (objects (runMediaJob env i now io w)) (f x) \<and> (ma_status x \<noteq> UPLOADING \<longrightarrow> ma_status (f x) \<noteq> UPLOADING)"
        if "x \<in> set (mediaAssets w)" "ma_id x = ma_id a" for x
        using mediaInv_same [OF inv that(1) ran(2) that(2)] ran(11,12) by simp
    qed (use ran(7,8) jobs in \<open>auto dest: set_attempted\<close>)
  qed
qed

lemma mediaInv_delete:
  assumes inv: "mediaInv w" shows "mediaInv (snd (softDelete u i now w))"
proof -
  let ?f = "\<lambda>a. a\<lparr>ma_deletedAt := Some now\<rparr>"
  let ?v = "w\<lparr>mediaAssets := updateMany (\<lambda>a. ma_id a = i) ?f (mediaAssets w)\<rparr>"
  have "assetOk (objects w) (?f a)" if "a \<in> set (mediaAssets w)" for a
    by (rule assetOk_deleted [OF mediaInv_asset [OF inv that]])
  moreover have "unique jb_id (mediaJobs w)" "\<And>j. j \<in> set (mediaJobs w) \<Longrightarrow> \<exists>k \<in> set (mediaJobs w). jb_id j = jb_id k \<and> jb_data j = jb_data k"
    using inv by (auto simp: mediaInv_def)
  ultimately have "mediaInv ?v" by (intro mediaInv_row [OF inv, where v = ?v and i = i and f = ?f]) auto
  then show ?thesis using softDelete_effect [of u i now w] inv by metis
qed

lemma clientPut_effect:
  "clientPut env i b now w = w \<or>
   (\<exists>k. uploadKey k \<and> clientPut env i b now w = w\<lparr>objects := (objects w)((mv_defaultBucket env, k) := Some b)\<rparr>)"
proof (cases "findUnique ma_id i (mediaAssets w)")
  case (Some a)
  have "uploadKey (tempKey i (fileExtForMime (ma_mimeType a)))" by simp
  then show ?thesis unfolding clientPut_def Some option.case by (metis (full_types))
qed (simp add: clientPut_def)

lemma mediaInv_put:
  assumes inv: "mediaInv w" shows "mediaInv (clientPut env i b now w)"
proof -
  have "mediaInv (w\<lparr>objects := (objects w)((mv_defaultBucket env, k) := Some b)\<rparr>)" if "uploadKey k" for k
    using inv that by (intro mediaInv_still [OF inv, where b = "[]" and keys = "([], [])"]) (auto simp: mediaInv_def)
  then show ?thesis using clientPut_effect [of env i b now w] inv by metis
qed

interpretation media: invariant_system "mediaStep env" mediaInv for env
proof
  fix w :: "'a media_db_scheme" and x
  assume "mediaInv w"
  then show "mediaInv (mediaStep env x w)"
    by (cases x) (simp_all add: mediaInv_initiate mediaInv_put mediaInv_finalize mediaInv_run mediaInv_delete)
qed

text \<open>Covers and stories have one image under one key.\<close>

lemma keys_agree:
  "fst (destinationKeys j i) = snd (destinationKeys j i) \<longleftrightarrow>
     mj_category j \<in> {PROFILE_COVER, STORY_IMAGE, STORY_VIDEO, COMMUNITY_COVER, EVENT_COVER}"
  by (cases "mj_category j")
     (simp_all add: destinationKeys_def Let_def profileAvatar_def garageKey_def postKey_def messageKey_def)

text \<open>
  C33: after any history of the media service an asset that is ready records the keys its category,
  owner and parent determine, both of which name the asset and hold an object in the store; the two
  are one key exactly for covers and stories. An asset that is not ready records no image key (an
  object that a failed attempt has put may remain), and an asset says why it failed exactly if it did.
\<close>

theorem ready_has_images:
  assumes "mediaInv w0" and "w = fold (mediaStep env) ops w0" and "a \<in> set (mediaAssets w)"
  shows "(ma_status a = READY \<longrightarrow> (\<exists>t m. ma_thumbnailKey a = Some t \<and> ma_mediumKey a = Some m \<and>
      (t, m) = destinationKeys \<lparr>mj_assetId = ma_id a, mj_originalKey = [], mj_bucket = ma_bucket a, mj_mimeType = ma_mimeType a,
         mj_category = ma_category a, mj_ownerId = ma_ownerId a, mj_parentType = ma_parentType a, mj_parentId = ma_parentId a\<rparr> (ma_id a) \<and>
      (t = m \<longleftrightarrow> ma_category a \<in> {PROFILE_COVER, STORY_IMAGE, STORY_VIDEO, COMMUNITY_COVER, EVENT_COVER}) \<and>
      keyOwner t = ma_id a \<and> keyOwner m = ma_id a \<and>
      objects w (ma_bucket a, t) \<noteq> None \<and> objects w (ma_bucket a, m) \<noteq> None)) \<and>
    (ma_status a \<noteq> READY \<longrightarrow> ma_thumbnailKey a = None \<and> ma_mediumKey a = None) \<and>
    (ma_status a = FAILED \<longleftrightarrow> ma_processingError a \<noteq> None)"
proof -
  have "mediaInv w" unfolding assms(2) by (rule media.run_inv [OF assms(1)])
  from mediaInv_asset [OF this assms(3)] show ?thesis
    by (auto simp: assetOk_def hasObjects_def keysOf_def keyOwner_destination keys_agree split: if_splits)
qed

section \<open>What is ready stays\<close>

text \<open>A ready asset and its images, from one state to a later one.\<close>

definition readyKept :: "'a media_db_scheme \<Rightarrow> 'a media_db_scheme \<Rightarrow> bool" where
  "readyKept w v \<longleftrightarrow> (\<forall>a \<in> set (mediaAssets w). ma_status a = READY \<longrightarrow>
     (\<exists>b \<in> set (mediaAssets v). identOf b = identOf a \<and> ma_status b = READY \<and>
        (\<forall>k. k = fst (keysOf a) \<or> k = snd (keysOf a) \<longrightarrow> objects v (ma_bucket a, k) = objects w (ma_bucket a, k))))"

lemma readyKept_refl [simp]: "readyKept w w"
  by (auto simp: readyKept_def)








section \<open>An upload is finalized once\<close>

definition began :: "uid \<Rightarrow> 'a media_db_scheme \<Rightarrow> bool" where
  "began i w \<longleftrightarrow> (\<exists>a \<in> set (mediaAssets w). ma_id a = i \<and> ma_status a \<noteq> UPLOADING)"

lemma began_write:
  assumes "began i w" and "mediaAssets v = updateMany (\<lambda>a. ma_id a = k) f (mediaAssets w)" and "\<And>a. ma_id (f a) = ma_id a"
    and "\<And>a. a \<in> set (mediaAssets w) \<Longrightarrow> ma_id a = k \<Longrightarrow> ma_status a \<noteq> UPLOADING \<Longrightarrow> ma_status (f a) \<noteq> UPLOADING"
  shows "began i v"
proof -
  obtain a where "a \<in> set (mediaAssets w)" "ma_id a = i" "ma_status a \<noteq> UPLOADING" using assms(1) by (auto simp: began_def)
  then show ?thesis using assms(3,4) unfolding began_def assms(2) set_updateMany
    by (intro bexI [of _ "if ma_id a = k then f a else a"]) auto
qed

lemma began_still: "mediaAssets v = mediaAssets w \<Longrightarrow> began i v = began i w"
  by (simp add: began_def)

lemma began_step:
  assumes inv: "mediaInv w" and b: "began i w" shows "began i (mediaStep env x w)"
proof (cases x)
  case (InitiateUpload u dto now)
  obtain r v where run: "initiateUpload env u dto now w = (r, v)" by (cases "initiateUpload env u dto now w")
  then show ?thesis using initiate_effect [OF run] InitiateUpload b by (auto simp: began_def takeUuid_def)
next
  case (ClientPut k c now)
  then show ?thesis using clientPut_effect [of env k c now w] b by (auto simp: began_def)
next
  case (FinalizeUpload up u k now)
  obtain r v where run: "finalizeUpload env up u k now w = (r, v)" by (cases "finalizeUpload env up u k now w")
  from inv run show ?thesis
  proof (cases rule: finalize_effect)
    case (queued a d)
    then have "began i v" by (intro began_write [OF b, where k = k and f = "\<lambda>x. x\<lparr>ma_status := PROCESSING\<rparr>"]) auto
    then show ?thesis using run FinalizeUpload by simp
  qed (use run FinalizeUpload b in simp)
next
  case (RunMediaJob k now io)
  from inv have "began i (runMediaJob env k now io w)"
  proof (cases rule: runMediaJob_cases [where env = env and i = k and now = now and io = io])
    case (ran j a f c)
    have "ma_status (f x) \<noteq> UPLOADING" if "x \<in> set (mediaAssets w)" "ma_id x = ma_id a" for x
      using mediaInv_same [OF inv that(1) ran(2) that(2)] ran(12) by simp
    then show ?thesis using began_write [OF b ran(6)] ran(10) by auto
  qed (use b in \<open>simp_all add: began_def\<close>)
  then show ?thesis using RunMediaJob by simp
next
  case (SoftDelete u k now)
  have "began i (w\<lparr>mediaAssets := updateMany (\<lambda>a. ma_id a = k) (\<lambda>a. a\<lparr>ma_deletedAt := Some now\<rparr>) (mediaAssets w)\<rparr>)"
    by (rule began_write [OF b, where k = k and f = "\<lambda>a. a\<lparr>ma_deletedAt := Some now\<rparr>"]) simp_all
  then show ?thesis using softDelete_effect [of u k now w] SoftDelete b by auto
qed

lemma began_run: "mediaInv w \<Longrightarrow> began i w \<Longrightarrow> mediaInv (fold (mediaStep env) ops w) \<and> began i (fold (mediaStep env) ops w)"
  by (induction ops arbitrary: w) (simp_all add: media.step_inv began_step)

lemma began_finalize:
  assumes "mediaInv w" and "began i w" shows "snd (finalizeUpload env up u i now w) = w"
proof -
  obtain r v where run: "finalizeUpload env up u i now w = (r, v)" by (cases "finalizeUpload env up u i now w")
  from assms(1) run show ?thesis
  proof (cases rule: finalize_effect)
    case (queued a d)
    then show ?thesis using assms(2) mediaInv_same [OF assms(1)] by (auto simp: began_def)
  qed (use run in simp)
qed

text \<open>
  Finalizing is idempotent: once it has succeeded for an asset, every later finalization of
  the asset, by anybody and after any history, changes nothing and adds no job.
\<close>

theorem finalize_once:
  assumes "mediaInv w" and "finalizeUpload env up u i now w = (Inr d, w1)" and "v = fold (mediaStep env) ops w1"
  shows "snd (finalizeUpload env up' u' i t v) = v"
proof -
  have inv: "mediaInv w1" using mediaInv_finalize [OF assms(1), of env up u i now] assms(2) by simp
  have "began i w1"
  proof -
    obtain a where a: "findAsset i w = Some a" using assms(2) by (auto simp: finalizeUpload_def raise_def split: option.splits)
    note row = findAsset_Some [OF a]
    from assms(1,2) show ?thesis
    proof (cases rule: finalize_effect)
      case same
      have "ma_status a \<noteq> UPLOADING"
      proof
        assume "ma_status a = UPLOADING"
        moreover have "i \<in> ma_id ` set (mediaAssets w)" by (rule findAsset_row [OF a])
        ultimately have "a\<lparr>ma_status := PROCESSING\<rparr> \<in> set (mediaAssets w1)"
          using assms(2) a row by (auto simp: finalizeUpload_def updateAsset_cases enqueueImage_def set_updateMany outcome
              split: if_splits option.splits)
        then show False using mediaInv_same [OF assms(1), of "a\<lparr>ma_status := PROCESSING\<rparr>" a] row same
          by (metis \<open>ma_status a = UPLOADING\<close> mediaAsset.select_convs(1,8) mediaAsset.surjective mediaAsset.update_convs(8) mediaStatus.distinct(1))
      qed
      then show ?thesis using row same by (auto simp: began_def)
    next
      case (queued b d)
      then show ?thesis
        by (auto simp: began_def set_updateMany intro!: bexI [of _ "b\<lparr>ma_status := PROCESSING\<rparr>"] image_eqI [of _ _ b])
    qed
  qed
  with began_run [OF inv this] show ?thesis unfolding assms(3) by (intro began_finalize) blast+
qed

section \<open>The worker comes to an end\<close>

definition settled :: "uid \<Rightarrow> 'a media_db_scheme \<Rightarrow> bool" where
  "settled i w \<longleftrightarrow> (\<exists>a \<in> set (mediaAssets w). ma_id a = i \<and> (ma_status a = READY \<or> ma_status a = FAILED))"

text \<open>One attempt at a job that is due settles its asset and moves the job on.\<close>

lemma attempt_settles:
  assumes inv: "mediaInv w" and j: "findUnique jb_id (imageJobId i) (mediaJobs w) = Some j" "jb_state j = J_DELAYED" "jb_runAt j \<le> t"
  shows "settled i (runMediaJob env (imageJobId i) t io w) \<and>
    (\<exists>b. findUnique jb_id (imageJobId i) (mediaJobs (runMediaJob env (imageJobId i) t io w)) = Some (afterAttempt mediaJobOptions b t j))"
proof -
  have due: "dueJob (imageJobId i) t (mediaJobs w) = Some j" using j by (simp add: dueJob_Some)
  have mem: "j \<in> set (mediaJobs w)" "jb_id j = imageJobId i" using findUnique_Some [OF j(1)] by simp_all
  obtain a where a: "a \<in> set (mediaAssets w)" "jobMatches a (jb_data j)" "ma_id a = i"
    using mediaInv_job [OF inv mem(1)] mem(2) imageJobId_inj by metis
  have same: "c = a" if "c \<in> set (mediaAssets w)" "jobMatches c (jb_data j)" for c
    using that a mediaInv_same [OF inv that(1) a(1)] by (simp add: jobMatches_def)
  from inv show ?thesis
  proof (cases rule: runMediaJob_cases [where env = env and i = "imageJobId i" and now = t and io = io])
    case idle
    then show ?thesis using due by simp
  next
    case (again k c)
    then show ?thesis using due same a j mem by (auto simp: settled_def find_attempted)
  next
    case (ran k c f b)
    then have c: "k = j" "c = a" using due same [of c] by auto
    have "f a \<in> set (mediaAssets (runMediaJob env (imageJobId i) t io w))" using a(1) c by (auto simp: ran(6) set_updateMany)
    moreover have "ma_id (f a) = i" using ran(10) [of a] a(3) by simp
    moreover have "ma_status (f a) = READY \<or> ma_status (f a) = FAILED" using ran(12) c by simp
    ultimately show ?thesis using j mem unfolding settled_def ran(7) find_attempted by auto
  qed
qed

lemma uploading_no_job:
  assumes "mediaInv w" and "a \<in> set (mediaAssets w)" and "ma_id a = i" and "ma_status a = UPLOADING"
  shows "imageJobId i \<notin> jb_id ` set (mediaJobs w)"
proof
  assume "imageJobId i \<in> jb_id ` set (mediaJobs w)"
  then obtain j where "j \<in> set (mediaJobs w)" "jb_id j = imageJobId i" by auto
  then obtain c where "c \<in> set (mediaAssets w)" "ma_status c \<noteq> UPLOADING" "ma_id c = i"
    using mediaInv_job [OF assms(1)] imageJobId_inj by metis
  then show False using mediaInv_same [OF assms(1), of c a] assms(2-4) by auto
qed

text \<open>Attempts in a row, and that each happens when the job is due again.\<close>

fun attempts :: "media_env \<Rightarrow> string \<Rightarrow> (time \<times> attempt) list \<Rightarrow> 'a media_db_scheme \<Rightarrow> 'a media_db_scheme" where
  "attempts env k [] w = w"
| "attempts env k ((t, io) # xs) w = attempts env k xs (runMediaJob env k t io w)"

fun inTime :: "nat \<Rightarrow> time \<Rightarrow> (time \<times> attempt) list \<Rightarrow> bool" where
  "inTime n due [] = True"
| "inTime n due ((t, io) # xs) = (due \<le> t \<and> inTime (n + 1) (t + 2000 * 2 ^ n) xs)"

lemma ended_job_idle:
  "findUnique jb_id k (mediaJobs w) = Some j \<Longrightarrow> jb_state j \<noteq> J_DELAYED \<Longrightarrow> attempts env k xs w = w"
proof (induction xs)
  case (Cons x xs)
  then have "runMediaJob env k (fst x) (snd x) w = w" by (simp add: runMediaJob_def dueJob_def)
  then show ?case using Cons by (cases x) simp
qed simp

lemma attempts_settle:
  assumes "mediaInv w" and "findUnique jb_id (imageJobId i) (mediaJobs w) = Some j" and "jb_state j = J_DELAYED"
    and "jb_attempts j + length xs = 3" and "jb_attempts j < 3" and "inTime (jb_attempts j) (jb_runAt j) xs"
  shows "settled i (attempts env (imageJobId i) xs w) \<and>
    (\<exists>j. findUnique jb_id (imageJobId i) (mediaJobs (attempts env (imageJobId i) xs w)) = Some j \<and> jb_state j \<noteq> J_DELAYED)"
  using assms
proof (induction xs arbitrary: w j)
  case (Cons x xs)
  obtain t io where x: "x = (t, io)" by (cases x)
  let ?w = "runMediaJob env (imageJobId i) t io w"
  have "jb_runAt j \<le> t" using Cons.prems(6) x by simp
  from attempt_settles [OF Cons.prems(1-3) this, of env io] obtain b where
    s: "settled i ?w" "findUnique jb_id (imageJobId i) (mediaJobs ?w) = Some (afterAttempt mediaJobOptions b t j)" by blast
  show ?case
  proof (cases "jb_state (afterAttempt mediaJobOptions b t j) = J_DELAYED")
    case False
    then show ?thesis using ended_job_idle [OF s(2) False, of env xs] s by (simp add: x)
  next
    case True
    note more = afterAttempt_ends [OF True Cons.prems(3)]
    show ?thesis unfolding x attempts.simps
      by (rule Cons.IH [OF mediaInv_run [OF Cons.prems(1)] s(2) True])
        (use more Cons.prems(4-6) x in \<open>auto simp: mediaJobOptions_def\<close>)
  qed
qed simp

text \<open>
  C22: every upload that is finalized comes to an end: after three attempts, each at a time at
  which the job is due and whatever their calls of the object store and the image library
  return, the asset is ready or has failed, and the job is not waiting any more.
\<close>

theorem upload_settles:
  assumes "mediaInv w" and "findAsset i w = Some a" and "ma_status a = UPLOADING"
    and "finalizeUpload env True u i now w = (Inr d, w1)"
    and "now \<le> t1" and "t1 + 2000 \<le> t2" and "t2 + 4000 \<le> t3"
    and "v = runMediaJob env (imageJobId i) t3 io3 (runMediaJob env (imageJobId i) t2 io2 (runMediaJob env (imageJobId i) t1 io1 w1))"
  shows "(\<exists>b \<in> set (mediaAssets v). ma_id b = i \<and> (ma_status b = READY \<or> ma_status b = FAILED)) \<and>
    (\<exists>j. findUnique jb_id (imageJobId i) (mediaJobs v) = Some j \<and> jb_state j \<noteq> J_DELAYED)"
proof -
  let ?k = "imageJobId i"
  have inv: "mediaInv w1" using mediaInv_finalize [OF assms(1), of env True u i now] assms(4) by simp
  have nojob: "?k \<notin> jb_id ` set (mediaJobs w)"
    using uploading_no_job [OF assms(1)] findAsset_Some [OF assms(2)] assms(3) by blast
  have row: "i \<in> ma_id ` set (mediaAssets w)" by (rule findAsset_row [OF assms(2)])
  obtain dd where jobs: "mediaJobs w1 = addJob ?k dd now (mediaJobs w)"
    using assms(2-4) row findAsset_Some [OF assms(2)]
    by (auto simp: finalizeUpload_def updateAsset_cases enqueueImage_def outcome split: if_splits option.splits)
  note found = find_addJob_fresh [OF nojob, of dd now, folded jobs]
  have "inTime 0 now [(t1, io1), (t2, io2), (t3, io3)]" using assms(5-7) by simp
  then show ?thesis using attempts_settle [OF inv found, of "[(t1, io1), (t2, io2), (t3, io3)]" env] assms(8)
    by (simp add: settled_def)
qed

section \<open>A finalization that does not reach the queue\<close>

definition unqueued :: "uid \<Rightarrow> 'a media_db_scheme \<Rightarrow> bool" where
  "unqueued i w \<longleftrightarrow> (\<exists>a \<in> set (mediaAssets w). ma_id a = i \<and> ma_status a = PROCESSING) \<and>
     imageJobId i \<notin> jb_id ` set (mediaJobs w)"

lemma unqueued_write:
  assumes u: "unqueued i w" and rows: "mediaAssets v = updateMany (\<lambda>a. ma_id a = k) f (mediaAssets w)"
    and f: "\<And>a. ma_id (f a) = ma_id a" "k = i \<Longrightarrow> (\<And>a. ma_status (f a) = ma_status a)"
    and jobs: "imageJobId i \<notin> jb_id ` set (mediaJobs v)"
  shows "unqueued i v"
proof -
  obtain a where "a \<in> set (mediaAssets w)" "ma_id a = i" "ma_status a = PROCESSING" using u by (auto simp: unqueued_def)
  then have "\<exists>a \<in> set (mediaAssets v). ma_id a = i \<and> ma_status a = PROCESSING"
    using f unfolding rows set_updateMany by (intro bexI [of _ "if ma_id a = k then f a else a"]) auto
  then show ?thesis using jobs by (simp add: unqueued_def)
qed

lemma unqueued_step:
  assumes inv: "mediaInv w" and u: "unqueued i w" shows "unqueued i (mediaStep env x w)"
proof (cases x)
  case (InitiateUpload o' dto now)
  obtain r v where run: "initiateUpload env o' dto now w = (r, v)" by (cases "initiateUpload env o' dto now w")
  then show ?thesis using initiate_effect [OF run] InitiateUpload u by (auto simp: unqueued_def takeUuid_def)
next
  case (ClientPut k c now)
  then show ?thesis using clientPut_effect [of env k c now w] u by (auto simp: unqueued_def)
next
  case (FinalizeUpload up o' k now)
  obtain r v where run: "finalizeUpload env up o' k now w = (r, v)" by (cases "finalizeUpload env up o' k now w")
  from inv run show ?thesis
  proof (cases rule: finalize_effect)
    case (queued a d)
    have "k \<noteq> i"
    proof
      assume "k = i"
      moreover obtain c where "c \<in> set (mediaAssets w)" "ma_id c = i" "ma_status c = PROCESSING" using u by (auto simp: unqueued_def)
      ultimately show False using mediaInv_same [OF inv, of c a] queued(1-3) by simp
    qed
    then have "imageJobId i \<notin> jb_id ` set (mediaJobs v)"
      using queued u by (auto simp: unqueued_def imageJobId_inj dest: set_addJob split: if_splits)
    then have "unqueued i v"
      using queued \<open>k \<noteq> i\<close> by (intro unqueued_write [OF u, where k = k and f = "\<lambda>x. x\<lparr>ma_status := PROCESSING\<rparr>"]) auto
    then show ?thesis using run FinalizeUpload by simp
  qed (use run FinalizeUpload u in simp)
next
  case (RunMediaJob k now io)
  have ids: "jb_id ` set (attempted mediaJobOptions k b now (mediaJobs w)) = jb_id ` set (mediaJobs w)" for b
    by (metis attempted_ids list.set_map)
  from inv have "unqueued i (runMediaJob env k now io w)"
  proof (cases rule: runMediaJob_cases [where env = env and i = k and now = now and io = io])
    case (ran j a f c)
    have j: "j \<in> set (mediaJobs w)" using ran(1) by (auto simp: dueJob_Some dest: findUnique_Some)
    then have "jb_id j = imageJobId (ma_id a)" using inv ran(3) by (auto simp: mediaInv_def list_all_iff jobMatches_def)
    then have "ma_id a \<noteq> i" using j u unfolding unqueued_def by (metis imageI)
    then show ?thesis using ids u ran(7,10) by (intro unqueued_write [OF u ran(6)]) (auto simp: unqueued_def)
  next
    case (again j a)
    then show ?thesis using u ids by (simp add: unqueued_def)
  qed (use u in simp)
  then show ?thesis using RunMediaJob by simp
next
  case (SoftDelete o' k now)
  have "unqueued i (w\<lparr>mediaAssets := updateMany (\<lambda>a. ma_id a = k) (\<lambda>a. a\<lparr>ma_deletedAt := Some now\<rparr>) (mediaAssets w)\<rparr>)"
    using u by (intro unqueued_write [OF u, where k = k and f = "\<lambda>a. a\<lparr>ma_deletedAt := Some now\<rparr>"]) (auto simp: unqueued_def)
  then show ?thesis using softDelete_effect [of o' k now w] SoftDelete u by auto
qed

lemma unqueued_run:
  "mediaInv w \<and> unqueued i w \<Longrightarrow> mediaInv (fold (mediaStep env) ops w) \<and> unqueued i (fold (mediaStep env) ops w)"
  by (induction ops arbitrary: w) (auto simp: media.step_inv unqueued_step)

text \<open>
  C36: a finalization marks the asset as processing before it adds the job. When the queue cannot
  be reached the call fails, and the asset then stays in processing through any history: no
  later finalization adds a job for it, so no worker ever sees it.
\<close>

theorem finalize_without_queue_sticks:
  assumes "mediaInv w" and "findAsset i w = Some a" and "ma_ownerId a = u" and "ma_status a = UPLOADING"
    and "v = fold (mediaStep env) ops (snd (finalizeUpload env False u i now w))"
  shows "fst (finalizeUpload env False u i now w) = Inl (PlainError ''queue_unavailable'') \<and>
    (\<exists>b \<in> set (mediaAssets v). ma_id b = i \<and> ma_status b = PROCESSING) \<and> imageJobId i \<notin> jb_id ` set (mediaJobs v)"
proof -
  let ?r = "finalizeUpload env False u i now w"
  have row: "a \<in> set (mediaAssets w)" "ma_id a = i" "i \<in> ma_id ` set (mediaAssets w)"
    using findAsset_Some [OF assms(2)] findAsset_row [OF assms(2)] by simp_all
  obtain k where k: "ma_originalKey a = Some k"
    using mediaInv_asset [OF assms(1) row(1)] assms(4) by (auto simp: assetOk_def)
  have run: "?r = (Inl (PlainError ''queue_unavailable''),
      w\<lparr>mediaAssets := updateMany (\<lambda>a. ma_id a = i) (\<lambda>a. a\<lparr>ma_status := PROCESSING\<rparr>) (mediaAssets w)\<rparr>)"
    using assms(2-4) row k by (simp add: finalizeUpload_def updateAsset_cases enqueueImage_def raise_def)
  have "imageJobId i \<notin> jb_id ` set (mediaJobs w)" by (rule uploading_no_job [OF assms(1) row(1,2) assms(4)])
  then have "unqueued i (snd ?r)" using row unfolding run unqueued_def
    by (auto simp: set_updateMany intro!: bexI [of _ "a\<lparr>ma_status := PROCESSING\<rparr>"] image_eqI [of _ _ a])
  moreover have "mediaInv (snd ?r)" by (rule mediaInv_finalize [OF assms(1)])
  ultimately have "unqueued i v" using unqueued_run [of "snd ?r" i env ops] assms(5) by simp
  then show ?thesis using run by (simp add: unqueued_def)
qed

section \<open>A sample\<close>

definition sampleMedia :: media_db where
  "sampleMedia = core_db.extend sampleCore \<lparr>mediaAssets = [], objects = (\<lambda>_. None), mediaJobs = []\<rparr>"

text \<open>The image library refuses \<open>bad\<close> and marks what it makes.\<close>

definition sampleMediaEnv :: media_env where
  "sampleMediaEnv = \<lparr>mv_defaultBucket = ''motogram-media'', mv_presignPut = (\<lambda>b k s. Inr k), mv_presignGet = (\<lambda>b k s. Inr k),
     mv_metadata = (\<lambda>b. if b = ''bad'' then Inl ''unsupported'' else Inr (Some 4, Some 3)),
     mv_coverWebp = (\<lambda>x y q b. Inr (''t-'' @ b)), mv_widthWebp = (\<lambda>x q b. Inr (''m-'' @ b))\<rparr>"

definition sampleIo :: attempt where
  "sampleIo = \<lparr>at_get = None, at_putThumbnail = None, at_putMedium = None, at_mediumFirst = False, at_remove = None\<rparr>"

definition sampleUpload :: "mediaCategory \<Rightarrow> initiateDto" where
  "sampleUpload c = \<lparr>in_category = c, in_parentType = None, in_parentId = None, in_filename = ''f'',
     in_mimeType = ''image/png'', in_sizeBytes = 3\<rparr>"

text \<open>An upload of \<open>a\<close> up to the point where it can be finalized; its identifier is the empty string.\<close>

definition sampleUploading :: media_db where
  "sampleUploading = fold (mediaStep sampleMediaEnv) [InitiateUpload ''a'' (sampleUpload POST_IMAGE) 1, ClientPut [] ''raw'' 2] sampleMedia"

definition sampleReady :: media_db where
  "sampleReady = fold (mediaStep sampleMediaEnv) [FinalizeUpload True ''a'' [] 3, RunMediaJob (imageJobId []) 4 sampleIo] sampleUploading"

lemma sampleMedia_inv: "mediaInv sampleMedia"
  by (simp add: mediaInv_def sampleMedia_def core_db.defs sampleCore_def keyFree_def list_all_iff)

lemma sampleUploading_inv: "mediaInv sampleUploading"
  unfolding sampleUploading_def by (rule media.run_inv [OF sampleMedia_inv])


lemma sampleReady_asset: "\<exists>a. a \<in> set (mediaAssets sampleReady) \<and> ma_status a = READY \<and> ma_id a = []"
proof -
  have "map (\<lambda>a. (ma_status a, ma_id a)) (mediaAssets sampleReady) = [(READY, [])]" by code_simp
  from map_singleton [OF this] show ?thesis by auto
qed

theorem ready_has_images_witness:
  "\<exists>a t m. a \<in> set (mediaAssets sampleReady) \<and> ma_thumbnailKey a = Some t \<and> ma_mediumKey a = Some m \<and>
     objects sampleReady (ma_bucket a, t) \<noteq> None \<and> objects sampleReady (ma_bucket a, m) \<noteq> None"
proof -
  obtain a where a: "a \<in> set (mediaAssets sampleReady)" "ma_status a = READY" using sampleReady_asset by blast
  from ready_has_images [OF sampleUploading_inv sampleReady_def a(1)] a show ?thesis by blast
qed


lemma sampleFinalize: "\<exists>d w1. finalizeUpload sampleMediaEnv True ''a'' [] 3 sampleUploading = (Inr d, w1)"
proof -
  have "case fst (finalizeUpload sampleMediaEnv True ''a'' [] 3 sampleUploading) of Inl e \<Rightarrow> False | Inr d \<Rightarrow> True" by code_simp
  from ran_ok [OF this] show ?thesis by blast
qed

theorem finalize_once_witness:
  "\<exists>d w1. finalizeUpload sampleMediaEnv True ''a'' [] 3 sampleUploading = (Inr d, w1) \<and>
     snd (finalizeUpload sampleMediaEnv True ''a'' [] 9 (fold (mediaStep sampleMediaEnv) [RunMediaJob (imageJobId []) 4 sampleIo] w1)) =
       fold (mediaStep sampleMediaEnv) [RunMediaJob (imageJobId []) 4 sampleIo] w1"
  using sampleFinalize finalize_once [OF sampleUploading_inv _ refl] by blast

theorem upload_settles_witness:
  "\<exists>d w1. finalizeUpload sampleMediaEnv True ''a'' [] 3 sampleUploading = (Inr d, w1) \<and>
     (\<exists>b. b \<in> set (mediaAssets (runMediaJob sampleMediaEnv (imageJobId []) 9000 sampleIo
        (runMediaJob sampleMediaEnv (imageJobId []) 5000 sampleIo
          (runMediaJob sampleMediaEnv (imageJobId []) 4 (sampleIo\<lparr>at_get := Some ''down''\<rparr>) w1)))) \<and>
        (ma_status b = READY \<or> ma_status b = FAILED))"
proof -
  obtain d w1 where run: "finalizeUpload sampleMediaEnv True ''a'' [] 3 sampleUploading = (Inr d, w1)" using sampleFinalize by blast
  have "map_option ma_status (findAsset [] sampleUploading) = Some UPLOADING" by code_simp
  then obtain a where a: "findAsset [] sampleUploading = Some a" "ma_status a = UPLOADING" by auto
  from upload_settles [OF sampleUploading_inv a run, of 4 5000 9000] run show ?thesis by fastforce
qed

theorem finalize_without_queue_sticks_witness:
  "\<exists>b. b \<in> set (mediaAssets (fold (mediaStep sampleMediaEnv) [FinalizeUpload True ''a'' [] 8, RunMediaJob (imageJobId []) 9 sampleIo]
      (snd (finalizeUpload sampleMediaEnv False ''a'' [] 3 sampleUploading)))) \<and> ma_status b = PROCESSING"
proof -
  have "map_option (\<lambda>a. (ma_ownerId a, ma_status a)) (findAsset [] sampleUploading) = Some (''a'', UPLOADING)" by code_simp
  then obtain a where a: "findAsset [] sampleUploading = Some a" "ma_ownerId a = ''a''" "ma_status a = UPLOADING" by auto
  from finalize_without_queue_sticks [OF sampleUploading_inv a refl] show ?thesis by blast
qed

section \<open>What the model shows\<close>

text \<open>
  The row takes the bucket of the schema's default, the upload link the configured one: with any
  other configured bucket the worker looks for every upload in the wrong place.
\<close>

lemma other_bucket_fails:
  "(let env = sampleMediaEnv\<lparr>mv_defaultBucket := ''media-eu''\<rparr>;
        w = fold (mediaStep env) [InitiateUpload ''a'' (sampleUpload POST_IMAGE) 1, ClientPut [] ''raw'' 2,
          FinalizeUpload True ''a'' [] 3, RunMediaJob (imageJobId []) 4 sampleIo] sampleMedia
    in objects w (''media-eu'', ''tmp/.png'') = Some ''raw'' \<and> map ma_status (mediaAssets w) = [FAILED])"
  by code_simp

text \<open>
  A cover has one key for both images, and the two uploads run concurrently: when the medium
  image lands first, the thumbnail overwrites it.
\<close>

lemma cover_shows_thumbnail:
  "(let w = fold (mediaStep sampleMediaEnv) [InitiateUpload ''a'' (sampleUpload PROFILE_COVER) 1, ClientPut [] ''raw'' 2,
          FinalizeUpload True ''a'' [] 3, RunMediaJob (imageJobId []) 4 (sampleIo\<lparr>at_mediumFirst := True\<rparr>)] sampleMedia
    in map (\<lambda>a. Option.bind (ma_mediumKey a) (\<lambda>k. objects w (ma_bucket a, k))) (mediaAssets w) = [Some ''t-raw''])"
  by code_simp

end
