(* ===== verification/Stories.thy ===== *)
theory Stories
  imports Core_Db
begin

text \<open>
  \<open>stories/stories.service.ts\<close>: stories that live for 24 hours, the feed of the stories of those a
  user follows, and the views, counted in \<open>viewsCount\<close>. Stickers are kept as the JSON they are
  (\<open>(string \<times> detail) list\<close>).
\<close>

section \<open>State\<close>

datatype storyMediaType = IMAGE | VIDEO

record story =
  sy_id :: uid
  sy_userId :: uid
  sy_mediaUrl :: string
  sy_mediaType :: storyMediaType
  sy_caption :: "string option"
  sy_locationSticker :: "(string \<times> detail) list option"
  sy_garageSticker :: "(string \<times> detail) list option"
  sy_viewsCount :: int
  sy_createdAt :: time
  sy_expiresAt :: time

record storyView =
  sv_id :: uid
  sv_storyId :: uid
  sv_viewerId :: uid
  sv_viewedAt :: time

abbreviation viewKey :: "storyView \<Rightarrow> uid \<times> uid" where
  "viewKey v \<equiv> (sv_storyId v, sv_viewerId v)"

record story_db = core_db +
  stories :: "story list"
  storyViews :: "storyView list"

definition STORY_TTL_HOURS :: int where "STORY_TTL_HOURS = 24"

section \<open>Operations\<close>

record createStoryDto =
  cs_mediaUrl :: string
  cs_mediaType :: storyMediaType
  cs_caption :: "string option"
  cs_locationSticker :: "(string \<times> detail) list option"
  cs_garageSticker :: "(string \<times> detail) list option"

definition createStory :: "uid \<Rightarrow> createStoryDto \<Rightarrow> time \<Rightarrow> 'a story_db_scheme \<Rightarrow> (story, 'a story_db_scheme) outcome" where
  "createStory userId dto now w =
     (let i = newUuid w;
          w1 = takeUuid w;
          story = \<lparr>sy_id = i, sy_userId = userId, sy_mediaUrl = cs_mediaUrl dto, sy_mediaType = cs_mediaType dto,
            sy_caption = cs_caption dto, sy_locationSticker = cs_locationSticker dto, sy_garageSticker = cs_garageSticker dto,
            sy_viewsCount = 0, sy_createdAt = now, sy_expiresAt = now + STORY_TTL_HOURS * 60 * 60 * 1000\<rparr>
      in if \<not> userExists userId w then raise ForeignKeyViolation w1
         else and_then (write_or UniqueViolation (createRow sy_id story (stories w1)) (\<lambda>t. w1\<lparr>stories := t\<rparr>) w1) (\<lambda>_ w2.
           ret story (emitEvent (GamificationTrigger userId STORY_CREATED 1 [(''storyId'', i)]) w2)))"

record storyAuthor =
  sa_id :: uid
  sa_username :: string
  sa_avatarUrl :: "string option"

text \<open>\<open>include: { user: { select: { id, username, avatarUrl } } }\<close>\<close>

definition storyUser :: "uid \<Rightarrow> 'a core_db_scheme \<Rightarrow> storyAuthor option" where
  "storyUser i w = map_option (\<lambda>u. \<lparr>sa_id = u_id u, sa_username = u_username u, sa_avatarUrl = u_avatarUrl u\<rparr>) (findUser i w)"

definition activeForFollowing :: "uid \<Rightarrow> time \<Rightarrow> 'a story_db_scheme \<Rightarrow> (story \<times> storyAuthor option) list" where
  "activeForFollowing userId now w =
     (let authorIds = userId # map fo_followingId (filter (\<lambda>f. fo_followerId f = userId \<and> fo_status f = F_ACCEPTED) (follows w))
      in map (\<lambda>s. (s, storyUser (sy_userId s) w))
           (sort_key (\<lambda>s. - sy_createdAt s) (filter (\<lambda>s. sy_userId s \<in> set authorIds \<and> now < sy_expiresAt s) (stories w))))"

definition updateStory :: "uid \<Rightarrow> (story \<Rightarrow> story) \<Rightarrow> 'a story_db_scheme \<Rightarrow> (unit, 'a story_db_scheme) outcome" where
  "updateStory i f w = write_or RecordNotFound (updateRow sy_id i f (stories w)) (\<lambda>t. w\<lparr>stories := t\<rparr>) w"

definition recordView :: "uid \<Rightarrow> uid \<Rightarrow> time \<Rightarrow> 'a story_db_scheme \<Rightarrow> (unit, 'a story_db_scheme) outcome" where
  "recordView storyId viewerId now w =
     (case find (\<lambda>s. sy_id s = storyId \<and> now < sy_expiresAt s) (stories w) of
        None \<Rightarrow> ret () w
      | Some story \<Rightarrow>
          if sy_userId story = viewerId then ret () w
          else transaction (\<lambda>tx.
            case findUnique viewKey (storyId, viewerId) (storyViews tx) of
              Some _ \<Rightarrow> ret () tx
            | None \<Rightarrow>
                let v = \<lparr>sv_id = newUuid tx, sv_storyId = storyId, sv_viewerId = viewerId, sv_viewedAt = now\<rparr>;
                    tx1 = takeUuid tx
                in if storyId \<notin> sy_id ` set (stories tx1) then raise ForeignKeyViolation tx1
                   else and_then (write_or UniqueViolation (createRow viewKey v (storyViews tx1)) (\<lambda>t. tx1\<lparr>storyViews := t\<rparr>) tx1)
                     (\<lambda>_ tx2. updateStory storyId (\<lambda>s. s\<lparr>sy_viewsCount := sy_viewsCount s + 1\<rparr>) tx2)) w)"

section \<open>Histories\<close>

text \<open>The story operations, among the follows and blocks of the social graph, which leave the stories alone.\<close>

datatype storyOp = CreateStory uid createStoryDto time | RecordView uid uid time

fun storyStep :: "storyOp \<Rightarrow> 'a story_db_scheme \<Rightarrow> 'a story_db_scheme" where
  "storyStep (CreateStory u dto now) w = snd (createStory u dto now w)"
| "storyStep (RecordView s v now) w = snd (recordView s v now w)"

definition storyWf :: "'a story_db_scheme \<Rightarrow> bool" where
  "storyWf w \<longleftrightarrow> unique sy_id (stories w) \<and> unique viewKey (storyViews w) \<and>
     sv_storyId ` set (storyViews w) \<subseteq> sy_id ` set (stories w) \<and>
     (\<forall>v \<in> set (storyViews w). \<forall>s \<in> set (stories w). sy_id s = sv_storyId v \<longrightarrow> sv_viewerId v \<noteq> sy_userId s \<and> sv_viewedAt v < sy_expiresAt s) \<and>
     (\<forall>s \<in> set (stories w). sy_expiresAt s = sy_createdAt s + 24 * 60 * 60 * 1000)"

definition viewsColumn :: "'a story_db_scheme \<Rightarrow> uid \<Rightarrow> int option" where
  "viewsColumn w i = map_option sy_viewsCount (findUnique sy_id i (stories w))"

definition viewsOf :: "'a story_db_scheme \<Rightarrow> uid \<Rightarrow> nat" where
  "viewsOf w i = countRows (\<lambda>v. sv_storyId v = i) (storyViews w)"

lemma createStory_writes:
  "(stories (snd (createStory u dto now w)) = stories w \<or>
    (\<exists>s. stories (snd (createStory u dto now w)) = stories w @ [s] \<and> sy_id s \<notin> sy_id ` set (stories w) \<and>
       sy_viewsCount s = 0 \<and> sy_userId s = u \<and> sy_expiresAt s = sy_createdAt s + 24 * 60 * 60 * 1000)) \<and>
   storyViews (snd (createStory u dto now w)) = storyViews w"
  by (auto simp: createStory_def Let_def createRow_def takeUuid_def emitEvent_def STORY_TTL_HOURS_def outcome)

lemma recordView_writes:
  "snd (recordView s v now w) = w \<or>
   (\<exists>r st. snd (recordView s v now w) = (takeUuid w)\<lparr>storyViews := storyViews w @ [r],
       stories := updateMany (\<lambda>x. sy_id x = s) (\<lambda>x. x\<lparr>sy_viewsCount := sy_viewsCount x + 1\<rparr>) (stories w)\<rparr> \<and>
     viewKey r = (s, v) \<and> (s, v) \<notin> viewKey ` set (storyViews w) \<and> sv_viewedAt r = now \<and>
     st \<in> set (stories w) \<and> sy_id st = s \<and> sy_userId st \<noteq> v \<and> now < sy_expiresAt st)"
proof (cases "find (\<lambda>x. sy_id x = s \<and> now < sy_expiresAt x) (stories w)")
  case None
  then show ?thesis by (simp add: recordView_def)
next
  case (Some st)
  note st = find_row [OF Some]
  show ?thesis
  proof (cases "sy_userId st = v \<or> findUnique viewKey (s, v) (storyViews w) \<noteq> None")
    case True
    then show ?thesis using Some by (auto simp: recordView_def transaction_def ret_def split: option.split)
  next
    case False
    then have "(s, v) \<notin> viewKey ` set (storyViews w)" by (simp add: findUnique_None)
    moreover have "s \<in> sy_id ` set (stories w)" using st by blast
    ultimately show ?thesis using Some False st
      by (auto simp: recordView_def transaction_def updateStory_def takeUuid_def tables outcome)
  qed
qed

section \<open>Views are counted once per viewer\<close>

lemma storyWf_step: assumes "storyWf w" shows "storyWf (storyStep x w)"
proof (cases x)
  case (CreateStory u dto now)
  have "\<forall>v \<in> set (storyViews w). sv_storyId v \<in> sy_id ` set (stories w)" using assms unfolding storyWf_def by blast
  then show ?thesis using CreateStory createStory_writes [of u dto now w] assms
    unfolding storyWf_def by (elim conjE disjE exE) (simp_all, blast)
next
  case (RecordView s v now)
  show ?thesis using recordView_writes [of s v now w]
  proof (elim disjE exE conjE)
    assume "snd (recordView s v now w) = w"
    then show ?thesis using RecordView assms by simp
  next
    fix r st
    let ?t = "updateMany (\<lambda>x. sy_id x = s) (\<lambda>x. x\<lparr>sy_viewsCount := sy_viewsCount x + 1\<rparr>) (stories w)"
    assume w': "snd (recordView s v now w) = (takeUuid w)\<lparr>storyViews := storyViews w @ [r], stories := ?t\<rparr>"
      and r: "viewKey r = (s, v)" "(s, v) \<notin> viewKey ` set (storyViews w)" "sv_viewedAt r = now"
      and st: "st \<in> set (stories w)" "sy_id st = s" "sy_userId st \<noteq> v" "now < sy_expiresAt st"
    have one: "b = st" if "b \<in> set (stories w)" "sy_id b = s" for b
      using unique_row [of sy_id "stories w" b st] that st assms by (simp add: storyWf_def)
    have ids: "sy_id ` set ?t = sy_id ` set (stories w)" by (rule keys_updateMany) simp
    have row: "\<exists>b \<in> set (stories w). sy_id b = sy_id a \<and> sy_userId b = sy_userId a \<and> sy_expiresAt b = sy_expiresAt a \<and> sy_createdAt b = sy_createdAt a"
      if "a \<in> set ?t" for a
      using that by (auto simp: set_updateMany)
    show ?thesis unfolding RecordView storyStep.simps w' storyWf_def
    proof (intro conjI, goal_cases)
      case 1 then show ?case using assms by (simp add: storyWf_def unique_updateMany)
    next
      case 2 then show ?case using assms r by (simp add: storyWf_def)
    next
      case 3 then show ?case using assms r st ids by (auto simp: storyWf_def)
    next
      case 4
      show ?case
      proof (intro ballI impI)
        fix a b
        assume a: "a \<in> set (storyViews ((takeUuid w)\<lparr>storyViews := storyViews w @ [r], stories := ?t\<rparr>))"
          and b: "b \<in> set (stories ((takeUuid w)\<lparr>storyViews := storyViews w @ [r], stories := ?t\<rparr>))" "sy_id b = sv_storyId a"
        then obtain c where c: "c \<in> set (stories w)" "sy_id c = sy_id b" "sy_userId c = sy_userId b" "sy_expiresAt c = sy_expiresAt b"
          using row by fastforce
        show "sv_viewerId a \<noteq> sy_userId b \<and> sv_viewedAt a < sy_expiresAt b"
        proof (cases "a = r")
          case True
          then show ?thesis using one [OF c(1)] b(2) c r st by auto
        next
          case False
          then have "a \<in> set (storyViews w)" using a by simp
          then show ?thesis using assms c b(2) unfolding storyWf_def by (metis (no_types))
        qed
      qed
    next
      case 5 then show ?case using assms row unfolding storyWf_def by fastforce
    qed
  qed
qed

lemma views_moves:
  assumes "storyWf w"
  shows "moves_together (viewsColumn w k) (viewsOf w k) (viewsColumn (storyStep x w) k) (viewsOf (storyStep x w) k)"
proof (cases x)
  case (CreateStory u dto now)
  have "findUnique sy_id k (stories w) = None \<Longrightarrow> countRows (\<lambda>v. sv_storyId v = k) (storyViews w) = 0"
    using assms by (auto simp: findUnique_None countRows_0 storyWf_def)
  then show ?thesis using CreateStory createStory_writes [of u dto now w]
    by (auto simp: viewsColumn_def viewsOf_def findUnique_append split: option.split)
next
  case (RecordView s v now)
  then show ?thesis using recordView_writes [of s v now w]
    by (cases "findUnique sy_id k (stories w)")
      (auto simp: viewsColumn_def viewsOf_def findUnique_updateMany takeUuid_def dest: findUnique_Some)
qed

interpretation story_views: counter_cache viewsColumn viewsOf storyWf storyStep
  by unfold_locales (rule storyWf_step views_moves, assumption)+

text \<open>
  C37: After any history of stories and views, the number of views of a story is the number of
  its distinct viewers, its author is none of them, and each saw it within the 24 hours of its
  life; repeated views, views by the author and late views count for nothing.
\<close>

theorem views_exact:
  assumes "story_views.consistent w0" and "w = fold storyStep ops w0" and "s \<in> set (stories w)"
  shows "sy_viewsCount s = int (card {sv_viewerId v | v. v \<in> set (storyViews w) \<and> sv_storyId v = sy_id s}) \<and>
    sy_userId s \<notin> {sv_viewerId v | v. v \<in> set (storyViews w) \<and> sv_storyId v = sy_id s} \<and>
    {v \<in> set (storyViews w). sv_storyId v = sy_id s \<and> sv_viewedAt v \<ge> sy_createdAt s + 24 * 60 * 60 * 1000} = {}"
proof -
  have con: "story_views.consistent w" unfolding assms(2) by (rule story_views.cache.run_inv [OF assms(1)])
  then have wf: "storyWf w" by (simp add: story_views.consistent_def)
  have "findUnique sy_id (sy_id s) (stories w) = Some s" using wf assms(3) by (simp add: storyWf_def findUnique_iff)
  then have "sy_viewsCount s = int (viewsOf w (sy_id s))"
    using con by (simp add: story_views.consistent_def viewsColumn_def)
  moreover have "viewsOf w (sy_id s) = card {sv_viewerId v | v. v \<in> set (storyViews w) \<and> sv_storyId v = sy_id s}"
  proof -
    let ?l = "filter (\<lambda>v. sv_storyId v = sy_id s) (storyViews w)"
    have "inj_on viewKey (set ?l)" "distinct ?l" using wf by (auto simp: storyWf_def distinct_map inj_on_def)
    then have "inj_on sv_viewerId (set ?l)" by (auto simp: inj_on_def)
    then have "card (sv_viewerId ` set ?l) = length ?l" using distinct_card [OF \<open>distinct ?l\<close>] by (simp only: card_image)
    moreover have "sv_viewerId ` set ?l = {sv_viewerId v | v. v \<in> set (storyViews w) \<and> sv_storyId v = sy_id s}" by auto
    ultimately show ?thesis by (simp add: viewsOf_def countRows_def)
  qed
  ultimately show ?thesis using wf assms(3) unfolding storyWf_def by fastforce
qed

section \<open>A sample\<close>

definition sampleStories :: story_db where
  "sampleStories = core_db.extend sampleCore
     \<lparr>stories = [\<lparr>sy_id = ''s'', sy_userId = ''a'', sy_mediaUrl = ''m'', sy_mediaType = IMAGE, sy_caption = None,
        sy_locationSticker = None, sy_garageSticker = None, sy_viewsCount = 0, sy_createdAt = 0, sy_expiresAt = 86400000\<rparr>],
      storyViews = []\<rparr>"

lemma sampleStories_consistent: "story_views.consistent sampleStories"
  by (simp add: story_views.consistent_def storyWf_def viewsColumn_def viewsOf_def sampleStories_def findUnique_def core_db.defs)

theorem views_exact_witness:
  "\<exists>s. s \<in> set (stories (fold storyStep [RecordView ''s'' ''b'' 5, RecordView ''s'' ''a'' 6, RecordView ''s'' ''b'' 7,
       RecordView ''s'' ''c'' 86400001] sampleStories)) \<and> sy_id s = ''s'' \<and> sy_viewsCount s = 1 \<and>
     card {sv_viewerId v | v. v \<in> set (storyViews (fold storyStep [RecordView ''s'' ''b'' 5, RecordView ''s'' ''a'' 6,
       RecordView ''s'' ''b'' 7, RecordView ''s'' ''c'' 86400001] sampleStories)) \<and> sv_storyId v = sy_id s} = 1"
proof -
  have "map (\<lambda>s. (sy_id s, sy_viewsCount s)) (stories (fold storyStep [RecordView ''s'' ''b'' 5, RecordView ''s'' ''a'' 6,
      RecordView ''s'' ''b'' 7, RecordView ''s'' ''c'' 86400001] sampleStories)) = [(''s'', 1)]" by code_simp
  from map_singleton [OF this] obtain s where s: "s \<in> set (stories (fold storyStep [RecordView ''s'' ''b'' 5,
      RecordView ''s'' ''a'' 6, RecordView ''s'' ''b'' 7, RecordView ''s'' ''c'' 86400001] sampleStories))"
      "sy_id s = ''s''" "sy_viewsCount s = 1" by blast
  then show ?thesis using views_exact [OF sampleStories_consistent refl s(1)] s by (intro exI [of _ s]) simp
qed

end
