(* ===== verification/Garage.thy ===== *)
theory Garage
  imports Core_Db
begin

text \<open>
  \<open>motorcycles/motorcycles.service.ts\<close>: the motorcycles of a user, one of which may be marked as
  primary. Every request changes only motorcycles of its sender, and at most one of a user's
  motorcycles is primary.
\<close>

section \<open>State\<close>

datatype bikeStatus = ACTIVE | SOLD | WISHLIST | PROJECT_BUILD

record motorcycle =
  mc_id :: uid
  mc_userId :: uid
  mc_brand :: string
  mc_model :: string
  mc_year :: int
  mc_displacement :: "int option"
  mc_nickname :: "string option"
  mc_photos :: "string list"
  mc_modifications :: "string option"
  mc_status :: bikeStatus
  mc_isPrimary :: bool
  mc_mileage :: "int option"
  mc_createdAt :: time
  mc_deletedAt :: "time option"

record garage_db = core_db +
  motorcycles :: "motorcycle list"

record createBikeDto =
  cb_brand :: string
  cb_model :: string
  cb_year :: int
  cb_displacement :: "int option"
  cb_nickname :: "string option"
  cb_photos :: "string list"
  cb_modifications :: "string option"
  cb_status :: bikeStatus
  cb_isPrimary :: bool
  cb_mileage :: "int option"

text \<open>\<open>UpdateMotorcycleSchema\<close>: every field may be absent.\<close>

record updateBikeDto =
  ub_brand :: "string option"
  ub_model :: "string option"
  ub_year :: "int option"
  ub_displacement :: "int option"
  ub_nickname :: "string option"
  ub_photos :: "string list option"
  ub_modifications :: "string option"
  ub_status :: "bikeStatus option"
  ub_isPrimary :: "bool option"
  ub_mileage :: "int option"

section \<open>Operations\<close>

text \<open>\<open>orderBy: [{ isPrimary: 'desc' }, { createdAt: 'desc' }]\<close>\<close>

definition listBikes :: "uid \<Rightarrow> 'a garage_db_scheme \<Rightarrow> motorcycle list" where
  "listBikes userId w =
     sort_key (\<lambda>b. if mc_isPrimary b then (0::nat) else 1)
       (sort_key (\<lambda>b. - mc_createdAt b) (filter (\<lambda>b. mc_userId b = userId \<and> mc_deletedAt b = None) (motorcycles w)))"

definition dropPrimary :: "(motorcycle \<Rightarrow> bool) \<Rightarrow> uid \<Rightarrow> 'a garage_db_scheme \<Rightarrow> 'a garage_db_scheme" where
  "dropPrimary which userId w =
     w\<lparr>motorcycles := updateMany (\<lambda>b. mc_userId b = userId \<and> mc_isPrimary b \<and> mc_deletedAt b = None \<and> which b)
        (\<lambda>b. b\<lparr>mc_isPrimary := False\<rparr>) (motorcycles w)\<rparr>"

definition newBike :: "uid \<Rightarrow> uid \<Rightarrow> createBikeDto \<Rightarrow> time \<Rightarrow> motorcycle" where
  "newBike i userId dto now =
     \<lparr>mc_id = i, mc_userId = userId, mc_brand = cb_brand dto, mc_model = cb_model dto, mc_year = cb_year dto,
      mc_displacement = cb_displacement dto, mc_nickname = cb_nickname dto, mc_photos = cb_photos dto,
      mc_modifications = cb_modifications dto, mc_status = cb_status dto, mc_isPrimary = cb_isPrimary dto,
      mc_mileage = cb_mileage dto, mc_createdAt = now, mc_deletedAt = None\<rparr>"

definition createBike :: "uid \<Rightarrow> createBikeDto \<Rightarrow> time \<Rightarrow> 'a garage_db_scheme \<Rightarrow> (motorcycle, 'a garage_db_scheme) outcome" where
  "createBike userId dto now w =
     (let w1 = (if cb_isPrimary dto then dropPrimary (\<lambda>_. True) userId w else w);
          bike = newBike (newUuid w1) userId dto now;
          w2 = takeUuid w1
      in if \<not> userExists userId w2 then raise ForeignKeyViolation w2
         else and_then (write_or UniqueViolation (createRow mc_id bike (motorcycles w2)) (\<lambda>t. w2\<lparr>motorcycles := t\<rparr>) w2) (\<lambda>_ w3.
           ret bike (emitEvent (GamificationTrigger userId BIKE_ADDED 1 [(''motorcycleId'', mc_id bike)]) w3)))"

definition orKeep :: "'b option \<Rightarrow> 'b \<Rightarrow> 'b" where
  "orKeep new old = (case new of None \<Rightarrow> old | Some x \<Rightarrow> x)"

definition orKeepOpt :: "'b option \<Rightarrow> 'b option \<Rightarrow> 'b option" where
  "orKeepOpt new old = (case new of None \<Rightarrow> old | Some x \<Rightarrow> Some x)"

definition applyBike :: "updateBikeDto \<Rightarrow> motorcycle \<Rightarrow> motorcycle" where
  "applyBike dto b =
     b\<lparr>mc_brand := orKeep (ub_brand dto) (mc_brand b), mc_model := orKeep (ub_model dto) (mc_model b),
       mc_year := orKeep (ub_year dto) (mc_year b), mc_displacement := orKeepOpt (ub_displacement dto) (mc_displacement b),
       mc_nickname := orKeepOpt (ub_nickname dto) (mc_nickname b), mc_photos := orKeep (ub_photos dto) (mc_photos b),
       mc_modifications := orKeepOpt (ub_modifications dto) (mc_modifications b), mc_status := orKeep (ub_status dto) (mc_status b),
       mc_isPrimary := orKeep (ub_isPrimary dto) (mc_isPrimary b), mc_mileage := orKeepOpt (ub_mileage dto) (mc_mileage b)\<rparr>"

definition writeBike :: "uid \<Rightarrow> (motorcycle \<Rightarrow> motorcycle) \<Rightarrow> 'a garage_db_scheme \<Rightarrow> (unit, 'a garage_db_scheme) outcome" where
  "writeBike i f w = write_or RecordNotFound (updateRow mc_id i f (motorcycles w)) (\<lambda>t. w\<lparr>motorcycles := t\<rparr>) w"

text \<open>The checks of \<open>update\<close> and \<open>remove\<close>.\<close>

definition ownBike :: "uid \<Rightarrow> uid \<Rightarrow> 'a garage_db_scheme \<Rightarrow> (motorcycle, 'a garage_db_scheme) outcome" where
  "ownBike userId i w =
     (case findUnique mc_id i (motorcycles w) of
        None \<Rightarrow> throwHttp NotFound ''motorcycle_not_found'' NOT_FOUND w
      | Some bike \<Rightarrow>
          if mc_deletedAt bike \<noteq> None then throwHttp NotFound ''motorcycle_not_found'' NOT_FOUND w
          else if mc_userId bike \<noteq> userId then throwHttp Forbidden ''forbidden'' FORBIDDEN w
          else ret bike w)"

definition updateBike :: "uid \<Rightarrow> uid \<Rightarrow> updateBikeDto \<Rightarrow> 'a garage_db_scheme \<Rightarrow> (motorcycle option, 'a garage_db_scheme) outcome" where
  "updateBike userId i dto w =
     and_then (ownBike userId i w) (\<lambda>_ w0.
       let w1 = (if ub_isPrimary dto = Some True then dropPrimary (\<lambda>b. mc_id b \<noteq> i) userId w0 else w0)
       in and_then (writeBike i (applyBike dto) w1) (\<lambda>_ w2. ret (findUnique mc_id i (motorcycles w2)) w2))"

definition removeBike :: "uid \<Rightarrow> uid \<Rightarrow> time \<Rightarrow> 'a garage_db_scheme \<Rightarrow> (unit, 'a garage_db_scheme) outcome" where
  "removeBike userId i now w =
     and_then (ownBike userId i w) (\<lambda>_ w0. writeBike i (\<lambda>b. b\<lparr>mc_deletedAt := Some now\<rparr>) w0)"

section \<open>Histories\<close>

datatype garageOp =
    CreateBike uid createBikeDto time
  | UpdateBike uid uid updateBikeDto
  | RemoveBike uid uid time

fun garageStep :: "garageOp \<Rightarrow> 'a garage_db_scheme \<Rightarrow> 'a garage_db_scheme" where
  "garageStep (CreateBike u dto now) w = snd (createBike u dto now w)"
| "garageStep (UpdateBike u i dto) w = snd (updateBike u i dto w)"
| "garageStep (RemoveBike u i now) w = snd (removeBike u i now w)"

fun sender :: "garageOp \<Rightarrow> uid" where
  "sender (CreateBike u _ _) = u" | "sender (UpdateBike u _ _) = u" | "sender (RemoveBike u _ _) = u"

abbreviation primaryOf :: "uid \<Rightarrow> motorcycle \<Rightarrow> bool" where
  "primaryOf u b \<equiv> mc_userId b = u \<and> mc_isPrimary b \<and> mc_deletedAt b = None"

text \<open>Two primary motorcycles of one user are one.\<close>

definition livePrimary :: "motorcycle \<Rightarrow> bool" where
  "livePrimary b \<longleftrightarrow> mc_isPrimary b \<and> mc_deletedAt b = None"

definition onePrimary :: "motorcycle list \<Rightarrow> bool" where
  "onePrimary t \<longleftrightarrow> (\<forall>b \<in> set t. \<forall>c \<in> set t.
     livePrimary b \<longrightarrow> livePrimary c \<longrightarrow> mc_userId b = mc_userId c \<longrightarrow> mc_id b = mc_id c)"

definition garageInv :: "'a garage_db_scheme \<Rightarrow> bool" where
  "garageInv w \<longleftrightarrow> unique mc_id (motorcycles w) \<and> onePrimary (motorcycles w)"

lemma applyBike_fields [simp]:
  "mc_id (applyBike dto b) = mc_id b" "mc_userId (applyBike dto b) = mc_userId b" "mc_deletedAt (applyBike dto b) = mc_deletedAt b"
  "mc_isPrimary (applyBike dto b) = orKeep (ub_isPrimary dto) (mc_isPrimary b)"
  by (simp_all add: applyBike_def)

lemma dropPrimary_fields [simp]:
  "motorcycles (dropPrimary P u w) = updateMany (\<lambda>b. primaryOf u b \<and> P b) (\<lambda>b. b\<lparr>mc_isPrimary := False\<rparr>) (motorcycles w)"
  "users (dropPrimary P u w) = users w"
  by (simp_all add: dropPrimary_def conj_assoc)

lemma writeBike_cases:
  "writeBike i f w =
     (if i \<in> mc_id ` set (motorcycles w)
      then (Inr (), w\<lparr>motorcycles := updateMany (\<lambda>b. mc_id b = i) f (motorcycles w)\<rparr>)
      else (Inl RecordNotFound, w))"
  by (simp add: writeBike_def write_or_def updateRow_def raise_def ret_def)

lemma ownBike_cases:
  obtains (own) b where "ownBike u i w = (Inr b, w)" and "findUnique mc_id i (motorcycles w) = Some b"
      and "mc_deletedAt b = None" and "mc_userId b = u"
    | (refused) e where "ownBike u i w = (Inl e, w)"
proof (cases "findUnique mc_id i (motorcycles w)")
  case None
  then show thesis by (intro refused) (simp add: ownBike_def outcome)
next
  case (Some b)
  show thesis
  proof (cases "mc_deletedAt b = None \<and> mc_userId b = u")
    case True
    then show thesis using Some by (intro own [of b]) (simp_all add: ownBike_def outcome)
  next
    case False
    then have "\<exists>e. ownBike u i w = (Inl e, w)" using Some by (auto simp: ownBike_def outcome)
    then show thesis using refused by blast
  qed
qed

lemma dropped_ids: "mc_id ` set (updateMany P (\<lambda>b. b\<lparr>mc_isPrimary := x\<rparr>) t) = mc_id ` set t"
  by (rule keys_updateMany) simp

text \<open>What the three operations do to the table.\<close>

lemma updateBike_table:
  "motorcycles (snd (updateBike u i dto w)) = motorcycles w \<or>
   (\<exists>b \<in> set (motorcycles w). mc_id b = i \<and> mc_userId b = u \<and> mc_deletedAt b = None \<and>
     motorcycles (snd (updateBike u i dto w)) =
       updateMany (\<lambda>b. mc_id b = i) (applyBike dto)
         (if ub_isPrimary dto = Some True
          then updateMany (\<lambda>b. primaryOf u b \<and> mc_id b \<noteq> i) (\<lambda>b. b\<lparr>mc_isPrimary := False\<rparr>) (motorcycles w)
          else motorcycles w))"
proof (cases rule: ownBike_cases [of u i w])
  case (own b)
  then have b: "b \<in> set (motorcycles w)" "mc_id b = i" by (auto dest: findUnique_Some)
  then have "i \<in> mc_id ` set (motorcycles w)" by blast
  then show ?thesis using own b by (intro disjI2 bexI [of _ b]) (simp_all add: updateBike_def Let_def writeBike_cases dropped_ids)
qed (simp add: updateBike_def)

lemma removeBike_table:
  "motorcycles (snd (removeBike u i now w)) = motorcycles w \<or>
   (\<exists>b \<in> set (motorcycles w). mc_id b = i \<and> mc_userId b = u \<and>
     motorcycles (snd (removeBike u i now w)) = updateMany (\<lambda>b. mc_id b = i) (\<lambda>b. b\<lparr>mc_deletedAt := Some now\<rparr>) (motorcycles w))"
proof (cases rule: ownBike_cases [of u i w])
  case (own b)
  then have b: "b \<in> set (motorcycles w)" "mc_id b = i" by (auto dest: findUnique_Some)
  then have "i \<in> mc_id ` set (motorcycles w)" by blast
  then show ?thesis using own b by (intro disjI2 bexI [of _ b]) (simp_all add: removeBike_def writeBike_cases)
qed (simp add: removeBike_def)

lemma newBike_fields [simp]:
  "mc_id (newBike i u dto now) = i" "mc_userId (newBike i u dto now) = u" "mc_deletedAt (newBike i u dto now) = None"
  "mc_isPrimary (newBike i u dto now) = cb_isPrimary dto"
  by (simp_all add: newBike_def)

abbreviation cleared :: "uid \<Rightarrow> createBikeDto \<Rightarrow> 'a garage_db_scheme \<Rightarrow> motorcycle list" where
  "cleared u dto w \<equiv> (if cb_isPrimary dto
     then updateMany (primaryOf u) (\<lambda>b. b\<lparr>mc_isPrimary := False\<rparr>) (motorcycles w) else motorcycles w)"

lemma createBike_table:
  "motorcycles (snd (createBike u dto now w)) = cleared u dto w \<or>
   (\<exists>i. i \<notin> mc_id ` set (motorcycles w) \<and> motorcycles (snd (createBike u dto now w)) = cleared u dto w @ [newBike i u dto now])"
proof (cases "cb_isPrimary dto")
  case True
  then show ?thesis
    by (auto simp: createBike_def Let_def tables outcome takeUuid_def emitEvent_def dropPrimary_def dropped_ids)
next
  case False
  then show ?thesis by (auto simp: createBike_def Let_def tables outcome takeUuid_def emitEvent_def)
qed

section \<open>One primary motorcycle\<close>

text \<open>A write that makes no motorcycle primary.\<close>

lemma onePrimary_updateMany:
  assumes "onePrimary t" and "\<And>b. mc_id (f b) = mc_id b \<and> mc_userId (f b) = mc_userId b"
    and "\<And>b. livePrimary (f b) \<Longrightarrow> livePrimary b"
  shows "onePrimary (updateMany P f t)"
  unfolding onePrimary_def
proof (intro ballI impI)
  fix b c
  assume bc: "b \<in> set (updateMany P f t)" "c \<in> set (updateMany P f t)" "livePrimary b" "livePrimary c" "mc_userId b = mc_userId c"
  have "\<exists>b' \<in> set t. mc_id b' = mc_id b \<and> mc_userId b' = mc_userId b \<and> livePrimary b'"
    if "b \<in> set (updateMany P f t)" "livePrimary b" for b
    using that assms(2,3) by (auto simp: set_updateMany split: if_splits)
  from this [OF bc(1,3)] this [OF bc(2,4)] show "mc_id b = mc_id c"
    using assms(1) bc(5) unfolding onePrimary_def by metis
qed

lemma livePrimary_simps [simp]:
  "\<not> livePrimary (b\<lparr>mc_isPrimary := False\<rparr>)" "\<not> livePrimary (b\<lparr>mc_deletedAt := Some now\<rparr>)"
  by (simp_all add: livePrimary_def)

lemma onePrimary_clear: "onePrimary t \<Longrightarrow> onePrimary (updateMany P (\<lambda>b. b\<lparr>mc_isPrimary := False\<rparr>) t)"
  by (erule onePrimary_updateMany) simp_all

lemma onePrimary_append:
  assumes "onePrimary t" and "livePrimary b \<longrightarrow> (\<forall>c \<in> set t. mc_userId c = mc_userId b \<longrightarrow> \<not> livePrimary c)"
  shows "onePrimary (t @ [b])"
proof -
  have "set (t @ [b]) = insert b (set t)" by simp
  then show ?thesis using assms unfolding onePrimary_def by (metis insert_iff)
qed

text \<open>After the clearing write no motorcycle of the user is primary, but those it skips.\<close>

lemma cleared_none:
  assumes "c \<in> set (updateMany (\<lambda>b. primaryOf u b \<and> P b) (\<lambda>b. b\<lparr>mc_isPrimary := False\<rparr>) t)" and "mc_userId c = u" and "livePrimary c"
  shows "\<not> P c"
proof -
  obtain d where d: "d \<in> set t" "c = (if primaryOf u d \<and> P d then d\<lparr>mc_isPrimary := False\<rparr> else d)"
    using assms(1) unfolding set_updateMany by blast
  show ?thesis
  proof (cases "primaryOf u d \<and> P d")
    case True
    then have "c = d\<lparr>mc_isPrimary := False\<rparr>" using d(2) by simp
    then show ?thesis using assms(3) livePrimary_simps(1) by metis
  next
    case False
    then have "c = d" using d(2) by simp
    then show ?thesis using False assms(2,3) by (simp add: livePrimary_def)
  qed
qed

lemma cleared_row:
  "c \<in> set (updateMany P (\<lambda>b. b\<lparr>mc_isPrimary := x\<rparr>) t) \<Longrightarrow>
   \<exists>d \<in> set t. mc_id d = mc_id c \<and> mc_userId d = mc_userId c"
  by (auto simp: set_updateMany)

lemma createBike_inv:
  assumes "garageInv w" shows "garageInv (snd (createBike u dto now w))"
proof -
  have clear: "unique mc_id (cleared u dto w)" "onePrimary (cleared u dto w)" "mc_id ` set (cleared u dto w) = mc_id ` set (motorcycles w)"
    using assms by (simp_all add: garageInv_def unique_updateMany onePrimary_clear dropped_ids)
  have none: "\<not> livePrimary c" if "cb_isPrimary dto" "c \<in> set (cleared u dto w)" "mc_userId c = u" for c
  proof
    assume "livePrimary c"
    then show False using cleared_none [of c u "\<lambda>_. True" "motorcycles w"] that by simp
  qed
  have "onePrimary (cleared u dto w @ [newBike i u dto now])" for i
  proof (rule onePrimary_append [OF clear(2)], intro impI ballI)
    fix c
    assume "livePrimary (newBike i u dto now)" and c: "c \<in> set (cleared u dto w)" "mc_userId c = mc_userId (newBike i u dto now)"
    then have "cb_isPrimary dto" by (simp add: livePrimary_def)
    then show "\<not> livePrimary c" using none [OF _ c(1)] c(2) by simp
  qed
  moreover have "unique mc_id (cleared u dto w @ [newBike i u dto now])" if "i \<notin> mc_id ` set (motorcycles w)" for i
    using that clear by simp
  ultimately have app: "i \<notin> mc_id ` set (motorcycles w) \<Longrightarrow>
      unique mc_id (cleared u dto w @ [newBike i u dto now]) \<and> onePrimary (cleared u dto w @ [newBike i u dto now])" for i
    by blast
  from createBike_table [of u dto now w] show ?thesis unfolding garageInv_def
  proof (elim disjE exE conjE)
    assume "motorcycles (snd (createBike u dto now w)) = cleared u dto w"
    then show "unique mc_id (motorcycles (snd (createBike u dto now w))) \<and> onePrimary (motorcycles (snd (createBike u dto now w)))"
      using clear(1,2) by (simp only:)
  next
    fix i
    assume new: "i \<notin> mc_id ` set (motorcycles w)" and t: "motorcycles (snd (createBike u dto now w)) = cleared u dto w @ [newBike i u dto now]"
    show "unique mc_id (motorcycles (snd (createBike u dto now w))) \<and> onePrimary (motorcycles (snd (createBike u dto now w)))"
      unfolding t by (rule app [OF new])
  qed
qed

lemma updateBike_inv:
  assumes inv: "garageInv w" shows "garageInv (snd (updateBike u i dto w))"
proof (cases "motorcycles (snd (updateBike u i dto w)) = motorcycles w")
  case False
  let ?c = "\<lambda>b. b\<lparr>mc_isPrimary := False\<rparr>"
  let ?t = "if ub_isPrimary dto = Some True
    then updateMany (\<lambda>b. primaryOf u b \<and> mc_id b \<noteq> i) ?c (motorcycles w) else motorcycles w"
  obtain b where b: "b \<in> set (motorcycles w)" "mc_id b = i" "mc_userId b = u"
    and t: "motorcycles (snd (updateBike u i dto w)) = updateMany (\<lambda>b. mc_id b = i) (applyBike dto) ?t"
    using False updateBike_table [of u i dto w] by blast
  have old: "unique mc_id ?t" "onePrimary ?t" using inv by (simp_all add: garageInv_def unique_updateMany onePrimary_clear)
  have "onePrimary (updateMany (\<lambda>b. mc_id b = i) (applyBike dto) ?t)"
  proof (cases "ub_isPrimary dto = Some True")
    case False
    have "livePrimary (applyBike dto c) \<Longrightarrow> livePrimary c" for c
      using False by (cases "ub_isPrimary dto") (auto simp: livePrimary_def orKeep_def)
    then show ?thesis by (intro onePrimary_updateMany [OF old(2)]) simp_all
  next
    case True
    have own: "mc_userId c = u" if "c \<in> set ?t" "mc_id c = i" for c
    proof -
      from that obtain c' where "c' \<in> set (motorcycles w)" "mc_id c' = i" "mc_userId c' = mc_userId c"
        using True cleared_row [of c] by (simp, blast)
      then show ?thesis using unique_row [of mc_id "motorcycles w" c' b] b inv by (simp add: garageInv_def)
    qed
    have others: "mc_id c = i" if "c \<in> set ?t" "mc_userId c = u" "livePrimary c" for c
      using cleared_none [of c u "\<lambda>b. mc_id b \<noteq> i" "motorcycles w"] that True by simp
    show ?thesis unfolding onePrimary_def
    proof (intro ballI impI)
      fix c d
      assume "c \<in> set (updateMany (\<lambda>b. mc_id b = i) (applyBike dto) ?t)" "d \<in> set (updateMany (\<lambda>b. mc_id b = i) (applyBike dto) ?t)"
        and p: "livePrimary c" "livePrimary d" "mc_userId c = mc_userId d"
      then obtain c' d' where c: "c' \<in> set ?t" "c = (if mc_id c' = i then applyBike dto c' else c')"
        and d: "d' \<in> set ?t" "d = (if mc_id d' = i then applyBike dto d' else d')" by (auto simp only: set_updateMany image_iff)
      show "mc_id c = mc_id d"
      proof (cases "mc_userId c = u")
        case True
        have "mc_id c' = i" using c others [OF c(1)] p(1) True by (cases "mc_id c' = i") simp_all
        moreover have "mc_id d' = i" using d others [OF d(1)] p(2,3) True by (cases "mc_id d' = i") simp_all
        ultimately show ?thesis using c(2) d(2) by simp
      next
        case no: False
        have "mc_id c' \<noteq> i" using c own [OF c(1)] no by (cases "mc_id c' = i") simp_all
        moreover have "mc_id d' \<noteq> i" using d own [OF d(1)] no p(3) by (cases "mc_id d' = i") simp_all
        ultimately have "c = c'" "d = d'" using c(2) d(2) by simp_all
        then show ?thesis using old(2) c(1) d(1) p unfolding onePrimary_def by blast
      qed
    qed
  qed
  then show ?thesis using old(1) unfolding garageInv_def t by (simp add: unique_updateMany)
qed (use inv in \<open>simp add: garageInv_def\<close>)

lemma removeBike_inv:
  assumes "garageInv w" shows "garageInv (snd (removeBike u i now w))"
proof -
  have "onePrimary (updateMany (\<lambda>b. mc_id b = i) (\<lambda>b. b\<lparr>mc_deletedAt := Some now\<rparr>) (motorcycles w))"
    using assms by (intro onePrimary_updateMany) (simp_all add: garageInv_def)
  then show ?thesis using removeBike_table [of u i now w] assms unfolding garageInv_def
    by (auto simp: unique_updateMany)
qed

interpretation garage: invariant_system garageStep garageInv
proof
  fix w :: "'a garage_db_scheme" and x
  assume "garageInv w"
  then show "garageInv (garageStep x w)" by (cases x) (simp_all add: createBike_inv updateBike_inv removeBike_inv)
qed

text \<open>
  C39: A user has at most one primary motorcycle that is not deleted, after any history of
  requests of all users, also failing ones.
\<close>

theorem one_primary_bike:
  assumes "garageInv w0" and "w = fold garageStep ops w0"
  shows "countRows (\<lambda>b. mc_userId b = u \<and> mc_isPrimary b \<and> mc_deletedAt b = None) (motorcycles w) \<le> 1"
proof -
  have inv: "garageInv w" unfolding assms(2) by (rule garage.run_inv [OF assms(1)])
  let ?p = "filter (\<lambda>b. mc_userId b = u \<and> mc_isPrimary b \<and> mc_deletedAt b = None) (motorcycles w)"
  have "distinct (map mc_id ?p)" using inv by (simp add: garageInv_def distinct_map_filter)
  moreover have "set (map mc_id ?p) \<subseteq> {i}" if "b \<in> set ?p" "i = mc_id b" for b i
    using that inv by (auto simp: garageInv_def onePrimary_def livePrimary_def)
  ultimately have "length (map mc_id ?p) \<le> 1"
    by (cases ?p) (auto simp: distinct_length_2_or_more dest: subset_singletonD)
  then show ?thesis by (simp add: countRows_def)
qed

section \<open>A sample\<close>

definition sampleBikeDto :: createBikeDto where
  "sampleBikeDto = \<lparr>cb_brand = ''Honda'', cb_model = ''CB500X'', cb_year = 2021, cb_displacement = Some 471, cb_nickname = None,
     cb_photos = [], cb_modifications = None, cb_status = ACTIVE, cb_isPrimary = True, cb_mileage = None\<rparr>"

definition sampleGarage :: garage_db where
  "sampleGarage = core_db.extend sampleCore \<lparr>motorcycles = []\<rparr>"

theorem one_primary_bike_witness:
  "countRows (\<lambda>b. mc_userId b = ''a'' \<and> mc_isPrimary b \<and> mc_deletedAt b = None)
     (motorcycles (fold garageStep [CreateBike ''a'' sampleBikeDto 1, CreateBike ''a'' sampleBikeDto 2, CreateBike ''b'' sampleBikeDto 3] sampleGarage)) \<le> 1 \<and>
   length (motorcycles (fold garageStep [CreateBike ''a'' sampleBikeDto 1, CreateBike ''a'' sampleBikeDto 2, CreateBike ''b'' sampleBikeDto 3] sampleGarage)) = 3"
proof -
  have "garageInv sampleGarage" by (simp add: garageInv_def onePrimary_def sampleGarage_def core_db.defs)
  from one_primary_bike [OF this refl]
  have "countRows (\<lambda>b. mc_userId b = ''a'' \<and> mc_isPrimary b \<and> mc_deletedAt b = None)
     (motorcycles (fold garageStep [CreateBike ''a'' sampleBikeDto 1, CreateBike ''a'' sampleBikeDto 2, CreateBike ''b'' sampleBikeDto 3] sampleGarage)) \<le> 1" .
  moreover have "length (motorcycles (fold garageStep [CreateBike ''a'' sampleBikeDto 1, CreateBike ''a'' sampleBikeDto 2, CreateBike ''b'' sampleBikeDto 3] sampleGarage)) = 3"
    by code_simp
  ultimately show ?thesis by blast
qed

end
