(* ===== verification/Push.thy ===== *)
theory Push
  imports Core_Db
begin

text \<open>
  \<open>push/push.service.ts\<close>, \<open>push/expo-push.dispatcher.ts\<close>: the devices of a user and the push
  messages to them. A token belongs to one row, so to one user at a time. What the providers
  answer is a parameter; every message handed to a dispatcher is recorded in \<open>pushSent\<close>.
\<close>

section \<open>State\<close>

datatype devicePlatform = IOS | ANDROID | WEB | EXPO

record deviceToken =
  dt_id :: uid
  dt_userId :: uid
  dt_token :: string
  dt_platform :: devicePlatform
  dt_appVersion :: "string option"
  dt_lastSeenAt :: time
  dt_createdAt :: time
  dt_revokedAt :: "time option"

record pushPayload =
  pp_title :: string
  pp_body :: string
  pp_data :: "(string \<times> detail) list option"
  pp_badge :: "int option"
  pp_sound :: "string option"
  pp_threadId :: "string option"

record push_db = core_db +
  deviceTokens :: "deviceToken list"
  pushSent :: "(string \<times> pushPayload) list"

text \<open>
  The configuration: \<open>PUSH_DRY_RUN\<close>, and the registered dispatchers with what they answer. A
  dispatcher may throw.
\<close>

datatype sendOutcome = Ok | Invalid | SendError

record push_env =
  pv_dryRun :: bool
  pv_dispatchers :: "devicePlatform \<Rightarrow> (string \<Rightarrow> pushPayload \<Rightarrow> failure + sendOutcome) option"

record dispatchResult =
  dr_success :: nat
  dr_failure :: nat
  dr_invalidTokens :: "string list"

section \<open>Devices\<close>

record registerDto =
  rg_token :: string
  rg_platform :: devicePlatform
  rg_appVersion :: "string option"

record deviceDto =
  dd_id :: uid
  dd_platform :: devicePlatform
  dd_appVersion :: "string option"
  dd_createdAt :: time
  dd_lastSeenAt :: time

definition deviceToDto :: "deviceToken \<Rightarrow> deviceDto" where
  "deviceToDto d = \<lparr>dd_id = dt_id d, dd_platform = dt_platform d, dd_appVersion = dt_appVersion d,
     dd_createdAt = dt_createdAt d, dd_lastSeenAt = dt_lastSeenAt d\<rparr>"

text \<open>The update of a row on registration; an absent version is not written.\<close>

definition refreshDevice :: "registerDto \<Rightarrow> time \<Rightarrow> deviceToken \<Rightarrow> deviceToken" where
  "refreshDevice dto now d =
     d\<lparr>dt_platform := rg_platform dto,
       dt_appVersion := (case rg_appVersion dto of None \<Rightarrow> dt_appVersion d | Some v \<Rightarrow> Some v),
       dt_revokedAt := None, dt_lastSeenAt := now\<rparr>"

definition putDevices :: "deviceToken list \<Rightarrow> 'a push_db_scheme \<Rightarrow> 'a push_db_scheme" where
  "putDevices t w = w\<lparr>deviceTokens := t\<rparr>"

definition registerToken :: "uid \<Rightarrow> registerDto \<Rightarrow> time \<Rightarrow> 'a push_db_scheme \<Rightarrow> (deviceDto option, 'a push_db_scheme) outcome" where
  "registerToken userId dto now w =
     (let k = rg_token dto;
          answer = (\<lambda>w1. ret (map_option deviceToDto (findUnique dt_token k (deviceTokens w1))) w1)
      in case findUnique dt_token k (deviceTokens w) of
           Some d \<Rightarrow>
             if dt_userId d \<noteq> userId
             then if \<not> userExists userId w then raise ForeignKeyViolation w
                  else answer (putDevices (updateMany (\<lambda>d. dt_token d = k)
                         (\<lambda>d. (refreshDevice dto now d)\<lparr>dt_userId := userId\<rparr>) (deviceTokens w)) w)
             else answer (putDevices (updateMany (\<lambda>d. dt_token d = k) (refreshDevice dto now) (deviceTokens w)) w)
         | None \<Rightarrow>
             if \<not> userExists userId w then raise ForeignKeyViolation w
             else answer (putDevices (deviceTokens w @
               [\<lparr>dt_id = newUuid w, dt_userId = userId, dt_token = k, dt_platform = rg_platform dto,
                 dt_appVersion = rg_appVersion dto, dt_lastSeenAt = now, dt_createdAt = now, dt_revokedAt = None\<rparr>]) (takeUuid w)))"

definition revokeToken :: "uid \<Rightarrow> string \<Rightarrow> time \<Rightarrow> 'a push_db_scheme \<Rightarrow> 'a push_db_scheme" where
  "revokeToken userId token now w =
     w\<lparr>deviceTokens := updateMany (\<lambda>d. dt_userId d = userId \<and> dt_token d = token)
        (\<lambda>d. d\<lparr>dt_revokedAt := Some now\<rparr>) (deviceTokens w)\<rparr>"

definition listUserDevices :: "uid \<Rightarrow> 'a push_db_scheme \<Rightarrow> deviceDto list" where
  "listUserDevices userId w =
     map deviceToDto (sort_key (\<lambda>d. - dt_createdAt d)
       (filter (\<lambda>d. dt_userId d = userId \<and> dt_revokedAt d = None) (deviceTokens w)))"

section \<open>The Expo dispatcher\<close>

text \<open>
  \<open>ExpoPushDispatcher.send\<close>. The Expo library is a parameter: which strings are tokens, how
  messages are cut into chunks, and what the service answers to a chunk (a throw or a list of
  tickets). \<open>ex_ready\<close> holds once \<open>onModuleInit\<close> has run.
\<close>

record expoMessage =
  em_to :: string
  em_title :: string
  em_body :: string
  em_data :: "(string \<times> detail) list option"
  em_sound :: string
  em_badge :: "int option"
  em_priority :: string
  em_channelId :: string

datatype expoTicket = TicketOk | TicketError "string option"

record expo_env =
  ex_ready :: bool
  ex_isToken :: "string \<Rightarrow> bool"
  ex_chunks :: "expoMessage list \<Rightarrow> expoMessage list list"
  ex_send :: "expoMessage list \<Rightarrow> failure + expoTicket list"

definition expoMessageOf :: "string \<Rightarrow> pushPayload \<Rightarrow> expoMessage" where
  "expoMessageOf token payload =
     \<lparr>em_to = token, em_title = pp_title payload, em_body = pp_body payload, em_data = pp_data payload,
      em_sound = (case pp_sound payload of None \<Rightarrow> ''default'' | Some s \<Rightarrow> s), em_badge = pp_badge payload,
      em_priority = ''high'', em_channelId = ''default''\<rparr>"

text \<open>The loop over the chunks; the first throw ends it.\<close>

fun sendChunks :: "(expoMessage list \<Rightarrow> failure + expoTicket list) \<Rightarrow> expoMessage list list \<Rightarrow> expoTicket list \<Rightarrow> failure + expoTicket list" where
  "sendChunks post [] tickets = Inr tickets"
| "sendChunks post (c # cs) tickets = (case post c of Inl e \<Rightarrow> Inl e | Inr t \<Rightarrow> sendChunks post cs (tickets @ t))"

definition expoSend :: "expo_env \<Rightarrow> string \<Rightarrow> pushPayload \<Rightarrow> sendOutcome" where
  "expoSend x token payload =
     (if \<not> ex_ready x then SendError
      else if \<not> ex_isToken x token then Invalid
      else case sendChunks (ex_send x) (ex_chunks x [expoMessageOf token payload]) [] of
             Inl _ \<Rightarrow> SendError
           | Inr [] \<Rightarrow> SendError
           | Inr (TicketError code # _) \<Rightarrow> if code = Some ''DeviceNotRegistered'' then Invalid else SendError
           | Inr (TicketOk # _) \<Rightarrow> Ok)"

text \<open>\<open>registerDispatcher\<close>: a map from platforms to dispatchers.\<close>

definition registerDispatcher :: "devicePlatform \<Rightarrow> (string \<Rightarrow> pushPayload \<Rightarrow> failure + sendOutcome) \<Rightarrow> push_env \<Rightarrow> push_env" where
  "registerDispatcher platform send env = env\<lparr>pv_dispatchers := (pv_dispatchers env)(platform := Some send)\<rparr>"

definition withExpo :: "expo_env \<Rightarrow> push_env \<Rightarrow> push_env" where
  "withExpo x env = registerDispatcher EXPO (\<lambda>token payload. Inr (expoSend (x\<lparr>ex_ready := True\<rparr>) token payload)) env"

section \<open>Messages\<close>

definition dispatch ::
  "push_env \<Rightarrow> devicePlatform \<Rightarrow> string \<Rightarrow> pushPayload \<Rightarrow> 'a push_db_scheme \<Rightarrow> (sendOutcome, 'a push_db_scheme) outcome" where
  "dispatch env platform token payload w =
     (if pv_dryRun env then ret Ok w
      else case pv_dispatchers env platform of
             None \<Rightarrow> ret Ok w
           | Some send \<Rightarrow>
               let w1 = w\<lparr>pushSent := pushSent w @ [(token, payload)]\<rparr>
               in (case send token payload of Inl e \<Rightarrow> raise e w1 | Inr r \<Rightarrow> ret r w1))"

text \<open>One round of the loop of \<open>dispatchBulk\<close>: a throw counts as a failure.\<close>

definition dispatchOne ::
  "push_env \<Rightarrow> pushPayload \<Rightarrow> deviceToken \<Rightarrow> dispatchResult \<times> 'a push_db_scheme \<Rightarrow> dispatchResult \<times> 'a push_db_scheme" where
  "dispatchOne env payload d s =
     (let (res, w) = s;
          (r, w1) = dispatch env (dt_platform d) (dt_token d) payload w
      in (case r of
            Inr Ok \<Rightarrow> res\<lparr>dr_success := dr_success res + 1\<rparr>
          | Inr Invalid \<Rightarrow> res\<lparr>dr_failure := dr_failure res + 1, dr_invalidTokens := dr_invalidTokens res @ [dt_token d]\<rparr>
          | Inr SendError \<Rightarrow> res\<lparr>dr_failure := dr_failure res + 1\<rparr>
          | Inl _ \<Rightarrow> res\<lparr>dr_failure := dr_failure res + 1\<rparr>, w1))"

definition noDispatch :: dispatchResult where
  "noDispatch = \<lparr>dr_success = 0, dr_failure = 0, dr_invalidTokens = []\<rparr>"

definition dispatchBulk ::
  "push_env \<Rightarrow> deviceToken list \<Rightarrow> pushPayload \<Rightarrow> time \<Rightarrow> 'a push_db_scheme \<Rightarrow> dispatchResult \<times> 'a push_db_scheme" where
  "dispatchBulk env devices payload now w =
     (let (res, w1) = fold (dispatchOne env payload) devices (noDispatch, w)
      in if dr_invalidTokens res = [] then (res, w1)
         else (res, w1\<lparr>deviceTokens := updateMany (\<lambda>d. dt_token d \<in> set (dr_invalidTokens res))
                (\<lambda>d. d\<lparr>dt_revokedAt := Some now\<rparr>) (deviceTokens w1)\<rparr>))"

definition sendToUser :: "push_env \<Rightarrow> uid \<Rightarrow> pushPayload \<Rightarrow> time \<Rightarrow> 'a push_db_scheme \<Rightarrow> dispatchResult \<times> 'a push_db_scheme" where
  "sendToUser env userId payload now w =
     dispatchBulk env (filter (\<lambda>d. dt_userId d = userId \<and> dt_revokedAt d = None) (deviceTokens w)) payload now w"

definition sendToUsers :: "push_env \<Rightarrow> uid list \<Rightarrow> pushPayload \<Rightarrow> time \<Rightarrow> 'a push_db_scheme \<Rightarrow> dispatchResult \<times> 'a push_db_scheme" where
  "sendToUsers env userIds payload now w =
     (if userIds = [] then (noDispatch, w)
      else dispatchBulk env (filter (\<lambda>d. dt_userId d \<in> set userIds \<and> dt_revokedAt d = None) (deviceTokens w)) payload now w)"

section \<open>What a round of messages does\<close>

text \<open>The answer to one device, and whether a provider is asked for it.\<close>

definition asked :: "push_env \<Rightarrow> deviceToken \<Rightarrow> bool" where
  "asked env d \<longleftrightarrow> \<not> pv_dryRun env \<and> pv_dispatchers env (dt_platform d) \<noteq> None"

definition answerOf :: "push_env \<Rightarrow> pushPayload \<Rightarrow> deviceToken \<Rightarrow> failure + sendOutcome" where
  "answerOf env payload d =
     (if pv_dryRun env then Inr Ok
      else case pv_dispatchers env (dt_platform d) of None \<Rightarrow> Inr Ok | Some send \<Rightarrow> send (dt_token d) payload)"

lemma dispatch_eq:
  "dispatch env (dt_platform d) (dt_token d) payload w =
     (answerOf env payload d, if asked env d then w\<lparr>pushSent := pushSent w @ [(dt_token d, payload)]\<rparr> else w)"
  by (auto simp: dispatch_def answerOf_def asked_def raise_def ret_def Let_def split: option.split sum.split)

lemma dispatchOne_fields:
  "pushSent (snd (dispatchOne env payload d s)) = pushSent (snd s) @ (if asked env d then [(dt_token d, payload)] else [])"
  "deviceTokens (snd (dispatchOne env payload d s)) = deviceTokens (snd s)"
  "users (snd (dispatchOne env payload d s)) = users (snd s)"
  "dr_invalidTokens (fst (dispatchOne env payload d s)) =
     dr_invalidTokens (fst s) @ (if answerOf env payload d = Inr Invalid then [dt_token d] else [])"
  "dr_success (fst (dispatchOne env payload d s)) = dr_success (fst s) + (if answerOf env payload d = Inr Ok then 1 else 0)"
  "dr_failure (fst (dispatchOne env payload d s)) = dr_failure (fst s) + (if answerOf env payload d = Inr Ok then 0 else 1)"
  by (cases s; simp add: dispatchOne_def dispatch_eq split: sum.split sendOutcome.split)+

lemma dispatch_fold:
  "pushSent (snd (fold (dispatchOne env payload) ds s)) = pushSent (snd s) @ map (\<lambda>d. (dt_token d, payload)) (filter (asked env) ds) \<and>
   deviceTokens (snd (fold (dispatchOne env payload) ds s)) = deviceTokens (snd s) \<and>
   users (snd (fold (dispatchOne env payload) ds s)) = users (snd s) \<and>
   dr_invalidTokens (fst (fold (dispatchOne env payload) ds s)) =
     dr_invalidTokens (fst s) @ map dt_token (filter (\<lambda>d. answerOf env payload d = Inr Invalid) ds) \<and>
   dr_success (fst (fold (dispatchOne env payload) ds s)) = dr_success (fst s) + length (filter (\<lambda>d. answerOf env payload d = Inr Ok) ds) \<and>
   dr_failure (fst (fold (dispatchOne env payload) ds s)) = dr_failure (fst s) + length (filter (\<lambda>d. answerOf env payload d \<noteq> Inr Ok) ds)"
  by (induction ds arbitrary: s) (simp_all add: dispatchOne_fields del: split_paired_all)

abbreviation refused :: "push_env \<Rightarrow> pushPayload \<Rightarrow> deviceToken list \<Rightarrow> string list" where
  "refused env payload ds \<equiv> map dt_token (filter (\<lambda>d. answerOf env payload d = Inr Invalid) ds)"

lemma updateMany_none: "(\<And>r. r \<in> set t \<Longrightarrow> \<not> P r) \<Longrightarrow> updateMany P f t = t"
  by (induction t) (simp_all add: updateMany_def)

lemma dispatchBulk_effect:
  "pushSent (snd (dispatchBulk env ds payload now w)) = pushSent w @ map (\<lambda>d. (dt_token d, payload)) (filter (asked env) ds)"
  "deviceTokens (snd (dispatchBulk env ds payload now w)) =
     updateMany (\<lambda>d. dt_token d \<in> set (refused env payload ds)) (\<lambda>d. d\<lparr>dt_revokedAt := Some now\<rparr>) (deviceTokens w)"
  "users (snd (dispatchBulk env ds payload now w)) = users w"
  "dr_invalidTokens (fst (dispatchBulk env ds payload now w)) = refused env payload ds"
  "dr_success (fst (dispatchBulk env ds payload now w)) = length (filter (\<lambda>d. answerOf env payload d = Inr Ok) ds)"
  "dr_failure (fst (dispatchBulk env ds payload now w)) = length (filter (\<lambda>d. answerOf env payload d \<noteq> Inr Ok) ds)"
proof -
  obtain res w1 where f: "fold (dispatchOne env payload) ds (noDispatch, w) = (res, w1)" by force
  note e = dispatch_fold [of env payload ds "(noDispatch, w)", unfolded f fst_conv snd_conv]
  have run: "dispatchBulk env ds payload now w =
      (res, if refused env payload ds = [] then w1
            else w1\<lparr>deviceTokens := updateMany (\<lambda>d. dt_token d \<in> set (refused env payload ds)) (\<lambda>d. d\<lparr>dt_revokedAt := Some now\<rparr>) (deviceTokens w1)\<rparr>)"
  proof -
    have "dr_invalidTokens res = refused env payload ds" using e by (simp add: noDispatch_def)
    then show ?thesis by (simp only: dispatchBulk_def f prod.case Let_def) (cases "refused env payload ds = []", simp_all only: if_True if_False simp_thms)
  qed
  show "pushSent (snd (dispatchBulk env ds payload now w)) = pushSent w @ map (\<lambda>d. (dt_token d, payload)) (filter (asked env) ds)"
    and "users (snd (dispatchBulk env ds payload now w)) = users w"
    and "dr_invalidTokens (fst (dispatchBulk env ds payload now w)) = refused env payload ds"
    and "dr_success (fst (dispatchBulk env ds payload now w)) = length (filter (\<lambda>d. answerOf env payload d = Inr Ok) ds)"
    and "dr_failure (fst (dispatchBulk env ds payload now w)) = length (filter (\<lambda>d. answerOf env payload d \<noteq> Inr Ok) ds)"
    unfolding run using e by (simp_all add: noDispatch_def)
  show "deviceTokens (snd (dispatchBulk env ds payload now w)) =
     updateMany (\<lambda>d. dt_token d \<in> set (refused env payload ds)) (\<lambda>d. d\<lparr>dt_revokedAt := Some now\<rparr>) (deviceTokens w)"
    unfolding run using e by (cases "refused env payload ds = []") (simp_all only: snd_conv if_True if_False push_db.simps, simp_all add: updateMany_none)
qed

section \<open>Histories\<close>

datatype pushOp =
    Register uid registerDto time
  | Revoke uid string time
  | SendUser push_env uid pushPayload time
  | SendUsers push_env "uid list" pushPayload time

fun pushStep :: "pushOp \<Rightarrow> 'a push_db_scheme \<Rightarrow> 'a push_db_scheme" where
  "pushStep (Register u dto now) w = snd (registerToken u dto now w)"
| "pushStep (Revoke u k now) w = revokeToken u k now w"
| "pushStep (SendUser env u payload now) w = snd (sendToUser env u payload now w)"
| "pushStep (SendUsers env us payload now) w = snd (sendToUsers env us payload now w)"

text \<open>Every write to the devices is one of four moves.\<close>

inductive deviceMove :: "pushOp \<Rightarrow> deviceToken list \<Rightarrow> deviceToken list \<Rightarrow> bool" where
  idle: "deviceMove x t t"
| revoking: "(\<And>u dto now. x \<noteq> Register u dto now) \<Longrightarrow> deviceMove x t (updateMany P (\<lambda>d. d\<lparr>dt_revokedAt := Some now\<rparr>) t)"
| refreshing: "findUnique dt_token (rg_token dto) t = Some d \<Longrightarrow> dt_userId d = u \<Longrightarrow>
    deviceMove (Register u dto now) t (updateMany (\<lambda>d. dt_token d = rg_token dto) (refreshDevice dto now) t)"
| moving: "deviceMove (Register u dto now) t (updateMany (\<lambda>d. dt_token d = rg_token dto) (\<lambda>d. (refreshDevice dto now d)\<lparr>dt_userId := u\<rparr>) t)"
| adding: "dt_userId d = u \<Longrightarrow> dt_token d = rg_token dto \<Longrightarrow> rg_token dto \<notin> dt_token ` set t \<Longrightarrow>
    deviceMove (Register u dto now) t (t @ [d])"

lemma putDevices_fields [simp]:
  "deviceTokens (putDevices t w) = t" "users (putDevices t w) = users w" "pushSent (putDevices t w) = pushSent w"
  by (simp_all add: putDevices_def)

lemma registerToken_move: "deviceMove (Register u dto now) (deviceTokens w) (deviceTokens (snd (registerToken u dto now w)))"
proof (cases "findUnique dt_token (rg_token dto) (deviceTokens w)")
  case None
  then have "rg_token dto \<notin> dt_token ` set (deviceTokens w)" by (simp add: findUnique_None)
  then show ?thesis using None by (auto simp: registerToken_def Let_def intro: idle adding)
next
  case (Some d)
  then show ?thesis
    by (cases "dt_userId d = u") (auto simp: registerToken_def Let_def intro: idle moving refreshing)
qed

lemma pushStep_move: "deviceMove x (deviceTokens w) (deviceTokens (pushStep x w))"
proof (cases x)
  case (Register u dto now)
  then show ?thesis by (simp add: registerToken_move)
next
  case (Revoke u k now)
  then show ?thesis by (simp add: revokeToken_def) (rule revoking, simp)
next
  case (SendUser env u payload now)
  then show ?thesis by (simp add: sendToUser_def dispatchBulk_effect) (rule revoking, simp)
next
  case (SendUsers env us payload now)
  then show ?thesis
    by (cases "us = []") (simp_all add: sendToUsers_def dispatchBulk_effect idle, rule revoking, simp)
qed

lemma refreshDevice_fields [simp]:
  "dt_token (refreshDevice dto now d) = dt_token d" "dt_userId (refreshDevice dto now d) = dt_userId d"
  "dt_revokedAt (refreshDevice dto now d) = None" "dt_id (refreshDevice dto now d) = dt_id d"
  by (simp_all add: refreshDevice_def)

lemma move_unique: "deviceMove x t t' \<Longrightarrow> unique dt_token t \<Longrightarrow> unique dt_token t'"
  by (induction rule: deviceMove.induct) (auto simp: unique_updateMany)

interpretation devices: invariant_system pushStep "\<lambda>w. unique dt_token (deviceTokens w)"
  by unfold_locales (rule move_unique [OF pushStep_move])

text \<open>The device with token \<open>k\<close> is not the user's, and only the user can make it so.\<close>

abbreviation foreign :: "uid \<Rightarrow> string \<Rightarrow> deviceToken list \<Rightarrow> bool" where
  "foreign u k t \<equiv> (\<forall>d \<in> set t. dt_token d = k \<longrightarrow> dt_userId d \<noteq> u)"

fun claims :: "uid \<Rightarrow> string \<Rightarrow> pushOp \<Rightarrow> bool" where
  "claims u k (Register v dto now) \<longleftrightarrow> v = u \<and> rg_token dto = k"
| "claims u k _ \<longleftrightarrow> False"

lemma move_foreign:
  assumes "deviceMove x t t'" and "\<not> claims u k x" and "foreign u k t"
  shows "foreign u k t'"
  using assms by (induction rule: deviceMove.induct) (auto simp: set_updateMany)

lemma run_foreign:
  "foreign u k (deviceTokens w) \<Longrightarrow> list_all (\<lambda>x. \<not> claims u k x) ops \<Longrightarrow> foreign u k (deviceTokens (fold pushStep ops w))"
  by (induction ops arbitrary: w) (auto dest: move_foreign [OF pushStep_move])

lemma registered_owner:
  assumes "unique dt_token (deviceTokens w)" and "fst (registerToken v dto now w) = Inr x"
    and "d \<in> set (deviceTokens (snd (registerToken v dto now w)))" and "dt_token d = rg_token dto"
  shows "dt_userId d = v \<and> dt_revokedAt d = None"
proof (cases "findUnique dt_token (rg_token dto) (deviceTokens w)")
  case None
  then have "rg_token dto \<notin> dt_token ` set (deviceTokens w)" by (simp add: findUnique_None)
  then have "dt_token r \<noteq> rg_token dto" if "r \<in> set (deviceTokens w)" for r using that by (metis image_eqI)
  then show ?thesis using None assms(2-4)
    by (auto simp: registerToken_def Let_def outcome split: if_splits)
next
  case (Some e)
  then have e: "e \<in> set (deviceTokens w)" "dt_token e = rg_token dto" by (auto dest: findUnique_Some)
  have one: "r = e" if "r \<in> set (deviceTokens w)" "dt_token r = rg_token dto" for r
    using unique_row [OF assms(1) that(1) e(1)] that(2) e(2) by simp
  show ?thesis using Some assms(2-4) one
    by (cases "dt_userId e = v") (auto simp: registerToken_def Let_def outcome set_updateMany split: if_splits)
qed

text \<open>
  C38: A push token follows its last owner: once a user has registered it, no message addressed
  to other users, to one or to several at once, goes to it, after any history of registrations,
  revocations and messages in which none of those registers it again; a round of messages goes
  to the devices of the addressed users that are not revoked and to no others.
\<close>

theorem push_follows_owner:
  assumes "unique dt_token (deviceTokens w0)" and "fst (registerToken v dto now w0) = Inr x" and "v \<notin> set us"
    and "w = fold pushStep ops (snd (registerToken v dto now w0))"
    and "\<forall>u \<in> set us. list_all (\<lambda>x. \<not> claims u (rg_token dto) x) ops"
  shows "(\<exists>sent. pushSent (snd (sendToUsers env us payload now' w)) = pushSent w @ sent \<and> rg_token dto \<notin> fst ` set sent \<and>
      fst ` set sent \<subseteq> dt_token ` {d \<in> set (deviceTokens w). dt_userId d \<in> set us \<and> dt_revokedAt d = None}) \<and>
    (u \<in> set us \<longrightarrow> (\<exists>sent. pushSent (snd (sendToUser env u payload now' w)) = pushSent w @ sent \<and> rg_token dto \<notin> fst ` set sent \<and>
      fst ` set sent \<subseteq> dt_token ` {d \<in> set (deviceTokens w). dt_userId d = u \<and> dt_revokedAt d = None}))"
proof -
  have f: "foreign u (rg_token dto) (deviceTokens w)" if u: "u \<in> set us" for u
  proof -
    have "foreign u (rg_token dto) (deviceTokens (snd (registerToken v dto now w0)))"
      using registered_owner [OF assms(1,2)] assms(3) u by blast
    then show ?thesis unfolding assms(4) by (rule run_foreign) (use assms(5) u in blast)
  qed
  show ?thesis
  proof (intro conjI impI)
    show "\<exists>sent. pushSent (snd (sendToUsers env us payload now' w)) = pushSent w @ sent \<and> rg_token dto \<notin> fst ` set sent \<and>
      fst ` set sent \<subseteq> dt_token ` {d \<in> set (deviceTokens w). dt_userId d \<in> set us \<and> dt_revokedAt d = None}"
    proof (cases "us = []")
      case True
      then show ?thesis by (simp add: sendToUsers_def)
    next
      case False
      have "\<forall>d \<in> set (deviceTokens w). dt_userId d \<in> set us \<longrightarrow> dt_token d \<noteq> rg_token dto" using f by blast
      then show ?thesis unfolding sendToUsers_def if_not_P [OF False]
        by - (intro exI conjI, rule dispatchBulk_effect(1), auto)
    qed
  next
    assume u: "u \<in> set us"
    show "\<exists>sent. pushSent (snd (sendToUser env u payload now' w)) = pushSent w @ sent \<and> rg_token dto \<notin> fst ` set sent \<and>
      fst ` set sent \<subseteq> dt_token ` {d \<in> set (deviceTokens w). dt_userId d = u \<and> dt_revokedAt d = None}"
      unfolding sendToUser_def by (intro exI conjI, rule dispatchBulk_effect(1)) (use f [OF u] in auto)
  qed
qed

text \<open>
  A round of messages counts every addressed device once, as success or failure, and
  revokes exactly the devices whose token a provider rejected; a later round leaves those out.
\<close>

theorem push_round:
  assumes "sendToUsers env us payload now w = (res, w')" and "us \<noteq> []"
  shows "dr_success res + dr_failure res = countRows (\<lambda>d. dt_userId d \<in> set us \<and> dt_revokedAt d = None) (deviceTokens w) \<and>
    set (dr_invalidTokens res) = {dt_token d | d. d \<in> set (deviceTokens w) \<and> dt_userId d \<in> set us \<and> dt_revokedAt d = None \<and> answerOf env payload d = Inr Invalid} \<and>
    deviceTokens w' = map (\<lambda>d. if dt_token d \<in> set (dr_invalidTokens res) then d\<lparr>dt_revokedAt := Some now\<rparr> else d) (deviceTokens w) \<and>
    set (dr_invalidTokens res) \<inter> fst ` set (drop (length (pushSent w')) (pushSent (snd (sendToUsers env' us' payload' now' w')))) = {}"
proof -
  let ?ds = "filter (\<lambda>d. dt_userId d \<in> set us \<and> dt_revokedAt d = None) (deviceTokens w)"
  have run: "res = fst (dispatchBulk env ?ds payload now w)" "w' = snd (dispatchBulk env ?ds payload now w)"
    using assms by (simp_all add: sendToUsers_def)
  have inv: "dr_invalidTokens res = refused env payload ?ds" unfolding run(1) by (rule dispatchBulk_effect(4))
  have t: "deviceTokens w' = map (\<lambda>d. if dt_token d \<in> set (dr_invalidTokens res) then d\<lparr>dt_revokedAt := Some now\<rparr> else d) (deviceTokens w)"
    unfolding run(2) inv dispatchBulk_effect(2) updateMany_def by simp
  have "dr_success res + dr_failure res = length ?ds"
    unfolding run(1) dispatchBulk_effect(5,6) by (rule sum_length_filter_compl)
  moreover have "dt_token d \<notin> set (dr_invalidTokens res)" if "d \<in> set (deviceTokens w')" "dt_revokedAt d = None" for d
    using that unfolding t by (auto split: if_splits)
  then have "set (dr_invalidTokens res) \<inter> fst ` set (drop (length (pushSent w')) (pushSent (snd (sendToUsers env' us' payload' now' w')))) = {}"
    by (auto simp: sendToUsers_def dispatchBulk_effect)
  ultimately show ?thesis using t inv by (auto simp: countRows_def)
qed

section \<open>A sample\<close>

text \<open>User \<open>a\<close> has registered the token \<open>k\<close>; the provider accepts every message.\<close>

definition sampleDevice :: deviceToken where
  "sampleDevice = \<lparr>dt_id = ''d'', dt_userId = ''a'', dt_token = ''k'', dt_platform = EXPO, dt_appVersion = None,
     dt_lastSeenAt = 0, dt_createdAt = 0, dt_revokedAt = None\<rparr>"

definition samplePush :: push_db where
  "samplePush = core_db.extend sampleCore \<lparr>deviceTokens = [sampleDevice, sampleDevice\<lparr>dt_id := ''e'', dt_token := ''l''\<rparr>], pushSent = []\<rparr>"

definition samplePushEnv :: push_env where
  "samplePushEnv = \<lparr>pv_dryRun = False, pv_dispatchers = (\<lambda>_. Some (\<lambda>_ _. Inr Ok))\<rparr>"

definition samplePayload :: pushPayload where
  "samplePayload = \<lparr>pp_title = ''t'', pp_body = ''b'', pp_data = None, pp_badge = None, pp_sound = None, pp_threadId = None\<rparr>"

definition sampleRegister :: registerDto where
  "sampleRegister = \<lparr>rg_token = ''k'', rg_platform = EXPO, rg_appVersion = None\<rparr>"

theorem push_follows_owner_witness:
  "\<exists>sent sent'. pushSent (snd (sendToUsers samplePushEnv [''a'', ''d''] samplePayload 9 (fold pushStep
       [SendUser samplePushEnv ''b'' samplePayload 7] (snd (registerToken ''b'' sampleRegister 5 samplePush))))) =
     pushSent (fold pushStep [SendUser samplePushEnv ''b'' samplePayload 7] (snd (registerToken ''b'' sampleRegister 5 samplePush))) @ sent \<and>
     ''k'' \<notin> fst ` set sent \<and> sent \<noteq> [] \<and>
     pushSent (snd (sendToUser samplePushEnv ''a'' samplePayload 9 (fold pushStep
       [SendUser samplePushEnv ''b'' samplePayload 7] (snd (registerToken ''b'' sampleRegister 5 samplePush))))) =
     pushSent (fold pushStep [SendUser samplePushEnv ''b'' samplePayload 7] (snd (registerToken ''b'' sampleRegister 5 samplePush))) @ sent' \<and>
     ''k'' \<notin> fst ` set sent' \<and> sent' \<noteq> []"
proof -
  let ?w = "fold pushStep [SendUser samplePushEnv ''b'' samplePayload 7] (snd (registerToken ''b'' sampleRegister 5 samplePush))"
  have u: "unique dt_token (deviceTokens samplePush)" by (simp add: samplePush_def sampleDevice_def core_db.defs)
  have "case fst (registerToken ''b'' sampleRegister 5 samplePush) of Inl e \<Rightarrow> False | Inr x \<Rightarrow> True" by code_simp
  then obtain x where r: "fst (registerToken ''b'' sampleRegister 5 samplePush) = Inr x" by (auto split: sum.splits)
  have v: "''b'' \<notin> set [''a'', ''d'']" and a: "''a'' \<in> set [''a'', ''d'']" by simp_all
  have ops: "\<forall>u \<in> set [''a'', ''d'']. list_all (\<lambda>x. \<not> claims u (rg_token sampleRegister) x) [SendUser samplePushEnv ''b'' samplePayload 7]" by simp
  have k: "rg_token sampleRegister = ''k''" by (simp add: sampleRegister_def)
  note both = push_follows_owner [OF u r v refl ops, of samplePushEnv samplePayload 9 "''a''", unfolded k]
  from conjunct1 [OF both] obtain sent where sent: "pushSent (snd (sendToUsers samplePushEnv [''a'', ''d''] samplePayload 9 ?w)) = pushSent ?w @ sent"
      "''k'' \<notin> fst ` set sent" by blast
  from conjunct2 [OF both] a obtain sent' where sent': "pushSent (snd (sendToUser samplePushEnv ''a'' samplePayload 9 ?w)) = pushSent ?w @ sent'"
      "''k'' \<notin> fst ` set sent'" by blast
  have "length (pushSent (snd (sendToUsers samplePushEnv [''a'', ''d''] samplePayload 9 ?w))) \<noteq> length (pushSent ?w)"
    "length (pushSent (snd (sendToUser samplePushEnv ''a'' samplePayload 9 ?w))) \<noteq> length (pushSent ?w)" by code_simp+
  then have "sent \<noteq> []" "sent' \<noteq> []" using sent(1) sent'(1) by (simp_all del: fold.simps)
  then show ?thesis using sent sent' by (intro exI [of _ sent] exI [of _ sent'] conjI)
qed

theorem push_round_witness:
  "dr_success (fst (sendToUsers (samplePushEnv\<lparr>pv_dispatchers := (\<lambda>_. Some (\<lambda>k _. Inr (if k = ''k'' then Invalid else Ok)))\<rparr>)
     [''a''] samplePayload 9 samplePush)) = 1 \<and>
   dr_success (fst (sendToUsers (samplePushEnv\<lparr>pv_dispatchers := (\<lambda>_. Some (\<lambda>k _. Inr (if k = ''k'' then Invalid else Ok)))\<rparr>)
     [''a''] samplePayload 9 samplePush)) +
   dr_failure (fst (sendToUsers (samplePushEnv\<lparr>pv_dispatchers := (\<lambda>_. Some (\<lambda>k _. Inr (if k = ''k'' then Invalid else Ok)))\<rparr>)
     [''a''] samplePayload 9 samplePush)) = 2"
proof -
  let ?env = "samplePushEnv\<lparr>pv_dispatchers := (\<lambda>_. Some (\<lambda>k _. Inr (if k = ''k'' then Invalid else Ok)))\<rparr>"
  have "dr_success (fst (sendToUsers ?env [''a''] samplePayload 9 samplePush)) +
      dr_failure (fst (sendToUsers ?env [''a''] samplePayload 9 samplePush)) =
      countRows (\<lambda>d. dt_userId d \<in> set [''a''] \<and> dt_revokedAt d = None) (deviceTokens samplePush)"
    using push_round [OF prod.collapse [symmetric], of "[''a'']" ?env samplePayload 9 samplePush] by blast
  moreover have "countRows (\<lambda>d. dt_userId d \<in> set [''a''] \<and> dt_revokedAt d = None) (deviceTokens samplePush) = 2" by code_simp
  moreover have "dr_success (fst (sendToUsers ?env [''a''] samplePayload 9 samplePush)) = 1" by code_simp
  ultimately show ?thesis by simp
qed

end
