(* ===== verification/Guards.thy ===== *)
theory Guards
  imports Flags
begin

text \<open>
  What stands before the services: \<open>auth/jwt-auth.guard.ts\<close>, \<open>common/guards/roles.guard.ts\<close>,
  \<open>common/guards/internal-token.guard.ts\<close>, the handshake of the WebSocket gateways, and
  \<open>common/filters/global-exception.filter.ts\<close> behind them. The JWT check and the HMAC are
  parameters; \<open>JSON.stringify(req.body ?? {})\<close> is an argument, the text of the body.
\<close>

section \<open>The access token\<close>

record accessPayload =
  ap_sub :: uid
  ap_username :: string
  ap_role :: "userRole option"
  ap_typ :: string

record guard_env =
  gv_verifyAccess :: "time \<Rightarrow> string \<Rightarrow> accessPayload option"
  gv_hmac :: "string \<Rightarrow> string \<Rightarrow> string"
  gv_secret :: "string option"

record authenticatedUser =
  au_userId :: uid
  au_username :: string
  au_role :: userRole

definition startsWith :: "string \<Rightarrow> string \<Rightarrow> bool" where
  "startsWith p s \<longleftrightarrow> take (length p) s = p"

text \<open>\<open>JwtAuthGuard.canActivate\<close>: the user that it puts into the request, none on a public route.\<close>

definition jwtGuard :: "guard_env \<Rightarrow> bool \<Rightarrow> string option \<Rightarrow> time \<Rightarrow> failure + authenticatedUser option" where
  "jwtGuard env isPublic authorization now =
     (if isPublic then Inr None
      else case truthy authorization of
             None \<Rightarrow> Inl (Http Unauthorized ''missing_token'' (Some UNAUTHORIZED) [])
           | Some header \<Rightarrow>
               if \<not> startsWith ''bearer '' (toLowerCase header)
               then Inl (Http Unauthorized ''missing_token'' (Some UNAUTHORIZED) [])
               else let token = trim (drop 7 header)
                 in case gv_verifyAccess env now token of
                      None \<Rightarrow> Inl (Http Unauthorized ''token_invalid'' (Some TOKEN_INVALID) [])
                    | Some payload \<Rightarrow>
                        if ap_typ payload \<noteq> ''access''
                        then Inl (Http Unauthorized ''token_invalid'' (Some TOKEN_INVALID) [])
                        else Inr (Some \<lparr>au_userId = ap_sub payload, au_username = ap_username payload,
                               au_role = (case ap_role payload of None \<Rightarrow> USER | Some r \<Rightarrow> r)\<rparr>))"

text \<open>\<open>RolesGuard.canActivate\<close>\<close>

fun roleName :: "userRole \<Rightarrow> string" where
  "roleName USER = ''USER''" | "roleName MODERATOR = ''MODERATOR''" | "roleName ADMIN = ''ADMIN''"

fun joinBar :: "string list \<Rightarrow> string" where
  "joinBar [] = []" | "joinBar [x] = x" | "joinBar (x # y # xs) = x @ '' | '' @ joinBar (y # xs)"

definition rolesGuard :: "userRole list option \<Rightarrow> authenticatedUser option \<Rightarrow> failure + unit" where
  "rolesGuard required user =
     (case required of
        None \<Rightarrow> Inr ()
      | Some roles \<Rightarrow>
          if roles = [] then Inr ()
          else case user of
                 None \<Rightarrow> Inl (Http Forbidden ''authentication_required'' (Some UNAUTHORIZED) [])
               | Some u \<Rightarrow>
                   if au_role u \<notin> set roles
                   then Inl (Http Forbidden ''insufficient_role'' (Some FORBIDDEN) [(''message'', DText (''Required role: '' @ joinBar (map roleName roles) @ '', got: '' @ roleName (au_role u)))])
                   else Inr ())"

text \<open>The guards of a route in their order, and the handler behind them.\<close>

definition guarded ::
  "guard_env \<Rightarrow> bool \<Rightarrow> userRole list option \<Rightarrow> string option \<Rightarrow> time \<Rightarrow>
   (authenticatedUser option \<Rightarrow> 'w \<Rightarrow> ('r, 'w) outcome) \<Rightarrow> 'w \<Rightarrow> ('r, 'w) outcome" where
  "guarded env isPublic required authorization now handler w =
     (case jwtGuard env isPublic authorization now of
        Inl e \<Rightarrow> raise e w
      | Inr user \<Rightarrow> (case rolesGuard required user of Inl e \<Rightarrow> raise e w | Inr _ \<Rightarrow> handler user w))"

text \<open>
  The handshake of a gateway: the token of \<open>auth\<close>, else the header without \<open>Bearer\<close>. The
  gamification gateway does not look at \<open>typ\<close>.
\<close>

definition stripBearer :: "string \<Rightarrow> string" where
  "stripBearer h =
     (if startsWith ''bearer'' (toLowerCase h) \<and> dropWhile isSpace (drop 6 h) \<noteq> drop 6 h
      then dropWhile isSpace (drop 6 h) else h)"

definition wsHandshake ::
  "guard_env \<Rightarrow> bool \<Rightarrow> string option \<Rightarrow> string option \<Rightarrow> time \<Rightarrow> string + (uid \<times> string)" where
  "wsHandshake env checkTyp authToken authorization now =
     (case truthy (case authToken of Some t \<Rightarrow> Some t | None \<Rightarrow> map_option stripBearer authorization) of
        None \<Rightarrow> Inl ''unauthorized''
      | Some token \<Rightarrow>
          (case gv_verifyAccess env now token of
             None \<Rightarrow> Inl ''auth_failed''
           | Some payload \<Rightarrow>
               if checkTyp \<and> ap_typ payload \<noteq> ''access'' then Inl ''token_type''
               else Inr (ap_sub payload, ap_username payload)))"

section \<open>Numbers and bytes as the internal guard reads them\<close>

definition isDigit :: "char \<Rightarrow> bool" where
  "isDigit c \<longleftrightarrow> digitOf c \<noteq> None"

text \<open>The value of a digit in any base up to 36.\<close>

definition digitVal :: "char \<Rightarrow> int option" where
  "digitVal c =
     (let n = of_char c :: int
      in if 48 \<le> n \<and> n \<le> 57 then Some (n - 48)
         else if 97 \<le> n \<and> n \<le> 122 then Some (n - 87)
         else if 65 \<le> n \<and> n \<le> 90 then Some (n - 55) else None)"

fun readBase :: "int \<Rightarrow> int \<Rightarrow> string \<Rightarrow> int option" where
  "readBase b acc [] = Some acc"
| "readBase b acc (c # cs) =
     (case digitVal c of None \<Rightarrow> None | Some d \<Rightarrow> if d < b then readBase b (b * acc + d) cs else None)"

definition nonEmpty :: "(string \<Rightarrow> 'a option) \<Rightarrow> string \<Rightarrow> 'a option" where
  "nonEmpty f s = (if s = [] then None else f s)"

definition exponentOf :: "string \<Rightarrow> int option" where
  "exponentOf e =
     (case e of
        [] \<Rightarrow> None
      | c # cs \<Rightarrow> if c = CHR ''-'' then map_option uminus (nonEmpty readDecimal cs)
                  else if c = CHR ''+'' then nonEmpty readDecimal cs
                  else readDecimal e)"

definition scale :: "rat \<Rightarrow> int \<Rightarrow> rat" where
  "scale m e = (if 0 \<le> e then m * 10 ^ nat e else m / 10 ^ nat (- e))"

text \<open>Digits with a fraction and an exponent.\<close>

definition unsignedDecimal :: "string \<Rightarrow> rat option" where
  "unsignedDecimal s =
     (let a = takeWhile isDigit s;
          r = dropWhile isDigit s;
          dot = (r \<noteq> [] \<and> hd r = CHR ''.'');
          b = (if dot then takeWhile isDigit (tl r) else []);
          r2 = (if dot then dropWhile isDigit (tl r) else r)
      in if a = [] \<and> b = [] then None
         else case readDecimal (a @ b) of
                None \<Rightarrow> None
              | Some n \<Rightarrow>
                  let m = scale (of_int n) (- int (length b))
                  in if r2 = [] then Some m
                     else if hd r2 = CHR ''e'' \<or> hd r2 = CHR ''E'' then map_option (scale m) (exponentOf (tl r2))
                     else None)"

text \<open>
  \<open>Number(s)\<close> for a finite result, before rounding; \<open>None\<close> is \<open>NaN\<close> or an infinity. A number above the
  range of doubles counts as infinite in the code and as a huge number here: the guard rejects both.
\<close>

definition jsNumber :: "string \<Rightarrow> rat option" where
  "jsNumber s =
     (let t = trim s
      in if t = [] then Some 0
         else if take 2 t \<in> {''0x'', ''0X''} then map_option of_int (nonEmpty (readBase 16 0) (drop 2 t))
         else if take 2 t \<in> {''0o'', ''0O''} then map_option of_int (nonEmpty (readBase 8 0) (drop 2 t))
         else if take 2 t \<in> {''0b'', ''0B''} then map_option of_int (nonEmpty (readBase 2 0) (drop 2 t))
         else if hd t = CHR ''-'' then map_option uminus (unsignedDecimal (tl t))
         else if hd t = CHR ''+'' then unsignedDecimal (tl t)
         else unsignedDecimal t)"

text \<open>\<open>Buffer.from(s, 'hex')\<close>: decoding ends at the first pair that is not hexadecimal.\<close>

fun hexBytes :: "string \<Rightarrow> int list" where
  "hexBytes (a # b # cs) =
     (case (digitVal a, digitVal b) of
        (Some x, Some y) \<Rightarrow> if x < 16 \<and> y < 16 then (16 * x + y) # hexBytes cs else []
      | _ \<Rightarrow> [])"
| "hexBytes _ = []"

section \<open>Internal calls\<close>

definition NONCE_PREFIX :: string where "NONCE_PREFIX = ''internal:fanout:nonce:''"

record internalHeaders =
  ih_ts :: "string option"
  ih_nonce :: "string option"
  ih_sig :: "string option"

text \<open>An exception made with a text has the name of its status as \<open>error\<close> and no code.\<close>

definition unauthorizedText :: "string \<Rightarrow> failure" where
  "unauthorizedText msg = Http Unauthorized ''Unauthorized'' None [(''message'', DText msg)]"

definition signedText :: "string \<Rightarrow> string \<Rightarrow> string \<Rightarrow> string" where
  "signedText ts nonce body = ts @ ''.'' @ nonce @ ''.'' @ body"

definition internalGuard ::
  "guard_env \<Rightarrow> internalHeaders \<Rightarrow> string \<Rightarrow> time \<Rightarrow> 'a core_db_scheme \<Rightarrow> (unit, 'a core_db_scheme) outcome" where
  "internalGuard env h body now w =
     (case (truthy (ih_ts h), truthy (ih_nonce h), truthy (ih_sig h)) of
        (Some ts, Some nonce, Some sig) \<Rightarrow>
          if (case jsNumber ts of None \<Rightarrow> True | Some t \<Rightarrow> \<bar>of_int now - t\<bar> > 30000)
          then raise (unauthorizedText ''internal_auth_stale'') w
          else (case truthy (gv_secret env) of
            None \<Rightarrow> raise (unauthorizedText ''internal_auth_misconfigured'') w
          | Some secret \<Rightarrow>
              if length secret < 32 then raise (unauthorizedText ''internal_auth_misconfigured'') w
              else if hexBytes sig \<noteq> hexBytes (gv_hmac env secret (signedText ts nonce body))
              then raise (unauthorizedText ''internal_auth_bad_sig'') w
              else let (ok, s) = kvSetNx now (NONCE_PREFIX @ nonce) ''1'' 60 (rd_keys w)
                in if \<not> ok then raise (unauthorizedText ''internal_auth_replay'') (w\<lparr>rd_keys := s\<rparr>)
                   else ret () (w\<lparr>rd_keys := s\<rparr>))
      | _ \<Rightarrow> raise (unauthorizedText ''internal_auth_missing'') w)"

text \<open>The headers that \<open>FanoutService.emitToPartyUser\<close> signs.\<close>

definition signCall :: "guard_env \<Rightarrow> string \<Rightarrow> string \<Rightarrow> string \<Rightarrow> time \<Rightarrow> internalHeaders" where
  "signCall env secret nonce body now =
     (let ts = showDecimal now
      in \<lparr>ih_ts = Some ts, ih_nonce = Some nonce, ih_sig = Some (gv_hmac env secret (signedText ts nonce body))\<rparr>)"

section \<open>The error response\<close>

fun statusOf :: "http_exception \<Rightarrow> nat" where
  "statusOf BadRequest = 400" | "statusOf Unauthorized = 401" | "statusOf Forbidden = 403"
| "statusOf NotFound = 404" | "statusOf Conflict = 409" | "statusOf TooManyRequests = 429"
| "statusOf ServiceUnavailable = 503"

definition INTERNAL :: nat where "INTERNAL = 5000"

definition inferCode :: "nat \<Rightarrow> nat" where
  "inferCode status =
     (if status = 400 then VALIDATION_FAILED else if status = 401 then UNAUTHORIZED
      else if status = 403 then FORBIDDEN else if status = 404 then NOT_FOUND
      else if status = 409 then CONFLICT else if status = 429 then RATE_LIMITED else INTERNAL)"

record errorResponse =
  er_status :: nat
  er_error :: string
  er_code :: nat
  er_details :: "detail option"

text \<open>
  \<open>GlobalExceptionFilter.catch\<close>. The exceptions of the model all carry an \<open>error\<close>, so \<open>inferError\<close> is
  never asked.
\<close>

definition catchFailure :: "failure \<Rightarrow> errorResponse" where
  "catchFailure f =
     (case f of
        Http ex err code rest \<Rightarrow>
          \<lparr>er_status = statusOf ex, er_error = err,
           er_code = (case code of None \<Rightarrow> inferCode (statusOf ex) | Some c \<Rightarrow> c),
           er_details = map_of rest ''details''\<rparr>
      | _ \<Rightarrow> \<lparr>er_status = 500, er_error = ''internal_server_error'', er_code = INTERNAL, er_details = None\<rparr>)"

section \<open>Routes\<close>

text \<open>Which user a token speaks for.\<close>

definition speaksFor :: "guard_env \<Rightarrow> time \<Rightarrow> string \<Rightarrow> authenticatedUser \<Rightarrow> bool" where
  "speaksFor env now token u \<longleftrightarrow>
     (case gv_verifyAccess env now token of
        None \<Rightarrow> False
      | Some p \<Rightarrow> ap_typ p = ''access'' \<and> au_userId u = ap_sub p \<and> au_username u = ap_username p \<and>
          au_role u = (case ap_role p of None \<Rightarrow> USER | Some r \<Rightarrow> r))"

lemma jwtGuard_user:
  assumes "jwtGuard env False authorization now = Inr x"
  shows "\<exists>u header. x = Some u \<and> authorization = Some header \<and> startsWith ''bearer '' (toLowerCase header) \<and>
    speaksFor env now (trim (drop 7 header)) u"
proof -
  obtain header where h: "authorization = Some header" "truthy authorization = Some header"
    using assms by (cases authorization) (auto simp: jwtGuard_def truthy_def split: if_splits)
  have start: "startsWith ''bearer '' (toLowerCase header)"
    using assms h(2) by (simp add: jwtGuard_def split: if_splits)
  obtain p where p: "gv_verifyAccess env now (trim (drop 7 header)) = Some p"
    using assms h(2) start by (cases "gv_verifyAccess env now (trim (drop 7 header))") (simp_all add: jwtGuard_def)
  have "ap_typ p = ''access''" using assms h(2) start p by (simp add: jwtGuard_def split: if_splits)
  then have "x = Some \<lparr>au_userId = ap_sub p, au_username = ap_username p, au_role = (case ap_role p of None \<Rightarrow> USER | Some r \<Rightarrow> r)\<rparr>"
    using assms h(2) start p by (simp add: jwtGuard_def)
  then show ?thesis using h(1) start p \<open>ap_typ p = ''access''\<close> by (simp add: speaksFor_def)
qed

lemma jwtGuard_public [simp]: "jwtGuard env True authorization now = Inr None"
  by (simp add: jwtGuard_def)

lemma rolesGuard_ok:
  "rolesGuard required user = Inr () \<longleftrightarrow>
     (case required of None \<Rightarrow> True | Some roles \<Rightarrow> roles = [] \<or> (\<exists>u. user = Some u \<and> au_role u \<in> set roles))"
  by (auto simp: rolesGuard_def split: option.split)

text \<open>
  C40: a route with roles does its work only for a bearer token that verifies as an access token
  of a user with one of the roles; whatever else comes is refused with 401 or 403 and leaves
  the state as it is.
\<close>

theorem roles_gate:
  assumes "guarded env False (Some roles) authorization now handler w = (r, w')" and "roles \<noteq> []"
  shows "(\<exists>u header. authorization = Some header \<and> speaksFor env now (trim (drop 7 header)) u \<and> au_role u \<in> set roles \<and>
            (r, w') = handler (Some u) w) \<or>
    (\<exists>e. r = Inl e \<and> er_status (catchFailure e) \<in> {401, 403} \<and> w' = w)"
proof (cases "jwtGuard env False authorization now")
  case (Inl e)
  then have "er_status (catchFailure e) = 401"
    by (auto simp: jwtGuard_def Let_def catchFailure_def split: option.splits if_splits)
  moreover have "r = Inl e \<and> w' = w" using assms Inl by (simp add: guarded_def raise_def)
  ultimately show ?thesis by blast
next
  case (Inr x)
  obtain u header where u: "x = Some u" "authorization = Some header" "speaksFor env now (trim (drop 7 header)) u"
    using jwtGuard_user [OF Inr] by blast
  show ?thesis
  proof (cases "au_role u \<in> set roles")
    case True
    then show ?thesis using assms Inr u by (auto simp: guarded_def rolesGuard_def)
  next
    case False
    then show ?thesis using assms Inr u by (auto simp: guarded_def rolesGuard_def raise_def catchFailure_def)
  qed
qed

text \<open>
  The filter passes on only \<open>error\<close>, \<open>code\<close> and \<open>details\<close>: the party in which a user already is, and
  the texts of the guards, do not reach the client.
\<close>

lemma other_fields_dropped:
  "catchFailure (Http Conflict ''user_already_in_party'' (Some CONFLICT) [(''partyId'', DText p)]) =
   catchFailure (Http Conflict ''user_already_in_party'' (Some CONFLICT) [])"
  by (simp add: catchFailure_def)

section \<open>Internal calls are accepted once\<close>

text \<open>
  What happens to the keys of Redis: internal calls, and the writes of other services to keys
  that are not nonces.
\<close>

datatype keyOp =
    InternalCall internalHeaders string time
  | OtherSet string string "time option"
  | OtherDel string

definition nonceKey :: "string \<Rightarrow> bool" where
  "nonceKey k \<longleftrightarrow> startsWith NONCE_PREFIX k"

fun keyStep :: "guard_env \<Rightarrow> keyOp \<Rightarrow> 'a core_db_scheme \<Rightarrow> 'a core_db_scheme" where
  "keyStep env (InternalCall h body now) w = snd (internalGuard env h body now w)"
| "keyStep env (OtherSet k v ex) w = (if nonceKey k then w else w\<lparr>rd_keys := kvSet k v ex (rd_keys w)\<rparr>)"
| "keyStep env (OtherDel k) w = (if nonceKey k then w else w\<lparr>rd_keys := kvDel k (rd_keys w)\<rparr>)"

text \<open>The nonce is taken until \<open>t\<close>.\<close>

definition spentUntil :: "string \<Rightarrow> time \<Rightarrow> 'a core_db_scheme \<Rightarrow> bool" where
  "spentUntil nonce t w \<longleftrightarrow> (\<forall>now < t. kvGet now (NONCE_PREFIX @ nonce) (rd_keys w) \<noteq> None)"

lemma nonceKey_prefix [simp]: "nonceKey (NONCE_PREFIX @ n)"
  by (simp add: nonceKey_def startsWith_def)

lemma internalGuard_keys:
  "rd_keys (snd (internalGuard env h body now w)) = rd_keys w \<or>
   (\<exists>nonce. ih_nonce h = Some nonce \<and> kvGet now (NONCE_PREFIX @ nonce) (rd_keys w) = None \<and>
      rd_keys (snd (internalGuard env h body now w)) = kvSet (NONCE_PREFIX @ nonce) ''1'' (Some (now + 60 * 1000)) (rd_keys w))"
  by (auto simp: internalGuard_def truthy_def Let_def kvSetNx_def raise_def ret_def split: option.split)

lemma spent_step: "spentUntil nonce t w \<Longrightarrow> spentUntil nonce t (keyStep env x w)"
proof (cases x)
  case (InternalCall h body now)
  assume s: "spentUntil nonce t w"
  from internalGuard_keys [of env h body now w] show ?thesis
  proof (elim disjE exE conjE)
    assume "rd_keys (snd (internalGuard env h body now w)) = rd_keys w"
    then show ?thesis using s InternalCall by (simp add: spentUntil_def)
  next
    fix n
    assume k: "kvGet now (NONCE_PREFIX @ n) (rd_keys w) = None"
      and r: "rd_keys (snd (internalGuard env h body now w)) = kvSet (NONCE_PREFIX @ n) ''1'' (Some (now + 60 * 1000)) (rd_keys w)"
    have "\<not> now < t" if "n = nonce" using that k s by (auto simp: spentUntil_def)
    then show ?thesis using s InternalCall by (auto simp: spentUntil_def r kvGet_Set)
  qed
next
  case (OtherSet k v ex)
  assume "spentUntil nonce t w"
  then show ?thesis using OtherSet by (auto simp: spentUntil_def kvGet_Set)
next
  case (OtherDel k)
  assume "spentUntil nonce t w"
  then show ?thesis using OtherDel by (auto simp: spentUntil_def kvGet_Del)
qed

interpretation spent: invariant_system "keyStep env" "spentUntil nonce t"
  by unfold_locales (rule spent_step)

lemma accepted:
  assumes "fst (internalGuard env h body now w) = Inr ()"
  obtains ts nonce t where "ih_ts h = Some ts" and "ih_nonce h = Some nonce" and "jsNumber ts = Some t"
    and "\<bar>of_int now - t\<bar> \<le> 30000" and "kvGet now (NONCE_PREFIX @ nonce) (rd_keys w) = None"
    and "rd_keys (snd (internalGuard env h body now w)) = kvSet (NONCE_PREFIX @ nonce) ''1'' (Some (now + 60 * 1000)) (rd_keys w)"
  using assms by (auto simp: internalGuard_def truthy_def Let_def kvSetNx_def raise_def ret_def split: option.splits if_splits)

text \<open>
  C14: a signed internal call is accepted once: after it, over any history of internal calls and of
  writes to other keys, in any order of their times, no call with its time stamp and nonce is
  accepted again, whatever its signature and body. (Excepted is the one millisecond in which the key of the
  nonce ends and the stamp, taken 30 s too early, is not yet 30 s late.)
\<close>

theorem internal_call_once:
  assumes "fst (internalGuard env h body now w) = Inr ()"
    and "v = fold (keyStep env) ops (snd (internalGuard env h body now w))"
    and "ih_ts h' = ih_ts h" and "ih_nonce h' = ih_nonce h" and "now' \<noteq> now + 60 * 1000"
  shows "\<exists>e. fst (internalGuard env h' body' now' v) = Inl e \<and> er_status (catchFailure e) = 401"
proof (rule accepted [OF assms(1)])
  fix ts nonce t
  assume h: "ih_ts h = Some ts" "ih_nonce h = Some nonce" "jsNumber ts = Some t" "\<bar>of_int now - t\<bar> \<le> 30000"
    and k: "rd_keys (snd (internalGuard env h body now w)) = kvSet (NONCE_PREFIX @ nonce) ''1'' (Some (now + 60 * 1000)) (rd_keys w)"
  have "spentUntil nonce (now + 60 * 1000) (snd (internalGuard env h body now w))"
    by (simp add: spentUntil_def k kvGet_Set)
  then have spent: "spentUntil nonce (now + 60 * 1000) v" unfolding assms(2) by (rule spent.run_inv)
  have "fst (internalGuard env h' body' now' v) \<noteq> Inr ()"
  proof
    assume again: "fst (internalGuard env h' body' now' v) = Inr ()"
    obtain t' where t': "jsNumber ts = Some t'" "\<bar>of_int now' - t'\<bar> \<le> 30000"
        "kvGet now' (NONCE_PREFIX @ nonce) (rd_keys v) = None"
      by (rule accepted [OF again]) (use h(1,2) assms(3,4) in auto)
    have "\<not> now' < now + 60 * 1000" using spent t'(3) by (auto simp: spentUntil_def)
    moreover have "of_int now' \<le> (of_int (now + 60 * 1000) :: rat)" using h(3,4) t'(1,2) by simp
    then have "now' \<le> now + 60 * 1000" by (simp only: of_int_le_iff)
    ultimately show False using assms(5) by simp
  qed
  then show ?thesis
    by (auto simp: internalGuard_def Let_def raise_def ret_def unauthorizedText_def catchFailure_def
        split: option.splits prod.splits if_splits)
qed

section \<open>What the fan-out signs is accepted\<close>

lemma digits_showDecimal: "0 \<le> n \<Longrightarrow> c \<in> set (showDecimal n) \<Longrightarrow> isDigit c"
proof (induction n rule: showDecimal.induct)
  case (1 n)
  then show ?case
    by (cases "n < 10") (auto simp: showDecimal.simps [of n] isDigit_def digitOf_char)
qed

lemma isDigit_not: "isDigit c \<Longrightarrow> \<not> isSpace c \<and> c \<noteq> CHR ''x'' \<and> c \<noteq> CHR ''X'' \<and> c \<noteq> CHR ''o'' \<and> c \<noteq> CHR ''O'' \<and>
    c \<noteq> CHR ''b'' \<and> c \<noteq> CHR ''B'' \<and> c \<noteq> CHR ''-'' \<and> c \<noteq> CHR ''+''"
proof -
  assume d: "isDigit c"
  have "c \<in> char_of ` {9, 10, 11, 12, 13, 32, 160 :: nat}" if "isSpace c"
    using that unfolding isSpace_def by (metis char_of_char image_eqI)
  then have "\<not> isSpace c" using d by (auto simp: isDigit_def digitOf_def char_of_def bit_Suc_0_iff)
  then show ?thesis using d by (auto simp: isDigit_def digitOf_def)
qed

lemma trim_digits: "(\<And>c. c \<in> set s \<Longrightarrow> isDigit c) \<Longrightarrow> trim s = s"
proof -
  assume d: "\<And>c. c \<in> set s \<Longrightarrow> isDigit c"
  have "dropWhile isSpace t = t" if "set t \<subseteq> set s" for t
    using that d isDigit_not by (cases t) auto
  then show ?thesis by (simp add: trim_def)
qed

lemma jsNumber_show: "0 \<le> n \<Longrightarrow> jsNumber (showDecimal n) = Some (of_int n)"
proof -
  assume n: "0 \<le> n"
  let ?s = "showDecimal n"
  note d = digits_showDecimal [OF n]
  have w: "takeWhile isDigit ?s = ?s" "dropWhile isDigit ?s = []"
    using d by (auto simp: takeWhile_eq_all_conv dropWhile_eq_Nil_conv)
  obtain c cs where s: "?s = c # cs" by (cases ?s) auto
  have c: "isDigit c" and cs: "cs = [] \<or> isDigit (hd cs)" using d s by (cases cs; auto)+
  have "take 2 ?s \<notin> {''0x'', ''0X'', ''0o'', ''0O'', ''0b'', ''0B''}"
    using isDigit_not cs s by (cases cs) auto
  moreover have "hd ?s \<noteq> CHR ''-''" "hd ?s \<noteq> CHR ''+''" using isDigit_not [OF c] s by auto
  ultimately show ?thesis using readDecimal_show [OF n]
    by (simp add: jsNumber_def trim_digits [OF d] unsignedDecimal_def w Let_def scale_def)
qed

text \<open>
  A call that the fan-out signs with the shared secret is accepted by every replica that receives it within
  thirty seconds, as long as its nonce is new there; with another secret it is accepted only if
  the two signatures agree.
\<close>

theorem signed_call_accepted:
  assumes "gv_secret env = Some secret" and "32 \<le> length secret" and "0 \<le> now" and "nonce \<noteq> []"
    and "gv_hmac env secret (signedText (showDecimal now) nonce body) \<noteq> []"
    and "\<bar>now' - now\<bar> \<le> 30000" and "kvGet now' (NONCE_PREFIX @ nonce) (rd_keys w) = None"
  shows "fst (internalGuard env (signCall env secret nonce body now) body now' w) = Inr () \<and>
    (fst (internalGuard env (signCall env other nonce body now) body now' w) = Inr () \<longrightarrow>
       hexBytes (gv_hmac env other (signedText (showDecimal now) nonce body)) =
       hexBytes (gv_hmac env secret (signedText (showDecimal now) nonce body)))"
proof -
  have "\<bar>of_int now' - of_int now :: rat\<bar> \<le> 30000"
    using assms(6) by (metis of_int_diff of_int_abs of_int_le_iff of_int_numeral)
  moreover have "secret \<noteq> []" using assms(2) by auto
  ultimately have near: "\<not> (30000 < \<bar>of_int now' - of_int now :: rat\<bar>)" by simp
  then show ?thesis using assms(1,2,4,5,7) jsNumber_show [OF assms(3)] \<open>secret \<noteq> []\<close>
    by (auto simp: internalGuard_def signCall_def truthy_def Let_def kvSetNx_def raise_def ret_def
        split: option.splits if_splits)
qed

section \<open>A sample\<close>

definition sampleSecret :: string where "sampleSecret = replicate 32 (CHR ''s'')"

definition sampleGuardEnv :: guard_env where
  "sampleGuardEnv =
     \<lparr>gv_verifyAccess = (\<lambda>now t. if t = ''tok'' then Some \<lparr>ap_sub = ''m'', ap_username = ''mod'', ap_role = Some MODERATOR, ap_typ = ''access''\<rparr>
        else None),
      gv_hmac = (\<lambda>secret text. if even (length text) then ''a0'' else ''b1''), gv_secret = Some sampleSecret\<rparr>"

theorem roles_gate_witness:
  "(\<exists>u. speaksFor sampleGuardEnv 5 ''tok'' u \<and> au_role u \<in> set [ADMIN, MODERATOR]) \<and>
   fst (guarded sampleGuardEnv False (Some [ADMIN]) (Some ''Bearer tok'') 5 (\<lambda>_ w. ret () w) sampleCore) \<noteq> Inr ()"
proof -
  let ?r = "guarded sampleGuardEnv False (Some [ADMIN, MODERATOR]) (Some ''Bearer tok'') 5 (\<lambda>_ w. ret (1::int) w) sampleCore"
  have "case fst ?r of Inl e \<Rightarrow> False | Inr x \<Rightarrow> True" by code_simp
  then have "\<exists>x. fst ?r = Inr x" by (simp split: sum.splits)
  with roles_gate [OF prod.collapse [symmetric, of ?r]] have "\<exists>u. speaksFor sampleGuardEnv 5 (trim (drop 7 ''Bearer tok'')) u \<and> au_role u \<in> set [ADMIN, MODERATOR]"
    by auto
  moreover have "trim (drop 7 ''Bearer tok'') = ''tok''" by code_simp
  ultimately have "\<exists>u. speaksFor sampleGuardEnv 5 ''tok'' u \<and> au_role u \<in> set [ADMIN, MODERATOR]" by metis
  moreover have "case fst (guarded sampleGuardEnv False (Some [ADMIN]) (Some ''Bearer tok'') 5 (\<lambda>_ w. ret () w) sampleCore) of
      Inl e \<Rightarrow> True | Inr x \<Rightarrow> False" by code_simp
  ultimately show ?thesis by (auto split: sum.splits)
qed

theorem internal_call_once_witness:
  "\<exists>e. fst (internalGuard sampleGuardEnv (signCall sampleGuardEnv sampleSecret ''n1'' ''{}'' 100000) ''{}'' 101000
     (fold (keyStep sampleGuardEnv)
        [OtherSet ''refresh:a:1'' ''1'' None, InternalCall (signCall sampleGuardEnv sampleSecret ''n2'' ''{}'' 100500) ''{}'' 100600]
        (snd (internalGuard sampleGuardEnv (signCall sampleGuardEnv sampleSecret ''n1'' ''{}'' 100000) ''{}'' 100200 sampleCore)))) = Inl e"
proof -
  let ?h = "signCall sampleGuardEnv sampleSecret ''n1'' ''{}'' 100000"
  have "case fst (internalGuard sampleGuardEnv ?h ''{}'' 100200 sampleCore) of Inl e \<Rightarrow> False | Inr x \<Rightarrow> True" by code_simp
  then have one: "fst (internalGuard sampleGuardEnv ?h ''{}'' 100200 sampleCore) = Inr ()" by (auto split: sum.splits)
  have "(101000 :: int) \<noteq> 100200 + 60 * 1000" by simp
  from internal_call_once [OF one refl refl refl this] show ?thesis by blast
qed

theorem signed_call_accepted_witness:
  "fst (internalGuard sampleGuardEnv (signCall sampleGuardEnv sampleSecret ''n1'' ''{}'' 100000) ''{}'' 120000 sampleCore) = Inr ()"
proof -
  have "gv_hmac sampleGuardEnv sampleSecret (signedText (showDecimal 100000) ''n1'' ''{}'') \<noteq> []"
    by (simp add: sampleGuardEnv_def)
  moreover have "kvGet 120000 (NONCE_PREFIX @ ''n1'') (rd_keys sampleCore) = None" by (simp add: sampleCore_def kvGet_def)
  moreover have "gv_secret sampleGuardEnv = Some sampleSecret" "32 \<le> length sampleSecret"
    by (simp_all add: sampleGuardEnv_def sampleSecret_def)
  ultimately show ?thesis using signed_call_accepted [of sampleGuardEnv sampleSecret 100000 "''n1''" "''{}''" 120000 sampleCore] by simp
qed

end
