(* ===== verification/Sockets.thy ===== *)
theory Sockets
  imports Prelude
begin

text \<open>
  The sockets of a WebSocket namespace, as the gateways use them (socket.io with its Redis
  adapter): each connected socket carries the user of its token, its rooms, and what has been sent to
  it, in order. The locale \<open>room_policy\<close> is the contract of a gateway that checks membership when
  a socket joins a room: who is in a room, and who has been sent its events, was a member.
\<close>

record 'e socket =
  sk_id :: string
  sk_userId :: uid
  sk_username :: string
  sk_rooms :: "string list"
  sk_inbox :: "'e list"

definition userRoom :: "uid \<Rightarrow> string" where
  "userRoom u = ''user:'' @ u"

text \<open>\<open>handleConnection\<close>: the socket is in the room of its user.\<close>

definition connectSocket :: "string \<Rightarrow> uid \<Rightarrow> string \<Rightarrow> 'e socket list \<Rightarrow> 'e socket list" where
  "connectSocket i u name socks =
     (if i \<in> sk_id ` set socks then socks
      else socks @ [\<lparr>sk_id = i, sk_userId = u, sk_username = name, sk_rooms = [userRoom u], sk_inbox = []\<rparr>])"

definition dropSocket :: "string \<Rightarrow> 'e socket list \<Rightarrow> 'e socket list" where
  "dropSocket i socks = filter (\<lambda>s. sk_id s \<noteq> i) socks"

definition joinRoom :: "string \<Rightarrow> string \<Rightarrow> 'e socket list \<Rightarrow> 'e socket list" where
  "joinRoom i room socks = map (\<lambda>s. if sk_id s = i \<and> room \<notin> set (sk_rooms s) then s\<lparr>sk_rooms := sk_rooms s @ [room]\<rparr> else s) socks"

definition leaveRoom :: "string \<Rightarrow> string \<Rightarrow> 'e socket list \<Rightarrow> 'e socket list" where
  "leaveRoom i room socks = map (\<lambda>s. if sk_id s = i then s\<lparr>sk_rooms := filter (\<lambda>r. r \<noteq> room) (sk_rooms s)\<rparr> else s) socks"

text \<open>\<open>server.to(room).except(id).emit\<close> and \<open>client.emit\<close>\<close>

definition emitRoom :: "string \<Rightarrow> string option \<Rightarrow> 'e \<Rightarrow> 'e socket list \<Rightarrow> 'e socket list" where
  "emitRoom room skip e socks =
     map (\<lambda>s. if room \<in> set (sk_rooms s) \<and> skip \<noteq> Some (sk_id s) then s\<lparr>sk_inbox := sk_inbox s @ [e]\<rparr> else s) socks"

definition emitClient :: "string \<Rightarrow> 'e \<Rightarrow> 'e socket list \<Rightarrow> 'e socket list" where
  "emitClient i e socks = map (\<lambda>s. if sk_id s = i then s\<lparr>sk_inbox := sk_inbox s @ [e]\<rparr> else s) socks"

definition emitAll :: "'e \<Rightarrow> 'e socket list \<Rightarrow> 'e socket list" where
  "emitAll e socks = map (\<lambda>s. s\<lparr>sk_inbox := sk_inbox s @ [e]\<rparr>) socks"

definition findSocket :: "string \<Rightarrow> 'e socket list \<Rightarrow> 'e socket option" where
  "findSocket i socks = findUnique sk_id i socks"

section \<open>Who is in a room, and who has been sent what\<close>

text \<open>
  \<open>allowed u r\<close> says that user \<open>u\<close> may be in room \<open>r\<close>; \<open>about e\<close> is the room of an event that only its
  room is sent, none for an answer to one socket.
\<close>

definition policed :: "(uid \<Rightarrow> string \<Rightarrow> bool) \<Rightarrow> ('e \<Rightarrow> string option) \<Rightarrow> 'e socket list \<Rightarrow> bool" where
  "policed allowed about socks \<longleftrightarrow>
     distinct (map sk_id socks) \<and>
     (\<forall>s \<in> set socks. (\<forall>r \<in> set (sk_rooms s). allowed (sk_userId s) r) \<and>
        (\<forall>e \<in> set (sk_inbox s). \<forall>r. about e = Some r \<longrightarrow> allowed (sk_userId s) r))"

lemma policed_mono: "policed f about socks \<Longrightarrow> (\<And>u r. f u r \<Longrightarrow> g u r) \<Longrightarrow> policed g about socks"
  unfolding policed_def by blast

text \<open>An operation that changes each socket on its own, and not who it is.\<close>

lemma policed_map:
  assumes "policed f about socks" and "\<And>s. sk_id (g s) = sk_id s" and "\<And>s. sk_userId (g s) = sk_userId s"
    and "\<And>s r. s \<in> set socks \<Longrightarrow> r \<in> set (sk_rooms (g s)) \<Longrightarrow> r \<notin> set (sk_rooms s) \<Longrightarrow> f (sk_userId s) r"
    and "\<And>s e r. s \<in> set socks \<Longrightarrow> e \<in> set (sk_inbox (g s)) \<Longrightarrow> e \<notin> set (sk_inbox s) \<Longrightarrow> about e = Some r \<Longrightarrow>
      r \<in> set (sk_rooms s) \<or> f (sk_userId s) r"
  shows "policed f about (map g socks)"
proof -
  have "map sk_id (map g socks) = map sk_id socks" using assms(2) by simp
  then show ?thesis using assms unfolding policed_def by (simp only: set_map ball_simps) blast
qed

named_theorems policed \<open>the socket operations that keep to a policy\<close>

lemma policed_connect [policed]:
  "policed f about socks \<Longrightarrow> f u (userRoom u) \<Longrightarrow> policed f about (connectSocket i u name socks)"
  by (auto simp: policed_def connectSocket_def)

lemma policed_drop [policed]: "policed f about socks \<Longrightarrow> policed f about (dropSocket i socks)"
  by (auto simp: policed_def dropSocket_def distinct_map inj_on_def)

lemma policed_join [policed]:
  "policed f about socks \<Longrightarrow> (\<And>s. s \<in> set socks \<Longrightarrow> sk_id s = i \<Longrightarrow> f (sk_userId s) room) \<Longrightarrow>
   policed f about (joinRoom i room socks)"
  unfolding joinRoom_def by (rule policed_map) (auto split: if_splits)

lemma policed_leave [policed]: "policed f about socks \<Longrightarrow> policed f about (leaveRoom i room socks)"
  unfolding leaveRoom_def by (rule policed_map) (auto split: if_splits)

lemma policed_room [policed]:
  "policed f about socks \<Longrightarrow> about e \<in> {None, Some room} \<Longrightarrow> policed f about (emitRoom room skip e socks)"
  unfolding emitRoom_def by (rule policed_map) (auto split: if_splits)

text \<open>An event of a room that is sent to a user instead, who may be in that room.\<close>

lemma policed_user [policed]:
  assumes "policed f about socks" and "\<And>r. about e = Some r \<Longrightarrow> f u r" and "\<And>v. f v (userRoom u) \<Longrightarrow> v = u"
  shows "policed f about (emitRoom (userRoom u) skip e socks)"
proof -
  have "f (sk_userId s) r'" if s: "s \<in> set socks" "userRoom u \<in> set (sk_rooms s)" "about e = Some r'" for s r'
  proof -
    have "f (sk_userId s) (userRoom u)" using assms(1) s(1,2) unfolding policed_def by blast
    from assms(3) [OF this] show ?thesis using assms(2) s(3) by simp
  qed
  then show ?thesis unfolding emitRoom_def using assms(1) by (intro policed_map) (auto split: if_splits)
qed

lemma policed_client [policed]: "policed f about socks \<Longrightarrow> about e = None \<Longrightarrow> policed f about (emitClient i e socks)"
  unfolding emitClient_def by (rule policed_map) (auto split: if_splits)

lemma policed_all [policed]: "policed f about socks \<Longrightarrow> about e = None \<Longrightarrow> policed f about (emitAll e socks)"
  unfolding emitAll_def by (rule policed_map) auto

lemma policed_find: "policed f about socks \<Longrightarrow> findSocket i socks = Some c \<Longrightarrow> s \<in> set socks \<Longrightarrow> sk_id s = i \<Longrightarrow> s = c"
proof -
  assume "policed f about socks" and c: "findSocket i socks = Some c" and s: "s \<in> set socks" "sk_id s = i"
  then have "inj_on sk_id (set socks)" by (simp add: policed_def distinct_map)
  moreover have "c \<in> set socks \<and> sk_id c = i" using c unfolding findSocket_def by (rule findUnique_Some)
  ultimately show "s = c" using s by (auto dest: inj_onD)
qed

lemma policed_fold:
  "policed f about socks \<Longrightarrow> (\<And>x s. policed f about s \<Longrightarrow> policed f about (g x s)) \<Longrightarrow> policed f about (fold g xs socks)"
  by (induction xs arbitrary: socks) simp_all

text \<open>What a gateway promises: membership only grows, and each step keeps its sockets to it.\<close>

locale room_policy =
  fixes allowed :: "'w \<Rightarrow> uid \<Rightarrow> string \<Rightarrow> bool"
    and sockets :: "'w \<Rightarrow> 'e socket list"
    and about :: "'e \<Rightarrow> string option"
    and step :: "'o \<Rightarrow> 'w \<Rightarrow> 'w"
  assumes allowed_stays: "allowed w u r \<Longrightarrow> allowed (step x w) u r"
    and step_policed: "policed (allowed w) about (sockets w) \<Longrightarrow> policed (allowed (step x w)) about (sockets (step x w))"
begin

lemma run_policed: "policed (allowed w) about (sockets w) \<Longrightarrow> policed (allowed (fold step xs w)) about (sockets (fold step xs w))"
  by (induction xs arbitrary: w) (auto intro: step_policed)

lemma heard_allowed:
  assumes "policed (allowed w) about (sockets w)" and "s \<in> set (sockets (fold step xs w))"
    and "e \<in> set (sk_inbox s)" and "about e = Some r"
  shows "allowed (fold step xs w) (sk_userId s) r"
  using run_policed [OF assms(1), of xs] assms(2-4) unfolding policed_def by blast

lemma inside_allowed:
  assumes "policed (allowed w) about (sockets w)" and "s \<in> set (sockets (fold step xs w))" and "r \<in> set (sk_rooms s)"
  shows "allowed (fold step xs w) (sk_userId s) r"
  using run_policed [OF assms(1), of xs] assms(2,3) unfolding policed_def by blast

end

section \<open>Gateways that only send to users\<close>

text \<open>
  The alert gateways join each socket to the room of its user and to no other, and send to users
  only. \<open>user_feed\<close> is what such a gateway promises: a call of its service appends to the log of its
  broadcasts, and each new broadcast is sent, in order, to the sockets of the users it is addressed to.
\<close>

definition atHome :: "'e socket list \<Rightarrow> bool" where
  "atHome socks \<longleftrightarrow> (\<forall>s \<in> set socks. sk_rooms s = [userRoom (sk_userId s)])"

definition sendMail :: "(uid \<times> 'e) list \<Rightarrow> 'e socket list \<Rightarrow> 'e socket list" where
  "sendMail ms socks = fold (\<lambda>m. emitRoom (userRoom (fst m)) None (snd m)) ms socks"

definition mailOf :: "uid \<Rightarrow> (uid \<times> 'e) list \<Rightarrow> 'e list" where
  "mailOf u ms = map snd (filter (\<lambda>m. fst m = u) ms)"

lemma mailOf_append [simp]: "mailOf u (ms @ ns) = mailOf u ms @ mailOf u ns"
  by (simp add: mailOf_def)

lemma userRoom_inj [simp]: "userRoom u = userRoom v \<longleftrightarrow> u = v"
  by (simp add: userRoom_def)

lemma emitRoom_home:
  "atHome socks \<Longrightarrow> emitRoom (userRoom u) None e socks =
     map (\<lambda>s. s\<lparr>sk_inbox := sk_inbox s @ mailOf (sk_userId s) [(u, e)]\<rparr>) socks"
  by (auto simp: atHome_def emitRoom_def mailOf_def)

lemma sendMail_home:
  "atHome socks \<Longrightarrow> sendMail ms socks = map (\<lambda>s. s\<lparr>sk_inbox := sk_inbox s @ mailOf (sk_userId s) ms\<rparr>) socks"
proof (induction ms arbitrary: socks)
  case Nil
  then show ?case by (simp add: sendMail_def mailOf_def)
next
  case (Cons m ms)
  define next_socks where "next_socks = map (\<lambda>s. s\<lparr>sk_inbox := sk_inbox s @ mailOf (sk_userId s) [m]\<rparr>) socks"
  have "sendMail (m # ms) socks = sendMail ms next_socks"
    using emitRoom_home [OF Cons.prems, of "fst m" "snd m"] by (simp add: sendMail_def next_socks_def)
  moreover have "atHome next_socks" using Cons.prems by (simp add: atHome_def next_socks_def)
  moreover have "mailOf u (m # ms) = mailOf u [m] @ mailOf u ms" for u by (simp add: mailOf_def)
  ultimately show ?case using Cons.IH by (simp add: next_socks_def)
qed

lemma sendMail_append: "sendMail (ms @ ns) socks = sendMail ns (sendMail ms socks)"
  by (simp add: sendMail_def)

lemma atHome_connect: "atHome socks \<Longrightarrow> atHome (connectSocket i u name socks)"
  by (auto simp: atHome_def connectSocket_def)

lemma atHome_filter: "atHome socks \<Longrightarrow> atHome (filter P socks)"
  by (simp add: atHome_def)

lemma atHome_sendMail: "atHome socks \<Longrightarrow> atHome (sendMail ms socks)"
  by (simp add: sendMail_home) (simp add: atHome_def)

locale user_feed =
  fixes log :: "'w \<Rightarrow> 'm list"
    and socks :: "'w \<Rightarrow> 'e socket list"
    and addressed :: "time \<Rightarrow> 'm \<Rightarrow> (uid \<times> 'e) list"
    and step :: "'o \<Rightarrow> 'w \<Rightarrow> 'w"
  assumes feeds: "(\<exists>now ms. log (step x w) = log w @ ms \<and> socks (step x w) = sendMail (concat (map (addressed now) ms)) (socks w)) \<or>
      log (step x w) = log w \<and> ((\<exists>i u name. socks (step x w) = connectSocket i u name (socks w)) \<or>
        (\<exists>P. socks (step x w) = filter P (socks w)))"
begin

text \<open>
  The sockets are at home, and an inbox holds no more events of a kind \<open>p\<close> than the broadcasts of
  the kind \<open>q\<close> to its user, when each broadcast has at most one such event for a user.
\<close>

definition keeps :: "('e \<Rightarrow> bool) \<Rightarrow> (uid \<Rightarrow> 'm \<Rightarrow> bool) \<Rightarrow> 'w \<Rightarrow> bool" where
  "keeps p q w \<longleftrightarrow> atHome (socks w) \<and> (\<forall>s \<in> set (socks w). countRows p (sk_inbox s) \<le> countRows (q (sk_userId s)) (log w))"

lemma mail_counted:
  assumes "\<And>m u. countRows p (mailOf u (addressed now m)) \<le> (if q u m then 1 else 0)"
  shows "countRows p (mailOf u (concat (map (addressed now) ms))) \<le> countRows (q u) ms"
proof (induction ms)
  case Nil
  then show ?case by (simp add: mailOf_def countRows_def)
next
  case (Cons m ms)
  have "countRows p (mailOf u (concat (map (addressed now) (m # ms)))) =
      countRows p (mailOf u (addressed now m)) + countRows p (mailOf u (concat (map (addressed now) ms)))"
    by (simp add: countRows_def)
  moreover have "countRows (q u) (m # ms) = (if q u m then 1 else 0) + countRows (q u) ms" by (simp add: countRows_def)
  ultimately show ?case using Cons assms [of u m] by linarith
qed

lemma keeps_step:
  assumes "keeps p q w" and each: "\<And>now m u. countRows p (mailOf u (addressed now m)) \<le> (if q u m then 1 else 0)"
  shows "keeps p q (step x w)"
  using feeds [of x w]
proof (elim disjE conjE exE)
  fix now ms
  assume l: "log (step x w) = log w @ ms" and s: "socks (step x w) = sendMail (concat (map (addressed now) ms)) (socks w)"
  have home: "atHome (socks w)" using assms(1) by (simp add: keeps_def)
  have "countRows p (sk_inbox t @ mailOf (sk_userId t) (concat (map (addressed now) ms))) \<le> countRows (q (sk_userId t)) (log w @ ms)"
    if "t \<in> set (socks w)" for t
  proof -
    have "countRows p (sk_inbox t) \<le> countRows (q (sk_userId t)) (log w)" using assms(1) that by (simp add: keeps_def)
    moreover have "countRows p (mailOf (sk_userId t) (concat (map (addressed now) ms))) \<le> countRows (q (sk_userId t)) ms"
      by (rule mail_counted) (rule each)
    ultimately show ?thesis by (simp add: countRows_def)
  qed
  then show ?thesis using atHome_sendMail [OF home] unfolding keeps_def l s by (simp add: sendMail_home [OF home])
next
  fix i u name
  assume "log (step x w) = log w" "socks (step x w) = connectSocket i u name (socks w)"
  then show ?thesis using assms(1) atHome_connect [of "socks w" i u name]
    by (auto simp: keeps_def connectSocket_def countRows_def)
next
  fix P
  assume "log (step x w) = log w" "socks (step x w) = filter P (socks w)"
  then show ?thesis using assms(1) atHome_filter [of "socks w" P] by (auto simp: keeps_def)
qed

lemma run_keeps:
  assumes "keeps p q w" and "\<And>now m u. countRows p (mailOf u (addressed now m)) \<le> (if q u m then 1 else 0)"
  shows "keeps p q (fold step xs w)"
  using assms(1) by (induction xs arbitrary: w) (auto intro: keeps_step [OF _ assms(2)])

text \<open>What a socket has been sent was addressed to its user.\<close>

definition delivered :: "'w \<Rightarrow> bool" where
  "delivered w \<longleftrightarrow> atHome (socks w) \<and>
     (\<forall>s \<in> set (socks w). \<forall>e \<in> set (sk_inbox s). \<exists>now. \<exists>m \<in> set (log w). (sk_userId s, e) \<in> set (addressed now m))"

lemma delivered_step: "delivered w \<Longrightarrow> delivered (step x w)"
  using feeds [of x w]
proof (elim disjE conjE exE)
  fix now ms
  assume inv: "delivered w" and l: "log (step x w) = log w @ ms"
    and s: "socks (step x w) = sendMail (concat (map (addressed now) ms)) (socks w)"
  have home: "atHome (socks w)" using inv by (simp add: delivered_def)
  have "\<exists>now. \<exists>m \<in> set (log w @ ms). (sk_userId t, e) \<in> set (addressed now m)"
    if "t \<in> set (socks w)" "e \<in> set (sk_inbox t @ mailOf (sk_userId t) (concat (map (addressed now) ms)))" for t e
  proof (cases "e \<in> set (sk_inbox t)")
    case True
    then show ?thesis using inv that(1) unfolding delivered_def set_append by blast
  next
    case False
    then have "e \<in> set (mailOf (sk_userId t) (concat (map (addressed now) ms)))" using that(2) by simp
    then obtain m where "m \<in> set ms" "(sk_userId t, e) \<in> set (addressed now m)" by (auto simp: mailOf_def)
    then show ?thesis unfolding set_append by blast
  qed
  then show ?thesis using atHome_sendMail [OF home] unfolding delivered_def l s by (simp add: sendMail_home [OF home])
next
  fix i u name
  assume "delivered w" "log (step x w) = log w" "socks (step x w) = connectSocket i u name (socks w)"
  then show ?thesis using atHome_connect [of "socks w" i u name] by (auto simp: delivered_def connectSocket_def)
next
  fix P
  assume "delivered w" "log (step x w) = log w" "socks (step x w) = filter P (socks w)"
  then show ?thesis using atHome_filter [of "socks w" P] by (auto simp: delivered_def)
qed

lemma run_delivered: "delivered w \<Longrightarrow> delivered (fold step xs w)"
  by (induction xs arbitrary: w) (auto intro: delivered_step)

text \<open>Starting without sockets:\<close>

lemma heard_addressed:
  assumes "socks w = []" and "s \<in> set (socks (fold step xs w))" and "e \<in> set (sk_inbox s)"
  shows "\<exists>now. \<exists>m \<in> set (log (fold step xs w)). (sk_userId s, e) \<in> set (addressed now m)"
  using run_delivered [of w xs] assms by (simp add: delivered_def atHome_def)

lemma heard_once:
  assumes "socks w = []" and "\<And>now m u. countRows p (mailOf u (addressed now m)) \<le> (if q u m then 1 else 0)"
    and "s \<in> set (socks (fold step xs w))"
  shows "countRows p (sk_inbox s) \<le> countRows (q (sk_userId s)) (log (fold step xs w))"
  using run_keeps [OF _ assms(2), of w xs] assms(1,3) by (auto simp: keeps_def atHome_def)

end

section \<open>One socket over a history\<close>

text \<open>
  The events that a socket is sent while it stays in a room: every operation extends its inbox, and
  keeps it in the room unless it is the socket's own leaving.
\<close>

definition hears :: "string \<Rightarrow> string \<Rightarrow> 'e list \<Rightarrow> 'e socket list \<Rightarrow> 'e socket list \<Rightarrow> bool" where
  "hears i room es socks socks' \<longleftrightarrow>
     (\<forall>s. findSocket i socks = Some s \<longrightarrow> room \<in> set (sk_rooms s) \<longrightarrow>
        (\<exists>s'. findSocket i socks' = Some s' \<and> room \<in> set (sk_rooms s') \<and> sk_userId s' = sk_userId s \<and>
           sk_inbox s' = sk_inbox s @ es))"

lemma hears_refl [simp]: "hears i room [] socks socks"
  by (simp add: hears_def)

lemma hears_trans: "hears i room es a b \<Longrightarrow> hears i room fs b c \<Longrightarrow> hears i room (es @ fs) a c"
  unfolding hears_def by (metis append.assoc)

lemma findSocket_map:
  "(\<And>s. sk_id (f s) = sk_id s) \<Longrightarrow> findSocket i (map f socks) = map_option f (findSocket i socks)"
  by (induction socks) (auto simp: findSocket_def findUnique_def)

lemma findSocket_Some: "findSocket i socks = Some s \<Longrightarrow> s \<in> set socks \<and> sk_id s = i"
  unfolding findSocket_def by (rule findUnique_Some)

lemma hears_room: "skip \<noteq> Some i \<Longrightarrow> hears i room [e] socks (emitRoom room skip e socks)"
  by (auto simp: hears_def emitRoom_def findSocket_map dest: findSocket_Some)

lemma hears_skip: "hears i room [] socks (emitRoom room (Some i) e socks)"
  by (auto simp: hears_def emitRoom_def findSocket_map dest: findSocket_Some)

lemma hears_client_other: "j \<noteq> i \<Longrightarrow> hears i room [] socks (emitClient j e socks)"
  by (auto simp: hears_def emitClient_def findSocket_map dest: findSocket_Some)

lemma hears_client: "hears i room [e] socks (emitClient i e socks)"
  by (auto simp: hears_def emitClient_def findSocket_map dest: findSocket_Some)

lemma hears_join: "hears i room [] socks (joinRoom j r socks)"
  by (auto simp: hears_def joinRoom_def findSocket_map)

lemma hears_leave_other: "j \<noteq> i \<or> r \<noteq> room \<Longrightarrow> hears i room [] socks (leaveRoom j r socks)"
  by (auto simp: hears_def leaveRoom_def findSocket_map dest: findSocket_Some)

lemma findUnique_filter: "(\<And>s. s \<in> set t \<Longrightarrow> key s = k \<Longrightarrow> P s) \<Longrightarrow> findUnique key k (filter P t) = findUnique key k t"
  by (induction t) (auto simp: findUnique_def)

lemma hears_drop_other: "j \<noteq> i \<Longrightarrow> hears i room [] socks (dropSocket j socks)"
  by (auto simp: hears_def dropSocket_def findSocket_def findUnique_filter)

lemma hears_connect: "hears i room [] socks (connectSocket j u name socks)"
  by (auto simp: hears_def connectSocket_def findSocket_def findUnique_append)

end
