(* ===== verification/Party_Events.thy ===== *)
theory Party_Events
  imports Party
begin

text \<open>
  What the party service tells its emitter, and that it tells enough: a listener who knows the leader and
  the members of a party and applies the events knows them still after any operation. The relation
  \<open>announced\<close> says this of two states, together with what no operation touches; it composes, so each
  operation is shown from its writes.
\<close>

section \<open>The listener's view\<close>

text \<open>A party that has not ended, as its leader and its active members.\<close>

definition shown :: "uid \<Rightarrow> 'a party_db_scheme \<Rightarrow> (uid \<times> uid set) option" where
  "shown p w =
     (case findParty p w of
        None \<Rightarrow> None
      | Some r \<Rightarrow> if pt_status r = P_ENDED \<or> pt_deletedAt r \<noteq> None then None
                  else Some (pt_leaderId r, {u. active (partyMembers w) p u}))"

fun track :: "uid \<Rightarrow> partyEmit \<Rightarrow> (uid \<times> uid set) option \<Rightarrow> (uid \<times> uid set) option" where
  "track p (MemberJoined q m) v = (if q = p then map_option (\<lambda>(l, A). (l, insert (md_userId m) A)) v else v)"
| "track p (MemberLeft q u r) v = (if q = p then map_option (\<lambda>(l, A). (l, A - {u})) v else v)"
| "track p (LeaderChanged q l) v = (if q = p then map_option (\<lambda>(_, A). (l, A)) v else v)"
| "track p (Ended q r) v = (if q = p then None else v)"
| "track p (StatusChanged q s) v = v"
| "track p (Signal q ty u n t) v = v"

abbreviation memberKeys :: "'a party_db_scheme \<Rightarrow> (uid \<times> uid) set" where
  "memberKeys w \<equiv> memberKey ` set (partyMembers w)"

definition announced :: "'a party_db_scheme \<Rightarrow> 'a party_db_scheme \<Rightarrow> bool" where
  "announced w w' \<longleftrightarrow>
     party_db.more w' = party_db.more w \<and> hasEmitter w' = hasEmitter w \<and> memberKeys w \<subseteq> memberKeys w' \<and>
     (\<exists>es. emitted w' = emitted w @ es \<and>
        (hasEmitter w \<longrightarrow> (\<forall>p. findParty p w \<noteq> None \<longrightarrow>
           findParty p w' \<noteq> None \<and> shown p w' = fold (track p) es (shown p w))))"

definition eventView :: "'a party_db_scheme \<Rightarrow> party list \<times> partyMember list \<times> partyEmit list \<times> bool \<times> 'a" where
  "eventView w = (parties w, partyMembers w, emitted w, hasEmitter w, party_db.more w)"

lemma announced_refl [simp, intro]: "announced w w"
  by (auto simp: announced_def)

lemma announced_trans [trans]: "announced u v \<Longrightarrow> announced v w \<Longrightarrow> announced u w"
  unfolding announced_def
proof (elim conjE exE, intro conjI, goal_cases)
  case (4 es fs)
  then show ?case by (intro exI [of _ "es @ fs"]) auto
qed auto

lemma shown_view: "eventView w = eventView v \<Longrightarrow> shown p w = shown p v \<and> findParty p w = findParty p v"
  by (simp add: eventView_def shown_def findParty_def split: option.split)

lemma announced_view: "eventView w' = eventView v' \<Longrightarrow> announced w w' \<longleftrightarrow> announced w v'"
  using shown_view [of w' v'] by (simp add: announced_def eventView_def)

lemma announced_quiet: "eventView w' = eventView w \<Longrightarrow> announced w w'"
  using announced_view [of w' w w] by simp

lemma announced_fields [simp]:
  "announced w (v\<lparr>rd_keys := s\<rparr>) \<longleftrightarrow> announced w v"
  "announced w (v\<lparr>rd_zombie := z\<rparr>) \<longleftrightarrow> announced w v"
  "announced w (v\<lparr>rd_members := m\<rparr>) \<longleftrightarrow> announced w v"
  "announced w (v\<lparr>rd_members := m, rd_userParty := x\<rparr>) \<longleftrightarrow> announced w v"
  "announced w (v\<lparr>partyInvites := t\<rparr>) \<longleftrightarrow> announced w v"
  "announced w (v\<lparr>rd_members := m, rd_activeParties := a, rd_userParty := x\<rparr>) \<longleftrightarrow> announced w v"
  by (rule announced_view; simp add: eventView_def)+

interpretation event_notifier: notifier notify eventView
proof
  fix u ty title body data now and w :: "'a party_db_scheme"
  obtain t n where "snd (notify u ty title body data now w) = w\<lparr>notifications := t, uuidNext := n\<rparr>"
    using notify_writes by blast
  then show "eventView (snd (notify u ty title body data now w)) = eventView w" by (simp add: eventView_def)
qed

text \<open>A write to the two tables with the events that go with it.\<close>

lemma announcedI:
  assumes "party_db.more w' = party_db.more w" and "hasEmitter w' = hasEmitter w" and "memberKeys w \<subseteq> memberKeys w'"
    and "emitted w' = emitted w @ (if hasEmitter w then es else [])"
    and "\<And>p. findParty p w \<noteq> None \<Longrightarrow> findParty p w' \<noteq> None \<and> shown p w' = fold (track p) es (shown p w)"
  shows "announced w w'"
  using assms unfolding announced_def by (intro conjI exI [of _ "if hasEmitter w then es else []"]) auto

lemma emitParty_emitted [simp]:
  "emitted (emitParty e w) = emitted w @ (if hasEmitter w then [e] else [])" "hasEmitter (emitParty e w) = hasEmitter w"
  "party_db.more (emitParty e w) = party_db.more w"
  by (simp_all add: emitParty_def)

section \<open>The writes\<close>

lemma findParty_members [simp]: "findParty p (w\<lparr>partyMembers := t\<rparr>) = findParty p w"
  by (simp add: findParty_def)

lemma findParty_emit [simp]: "findParty p (emitParty e w) = findParty p w"
  by (simp add: findParty_def)

lemma shown_emit [simp]: "shown p (emitParty e w) = shown p w"
  by (simp add: shown_def split: option.split)

lemma keys_update: "(\<And>m. memberKey (f m) = memberKey m) \<Longrightarrow> memberKey ` set (updateMany P f t) = memberKey ` set t"
  by (rule keys_updateMany) simp

lemma departMember_announced: "announced w (snd (departMember u p reason now w))"
proof (cases "(p, u) \<in> memberKeys w")
  case False
  then show ?thesis by (simp add: departMember_def updateMember_cases)
next
  case True
  define ms where "ms = updateMany (\<lambda>m. memberKey m = (p, u)) (\<lambda>m. m\<lparr>pm_leftAt := Some now, pm_isOnline := False\<rparr>) (partyMembers w)"
  have "active ms q v \<longleftrightarrow> active (partyMembers w) q v \<and> (q, v) \<noteq> (p, u)" for q v
    unfolding ms_def by (subst active_left) (auto simp: active_def)
  then have act: "{v. active ms q v} = (if q = p then {v. active (partyMembers w) q v} - {u} else {v. active (partyMembers w) q v})" for q
    by auto
  have "shown q (w\<lparr>partyMembers := ms\<rparr>) = track q (MemberLeft p u reason) (shown q w)" for q
    by (cases "q = p") (auto simp: shown_def act split: option.split)
  moreover have "memberKey ` set ms = memberKeys w" unfolding ms_def by (rule keys_update) simp
  ultimately have "announced w (emitParty (MemberLeft p u reason) (w\<lparr>partyMembers := ms\<rparr>))"
    by (intro announcedI [where es = "[MemberLeft p u reason]"]) (simp_all del: track.simps)
  moreover have "eventView (snd (departMember u p reason now w)) = eventView (emitParty (MemberLeft p u reason) (w\<lparr>partyMembers := ms\<rparr>))"
    using True by (simp add: departMember_def updateMember_cases eventView_def ms_def)
  ultimately show ?thesis using announced_view by blast
qed

lemma endParty_announced: "announced w (endParty p reason now w)"
proof (cases "\<exists>r. findParty p w = Some r \<and> pt_status r \<noteq> P_ENDED")
  case False
  then show ?thesis by (auto simp: endParty_def split: option.split)
next
  case True
  then obtain r where r: "findParty p w = Some r" "pt_status r \<noteq> P_ENDED" by blast
  let ?f = "\<lambda>m. m\<lparr>pm_leftAt := Some now, pm_isOnline := False\<rparr>"
  let ?ms = "updateMany (\<lambda>m. pm_partyId m = p \<and> pm_leftAt m = None) ?f (partyMembers w)"
  let ?ps = "updateMany (\<lambda>r. pt_id r = p) (\<lambda>r. r\<lparr>pt_status := P_ENDED, pt_endedAt := Some now\<rparr>) (parties w)"
  have act: "active ?ms q = active (partyMembers w) q" if "q \<noteq> p" for q
    using that by (intro ext) (subst active_left, auto simp: active_def)
  have found: "findUnique pt_id q ?ps = map_option (\<lambda>r. if pt_id r = p then r\<lparr>pt_status := P_ENDED, pt_endedAt := Some now\<rparr> else r)
      (findParty q w)" for q
    by (simp add: findParty_def findUnique_updateMany)
  have ids: "findParty q w = Some s \<Longrightarrow> pt_id s = q" for q s by (auto simp: findParty_def dest: findUnique_Some)
  have v: "eventView (endParty p reason now w) = (?ps, ?ms, emitted w @ (if hasEmitter w then [StatusChanged p P_ENDED, Ended p reason] else []),
      hasEmitter w, party_db.more w)"
    using r by (simp add: endParty_def eventView_def endRows_def flushRedis_def Let_def)
  show ?thesis
  proof (rule announcedI [where es = "[StatusChanged p P_ENDED, Ended p reason]"])
    fix q
    assume "findParty q w \<noteq> None"
    then obtain s where s: "findParty q w = Some s" by blast
    have f: "findParty q (endParty p reason now w) = Some (if q = p then s\<lparr>pt_status := P_ENDED, pt_endedAt := Some now\<rparr> else s)"
      using v found [of q] s ids [OF s] by (simp add: findParty_def eventView_def)
    then show "findParty q (endParty p reason now w) \<noteq> None \<and>
        shown q (endParty p reason now w) = fold (track q) [StatusChanged p P_ENDED, Ended p reason] (shown q w)"
      using v s act [of q] by (simp add: shown_def eventView_def)
  qed (use v in \<open>simp_all add: eventView_def keys_update\<close>)
qed

lemma promoteLeader_cases:
  "promoteLeader p l w =
     (if p \<in> pt_id ` set (parties w) \<and> (p, l) \<in> memberKeys w
      then (Inr (), w\<lparr>parties := updateMany (\<lambda>r. pt_id r = p) (\<lambda>r. r\<lparr>pt_leaderId := l\<rparr>) (parties w),
             partyMembers := updateMany (\<lambda>m. memberKey m = (p, l)) (\<lambda>m. m\<lparr>pm_role := R_LEADER\<rparr>) (partyMembers w)\<rparr>)
      else (Inl RecordNotFound, w))"
  by (simp add: promoteLeader_def transaction_def write_or_def updateRow_def updateMember_cases ret_def raise_def
      del: prod.inject)

lemma promoted_announced:
  assumes "promoteLeader p l w = (Inr (), w')"
  shows "announced w (emitParty (LeaderChanged p l) w')"
proof -
  define ps where "ps = updateMany (\<lambda>r. pt_id r = p) (\<lambda>r. r\<lparr>pt_leaderId := l\<rparr>) (parties w)"
  define ms where "ms = updateMany (\<lambda>m. memberKey m = (p, l)) (\<lambda>m. m\<lparr>pm_role := R_LEADER\<rparr>) (partyMembers w)"
  have w': "w' = w\<lparr>parties := ps, partyMembers := ms\<rparr>"
    using assms by (simp add: promoteLeader_cases ps_def ms_def split: if_splits)
  have act: "active ms q = active (partyMembers w) q" for q
    unfolding ms_def by (intro ext active_same) simp_all
  have found: "findParty q w' = map_option (\<lambda>r. if pt_id r = p then r\<lparr>pt_leaderId := l\<rparr> else r) (findParty q w)" for q
    by (simp add: w' ps_def findParty_def findUnique_updateMany)
  have ids: "findParty q w = Some s \<Longrightarrow> pt_id s = q" for q s by (auto simp: findParty_def dest: findUnique_Some)
  have keys: "memberKey ` set ms = memberKeys w" unfolding ms_def by (rule keys_update) simp
  show ?thesis
  proof (rule announcedI [where es = "[LeaderChanged p l]"])
    fix q
    assume "findParty q w \<noteq> None"
    then obtain s where s: "findParty q w = Some s" by blast
    have "findParty q w' = Some (if q = p then s\<lparr>pt_leaderId := l\<rparr> else s)" using found [of q] s ids [OF s] by simp
    moreover have "partyMembers w' = ms" by (simp add: w')
    ultimately show "findParty q (emitParty (LeaderChanged p l) w') \<noteq> None \<and>
        shown q (emitParty (LeaderChanged p l) w') = fold (track q) [LeaderChanged p l] (shown q w)"
      using s by (cases "q = p") (simp_all add: shown_def act)
  qed (use keys in \<open>simp_all add: w'\<close>)
qed

lemma handOver_announced: "announced w (snd (handOver r ms now w))"
proof (cases "ms = []")
  case True
  then show ?thesis by (simp add: handOver_def endParty_announced)
next
  case False
  obtain e s where e: "elect \<lparr>ei_partyId = pt_id r, ei_coLeaderIds = pt_coLeaderIds r,
      ei_onlineMembers = filter ml_isOnline (map toLite ms)\<rparr> now (rd_keys w) = (e, s)"
    by (cases "elect \<lparr>ei_partyId = pt_id r, ei_coLeaderIds = pt_coLeaderIds r,
      ei_onlineMembers = filter ml_isOnline (map toLite ms)\<rparr> now (rd_keys w)")
  have start: "announced w (w\<lparr>rd_keys := s\<rparr>)" by simp
  have "announced w (snd (and_then (promoteLeader (pt_id r) l (w\<lparr>rd_keys := s\<rparr>))
      (\<lambda>_ w2. let w3 = emitParty (LeaderChanged (pt_id r) l) w2
              in ret (False, Some l) (w3\<lparr>rd_keys := snd (release (pt_id r) l now (rd_keys w3))\<rparr>))))" for l
  proof (cases "promoteLeader (pt_id r) l (w\<lparr>rd_keys := s\<rparr>)")
    case (Pair res w2)
    show ?thesis
    proof (cases res)
      case (Inl x)
      then have "w2 = w\<lparr>rd_keys := s\<rparr>" using Pair by (simp add: promoteLeader_cases split: if_splits)
      then show ?thesis using Pair Inl start by simp
    next
      case (Inr x)
      then have "promoteLeader (pt_id r) l (w\<lparr>rd_keys := s\<rparr>) = (Inr (), w2)" using Pair by simp
      from announced_trans [OF start promoted_announced [OF this]] show ?thesis using Pair Inr by (simp add: Let_def)
    qed
  qed
  then show ?thesis using False e start by (auto simp: handOver_def Let_def split: option.split)
qed

lemma leaveParty_announced: "announced w (snd (leaveParty u p reason now w))"
proof -
  have "announced w (snd (and_then (departMember u p reason now w) (\<lambda>_ w1.
      if pt_leaderId r \<noteq> u then ret (False, None) w1 else handOver r ms now w1)))" for r ms
    by (rule inv_and_then [where P = "announced w"])
       (auto simp: departMember_announced intro: announced_trans [OF _ handOver_announced])
  then show ?thesis by (auto simp: leaveParty_def Let_def split: option.split)
qed

lemma active_revive:
  assumes "k \<in> memberKey ` set t" and "\<And>m. memberKey (f m) = memberKey m" and "\<And>m. pm_leftAt (f m) = None"
  shows "active (updateMany (\<lambda>m. memberKey m = k) f t) q v \<longleftrightarrow> active t q v \<or> (q, v) = k"
proof -
  have "(memberKey (if memberKey m = k then f m else m) = (q, v) \<and> pm_leftAt (if memberKey m = k then f m else m) = None) =
      (memberKey m = (q, v) \<and> (pm_leftAt m = None \<or> (q, v) = k))" for m
    using assms(2) [of m] assms(3) [of m] by auto
  then have "active (updateMany (\<lambda>m. memberKey m = k) f t) q v \<longleftrightarrow>
      (\<exists>m \<in> set t. memberKey m = (q, v) \<and> (pm_leftAt m = None \<or> (q, v) = k))"
    unfolding active_def set_updateMany by (simp only: bex_simps)
  then show ?thesis using assms(1) unfolding active_def by blast
qed

lemma joinAdmitted_announced:
  assumes r: "findParty p w = Some r" and opn: "pt_status r \<noteq> P_ENDED" "pt_deletedAt r = None"
    and ms: "\<And>m. m \<in> set ms \<Longrightarrow> pm_partyId m = p"
  shows "announced w (snd (joinAdmitted u p r ms now w))"
proof -
  define done' where "done' = (\<lambda>m (w1 :: 'a party_db_scheme).
      (let w2 = (if pt_isPrivate r then acceptInvite p u now w1 else w1);
           w3 = w2\<lparr>rd_members := (rd_members w2)(p := sadd u (rd_members w2 p)),
                   rd_userParty := (rd_userParty w2)(u \<mapsto> p)\<rparr>;
           w4 = emitParty (MemberJoined p (toMemberDto m w3)) w3
       in getPartyDetail p w4))"
  have after: "announced w (snd (done' m (w\<lparr>partyMembers := t\<rparr>)))"
    if t: "memberKeys w \<subseteq> memberKey ` set t" "\<And>q v. active t q v \<longleftrightarrow> active (partyMembers w) q v \<or> (q, v) = (p, u)"
      and m: "pm_userId m = u" for m t
  proof -
    have "shown q (w\<lparr>partyMembers := t\<rparr>) =
        (if q = p then map_option (\<lambda>(l, A). (l, insert u A)) (shown q w) else shown q w)" if "findParty q w \<noteq> None" for q
      using r opn t(2) by (auto simp: shown_def split: option.split)
    then have ann: "announced w (emitParty (MemberJoined p d) (w\<lparr>partyMembers := t\<rparr>))" if "md_userId d = u" for d
      using that t(1) by (intro announcedI [where es = "[MemberJoined p d]"]) auto
    obtain d where d: "md_userId d = u" "eventView (snd (done' m (w\<lparr>partyMembers := t\<rparr>))) =
        eventView (emitParty (MemberJoined p d) (w\<lparr>partyMembers := t\<rparr>))"
    proof
      let ?w3 = "(if pt_isPrivate r then acceptInvite p u now (w\<lparr>partyMembers := t\<rparr>) else w\<lparr>partyMembers := t\<rparr>)
        \<lparr>rd_members := (rd_members w)(p := sadd u (rd_members w p)), rd_userParty := (rd_userParty w)(u \<mapsto> p)\<rparr>"
      show "md_userId (toMemberDto m ?w3) = u" by (simp add: toMemberDto_def Let_def m)
      show "eventView (snd (done' m (w\<lparr>partyMembers := t\<rparr>))) =
          eventView (emitParty (MemberJoined p (toMemberDto m ?w3)) (w\<lparr>partyMembers := t\<rparr>))"
        by (simp add: done'_def Let_def eventView_def acceptInvite_def)
    qed
    show ?thesis using ann [OF d(1)] announced_view [OF d(2)] by blast
  qed
  show ?thesis
  proof (cases "find (\<lambda>m. pm_userId m = u) ms")
    case (Some e)
    have e: "pm_userId e = u" using find_row [OF Some] by simp
    let ?t = "updateMany (\<lambda>m. memberKey m = (p, u)) (\<lambda>m. m\<lparr>pm_isOnline := True, pm_leftAt := None\<rparr>) (partyMembers w)"
    have "active ?t q v \<longleftrightarrow> active (partyMembers w) q v \<or> (q, v) = (p, u)" if "(p, u) \<in> memberKeys w" for q v
      by (rule active_revive [OF that]) simp_all
    then show ?thesis unfolding joinAdmitted_def done'_def [symmetric]
      using Some e after [of ?t "e\<lparr>pm_isOnline := True, pm_leftAt := None\<rparr>"]
      by (simp add: updateMember_cases keys_update)
  next
    case None
    show ?thesis
    proof (cases "createMember (newMember p u R_MEMBER now) w")
      case (Pair res w1)
      show ?thesis
      proof (cases res)
        case (Inl x)
        then show ?thesis using None Pair createMember_Inl unfolding joinAdmitted_def done'_def [symmetric] by fastforce
      next
        case (Inr x)
        then have "w1 = w\<lparr>partyMembers := partyMembers w @ [newMember p u R_MEMBER now]\<rparr>"
          using Pair createMember_cases by fastforce
        then show ?thesis unfolding joinAdmitted_def done'_def [symmetric]
          using None Pair Inr after [of "partyMembers w @ [newMember p u R_MEMBER now]" "newMember p u R_MEMBER now"] by auto
      qed
    qed
  qed
qed

lemma joinParty_announced: "announced w (snd (joinParty u p now w))"
proof (cases "findParty p w")
  case None
  then show ?thesis by (simp add: joinParty_def)
next
  case (Some r)
  have "announced w (snd (joinAdmitted u p r (filter (\<lambda>m. pm_leftAt m = None) (membersOf p w)) now w))"
    if "\<not> (pt_deletedAt r \<noteq> None \<or> pt_status r = P_ENDED)"
    using that Some by (intro joinAdmitted_announced) (auto simp: membersOf_def)
  then show ?thesis using Some by (auto simp: joinParty_def Let_def split: option.split)
qed

lemma incrRate_announced: "announced w (snd (incrRate u a win now w))"
  by (rule announced_quiet) (simp add: incrRate_cases eventView_def)

lemma insertParty_announced: "announced w (snd (insertParty u dto now w))"
proof (cases "insertParty u dto now w")
  case (Pair res w')
  show ?thesis
  proof (cases res)
    case (Inl e)
    then show ?thesis using Pair insertParty_Inl by fastforce
  next
    case (Inr r)
    with Pair have ins: "insertParty u dto now w = (Inr r, w')" by simp
    note i = insertParty_Inr [OF ins]
    have "findParty q w' = findParty q w \<and> active (partyMembers w') q = active (partyMembers w) q" if "findParty q w \<noteq> None" for q
    proof -
      have "newUuid w \<noteq> q" using that i(2) by (auto simp: findParty_def findUnique_None)
      then show ?thesis using that i(1,3)
        by (auto simp: findParty_def findUnique_append takeUuid_def fun_eq_iff split: option.split)
    qed
    then have "announced w w'" using i(3)
      by (intro announcedI [where es = "[]"]) (auto simp: shown_def takeUuid_def split: option.split)
    then show ?thesis using ins by simp
  qed
qed

lemma createParty_announced: "announced w (snd (createParty u dto now w))"
proof -
  obtain n v where v: "incrRate u ''party_create'' partyCreateWindowSeconds now w = (n, v)" by fastforce
  then have start: "announced w v" using incrRate_announced [of w u "''party_create''" partyCreateWindowSeconds now] by simp
  have "announced w (snd (and_then (insertParty u dto now v) (\<lambda>p w3. ret (toSummary p 1)
      (w3\<lparr>rd_members := (rd_members w3)(pt_id p := sadd u (rd_members w3 (pt_id p))),
          rd_activeParties := sadd (pt_id p) (rd_activeParties w3),
          rd_userParty := (rd_userParty w3)(u \<mapsto> pt_id p)\<rparr>))))"
    by (rule inv_and_then [where P = "announced w"]) (auto intro: announced_trans [OF start insertParty_announced])
  then show ?thesis using start by (auto simp: createParty_def v Let_def split: option.split)
qed

lemma recordSignal_announced: "announced w (snd (recordSignal p u ty n now w))"
proof -
  obtain k v where v: "incrRate u ''party_signal'' 60 now w = (k, v)" by fastforce
  then have start: "announced w v" using incrRate_announced [of w u "''party_signal''" 60 now] by simp
  have "announced v (emitParty (Signal p ty u n now) v)"
    by (rule announcedI [where es = "[Signal p ty u n now]"]) auto
  then show ?thesis using start announced_trans [OF start] by (auto simp: recordSignal_def v Let_def)
qed

lemma createInvite_eventView: "eventView (snd (createInvite p i u now w)) = eventView w"
  by (simp add: createInvite_def write_or_def eventView_def takeUuid_def split: option.split)

lemma invite_announced: "announced w (snd (invite i p us now w))"
proof -
  let ?same = "\<lambda>v :: 'a party_db_scheme. eventView v = eventView w"
  have "eventView (snd (inviteOne r i now u acc v)) = eventView v" for r u acc and v :: "'a party_db_scheme"
  proof -
    let ?same = "\<lambda>x :: 'a party_db_scheme. eventView x = eventView v"
    have "?same (snd (and_then (createInvite (pt_id r) i u now v)
        (\<lambda>_ w1. and_then (notify u N_PARTY_INVITE t b d now w1) (\<lambda>_ w2. ret k w2))))" for t b d and k :: "nat \<times> nat"
      by (rule inv_and_then [where P = ?same], simp add: createInvite_eventView,
          rule inv_and_then [where P = ?same], simp add: event_notifier.send_view, simp)
    then show ?thesis by (cases acc) (simp add: inviteOne_def)
  qed
  then have "?same (snd (for_each (inviteOne r i now) us (0, 0) w))" for r
    by (intro inv_for_each [where P = ?same]) simp_all
  then show ?thesis by (intro announced_quiet) (simp add: invite_def split: option.split)
qed

lemma respondInvite_announced: "announced w (snd (respondInvite u i acc now w))"
proof -
  have "announced w (snd (and_then (joinParty u p now w) (\<lambda>_ w1. ret (True, Some p) w1)))" for p
    by (rule inv_and_then [where P = "announced w"]) (simp_all add: joinParty_announced)
  then show ?thesis
    by (auto simp: respondInvite_def write_or_def updateRow_def split: option.split)
qed

text \<open>A write to other columns of the members.\<close>

lemma announced_columns:
  assumes "\<And>m. memberKey (f m) = memberKey m" and "\<And>m. P m \<Longrightarrow> pm_leftAt (f m) = pm_leftAt m"
  shows "announced w (w\<lparr>partyMembers := updateMany P f (partyMembers w)\<rparr>)"
proof -
  have "active (updateMany P f (partyMembers w)) q = active (partyMembers w) q" for q
    using assms by (intro ext active_same) simp_all
  then show ?thesis using assms(1) by (intro announcedI [where es = "[]"]) (simp_all add: shown_def keys_update split: option.split)
qed

lemma markOffline_announced: "announced w (markOffline u p now w)"
  using announced_columns [of "\<lambda>m. m\<lparr>pm_isOnline := False, pm_serverHostname := None\<rparr>"
      "\<lambda>m. pm_partyId m = p \<and> pm_userId m = u \<and> pm_leftAt m = None" w]
  by (subst announced_view [of _ "w\<lparr>partyMembers := updateMany (\<lambda>m. pm_partyId m = p \<and> pm_userId m = u \<and> pm_leftAt m = None)
        (\<lambda>m. m\<lparr>pm_isOnline := False, pm_serverHostname := None\<rparr>) (partyMembers w)\<rparr>"]) (simp_all add: markOffline_def eventView_def)

lemma clearOfflineMark_announced: "announced w (clearOfflineMark u p w)"
  using announced_columns [of "\<lambda>m. m\<lparr>pm_isOnline := True\<rparr>"
      "\<lambda>m. pm_partyId m = p \<and> pm_userId m = u \<and> pm_leftAt m = None" w]
  by (subst announced_view [of _ "w\<lparr>partyMembers := updateMany (\<lambda>m. pm_partyId m = p \<and> pm_userId m = u \<and> pm_leftAt m = None)
        (\<lambda>m. m\<lparr>pm_isOnline := True\<rparr>) (partyMembers w)\<rparr>"]) (simp_all add: clearOfflineMark_def eventView_def)

lemma sweepZombies_announced: "announced w (sweepZombies now w)"
proof -
  have one: "announced w (snd (sweepOne p now u acc))" if "announced w (snd acc)" for p u acc
    using announced_trans [OF that leaveParty_announced, of u p DISCONNECT_TIMEOUT now]
    by (auto simp: sweepOne_def split: prod.split sum.split)
  then have "announced w (snd (sweepParty now p acc))" if "announced w (snd acc)" for p acc
    unfolding sweepParty_def by (intro fold_inv [where P = "\<lambda>a. announced w (snd a)"]) (simp_all add: that)
  then show ?thesis unfolding sweepZombies_def sweepZombieMembers_def
    by (intro fold_inv [where P = "\<lambda>a. announced w (snd a)"]) simp_all
qed

text \<open>Every operation of the party service tells its listeners what it does.\<close>

lemma partyStep_announced: "announced w (partyStep x w)"
  by (cases x) (simp_all add: createParty_announced joinParty_announced leaveParty_announced endParty_announced
      recordSignal_announced invite_announced respondInvite_announced markOffline_announced clearOfflineMark_announced
      sweepZombies_announced)

end
