(* ===== verification/Party_Gateway.thy ===== *)
theory Party_Gateway
  imports Location Guards Sockets Party_Events
begin

text \<open>
  \<open>party/location.gateway.ts\<close> (namespace \<open>/realtime\<close>), \<open>common/fanout/fanout.service.ts\<close> and
  \<open>internal-fanout.controller.ts\<close>: the sockets of the riders, the rooms of the parties, and the
  messages between them and the services of \<open>Party\<close> and \<open>Location\<close>. The events that the party
  service emits go to the room of their party. A message that its schema refuses is \<open>None\<close> after
  \<open>safeParse\<close>; the texts of Zod and of the exceptions are parameters.
\<close>

section \<open>State\<close>

datatype wsEvent =
    PartyEvent partyEmit
  | MemberUpdated uid uid rat rat "rat option" "rat option" time
  | PartyError string string string
  | Relayed string string
  | ServerShutdown time

record gateway_db = location_db +
  realtime :: "wsEvent socket list"

record gateway_env =
  gw_geo :: geo_env
  gw_guard :: guard_env
  gw_isUuid :: "string \<Rightarrow> bool"
  gw_zodMessage :: string
  gw_messageOf :: "failure \<Rightarrow> string"
  gw_hostname :: string

definition roomName :: "uid \<Rightarrow> string" where
  "roomName partyId = ''party:'' @ partyId"

text \<open>The party that an event of the party service belongs to.\<close>

fun partyOf :: "partyEmit \<Rightarrow> uid" where
  "partyOf (MemberJoined p m) = p" | "partyOf (MemberLeft p u r) = p" | "partyOf (StatusChanged p s) = p"
| "partyOf (LeaderChanged p u) = p" | "partyOf (Signal p ty u n t) = p" | "partyOf (Ended p r) = p"

section \<open>The emitter\<close>

text \<open>\<open>emitMemberJoined\<close>, \<open>emitMemberLeft\<close>, \<open>emitStatusChanged\<close>, \<open>emitLeaderChanged\<close>, \<open>emitSignal\<close>, \<open>emitEnded\<close>\<close>

definition deliver :: "partyEmit \<Rightarrow> wsEvent socket list \<Rightarrow> wsEvent socket list" where
  "deliver e socks = emitRoom (roomName (partyOf e)) None (PartyEvent e) socks"

text \<open>
  A call of the party service: what it emits is delivered. (No operation of the service changes
  the sockets, so delivering after the call is delivering during it.)
\<close>

definition relay :: "('a gateway_db_scheme \<Rightarrow> 'a gateway_db_scheme) \<Rightarrow> 'a gateway_db_scheme \<Rightarrow> 'a gateway_db_scheme" where
  "relay f w =
     (let w' = f w
      in w'\<lparr>realtime := fold deliver (drop (length (emitted w)) (emitted w')) (realtime w')\<rparr>)"

definition emitToUser :: "uid \<Rightarrow> string \<Rightarrow> string \<Rightarrow> 'a gateway_db_scheme \<Rightarrow> 'a gateway_db_scheme" where
  "emitToUser userId event data w = w\<lparr>realtime := emitRoom (userRoom userId) None (Relayed event data) (realtime w)\<rparr>"

definition errorTo :: "string \<Rightarrow> string \<Rightarrow> string \<Rightarrow> string \<Rightarrow> 'a gateway_db_scheme \<Rightarrow> 'a gateway_db_scheme" where
  "errorTo i event code message w = w\<lparr>realtime := emitClient i (PartyError event code message) (realtime w)\<rparr>"

section \<open>Connecting\<close>

text \<open>\<open>afterInit\<close>: the handshake, then \<open>handleConnection\<close>.\<close>

definition handleConnection ::
  "gateway_env \<Rightarrow> string \<Rightarrow> string option \<Rightarrow> string option \<Rightarrow> time \<Rightarrow> 'a gateway_db_scheme \<Rightarrow> 'a gateway_db_scheme" where
  "handleConnection env i authToken authorization now w =
     (case wsHandshake (gw_guard env) True authToken authorization now of
        Inl e \<Rightarrow> w
      | Inr (userId, username) \<Rightarrow>
          if userId = [] then w else w\<lparr>realtime := connectSocket i userId username (realtime w)\<rparr>)"

definition handleDisconnect :: "string \<Rightarrow> time \<Rightarrow> 'a gateway_db_scheme \<Rightarrow> 'a gateway_db_scheme" where
  "handleDisconnect i now w =
     (case findSocket i (realtime w) of
        None \<Rightarrow> w
      | Some s \<Rightarrow>
          let userId = sk_userId s;
              w1 = w\<lparr>realtime := dropSocket i (realtime w)\<rparr>;
              w2 = (case rd_userParty w1 userId of
                      None \<Rightarrow> w1
                    | Some activePartyId \<Rightarrow> if activePartyId = [] then w1 else markOffline userId activePartyId now w1)
          in w2\<lparr>rd_status := (rd_status w2)(userId := hsetOffline now (rd_status w2 userId))\<rparr>)"

text \<open>\<open>onModuleDestroy\<close>: a last message to everyone, then every socket is disconnected.\<close>

definition onModuleDestroy :: "time \<Rightarrow> 'a gateway_db_scheme \<Rightarrow> 'a gateway_db_scheme" where
  "onModuleDestroy now w =
     fold (\<lambda>i. handleDisconnect i now) (map sk_id (realtime w))
       (w\<lparr>realtime := emitAll (ServerShutdown now) (realtime w)\<rparr>)"

section \<open>Messages of the clients\<close>

record wsLocation =
  wl_partyId :: uid
  wl_lat :: rat
  wl_lng :: rat
  wl_heading :: "rat option"
  wl_speed :: "rat option"
  wl_accuracy :: "rat option"
  wl_batteryLevel :: "rat option"
  wl_clientTimestamp :: int

definition inRange :: "rat \<Rightarrow> rat \<Rightarrow> rat option \<Rightarrow> bool" where
  "inRange a b x = (case x of None \<Rightarrow> True | Some v \<Rightarrow> a \<le> v \<and> v \<le> b)"

definition wsPartyUpdateLocationSchema :: "gateway_env \<Rightarrow> wsLocation \<Rightarrow> bool" where
  "wsPartyUpdateLocationSchema env d \<longleftrightarrow>
     gw_isUuid env (wl_partyId d) \<and> inRange (-90) 90 (Some (wl_lat d)) \<and> inRange (-180) 180 (Some (wl_lng d)) \<and>
     inRange 0 360 (wl_heading d) \<and> inRange 0 300 (wl_speed d) \<and>
     (case wl_accuracy d of None \<Rightarrow> True | Some a \<Rightarrow> 0 < a) \<and> inRange 0 1 (wl_batteryLevel d) \<and>
     0 < wl_clientTimestamp d"

definition partySignalTypes :: "string list" where
  "partySignalTypes = [''REGROUP'', ''STOP'', ''FUEL'']"

definition setHostname :: "uid \<Rightarrow> uid \<Rightarrow> string \<Rightarrow> 'a gateway_db_scheme \<Rightarrow> (unit, 'a gateway_db_scheme) outcome" where
  "setHostname partyId userId host w =
     write_or RecordNotFound (updateRow memberKey (partyId, userId) (\<lambda>m. m\<lparr>pm_serverHostname := Some host\<rparr>) (partyMembers w))
       (\<lambda>t. w\<lparr>partyMembers := t\<rparr>) w"

text \<open>\<open>party:join\<close>; the result is the \<open>ok\<close> of the acknowledgement.\<close>

definition handlePartyJoin :: "gateway_env \<Rightarrow> wsEvent socket \<Rightarrow> uid \<Rightarrow> 'a gateway_db_scheme \<Rightarrow> (bool, 'a gateway_db_scheme) outcome" where
  "handlePartyJoin env client partyId w =
     (let userId = sk_userId client; i = sk_id client
      in if \<not> gw_isUuid env partyId
         then ret False (errorTo i ''party:join'' ''VALIDATION'' (gw_zodMessage env) w)
         else case findUnique memberKey (partyId, userId) (partyMembers w) of
           None \<Rightarrow> ret False (errorTo i ''party:join'' ''NOT_MEMBER'' ''not a member'' w)
         | Some member \<Rightarrow>
             if pm_leftAt member \<noteq> None
             then ret False (errorTo i ''party:join'' ''NOT_MEMBER'' ''not a member'' w)
             else let w1 = w\<lparr>realtime := joinRoom i (roomName partyId) (realtime w)\<rparr>;
                      w2 = clearOfflineMark userId partyId w1
                  in and_then (setHostname partyId userId (gw_hostname env) w2) (\<lambda>_ w3.
                       ret True (w3\<lparr>rd_members := (rd_members w3)(partyId := sadd userId (rd_members w3 partyId))\<rparr>)))"

text \<open>\<open>party:leave\<close>; the result is \<open>ok\<close> and \<open>ended\<close>.\<close>

definition handlePartyLeave ::
  "gateway_env \<Rightarrow> wsEvent socket \<Rightarrow> uid \<Rightarrow> time \<Rightarrow> 'a gateway_db_scheme \<Rightarrow> (bool \<times> bool) \<times> 'a gateway_db_scheme" where
  "handlePartyLeave env client partyId now w =
     (let userId = sk_userId client; i = sk_id client
      in if \<not> gw_isUuid env partyId
         then ((False, False), errorTo i ''party:leave'' ''VALIDATION'' (gw_zodMessage env) w)
         else let w1 = relay (\<lambda>w. snd (leaveParty userId partyId LEFT now w)) w
           in (case fst (leaveParty userId partyId LEFT now w) of
                 Inl err \<Rightarrow> ((False, False), errorTo i ''party:leave'' ''FAIL'' (gw_messageOf env err) w1)
               | Inr (ended, newLeader) \<Rightarrow>
                   ((True, ended), w1\<lparr>realtime := leaveRoom i (roomName partyId) (realtime w1)\<rparr>)))"

text \<open>\<open>party:update_location\<close>\<close>

definition handlePartyUpdateLocation ::
  "gateway_env \<Rightarrow> wsEvent socket \<Rightarrow> wsLocation \<Rightarrow> time \<Rightarrow> 'a gateway_db_scheme \<Rightarrow> (bool, 'a gateway_db_scheme) outcome" where
  "handlePartyUpdateLocation env client dto now w =
     (let userId = sk_userId client; i = sk_id client
      in if \<not> wsPartyUpdateLocationSchema env dto
         then ret False (errorTo i ''party:update_location'' ''VALIDATION'' (gw_zodMessage env) w)
         else if userId \<notin> set (rd_members w (wl_partyId dto))
         then ret False (errorTo i ''party:update_location'' ''NOT_MEMBER'' ''not a member'' w)
         else case findUser userId w of
           None \<Rightarrow> ret False w
         | Some u \<Rightarrow>
             if u_isBanned u then ret False w
             else and_then
               (updateLocation (gw_geo env) userId
                  \<lparr>ul_lat = wl_lat dto, ul_lng = wl_lng dto, ul_heading = wl_heading dto, ul_speed = wl_speed dto,
                   ul_city = None, ul_partyId = Some (wl_partyId dto)\<rparr>
                  \<lparr>rc_city = u_city u, rc_locationSharing = u_locationSharing u, rc_isBanned = u_isBanned u\<rparr> now w)
               (\<lambda>_ w1. ret True (w1\<lparr>realtime := emitRoom (roomName (wl_partyId dto)) (Some i)
                  (MemberUpdated (wl_partyId dto) userId (wl_lat dto) (wl_lng dto) (wl_heading dto) (wl_speed dto) now)
                  (realtime w1)\<rparr>)))"

text \<open>\<open>party:send_signal\<close>; the result is \<open>ok\<close> and \<open>rateLimited\<close>.\<close>

definition handleSendSignal ::
  "gateway_env \<Rightarrow> wsEvent socket \<Rightarrow> uid \<Rightarrow> string \<Rightarrow> int \<Rightarrow> time \<Rightarrow> 'a gateway_db_scheme \<Rightarrow> (bool \<times> bool) \<times> 'a gateway_db_scheme" where
  "handleSendSignal env client partyId ty clientTimestamp now w =
     (let userId = sk_userId client; username = sk_username client; i = sk_id client
      in if \<not> (gw_isUuid env partyId \<and> ty \<in> set partySignalTypes \<and> 0 < clientTimestamp)
         then ((False, False), errorTo i ''party:send_signal'' ''VALIDATION'' (gw_zodMessage env) w)
         else let w1 = relay (\<lambda>w. snd (recordSignal partyId userId ty username now w)) w
           in (case fst (recordSignal partyId userId ty username now w) of
                 Inl err \<Rightarrow> ((False, False), errorTo i ''party:send_signal'' ''FAIL'' (gw_messageOf env err) w1)
               | Inr (allowed, n) \<Rightarrow>
                   if \<not> allowed
                   then ((False, True), errorTo i ''party:send_signal'' (showDecimal (int RATE_LIMITED)) ''rate_limited'' w1)
                   else ((True, False), w1)))"

section \<open>Fan-out between replicas\<close>

text \<open>
  What \<open>emitToPartyUser\<close> does: hand the event to its own sockets, or post it to the replica of the
  user. \<open>reply\<close> is the answer of that replica: whether the call came through with a success status.
\<close>

datatype fanout = Local | Posted string internalHeaders

definition emitToPartyUser ::
  "gateway_env \<Rightarrow> uid \<Rightarrow> string \<Rightarrow> string \<Rightarrow> string \<Rightarrow> string \<Rightarrow> bool \<Rightarrow> time \<Rightarrow> 'a gateway_db_scheme \<Rightarrow> fanout list \<times> 'a gateway_db_scheme" where
  "emitToPartyUser env userId event data body nonce reply now w =
     (let host = Option.bind (find (\<lambda>m. pm_userId m = userId \<and> pm_leftAt m = None) (partyMembers w)) pm_serverHostname
      in if truthy host = None \<or> host = Some (gw_hostname env)
         then ([Local], emitToUser userId event data w)
         else case truthy (gv_secret (gw_guard env)) of
                None \<Rightarrow> ([Local], emitToUser userId event data w)
              | Some secret \<Rightarrow>
                  let call = Posted (the host) (signCall (gw_guard env) secret nonce body now)
                  in if reply then ([call], w) else ([call, Local], emitToUser userId event data w))"

text \<open>\<open>POST /internal/fanout\<close> on the other side; \<open>body\<close> is the text of the request's JSON.\<close>

definition internalFanout ::
  "gateway_env \<Rightarrow> internalHeaders \<Rightarrow> string \<Rightarrow> uid \<Rightarrow> string \<Rightarrow> string \<Rightarrow> time \<Rightarrow> 'a gateway_db_scheme \<Rightarrow> (unit, 'a gateway_db_scheme) outcome" where
  "internalFanout env h body userId event data now w =
     and_then (internalGuard (gw_guard env) h body now w) (\<lambda>_ w1.
       if \<not> gw_isUuid env userId \<or> event = [] then raise (PlainError ''ZodError'') w1
       else ret () (emitToUser userId event data w1))"

section \<open>Histories\<close>

text \<open>
  HTTP calls of the party service, and what sockets do. A message comes from a connected
  socket.
\<close>

datatype gatewayOp =
    Http_party party_op
  | Connect string "string option" "string option" time
  | Disconnect string time
  | WsJoin string uid
  | WsLeave string uid time
  | WsLocation string wsLocation time
  | WsSignal string uid string int time
  | Fanout uid string string string string bool time
  | InternalFanout internalHeaders string uid string string time
  | Shutdown time

definition fromSocket :: "string \<Rightarrow> (wsEvent socket \<Rightarrow> 'a gateway_db_scheme \<Rightarrow> 'a gateway_db_scheme) \<Rightarrow> 'a gateway_db_scheme \<Rightarrow> 'a gateway_db_scheme" where
  "fromSocket i f w = (case findSocket i (realtime w) of None \<Rightarrow> w | Some s \<Rightarrow> f s w)"

fun gatewayStep :: "gateway_env \<Rightarrow> gatewayOp \<Rightarrow> 'a gateway_db_scheme \<Rightarrow> 'a gateway_db_scheme" where
  "gatewayStep env (Http_party x) w = relay (partyStep x) w"
| "gatewayStep env (Connect i a h now) w = handleConnection env i a h now w"
| "gatewayStep env (Disconnect i now) w = handleDisconnect i now w"
| "gatewayStep env (WsJoin i p) w = fromSocket i (\<lambda>s w. snd (handlePartyJoin env s p w)) w"
| "gatewayStep env (WsLeave i p now) w = fromSocket i (\<lambda>s w. snd (handlePartyLeave env s p now w)) w"
| "gatewayStep env (WsLocation i d now) w = fromSocket i (\<lambda>s w. snd (handlePartyUpdateLocation env s d now w)) w"
| "gatewayStep env (WsSignal i p ty ts now) w = fromSocket i (\<lambda>s w. snd (handleSendSignal env s p ty ts now w)) w"
| "gatewayStep env (Fanout u e d body n r now) w = snd (emitToPartyUser env u e d body n r now w)"
| "gatewayStep env (InternalFanout h body u e d now) w = snd (internalFanout env h body u e d now w)"
| "gatewayStep env (Shutdown now) w = onModuleDestroy now w"

section \<open>What a step leaves\<close>

text \<open>The room of a party is for those with a member row of it, gone or not; the room of a user is for that user.\<close>

definition mayHear :: "'a gateway_db_scheme \<Rightarrow> uid \<Rightarrow> string \<Rightarrow> bool" where
  "mayHear w u r \<longleftrightarrow> r = userRoom u \<or> (\<exists>p. r = roomName p \<and> (p, u) \<in> memberKeys w)"

fun roomOf :: "wsEvent \<Rightarrow> string option" where
  "roomOf (PartyEvent e) = Some (roomName (partyOf e))"
| "roomOf (MemberUpdated p u lat lng h s t) = Some (roomName p)"
| "roomOf (PartyError e c m) = None" | "roomOf (Relayed e d) = None" | "roomOf (ServerShutdown t) = None"

definition inOrder :: "'a gateway_db_scheme \<Rightarrow> bool" where
  "inOrder w \<longleftrightarrow> policed (mayHear w) roomOf (realtime w)"

definition keepsOrder :: "'a gateway_db_scheme \<Rightarrow> 'a gateway_db_scheme \<Rightarrow> bool" where
  "keepsOrder w w' \<longleftrightarrow> memberKeys w \<subseteq> memberKeys w' \<and> (inOrder w \<longrightarrow> inOrder w')"

lemma keepsOrder_refl [simp, intro]: "keepsOrder w w"
  by (simp add: keepsOrder_def)

lemma keepsOrder_trans [trans]: "keepsOrder u v \<Longrightarrow> keepsOrder v w \<Longrightarrow> keepsOrder u w"
  unfolding keepsOrder_def by (elim conjE, intro conjI) (erule (1) order_trans, blast)

lemma mayHear_mono: "memberKeys w \<subseteq> memberKeys w' \<Longrightarrow> mayHear w u r \<Longrightarrow> mayHear w' u r"
  by (auto simp: mayHear_def)

lemma announced_realtime: "announced w w' \<Longrightarrow> realtime w' = realtime w" for w :: "'a gateway_db_scheme"
  unfolding announced_def by (cases w; cases w') simp

lemma announced_order: "announced w w' \<Longrightarrow> keepsOrder w w'" for w :: "'a gateway_db_scheme"
  using announced_realtime [of w w'] policed_mono [OF _ mayHear_mono [of w w']]
  by (auto simp: keepsOrder_def inOrder_def announced_def)

lemma socket_order:
  assumes "policed (mayHear w) roomOf (realtime w) \<Longrightarrow> policed (mayHear w) roomOf s"
  shows "keepsOrder w (w\<lparr>realtime := s\<rparr>)"
  using assms by (simp add: keepsOrder_def inOrder_def mayHear_def [abs_def])

lemma deliver_order: "policed (mayHear w) roomOf s \<Longrightarrow> policed (mayHear w) roomOf (deliver e s)"
  unfolding deliver_def by (rule policed_room) simp_all

lemma relay_order: "announced w (f w) \<Longrightarrow> keepsOrder w (relay f w)"
proof -
  assume "announced w (f w)"
  then have "keepsOrder w (f w)" by (rule announced_order)
  also have "keepsOrder (f w) ((f w)\<lparr>realtime := fold deliver (drop (length (emitted w)) (emitted (f w))) (realtime (f w))\<rparr>)"
    by (rule socket_order) (intro policed_fold deliver_order)
  finally show ?thesis by (simp add: relay_def Let_def)
qed

text \<open>A write to other tables or keys.\<close>

definition socketView :: "'a gateway_db_scheme \<Rightarrow> party list \<times> partyMember list \<times> bool \<times> wsEvent socket list" where
  "socketView w = (parties w, partyMembers w, hasEmitter w, realtime w)"

lemma view_fields [simp]:
  "socketView (w\<lparr>rd_status := x\<rparr>) = socketView w" "socketView (w\<lparr>rd_members := m\<rparr>) = socketView w"
  "socketView (w\<lparr>rd_keys := k\<rparr>) = socketView w"
  by (simp_all add: socketView_def)

lemma updateLocation_socketView [simp]: "socketView (snd (updateLocation env u d c now w)) = socketView w"
  by (auto simp: updateLocation_def removeFromRedis_def writeLocation_def socketView_def incrRate_cases Let_def split: option.split)

lemma internalGuard_socketView [simp]: "socketView (snd (internalGuard env h b now w)) = socketView w"
  by (auto simp: internalGuard_def socketView_def split: option.split prod.split)

definition afterDrop :: "uid \<Rightarrow> time \<Rightarrow> 'a gateway_db_scheme \<Rightarrow> 'a gateway_db_scheme" where
  "afterDrop u now w =
     (case rd_userParty w u of None \<Rightarrow> w | Some p \<Rightarrow> if p = [] then w else markOffline u p now w)"

lemma handleDisconnect_cases:
  "handleDisconnect i now w =
     (case findSocket i (realtime w) of
        None \<Rightarrow> w
      | Some s \<Rightarrow> let w2 = afterDrop (sk_userId s) now (w\<lparr>realtime := dropSocket i (realtime w)\<rparr>)
                  in w2\<lparr>rd_status := (rd_status w2)(sk_userId s := hsetOffline now (rd_status w2 (sk_userId s)))\<rparr>)"
  by (simp add: handleDisconnect_def afterDrop_def Let_def cong: option.case_cong)

lemma afterDrop_announced: "announced w (afterDrop u now w)"
  by (simp add: afterDrop_def markOffline_announced split: option.split)

lemma setHostname_updateMember: "setHostname p u host w = updateMember (p, u) (\<lambda>m. m\<lparr>pm_serverHostname := Some host\<rparr>) w"
  by (simp add: setHostname_def updateMember_def)

lemma setHostname_announced: "announced w (snd (setHostname p u host w))"
  using announced_columns [of "\<lambda>m. m\<lparr>pm_serverHostname := Some host\<rparr>" "\<lambda>m. memberKey m = (p, u)" w]
  by (simp add: setHostname_updateMember updateMember_cases del: prod.inject)

text \<open>
  What is shown of a step is shown of its parts: the writes of the party service, what the sockets are
  told, and, for the handlers that connect, join, leave and drop a socket, that change of the sockets.
\<close>

locale gateway_relation =
  fixes R :: "'a gateway_db_scheme \<Rightarrow> 'a gateway_db_scheme \<Rightarrow> bool"
  assumes stay: "R w w"
    and go_on: "R u v \<Longrightarrow> R v w \<Longrightarrow> R u w"
    and view: "socketView v = socketView u \<Longrightarrow> R w v \<longleftrightarrow> R w u"
    and columns: "announced w w' \<Longrightarrow> emitted w' = emitted w \<Longrightarrow> R w w'"
    and told: "announced w (f w) \<Longrightarrow> R w (relay f w)"
    and answer: "R w (errorTo i ev code msg w)"
    and fanned: "R w (emitToUser who ev d w)"
    and moved: "R w (w\<lparr>realtime := emitRoom (roomName p) skip (MemberUpdated p who lat lng h sp t) (realtime w)\<rparr>)"
    and connected: "R w (w\<lparr>realtime := connectSocket i who name (realtime w)\<rparr>)"
begin

lemma connection_R: "R w (handleConnection env i a h now w)"
  using stay connected by (auto simp: handleConnection_def split: sum.split)

lemma disconnect_R:
  assumes "R w (w\<lparr>realtime := dropSocket i (realtime w)\<rparr>)"
  shows "R w (handleDisconnect i now w)"
proof (cases "findSocket i (realtime w)")
  case (Some s)
  define v where "v = w\<lparr>realtime := dropSocket i (realtime w)\<rparr>"
  have "emitted (afterDrop (sk_userId s) now v) = emitted v"
    by (simp add: afterDrop_def markOffline_def split: option.split)
  then have "R v (afterDrop (sk_userId s) now v)" using columns afterDrop_announced by blast
  then have "R w (afterDrop (sk_userId s) now v)" using go_on assms unfolding v_def by blast
  then show ?thesis using Some by (simp add: handleDisconnect_cases Let_def v_def view [OF view_fields(1)])
qed (simp add: handleDisconnect_def stay)

lemma join_R:
  assumes "\<And>m. findUnique memberKey (p, sk_userId client) (partyMembers w) = Some m \<Longrightarrow>
    R w (w\<lparr>realtime := joinRoom (sk_id client) (roomName p) (realtime w)\<rparr>)"
  shows "R w (snd (handlePartyJoin env client p w))"
proof -
  let ?u = "sk_userId client"
  define v where "v = w\<lparr>realtime := joinRoom (sk_id client) (roomName p) (realtime w)\<rparr>"
  have "R w (snd (and_then (setHostname p ?u host (clearOfflineMark ?u p v))
      (\<lambda>_ w3. ret True (w3\<lparr>rd_members := (rd_members w3)(p := sadd ?u (rd_members w3 p))\<rparr>))))"
    if m: "findUnique memberKey (p, ?u) (partyMembers w) = Some m" for host m
  proof (rule inv_and_then [where P = "R w"])
    have "announced v (snd (setHostname p ?u host (clearOfflineMark ?u p v)))"
      by (rule announced_trans [OF clearOfflineMark_announced setHostname_announced])
    moreover have "emitted (snd (setHostname p ?u host (clearOfflineMark ?u p v))) = emitted v"
      by (simp add: setHostname_updateMember updateMember_cases clearOfflineMark_def del: prod.inject)
    ultimately have "R v (snd (setHostname p ?u host (clearOfflineMark ?u p v)))" by (rule columns)
    then show "R w (snd (setHostname p ?u host (clearOfflineMark ?u p v)))"
      using go_on assms [OF m] unfolding v_def by blast
  qed (simp add: view [OF view_fields(2)])
  then show ?thesis unfolding v_def
    by (cases "findUnique memberKey (p, ?u) (partyMembers w)") (simp_all add: handlePartyJoin_def Let_def answer)
qed

lemma leave_R:
  assumes "\<And>v. R v (v\<lparr>realtime := leaveRoom (sk_id client) (roomName p) (realtime v)\<rparr>)"
  shows "R w (snd (handlePartyLeave env client p now w))"
proof -
  have "R w (relay (\<lambda>w. snd (leaveParty u p LEFT now w)) w)" for u
    by (rule told) (rule leaveParty_announced)
  then show ?thesis using assms
    by (auto simp: handlePartyLeave_def Let_def answer intro: go_on go_on [OF _ answer] split: sum.split)
qed

lemma location_R: "R w (snd (handlePartyUpdateLocation env client d now w))"
proof -
  have "R w (snd (and_then (updateLocation (gw_geo env) u l c now w)
      (\<lambda>_ w1. ret True (w1\<lparr>realtime := emitRoom (roomName p) sk (MemberUpdated p u' a b e f now) (realtime w1)\<rparr>))))"
    for u l c p sk u' a b e f
  proof (rule inv_and_then [where P = "R w"])
    show "R w (snd (updateLocation (gw_geo env) u l c now w))"
      using view [OF updateLocation_socketView, of w] stay by simp
    then show "R w (snd (ret True ((snd (updateLocation (gw_geo env) u l c now w))\<lparr>realtime :=
        emitRoom (roomName p) sk (MemberUpdated p u' a b e f now) (realtime (snd (updateLocation (gw_geo env) u l c now w)))\<rparr>)))"
      using go_on [OF _ moved] by simp
  qed
  then show ?thesis
    by (auto simp: handlePartyUpdateLocation_def Let_def answer stay split: option.split)
qed

lemma signal_R: "R w (snd (handleSendSignal env client p ty ts now w))"
proof -
  have "R w (relay (\<lambda>w. snd (recordSignal p u ty n now w)) w)" for u n
    by (rule told) (rule recordSignal_announced)
  then show ?thesis
    by (auto simp: handleSendSignal_def Let_def answer intro: go_on [OF _ answer] split: sum.split prod.split)
qed

lemma emitToPartyUser_R: "R w (snd (emitToPartyUser env u ev d body n r now w))"
  by (auto simp: emitToPartyUser_def fanned stay Let_def split: option.split)

lemma internalFanout_R: "R w (snd (internalFanout env h body u ev d now w))"
proof -
  have "R w (snd (internalGuard (gw_guard env) h body now w))"
    using view [OF internalGuard_socketView, of w] stay by simp
  then show ?thesis unfolding internalFanout_def
    by (rule inv_and_then [where P = "R w"]) (auto intro: go_on [OF _ fanned])
qed

lemma http_R: "R w (relay (partyStep x) w)"
  by (rule told) (rule partyStep_announced)

lemmas handlers_R = connection_R location_R signal_R emitToPartyUser_R internalFanout_R http_R

end

section \<open>Rooms and members\<close>

interpretation order: gateway_relation keepsOrder
proof
  fix u v w w' :: "'a gateway_db_scheme" and f :: "'a gateway_db_scheme \<Rightarrow> 'a gateway_db_scheme"
    and i ev code msg d name p lat lng h sp t skip and who :: uid
  show "keepsOrder w w" by simp
  show "keepsOrder u v \<Longrightarrow> keepsOrder v w \<Longrightarrow> keepsOrder u w" by (rule keepsOrder_trans)
  show "socketView v = socketView u \<Longrightarrow> keepsOrder w v \<longleftrightarrow> keepsOrder w u"
    by (simp add: socketView_def keepsOrder_def inOrder_def mayHear_def [abs_def])
  show "announced w w' \<Longrightarrow> keepsOrder w w'" by (rule announced_order)
  show "announced w (f w) \<Longrightarrow> keepsOrder w (relay f w)" by (rule relay_order)
  show "keepsOrder w (errorTo i ev code msg w)"
    unfolding errorTo_def by (intro socket_order policed_client) simp_all
  show "keepsOrder w (emitToUser who ev d w)"
    unfolding emitToUser_def by (intro socket_order policed_room) simp_all
  show "keepsOrder w (w\<lparr>realtime := emitRoom (roomName p) skip (MemberUpdated p who lat lng h sp t) (realtime w)\<rparr>)"
    by (intro socket_order policed_room) simp_all
  show "keepsOrder w (w\<lparr>realtime := connectSocket i who name (realtime w)\<rparr>)"
    by (intro socket_order policed_connect) (simp_all add: mayHear_def)
qed

lemma handlePartyJoin_order:
  assumes "findSocket i (realtime w) = Some client"
  shows "keepsOrder w (snd (handlePartyJoin env client p w))"
proof (rule order.join_R)
  fix m
  assume "findUnique memberKey (p, sk_userId client) (partyMembers w) = Some m"
  note m = findUnique_Some [OF this]
  have "(p, sk_userId client) \<in> memberKeys w" using imageI [OF conjunct1 [OF m], of memberKey] m by simp
  then have may: "mayHear w (sk_userId client) (roomName p)" unfolding mayHear_def by blast
  have i: "sk_id client = i" using findSocket_Some [OF assms] by blast
  have "s = client" if "policed (mayHear w) roomOf (realtime w)" "s \<in> set (realtime w)" "sk_id s = i" for s
    by (rule policed_find [OF that(1) assms that(2,3)])
  then show "keepsOrder w (w\<lparr>realtime := joinRoom (sk_id client) (roomName p) (realtime w)\<rparr>)"
    unfolding i using may by (intro socket_order policed_join) blast+
qed

lemma handleDisconnect_order: "keepsOrder w (handleDisconnect i now w)"
  by (intro order.disconnect_R socket_order policed_drop)

lemma onModuleDestroy_order: "keepsOrder w (onModuleDestroy now w)"
proof -
  have "keepsOrder w (w\<lparr>realtime := emitAll (ServerShutdown now) (realtime w)\<rparr>)"
    by (intro socket_order policed_all) simp_all
  then show ?thesis unfolding onModuleDestroy_def
    by (rule fold_inv [where P = "keepsOrder w"]) (rule keepsOrder_trans [OF _ handleDisconnect_order])
qed

lemma gatewayStep_order: "keepsOrder w (gatewayStep env x w)"
proof (cases x)
  case (WsLeave i p now)
  have "keepsOrder w (snd (handlePartyLeave env client p now w))" for client
    by (intro order.leave_R socket_order policed_leave)
  then show ?thesis using WsLeave by (simp add: fromSocket_def split: option.split)
qed (simp_all add: fromSocket_def order.handlers_R handleDisconnect_order handlePartyJoin_order onModuleDestroy_order
    split: option.split)

interpretation rooms: room_policy mayHear realtime roomOf "gatewayStep env" for env
proof
  fix x u r and w :: "'a gateway_db_scheme"
  have order: "keepsOrder w (gatewayStep env x w)" by (rule gatewayStep_order)
  then show "mayHear w u r \<Longrightarrow> mayHear (gatewayStep env x w) u r"
    by (auto simp: keepsOrder_def intro: mayHear_mono)
  show "policed (mayHear w) roomOf (realtime w) \<Longrightarrow>
      policed (mayHear (gatewayStep env x w)) roomOf (realtime (gatewayStep env x w))"
    using order by (simp add: keepsOrder_def inOrder_def)
qed

lemma roomName_simps [simp]: "roomName p = roomName q \<longleftrightarrow> p = q" "roomName p \<noteq> userRoom u"
  by (simp_all add: roomName_def userRoom_def)

text \<open>
  C15: whatever riders, sockets and other replicas do, each socket that is in the room of a party, and
  each socket that was ever sent an event of a party or the position of one of its riders, belongs to
  a user with a member row of that party.
\<close>

theorem rooms_hold_members:
  assumes "realtime w = []" and "v = fold (gatewayStep env) xs w" and "s \<in> set (realtime v)"
  shows "(roomName p \<in> set (sk_rooms s) \<longrightarrow> (p, sk_userId s) \<in> memberKeys v) \<and>
    (\<forall>e. PartyEvent e \<in> set (sk_inbox s) \<longrightarrow> (partyOf e, sk_userId s) \<in> memberKeys v) \<and>
    (\<forall>u lat lng h sp t. MemberUpdated p u lat lng h sp t \<in> set (sk_inbox s) \<longrightarrow> (p, sk_userId s) \<in> memberKeys v)"
proof -
  have start: "policed (mayHear w) roomOf (realtime w)" using assms(1) by (simp add: policed_def)
  have may: "mayHear v u (roomName q) \<longleftrightarrow> (q, u) \<in> memberKeys v" for u q by (auto simp: mayHear_def)
  have "(partyOf e, sk_userId s) \<in> memberKeys v" if "PartyEvent e \<in> set (sk_inbox s)" for e
    using rooms.heard_allowed [OF start, of s env xs "PartyEvent e"] assms(2,3) that may by simp
  moreover have "(p, sk_userId s) \<in> memberKeys v" if "MemberUpdated p u lat lng h sp t \<in> set (sk_inbox s)" for u lat lng h sp t
    using rooms.heard_allowed [OF start, of s env xs "MemberUpdated p u lat lng h sp t"] assms(2,3) that may by simp
  moreover have "(p, sk_userId s) \<in> memberKeys v" if "roomName p \<in> set (sk_rooms s)"
    using rooms.inside_allowed [OF start, of s env xs "roomName p"] assms(2,3) that may by simp
  ultimately show ?thesis by blast
qed

section \<open>A sample\<close>

definition sampleGatewayEnv :: gateway_env where
  "sampleGatewayEnv =
     \<lparr>gw_geo = sampleGeo,
      gw_guard = \<lparr>gv_verifyAccess = (\<lambda>now t. Some \<lparr>ap_sub = t, ap_username = t, ap_role = None, ap_typ = ''access''\<rparr>),
                  gv_hmac = (\<lambda>secret text. ''00''), gv_secret = None\<rparr>,
      gw_isUuid = (\<lambda>s. s \<noteq> []), gw_zodMessage = ''invalid'', gw_messageOf = (\<lambda>e. ''failed''), gw_hostname = ''r1''\<rparr>"

definition sampleRealtime :: gateway_db where
  "sampleRealtime = location_db.extend
     (party_db.extend (snd (createParty ''a'' samplePartyDto 10 (sampleParties\<lparr>uuidNext := 1\<rparr>)))
       \<lparr>rd_geo = (\<lambda>_. []), rd_shards = [], rd_status = (\<lambda>_. None), rd_ping = (\<lambda>_. None), liveSessions = [],
        locationPings = []\<rparr>)
     \<lparr>realtime = []\<rparr>"

text \<open>\<open>a\<close> leads the party \<open>u\<close>, \<open>b\<close> joins it, and both listen.\<close>

definition twoRiders :: "gatewayOp list" where
  "twoRiders =
     [Connect ''s1'' (Some ''a'') None 11, WsJoin ''s1'' ''u'', Http_party (JoinParty ''b'' ''u'' 20),
      Connect ''s2'' None (Some ''Bearer b'') 21, WsJoin ''s2'' ''u'']"

theorem rooms_hold_members_witness:
  "(''u'', ''b'') \<in> memberKeys (fold (gatewayStep sampleGatewayEnv) twoRiders sampleRealtime)"
proof -
  let ?v = "fold (gatewayStep sampleGatewayEnv) twoRiders sampleRealtime"
  have "(case findSocket ''s2'' (realtime ?v) of None \<Rightarrow> False | Some s \<Rightarrow> sk_userId s = ''b'' \<and> roomName ''u'' \<in> set (sk_rooms s))"
    by code_simp
  then obtain s where s: "findSocket ''s2'' (realtime ?v) = Some s" "sk_userId s = ''b''" "roomName ''u'' \<in> set (sk_rooms s)"
    by (cases "findSocket ''s2'' (realtime ?v)") (simp_all only: option.case)
  have "realtime sampleRealtime = []" by (simp add: sampleRealtime_def location_db.extend_def)
  from rooms_hold_members [OF this refl conjunct1 [OF findSocket_Some [OF s(1)]], of "''u''"] s(2,3) show ?thesis by metis
qed

section \<open>What the gateway does not check\<close>

definition samplePosition :: wsLocation where
  "samplePosition = \<lparr>wl_partyId = ''u'', wl_lat = 1, wl_lng = 2, wl_heading = None, wl_speed = None, wl_accuracy = None,
     wl_batteryLevel = None, wl_clientTimestamp = 5\<rparr>"

text \<open>
  A member who leaves over HTTP stays in the room: the socket of \<open>b\<close> has heard that \<open>b\<close> left, and hears
  what is sent there next.
\<close>

lemma ex_member_hears:
  "(let w = fold (gatewayStep sampleGatewayEnv) (twoRiders @ [Http_party (LeaveParty ''b'' ''u'' LEFT 30)]) sampleRealtime
    in case findSocket ''s2'' (realtime w) of
         None \<Rightarrow> False
       | Some s \<Rightarrow> sk_inbox s = [PartyEvent (MemberLeft ''u'' ''b'' LEFT)] \<and> roomName ''u'' \<in> set (sk_rooms s))"
  by code_simp

text \<open>The second position within a second, which the location service refuses, is sent to the room like the first.\<close>

lemma refused_position_sent:
  "(case findSocket ''s3'' (realtime (fold (gatewayStep sampleGatewayEnv)
      [Connect ''s1'' (Some ''a'') None 11, Connect ''s3'' (Some ''a'') None 11, WsJoin ''s3'' ''u'',
       WsLocation ''s1'' samplePosition 2000, WsLocation ''s1'' samplePosition 2001] sampleRealtime)) of
     None \<Rightarrow> False
   | Some s \<Rightarrow> sk_inbox s = [MemberUpdated ''u'' ''a'' 1 2 None None 2000, MemberUpdated ''u'' ''a'' 1 2 None None 2001])"
  by code_simp

text \<open>One of two devices goes: the member is marked offline though the other is connected.\<close>

lemma one_device_gone:
  "(let w = fold (gatewayStep sampleGatewayEnv) (twoRiders @ [Connect ''s3'' (Some ''b'') None 22, Disconnect ''s3'' 30]) sampleRealtime
    in findSocket ''s2'' (realtime w) \<noteq> None \<and>
       (case findUnique memberKey (''u'', ''b'') (partyMembers w) of None \<Rightarrow> False | Some m \<Rightarrow> \<not> pm_isOnline m))"
  by code_simp

end
