(* ===== verification/Party_Client.thy ===== *)
theory Party_Client
  imports Party_Gateway
begin

text \<open>
  The party screen of the mobile application: the store of \<open>mobile-native/src/store/party.store.ts\<close>
  (with \<open>lib/party-ws-helpers.ts\<close>), the listeners and calls of \<open>hooks/useParty.ts\<close>, and what
  they have to do with the gateway: a store that was set from the party's detail while its socket is
  in the room, and that has handled what the socket has been sent since, shows the leader and the
  members that the server has. A message that does not fit its schema is the business of
  \<open>ws-typed.ts\<close>; the gateway sends none.
\<close>

section \<open>The store\<close>

record liveMemberState =
  lm_userId :: uid
  lm_lat :: rat
  lm_lng :: rat
  lm_heading :: "rat option"
  lm_speed :: "rat option"
  lm_timestamp :: time

record partySignalToast =
  tt_id :: string
  tt_partyId :: uid
  tt_senderId :: uid
  tt_senderName :: string
  tt_type :: string
  tt_timestamp :: time

record partyState =
  st_party :: "partyDetail option"
  st_connected :: bool
  st_liveMembers :: "uid \<Rightarrow> liveMemberState option"
  st_recentSignals :: "partySignalToast list"

definition initialPartyState :: partyState where
  "initialPartyState = \<lparr>st_party = None, st_connected = False, st_liveMembers = (\<lambda>_. None), st_recentSignals = []\<rparr>"

definition setParty :: "partyDetail option \<Rightarrow> partyState \<Rightarrow> partyState" where
  "setParty d s = s\<lparr>st_party := d, st_liveMembers := (\<lambda>_. None), st_recentSignals := []\<rparr>"

definition clearParty :: "partyState \<Rightarrow> partyState" where
  "clearParty s = s\<lparr>st_party := None, st_liveMembers := (\<lambda>_. None), st_recentSignals := []\<rparr>"

definition setConnected :: "bool \<Rightarrow> partyState \<Rightarrow> partyState" where
  "setConnected c s = s\<lparr>st_connected := c\<rparr>"

definition applyPartyStatusChange :: "partyDetail \<Rightarrow> partyStatus \<Rightarrow> partyDetail" where
  "applyPartyStatusChange detail status =
     (if ps_status (pd_summary detail) = status then detail
      else detail\<lparr>pd_summary := (pd_summary detail)\<lparr>ps_status := status\<rparr>\<rparr>)"

definition setPartyStatus :: "partyStatus \<Rightarrow> partyState \<Rightarrow> partyState" where
  "setPartyStatus status s =
     (case st_party s of None \<Rightarrow> s | Some d \<Rightarrow> s\<lparr>st_party := Some (applyPartyStatusChange d status)\<rparr>)"

text \<open>\<open>{ ...party, members, memberCount: members.length }\<close>\<close>

definition withMembers :: "partyMemberDto list \<Rightarrow> partyDetail \<Rightarrow> partyDetail" where
  "withMembers members d = d\<lparr>pd_members := members, pd_summary := (pd_summary d)\<lparr>ps_memberCount := length members\<rparr>\<rparr>"

definition upsertMember :: "partyMemberDto \<Rightarrow> partyState \<Rightarrow> partyState" where
  "upsertMember member s =
     (case st_party s of
        None \<Rightarrow> s
      | Some d \<Rightarrow>
          let members = filter (\<lambda>m. md_userId m \<noteq> md_userId member) (pd_members d) @ [member]
          in s\<lparr>st_party := Some (withMembers members d)\<rparr>)"

definition removeMember :: "uid \<Rightarrow> partyState \<Rightarrow> partyState" where
  "removeMember userId s =
     (case st_party s of
        None \<Rightarrow> s
      | Some d \<Rightarrow>
          let members = filter (\<lambda>m. md_userId m \<noteq> userId) (pd_members d)
          in s\<lparr>st_party := Some (withMembers members d), st_liveMembers := (st_liveMembers s)(userId := None)\<rparr>)"

definition setLeader :: "uid \<Rightarrow> partyState \<Rightarrow> partyState" where
  "setLeader leaderId s =
     (case st_party s of
        None \<Rightarrow> s
      | Some d \<Rightarrow>
          let members = map (\<lambda>m. m\<lparr>md_role := (if md_userId m = leaderId then R_LEADER
                               else if md_role m = R_LEADER then R_MEMBER else md_role m)\<rparr>) (pd_members d)
          in s\<lparr>st_party := Some (d\<lparr>pd_summary := (pd_summary d)\<lparr>ps_leaderId := leaderId\<rparr>, pd_members := members\<rparr>)\<rparr>)"

definition updateLiveMember :: "uid \<Rightarrow> rat \<Rightarrow> rat \<Rightarrow> rat option \<Rightarrow> rat option \<Rightarrow> time \<Rightarrow> partyState \<Rightarrow> partyState" where
  "updateLiveMember userId lat lng heading speed timestamp s =
     s\<lparr>st_liveMembers := (st_liveMembers s)(userId \<mapsto>
         \<lparr>lm_userId = userId, lm_lat = lat, lm_lng = lng, lm_heading = heading, lm_speed = speed, lm_timestamp = timestamp\<rparr>)\<rparr>"

definition signalId :: "uid \<Rightarrow> time \<Rightarrow> string \<Rightarrow> string" where
  "signalId senderId timestamp ty = senderId @ ''-'' @ showDecimal timestamp @ ''-'' @ ty"

definition pushSignal :: "uid \<Rightarrow> uid \<Rightarrow> string \<Rightarrow> string \<Rightarrow> time \<Rightarrow> partyState \<Rightarrow> partyState" where
  "pushSignal partyId senderId senderName ty timestamp s =
     (let i = signalId senderId timestamp ty
      in s\<lparr>st_recentSignals := take 5
           (\<lparr>tt_id = i, tt_partyId = partyId, tt_senderId = senderId, tt_senderName = senderName, tt_type = ty,
             tt_timestamp = timestamp\<rparr> # filter (\<lambda>t. tt_id t \<noteq> i) (st_recentSignals s))\<rparr>)"

definition dismissSignal :: "string \<Rightarrow> partyState \<Rightarrow> partyState" where
  "dismissSignal i s = s\<lparr>st_recentSignals := filter (\<lambda>t. tt_id t \<noteq> i) (st_recentSignals s)\<rparr>"

section \<open>The listeners\<close>

text \<open>The events that \<open>useParty(partyId)\<close> listens for; errors go to the error log only.\<close>

fun onEvent :: "uid \<Rightarrow> wsEvent \<Rightarrow> partyState \<Rightarrow> partyState" where
  "onEvent partyId (PartyEvent (MemberJoined p m)) s = (if p \<noteq> partyId then s else upsertMember m s)"
| "onEvent partyId (PartyEvent (MemberLeft p u r)) s = (if p \<noteq> partyId then s else removeMember u s)"
| "onEvent partyId (PartyEvent (StatusChanged p st)) s = (if p \<noteq> partyId then s else setPartyStatus st s)"
| "onEvent partyId (PartyEvent (LeaderChanged p u)) s = (if p \<noteq> partyId then s else setLeader u s)"
| "onEvent partyId (PartyEvent (Signal p ty u n t)) s = (if p \<noteq> partyId then s else pushSignal p u n ty t s)"
| "onEvent partyId (PartyEvent (Ended p r)) s = (if p \<noteq> partyId then s else clearParty s)"
| "onEvent partyId (MemberUpdated p u lat lng h sp t) s = (if p \<noteq> partyId then s else updateLiveMember u lat lng h sp t s)"
| "onEvent partyId (PartyError ev code msg) s = s"
| "onEvent partyId (Relayed ev d) s = s"
| "onEvent partyId (ServerShutdown t) s = s"

text \<open>What the hook sends; a call while the socket is not connected sends nothing.\<close>

datatype clientMessage =
    SendJoin uid
  | SendLeave uid
  | SendLocation wsLocation
  | SendSignal uid string time

definition onConnect :: "uid \<Rightarrow> partyState \<Rightarrow> clientMessage list \<times> partyState" where
  "onConnect partyId s = ([SendJoin partyId], setConnected True s)"

definition onDisconnect :: "partyState \<Rightarrow> partyState" where
  "onDisconnect s = setConnected False s"

definition stopListening :: "bool \<Rightarrow> uid \<Rightarrow> clientMessage list" where
  "stopListening isConnected partyId = (if isConnected then [SendLeave partyId] else [])"

definition sendLocation :: "bool \<Rightarrow> uid option \<Rightarrow> wsLocation \<Rightarrow> clientMessage list" where
  "sendLocation isConnected partyId payload =
     (case truthy partyId of
        None \<Rightarrow> []
      | Some p \<Rightarrow> if \<not> isConnected then [] else [SendLocation (payload\<lparr>wl_partyId := p\<rparr>)])"

definition sendSignal :: "bool \<Rightarrow> uid option \<Rightarrow> string \<Rightarrow> time \<Rightarrow> clientMessage list" where
  "sendSignal isConnected partyId ty now =
     (case truthy partyId of
        None \<Rightarrow> [] | Some p \<Rightarrow> if \<not> isConnected then [] else [SendSignal p ty now])"

definition leave :: "bool \<Rightarrow> uid option \<Rightarrow> clientMessage list" where
  "leave isConnected partyId =
     (case truthy partyId of None \<Rightarrow> [] | Some p \<Rightarrow> if \<not> isConnected then [] else [SendLeave p])"

section \<open>What a socket in the room is told\<close>

fun hear :: "uid \<Rightarrow> wsEvent \<Rightarrow> (uid \<times> uid set) option \<Rightarrow> (uid \<times> uid set) option" where
  "hear p (PartyEvent e) v = track p e v"
| "hear p e v = v"

text \<open>
  Socket \<open>i\<close> stays in the room of party \<open>p\<close>, and what it is sent tells what becomes of the party.
\<close>

definition follows :: "string \<Rightarrow> uid \<Rightarrow> 'a gateway_db_scheme \<Rightarrow> 'a gateway_db_scheme \<Rightarrow> bool" where
  "follows i p w w' \<longleftrightarrow>
     hasEmitter w' = hasEmitter w \<and>
     (hasEmitter w \<longrightarrow> findParty p w \<noteq> None \<longrightarrow> findParty p w' \<noteq> None \<and>
        (\<exists>es. hears i (roomName p) es (realtime w) (realtime w') \<and> shown p w' = fold (hear p) es (shown p w)))"

lemma follows_refl [simp, intro]: "follows i p w w"
  by (auto simp: follows_def intro: exI [of _ "[]"])

lemma follows_trans: "follows i p u v \<Longrightarrow> follows i p v w \<Longrightarrow> follows i p u w"
  unfolding follows_def
proof (elim conjE, intro conjI impI, goal_cases)
  case 3
  then obtain es fs where "hears i (roomName p) es (realtime u) (realtime v)" "shown p v = fold (hear p) es (shown p u)"
    "hears i (roomName p) fs (realtime v) (realtime w)" "shown p w = fold (hear p) fs (shown p v)"
    by auto
  then show ?case by (intro exI [of _ "es @ fs"]) (auto intro: hears_trans)
qed auto

lemma follows_sockets:
  assumes "hears i (roomName p) es (realtime w) s" and "\<And>v. fold (hear p) es v = v"
  shows "follows i p w (w\<lparr>realtime := s\<rparr>)"
  using assms by (auto simp: follows_def shown_def findParty_def intro!: exI [of _ es] split: option.split)

lemma shown_sockets [simp]:
  "shown p (w\<lparr>realtime := s\<rparr>) = shown p w" "findParty p (w\<lparr>realtime := s\<rparr>) = findParty p w"
  by (simp_all add: shown_def findParty_def split: option.split)

lemma shown_socketView: "socketView v = socketView u \<Longrightarrow> shown p v = shown p u \<and> findParty p v = findParty p u"
  by (simp add: socketView_def shown_def findParty_def split: option.split)

lemma hears_emit: "\<exists>es. set es \<subseteq> {e} \<and> (r = room \<and> skip = None \<longrightarrow> es = [e]) \<and> hears i room es socks (emitRoom r skip e socks)"
proof (cases "findSocket i socks")
  case None
  then show ?thesis by (intro exI [of _ "[e]"]) (simp add: hears_def)
next
  case (Some s)
  define es where "es = (if r \<in> set (sk_rooms s) \<and> skip \<noteq> Some i then [e] else [])"
  have "room \<in> set (sk_rooms s) \<Longrightarrow> r = room \<and> skip = None \<longrightarrow> es = [e]" by (simp add: es_def)
  moreover have "hears i room es socks (emitRoom r skip e socks)"
    using Some findSocket_Some [OF Some] by (auto simp: hears_def emitRoom_def findSocket_map es_def)
  moreover have "hears i room [e] socks (emitRoom r skip e socks)" if "room \<notin> set (sk_rooms s)"
    using Some that by (simp add: hears_def)
  moreover have "set es \<subseteq> {e}" by (auto simp: es_def)
  moreover have "set [e] \<subseteq> {e}" by simp
  ultimately show ?thesis by metis
qed

lemma hears_quiet_emit:
  assumes "\<And>v. hear p e v = v"
  shows "\<exists>es. hears i room es socks (emitRoom r skip e socks) \<and> (\<forall>v. fold (hear p) es v = v)"
proof -
  obtain es where es: "set es \<subseteq> {e}" "hears i room es socks (emitRoom r skip e socks)" using hears_emit by metis
  have "fold (hear p) es v = v" for v using es(1) by (induction es) (simp_all add: assms)
  then show ?thesis using es(2) by blast
qed

lemma hears_deliver:
  "\<exists>es. hears i (roomName p) es socks (deliver e socks) \<and> (\<forall>v. fold (hear p) es v = track p e v)"
proof (cases "partyOf e = p")
  case True
  obtain es where "es = [PartyEvent e]" "hears i (roomName p) es socks (deliver e socks)"
    using hears_emit [of "PartyEvent e" "roomName p" "roomName p" None i socks] unfolding deliver_def True by auto
  then show ?thesis by (intro exI [of _ es]) simp
next
  case False
  then have "track p e v = v" for v by (cases e) auto
  then show ?thesis using hears_quiet_emit [of p "PartyEvent e"] unfolding deliver_def by simp
qed

lemma hears_delivered:
  "\<exists>es. hears i (roomName p) es socks (fold deliver ev socks) \<and> (\<forall>v. fold (hear p) es v = fold (track p) ev v)"
proof (induction ev arbitrary: socks)
  case Nil
  show ?case by (intro exI [of _ "[]"]) simp
next
  case (Cons e ev)
  obtain es where es: "hears i (roomName p) es socks (deliver e socks)" "\<And>v. fold (hear p) es v = track p e v"
    using hears_deliver by metis
  obtain fs where "hears i (roomName p) fs (deliver e socks) (fold deliver ev (deliver e socks))"
    "\<And>v. fold (hear p) fs v = fold (track p) ev v" using Cons.IH by metis
  then show ?case using es hears_trans [OF es(1)] by (intro exI [of _ "es @ fs"]) simp
qed

lemma relay_follows:
  assumes "announced w (f w)" shows "follows i p w (relay f w)"
proof -
  obtain ev where ev: "emitted (f w) = emitted w @ ev" and he: "hasEmitter (f w) = hasEmitter w"
    and view: "hasEmitter w \<Longrightarrow> findParty p w \<noteq> None \<Longrightarrow> findParty p (f w) \<noteq> None \<and> shown p (f w) = fold (track p) ev (shown p w)"
    using assms unfolding announced_def by auto
  have rt: "realtime (f w) = realtime w" by (rule announced_realtime [OF assms])
  obtain es where es: "hears i (roomName p) es (realtime w) (fold deliver ev (realtime w))"
    "\<And>v. fold (hear p) es v = fold (track p) ev v" using hears_delivered by metis
  have "shown p (relay f w) = shown p (f w)" "findParty p (relay f w) = findParty p (f w)"
    "realtime (relay f w) = fold deliver ev (realtime w)" "hasEmitter (relay f w) = hasEmitter w"
    by (simp_all add: relay_def Let_def ev rt he)
  then show ?thesis using es view by (auto simp: follows_def)
qed

interpretation following: gateway_relation "follows i p" for i p
proof
  fix u v w w' :: "'a gateway_db_scheme" and f :: "'a gateway_db_scheme \<Rightarrow> 'a gateway_db_scheme"
    and j ev code msg d name q lat lng h sp t skip and who :: uid
  show "follows i p w w" by simp
  show "follows i p u v \<Longrightarrow> follows i p v w \<Longrightarrow> follows i p u w" by (rule follows_trans)
  show "socketView v = socketView u \<Longrightarrow> follows i p w v \<longleftrightarrow> follows i p w u"
    using shown_socketView [of v u p] by (simp add: socketView_def follows_def)
  show "follows i p w w'" if "announced w w'" "emitted w' = emitted w"
    using that announced_realtime [OF that(1)] by (auto simp: follows_def announced_def intro: exI [of _ "[]"])
  show "announced w (f w) \<Longrightarrow> follows i p w (relay f w)" by (rule relay_follows)
  show "follows i p w (errorTo j ev code msg w)"
  proof (cases "j = i")
    case True
    show ?thesis unfolding errorTo_def True by (rule follows_sockets [OF hears_client]) simp
  next
    case False
    then show ?thesis unfolding errorTo_def by (intro follows_sockets [OF hears_client_other]) simp_all
  qed
  obtain es where "hears i (roomName p) es (realtime w) (emitRoom (userRoom who) None (Relayed ev d) (realtime w))"
    "\<And>v. fold (hear p) es v = v" using hears_quiet_emit [of p "Relayed ev d"] by (metis hear.simps(4))
  then show "follows i p w (emitToUser who ev d w)" unfolding emitToUser_def by (rule follows_sockets)
  obtain es where "hears i (roomName p) es (realtime w) (emitRoom (roomName q) skip (MemberUpdated q who lat lng h sp t) (realtime w))"
    "\<And>v. fold (hear p) es v = v" using hears_quiet_emit [of p "MemberUpdated q who lat lng h sp t"] by (metis hear.simps(2))
  then show "follows i p w (w\<lparr>realtime := emitRoom (roomName q) skip (MemberUpdated q who lat lng h sp t) (realtime w)\<rparr>)"
    by (rule follows_sockets)
  show "follows i p w (w\<lparr>realtime := connectSocket j who name (realtime w)\<rparr>)"
    by (rule follows_sockets [OF hears_connect]) simp
qed

text \<open>Socket \<open>i\<close> neither leaves the party nor disconnects, and the replica stays up.\<close>

fun stays :: "string \<Rightarrow> uid \<Rightarrow> gatewayOp \<Rightarrow> bool" where
  "stays i p (Disconnect j now) \<longleftrightarrow> j \<noteq> i"
| "stays i p (WsLeave j q now) \<longleftrightarrow> j \<noteq> i \<or> q \<noteq> p"
| "stays i p (Shutdown now) \<longleftrightarrow> False"
| "stays i p x \<longleftrightarrow> True"

lemma gatewayStep_follows:
  assumes "stays i p x" shows "follows i p w (gatewayStep env x w)"
proof (cases x)
  case (WsLeave j q now)
  have "follows i p w (snd (handlePartyLeave env c q now w))" if "sk_id c \<noteq> i \<or> q \<noteq> p" for c
    using that by (intro following.leave_R follows_sockets [where es = "[]"] hears_leave_other) auto
  then show ?thesis using assms WsLeave findSocket_Some by (fastforce simp: fromSocket_def split: option.split)
next
  case (Disconnect j now)
  then have "follows i p w (handleDisconnect j now w)"
    using assms by (intro following.disconnect_R follows_sockets [where es = "[]"] hears_drop_other) auto
  then show ?thesis using Disconnect by simp
next
  case (WsJoin j q)
  have "follows i p w (snd (handlePartyJoin env c q w))" for c
    by (intro following.join_R follows_sockets [where es = "[]"] hears_join) auto
  then show ?thesis using WsJoin by (simp add: fromSocket_def split: option.split)
qed (use assms in \<open>simp_all add: fromSocket_def following.handlers_R split: option.split\<close>)

lemma history_follows: "list_all (stays i p) xs \<Longrightarrow> follows i p w (fold (gatewayStep env) xs w)"
  by (induction xs arbitrary: w) (auto intro: follows_trans gatewayStep_follows)

section \<open>The store shows the party\<close>

definition clientView :: "partyState \<Rightarrow> (uid \<times> uid set) option" where
  "clientView s = map_option (\<lambda>d. (ps_leaderId (pd_summary d), md_userId ` set (pd_members d))) (st_party s)"

lemma onEvent_view: "clientView (onEvent p e s) = hear p e (clientView s)"
proof (cases e)
  case (PartyEvent x)
  then show ?thesis
    by (cases x) (auto simp: clientView_def upsertMember_def removeMember_def setLeader_def setPartyStatus_def pushSignal_def
        clearParty_def withMembers_def applyPartyStatusChange_def Let_def image_image split: option.split)
qed (simp_all add: clientView_def updateLiveMember_def)

lemma inbox_view: "clientView (fold (onEvent p) es s) = fold (hear p) es (clientView s)"
  by (induction es arbitrary: s) (simp_all add: onEvent_view)

text \<open>Each member once, and the count is theirs; no more than five signals, each once.\<close>

definition tidy :: "partyState \<Rightarrow> bool" where
  "tidy s \<longleftrightarrow>
     (case st_party s of
        None \<Rightarrow> True
      | Some d \<Rightarrow> distinct (map md_userId (pd_members d)) \<and> ps_memberCount (pd_summary d) = length (pd_members d)) \<and>
     length (st_recentSignals s) \<le> 5 \<and> distinct (map tt_id (st_recentSignals s))"

lemma distinct_take_ids: "distinct (map f (take n (x # filter (\<lambda>t. f t \<noteq> f x) xs)))" if "distinct (map f xs)"
proof -
  have "distinct (map f (x # filter (\<lambda>t. f t \<noteq> f x) xs))" using that by (auto simp: distinct_map_filter)
  then show ?thesis unfolding take_map [symmetric] by (rule distinct_take)
qed

lemma pushSignal_tidy: "tidy s \<Longrightarrow> tidy (pushSignal p u n ty t s)"
  using distinct_take_ids [of tt_id "st_recentSignals s" 5 "\<lparr>tt_id = signalId u t ty, tt_partyId = p, tt_senderId = u, tt_senderName = n, tt_type = ty,
             tt_timestamp = t\<rparr>"]
  by (simp add: tidy_def pushSignal_def Let_def del: take_Suc_Cons)

lemma onEvent_tidy: "tidy s \<Longrightarrow> tidy (onEvent p e s)"
proof (cases e)
  case (PartyEvent x)
  assume "tidy s"
  then show ?thesis using PartyEvent
    by (cases x) (auto simp: tidy_def upsertMember_def removeMember_def setLeader_def setPartyStatus_def pushSignal_tidy [unfolded tidy_def]
        clearParty_def withMembers_def applyPartyStatusChange_def Let_def distinct_map_filter o_def split: option.splits)
qed (simp_all add: tidy_def updateLiveMember_def)

lemma getPartyDetail_view:
  assumes "fst (getPartyDetail p w) = Inr d" and "openParty p w" and "distinct (map memberKey (partyMembers w))"
  shows "clientView (setParty (Some d) c) = shown p w" and "tidy (setParty (Some d) c)"
proof -
  obtain r where r: "findParty p w = Some r" "pt_status r \<noteq> P_ENDED" "pt_deletedAt r = None"
    using assms(2) by (auto simp: openParty_def split: option.splits)
  let ?ms = "filter (\<lambda>m. pm_leftAt m = None) (membersOf p w)"
  have d: "pd_summary d = toSummary r (length ?ms)" "pd_members d = map (\<lambda>m. toMemberDto m w) (sort_key pm_joinedAt ?ms)"
    using assms(1) r by (auto simp: getPartyDetail_def ret_def Let_def)
  have ids: "map md_userId (pd_members d) = map pm_userId (sort_key pm_joinedAt ?ms)"
    by (simp add: d(2) toMemberDto_def Let_def)
  have "md_userId ` set (pd_members d) = pm_userId ` set ?ms"
    using arg_cong [OF ids, of set] by simp
  also have "\<dots> = {u. active (partyMembers w) p u}" by (auto simp: active_def membersOf_def)
  finally show "clientView (setParty (Some d) c) = shown p w"
    using r by (simp add: clientView_def setParty_def shown_def d(1) toSummary_def)
  have "distinct (map pm_userId (filter (\<lambda>m. pm_leftAt m = None) (filter (\<lambda>m. pm_partyId m = p) t)))"
    if "distinct (map memberKey t)" for t
    using that by (induction t) (auto simp: image_iff)
  then have "distinct (map pm_userId ?ms)" using assms(3) unfolding membersOf_def by blast
  then have "distinct (map pm_userId (sort_key pm_joinedAt ?ms))" by (simp add: distinct_map)
  then have "distinct (map md_userId (pd_members d))" unfolding ids .
  moreover have "ps_memberCount (pd_summary d) = length (pd_members d)" by (simp add: d toSummary_def)
  ultimately show "tidy (setParty (Some d) c)" by (simp add: tidy_def setParty_def)
qed

text \<open>
  C3: a phone whose socket is in the room of an open party and whose store was set from the party's
  detail shows, after any history of riders, sockets and replicas in which that socket stays, the
  leader and exactly the active members that the tables have, each once and with the right count, and
  nothing once the party has ended; all it needs are the messages its socket was sent.
\<close>

theorem client_mirrors_server:
  assumes "fst (getPartyDetail p w) = Inr d" and "openParty p w" and "distinct (map memberKey (partyMembers w))"
    and "hasEmitter w" and "findSocket i (realtime w) = Some s" and "roomName p \<in> set (sk_rooms s)"
    and "list_all (stays i p) xs" and "v = fold (gatewayStep env) xs w"
  shows "\<exists>s' es. findSocket i (realtime v) = Some s' \<and> sk_inbox s' = sk_inbox s @ es \<and>
    clientView (fold (onEvent p) es (setParty (Some d) c)) = shown p v \<and> tidy (fold (onEvent p) es (setParty (Some d) c))"
proof -
  have "findParty p w \<noteq> None" using assms(2) by (auto simp: openParty_def split: option.splits)
  moreover have "follows i p w v" unfolding assms(8) by (rule history_follows [OF assms(7)])
  ultimately obtain es where "hears i (roomName p) es (realtime w) (realtime v)" "shown p v = fold (hear p) es (shown p w)"
    using assms(4) unfolding follows_def by auto
  then show ?thesis
    using assms(5,6) getPartyDetail_view [OF assms(1-3)] fold_inv [of tidy "setParty (Some d) c" "onEvent p" es] onEvent_tidy
    unfolding hears_def by (metis inbox_view)
qed

section \<open>A sample\<close>

definition sampleRoom :: gateway_db where
  "sampleRoom = fold (gatewayStep sampleGatewayEnv) [Connect ''s1'' (Some ''a'') None 11, WsJoin ''s1'' ''u''] sampleRealtime"

theorem client_mirrors_server_witness:
  "\<exists>d s' es. fst (getPartyDetail ''u'' sampleRoom) = Inr d \<and>
     findSocket ''s1'' (realtime (gatewayStep sampleGatewayEnv (Http_party (JoinParty ''b'' ''u'' 20)) sampleRoom)) = Some s' \<and>
     sk_inbox s' = es \<and>
     clientView (fold (onEvent ''u'') es (setParty (Some d) initialPartyState)) =
       shown ''u'' (gatewayStep sampleGatewayEnv (Http_party (JoinParty ''b'' ''u'' 20)) sampleRoom)"
proof -
  have "case fst (getPartyDetail ''u'' sampleRoom) of Inl e \<Rightarrow> False | Inr d \<Rightarrow> True" by code_simp
  then obtain d where d: "fst (getPartyDetail ''u'' sampleRoom) = Inr d" by (cases "fst (getPartyDetail ''u'' sampleRoom)") simp_all
  have facts: "openParty ''u'' sampleRoom" "distinct (map memberKey (partyMembers sampleRoom))" "hasEmitter sampleRoom" by code_simp+
  have "(case findSocket ''s1'' (realtime sampleRoom) of None \<Rightarrow> False | Some s \<Rightarrow> roomName ''u'' \<in> set (sk_rooms s) \<and> sk_inbox s = [])"
    by code_simp
  then obtain s where s: "findSocket ''s1'' (realtime sampleRoom) = Some s" "roomName ''u'' \<in> set (sk_rooms s)" "sk_inbox s = []"
    by (cases "findSocket ''s1'' (realtime sampleRoom)") (simp_all only: option.case)
  have "list_all (stays ''s1'' ''u'') [Http_party (JoinParty ''b'' ''u'' 20)]" by simp
  from client_mirrors_server [OF d facts s(1,2) this refl, of sampleGatewayEnv initialPartyState] d s(3) show ?thesis by auto
qed

end
