(* ===== verification/Chat_Gateway.thy ===== *)
theory Chat_Gateway
  imports Messaging Guards Sockets Push
begin

text \<open>
  \<open>messaging/messaging.gateway.ts\<close> (namespace \<open>/messaging\<close>): the sockets of the riders, the rooms
  of the conversations, the callbacks that the gateway registers with \<open>message.service.ts\<close>, and the
  pushes that go with a message. A call of the push service is recorded in \<open>pushCalls\<close> with its users
  and its payload (its failures are only logged; \<open>Push\<close> says what it does).
\<close>

section \<open>State\<close>

datatype chatEvent =
    MessageReceived messageDto
  | MessageTypingUpdated uid uid bool
  | MessageReadBy uid uid time
  | MessageReactionUpdated uid uid bool reaction
  | MessageDeleted uid uid
  | MessageError string string string "string option"
  | ChatShutdown time

record chat_db = messaging_db +
  chatSockets :: "chatEvent socket list"
  pushCalls :: "(uid list \<times> pushPayload) list"

text \<open>The URL test and the parsers of the two invitations are Zod's; \<open>inviteData\<close> is the raw text.\<close>

record chat_env =
  cg_guard :: guard_env
  cg_isUuid :: "string \<Rightarrow> bool"
  cg_isUrl :: "string \<Rightarrow> bool"
  cg_rideInvite :: "string \<Rightarrow> rideInvite option"
  cg_eventInvite :: "string \<Rightarrow> eventInvite option"
  cg_zodMessage :: string
  cg_messageOf :: "failure \<Rightarrow> string"

definition conversationRoom :: "uid \<Rightarrow> string" where
  "conversationRoom conversationId = ''conversation:'' @ conversationId"

section \<open>Broadcasts\<close>

text \<open>To the room, then to the own room of each recipient.\<close>

definition broadcast :: "uid \<Rightarrow> uid list \<Rightarrow> chatEvent \<Rightarrow> chatEvent socket list \<Rightarrow> chatEvent socket list" where
  "broadcast conversationId recipientIds e socks =
     fold (\<lambda>rid. emitRoom (userRoom rid) None e) recipientIds (emitRoom (conversationRoom conversationId) None e socks)"

definition broadcastMessage :: "messageDto \<Rightarrow> uid list \<Rightarrow> chatEvent socket list \<Rightarrow> chatEvent socket list" where
  "broadcastMessage message recipientIds =
     broadcast (ms_conversationId (fst message)) recipientIds (MessageReceived message)"

definition broadcastReaction :: "uid \<Rightarrow> uid \<Rightarrow> bool \<Rightarrow> reaction \<Rightarrow> uid list \<Rightarrow> chatEvent socket list \<Rightarrow> chatEvent socket list" where
  "broadcastReaction conversationId messageId removed reaction recipientIds =
     broadcast conversationId recipientIds (MessageReactionUpdated conversationId messageId removed reaction)"

definition broadcastDeleted :: "uid \<Rightarrow> uid \<Rightarrow> uid list \<Rightarrow> chatEvent socket list \<Rightarrow> chatEvent socket list" where
  "broadcastDeleted conversationId messageId recipientIds =
     broadcast conversationId recipientIds (MessageDeleted conversationId messageId)"

definition previewBody :: "message \<Rightarrow> string" where
  "previewBody m =
     (case ms_messageType m of
        T_TEXT \<Rightarrow> (case ms_content m of None \<Rightarrow> [] | Some c \<Rightarrow> c)
      | T_IMAGE \<Rightarrow> ''Gorsel gonderdi''
      | T_VIDEO \<Rightarrow> ''Video gonderdi''
      | T_FILE \<Rightarrow> ''Dosya gonderdi''
      | T_RIDE_INVITE \<Rightarrow> ''Rota davetiyesi gonderdi''
      | T_EVENT_INVITE \<Rightarrow> ''Etkinlik davetiyesi gonderdi''
      | T_SYSTEM \<Rightarrow> ''Yeni mesaj'')"

definition buildPushPreview :: "message \<Rightarrow> pushPayload" where
  "buildPushPreview m =
     \<lparr>pp_title = ''Yeni mesaj'', pp_body = take 140 (previewBody m),
      pp_data = Some [(''type'', DText ''MESSAGE_RECEIVED''), (''conversationId'', DText (ms_conversationId m)),
                      (''messageId'', DText (ms_id m))],
      pp_badge = None, pp_sound = None, pp_threadId = Some (ms_conversationId m)\<rparr>"

section \<open>The callbacks of the message service\<close>

text \<open>\<open>onMessagePersisted\<close> and \<open>onReactionUpdated\<close>, as \<open>onModuleInit\<close> registers them.\<close>

fun onCallback :: "time \<Rightarrow> msg_callback \<Rightarrow> 'a chat_db_scheme \<Rightarrow> 'a chat_db_scheme" where
  "onCallback now (MessagePersisted message recipientIds) w =
     (let w1 = w\<lparr>chatSockets := broadcastMessage message recipientIds (chatSockets w)\<rparr>
      in if recipientIds = [] then w1
         else w1\<lparr>pushCalls := pushCalls w1 @
                [(filterPushRecipients (ms_conversationId (fst message)) recipientIds now w1, buildPushPreview (fst message))]\<rparr>)"
| "onCallback now (ReactionUpdated conversationId message reaction removed recipientIds) w =
     w\<lparr>chatSockets := broadcastReaction conversationId (ms_id (fst message)) removed reaction recipientIds (chatSockets w)\<rparr>"

definition onModuleInit :: "bool \<Rightarrow> 'a chat_db_scheme \<Rightarrow> 'a chat_db_scheme" where
  "onModuleInit openapiGenerate w = (if openapiGenerate then w else registerCallbacks w)"

text \<open>A call of the messaging services, with its callbacks.\<close>

definition withCallbacks :: "time \<Rightarrow> ('a chat_db_scheme \<Rightarrow> 'a chat_db_scheme) \<Rightarrow> 'a chat_db_scheme \<Rightarrow> 'a chat_db_scheme" where
  "withCallbacks now f w =
     (let w' = f w in fold (onCallback now) (drop (length (msgCallbacks w)) (msgCallbacks w')) w')"

section \<open>Connecting\<close>

definition chatConnection ::
  "chat_env \<Rightarrow> string \<Rightarrow> string option \<Rightarrow> string option \<Rightarrow> time \<Rightarrow> 'a chat_db_scheme \<Rightarrow> 'a chat_db_scheme" where
  "chatConnection env i authToken authorization now w =
     (case wsHandshake (cg_guard env) True authToken authorization now of
        Inl e \<Rightarrow> w
      | Inr (userId, username) \<Rightarrow>
          if userId = [] then w else w\<lparr>chatSockets := connectSocket i userId username (chatSockets w)\<rparr>)"

definition chatDisconnect :: "string \<Rightarrow> 'a chat_db_scheme \<Rightarrow> 'a chat_db_scheme" where
  "chatDisconnect i w = w\<lparr>chatSockets := dropSocket i (chatSockets w)\<rparr>"

definition chatDestroy :: "time \<Rightarrow> 'a chat_db_scheme \<Rightarrow> 'a chat_db_scheme" where
  "chatDestroy now w =
     fold chatDisconnect (map sk_id (chatSockets w)) (w\<lparr>chatSockets := emitAll (ChatShutdown now) (chatSockets w)\<rparr>)"

definition emitMessageError :: "string \<Rightarrow> string \<Rightarrow> string \<Rightarrow> string \<Rightarrow> string option \<Rightarrow> 'a chat_db_scheme \<Rightarrow> 'a chat_db_scheme" where
  "emitMessageError i event code message clientId w =
     w\<lparr>chatSockets := emitClient i (MessageError event code message clientId) (chatSockets w)\<rparr>"

section \<open>Messages of the clients\<close>

definition chatJoin :: "chat_env \<Rightarrow> chatEvent socket \<Rightarrow> uid \<Rightarrow> 'a chat_db_scheme \<Rightarrow> bool \<times> 'a chat_db_scheme" where
  "chatJoin env client conversationId w =
     (let i = sk_id client; ev = ''conversation:join''
      in if \<not> cg_isUuid env conversationId
         then (False, emitMessageError i ev ''VALIDATION'' (cg_zodMessage env) None w)
         else (case fst (assertParticipant conversationId (sk_userId client) w) of
                 Inl err \<Rightarrow> (False, emitMessageError i ev ''NOT_PARTICIPANT'' (cg_messageOf env err) None w)
               | Inr p \<Rightarrow> (True, w\<lparr>chatSockets := joinRoom i (conversationRoom conversationId) (chatSockets w)\<rparr>)))"

definition chatLeave :: "chat_env \<Rightarrow> chatEvent socket \<Rightarrow> uid \<Rightarrow> 'a chat_db_scheme \<Rightarrow> bool \<times> 'a chat_db_scheme" where
  "chatLeave env client conversationId w =
     (let i = sk_id client
      in if \<not> cg_isUuid env conversationId
         then (False, emitMessageError i ''conversation:leave'' ''VALIDATION'' (cg_zodMessage env) None w)
         else (True, w\<lparr>chatSockets := leaveRoom i (conversationRoom conversationId) (chatSockets w)\<rparr>))"

text \<open>\<open>WsMessageSendSchema\<close>: no check of the content against the type.\<close>

record wsSend =
  wm_conversationId :: uid
  wm_clientId :: uid
  wm_messageType :: messageType
  wm_content :: "string option"
  wm_mediaUrls :: "string list"
  wm_inviteData :: "string option"
  wm_clientTimestamp :: int

definition wsMessageSendSchema :: "chat_env \<Rightarrow> wsSend \<Rightarrow> bool" where
  "wsMessageSendSchema env m \<longleftrightarrow>
     cg_isUuid env (wm_conversationId m) \<and> cg_isUuid env (wm_clientId m) \<and>
     (case wm_content m of None \<Rightarrow> True | Some c \<Rightarrow> length c \<le> 4000) \<and>
     list_all (cg_isUrl env) (wm_mediaUrls m) \<and> length (wm_mediaUrls m) \<le> 10 \<and> 0 < wm_clientTimestamp m"

text \<open>\<open>e.response?.code ?? ErrorCodes.INTERNAL\<close>\<close>

definition codeOf :: "failure \<Rightarrow> nat" where
  "codeOf f = (case f of Http ex err (Some c) rest \<Rightarrow> c | _ \<Rightarrow> INTERNAL)"

definition sendDtoOf :: "wsSend \<Rightarrow> rideInvite option \<Rightarrow> eventInvite option \<Rightarrow> sendMessageDto" where
  "sendDtoOf m ride event =
     \<lparr>smd_conversationId = wm_conversationId m, smd_clientId = wm_clientId m, smd_messageType = wm_messageType m,
      smd_content = wm_content m, smd_mediaUrls = wm_mediaUrls m, smd_rideInvite = ride, smd_eventInvite = event\<rparr>"

text \<open>The invitation of the request: \<open>Inl\<close> when it does not parse.\<close>

definition invitesOf :: "chat_env \<Rightarrow> wsSend \<Rightarrow> unit + (rideInvite option \<times> eventInvite option)" where
  "invitesOf env m =
     (case (wm_messageType m, wm_inviteData m) of
        (T_RIDE_INVITE, Some raw) \<Rightarrow> (case cg_rideInvite env raw of None \<Rightarrow> Inl () | Some r \<Rightarrow> Inr (Some r, None))
      | (T_EVENT_INVITE, Some raw) \<Rightarrow> (case cg_eventInvite env raw of None \<Rightarrow> Inl () | Some e \<Rightarrow> Inr (None, Some e))
      | _ \<Rightarrow> Inr (None, None))"

text \<open>The result is \<open>ok\<close>, the message's id and whether it was there already.\<close>

definition handleSend ::
  "chat_env \<Rightarrow> chatEvent socket \<Rightarrow> wsSend \<Rightarrow> time \<Rightarrow> 'a chat_db_scheme \<Rightarrow> (uid \<times> bool) option \<times> 'a chat_db_scheme" where
  "handleSend env client m now w =
     (let userId = sk_userId client; i = sk_id client; ev = ''message:send''; clientId = Some (wm_clientId m)
      in if \<not> wsMessageSendSchema env m
         then (None, emitMessageError i ev ''VALIDATION'' (cg_zodMessage env) clientId w)
         else case invitesOf env m of
           Inl _ \<Rightarrow> (None, emitMessageError i ev ''INVALID_INVITE'' (cg_zodMessage env) clientId w)
         | Inr (ride, event) \<Rightarrow>
             let dto = sendDtoOf m ride event;
                 w1 = withCallbacks now (\<lambda>w. snd (send userId dto now w)) w
             in (case fst (send userId dto now w) of
                   Inl err \<Rightarrow> (None, emitMessageError i ev (showDecimal (int (codeOf err))) (cg_messageOf env err) clientId w1)
                 | Inr r \<Rightarrow> (Some (ms_id (fst (sr_message r)), sr_duplicate r), w1)))"

definition handleTyping :: "chat_env \<Rightarrow> chatEvent socket \<Rightarrow> uid \<Rightarrow> bool \<Rightarrow> 'a chat_db_scheme \<Rightarrow> bool \<times> 'a chat_db_scheme" where
  "handleTyping env client conversationId isTyping w =
     (if \<not> cg_isUuid env conversationId then (False, w)
      else (True, w\<lparr>chatSockets := emitRoom (conversationRoom conversationId) (Some (sk_id client))
              (MessageTypingUpdated conversationId (sk_userId client) isTyping) (chatSockets w)\<rparr>))"

definition handleRead :: "chat_env \<Rightarrow> chatEvent socket \<Rightarrow> uid \<Rightarrow> time \<Rightarrow> time \<Rightarrow> 'a chat_db_scheme \<Rightarrow> bool \<times> 'a chat_db_scheme" where
  "handleRead env client conversationId readAt now w =
     (if \<not> (cg_isUuid env conversationId \<and> 0 < readAt) then (False, w)
      else let w1 = withCallbacks now (\<lambda>w. snd (markRead (sk_userId client) conversationId (Some readAt) now w)) w
        in (case fst (markRead (sk_userId client) conversationId (Some readAt) now w) of
              Inl err \<Rightarrow> (False, w1)
            | Inr _ \<Rightarrow> (True, w1\<lparr>chatSockets := emitRoom (conversationRoom conversationId) (Some (sk_id client))
                (MessageReadBy conversationId (sk_userId client) readAt) (chatSockets w1)\<rparr>)))"

definition handleReact ::
  "chat_env \<Rightarrow> chatEvent socket \<Rightarrow> uid \<Rightarrow> string \<Rightarrow> bool \<Rightarrow> time \<Rightarrow> 'a chat_db_scheme \<Rightarrow> bool \<times> 'a chat_db_scheme" where
  "handleReact env client messageId emoji remove now w =
     (let userId = sk_userId client; i = sk_id client; ev = ''message:react''
      in if \<not> (cg_isUuid env messageId \<and> 1 \<le> length emoji \<and> length emoji \<le> 16)
         then (False, emitMessageError i ev ''VALIDATION'' (cg_zodMessage env) None w)
         else let w1 = withCallbacks now (\<lambda>w. snd (react userId messageId emoji remove now w)) w
           in (case fst (react userId messageId emoji remove now w) of
                 Inl err \<Rightarrow> (False, emitMessageError i ev (showDecimal (int (codeOf err))) (cg_messageOf env err) None w1)
               | Inr _ \<Rightarrow> (True, w1)))"

section \<open>Histories\<close>

text \<open>HTTP calls of the messaging services, and what sockets do.\<close>

datatype chatOp =
    Http_chat messaging_op time
  | ChatConnect string "string option" "string option" time
  | ChatDisconnect string
  | ChatJoin string uid
  | ChatLeave string uid
  | ChatSend string wsSend time
  | ChatTyping string uid bool
  | ChatRead string uid time time
  | ChatReact string uid string bool time
  | ChatDestroy time

definition byClient :: "string \<Rightarrow> (chatEvent socket \<Rightarrow> 'a chat_db_scheme \<Rightarrow> 'a chat_db_scheme) \<Rightarrow> 'a chat_db_scheme \<Rightarrow> 'a chat_db_scheme" where
  "byClient i f w = (case findSocket i (chatSockets w) of None \<Rightarrow> w | Some s \<Rightarrow> f s w)"

fun chatStep :: "chat_env \<Rightarrow> chatOp \<Rightarrow> 'a chat_db_scheme \<Rightarrow> 'a chat_db_scheme" where
  "chatStep env (Http_chat x now) w = withCallbacks now (messagingStep x) w"
| "chatStep env (ChatConnect i a h now) w = chatConnection env i a h now w"
| "chatStep env (ChatDisconnect i) w = chatDisconnect i w"
| "chatStep env (ChatJoin i c) w = byClient i (\<lambda>s w. snd (chatJoin env s c w)) w"
| "chatStep env (ChatLeave i c) w = byClient i (\<lambda>s w. snd (chatLeave env s c w)) w"
| "chatStep env (ChatSend i m now) w = byClient i (\<lambda>s w. snd (handleSend env s m now w)) w"
| "chatStep env (ChatTyping i c b) w = byClient i (\<lambda>s w. snd (handleTyping env s c b w)) w"
| "chatStep env (ChatRead i c t now) w = byClient i (\<lambda>s w. snd (handleRead env s c t now w)) w"
| "chatStep env (ChatReact i m e rm now) w = byClient i (\<lambda>s w. snd (handleReact env s m e rm now w)) w"
| "chatStep env (ChatDestroy now) w = chatDestroy now w"

section \<open>Who hears what\<close>

abbreviation convKeys :: "'a messaging_db_scheme \<Rightarrow> (uid \<times> uid) set" where
  "convKeys w \<equiv> convKey ` set (convParticipants w)"

text \<open>The room of a conversation is for those with a participant row of it, gone or not.\<close>

definition mayRead :: "'a messaging_db_scheme \<Rightarrow> uid \<Rightarrow> string \<Rightarrow> bool" where
  "mayRead w u r \<longleftrightarrow> r = userRoom u \<or> (\<exists>c. r = conversationRoom c \<and> (c, u) \<in> convKeys w)"

fun conversationOf :: "chatEvent \<Rightarrow> uid option" where
  "conversationOf (MessageReceived m) = Some (ms_conversationId (fst m))"
| "conversationOf (MessageTypingUpdated c u b) = Some c"
| "conversationOf (MessageReadBy c u t) = Some c"
| "conversationOf (MessageReactionUpdated c m rm r) = Some c"
| "conversationOf (MessageDeleted c m) = Some c"
| "conversationOf (MessageError e c m i) = None"
| "conversationOf (ChatShutdown t) = None"

definition roomAbout :: "chatEvent \<Rightarrow> string option" where
  "roomAbout e = map_option conversationRoom (conversationOf e)"

lemma conversationRoom_simps [simp]: "conversationRoom c = conversationRoom d \<longleftrightarrow> c = d" "conversationRoom c \<noteq> userRoom u"
  "userRoom u = userRoom v \<longleftrightarrow> u = v"
  by (simp_all add: conversationRoom_def userRoom_def)

lemma mayRead_simps [simp]: "mayRead w u (conversationRoom c) \<longleftrightarrow> (c, u) \<in> convKeys w" "mayRead w u (userRoom v) \<longleftrightarrow> v = u"
  by (auto simp: mayRead_def dest: sym)

lemma mayRead_mono: "convKeys w \<subseteq> convKeys w' \<Longrightarrow> mayRead w u r \<Longrightarrow> mayRead w' u r"
  by (auto simp: mayRead_def)

text \<open>What a call of the services leaves: the sockets as they are, and callbacks addressed to participants.\<close>

fun addressed :: "'a messaging_db_scheme \<Rightarrow> msg_callback \<Rightarrow> bool" where
  "addressed w (MessagePersisted m rids) \<longleftrightarrow> (\<forall>r \<in> set rids. (ms_conversationId (fst m), r) \<in> convKeys w)"
| "addressed w (ReactionUpdated c m r rm rids) \<longleftrightarrow> (\<forall>r \<in> set rids. (c, r) \<in> convKeys w)"

definition reported :: "'a messaging_db_scheme \<Rightarrow> 'a messaging_db_scheme \<Rightarrow> bool" where
  "reported w w' \<longleftrightarrow>
     messaging_db.more w' = messaging_db.more w \<and> convKeys w \<subseteq> convKeys w' \<and>
     (\<exists>cs. msgCallbacks w' = msgCallbacks w @ cs \<and> list_all (addressed w') cs)"

lemma move_keys: "chatMove s s' \<Longrightarrow> convKey ` set (fst (snd s)) \<subseteq> convKey ` set (fst (snd s'))"
proof (induction rule: chatMove.induct)
  case (Touch f cs ps ms k)
  then show ?case by (simp add: keys_updateMany)
qed (auto simp: keys_updateMany)

lemma step_keys: "convKeys w \<subseteq> convKeys (messagingStep x w)"
  using move_keys [OF messagingStep_move [of w x]] by (simp add: chat_def)

lemma quiet_reported:
  "messaging_db.more (messagingStep x w) = messaging_db.more w \<Longrightarrow> msgCallbacks (messagingStep x w) = msgCallbacks w \<Longrightarrow>
   reported w (messagingStep x w)"
  using step_keys [of w x] by (simp add: reported_def)

lemma recipients_keys: "r \<in> set (recipientsOf c u w) \<Longrightarrow> (c, r) \<in> convKeys w"
  by (auto simp: recipientsOf_def listParticipantIds_def participantsOf_def intro!: rev_image_eqI)

lemma callBack_fields [simp]:
  "messaging_db.more (callBack c w) = messaging_db.more w" "convParticipants (callBack c w) = convParticipants w"
  "msgCallbacks (callBack c w) = msgCallbacks w @ (if callbacksRegistered w then [c] else [])"
  by (simp_all add: callBack_def)

lemma send_callbacks:
  "messaging_db.more (snd (send u dto now w)) = messaging_db.more w \<and>
   (msgCallbacks (snd (send u dto now w)) = msgCallbacks w \<or>
    (\<exists>rx. msgCallbacks (snd (send u dto now w)) = msgCallbacks w @
       [MessagePersisted (newMessage (newUuid w) u dto now, rx) (recipientsOf (smd_conversationId dto) u w)]))"
proof (cases "\<exists>p. findUnique convKey (smd_conversationId dto, u) (convParticipants w) = Some p \<and> cp_leftAt p = None")
  case True
  then obtain p where "findUnique convKey (smd_conversationId dto, u) (convParticipants w) = Some p" "cp_leftAt p = None" by blast
  from send_by_participant [OF this, of now] show ?thesis
    by (auto simp: Let_def posted_def counted_in_def takeUuid_def split: option.splits)
next
  case False
  then have "findUnique convKey (smd_conversationId dto, u) (convParticipants w) = None \<or>
      (\<exists>p. findUnique convKey (smd_conversationId dto, u) (convParticipants w) = Some p \<and> cp_leftAt p \<noteq> None)"
    by (cases "findUnique convKey (smd_conversationId dto, u) (convParticipants w)") auto
  then show ?thesis by (simp add: send_refused)
qed

lemma send_reported: "reported w (snd (send u dto now w))"
proof -
  have "convKeys w \<subseteq> convKeys (snd (send u dto now w))" using step_keys [of w "SendMessage u dto now"] by simp
  then show ?thesis using send_callbacks [of u dto now w] recipients_keys
    by (fastforce simp: reported_def list_all_iff newMessage_def)
qed

lemma recipientsOf_reactions [simp]: "recipientsOf c u (w\<lparr>reactions := t\<rparr>) = recipientsOf c u w"
  by (simp add: recipientsOf_def listParticipantIds_def participantsOf_def)

lemma react_reported: "reported w (snd (react u m e rm now w))"
proof -
  have "convKeys w \<subseteq> convKeys (snd (react u m e rm now w))" using step_keys [of w "React u m e rm now"] by simp
  moreover have "messaging_db.more (snd (react u m e rm now w)) = messaging_db.more w \<and>
     (msgCallbacks (snd (react u m e rm now w)) = msgCallbacks w \<or>
      (\<exists>c d r rids. msgCallbacks (snd (react u m e rm now w)) = msgCallbacks w @ [ReactionUpdated c d r rm rids] \<and>
         (\<forall>v \<in> set rids. (c, v) \<in> convKeys w)))"
    by (auto simp: react_def assertParticipant_cases Let_def recipients_keys split: option.split)
  ultimately show ?thesis by (fastforce simp: reported_def list_all_iff)
qed

text \<open>The other calls tell the gateway nothing.\<close>

definition telling :: "'a messaging_db_scheme \<Rightarrow> msg_callback list \<times> 'a" where
  "telling w = (msgCallbacks w, messaging_db.more w)"

lemma telling_writes [simp]:
  "telling (snd (updateParticipant k f w)) = telling w"
  "telling (snd (insertConversation ty n ci u us now w)) = telling w"
  by (simp_all add: telling_def updateParticipant_cases insertConversation_def Let_def takeUuid_def)

lemma telling_direct [simp]: "telling (snd (findOrCreateDirect a b now w)) = telling w"
  by (auto simp: findOrCreateDirect_def assertNotBlocked_cases intro!: inv_and_then [where P = "\<lambda>v. telling v = telling w"]
      split: option.split)

lemma telling_create [simp]: "telling (snd (createConversation u dto now w)) = telling w"
  by (auto simp: createConversation_def Let_def intro!: inv_and_then [where P = "\<lambda>v. telling v = telling w"]
      split: conversationType.split list.split option.split)

lemma telling_settings [simp]:
  "telling (snd (markRead u c t now w)) = telling w" "telling (snd (muteConversation u c mu w)) = telling w"
  "telling (snd (leaveConversation u c now w)) = telling w"
  by (auto simp: markRead_def muteConversation_def leaveConversation_def assertParticipant_cases
      split: option.split mutedUntilDto.split)

lemma telling_delete [simp]: "telling (snd (softDelete u m w)) = telling w"
  by (auto simp: softDelete_def write_or_def telling_def split: option.split)

lemma messagingStep_reported: "reported w (messagingStep x w)"
proof -
  have "reported w (messagingStep x w)" if "telling (messagingStep x w) = telling w"
    using that by (intro quiet_reported) (simp_all add: telling_def)
  then show ?thesis by (cases x) (auto simp: send_reported react_reported)
qed

section \<open>Every step keeps to the rooms\<close>

definition chatOrder :: "'a chat_db_scheme \<Rightarrow> 'a chat_db_scheme \<Rightarrow> bool" where
  "chatOrder w w' \<longleftrightarrow> convKeys w \<subseteq> convKeys w' \<and>
     (policed (mayRead w) roomAbout (chatSockets w) \<longrightarrow> policed (mayRead w') roomAbout (chatSockets w'))"

lemma chatOrder_refl [simp, intro]: "chatOrder w w"
  by (simp add: chatOrder_def)

lemma chatOrder_trans: "chatOrder u v \<Longrightarrow> chatOrder v w \<Longrightarrow> chatOrder u w"
  unfolding chatOrder_def by (elim conjE, intro conjI) (erule (1) order_trans, blast)

lemma chatOrder_sockets:
  "(policed (mayRead w) roomAbout (chatSockets w) \<Longrightarrow> policed (mayRead w) roomAbout s) \<Longrightarrow> chatOrder w (w\<lparr>chatSockets := s\<rparr>)"
  by (simp add: chatOrder_def mayRead_def [abs_def])

lemma chatOrder_pushCalls [simp]: "chatOrder w (v\<lparr>pushCalls := ps\<rparr>) \<longleftrightarrow> chatOrder w v"
  by (simp add: chatOrder_def mayRead_def [abs_def])

lemma broadcast_policed:
  assumes "policed (mayRead w) roomAbout socks" and "conversationOf e = Some c"
    and "\<And>r. r \<in> set rids \<Longrightarrow> (c, r) \<in> convKeys w"
  shows "policed (mayRead w) roomAbout (broadcast c rids e socks)"
proof -
  have "policed (mayRead w) roomAbout (fold (\<lambda>rid. emitRoom (userRoom rid) None e) rids s)"
    if "policed (mayRead w) roomAbout s" for s
    using assms(3) that
  proof (induction rids arbitrary: s)
    case (Cons r rids)
    have "policed (mayRead w) roomAbout (emitRoom (userRoom r) None e s)"
      by (rule policed_user [OF Cons.prems(2)]) (use Cons.prems(1) assms(2) in \<open>auto simp: roomAbout_def\<close>)
    then show ?case using Cons.IH Cons.prems(1) by simp
  qed simp
  then show ?thesis unfolding broadcast_def using assms(1,2) by (simp add: policed_room roomAbout_def)
qed

lemma onCallback_order: "addressed w c \<Longrightarrow> chatOrder w (onCallback now c w)"
  by (cases c) (auto simp: broadcastMessage_def broadcastReaction_def Let_def intro!: chatOrder_sockets broadcast_policed)

lemma onCallback_keys [simp]: "convParticipants (onCallback now c w) = convParticipants w"
  by (cases c) (simp_all add: Let_def)

lemma callbacks_order: "list_all (addressed w) cs \<Longrightarrow> chatOrder w (fold (onCallback now) cs w)"
proof (induction cs arbitrary: w)
  case (Cons c cs)
  have "addressed (onCallback now c w) d \<longleftrightarrow> addressed w d" for d by (cases d) simp_all
  then have "chatOrder (onCallback now c w) (fold (onCallback now) cs (onCallback now c w))" using Cons by simp
  then show ?case using chatOrder_trans [OF onCallback_order [of w c]] Cons.prems by simp
qed simp

lemma reported_order: "reported w w' \<Longrightarrow> chatOrder w w'" for w :: "'a chat_db_scheme"
proof -
  assume r: "reported w w'"
  then have "chatSockets w' = chatSockets w" unfolding reported_def by (cases w; cases w') simp
  then show ?thesis using r policed_mono [OF _ mayRead_mono [of w w']] by (auto simp: chatOrder_def reported_def)
qed

lemma withCallbacks_order: "reported w (f w) \<Longrightarrow> chatOrder w (withCallbacks now f w)"
proof -
  assume r: "reported w (f w)"
  then have "list_all (addressed (f w)) (drop (length (msgCallbacks w)) (msgCallbacks (f w)))" by (auto simp: reported_def)
  from chatOrder_trans [OF reported_order [OF r] callbacks_order [OF this]] show ?thesis
    by (simp add: withCallbacks_def Let_def)
qed

lemma emitMessageError_order: "chatOrder w (emitMessageError i ev code msg k w)"
  unfolding emitMessageError_def by (intro chatOrder_sockets policed_client) (simp_all add: roomAbout_def)

lemma chatDisconnect_order: "chatOrder w (chatDisconnect i w)"
  unfolding chatDisconnect_def by (intro chatOrder_sockets policed_drop)

lemma chatDestroy_order: "chatOrder w (chatDestroy now w)"
proof -
  have "chatOrder w (w\<lparr>chatSockets := emitAll (ChatShutdown now) (chatSockets w)\<rparr>)"
    by (intro chatOrder_sockets policed_all) (simp_all add: roomAbout_def)
  then show ?thesis unfolding chatDestroy_def
    by (rule fold_inv [where P = "chatOrder w"]) (rule chatOrder_trans [OF _ chatDisconnect_order])
qed

lemma chatConnection_order: "chatOrder w (chatConnection env i a h now w)"
proof -
  have "chatOrder w (w\<lparr>chatSockets := connectSocket i u name (chatSockets w)\<rparr>)" for u name
    by (intro chatOrder_sockets policed_connect) simp_all
  then show ?thesis by (auto simp: chatConnection_def split: sum.split)
qed

lemma chatJoin_order:
  assumes "findSocket i (chatSockets w) = Some client"
  shows "chatOrder w (snd (chatJoin env client c w))"
proof (cases "findUnique convKey (c, sk_userId client) (convParticipants w)")
  case None
  then show ?thesis by (simp add: chatJoin_def Let_def assertParticipant_cases emitMessageError_order)
next
  case (Some p)
  have i: "sk_id client = i" using findSocket_Some [OF assms] by blast
  have "s = client" if "policed (mayRead w) roomAbout (chatSockets w)" "s \<in> set (chatSockets w)" "sk_id s = i" for s
    by (rule policed_find [OF that(1) assms that(2,3)])
  then have "chatOrder w (w\<lparr>chatSockets := joinRoom i (conversationRoom c) (chatSockets w)\<rparr>)"
    using participant_key [OF Some] by (intro chatOrder_sockets policed_join) auto
  then show ?thesis using Some by (simp add: chatJoin_def Let_def i assertParticipant_cases emitMessageError_order)
qed

lemma chatLeave_order: "chatOrder w (snd (chatLeave env client c w))"
proof -
  have "chatOrder w (w\<lparr>chatSockets := leaveRoom i r (chatSockets w)\<rparr>)" for i r by (intro chatOrder_sockets policed_leave)
  then show ?thesis by (simp add: chatLeave_def Let_def emitMessageError_order)
qed

lemma handleSend_order: "chatOrder w (snd (handleSend env client m now w))"
proof -
  have "chatOrder w (withCallbacks now (\<lambda>w. snd (send u dto now w)) w)" for u dto
    by (rule withCallbacks_order) (rule send_reported)
  then show ?thesis
    by (auto simp: handleSend_def Let_def emitMessageError_order intro: chatOrder_trans [OF _ emitMessageError_order] split: sum.split)
qed

lemma roomEvent_order:
  "conversationOf e = Some c \<Longrightarrow> chatOrder w (w\<lparr>chatSockets := emitRoom (conversationRoom c) skip e (chatSockets w)\<rparr>)"
  by (intro chatOrder_sockets policed_room) (simp_all add: roomAbout_def)

lemma handleRead_order: "chatOrder w (snd (handleRead env client c t now w))"
proof -
  have "reported w (snd (markRead u c (Some t) now w))" for u
    using messagingStep_reported [of w "MarkRead u c (Some t) now"] by simp
  then have "chatOrder w (withCallbacks now (\<lambda>w. snd (markRead u c (Some t) now w)) w)" for u by (rule withCallbacks_order)
  then show ?thesis
    by (auto simp: handleRead_def Let_def intro: chatOrder_trans [OF _ roomEvent_order] split: sum.split)
qed

lemma handleReact_order: "chatOrder w (snd (handleReact env client m e rm now w))"
proof -
  have "chatOrder w (withCallbacks now (\<lambda>w. snd (react u m e rm now w)) w)" for u
    by (rule withCallbacks_order) (rule react_reported)
  then show ?thesis
    by (auto simp: handleReact_def Let_def emitMessageError_order intro: chatOrder_trans [OF _ emitMessageError_order] split: sum.split)
qed

lemma chatStep_order: "chatOrder w (chatStep env x w)"
  by (cases x) (simp_all add: byClient_def withCallbacks_order messagingStep_reported chatConnection_order chatDisconnect_order
      chatJoin_order chatLeave_order handleSend_order handleTyping_def roomEvent_order handleRead_order handleReact_order
      chatDestroy_order split: option.split)

interpretation chats: room_policy mayRead chatSockets roomAbout "chatStep env" for env
proof
  fix x u r and w :: "'a chat_db_scheme"
  have order: "chatOrder w (chatStep env x w)" by (rule chatStep_order)
  then show "mayRead w u r \<Longrightarrow> mayRead (chatStep env x w) u r"
    by (auto simp: chatOrder_def intro: mayRead_mono)
  show "policed (mayRead w) roomAbout (chatSockets w) \<Longrightarrow>
      policed (mayRead (chatStep env x w)) roomAbout (chatSockets (chatStep env x w))"
    using order by (simp add: chatOrder_def)
qed

section \<open>What a message sets off\<close>













section \<open>Properties\<close>

text \<open>
  C7: whatever riders and sockets do, each socket that is in the room of a conversation, and each socket
  that was ever sent a message, a reaction, a receipt or a typing sign of it, over the room or
  directly, belongs to a user with a participant row of that conversation.
\<close>

theorem chats_stay_private:
  assumes "chatSockets w = []" and "v = fold (chatStep env) xs w" and "s \<in> set (chatSockets v)"
  shows "(conversationRoom c \<in> set (sk_rooms s) \<longrightarrow> (c, sk_userId s) \<in> convKeys v) \<and>
    (\<forall>e. e \<in> set (sk_inbox s) \<longrightarrow> conversationOf e = Some c \<longrightarrow> (c, sk_userId s) \<in> convKeys v)"
proof -
  have start: "policed (mayRead w) roomAbout (chatSockets w)" using assms(1) by (simp add: policed_def)
  have "(c, sk_userId s) \<in> convKeys v" if "e \<in> set (sk_inbox s)" "conversationOf e = Some c" for e
    using chats.heard_allowed [OF start, of s env xs e "conversationRoom c"] assms(2,3) that by (simp add: roomAbout_def)
  moreover have "(c, sk_userId s) \<in> convKeys v" if "conversationRoom c \<in> set (sk_rooms s)"
    using chats.inside_allowed [OF start, of s env xs "conversationRoom c"] assms(2,3) that by simp
  ultimately show ?thesis by blast
qed


section \<open>A sample\<close>

definition sampleChatEnv :: chat_env where
  "sampleChatEnv =
     \<lparr>cg_guard = \<lparr>gv_verifyAccess = (\<lambda>now t. Some \<lparr>ap_sub = t, ap_username = t, ap_role = None, ap_typ = ''access''\<rparr>),
                  gv_hmac = (\<lambda>secret text. ''00''), gv_secret = None\<rparr>,
      cg_isUuid = (\<lambda>s. True), cg_isUrl = (\<lambda>s. True), cg_rideInvite = (\<lambda>s. None), cg_eventInvite = (\<lambda>s. None),
      cg_zodMessage = ''invalid'', cg_messageOf = (\<lambda>e. ''failed'')\<rparr>"

definition sampleMessaging :: chat_db where
  "sampleMessaging = messaging_db.extend sampleChat \<lparr>chatSockets = [], pushCalls = []\<rparr>"

definition sampleWsSend :: "string option \<Rightarrow> wsSend" where
  "sampleWsSend content =
     \<lparr>wm_conversationId = [], wm_clientId = ''k1'', wm_messageType = T_TEXT, wm_content = content, wm_mediaUrls = [],
      wm_inviteData = None, wm_clientTimestamp = 5\<rparr>"

text \<open>\<open>a\<close> and \<open>b\<close> are connected, and \<open>b\<close> has the conversation open.\<close>

definition bothOnline :: "chatOp list" where
  "bothOnline = [ChatConnect ''s1'' (Some ''a'') None 5, ChatConnect ''s2'' (Some ''b'') None 5, ChatJoin ''s2'' []]"

definition sampleOnline :: chat_db where
  "sampleOnline = fold (chatStep sampleChatEnv) bothOnline sampleMessaging"

theorem chats_stay_private_witness:
  "([], ''b'') \<in> convKeys sampleOnline"
proof -
  have "(case findSocket ''s2'' (chatSockets sampleOnline) of None \<Rightarrow> False
      | Some s \<Rightarrow> sk_userId s = ''b'' \<and> conversationRoom [] \<in> set (sk_rooms s))" by code_simp
  then obtain s where s: "findSocket ''s2'' (chatSockets sampleOnline) = Some s" "sk_userId s = ''b''"
    "conversationRoom [] \<in> set (sk_rooms s)"
    by (cases "findSocket ''s2'' (chatSockets sampleOnline)") (simp_all only: option.case)
  have "chatSockets sampleMessaging = []" by (simp add: sampleMessaging_def messaging_db.extend_def)
  from chats_stay_private [OF this, of sampleOnline sampleChatEnv bothOnline s "[]"] findSocket_Some [OF s(1)] s(2,3) show ?thesis
    unfolding sampleOnline_def by metis
qed


section \<open>What the gateway does not check\<close>

text \<open>A text message without text: refused over HTTP, written over the socket.\<close>

lemma empty_text_written:
  "(case findSocket ''s1'' (chatSockets sampleOnline) of
      None \<Rightarrow> False
    | Some s \<Rightarrow> map ms_content (messages (snd (handleSend sampleChatEnv s (sampleWsSend None) 6 sampleOnline))) = [None]) \<and>
   \<not> validSendMessage (sendDtoOf (sampleWsSend None) None None)"
  by code_simp

text \<open>\<open>c\<close> takes no part in the conversation and is shown typing in it.\<close>

lemma outsider_types:
  "(let w = fold (chatStep sampleChatEnv) [ChatConnect ''s3'' (Some ''c'') None 5, ChatTyping ''s3'' [] True] sampleOnline
    in \<not> takesPart [] ''c'' w \<and>
       map sk_inbox (chatSockets w) = [[], [MessageTypingUpdated [] ''c'' True], []])"
  by code_simp

text \<open>A participant with the conversation open is sent each message twice.\<close>

lemma message_twice:
  "map (\<lambda>s. length (sk_inbox s)) (chatSockets (fold (chatStep sampleChatEnv) [ChatSend ''s1'' (sampleWsSend (Some ''hi'')) 6] sampleOnline)) = [0, 2]"
  by code_simp

end
