(* ===== verification/Emergency_Gateway.thy ===== *)
theory Emergency_Gateway
  imports Emergency Guards Sockets
begin

text \<open>
  \<open>emergency/emergency.gateway.ts\<close> (namespace \<open>/emergency\<close>): the sockets of the riders, and the
  three bridge calls of \<open>emergency.service.ts\<close>, which send an alert, an answer and the end of an alert to the
  rooms of the users. Each call of the service is followed by its bridge calls, in their order.
\<close>

section \<open>State\<close>

datatype sosEvent =
    EmergencyNearby nearbyPayload
  | EmergencyResponderUpdated uid uid responderStatus "int option" time
  | EmergencyResolved uid resolution time
  | SosShutdown time

record sos_feed_db = emergency_db +
  sosSockets :: "sosEvent socket list"

section \<open>The bridge\<close>

definition broadcastNearby :: "uid list \<Rightarrow> nearbyPayload \<Rightarrow> sosEvent socket list \<Rightarrow> sosEvent socket list" where
  "broadcastNearby recipientIds payload = fold (\<lambda>i. emitRoom (userRoom i) None (EmergencyNearby payload)) recipientIds"

definition broadcastResponderUpdate ::
  "uid \<Rightarrow> uid \<Rightarrow> responder \<Rightarrow> time \<Rightarrow> sosEvent socket list \<Rightarrow> sosEvent socket list" where
  "broadcastResponderUpdate alertId requesterId r now =
     emitRoom (userRoom requesterId) None
       (EmergencyResponderUpdated (rp_alertId r) (rp_responderId r) (rp_status r) (rp_etaSeconds r) now)"

definition broadcastResolved ::
  "uid \<Rightarrow> uid list \<Rightarrow> resolution \<Rightarrow> time \<Rightarrow> sosEvent socket list \<Rightarrow> sosEvent socket list" where
  "broadcastResolved alertId recipientIds resolution now =
     fold (\<lambda>i. emitRoom (userRoom i) None (EmergencyResolved alertId resolution now)) recipientIds"

fun onSosEmit :: "time \<Rightarrow> sos_emit \<Rightarrow> sosEvent socket list \<Rightarrow> sosEvent socket list" where
  "onSosEmit now (BroadcastNearby recipientIds payload) = broadcastNearby recipientIds payload"
| "onSosEmit now (BroadcastResponderUpdate alertId requesterId r) = broadcastResponderUpdate alertId requesterId r now"
| "onSosEmit now (BroadcastResolved alertId recipientIds resolution) = broadcastResolved alertId recipientIds resolution now"

definition sosInit :: "bool \<Rightarrow> 'a sos_feed_db_scheme \<Rightarrow> 'a sos_feed_db_scheme" where
  "sosInit openapiGenerate w = (if openapiGenerate then w else registerGateway w)"

definition withSosFeed ::
  "time \<Rightarrow> ('a sos_feed_db_scheme \<Rightarrow> 'a sos_feed_db_scheme) \<Rightarrow> 'a sos_feed_db_scheme \<Rightarrow> 'a sos_feed_db_scheme" where
  "withSosFeed now f w =
     (let w' = f w in w'\<lparr>sosSockets := fold (onSosEmit now) (drop (length (sosOut w)) (sosOut w')) (sosSockets w')\<rparr>)"

section \<open>Connecting\<close>

definition sosConnection ::
  "guard_env \<Rightarrow> string \<Rightarrow> string option \<Rightarrow> string option \<Rightarrow> time \<Rightarrow> 'a sos_feed_db_scheme \<Rightarrow> 'a sos_feed_db_scheme" where
  "sosConnection env i authToken authorization now w =
     (case wsHandshake env True authToken authorization now of
        Inl e \<Rightarrow> w
      | Inr (userId, username) \<Rightarrow>
          if userId = [] then w else w\<lparr>sosSockets := connectSocket i userId username (sosSockets w)\<rparr>)"

definition sosDisconnect :: "string \<Rightarrow> 'a sos_feed_db_scheme \<Rightarrow> 'a sos_feed_db_scheme" where
  "sosDisconnect i w = w\<lparr>sosSockets := dropSocket i (sosSockets w)\<rparr>"

definition sosDestroy :: "time \<Rightarrow> 'a sos_feed_db_scheme \<Rightarrow> 'a sos_feed_db_scheme" where
  "sosDestroy now w =
     fold sosDisconnect (map sk_id (sosSockets w)) (w\<lparr>sosSockets := emitAll (SosShutdown now) (sosSockets w)\<rparr>)"

section \<open>Histories\<close>

datatype sosFeedOp =
    SosCall emergency_op time
  | SosInit bool
  | SosConnect string "string option" "string option" time
  | SosDisconnect string
  | SosDestroy time

fun sosFeedStep :: "guard_env \<Rightarrow> nearbyQueryRaw \<Rightarrow> sosFeedOp \<Rightarrow> 'a sos_feed_db_scheme \<Rightarrow> 'a sos_feed_db_scheme" where
  "sosFeedStep env nearby (SosCall x now) w = withSosFeed now (emergencyStep nearby x) w"
| "sosFeedStep env nearby (SosInit b) w = sosInit b w"
| "sosFeedStep env nearby (SosConnect i a h now) w = sosConnection env i a h now w"
| "sosFeedStep env nearby (SosDisconnect i) w = sosDisconnect i w"
| "sosFeedStep env nearby (SosDestroy now) w = sosDestroy now w"

section \<open>Each broadcast goes to its users\<close>

fun sosMail :: "time \<Rightarrow> sos_emit \<Rightarrow> (uid \<times> sosEvent) list" where
  "sosMail now (BroadcastNearby us p) = map (\<lambda>u. (u, EmergencyNearby p)) us"
| "sosMail now (BroadcastResponderUpdate i u r) =
     [(u, EmergencyResponderUpdated (rp_alertId r) (rp_responderId r) (rp_status r) (rp_etaSeconds r) now)]"
| "sosMail now (BroadcastResolved i us res) = map (\<lambda>u. (u, EmergencyResolved i res now)) us"

lemma emitAll_mail: "fold (\<lambda>u. emitRoom (userRoom u) None e) us = sendMail (map (\<lambda>u. (u, e)) us)"
  by (rule ext) (simp add: sendMail_def fold_map o_def)

lemma onSosEmit_mail: "onSosEmit now m = sendMail (sosMail now m)"
  by (cases m) (auto simp: broadcastNearby_def broadcastResponderUpdate_def broadcastResolved_def emitAll_mail sendMail_def [of "[_]"])

lemma fold_sosMail: "fold (onSosEmit now) ms socks = sendMail (concat (map (sosMail now) ms)) socks"
  by (induction ms arbitrary: socks) (simp_all add: sendMail_append onSosEmit_mail, simp add: sendMail_def)

section \<open>Broadcasts are for those concerned\<close>

text \<open>A user is concerned by an alert that he raised or that has a responder row of his.\<close>

definition concernedIn :: "uid \<Rightarrow> uid \<Rightarrow> alert list \<Rightarrow> responder list \<Rightarrow> bool" where
  "concernedIn i u as rs \<longleftrightarrow> (i, u) \<in> (\<lambda>a. (al_id a, al_userId a)) ` set as \<or> (i, u) \<in> responderKey ` set rs"

definition concerned :: "uid \<Rightarrow> uid \<Rightarrow> 'a emergency_db_scheme \<Rightarrow> bool" where
  "concerned i u w \<longleftrightarrow> concernedIn i u (alerts w) (responders w)"

fun alertIn :: "sosEvent \<Rightarrow> uid option" where
  "alertIn (EmergencyNearby p) = Some (np_alertId p)"
| "alertIn (EmergencyResponderUpdated i u st eta t) = Some i"
| "alertIn (EmergencyResolved i res t) = Some i"
| "alertIn (SosShutdown t) = None"

fun mailFits :: "alert list \<Rightarrow> responder list \<Rightarrow> sos_emit \<Rightarrow> bool" where
  "mailFits as rs (BroadcastNearby us p) \<longleftrightarrow> list_all (\<lambda>u. concernedIn (np_alertId p) u as rs) us"
| "mailFits as rs (BroadcastResponderUpdate i u r) \<longleftrightarrow> concernedIn (rp_alertId r) u as rs"
| "mailFits as rs (BroadcastResolved i us res) \<longleftrightarrow> list_all (\<lambda>u. concernedIn i u as rs) us"

lemma mailFits_mail:
  "mailFits as rs m \<Longrightarrow> (u, e) \<in> set (sosMail now m) \<Longrightarrow> alertIn e = Some i \<Longrightarrow> concernedIn i u as rs"
  by (cases m) (auto simp: list_all_iff)

lemma concernedIn_move: "sosMove s t \<Longrightarrow> concernedIn i u (fst s) (fst (snd s)) \<Longrightarrow> concernedIn i u (fst t) (fst (snd t))"
proof (induction rule: sosMove.induct)
  case (Count as rs bs j n)
  have "(\<lambda>a. (al_id a, al_userId a)) ` set (updateMany (\<lambda>a. al_id a = j) (\<lambda>a. a\<lparr>al_notifiedCount := n\<rparr>) as) =
      (\<lambda>a. (al_id a, al_userId a)) ` set as" by (rule keys_updateMany) simp
  then show ?case using Count by (simp add: concernedIn_def)
next
  case (Answer a as rs bs dto new v now)
  have "(\<lambda>a. (al_id a, al_userId a)) ` set (updateMany (\<lambda>r. al_id r = al_id a) (\<lambda>r. r\<lparr>al_status := A_ACKNOWLEDGED\<rparr>) as) =
      (\<lambda>a. (al_id a, al_userId a)) ` set as" by (rule keys_updateMany) simp
  moreover have "responderKey ` set (updateMany (\<lambda>r. responderKey r = (al_id a, v)) (answered dto now) rs) = responderKey ` set rs"
    by (rule keys_updateMany) simp
  ultimately show ?case using Answer by (simp add: concernedIn_def answeredRows_def split: option.split) blast
next
  case (Close as rs bs j res now)
  have "(\<lambda>a. (al_id a, al_userId a)) ` set (updateMany (\<lambda>a. al_id a = j) (closeAlert res now) as) =
      (\<lambda>a. (al_id a, al_userId a)) ` set as" by (rule keys_updateMany) (simp add: closeAlert_def)
  then show ?case using Close by (simp add: concernedIn_def)
qed (auto simp: concernedIn_def)

lemma concernedIn_moves: "sosMove\<^sup>*\<^sup>* s t \<Longrightarrow> concernedIn i u (fst s) (fst (snd s)) \<Longrightarrow> concernedIn i u (fst t) (fst (snd t))"
  by (induction rule: rtranclp_induct) (auto intro: concernedIn_move)

lemma mailFits_step:
  assumes "mailFits (alerts w) (responders w) m"
  shows "mailFits (alerts (emergencyStep nearby x w)) (responders (emergencyStep nearby x w)) m"
proof -
  have "concernedIn i u (alerts (emergencyStep nearby x w)) (responders (emergencyStep nearby x w))"
    if "concernedIn i u (alerts w) (responders w)" for i u
    using concernedIn_moves [OF emergencyStep_moves [of w nearby x], of i u] that by (simp add: sosView_def)
  then show ?thesis using assms by (cases m) (auto simp: list_all_iff)
qed

text \<open>The service leaves the sockets to the gateway, appends to its broadcasts, and keeps its supply of identifiers.\<close>

definition sosFrame :: "'a sos_feed_db_scheme \<Rightarrow> 'a sos_feed_db_scheme \<Rightarrow> bool" where
  "sosFrame w v \<longleftrightarrow> sosSockets v = sosSockets w \<and> (\<exists>ms. sosOut v = sosOut w @ ms) \<and> (freshResponderIds w \<longrightarrow> freshResponderIds v)"

lemma sosFrame_refl [simp]: "sosFrame w w"
  by (simp add: sosFrame_def)

lemma sosFrame_trans: "sosFrame w v \<Longrightarrow> sosFrame v x \<Longrightarrow> sosFrame w x"
  by (auto simp: sosFrame_def)

lemma sosFrame_and_then:
  assumes "sosFrame w (snd r)" and "\<And>x v. sosFrame w v \<Longrightarrow> sosFrame w (snd (f x v))"
  shows "sosFrame w (snd (and_then r f))"
  by (rule inv_and_then [where P = "sosFrame w"]) (use assms in auto)

lemma sosFrame_writes [simp]:
  "sosFrame w (v\<lparr>alerts := t\<rparr>) = sosFrame w v" "sosFrame w (v\<lparr>pushOut := p\<rparr>) = sosFrame w v"
  "sosFrame w (v\<lparr>rd_counters := c\<rparr>) = sosFrame w v" "sosFrame w (v\<lparr>rd_keys := k\<rparr>) = sosFrame w v"
  "sosFrame w (v\<lparr>auditLog := l\<rparr>) = sosFrame w v" "sosFrame w (v\<lparr>emergencyContacts := ec\<rparr>) = sosFrame w v"
  "sosFrame w (v\<lparr>bus := b\<rparr>) = sosFrame w v"
  "sosFrame w (v\<lparr>notifications := n\<rparr>) = sosFrame w v"
  by (simp_all add: sosFrame_def freshResponderIds_def)

lemma sosFrame_uuid: "sosFrame w v \<Longrightarrow> sosFrame w (takeUuid v)"
  by (auto simp: sosFrame_def freshResponderIds_def takeUuid_def)

lemma sosFrame_emit: "sosFrame w v \<Longrightarrow> sosFrame w (emitSos m v)"
  by (auto simp: emitSos_def sosFrame_def freshResponderIds_def)

lemma sosFrame_event: "sosFrame w v \<Longrightarrow> sosFrame w (emitEvent e v)"
  by (simp add: emitEvent_def)

lemma sosFrame_notify: "sosFrame w v \<Longrightarrow> sosFrame w (snd (notify u ty ti bo da now v))"
  by (simp add: notify_def Let_def write_or_def createRow_def raise_def ret_def sosFrame_uuid)

lemma sosFrame_notifyAll: "sosFrame w v \<Longrightarrow> sosFrame w (snd (notifyAllNearby a cs now v))"
proof (induction cs arbitrary: v)
  case Nil
  then show ?case by simp
next
  case (Cons c cs)
  obtain res v1 where n: "notify (fst c) N_EMERGENCY_NEARBY ''Yakininda bir surucu yardim istiyor''
      ''Yardim edebilir misin?'' [(''alertId'', DText (al_id a)), (''requesterId'', DText (al_userId a)),
       (''distanceMeters'', DNum (mathRound (snd c)))] now v = (res, v1)" by fastforce
  then have "sosFrame w v1" using sosFrame_notify [OF Cons.prems] by (metis snd_conv)
  then show ?case using Cons.IH [of v1]
    by (cases "notifyAllNearby a cs now v1") (simp add: n split: sum.split)
qed

lemma sosFrame_insert: "sosFrame w v \<Longrightarrow> sosFrame w (insertResponders i cs now v)"
proof (induction cs arbitrary: v)
  case (Cons c cs)
  have "sosSockets (nextInsert i c now v) = sosSockets v" "sosOut (nextInsert i c now v) = sosOut v" by (simp_all add: nextInsert_def Let_def takeUuid_def)
  then have "sosFrame v (nextInsert i c now v)" using freshResponderIds_next [of v i c now] by (simp add: sosFrame_def)
  then show ?case unfolding insertResponders_next using Cons.IH sosFrame_trans [OF Cons.prems] by blast
qed simp

lemma sosFrame_broadcast: "sosFrame w v \<Longrightarrow> sosFrame w (broadcastAllNearby a n cs v)"
  by (induction cs arbitrary: v) (simp_all add: sosFrame_emit)

lemma sosFrame_update: "sosFrame w v \<Longrightarrow> sosFrame w (snd (updateAlert i f v))"
  by (simp add: updateAlert_cases)

lemma sosFrame_create_many: "sosFrame w v \<Longrightarrow> sosFrame w (snd (createManyResponders i cs now v))"
  by (simp add: createManyResponders_def sosFrame_insert)

lemma sosFrame_dispatch: "sosFrame w v \<Longrightarrow> sosFrame w (snd (dispatchNearbyNotifications a n cs now v))"
  unfolding dispatchNearbyNotifications_def Let_def
  by (intro sosFrame_and_then sosFrame_notifyAll) (simp_all add: sosFrame_broadcast)

lemma sosFrame_nearby: "sosFrame w v \<Longrightarrow> sosFrame w (snd (notifyNearby nearby a n now v))"
  unfolding notifyNearby_def Let_def
  by (simp del: snd_and_then_ret, intro conjI impI sosFrame_and_then)
     (simp_all add: sosFrame_create_many sosFrame_update sosFrame_dispatch)

lemma sosFrame_flag: "sosFrame w v \<Longrightarrow> sosFrame w (flagFalseAlarm u n now v)"
  by (simp add: flagFalseAlarm_def Let_def split: prod.split)

lemma sosFrame_createAlert: "sosFrame w (snd (createAlert nearby u dto user now w))"
proof -
  have "sosFrame w (snd (write_or UniqueViolation (createRow al_id a as) (\<lambda>t. (takeUuid v)\<lparr>alerts := t\<rparr>) v))"
    if "sosFrame w v" for a as v
    using that by (simp add: write_or_def createRow_def raise_def ret_def sosFrame_uuid)
  then show ?thesis unfolding createAlert_def Let_def
    by (auto simp: sosFrame_flag simp del: snd_and_then_ret split: prod.split intro!: sosFrame_and_then sosFrame_nearby)
qed

lemma sosFrame_saveResponse: "sosFrame w v \<Longrightarrow> sosFrame w (snd (saveResponse i u dto now v))"
proof (cases "findUnique responderKey (i, u) (responders v)")
  case None
  assume f: "sosFrame w v"
  have "freshResponderIds v \<Longrightarrow> freshResponderIds ((takeUuid v)\<lparr>responders := responders v @ [newResponder (newUuid v) i u dto now]\<rparr>)"
    by (auto simp: freshResponderIds_def takeUuid_def newUuid_def newResponder_def dest: injD)
  then show ?thesis using f None by (auto simp: saveResponse_def Let_def raise_def ret_def sosFrame_def takeUuid_def)
next
  case (Some r)
  assume f: "sosFrame w v"
  have "rp_id ` set (updateMany (\<lambda>r. responderKey r = (i, u)) (answered dto now) (responders v)) = rp_id ` set (responders v)"
    by (rule keys_updateMany) (simp add: answered_def Let_def)
  then show ?thesis using f Some by (simp add: saveResponse_def ret_def sosFrame_def freshResponderIds_def)
qed

lemma sosFrame_respond: "sosFrame w (snd (respond u i dto now w))"
  unfolding respond_def throwPlain_def Let_def
  by (auto simp: sosFrame_update sosFrame_saveResponse sosFrame_notify sosFrame_emit sosFrame_event
      simp del: snd_and_then_ret split: option.split intro!: sosFrame_and_then)

lemma sosFrame_step: "sosFrame w (emergencyStep nearby x w)"
proof (cases x)
  case (Resolve u i res now)
  then show ?thesis
    by (auto simp: resolve_def throwPlain_def Let_def sosFrame_update sosFrame_emit simp del: snd_and_then_ret
        split: option.split intro!: sosFrame_and_then)
next
  case (CreateContact u n p rel now)
  then show ?thesis
    by (simp add: createContact_def Let_def write_or_def createRow_def raise_def ret_def sosFrame_uuid)
next
  case (RemoveContact u c)
  then show ?thesis by (simp add: removeContact_def write_or_def deleteRow_def raise_def ret_def)
qed (simp_all add: sosFrame_createAlert sosFrame_respond)

section \<open>What a call of the service broadcasts\<close>

text \<open>A run that stops has broadcast nothing yet.\<close>

definition quietStop :: "'a emergency_db_scheme \<Rightarrow> ('b, 'a emergency_db_scheme) outcome \<Rightarrow> bool" where
  "quietStop w r \<longleftrightarrow> (\<forall>e. fst r = Inl e \<longrightarrow> outView (snd r) = outView w)"

lemma quietStop_first:
  assumes "outView (snd r) = outView w" and "\<And>x v. outView v = outView w \<Longrightarrow> quietStop w (f x v)"
  shows "quietStop w (and_then r f)"
  using assms by (cases "(r, f)" rule: and_then.cases) (auto simp: quietStop_def)

lemma quietStop_last: "quietStop w r \<Longrightarrow> quietStop w (and_then r (\<lambda>x v. ret (g x v) (h x v)))"
  by (cases "(r, \<lambda>x v. ret (g x v) (h x v))" rule: and_then.cases) (auto simp: quietStop_def ret_def)

lemma quietStop_ret [simp]: "quietStop w (ret x v)"
  by (simp add: quietStop_def ret_def)

lemma quietStop_raise: "outView v = outView w \<Longrightarrow> quietStop w (raise e v)"
  by (simp add: quietStop_def)

lemma quietStop_if: "quietStop w r \<Longrightarrow> quietStop w t \<Longrightarrow> quietStop w (if c then r else t)"
  by simp

lemma updateAlert_out [simp]: "outView (snd (updateAlert i f w)) = outView w"
  by (simp add: updateAlert_cases)

lemma createMany_out [simp]: "outView (snd (createManyResponders i cs now w)) = outView w"
  by (simp add: createManyResponders_def)

lemma dispatch_stops: "outView v = outView w \<Longrightarrow> quietStop w (dispatchNearbyNotifications a n cs now v)"
  unfolding dispatchNearbyNotifications_def Let_def by (rule quietStop_first) simp_all

lemma notifyNearby_stops: "outView v = outView w \<Longrightarrow> quietStop w (notifyNearby nearby a n now v)"
  unfolding notifyNearby_def Let_def
  by (rule quietStop_if, rule quietStop_ret, rule quietStop_first, simp, rule quietStop_first, simp, rule quietStop_last,
      rule quietStop_if, rule dispatch_stops, assumption, rule quietStop_ret)

lemma createAlert_stops: "quietStop w (createAlert nearby u dto user now w)"
proof -
  have "outView (snd (write_or UniqueViolation (createRow al_id a as) (\<lambda>t. (takeUuid v)\<lparr>alerts := t\<rparr>) v)) = outView v"
    for a as and v :: "'a emergency_db_scheme"
    by (simp add: write_or_def createRow_def raise_def ret_def)
  moreover have "outView (w\<lparr>rd_counters := c\<rparr>) = outView w" "outView (flagFalseAlarm u n now (w\<lparr>rd_counters := c\<rparr>)) = outView w" for c n
    by (simp_all add: outView_def flagFalseAlarm_def Let_def split: prod.split)
  ultimately show ?thesis unfolding createAlert_def Let_def throwHttp_def
    by (auto simp: notifyNearby_stops split: prod.split intro!: quietStop_first quietStop_raise)
qed

lemma createAlert_emits:
  assumes "freshResponderIds w" and "v = snd (createAlert nearby u dto user now w)"
  shows "\<exists>ms. sosOut v = sosOut w @ ms \<and> (\<forall>m \<in> set ms. mailFits (alerts v) (responders v) m)"
proof (cases "fst (createAlert nearby u dto user now w)")
  case (Inl e)
  then have "sosOut v = sosOut w" using createAlert_stops [of w nearby u dto user now] assms(2) by (simp add: quietStop_def outView_def)
  then show ?thesis by (intro exI [of _ "[]"]) simp
next
  case (Inr d)
  then have run: "createAlert nearby u dto user now w = (Inr d, v)" using assms(2) by (metis prod.collapse)
  define riders where "riders = nearby (cad_latitude dto) (cad_longitude dto)
      (case cad_radiusMeters dto of None \<Rightarrow> 5000 | Some r \<Rightarrow> r) (rq_city user) 100"
  define ms where "ms = (if gatewayRegistered w then map (nearbyCall (newAlert (ad_id d) u dto user now) (rq_username user))
      (sosRecipients u riders w) else [])"
  note all = createAlert_done [OF run assms(1) refl refl, folded riders_def]
  have "mailFits (alerts v) (responders v) m" if "m \<in> set ms" for m
    using that all by (auto simp: ms_def nearbyCall_def newAlert_def concernedIn_def split: if_splits)
  moreover have "sosOut v = sosOut w @ ms" using all by (simp add: ms_def)
  ultimately show ?thesis by blast
qed

lemma saveResponse_out:
  "saveResponse i u dto now w = (Inr saved, w1) \<Longrightarrow>
   rp_alertId saved = i \<and> sosOut w1 = sosOut w \<and> gatewayRegistered w1 = gatewayRegistered w"
  by (auto simp: saveResponse_def Let_def takeUuid_def ret_def raise_def split: option.splits if_splits dest: findUnique_Some)

lemma notify_sosOut [simp]: "sosOut (snd (notify u ty ti bo da now w)) = sosOut w"
  using notify_out [of u ty ti bo da now w] by (simp add: outView_def)

lemma respond_out:
  "sosOut (snd (respond u i dto now w)) = sosOut w \<or>
   (\<exists>a saved. a \<in> set (alerts w) \<and> al_id a = i \<and> rp_alertId saved = i \<and>
      sosOut (snd (respond u i dto now w)) = sosOut w @ [BroadcastResponderUpdate i (al_userId a) saved])"
proof (cases "\<exists>a saved w1. findLiveAlert i w = Some a \<and> saveResponse i u dto now w = (Inr saved, w1)")
  case True
  then obtain a saved w1 where a: "findLiveAlert i w = Some a" and r: "saveResponse i u dto now w = (Inr saved, w1)" by blast
  note w1 = saveResponse_out [OF r]
  have "sosOut (emitSos m w1) = sosOut w \<or> sosOut (emitSos m w1) = sosOut w @ [m]" for m
    using w1 by (simp add: emitSos_def)
  moreover have "sosOut (emitSos m (w1\<lparr>alerts := t\<rparr>)) = sosOut (emitSos m w1)" for m t by (simp add: emitSos_def)
  ultimately have "sosOut (snd (respond u i dto now w)) \<in>
      {sosOut w, sosOut w @ [BroadcastResponderUpdate i (al_userId a) saved]}"
    using w1 by (simp add: respond_def a r Let_def throwPlain_def updateAlert_cases emitEvent_def)
  then show ?thesis using findLiveAlert_Some [OF a] w1 by blast
next
  case False
  then have "snd (respond u i dto now w) = w"
    using saveResponse_failed [of i u dto now w]
    by (cases "saveResponse i u dto now w"; cases "fst (saveResponse i u dto now w)")
       (auto simp: respond_def throwPlain_def Let_def split: option.split)
  then show ?thesis by simp
qed

lemma step_emits:
  assumes "freshResponderIds w" and "v = emergencyStep nearby x w"
  shows "\<exists>ms. sosOut v = sosOut w @ ms \<and> (\<forall>m \<in> set ms. mailFits (alerts v) (responders v) m)"
proof -
  have none: ?thesis if "sosOut v = sosOut w" using that by (intro exI [of _ "[]"]) simp
  show ?thesis
  proof (cases x)
    case (CreateAlert u dto user now)
    then show ?thesis using createAlert_emits [OF assms(1)] assms(2) by simp
  next
    case (Respond u i dto now)
    show ?thesis
    proof (cases "sosOut v = sosOut w")
      case False
      then obtain a saved where a: "a \<in> set (alerts w)" "al_id a = i" "rp_alertId saved = i"
        and out: "sosOut v = sosOut w @ [BroadcastResponderUpdate i (al_userId a) saved]"
        using respond_out [of u i dto now w] assms(2) Respond by auto
      have "mailFits (alerts w) (responders w) (BroadcastResponderUpdate i (al_userId a) saved)"
        using a by (auto simp: concernedIn_def)
      from mailFits_step [OF this, of nearby x] show ?thesis using out assms(2)
        by (intro exI [of _ "[BroadcastResponderUpdate i (al_userId a) saved]"]) (simp del: mailFits.simps)
    qed (rule none)
  next
    case (Resolve u i res now)
    have "sosOut v = sosOut w \<or> responders v = responders w \<and>
        sosOut v = sosOut w @ [BroadcastResolved i (map rp_responderId (filter (\<lambda>r. rp_alertId r = i) (responders w))) res]"
      using assms(2)
      by (auto simp: Resolve resolve_def throwPlain_def Let_def updateAlert_cases emitSos_def split: option.split)
    then show ?thesis
    proof
      assume "responders v = responders w \<and>
        sosOut v = sosOut w @ [BroadcastResolved i (map rp_responderId (filter (\<lambda>r. rp_alertId r = i) (responders w))) res]"
      then show ?thesis by (auto simp: concernedIn_def list_all_iff image_iff)
    qed (rule none)
  next
    case (CreateContact u n p rel now)
    then show ?thesis using assms(2)
      by (intro none) (simp add: createContact_def Let_def write_or_def createRow_def raise_def ret_def takeUuid_def)
  next
    case (RemoveContact u c)
    then show ?thesis using assms(2) by (intro none) (simp add: removeContact_def write_or_def deleteRow_def raise_def ret_def)
  qed
qed

section \<open>The feed\<close>

text \<open>The broadcasts so far are for those concerned, and the service still has identifiers.\<close>

definition sosMailFits :: "'a sos_feed_db_scheme \<Rightarrow> bool" where
  "sosMailFits w \<longleftrightarrow> freshResponderIds w \<and> (\<forall>m \<in> set (sosOut w). mailFits (alerts w) (responders w) m)"

lemma sosDisconnect_all:
  "fold sosDisconnect is w = w\<lparr>sosSockets := filter (\<lambda>s. sk_id s \<notin> set is) (sosSockets w)\<rparr>"
  by (induction "is" arbitrary: w) (simp_all add: sosDisconnect_def dropSocket_def conj_commute)

lemma sosMailFits_sockets [simp]: "sosMailFits (w\<lparr>sosSockets := ss\<rparr>) = sosMailFits w"
  by (simp add: sosMailFits_def freshResponderIds_def)

lemma sosMailFits_step: "sosMailFits w \<Longrightarrow> sosMailFits (sosFeedStep env nearby x w)"
proof (cases x)
  case (SosCall y now)
  assume inv: "sosMailFits w"
  then have fresh: "freshResponderIds w" by (simp add: sosMailFits_def)
  obtain ms where "sosOut (emergencyStep nearby y w) = sosOut w @ ms"
    "\<forall>m \<in> set ms. mailFits (alerts (emergencyStep nearby y w)) (responders (emergencyStep nearby y w)) m"
    using step_emits [OF fresh refl] by blast
  then have "sosMailFits (emergencyStep nearby y w)"
    using inv sosFrame_step [of w nearby y] mailFits_step [of w _ nearby y] by (auto simp: sosMailFits_def sosFrame_def)
  then show ?thesis by (simp add: SosCall withSosFeed_def Let_def)
next
  case (SosInit b)
  assume "sosMailFits w"
  then show ?thesis by (simp add: SosInit sosInit_def registerGateway_def sosMailFits_def freshResponderIds_def)
qed (auto simp: sosConnection_def sosDisconnect_def sosDestroy_def sosDisconnect_all split: sum.split)

interpretation sos_mail: invariant_system "sosFeedStep env nearby" sosMailFits for env nearby
  by unfold_locales (rule sosMailFits_step)

lemma sosFeed_step:
  "(\<exists>now ms. sosOut (sosFeedStep env nearby x w) = sosOut w @ ms \<and>
      sosSockets (sosFeedStep env nearby x w) = sendMail (concat (map (sosMail now) ms)) (sosSockets w)) \<or>
   sosOut (sosFeedStep env nearby x w) = sosOut w \<and>
     ((\<exists>i u name. sosSockets (sosFeedStep env nearby x w) = connectSocket i u name (sosSockets w)) \<or>
      (\<exists>P. sosSockets (sosFeedStep env nearby x w) = filter P (sosSockets w)))"
proof (cases x)
  case (SosCall y now)
  obtain ms where new: "sosSockets (emergencyStep nearby y w) = sosSockets w" "sosOut (emergencyStep nearby y w) = sosOut w @ ms"
    using sosFrame_step [of w nearby y] by (auto simp: sosFrame_def)
  show ?thesis unfolding SosCall
    by (rule disjI1, rule exI [of _ now], rule exI [of _ ms]) (simp add: withSosFeed_def Let_def fold_sosMail new)
next
  case (SosInit b)
  then show ?thesis by (intro disjI2 conjI disjI2 exI [of _ "\<lambda>s. True"]) (simp_all add: sosInit_def registerGateway_def)
next
  case (SosConnect i a h now)
  have stay: "\<exists>P. t = filter P t" for t :: "sosEvent socket list" by (rule exI [of _ "\<lambda>s. True"]) simp
  show ?thesis unfolding SosConnect
    by (rule disjI2) (auto simp: sosConnection_def stay split: sum.split)
next
  case (SosDisconnect i)
  then show ?thesis by (intro disjI2) (auto simp: sosDisconnect_def dropSocket_def)
next
  case (SosDestroy now)
  then show ?thesis
    by (intro disjI2 conjI disjI2 exI [of _ "\<lambda>s. False"]) (auto simp: sosDestroy_def sosDisconnect_all emitAll_def filter_empty_conv)
qed

interpretation sos_feed: user_feed sosOut sosSockets sosMail "sosFeedStep env nearby" for env nearby
  by unfold_locales (rule sosFeed_step)

section \<open>Properties\<close>

text \<open>
  C16: an SOS stays among those it concerns: over any history of calls, connections and
  disconnections, whatever a device was sent about an alert, its user raised that alert or has a responder
  row for it.
\<close>

theorem alerts_stay_private:
  assumes "sosSockets w = []" and "sosOut w = []" and "freshResponderIds w"
    and "v = fold (sosFeedStep env nearby) xs w" and "s \<in> set (sosSockets v)"
    and "e \<in> set (sk_inbox s)" and "alertIn e = Some i"
  shows "(\<exists>a \<in> set (alerts v). al_id a = i \<and> al_userId a = sk_userId s) \<or>
    (\<exists>r \<in> set (responders v). responderKey r = (i, sk_userId s))"
proof -
  have "sosMailFits w" using assms(2,3) by (simp add: sosMailFits_def)
  then have fits: "sosMailFits v" unfolding assms(4) by (rule sos_mail.run_inv)
  obtain now m where "m \<in> set (sosOut v)" "(sk_userId s, e) \<in> set (sosMail now m)"
    using sos_feed.heard_addressed [OF assms(1), of s env nearby xs e] assms(5,6) unfolding assms(4) by blast
  moreover from this fits have "mailFits (alerts v) (responders v) m" by (simp add: sosMailFits_def)
  ultimately have "concernedIn i (sk_userId s) (alerts v) (responders v)" using mailFits_mail assms(7) by blast
  then show ?thesis by (auto simp: concernedIn_def)
qed

definition nearbyNews :: "alert \<Rightarrow> string \<Rightarrow> uid \<times> rat \<Rightarrow> sosEvent" where
  "nearbyNews a username c = EmergencyNearby
     \<lparr>np_alertId = al_id a, np_requesterId = al_userId a, np_requesterUsername = username,
      np_type = al_type a, np_latitude = al_latitude a, np_longitude = al_longitude a,
      np_distanceMeters = mathRound (snd c), np_createdAt = al_createdAt a\<rparr>"

lemma mail_nearby:
  "mailOf u (concat (map (sosMail now) (map (nearbyCall a n) cs))) = map (nearbyNews a n) (filter (\<lambda>c. fst c = u) cs)"
  by (induction cs) (simp_all add: mailOf_def nearbyCall_def nearbyNews_def)

text \<open>
  C30: who an SOS reaches: when \<open>createAlert\<close> succeeds, the notified users are exactly the
  riders found nearby other than the requester and in no block relation with him; each of
  them has a responder row for the alert and got the push message; each of their connected devices is
  sent the alert with their distance, and no other device anything; and the answer counts them.
\<close>

theorem sos_reaches_nearby:
  assumes "createAlert nearby u dto user now w = (Inr d, w')" and "freshResponderIds w"
    and "gatewayRegistered w" and "atHome (sosSockets w)"
    and "v = withSosFeed now (emergencyStep nearby (CreateAlert u dto user now)) w"
    and "riders = nearby (cad_latitude dto) (cad_longitude dto)
      (case cad_radiusMeters dto of None \<Rightarrow> 5000 | Some r \<Rightarrow> r) (rq_city user) 100"
    and "R = sosRecipients u riders w"
  shows "(\<forall>c. c \<in> set R \<longleftrightarrow> c \<in> set riders \<and> fst c \<noteq> u \<and> \<not> blockedEitherWay u (fst c) w) \<and>
    ad_notifiedCount d = length R \<and>
    (\<forall>c \<in> set R. (ad_id d, fst c) \<in> responderKey ` set (responders v)) \<and>
    map fst (pushOut v) = map fst (pushOut w) @ (if R = [] then [] else [map fst R]) \<and>
    sosSockets v = map (\<lambda>s. s\<lparr>sk_inbox := sk_inbox s @
      map (nearbyNews (newAlert (ad_id d) u dto user now) (rq_username user)) (filter (\<lambda>c. fst c = sk_userId s) R)\<rparr>) (sosSockets w)"
proof -
  note told = createAlert_done [OF assms(1,2,6,7)]
  have w': "emergencyStep nearby (CreateAlert u dto user now) w = w'" using assms(1) by simp
  have socks: "sosSockets w' = sosSockets w" using sosFrame_step [of w nearby "CreateAlert u dto user now"] w' by (simp add: sosFrame_def)
  have out: "sosOut w' = sosOut w @ map (nearbyCall (newAlert (ad_id d) u dto user now) (rq_username user)) R"
    using told assms(3) by simp
  have v: "v = w'\<lparr>sosSockets := sosSockets v\<rparr>" unfolding assms(5) withSosFeed_def w' Let_def by simp
  have "sosSockets v = map (\<lambda>s. s\<lparr>sk_inbox := sk_inbox s @
      map (nearbyNews (newAlert (ad_id d) u dto user now) (rq_username user)) (filter (\<lambda>c. fst c = sk_userId s) R)\<rparr>) (sosSockets w)"
    unfolding assms(5) withSosFeed_def w' Let_def
    by (simp add: out socks fold_sosMail sendMail_home [OF assms(4)] mail_nearby del: map_map)
  moreover have "responders v = responders w'" "pushOut v = pushOut w'" by (subst v, simp)+
  ultimately show ?thesis using told by (simp del: split_paired_All)
qed

section \<open>A sample\<close>

definition sampleRiders :: guard_env where
  "sampleRiders =
     \<lparr>gv_verifyAccess = (\<lambda>now t. Some \<lparr>ap_sub = t, ap_username = t, ap_role = None, ap_typ = ''access''\<rparr>),
      gv_hmac = (\<lambda>secret text. []), gv_secret = None\<rparr>"

definition sampleSosFeed :: sos_feed_db where
  "sampleSosFeed = emergency_db.extend sampleSos \<lparr>sosSockets = []\<rparr>"

definition raiseAlert :: emergency_op where
  "raiseAlert = CreateAlert ''a'' sampleAlertDto sampleRequester 2"

text \<open>A device of \<open>b\<close>, who is nearby, and one of \<open>d\<close>, who is not.\<close>

definition sampleConnected :: sos_feed_db where
  "sampleConnected = fold (sosFeedStep sampleRiders sampleNearby)
     [SosConnect ''s1'' (Some ''b'') None 1, SosConnect ''s2'' (Some ''d'') None 1] sampleSosFeed"

lemma sampleSosFeed_start: "sosSockets sampleSosFeed = []" "sosOut sampleSosFeed = []" "freshResponderIds sampleSosFeed"
  using sampleSos_fresh by (simp_all add: sampleSosFeed_def sampleSos_def core_db.defs emergency_db.defs freshResponderIds_def)

lemma sampleConnected_sockets:
  "sampleConnected = sampleSosFeed\<lparr>sosSockets :=
     [\<lparr>sk_id = ''s1'', sk_userId = ''b'', sk_username = ''b'', sk_rooms = [userRoom ''b''], sk_inbox = []\<rparr>,
      \<lparr>sk_id = ''s2'', sk_userId = ''d'', sk_username = ''d'', sk_rooms = [userRoom ''d''], sk_inbox = []\<rparr>]\<rparr>"
  by (simp add: sampleConnected_def sosConnection_def wsHandshake_def truthy_def sampleRiders_def connectSocket_def sampleSosFeed_start)

theorem alerts_stay_private_witness:
  "\<exists>r \<in> set (responders (fold (sosFeedStep sampleRiders sampleNearby)
      [SosConnect ''s1'' (Some ''b'') None 1, SosCall raiseAlert 2] sampleSosFeed)). responderKey r = ([], ''b'')"
proof -
  let ?xs = "[SosConnect ''s1'' (Some ''b'') None 1, SosCall raiseAlert 2]"
  let ?v = "fold (sosFeedStep sampleRiders sampleNearby) ?xs sampleSosFeed"
  have "(case sosSockets ?v of [s] \<Rightarrow> sk_userId s = ''b'' \<and> (case sk_inbox s of [e] \<Rightarrow> alertIn e = Some [] | _ \<Rightarrow> False) | _ \<Rightarrow> False)"
    by code_simp
  then obtain s e where "s \<in> set (sosSockets ?v)" "e \<in> set (sk_inbox s)" "alertIn e = Some []" "sk_userId s = ''b''"
    by (auto split: list.splits)
  from alerts_stay_private [OF sampleSosFeed_start refl this(1-3)] this(4)
  have "(\<exists>a \<in> set (alerts ?v). al_id a = [] \<and> al_userId a = ''b'') \<or> (\<exists>r \<in> set (responders ?v). responderKey r = ([], ''b''))" by metis
  moreover have "list_all (\<lambda>a. al_userId a = ''a'') (alerts ?v)" by code_simp
  ultimately show ?thesis by (auto simp: list_all_iff)
qed

theorem sos_reaches_nearby_witness:
  "\<exists>d w'. createAlert sampleNearby ''a'' sampleAlertDto sampleRequester 2 sampleConnected = (Inr d, w') \<and>
     ad_notifiedCount d = length (sosRecipients ''a'' (sampleNearby 41 29 5000 None 100) sampleConnected) \<and>
     map (\<lambda>s. length (sk_inbox s)) (sosSockets (withSosFeed 2 (emergencyStep sampleNearby raiseAlert) sampleConnected)) = [1, 0]"
proof -
  have "(case fst (createAlert sampleNearby ''a'' sampleAlertDto sampleRequester 2 sampleConnected) of
        Inl e \<Rightarrow> False | Inr d \<Rightarrow> True)" by code_simp
  then obtain d w' where run: "createAlert sampleNearby ''a'' sampleAlertDto sampleRequester 2 sampleConnected = (Inr d, w')"
    using ran_ok by blast
  have start: "freshResponderIds sampleConnected" "gatewayRegistered sampleConnected" "atHome (sosSockets sampleConnected)"
    using sampleSosFeed_start
    by (simp_all add: sampleConnected_sockets freshResponderIds_def atHome_def sampleSosFeed_def sampleSos_def core_db.defs emergency_db.defs)
  have "ad_notifiedCount d = length (sosRecipients ''a'' (sampleNearby 41 29 5000 None 100) sampleConnected)"
    using sos_reaches_nearby [OF run start refl refl refl] by (simp add: sampleAlertDto_def sampleRequester_def)
  moreover have "map (\<lambda>s. length (sk_inbox s)) (sosSockets (withSosFeed 2 (emergencyStep sampleNearby raiseAlert) sampleConnected)) = [1, 0]"
    by code_simp
  ultimately show ?thesis using run by (intro exI conjI)
qed

end
