(* ===== verification/Gamification_Gateway.thy ===== *)
theory Gamification_Gateway
  imports Gamification Guards Sockets
begin

text \<open>
  \<open>gamification/gamification.gateway.ts\<close> (namespace \<open>/gamification\<close>): the sockets of the riders, and
  the two bridge calls of \<open>gamification.service.ts\<close>, which send a finished quest and an earned badge to
  the room of the user. Each call of the service is followed by its bridge calls, in their order.
\<close>

section \<open>State\<close>

text \<open>The payloads: \<open>questId, questCode, questName, xpAwarded, newUserLevel, newUserXp\<close> and
  \<open>badgeId, badgeCode, badgeName, iconUrl, rarity\<close>.\<close>

datatype gameEvent =
    QuestCompleted uid string string int int int
  | BadgeEarned uid string string "string option" badgeRarity
  | GameShutdown time

record game_feed_db = game_db +
  gameSockets :: "gameEvent socket list"

section \<open>The bridge\<close>

definition emitQuestCompleted :: "uid \<Rightarrow> questCompletedDto \<Rightarrow> string \<Rightarrow> gameEvent socket list \<Rightarrow> gameEvent socket list" where
  "emitQuestCompleted userId dto questName =
     emitRoom (userRoom userId) None
       (QuestCompleted (qc_questId dto) (qc_questCode dto) questName (qc_xpAwarded dto) (qc_newUserLevel dto) (qc_newUserXp dto))"

definition emitBadgeEarned :: "uid \<Rightarrow> badgeDto \<Rightarrow> gameEvent socket list \<Rightarrow> gameEvent socket list" where
  "emitBadgeEarned userId badge =
     emitRoom (userRoom userId) None
       (BadgeEarned (bd_id badge) (bd_code badge) (bd_name badge) (bd_iconUrl badge) (bd_rarity badge))"

fun onGameEmit :: "game_emit \<Rightarrow> gameEvent socket list \<Rightarrow> gameEvent socket list" where
  "onGameEmit (BroadcastQuestCompleted userId dto questName) = emitQuestCompleted userId dto questName"
| "onGameEmit (BroadcastBadgeEarned userId badge) = emitBadgeEarned userId badge"

definition gameInit :: "bool \<Rightarrow> 'a game_feed_db_scheme \<Rightarrow> 'a game_feed_db_scheme" where
  "gameInit openapiGenerate w = (if openapiGenerate then w else registerGameGateway w)"

definition withGameFeed :: "('a game_feed_db_scheme \<Rightarrow> 'a game_feed_db_scheme) \<Rightarrow> 'a game_feed_db_scheme \<Rightarrow> 'a game_feed_db_scheme" where
  "withGameFeed f w =
     (let w' = f w in w'\<lparr>gameSockets := fold onGameEmit (drop (length (gameOut w)) (gameOut w')) (gameSockets w')\<rparr>)"

section \<open>Connecting\<close>

text \<open>The handshake does not look at the type of the token.\<close>

definition gameConnection ::
  "guard_env \<Rightarrow> string \<Rightarrow> string option \<Rightarrow> string option \<Rightarrow> time \<Rightarrow> 'a game_feed_db_scheme \<Rightarrow> 'a game_feed_db_scheme" where
  "gameConnection env i authToken authorization now w =
     (case wsHandshake env False authToken authorization now of
        Inl e \<Rightarrow> w
      | Inr (userId, username) \<Rightarrow>
          if userId = [] then w else w\<lparr>gameSockets := connectSocket i userId username (gameSockets w)\<rparr>)"

definition gameDisconnect :: "string \<Rightarrow> 'a game_feed_db_scheme \<Rightarrow> 'a game_feed_db_scheme" where
  "gameDisconnect i w = w\<lparr>gameSockets := dropSocket i (gameSockets w)\<rparr>"

definition gameDestroy :: "time \<Rightarrow> 'a game_feed_db_scheme \<Rightarrow> 'a game_feed_db_scheme" where
  "gameDestroy now w =
     fold gameDisconnect (map sk_id (gameSockets w)) (w\<lparr>gameSockets := emitAll (GameShutdown now) (gameSockets w)\<rparr>)"

section \<open>Histories\<close>

datatype gameFeedOp =
    GameCall gameOp
  | GameInit bool
  | GameConnect string "string option" "string option" time
  | GameDisconnect string
  | GameDestroy time

fun gameFeedStep :: "guard_env \<Rightarrow> gameFeedOp \<Rightarrow> 'a game_feed_db_scheme \<Rightarrow> 'a game_feed_db_scheme" where
  "gameFeedStep env (GameCall x) w = withGameFeed (gameStep x) w"
| "gameFeedStep env (GameInit b) w = gameInit b w"
| "gameFeedStep env (GameConnect i a h now) w = gameConnection env i a h now w"
| "gameFeedStep env (GameDisconnect i) w = gameDisconnect i w"
| "gameFeedStep env (GameDestroy now) w = gameDestroy now w"

section \<open>Each broadcast goes to its user\<close>

fun questMail :: "time \<Rightarrow> game_emit \<Rightarrow> (uid \<times> gameEvent) list" where
  "questMail now (BroadcastQuestCompleted u d n) =
     [(u, QuestCompleted (qc_questId d) (qc_questCode d) n (qc_xpAwarded d) (qc_newUserLevel d) (qc_newUserXp d))]"
| "questMail now (BroadcastBadgeEarned u b) = [(u, BadgeEarned (bd_id b) (bd_code b) (bd_name b) (bd_iconUrl b) (bd_rarity b))]"

lemma onGameEmit_mail: "onGameEmit m = sendMail (questMail now m)"
  by (cases m) (auto simp: sendMail_def emitQuestCompleted_def emitBadgeEarned_def)

lemma fold_mail: "fold onGameEmit ms socks = sendMail (concat (map (questMail now) ms)) socks"
  by (induction ms arbitrary: socks) (auto simp: sendMail_append onGameEmit_mail [of _ now], simp add: sendMail_def)

text \<open>The service only appends to its broadcasts, and leaves the sockets to the gateway.\<close>

definition gameGrows :: "'a game_feed_db_scheme \<Rightarrow> 'a game_feed_db_scheme \<Rightarrow> bool" where
  "gameGrows w v \<longleftrightarrow> gameSockets v = gameSockets w \<and> (\<exists>ms. gameOut v = gameOut w @ ms)"

lemma gameGrows_refl [simp]: "gameGrows w w"
  by (simp add: gameGrows_def)

lemma gameGrows_trans: "gameGrows w v \<Longrightarrow> gameGrows v x \<Longrightarrow> gameGrows w x"
  by (auto simp: gameGrows_def)

lemma gameGrows_and_then:
  assumes "gameGrows w (snd r)" and "\<And>x v. gameGrows w v \<Longrightarrow> gameGrows w (snd (f x v))"
  shows "gameGrows w (snd (and_then r f))"
  by (rule inv_and_then [where P = "gameGrows w"]) (use assms in auto)

lemma notify_grows: "gameGrows w v \<Longrightarrow> gameGrows w (snd (notify u ty ti bo da now v))"
proof -
  obtain t n where "snd (notify u ty ti bo da now v) = v\<lparr>notifications := t, uuidNext := n\<rparr>"
    using notify_writes by blast
  then show "gameGrows w v \<Longrightarrow> ?thesis" by (simp add: gameGrows_def)
qed

lemma awardXp_grows: "gameGrows w v \<Longrightarrow> gameGrows w (snd (awardXp u r v))"
  by (auto simp: awardXp_cases gameGrows_def split: option.split)

lemma unlockBadge_grows: "gameGrows w v \<Longrightarrow> gameGrows w (snd (unlockBadge u q now v))"
  by (auto simp: unlockBadge_def raise_def ret_def gameGrows_def split: option.split)

lemma saveProgress_grows: "gameGrows w v \<Longrightarrow> gameGrows w (snd (saveProgress u q p t c now v))"
  by (simp add: saveProgress_cases gameGrows_def)

lemma pushAndBroadcast_grows: "gameGrows w v \<Longrightarrow> gameGrows w (pushAndBroadcast u q d v)"
  by (auto simp: pushAndBroadcast_def emitGame_def Let_def gameGrows_def split: option.split)

lemma announce_grows: "gameGrows w v \<Longrightarrow> gameGrows w (snd (announce u q d now v))"
  unfolding announce_def
  by (intro gameGrows_and_then notify_grows) (simp_all add: notify_grows pushAndBroadcast_grows split: option.split)

lemma completeQuest_grows: "gameGrows w v \<Longrightarrow> gameGrows w (snd (completeQuest u q now v))"
  unfolding completeQuest_def case_prod_beta Let_def
  by (intro gameGrows_and_then awardXp_grows unlockBadge_grows announce_grows) simp_all

lemma advanceQuest_grows: "gameGrows w v \<Longrightarrow> gameGrows w (snd (advanceQuest u k now q ds v))"
  using advanceQuest_shape [of u k now q ds v]
proof (elim disjE exE)
  fix p t c
  assume g: "gameGrows w v" and shape: "advanceQuest u k now q ds v =
      and_then (saveProgress u q p t c now v) (\<lambda>_ w1. if \<not> c then ret ds w1
        else and_then (completeQuest u q now w1) (\<lambda>d w2. ret (ds @ [d]) w2))"
  show ?thesis unfolding shape
    by (intro gameGrows_and_then saveProgress_grows g) (simp add: completeQuest_grows)
qed simp

lemma gameStep_grows: "gameGrows w (gameStep x w)"
proof (cases x)
  case (OnTrigger p now)
  have "gameGrows w (snd (triggerQuest p now w))" unfolding triggerQuest_def
    by (rule inv_for_each [where P = "gameGrows w"]) (simp_all add: advanceQuest_grows)
  then show ?thesis by (simp add: OnTrigger onTrigger_def)
next
  case (ToggleShowcase u b s)
  then show ?thesis using toggleShowcase_writes [of u b s w] by (auto simp: gameGrows_def)
next
  case RegisterGameGateway
  then show ?thesis by (simp add: registerGameGateway_def gameGrows_def)
qed

lemma gameDisconnect_all:
  "fold gameDisconnect is w = w\<lparr>gameSockets := filter (\<lambda>s. sk_id s \<notin> set is) (gameSockets w)\<rparr>"
  by (induction "is" arbitrary: w) (simp_all add: gameDisconnect_def dropSocket_def conj_commute)

lemma gameFeed_step:
  "(\<exists>now ms. gameOut (gameFeedStep env x w) = gameOut w @ ms \<and>
      gameSockets (gameFeedStep env x w) = sendMail (concat (map (questMail now) ms)) (gameSockets w)) \<or>
   gameOut (gameFeedStep env x w) = gameOut w \<and>
     ((\<exists>i u name. gameSockets (gameFeedStep env x w) = connectSocket i u name (gameSockets w)) \<or>
      (\<exists>P. gameSockets (gameFeedStep env x w) = filter P (gameSockets w)))"
proof (cases x)
  case (GameCall y)
  obtain ms where new: "gameSockets (gameStep y w) = gameSockets w" "gameOut (gameStep y w) = gameOut w @ ms"
    using gameStep_grows [of w y] by (auto simp: gameGrows_def)
  show ?thesis unfolding GameCall
    by (rule disjI1, rule exI [of _ 0], rule exI [of _ ms]) (simp add: withGameFeed_def Let_def fold_mail [of _ _ 0] new)
next
  case (GameInit b)
  then show ?thesis by (intro disjI2 conjI disjI2 exI [of _ "\<lambda>s. True"]) (simp_all add: gameInit_def registerGameGateway_def)
next
  case (GameConnect i a h now)
  have stay: "\<exists>P. t = filter P t" for t :: "gameEvent socket list" by (rule exI [of _ "\<lambda>s. True"]) simp
  show ?thesis unfolding GameConnect
    by (rule disjI2) (auto simp: gameConnection_def stay split: sum.split)
next
  case (GameDisconnect i)
  then show ?thesis by (intro disjI2) (auto simp: gameDisconnect_def dropSocket_def)
next
  case (GameDestroy now)
  then show ?thesis
    by (intro disjI2 conjI disjI2 exI [of _ "\<lambda>s. False"]) (auto simp: gameDestroy_def gameDisconnect_all emitAll_def filter_empty_conv)
qed

interpretation toasts: user_feed gameOut gameSockets questMail "gameFeedStep env" for env
  by unfold_locales (rule gameFeed_step)

section \<open>Properties\<close>

text \<open>The toast of the completion of quest \<open>q\<close>.\<close>

fun toastOf :: "uid \<Rightarrow> gameEvent \<Rightarrow> bool" where
  "toastOf q (QuestCompleted q' c n xp l t) \<longleftrightarrow> q' = q"
| "toastOf q e \<longleftrightarrow> False"

lemma toast_mail: "countRows (toastOf q) (mailOf u (questMail now m)) \<le> (if announces u q m then 1 else 0)"
  by (cases m) (auto simp: mailOf_def)

text \<open>What the service does on the feed is what it does without it.\<close>

lemma feed_once:
  "onceInv (gameView w) \<and> quests w = qs \<Longrightarrow> onceInv (gameView (gameFeedStep env x w)) \<and> quests (gameFeedStep env x w) = qs"
proof (cases x)
  case (GameCall y)
  assume "onceInv (gameView w) \<and> quests w = qs"
  from game_once.step_inv [OF this, of y] show ?thesis
    by (auto simp: GameCall withGameFeed_def Let_def gameView_def)
next
  case (GameConnect i a h now)
  assume "onceInv (gameView w) \<and> quests w = qs"
  then show ?thesis by (auto simp: GameConnect gameConnection_def gameView_def split: sum.split)
qed (auto simp: gameInit_def registerGameGateway_def gameDisconnect_def gameDestroy_def gameDisconnect_all gameView_def)

interpretation feed_once: invariant_system "gameFeedStep env" "\<lambda>w. onceInv (gameView w) \<and> quests w = qs" for env qs
  by unfold_locales (rule feed_once)

text \<open>The same for the experience: what the sockets do pays nobody.\<close>

fun feedRepeatable :: "uid \<Rightarrow> quest list \<Rightarrow> gameFeedOp \<Rightarrow> int" where
  "feedRepeatable u qs (GameCall x) = repeatable u qs x"
| "feedRepeatable u qs x = 0"

lemma balanced_sockets:
  "users v = users w \<Longrightarrow> quests v = quests w \<Longrightarrow> questProgresses v = questProgresses w \<Longrightarrow> balanced u 0 w v"
  by (simp add: balanced_def experience_cong [of v w])

lemma feed_balanced:
  assumes "unique qu_id (quests w)" and "\<forall>q \<in> set (quests w). 0 \<le> qu_xpReward q"
  shows "balanced u (feedRepeatable u (quests w) x) w (gameFeedStep env x w)"
proof (cases x)
  case (GameCall y)
  have "balanced u 0 (gameStep y w) (gameFeedStep env x w)"
    by (rule balanced_sockets) (simp_all add: GameCall withGameFeed_def Let_def)
  from balanced_trans [OF gameStep_balanced [OF assms] this] show ?thesis by (simp add: GameCall)
next
  case (GameConnect i a h now)
  then show ?thesis by (auto simp: gameConnection_def split: sum.split intro!: balanced_sockets)
qed (auto simp: gameInit_def registerGameGateway_def gameDisconnect_def gameDestroy_def gameDisconnect_all intro!: balanced_sockets)

lemma feed_run_balanced:
  assumes "unique qu_id (quests w)" and "\<forall>q \<in> set (quests w). 0 \<le> qu_xpReward q"
  shows "balanced u (sum_list (map (feedRepeatable u (quests w)) xs)) w (fold (gameFeedStep env) xs w)"
  using assms
proof (induction xs arbitrary: w)
  case Nil
  then show ?case by (simp add: balanced_refl)
next
  case (Cons x xs)
  note step = feed_balanced [OF Cons.prems, of u x env]
  then have "quests (gameFeedStep env x w) = quests w" by (simp add: balanced_def)
  then show ?case using balanced_trans [OF step Cons.IH [of "gameFeedStep env x w"]] Cons.prems by simp
qed

text \<open>
  C11: a quest that is not repeatable pays and is announced at most once to each user, however
  often its trigger arrives and wherever a run fails. In any history the experience of a user
  grows by at most what the one-shot quests are worth whose completion was recorded in it, once each,
  and, for each trigger of his, the repeatable quests of that trigger; at most one completion is
  broadcast for a user and a one-shot quest, and however his devices come and go, no device is
  sent its toast twice.
\<close>

theorem one_shot_toast_once:
  assumes "unique qu_id (quests w)" and "gameOut w = []" and "gameSockets w = []" and "q \<in> set (quests w)"
    and "\<not> qu_repeatable q" and "v = fold (gameFeedStep env) xs w" and "\<forall>r \<in> set (quests w). 0 \<le> qu_xpReward r"
  shows "countRows (announces u (qu_id q)) (gameOut v) \<le> 1 \<and>
    (\<forall>s \<in> set (gameSockets v). countRows (toastOf (qu_id q)) (sk_inbox s) \<le> 1) \<and>
    experience u v + worth (oneShotsDone u (quests w) (questProgresses w)) \<le>
      experience u w + worth (oneShotsDone u (quests w) (questProgresses v)) +
      sum_list (map (feedRepeatable u (quests w)) xs)"
proof -
  have "onceInv (gameView w) \<and> quests w = quests w" using assms(1,2) by (simp add: onceInv.simps gameView_def)
  from feed_once.run_inv [OF this, of env xs] have v: "onceInv (gameView v)" "q \<in> set (quests v)"
    using assms(4) unfolding assms(6) by simp_all
  note once = once_announced [OF v assms(5)]
  have "countRows (toastOf (qu_id q)) (sk_inbox s) \<le> 1" if "s \<in> set (gameSockets v)" for s
    using toasts.heard_once [OF assms(3) toast_mail, of s env xs "qu_id q"] that once [of "sk_userId s"] unfolding assms(6)
    by linarith
  moreover have "balanced u (sum_list (map (feedRepeatable u (quests w)) xs)) w v"
    unfolding assms(6) by (rule feed_run_balanced [OF assms(1,7)])
  ultimately show ?thesis using once by (auto simp: balanced_def)
qed

section \<open>A sample\<close>

definition sampleFeed :: "quest list \<Rightarrow> game_feed_db" where
  "sampleFeed qs = game_db.extend (sampleGame qs) \<lparr>gameSockets = []\<rparr>"

definition sampleTokens :: guard_env where
  "sampleTokens =
     \<lparr>gv_verifyAccess = (\<lambda>now t. Some \<lparr>ap_sub = t, ap_username = t, ap_role = None, ap_typ = ''other''\<rparr>),
      gv_hmac = (\<lambda>secret text. []), gv_secret = None\<rparr>"

text \<open>\<open>a\<close> has two devices, and the second connects after the completion; then the trigger comes again.\<close>

definition twoDevices :: "gameFeedOp list" where
  "twoDevices = [GameConnect ''s1'' (Some ''a'') None 1, GameCall (samplePost ''a'' 2),
     GameConnect ''s2'' (Some ''a'') None 3, GameCall (samplePost ''a'' 4)]"

theorem one_shot_toast_once_witness:
  "map (\<lambda>s. countRows (toastOf ''q'') (sk_inbox s)) (gameSockets (fold (gameFeedStep sampleTokens) twoDevices (sampleFeed [sampleQuest ''q'' 1 False]))) =
     [1, 0] \<and>
   countRows (announces ''a'' ''q'') (gameOut (fold (gameFeedStep sampleTokens) twoDevices (sampleFeed [sampleQuest ''q'' 1 False]))) = 1 \<and>
   experience ''a'' (fold (gameFeedStep sampleTokens) twoDevices (sampleFeed [sampleQuest ''q'' 1 False])) = 60"
proof -
  let ?w = "sampleFeed [sampleQuest ''q'' 1 False]"
  let ?v = "fold (gameFeedStep sampleTokens) twoDevices ?w"
  have q: "unique qu_id (quests ?w)" "gameOut ?w = []" "gameSockets ?w = []" "sampleQuest ''q'' 1 False \<in> set (quests ?w)"
    "\<not> qu_repeatable (sampleQuest ''q'' 1 False)" "\<forall>r \<in> set (quests ?w). 0 \<le> qu_xpReward r" "qu_id (sampleQuest ''q'' 1 False) = ''q''"
    by (simp_all add: sampleFeed_def sampleGame_def sampleQuest_def core_db.defs game_db.defs)
  note once = one_shot_toast_once [OF q(1-5) refl q(6), of "''a''" sampleTokens twoDevices, unfolded q(7)]
  have "map (\<lambda>s. countRows (toastOf ''q'') (sk_inbox s)) (gameSockets ?v) = [1, 0]" by code_simp
  moreover have "0 < countRows (announces ''a'' ''q'') (gameOut ?v)" by code_simp
  moreover have "worth (oneShotsDone ''a'' (quests ?w) (questProgresses ?w)) = 0" "worth (oneShotsDone ''a'' (quests ?w) (questProgresses ?v)) = 60"
    "sum_list (map (feedRepeatable ''a'' (quests ?w)) twoDevices) = 0" "experience ''a'' ?w = 0" "60 \<le> experience ''a'' ?v" by code_simp+
  ultimately show ?thesis using once by linarith
qed

text \<open>
  The handshake of this namespace lets in a bearer of any token that verifies, whatever its type, which
  the other gateways refuse. (Only access tokens are signed with that secret.)
\<close>

lemma any_token_connects:
  "wsHandshake sampleTokens False (Some ''a'') None 1 = Inr (''a'', ''a'') \<and>
   wsHandshake sampleTokens True (Some ''a'') None 1 = Inl ''token_type''"
  by (simp add: wsHandshake_def truthy_def sampleTokens_def)

end
