(* ===== verification/Dashboard.thy ===== *)
theory Dashboard
  imports Posts Stories Messaging Moderation Emergency Party Location Media Account
begin

text \<open>
  \<open>AdminService.dashboardSnapshot\<close>: the counts that the administration shows. It reads the tables
  of ten services, here the fields of a record.
\<close>

record tables =
  tb_users :: "user list"
  tb_deletions :: "accountDeletion list"
  tb_posts :: "post list"
  tb_stories :: "story list"
  tb_messages :: "message list"
  tb_reports :: "report list"
  tb_alerts :: "alert list"
  tb_parties :: "party list"
  tb_sessions :: "liveSession list"
  tb_assets :: "mediaAsset list"

record dashboard =
  db_timestamp :: time
  db_total :: nat
  db_active24h :: nat
  db_banned :: nat
  db_pendingDeletion :: nat
  db_postsLast24h :: nat
  db_storiesLast24h :: nat
  db_messagesLast24h :: nat
  db_openReports :: nat
  db_emergencyAlertsOpen :: nat
  db_rateLimitedSos24h :: nat
  db_activeParties :: nat
  db_activeRideSessions :: nat
  db_mediaAssetsProcessing :: nat

definition dashboardSnapshot :: "time \<Rightarrow> tables \<Rightarrow> dashboard" where
  "dashboardSnapshot now t =
     (let since24h = now - 24 * 60 * 60 * 1000
      in \<lparr>db_timestamp = now,
          db_total = countRows (\<lambda>u. u_deletedAt u = None) (tb_users t),
          db_active24h = countRows (\<lambda>u. case u_lastSeenAt u of None \<Rightarrow> False | Some s \<Rightarrow> since24h \<le> s) (tb_users t),
          db_banned = countRows u_isBanned (tb_users t),
          db_pendingDeletion = countRows (\<lambda>d. de_executedAt d = None \<and> de_cancelledAt d = None) (tb_deletions t),
          db_postsLast24h = countRows (\<lambda>p. since24h \<le> p_createdAt p) (tb_posts t),
          db_storiesLast24h = countRows (\<lambda>s. since24h \<le> sy_createdAt s) (tb_stories t),
          db_messagesLast24h = countRows (\<lambda>m. since24h \<le> ms_createdAt m) (tb_messages t),
          db_openReports = countRows (\<lambda>r. re_status r = RS_PENDING) (tb_reports t),
          db_emergencyAlertsOpen = countRows (\<lambda>a. al_status a \<in> {A_OPEN, A_ACKNOWLEDGED}) (tb_alerts t),
          db_rateLimitedSos24h = 0,
          db_activeParties = countRows (\<lambda>p. pt_status p \<in> {P_WAITING, P_RIDING, P_PAUSED}) (tb_parties t),
          db_activeRideSessions = countRows ls_isActive (tb_sessions t),
          db_mediaAssetsProcessing = countRows (\<lambda>a. ma_status a = PROCESSING) (tb_assets t)\<rparr>)"

section \<open>The counts agree with the invariants\<close>

lemma count_ids: "unique key t \<Longrightarrow> countRows P t = card (key ` {r \<in> set t. P r})"
proof (induction t)
  case (Cons r t)
  then have "key r \<notin> key ` {x \<in> set t. P x}" by auto
  moreover have "{x \<in> set (r # t). P x} = (if P r then insert r {x \<in> set t. P x} else {x \<in> set t. P x})" by auto
  ultimately show ?case using Cons by (simp add: countRows_def)
qed (simp add: countRows_def)

lemma split_count: "countRows P t + countRows (\<lambda>r. \<not> P r) t = length t"
  by (induction t) (simp_all add: countRows_def)

lemma marked_are_pending:
  assumes "deletionInv w"
  shows "countRows (\<lambda>u. u_deletedAt u \<noteq> None) (users w) = countRows pendingDeletion (accountDeletions w)"
proof -
  have u: "unique u_id (users w)" and l: "lifeOk (mark w) (accountDeletions w)"
    using assms by (simp_all only: deletionInv_def)
  have d: "unique de_userId (accountDeletions w)" using l by (simp only: lifeOk_def)
  have known: "findUser (de_userId x) w \<noteq> None" if "x \<in> set (accountDeletions w)" for x
    using l that by (simp add: lifeOk_def mark_def)
  have marked: "(u_deletedAt r \<noteq> None) = isPending (accountDeletions w) i" if "findUser i w = Some r" for i r
  proof -
    have "mark w i = Some (u_deletedAt r)" by (simp add: mark_def that)
    then show ?thesis using l unfolding lifeOk_def by blast
  qed
  have find: "findUser (u_id r) w = Some r" if "r \<in> set (users w)" for r
    using findUnique_iff [OF u, of "u_id r" r] that by (simp only: findUser_def)
  have "u_id ` {r \<in> set (users w). u_deletedAt r \<noteq> None} = de_userId ` {x \<in> set (accountDeletions w). pendingDeletion x}"
  proof (intro set_eqI iffI)
    fix i
    assume "i \<in> u_id ` {r \<in> set (users w). u_deletedAt r \<noteq> None}"
    then obtain r where "r \<in> set (users w)" "u_deletedAt r \<noteq> None" "i = u_id r" by blast
    then have "isPending (accountDeletions w) i" using marked [OF find] by blast
    then show "i \<in> de_userId ` {x \<in> set (accountDeletions w). pendingDeletion x}" by (auto simp: isPending_def)
  next
    fix i
    assume "i \<in> de_userId ` {x \<in> set (accountDeletions w). pendingDeletion x}"
    then obtain x where x: "x \<in> set (accountDeletions w)" "pendingDeletion x" "de_userId x = i" by blast
    then obtain r where r: "findUser i w = Some r" using known by blast
    then have "u_deletedAt r \<noteq> None" using marked x by (auto simp: isPending_def)
    moreover have "r \<in> set (users w) \<and> u_id r = i" using r unfolding findUser_def by (rule findUnique_Some)
    ultimately show "i \<in> u_id ` {r \<in> set (users w). u_deletedAt r \<noteq> None}" by blast
  qed
  then show ?thesis by (simp only: count_ids [OF u] count_ids [OF d])
qed

lemma open_are_indexed:
  assumes "partyInv w"
  shows "countRows (\<lambda>r. pt_status r \<noteq> P_ENDED) (parties w) = length (rd_activeParties w)"
proof -
  note m = mirroredD [OF assms [unfolded partyInv_def]]
  have "pt_id ` {r \<in> set (parties w). pt_status r \<noteq> P_ENDED} = set (rd_activeParties w)"
    by (intro set_eqI) (simp add: m(8) openIn_def image_iff, blast)
  then show ?thesis by (simp only: count_ids [OF m(1)] distinct_card [OF m(9)])
qed

text \<open>
  After any history of the accounts and of the parties, the users that the dashboard counts
  and the pending deletions it counts are together all accounts, and the parties it counts as active
  are as many as Redis keeps in the index of active parties.
\<close>

theorem dashboard_agrees:
  assumes "deletionInv wa" and "va = fold (accountStep env isoDate) as wa" and "partyInv wp" and "vp = fold partyStep ps wp"
    and "tb_users t = users va" and "tb_deletions t = accountDeletions va" and "tb_parties t = parties vp"
    and "d = dashboardSnapshot now t"
  shows "db_total d + db_pendingDeletion d = length (users va) \<and> db_activeParties d = length (rd_activeParties vp)"
proof -
  have "deletionInv va" unfolding assms(2) by (rule deletions.run_inv [OF assms(1)])
  from marked_are_pending [OF this]
  have "db_total d + db_pendingDeletion d = length (users va)"
    using split_count [of "\<lambda>u. u_deletedAt u = None" "users va"] assms(5,6,8)
    by (simp add: dashboardSnapshot_def Let_def pendingDeletion_def [abs_def])
  moreover have "db_activeParties d = countRows (\<lambda>r. pt_status r \<noteq> P_ENDED) (parties vp)"
  proof -
    have "(p = P_WAITING \<or> p = P_RIDING \<or> p = P_PAUSED) = (p \<noteq> P_ENDED)" for p by (cases p) simp_all
    then show ?thesis using assms(7,8) by (simp add: dashboardSnapshot_def Let_def)
  qed
  moreover have "partyInv vp" unfolding assms(4) using assms(3) by (rule party.run_inv)
  ultimately show ?thesis using open_are_indexed by metis
qed

abbreviation sampleAccounts :: account_db where
  "sampleAccounts \<equiv> fold (accountStep sampleEnv sampleIso) [RequestDeletion ''a'' None True 7] sampleAccount"

definition sampleTables :: tables where
  "sampleTables = \<lparr>tb_users = users sampleAccounts, tb_deletions = accountDeletions sampleAccounts,
     tb_posts = [], tb_stories = [], tb_messages = [], tb_reports = [], tb_alerts = [],
     tb_parties = parties (fold partyStep [LeaveParty ''a'' [] LEFT 30] sampleRide), tb_sessions = [], tb_assets = []\<rparr>"

theorem dashboard_agrees_witness:
  "db_total (dashboardSnapshot 100 sampleTables) + db_pendingDeletion (dashboardSnapshot 100 sampleTables) = 3"
proof -
  have "length (users sampleAccounts) = 3" by code_simp
  moreover have "tb_users sampleTables = users sampleAccounts" "tb_deletions sampleTables = accountDeletions sampleAccounts"
    "tb_parties sampleTables = parties (fold partyStep [LeaveParty ''a'' [] LEFT 30] sampleRide)"
    by (simp_all add: sampleTables_def)
  ultimately show ?thesis using dashboard_agrees [OF sampleAccount_inv refl sampleRide_inv refl, of sampleTables] by metis
qed

end
