(* ===== verification/Mobile_Session.thy ===== *)
theory Mobile_Session
  imports Auth Text_Search
begin

text \<open>
  The session on the phone, against the service that it talks to: \<open>lib/api-client.ts\<close> with its single
  refresh in flight, \<open>lib/storage.ts\<close> (the three keys of the session) and \<open>store/auth.store.ts\<close> of the mobile
  application. A request is cut at its awaits; what runs between two awaits is one step, and
  the continuations of a settled refresh run before the next reply is handled, as the event loop does.
\<close>

section \<open>State\<close>

record storageKeys =
  ks_userId :: "uid option"
  ks_accessToken :: "string option"
  ks_refreshToken :: "string option"

record authState =
  as_userId :: "uid option"
  as_accessToken :: "string option"
  as_refreshToken :: "string option"
  as_isHydrated :: bool

text \<open>
  Where an \<open>apiRequest\<close> stands: the first fetch with its bearer token, waiting for \<open>refreshInFlight\<close>, the
  second fetch, or ended with the status of its response (none when fetch throws).
\<close>

datatype callStage =
    FirstTry "string option"
  | AwaitRefresh
  | SecondTry "string option"
  | Ended "nat option"

record apiCall =
  ac_id :: nat
  ac_skipAuth :: bool
  ac_stage :: callStage

text \<open>The refresh in flight: its token is on the way, or the service has answered.\<close>

datatype flight =
    OnTheWay string
  | Replied "tokenPair option"

record phone_db = auth_db +
  phoneKeys :: storageKeys
  authStore :: authState
  apiCalls :: "apiCall list"
  refreshInFlight :: "flight option"
  sentRefresh :: "string list"
  loginReply :: "session option"

section \<open>auth.store.ts\<close>

definition hydrate :: "'a phone_db_scheme \<Rightarrow> 'a phone_db_scheme" where
  "hydrate w = w\<lparr>authStore := \<lparr>as_userId = ks_userId (phoneKeys w), as_accessToken = ks_accessToken (phoneKeys w),
     as_refreshToken = ks_refreshToken (phoneKeys w), as_isHydrated = True\<rparr>\<rparr>"

definition setSession :: "uid \<Rightarrow> tokenPair \<Rightarrow> 'a phone_db_scheme \<Rightarrow> 'a phone_db_scheme" where
  "setSession userId tokens w =
     w\<lparr>phoneKeys := \<lparr>ks_userId = Some userId, ks_accessToken = Some (accessToken tokens), ks_refreshToken = Some (refreshToken tokens)\<rparr>,
       authStore := (authStore w)\<lparr>as_userId := Some userId, as_accessToken := Some (accessToken tokens),
         as_refreshToken := Some (refreshToken tokens)\<rparr>\<rparr>"

definition noKeys :: storageKeys where
  "noKeys = \<lparr>ks_userId = None, ks_accessToken = None, ks_refreshToken = None\<rparr>"

definition clearSession :: "'a phone_db_scheme \<Rightarrow> 'a phone_db_scheme" where
  "clearSession w =
     w\<lparr>phoneKeys := noKeys,
       authStore := (authStore w)\<lparr>as_userId := None, as_accessToken := None, as_refreshToken := None\<rparr>\<rparr>"

definition isAuthenticated :: "'a phone_db_scheme \<Rightarrow> bool" where
  "isAuthenticated w \<longleftrightarrow> truthy (as_accessToken (authStore w)) \<noteq> None \<and> truthy (as_userId (authStore w)) \<noteq> None"

section \<open>api-client.ts\<close>

text \<open>The header of \<open>doRequest\<close>.\<close>

definition bearer :: "bool \<Rightarrow> 'a phone_db_scheme \<Rightarrow> string option" where
  "bearer skipAuth w = (if skipAuth then None else truthy (ks_accessToken (phoneKeys w)))"

definition startRequest :: "nat \<Rightarrow> bool \<Rightarrow> 'a phone_db_scheme \<Rightarrow> 'a phone_db_scheme" where
  "startRequest i skipAuth w =
     (if i \<in> ac_id ` set (apiCalls w) then w
      else w\<lparr>apiCalls := apiCalls w @ [\<lparr>ac_id = i, ac_skipAuth = skipAuth, ac_stage = FirstTry (bearer skipAuth w)\<rparr>]\<rparr>)"

definition moveCall :: "nat \<Rightarrow> callStage \<Rightarrow> 'a phone_db_scheme \<Rightarrow> 'a phone_db_scheme" where
  "moveCall i st w = w\<lparr>apiCalls := map (\<lambda>c. if ac_id c = i then c\<lparr>ac_stage := st\<rparr> else c) (apiCalls w)\<rparr>"

text \<open>\<open>tryRefresh\<close>: whether there is a refresh to wait for; without a token it is null at once.\<close>

definition tryRefresh :: "'a phone_db_scheme \<Rightarrow> bool \<times> 'a phone_db_scheme" where
  "tryRefresh w =
     (if refreshInFlight w \<noteq> None then (True, w)
      else case truthy (ks_refreshToken (phoneKeys w)) of
             None \<Rightarrow> (False, w)
           | Some t \<Rightarrow> (True, w\<lparr>refreshInFlight := Some (OnTheWay t), sentRefresh := sentRefresh w @ [t]\<rparr>))"

definition deleteKeys :: "'a phone_db_scheme \<Rightarrow> 'a phone_db_scheme" where
  "deleteKeys w = w\<lparr>phoneKeys := noKeys\<rparr>"

text \<open>The response of the first fetch.\<close>

definition firstReply :: "nat \<Rightarrow> nat option \<Rightarrow> 'a phone_db_scheme \<Rightarrow> 'a phone_db_scheme" where
  "firstReply i status w =
     (case find (\<lambda>c. ac_id c = i) (apiCalls w) of
        Some c \<Rightarrow>
          (case ac_stage c of
             FirstTry b \<Rightarrow>
               if status = Some 401 \<and> \<not> ac_skipAuth c
               then let (pending, w1) = tryRefresh w
                    in if pending then moveCall i AwaitRefresh w1 else moveCall i (Ended (Some 401)) (deleteKeys w1)
               else moveCall i (Ended status) w
           | _ \<Rightarrow> w)
      | None \<Rightarrow> w)"

definition secondReply :: "nat \<Rightarrow> nat option \<Rightarrow> 'a phone_db_scheme \<Rightarrow> 'a phone_db_scheme" where
  "secondReply i status w =
     (case find (\<lambda>c. ac_id c = i) (apiCalls w) of
        Some c \<Rightarrow> (case ac_stage c of SecondTry b \<Rightarrow> moveCall i (Ended status) w | _ \<Rightarrow> w)
      | None \<Rightarrow> w)"

text \<open>
  The end of the refresh: the pair is stored and every waiting request is repeated, or (a status
  other than 2xx, or an exception) every waiting request deletes the keys and ends with its 401.
\<close>

definition settleRefresh :: "tokenPair option \<Rightarrow> 'a phone_db_scheme \<Rightarrow> 'a phone_db_scheme" where
  "settleRefresh result w =
     (let awaiting = filter (\<lambda>c. ac_stage c = AwaitRefresh) (apiCalls w);
          w1 = w\<lparr>refreshInFlight := None\<rparr>
      in case result of
           Some p \<Rightarrow>
             let w2 = w1\<lparr>phoneKeys := (phoneKeys w)\<lparr>ks_accessToken := Some (accessToken p), ks_refreshToken := Some (refreshToken p)\<rparr>\<rparr>
             in fold (\<lambda>c x. moveCall (ac_id c) (SecondTry (bearer (ac_skipAuth c) x)) x) awaiting w2
         | None \<Rightarrow> fold (\<lambda>c x. moveCall (ac_id c) (Ended (Some 401)) (deleteKeys x)) awaiting w1)"

text \<open>The service handles the refresh that is on the way; its answer, or the loss of either message.\<close>

definition serveRefresh :: "auth_env \<Rightarrow> time \<Rightarrow> 'a phone_db_scheme \<Rightarrow> 'a phone_db_scheme" where
  "serveRefresh env now w =
     (case refreshInFlight w of
        Some (OnTheWay t) \<Rightarrow>
          (let (r, w1) = refresh env t now w
           in w1\<lparr>refreshInFlight := Some (Replied (case r of Inl e \<Rightarrow> None | Inr p \<Rightarrow> Some p))\<rparr>)
      | _ \<Rightarrow> w)"

definition refreshArrives :: "bool \<Rightarrow> 'a phone_db_scheme \<Rightarrow> 'a phone_db_scheme" where
  "refreshArrives lost w =
     (case refreshInFlight w of
        None \<Rightarrow> w
      | Some (OnTheWay t) \<Rightarrow> if lost then settleRefresh None w else w
      | Some (Replied r) \<Rightarrow> settleRefresh (if lost then None else r) w)"

section \<open>Signing in\<close>

text \<open>
  The screen sends one login at a time; on success it calls \<open>setSession\<close>. Signing out is \<open>clearSession\<close>.
\<close>

definition sendLogin :: "auth_env \<Rightarrow> string \<Rightarrow> string \<Rightarrow> time \<Rightarrow> 'a phone_db_scheme \<Rightarrow> 'a phone_db_scheme" where
  "sendLogin env ident password now w =
     (if loginReply w \<noteq> None then w
      else let (r, w1) = login env ident password now w
           in case r of Inl e \<Rightarrow> w1 | Inr s \<Rightarrow> w1\<lparr>loginReply := Some s\<rparr>)"

definition loginArrives :: "bool \<Rightarrow> 'a phone_db_scheme \<Rightarrow> 'a phone_db_scheme" where
  "loginArrives lost w =
     (case loginReply w of
        None \<Rightarrow> w
      | Some s \<Rightarrow> let w1 = w\<lparr>loginReply := None\<rparr> in if lost then w1 else setSession (se_userId s) (se_tokens s) w1)"

section \<open>Histories\<close>

text \<open>\<open>Elsewhere\<close> is any call of the authentication service by anybody.\<close>

datatype phoneOp =
    StartRequest nat bool
  | FirstReply nat "nat option"
  | SecondReply nat "nat option"
  | ServeRefresh time
  | RefreshArrives bool
  | SendLogin string string time
  | LoginArrives bool
  | ClearSession
  | Hydrate
  | Elsewhere authOp

fun phoneStep :: "auth_env \<Rightarrow> phoneOp \<Rightarrow> 'a phone_db_scheme \<Rightarrow> 'a phone_db_scheme" where
  "phoneStep env (StartRequest i skip) w = startRequest i skip w"
| "phoneStep env (FirstReply i st) w = firstReply i st w"
| "phoneStep env (SecondReply i st) w = secondReply i st w"
| "phoneStep env (ServeRefresh now) w = serveRefresh env now w"
| "phoneStep env (RefreshArrives lost) w = refreshArrives lost w"
| "phoneStep env (SendLogin i p now) w = sendLogin env i p now w"
| "phoneStep env (LoginArrives lost) w = loginArrives lost w"
| "phoneStep env ClearSession w = clearSession w"
| "phoneStep env Hydrate w = hydrate w"
| "phoneStep env (Elsewhere x) w = authStep env x w"

section \<open>What the service leaves of the phone\<close>

definition phoneView :: "'a phone_db_scheme \<Rightarrow> storageKeys \<times> authState \<times> apiCall list \<times> flight option \<times> string list \<times> session option" where
  "phoneView w = (phoneKeys w, authStore w, apiCalls w, refreshInFlight w, sentRefresh w, loginReply w)"

definition served :: "'a phone_db_scheme \<Rightarrow> 'a phone_db_scheme \<Rightarrow> bool" where
  "served w v \<longleftrightarrow> phoneView v = phoneView w \<and> uuidSeq v = uuidSeq w \<and> uuidNext w \<le> uuidNext v"

lemma served_issue: "served w v \<Longrightarrow> served w (snd (issueTokenPair env u n r now v))"
  by (simp add: served_def phoneView_def issueTokenPair_def Let_def takeUuid_def)

interpretation service: auth_writes "served w" for w :: "'a phone_db_scheme"
  by unfold_locales
     (simp_all add: served_issue, simp_all add: served_def phoneView_def takeRnd_def takeUuid_def revokeRefresh_def revokeAllForUser_def case_prod_beta)

lemma served_refl: "served w w"
  by (simp add: served_def)

text \<open>A pair that the service hands out has a refresh token made from the uuid it drew.\<close>

definition madeBetween :: "auth_env \<Rightarrow> 'a phone_db_scheme \<Rightarrow> 'a phone_db_scheme \<Rightarrow> string \<Rightarrow> bool" where
  "madeBetween env w v t \<longleftrightarrow> (\<exists>u i now. uuidNext w \<le> i \<and> i < uuidNext v \<and> t = signRefresh env u (uuidSeq w i) now)"

lemma madeI:
  "uuidNext w < uuidNext v \<Longrightarrow> madeBetween env w v (signRefresh env u (uuidSeq w (uuidNext w)) now)"
  unfolding madeBetween_def by blast

lemma issue_made:
  assumes "issueTokenPair env u n r now w = (p, v)" shows "madeBetween env w v (refreshToken p)"
proof -
  have "refreshToken p = signRefresh env u (uuidSeq w (uuidNext w)) now" "uuidNext w < uuidNext v"
    using assms by (auto simp: issueTokenPair_def Let_def takeUuid_def newUuid_def)
  then show ?thesis using madeI by simp
qed

lemma refresh_made:
  assumes "refresh env t now w = (Inr p, v)" shows "madeBetween env w v (refreshToken p)"
proof -
  obtain u :: user and q :: refreshPayload where "issueTokenPair env (u_id u) (u_username u) (u_role u) now (revokeRefresh (rf_sub q) (rf_jti q) w) = (p, v)"
    using refresh_success [OF assms] by metis
  from issue_made [OF this] show ?thesis by (simp add: madeBetween_def revokeRefresh_def)
qed

lemma login_made:
  assumes "login env i pw now w = (Inr s, v)" shows "madeBetween env w v (refreshToken (se_tokens s))"
proof -
  obtain u :: user where "openSession env u now w = (Inr s, v)" using login_effect [OF assms] by blast
  then have "refreshToken (se_tokens s) = signRefresh env (u_id u) (uuidSeq w (uuidNext w)) now" "uuidNext w < uuidNext v"
    by (auto simp: openSession_def updateUser_cases issueTokenPair_def Let_def ret_def emitEvent_def takeUuid_def newUuid_def
        split: if_splits)
  then show ?thesis using madeI by simp
qed

section \<open>The invariant\<close>

text \<open>The refresh tokens in storage, and those in answers that have not arrived.\<close>

definition heldTokens :: "'a phone_db_scheme \<Rightarrow> string list" where
  "heldTokens w = (case ks_refreshToken (phoneKeys w) of None \<Rightarrow> [] | Some t \<Rightarrow> [t])"

definition pendingTokens :: "'a phone_db_scheme \<Rightarrow> string list" where
  "pendingTokens w =
     (case refreshInFlight w of Some (Replied (Some p)) \<Rightarrow> [refreshToken p] | _ \<Rightarrow> []) @
     (case loginReply w of None \<Rightarrow> [] | Some s \<Rightarrow> [refreshToken (se_tokens s)])"

definition issued :: "auth_env \<Rightarrow> 'a phone_db_scheme \<Rightarrow> string \<Rightarrow> bool" where
  "issued env w t \<longleftrightarrow> (\<exists>u i now. i < uuidNext w \<and> t = signRefresh env u (uuidSeq w i) now)"

text \<open>Tokens that carry different uuids are different.\<close>

definition signsApart :: "auth_env \<Rightarrow> 'a core_db_scheme \<Rightarrow> bool" where
  "signsApart env w \<longleftrightarrow> (\<forall>u v i j s t. signRefresh env u (uuidSeq w i) s = signRefresh env v (uuidSeq w j) t \<longrightarrow> i = j)"

definition awaited :: "apiCall list \<Rightarrow> bool" where
  "awaited cs \<longleftrightarrow> (\<exists>c \<in> set cs. ac_stage c = AwaitRefresh)"

definition phoneInv :: "auth_env \<Rightarrow> 'a phone_db_scheme \<Rightarrow> bool" where
  "phoneInv env w \<longleftrightarrow>
     signsApart env w \<and> unique ac_id (apiCalls w) \<and> (refreshInFlight w \<noteq> None) = awaited (apiCalls w) \<and>
     distinct (sentRefresh w) \<and> distinct (pendingTokens w) \<and>
     set (pendingTokens w) \<inter> (set (sentRefresh w) \<union> set (heldTokens w)) = {} \<and>
     (refreshInFlight w = None \<longrightarrow> set (heldTokens w) \<inter> set (sentRefresh w) = {}) \<and>
     (\<forall>t \<in> set (sentRefresh w) \<union> set (pendingTokens w) \<union> set (heldTokens w). issued env w t)"

lemma phoneInv_served:
  assumes "phoneInv env w" and "served w v" shows "phoneInv env v"
proof -
  have same: "phoneKeys v = phoneKeys w" "apiCalls v = apiCalls w" "refreshInFlight v = refreshInFlight w"
    "sentRefresh v = sentRefresh w" "loginReply v = loginReply w" "uuidSeq v = uuidSeq w" "uuidNext w \<le> uuidNext v"
    using assms(2) by (simp_all add: served_def phoneView_def)
  have "issued env v t" if "issued env w t" for t
    using that same(6,7) unfolding issued_def by (metis order_less_le_trans)
  then show ?thesis using assms(1) unfolding phoneInv_def signsApart_def pendingTokens_def heldTokens_def same by blast
qed

text \<open>A token that is made now differs from all that were issued.\<close>

lemma made_new: "signsApart env w \<Longrightarrow> madeBetween env w v t \<Longrightarrow> \<not> issued env w t"
  unfolding signsApart_def madeBetween_def issued_def by (metis not_less)

lemma made_issued: "madeBetween env w v t \<Longrightarrow> uuidSeq v = uuidSeq w \<Longrightarrow> issued env v t"
  unfolding madeBetween_def issued_def by metis

lemma serve_step: "phoneInv env w \<Longrightarrow> phoneInv env (serveRefresh env now w)"
proof (cases "refreshInFlight w")
  case (Some f)
  assume inv: "phoneInv env w"
  show ?thesis
  proof (cases f)
    case (OnTheWay t)
    obtain r v where r: "refresh env t now w = (r, v)" by fastforce
    have "served w (snd (refresh env t now w))" by (rule service.P_refresh [OF served_refl])
    then have srv: "served w v" by (simp add: r)
    have inv_v: "phoneInv env v" by (rule phoneInv_served [OF inv srv])
    have same: "refreshInFlight v = Some (OnTheWay t)" "uuidSeq v = uuidSeq w" "loginReply v = loginReply w"
      "sentRefresh v = sentRefresh w" "phoneKeys v = phoneKeys w"
      using srv Some OnTheWay by (simp_all add: served_def phoneView_def)
    show ?thesis
    proof (cases r)
      case (Inl e)
      then show ?thesis using inv_v same(1)
        by (simp add: serveRefresh_def Some OnTheWay r phoneInv_def signsApart_def pendingTokens_def heldTokens_def issued_def)
    next
      case (Inr p)
      have made: "madeBetween env w v (refreshToken p)" using refresh_made r Inr by blast
      have "\<not> issued env w (refreshToken p)" by (rule made_new [OF _ made]) (use inv in \<open>simp add: phoneInv_def\<close>)
      then have "refreshToken p \<notin> set (sentRefresh w) \<union> set (pendingTokens w) \<union> set (heldTokens w)"
        using inv unfolding phoneInv_def by blast
      moreover have "issued env v (refreshToken p)" by (rule made_issued [OF made same(2)])
      ultimately show ?thesis using inv_v same
        by (simp add: serveRefresh_def Some OnTheWay r Inr phoneInv_def signsApart_def pendingTokens_def heldTokens_def issued_def)
    qed
  qed (use inv Some in \<open>simp add: serveRefresh_def\<close>)
qed (simp add: serveRefresh_def)

lemma sendLogin_step: "phoneInv env w \<Longrightarrow> phoneInv env (sendLogin env i pw now w)"
proof -
  assume inv: "phoneInv env w"
  obtain r v where r: "login env i pw now w = (r, v)" by fastforce
  have "served w (snd (login env i pw now w))" by (rule service.P_login [OF served_refl])
  then have srv: "served w v" by (simp add: r)
  have inv_v: "phoneInv env v" by (rule phoneInv_served [OF inv srv])
  have same: "refreshInFlight v = refreshInFlight w" "uuidSeq v = uuidSeq w" "loginReply v = loginReply w"
      "sentRefresh v = sentRefresh w" "phoneKeys v = phoneKeys w"
    using srv by (simp_all add: served_def phoneView_def)
  show ?thesis
  proof (cases r)
    case (Inr s)
    have made: "madeBetween env w v (refreshToken (se_tokens s))" using login_made r Inr by blast
    have "\<not> issued env w (refreshToken (se_tokens s))" by (rule made_new [OF _ made]) (use inv in \<open>simp add: phoneInv_def\<close>)
    then have "refreshToken (se_tokens s) \<notin> set (sentRefresh w) \<union> set (pendingTokens w) \<union> set (heldTokens w)"
      using inv unfolding phoneInv_def by blast
    moreover have "issued env v (refreshToken (se_tokens s))" by (rule made_issued [OF made same(2)])
    ultimately show ?thesis using inv_v inv same
      by (auto simp: sendLogin_def r Inr phoneInv_def signsApart_def pendingTokens_def heldTokens_def issued_def
          split: option.splits flight.splits)
  qed (use inv inv_v in \<open>simp add: sendLogin_def r\<close>)
qed

text \<open>The moves of the requests.\<close>

definition setStage :: "nat \<Rightarrow> callStage \<Rightarrow> apiCall list \<Rightarrow> apiCall list" where
  "setStage i st cs = map (\<lambda>c. if ac_id c = i then c\<lparr>ac_stage := st\<rparr> else c) cs"

lemma moveCall_calls: "moveCall i st w = w\<lparr>apiCalls := setStage i st (apiCalls w)\<rparr>"
  by (simp add: moveCall_def setStage_def)

lemma setStage_ids [simp]: "map ac_id (setStage i st cs) = map ac_id cs"
  by (induction cs) (simp_all add: setStage_def)

lemma awaited_set: "c \<in> set cs \<Longrightarrow> awaited (setStage (ac_id c) AwaitRefresh cs)"
  unfolding awaited_def setStage_def set_map by (rule bexI [of _ "c\<lparr>ac_stage := AwaitRefresh\<rparr>"]) (simp, force)

lemma awaited_leave:
  assumes "unique ac_id cs" and "c \<in> set cs" and "ac_stage c \<noteq> AwaitRefresh" and "st \<noteq> AwaitRefresh"
  shows "awaited (setStage (ac_id c) st cs) = awaited cs"
proof -
  have "ac_id d \<noteq> ac_id c" if "d \<in> set cs" "ac_stage d = AwaitRefresh" for d
    using unique_row [OF assms(1) that(1) assms(2)] that(2) assms(3) by auto
  then show ?thesis using assms(4) by (force simp: awaited_def setStage_def)
qed

lemma settle_calls:
  assumes "\<And>c. f c \<noteq> AwaitRefresh"
  shows "map ac_id (fold (\<lambda>c x. setStage (ac_id c) (f c) x) ds cs) = map ac_id cs \<and>
    (\<forall>c \<in> set (fold (\<lambda>c x. setStage (ac_id c) (f c) x) ds cs). ac_stage c = AwaitRefresh \<longrightarrow> c \<in> set cs \<and> ac_id c \<notin> ac_id ` set ds)"
proof (induction ds arbitrary: cs)
  case (Cons d ds)
  have "c \<in> set cs \<and> ac_id c \<noteq> ac_id d" if "c \<in> set (setStage (ac_id d) (f d) cs)" "ac_stage c = AwaitRefresh" for c
    using that assms by (auto simp: setStage_def split: if_splits)
  then show ?case using Cons [of "setStage (ac_id d) (f d) cs"] by auto
qed simp

lemma settle_ids [simp]: "map ac_id (fold (\<lambda>c x. setStage (ac_id c) (f c) x) ds cs) = map ac_id cs"
  by (induction ds arbitrary: cs) simp_all

lemma settled_all:
  assumes "\<And>c. f c \<noteq> AwaitRefresh"
  shows "\<not> awaited (fold (\<lambda>c x. setStage (ac_id c) (f c) x) (filter (\<lambda>c. ac_stage c = AwaitRefresh) cs) cs)"
proof
  assume "awaited (fold (\<lambda>c x. setStage (ac_id c) (f c) x) (filter (\<lambda>c. ac_stage c = AwaitRefresh) cs) cs)"
  then obtain c where c: "ac_stage c = AwaitRefresh"
    "c \<in> set (fold (\<lambda>c x. setStage (ac_id c) (f c) x) (filter (\<lambda>c. ac_stage c = AwaitRefresh) cs) cs)"
    unfolding awaited_def by blast
  have "c \<in> set cs \<and> ac_id c \<notin> ac_id ` set (filter (\<lambda>c. ac_stage c = AwaitRefresh) cs)"
    by (rule mp [OF bspec [OF conjunct2 [OF settle_calls [OF assms]] c(2)] c(1)])
  then show False using c(1) by (auto simp: image_iff)
qed

lemma settle_Some:
  "settleRefresh (Some p) w =
     w\<lparr>refreshInFlight := None,
       phoneKeys := (phoneKeys w)\<lparr>ks_accessToken := Some (accessToken p), ks_refreshToken := Some (refreshToken p)\<rparr>,
       apiCalls := fold (\<lambda>c x. setStage (ac_id c) (SecondTry (if ac_skipAuth c then None else truthy (Some (accessToken p)))) x)
         (filter (\<lambda>c. ac_stage c = AwaitRefresh) (apiCalls w)) (apiCalls w)\<rparr>"
proof -
  have same: "bearer b (v\<lparr>apiCalls := cs\<rparr>) = bearer b v" for b cs and v :: "'a phone_db_scheme"
    by (simp add: bearer_def)
  have loop: "fold (\<lambda>c x. moveCall (ac_id c) (SecondTry (bearer (ac_skipAuth c) x)) x) ds v =
      v\<lparr>apiCalls := fold (\<lambda>c x. setStage (ac_id c) (SecondTry (bearer (ac_skipAuth c) v)) x) ds (apiCalls v)\<rparr>"
    for ds and v :: "'a phone_db_scheme"
    by (induction ds arbitrary: v) (simp_all add: moveCall_calls same)
  have "bearer b (w\<lparr>refreshInFlight := None,
      phoneKeys := (phoneKeys w)\<lparr>ks_accessToken := Some (accessToken p), ks_refreshToken := Some (refreshToken p)\<rparr>\<rparr>) =
      (if b then None else truthy (Some (accessToken p)))" for b by (simp add: bearer_def)
  then show ?thesis by (simp add: settleRefresh_def Let_def loop)
qed

lemma settle_None:
  "settleRefresh None w =
     w\<lparr>refreshInFlight := None, phoneKeys := (if awaited (apiCalls w) then noKeys else phoneKeys w),
       apiCalls := fold (\<lambda>c x. setStage (ac_id c) (Ended (Some 401)) x)
         (filter (\<lambda>c. ac_stage c = AwaitRefresh) (apiCalls w)) (apiCalls w)\<rparr>"
proof -
  have loop: "fold (\<lambda>c x. moveCall (ac_id c) (Ended (Some 401)) (deleteKeys x)) ds v =
      v\<lparr>phoneKeys := (if ds = [] then phoneKeys v else noKeys),
        apiCalls := fold (\<lambda>c x. setStage (ac_id c) (Ended (Some 401)) x) ds (apiCalls v)\<rparr>"
    for ds and v :: "'a phone_db_scheme"
    by (induction ds arbitrary: v) (simp_all add: moveCall_calls deleteKeys_def)
  have none: "(filter (\<lambda>c. ac_stage c = AwaitRefresh) (apiCalls w) = []) = (\<not> awaited (apiCalls w))"
    by (auto simp: awaited_def filter_empty_conv)
  show ?thesis unfolding settleRefresh_def Let_def option.case loop none by simp
qed

text \<open>The part of the flight, and the part of the login, of the pending tokens.\<close>

definition flightTokens :: "flight option \<Rightarrow> string list" where
  "flightTokens f = (case f of Some (Replied (Some p)) \<Rightarrow> [refreshToken p] | _ \<Rightarrow> [])"

definition loginTokens :: "session option \<Rightarrow> string list" where
  "loginTokens s = (case s of None \<Rightarrow> [] | Some s \<Rightarrow> [refreshToken (se_tokens s)])"

lemma pendingTokens_parts: "pendingTokens w = flightTokens (refreshInFlight w) @ loginTokens (loginReply w)"
  by (simp add: pendingTokens_def flightTokens_def loginTokens_def)

lemma flightTokens_None [simp]: "flightTokens None = []"
  by (simp add: flightTokens_def)

lemma settle_inv:
  assumes inv: "phoneInv env w" and cs: "\<not> awaited cs" "unique ac_id cs"
    and ks: "\<And>t. ks_refreshToken ks = Some t \<Longrightarrow> t \<in> set (flightTokens (refreshInFlight w))"
  shows "phoneInv env (w\<lparr>refreshInFlight := None, phoneKeys := ks, apiCalls := cs\<rparr>)"
proof -
  let ?v = "w\<lparr>refreshInFlight := None, phoneKeys := ks, apiCalls := cs\<rparr>"
  have held: "set (heldTokens ?v) \<subseteq> set (flightTokens (refreshInFlight w))"
    using ks by (auto simp: heldTokens_def split: option.splits)
  have pend: "pendingTokens ?v = loginTokens (loginReply w)" by (simp add: pendingTokens_parts)
  have parts: "set (flightTokens (refreshInFlight w)) \<inter> set (loginTokens (loginReply w)) = {}" "distinct (loginTokens (loginReply w))"
    using inv by (simp_all add: phoneInv_def pendingTokens_parts)
  have old: "\<forall>t \<in> set (flightTokens (refreshInFlight w)) \<union> set (loginTokens (loginReply w)). t \<notin> set (sentRefresh w) \<and> issued env w t"
    using inv unfolding phoneInv_def pendingTokens_parts set_append by blast
  have signs: "signsApart env w" and sent: "distinct (sentRefresh w)" "\<forall>t \<in> set (sentRefresh w). issued env w t"
    using inv unfolding phoneInv_def by blast+
  have same: "issued env ?v t = issued env w t" for t by (simp add: issued_def)
  have "signsApart env ?v" using signs by (simp add: signsApart_def)
  moreover have "set (pendingTokens ?v) \<inter> (set (sentRefresh ?v) \<union> set (heldTokens ?v)) = {}"
    unfolding pend using parts(1) old held by auto
  moreover have "set (heldTokens ?v) \<inter> set (sentRefresh ?v) = {}" using old held by auto
  moreover have "\<forall>t \<in> set (sentRefresh ?v) \<union> set (pendingTokens ?v) \<union> set (heldTokens ?v). issued env ?v t"
    unfolding pend same using sent old held by auto
  ultimately show ?thesis using cs sent(1) parts(2) unfolding phoneInv_def pend by simp
qed

lemma settle_step:
  assumes inv: "phoneInv env w" and fl: "refreshInFlight w = Some f"
    and r: "\<And>p. r = Some p \<Longrightarrow> f = Replied (Some p)"
  shows "phoneInv env (settleRefresh r w)"
proof (cases r)
  case None
  have aw: "awaited (apiCalls w)" and uniq: "unique ac_id (apiCalls w)" using inv fl unfolding phoneInv_def by simp_all
  have run: "settleRefresh None w = w\<lparr>refreshInFlight := None, phoneKeys := noKeys,
       apiCalls := fold (\<lambda>c x. setStage (ac_id c) (Ended (Some 401)) x)
         (filter (\<lambda>c. ac_stage c = AwaitRefresh) (apiCalls w)) (apiCalls w)\<rparr>"
    unfolding settle_None by (simp only: aw if_True)
  show ?thesis unfolding None run
  proof (rule settle_inv [OF inv])
    show "\<not> awaited (fold (\<lambda>c x. setStage (ac_id c) (Ended (Some 401)) x)
         (filter (\<lambda>c. ac_stage c = AwaitRefresh) (apiCalls w)) (apiCalls w))" by (rule settled_all) simp
  qed (simp_all only: settle_ids uniq, simp add: noKeys_def)
next
  case (Some p)
  have f: "f = Replied (Some p)" by (rule r [OF Some])
  have uniq: "unique ac_id (apiCalls w)" using inv unfolding phoneInv_def by simp
  let ?g = "\<lambda>c. SecondTry (if ac_skipAuth c then None else truthy (Some (accessToken p)))"
  show ?thesis unfolding Some settle_Some
  proof (rule settle_inv [OF inv])
    show "\<not> awaited (fold (\<lambda>c x. setStage (ac_id c) (?g c) x)
         (filter (\<lambda>c. ac_stage c = AwaitRefresh) (apiCalls w)) (apiCalls w))" by (rule settled_all) simp
  qed (simp_all only: settle_ids uniq, simp add: fl f flightTokens_def)
qed

lemma phoneInv_drop:
  assumes "phoneInv env w" and "ks_refreshToken ks = None" shows "phoneInv env (w\<lparr>phoneKeys := ks\<rparr>)"
proof -
  have "heldTokens (w\<lparr>phoneKeys := ks\<rparr>) = []" "pendingTokens (w\<lparr>phoneKeys := ks\<rparr>) = pendingTokens w"
    using assms(2) by (simp_all add: heldTokens_def pendingTokens_def)
  moreover have "issued env (w\<lparr>phoneKeys := ks\<rparr>) t = issued env w t" "signsApart env (w\<lparr>phoneKeys := ks\<rparr>) = signsApart env w" for t
    by (simp_all add: issued_def signsApart_def)
  ultimately show ?thesis using assms(1) by (auto simp: phoneInv_def)
qed

lemma phoneInv_calls:
  assumes "phoneInv env w" and "unique ac_id cs" and "awaited cs = awaited (apiCalls w)"
  shows "phoneInv env (w\<lparr>apiCalls := cs\<rparr>)"
proof -
  have "issued env (w\<lparr>apiCalls := cs\<rparr>) t = issued env w t" "signsApart env (w\<lparr>apiCalls := cs\<rparr>) = signsApart env w"
    "heldTokens (w\<lparr>apiCalls := cs\<rparr>) = heldTokens w" "pendingTokens (w\<lparr>apiCalls := cs\<rparr>) = pendingTokens w" for t
    by (simp_all add: issued_def signsApart_def heldTokens_def pendingTokens_def)
  then show ?thesis using assms by (simp add: phoneInv_def)
qed

lemma send_inv:
  assumes inv: "phoneInv env w" and "refreshInFlight w = None" and held: "heldTokens w = [t]"
    and cs: "awaited cs" "unique ac_id cs"
  shows "phoneInv env (w\<lparr>refreshInFlight := Some (OnTheWay t), sentRefresh := sentRefresh w @ [t], apiCalls := cs\<rparr>)"
proof -
  let ?v = "w\<lparr>refreshInFlight := Some (OnTheWay t), sentRefresh := sentRefresh w @ [t], apiCalls := cs\<rparr>"
  have v: "heldTokens ?v = [t]" "pendingTokens ?v = pendingTokens w" "issued env ?v x = issued env w x"
    "signsApart env ?v = signsApart env w" for x
    using assms(2) held by (simp_all add: heldTokens_def pendingTokens_parts flightTokens_def issued_def signsApart_def)
  have t: "t \<notin> set (sentRefresh w)" "t \<notin> set (pendingTokens w)" "issued env w t"
    using inv assms(2) unfolding phoneInv_def held by simp_all
  have "set (pendingTokens w) \<inter> set (sentRefresh w) = {}" using inv unfolding phoneInv_def by blast
  then have "set (pendingTokens ?v) \<inter> (set (sentRefresh ?v) \<union> set (heldTokens ?v)) = {}" unfolding v using t by auto
  moreover have "\<forall>x \<in> set (sentRefresh ?v) \<union> set (pendingTokens ?v) \<union> set (heldTokens ?v). issued env ?v x"
    unfolding v using t inv unfolding phoneInv_def by auto
  moreover have "distinct (sentRefresh ?v)" "distinct (pendingTokens ?v)" "signsApart env ?v"
    unfolding v using t(1) inv unfolding phoneInv_def by simp_all
  ultimately show ?thesis using cs unfolding phoneInv_def by simp
qed

lemma firstReply_step: "phoneInv env w \<Longrightarrow> phoneInv env (firstReply i st w)"
proof (cases "find (\<lambda>c. ac_id c = i) (apiCalls w)")
  case (Some c)
  assume inv: "phoneInv env w"
  have c: "c \<in> set (apiCalls w)" "ac_id c = i" using Some by (auto dest: find_row)
  have uniq: "unique ac_id (apiCalls w)" using inv unfolding phoneInv_def by simp
  show ?thesis
  proof (cases "\<exists>b. ac_stage c = FirstTry b")
    case True
    then obtain b where b: "ac_stage c = FirstTry b" by blast
    have other: "awaited (setStage i x (apiCalls w)) = awaited (apiCalls w)" if "x \<noteq> AwaitRefresh" for x
      using awaited_leave [OF uniq c(1) _ that] b unfolding c(2) by simp
    have aw: "awaited (setStage i AwaitRefresh (apiCalls w))" using awaited_set [OF c(1)] unfolding c(2) .
    have ended: "phoneInv env (w\<lparr>apiCalls := setStage i (Ended st) (apiCalls w)\<rparr>)"
      by (rule phoneInv_calls [OF inv]) (use uniq other [of "Ended st"] in simp_all)
    show ?thesis
    proof (cases "st = Some 401 \<and> \<not> ac_skipAuth c")
      case False
      then have "firstReply i st w = moveCall i (Ended st) w" by (auto simp: firstReply_def Some b)
      then show ?thesis using ended by (simp add: moveCall_calls)
    next
      case on: True
      show ?thesis
      proof (cases "refreshInFlight w = None")
        case False
        then have "firstReply i st w = moveCall i AwaitRefresh w" using on by (simp add: firstReply_def Some b tryRefresh_def)
        moreover obtain f where "refreshInFlight w = Some f" using False by blast
        ultimately show ?thesis using inv aw
          by (simp add: moveCall_calls phoneInv_def signsApart_def pendingTokens_parts heldTokens_def issued_def)
      next
        case idle: True
        show ?thesis
        proof (cases "truthy (ks_refreshToken (phoneKeys w))")
          case None
          then have "firstReply i st w = w\<lparr>apiCalls := setStage i (Ended st) (apiCalls w), phoneKeys := noKeys\<rparr>"
            using on idle by (simp add: firstReply_def Some b tryRefresh_def moveCall_calls deleteKeys_def)
          moreover have "ks_refreshToken noKeys = None" by (simp add: noKeys_def)
          ultimately show ?thesis using phoneInv_drop [OF ended] by simp
        next
          case (Some t)
          have run: "firstReply i st w = w\<lparr>refreshInFlight := Some (OnTheWay t), sentRefresh := sentRefresh w @ [t],
              apiCalls := setStage i AwaitRefresh (apiCalls w)\<rparr>"
            using on idle Some by (simp add: firstReply_def \<open>find _ _ = Some c\<close> b tryRefresh_def moveCall_calls)
          have held: "heldTokens w = [t]" using Some by (auto simp: heldTokens_def truthy_def split: option.splits if_splits)
          show ?thesis unfolding run by (rule send_inv [OF inv idle held aw]) (use uniq in simp)
        qed
      qed
    qed
  next
    case False
    then have "firstReply i st w = w" by (simp add: firstReply_def Some split: callStage.split)
    then show ?thesis using inv by simp
  qed
qed (simp add: firstReply_def)

lemma secondReply_step: "phoneInv env w \<Longrightarrow> phoneInv env (secondReply i st w)"
proof (cases "find (\<lambda>c. ac_id c = i) (apiCalls w)")
  case (Some c)
  assume inv: "phoneInv env w"
  have c: "c \<in> set (apiCalls w)" "ac_id c = i" using Some by (auto dest: find_row)
  have uniq: "unique ac_id (apiCalls w)" using inv unfolding phoneInv_def by simp
  show ?thesis
  proof (cases "\<exists>b. ac_stage c = SecondTry b")
    case True
    then have "awaited (setStage i (Ended st) (apiCalls w)) = awaited (apiCalls w)"
      using awaited_leave [OF uniq c(1), of "Ended st"] unfolding c(2) by auto
    then have "phoneInv env (w\<lparr>apiCalls := setStage i (Ended st) (apiCalls w)\<rparr>)"
      by (intro phoneInv_calls [OF inv]) (use uniq in simp_all)
    then show ?thesis using True by (auto simp: secondReply_def Some moveCall_calls)
  next
    case False
    then have "secondReply i st w = w" by (simp add: secondReply_def Some split: callStage.split)
    then show ?thesis using inv by simp
  qed
qed (simp add: secondReply_def)

lemma start_step: "phoneInv env w \<Longrightarrow> phoneInv env (startRequest i b w)"
proof (cases "i \<in> ac_id ` set (apiCalls w)")
  case False
  assume inv: "phoneInv env w"
  define cs where "cs = apiCalls w @ [\<lparr>ac_id = i, ac_skipAuth = b, ac_stage = FirstTry (bearer b w)\<rparr>]"
  have "unique ac_id cs" "awaited cs = awaited (apiCalls w)" using False inv by (auto simp: cs_def awaited_def phoneInv_def)
  then have "phoneInv env (w\<lparr>apiCalls := cs\<rparr>)" by (rule phoneInv_calls [OF inv])
  then show ?thesis using False by (simp add: startRequest_def cs_def)
qed (simp add: startRequest_def)

lemma arrives_step: "phoneInv env w \<Longrightarrow> phoneInv env (refreshArrives lost w)"
proof (cases "refreshInFlight w")
  case (Some f)
  assume inv: "phoneInv env w"
  show ?thesis
  proof (cases f)
    case (OnTheWay t)
    then show ?thesis using inv settle_step [OF inv Some, of None] by (simp add: refreshArrives_def Some)
  next
    case (Replied r)
    then show ?thesis using settle_step [OF inv Some, of None] settle_step [OF inv Some, of r]
      by (simp add: refreshArrives_def Some)
  qed
qed (simp add: refreshArrives_def)

lemma login_arrives_step:
  assumes inv: "phoneInv env w" shows "phoneInv env (loginArrives lost w)"
proof (cases "loginReply w")
  case (Some s)
  have parts: "refreshToken (se_tokens s) \<notin> set (flightTokens (refreshInFlight w))"
    "refreshToken (se_tokens s) \<notin> set (sentRefresh w)" "issued env w (refreshToken (se_tokens s))"
    using inv by (simp_all add: phoneInv_def pendingTokens_parts Some loginTokens_def)
  let ?v = "w\<lparr>loginReply := None\<rparr>"
  have v: "phoneInv env ?v" using inv
    by (auto simp: phoneInv_def signsApart_def pendingTokens_parts heldTokens_def issued_def loginTokens_def Some)
  let ?u = "setSession (se_userId s) (se_tokens s) ?v"
  have u: "heldTokens ?u = [refreshToken (se_tokens s)]" "pendingTokens ?u = flightTokens (refreshInFlight w)" "sentRefresh ?u = sentRefresh w"
    "apiCalls ?u = apiCalls w" "refreshInFlight ?u = refreshInFlight w" "issued env ?u t = issued env w t" "signsApart env ?u = signsApart env w" for t
    by (simp_all add: setSession_def heldTokens_def pendingTokens_parts loginTokens_def issued_def signsApart_def)
  have "phoneInv env ?u" using v parts unfolding phoneInv_def u
    by (auto simp: pendingTokens_parts loginTokens_def signsApart_def issued_def)
  then show ?thesis using v by (simp add: loginArrives_def Some Let_def)
qed (use inv in \<open>simp add: loginArrives_def\<close>)

lemma phoneStep_inv: "phoneInv env w \<Longrightarrow> phoneInv env (phoneStep env x w)"
proof (cases x)
  case ClearSession
  assume inv: "phoneInv env w"
  have "phoneInv env (w\<lparr>phoneKeys := noKeys\<rparr>)" by (rule phoneInv_drop [OF inv]) (simp add: noKeys_def)
  then show ?thesis
    by (simp add: ClearSession clearSession_def phoneInv_def signsApart_def pendingTokens_def heldTokens_def issued_def)
next
  case Hydrate
  assume "phoneInv env w"
  then show ?thesis
    by (simp add: Hydrate hydrate_def phoneInv_def signsApart_def pendingTokens_def heldTokens_def issued_def)
next
  case (Elsewhere y)
  assume inv: "phoneInv env w"
  have "served w (authStep env y w)" by (rule service.P_step [OF served_refl])
  from phoneInv_served [OF inv this] show ?thesis by (simp add: Elsewhere)
qed (simp_all add: start_step firstReply_step secondReply_step serve_step arrives_step sendLogin_step login_arrives_step)

interpretation phone: invariant_system "phoneStep env" "phoneInv env" for env
  by unfold_locales (rule phoneStep_inv)

section \<open>Properties\<close>

text \<open>
  C17: the phone never replays a refresh token: over any interleaving of its requests, their replies, lost
  messages, logins, sign-outs and what anybody does at the service, no refresh token is sent
  twice (as the service would refuse it the second time); and a request waits for a refresh exactly
  while one is in flight, so that none waits for ever.
\<close>

theorem phone_never_replays:
  assumes "phoneKeys w = noKeys" and "apiCalls w = []" and "refreshInFlight w = None" and "loginReply w = None"
    and "sentRefresh w = []" and "signsApart env w" and "v = fold (phoneStep env) ops w"
  shows "distinct (sentRefresh v) \<and>
    ((\<exists>c \<in> set (apiCalls v). ac_stage c = AwaitRefresh) \<longleftrightarrow> refreshInFlight v \<noteq> None)"
proof -
  have "phoneInv env w" using assms(1-6)
    by (simp add: phoneInv_def pendingTokens_def heldTokens_def noKeys_def awaited_def)
  then have "phoneInv env v" unfolding assms(7) by (rule phone.run_inv)
  then show ?thesis unfolding phoneInv_def awaited_def by blast
qed

section \<open>A sample\<close>

definition samplePhoneEnv :: auth_env where
  "samplePhoneEnv = sampleEnv
     \<lparr>signRefresh := (\<lambda>u j t. j @ ''.'' @ u),
      verifyRefreshJwt := (\<lambda>t s. Some \<lparr>rf_sub = tl (dropWhile (\<lambda>c. c \<noteq> CHR ''.'') s),
        rf_jti = takeWhile (\<lambda>c. c \<noteq> CHR ''.'') s, rf_typ = ''refresh''\<rparr>)\<rparr>"

definition samplePhone :: phone_db where
  "samplePhone = auth_db.extend sampleAuth
     \<lparr>phoneKeys = noKeys, authStore = \<lparr>as_userId = None, as_accessToken = None, as_refreshToken = None, as_isHydrated = True\<rparr>,
      apiCalls = [], refreshInFlight = None, sentRefresh = [], loginReply = None\<rparr>"

lemma samplePhone_start:
  "phoneKeys samplePhone = noKeys" "apiCalls samplePhone = []" "refreshInFlight samplePhone = None"
  "loginReply samplePhone = None" "sentRefresh samplePhone = []" "signsApart samplePhoneEnv samplePhone"
proof -
  have same: "i = j" if "replicate i (CHR ''u'') @ ''.'' @ u = replicate j (CHR ''u'') @ ''.'' @ v" for i j u v
  proof -
    have take: "takeWhile (\<lambda>c. c = CHR ''u'') (replicate k (CHR ''u'') @ ''.'' @ x) = replicate k (CHR ''u'')" for k x
      by (induction k) simp_all
    have "replicate i (CHR ''u'') = replicate j (CHR ''u'')" using arg_cong [OF that, of "takeWhile (\<lambda>c. c = CHR ''u'')"] unfolding take .
    from arg_cong [OF this, of length] show ?thesis by simp
  qed
  have s: "uuidSeq samplePhone = (\<lambda>n. replicate n (CHR ''u''))" "signRefresh samplePhoneEnv = (\<lambda>u j t. j @ ''.'' @ u)"
    by (simp_all add: samplePhoneEnv_def samplePhone_def sampleAuth_def sampleCore_def core_db.defs auth_db.defs)
  show "signsApart samplePhoneEnv samplePhone" unfolding signsApart_def s by (intro allI impI) (erule same)
qed (simp_all add: samplePhone_def auth_db.defs)

text \<open>Two requests meet an expired access token: one refresh serves both.\<close>

definition twoExpired :: "phoneOp list" where
  "twoExpired =
     [SendLogin ''a'' ''pw'' 1, LoginArrives False, StartRequest 1 False, StartRequest 2 False,
      FirstReply 1 (Some 401), FirstReply 2 (Some 401)]"

theorem phone_never_replays_witness:
  "let v = fold (phoneStep samplePhoneEnv) (twoExpired @ [ServeRefresh 2]) samplePhone
   in length (sentRefresh v) = 1 \<and> refreshInFlight v \<noteq> None"
proof -
  let ?v = "fold (phoneStep samplePhoneEnv) (twoExpired @ [ServeRefresh 2]) samplePhone"
  have "length (sentRefresh ?v) = 1 \<and> list_ex (\<lambda>c. ac_stage c = AwaitRefresh) (apiCalls ?v)" by code_simp
  moreover from this have "\<exists>c \<in> set (apiCalls ?v). ac_stage c = AwaitRefresh" by (simp only: list_ex_iff)
  ultimately show ?thesis
    using phone_never_replays [OF samplePhone_start refl, of "twoExpired @ [ServeRefresh 2]"] unfolding Let_def by blast
qed

lemma both_resume:
  "map ac_stage (apiCalls (fold (phoneStep samplePhoneEnv) (twoExpired @ [ServeRefresh 2, RefreshArrives False]) samplePhone)) =
     [SecondTry (Some ''a''), SecondTry (Some ''a'')]"
  by code_simp

section \<open>What the client does not guard against\<close>

text \<open>A sign-out while a refresh is in flight: its answer puts tokens back into the storage.\<close>

lemma sign_out_undone:
  "ks_refreshToken (phoneKeys (fold (phoneStep samplePhoneEnv)
     (twoExpired @ [ServeRefresh 2, ClearSession, RefreshArrives False]) samplePhone)) = Some ''u.a''"
  by code_simp

text \<open>A login while a refresh fails: the tokens of the new session are deleted.\<close>

lemma login_thrown_away:
  "phoneKeys (fold (phoneStep samplePhoneEnv)
     (twoExpired @ [SendLogin ''b'' ''qw'' 3, LoginArrives False, RefreshArrives True]) samplePhone) = noKeys"
  by code_simp

text \<open>One lost answer ends the session in the storage, and the store still shows the user as signed in.\<close>

lemma signed_in_without_tokens:
  "(let v = fold (phoneStep samplePhoneEnv) (twoExpired @ [RefreshArrives True]) samplePhone
    in isAuthenticated v \<and> phoneKeys v = noKeys)"
  by code_simp

text \<open>Signing out stays on the phone: the refresh token is still good at the service.\<close>

lemma sign_out_keeps_token:
  "(case fst (refresh samplePhoneEnv ''.a'' 5 (fold (phoneStep samplePhoneEnv)
      [SendLogin ''a'' ''pw'' 1, LoginArrives False, ClearSession] samplePhone)) of
      Inl e \<Rightarrow> False | Inr p \<Rightarrow> True)"
  by code_simp

end
