(* ===== verification/Spec2Isabelle.thy ===== *)
theory Spec2Isabelle
  imports Posts Party Community Event Messaging Emergency Gamification Auth Interplay
    Location Account Flags Moderation Media Stories Garage Push Guards Party_Client Chat_Gateway
    Emergency_Gateway Gamification_Gateway Dashboard Mobile_Session
begin

text \<open>
  Motogram: the services of the API under \<open>src/apps/api/src/modules\<close>, a social network for
  motorcycle riders. The API is a NestJS application over PostgreSQL (through Prisma), Redis
  and an event bus. Its core logic sits in the services: they check who may do what, write
  several tables in step, mirror part of the state in Redis, keep cached counters, run small
  state machines (invitations, memberships, participations, alerts, quests, tokens) and emit
  events that other services consume. This development models those services and proves what
  makes them correct.

  \<^bold>\<open>Theories and the code they model\<close>

  \<^item> \<open>Prelude\<close>: identifiers, failures, the sequencing of handlers, tables, pages, and the
    locales \<open>invariant_system\<close> (an invariant kept by every operation, over any history) and
    \<open>counter_cache\<close> (a column that counts rows).
  \<^item> \<open>Redis_Store\<close>: \<open>redis/redis.service.ts\<close>: counters with expiry, string keys, sets, sorted
    sets; the locales \<open>rate_window\<close> and \<open>session_store\<close>.
  \<^item> \<open>Core_Db\<close>: the shared tables (\<open>prisma/schema.prisma\<close>) and the event bus.
  \<^item> \<open>Notifications\<close>: \<open>notifications.service.ts\<close>; the locale \<open>notifier\<close>.
  \<^item> \<open>Pagination\<close>: the cursor pages that the listings share; \<open>Text_Search\<close>: the text filters.
  \<^item> \<open>Social\<close>: \<open>follows.service.ts\<close>, \<open>blocks.service.ts\<close>.
  \<^item> \<open>Posts\<close>: \<open>posts.service.ts\<close>, \<open>likes.service.ts\<close>, \<open>comments.service.ts\<close>.
  \<^item> \<open>Leader_Election\<close>, \<open>Party\<close>: \<open>party/leader-election.service.ts\<close>, \<open>party.service.ts\<close>,
    \<open>party-cleanup.service.ts\<close>.
  \<^item> \<open>Community\<close>: \<open>community.service.ts\<close>; \<open>Event\<close>: \<open>event.service.ts\<close>.
  \<^item> \<open>Messaging\<close>: \<open>conversation.service.ts\<close>, \<open>message.service.ts\<close>.
  \<^item> \<open>Emergency\<close>: \<open>emergency.service.ts\<close>, \<open>emergency-contacts.service.ts\<close>.
  \<^item> \<open>Utc_Calendar\<close>, \<open>Gamification\<close>: \<open>gamification.service.ts\<close> and the date arithmetic it uses.
  \<^item> \<open>Auth\<close>: \<open>auth.service.ts\<close>, \<open>token.service.ts\<close>.
  \<^item> \<open>Location\<close>: \<open>location.service.ts\<close>, \<open>location.constants.ts\<close>, the handlers of
    \<open>location.controller.ts\<close>, \<open>map.service.ts\<close>, on the state of \<open>Party\<close>.
  \<^item> \<open>Account\<close>: \<open>account.service.ts\<close>, \<open>deletion.queue.ts\<close>, \<open>retention.worker.ts\<close>, on the state of
    \<open>Auth\<close>; \<open>Users\<close>: \<open>users.service.ts\<close> with the rules of user names; \<open>Moderation\<close>:
    \<open>reports.service.ts\<close>, \<open>admin.service.ts\<close>.
  \<^item> \<open>Flags\<close>: \<open>feature-flag.service.ts\<close>, \<open>ab-test.service.ts\<close>.
  \<^item> \<open>Job_Queue\<close>: the BullMQ queues; \<open>Media\<close>: \<open>media.service.ts\<close>, \<open>media.queue.ts\<close>,
    \<open>sharp.processor.ts\<close>, \<open>media.constants.ts\<close>.
  \<^item> \<open>Stories\<close>: \<open>stories.service.ts\<close>; \<open>Garage\<close>: \<open>motorcycles.service.ts\<close>; \<open>Push\<close>: \<open>push.service.ts\<close>,
    \<open>expo-push.dispatcher.ts\<close>.
  \<^item> \<open>Guards\<close>: \<open>auth/jwt-auth.guard.ts\<close>, \<open>common/guards\<close>, the handshake of the gateways,
    \<open>common/filters/global-exception.filter.ts\<close>.
  \<^item> \<open>Sockets\<close>: the rooms and the inboxes of the sockets of a namespace, as socket.io documents
    them; the locales \<open>room_policy\<close> (only those who were members are in a room and hear it) and
    \<open>user_feed\<close> (each broadcast reaches the devices of the users it is addressed to, and no other).
  \<^item> \<open>Party_Events\<close>: what the party service tells its emitter, and that it is enough to follow a
    party; \<open>Party_Gateway\<close>: \<open>party/location.gateway.ts\<close> and \<open>common/fanout\<close>, with the locale
    \<open>gateway_relation\<close> that carries a relation between states through every handler.
  \<^item> \<open>Party_Client\<close>: the store and the hook of the party screen of the mobile application
    (\<open>store/party.store.ts\<close>, \<open>hooks/useParty.ts\<close>).
  \<^item> \<open>Mobile_Session\<close>: the session of the mobile application (\<open>lib/api-client.ts\<close>,
    \<open>store/auth.store.ts\<close>) with its single refresh in flight, against \<open>Auth\<close>.
  \<^item> \<open>Chat_Gateway\<close>: \<open>messaging/messaging.gateway.ts\<close>; \<open>Emergency_Gateway\<close>, \<open>Gamification_Gateway\<close>:
    \<open>emergency/emergency.gateway.ts\<close>, \<open>gamification/gamification.gateway.ts\<close>.
  \<^item> \<open>Dashboard\<close>: \<open>AdminService.dashboardSnapshot\<close>, over the tables of ten services.
  \<^item> \<open>Interplay\<close>: properties that span services.

  \<^bold>\<open>How the code is modelled\<close>

  A service is a group of definitions, one per method, named as in the source. The state is a
  record: \<open>core_db\<close> holds what services share, and each service extends it with its own
  tables (\<open>post_db\<close>, \<open>party_db\<close>, \<open>community_db\<close>, \<open>messaging_db\<close>, and so on), so an operation on
  the shared part, such as \<open>notify\<close> or \<open>blockUser\<close>, acts on every service's state. A table is
  the list of its rows in insertion order; primary keys, unique indexes and foreign keys of
  the schema fail as they do in the database. A method takes the state and returns an
  outcome: a failure (an HTTP exception with its code, or an error of the database client) or
  a result, together with the state it leaves. Writes before a throw stay, unless they are
  inside \<open>$transaction\<close>. What leaves the process (WebSocket emissions, push messages, mails,
  text messages) is recorded in lists of the state. Identifiers are strings drawn from a
  supply of uuids, times are integers in milliseconds, and a handler reads the clock once.
  Floating-point coordinates are rational numbers; strings have 8-bit characters.

  Code that is not under \<open>src/\<close> is a parameter: bcrypt, sha256, the JWT library and the identity
  providers (\<open>auth_env\<close>), the case folding of the database, the distance and the cells of the
  Redis GEO index (\<open>geo_env\<close>), SHA-1, \<open>localeCompare\<close>, \<open>toISOString\<close>, the image library and the
  signed links (\<open>media_env\<close>). Whether a queue can be reached is an argument of the call, which
  calls of the object store fail an argument of each attempt. Hypotheses on them state documented behaviour: a token carries
  one payload, a uuid is drawn once and holds no colon.

  Every component has a datatype of its operations and a step function; a history is a fold
  of steps, failed ones included. Invariants are proved for one step and carried over
  histories by the interpretation of \<open>invariant_system\<close>. Where an invariant reads only part of
  the state, the operations are first shown to be moves of a small relation on that view
  (\<open>chatMove\<close>, \<open>sosMove\<close>, \<open>authMove\<close>), and the invariant is proved over the moves.

  \<^bold>\<open>What is proved\<close>

  \<^item> Sessions and credentials: a refresh token works once, over any later history; a reset
    token works once; new credentials end exactly the user's own sessions; five wrong guesses
    lock a one-time code.
  \<^item> Social graph: a block severs follows and silences messaging for good; follow counters
    equal the rows they count, up to the drift stated there; feeds and listings page
    completely and without repetition, and hide blocked authors.
  \<^item> Cached counters: likes, comments, posts, members and participants equal the rows they
    count after any history (\<open>counter_cache\<close>).
  \<^item> Parties: tables and Redis mirror each other, the leader is handed over by the election
    rule, elections exclude each other, the sweep removes exactly the expired, admission and
    invitations follow the rules.
  \<^item> Communities and events: who may become a member; the RSVP refines an abstract waiting
    line, and capacity is kept.
  \<^item> Messaging: one direct conversation per pair, idempotent sends, guarded sends.
  \<^item> Emergency: the life of an alert and its acknowledgements; whom an SOS reaches, down to the
    connected devices; nobody else hears of an alert.
  \<^item> Gamification: one-shot quests pay once, also over runs that fail, and show one toast on a device, levels follow the formula, XP is accounted for,
    resets fall on the next period, the integer level equals the real formula.
  \<^item> Location: the map shows a rider only to those whom the sharing mode, the follows, the
    blocks or a shared party entitle; switching off hides; the sweep is exact.
  \<^item> Accounts: an account is marked deleted exactly while its deletion is pending, a login takes
    it back, the hourly batch deletes nobody early and forgets nobody; a changed user name
    stays for thirty days; a ban locks out of every way to a session, and the role, the ban and
    the shadow ban of an account are what the audit log replays to.
  \<^item> Flags: the stored hash reads back as written, variants split users by weight, an
    assignment sticks.
  \<^item> Media: every finalized upload ends after three attempts, what is ready has its images in the
    store under the keys of its category, and stays.
  \<^item> Stories, garage, push: views are exact, one primary motorcycle, a device token follows its
    owner, for messages to one user and to several.
  \<^item> The edge: routes with roles run for the roles only; a signed internal call is accepted once;
    rooms of parties and conversations hold and inform only those with a row, over any history of
    requests, sockets and replicas; a new message reaches every other participant, and its push
    those who have not muted it.
  \<^item> Client and server: the phone's party store shows the leader and the members that the tables
    have, after any history in which its socket stays (\<open>client_mirrors_server\<close>: the detail is fetched
    while the socket is in the room; the findings say what is lost between the fetch and the join). The
    phone sends no refresh token twice, however its requests, replies and logins interleave.

  \<^bold>\<open>Loops and bounds\<close>

  Loops over rows are structural recursion (\<open>for_each\<close>, folds). The year search of
  \<open>Utc_Calendar\<close> and the integer root of \<open>Gamification\<close> have termination proofs. The candidate
  names of an OAuth sign-up are tried 8 times, as in the code. The decimal numerals of \<open>Flags\<close>
  have a termination proof; \<open>upload_settles\<close> bounds the attempts of a job, \<open>retention_completes\<close>
  the hourly runs that clear a backlog. No definition takes fuel.

  \<^bold>\<open>Not modelled\<close>

  A handler of the service is atomic: interleavings inside one handler, such as two refreshes of one token
  at the same instant, are outside the model. Failures of connections and log lines are left
  out. A namespace is one list of sockets; that the Redis adapter carries emissions between
  replicas is taken for granted.
  The throttler of all routes (429) is not among the guards. A handler reads one clock: the time of a
  row's insertion is the time of the checks before it.
  Controllers (routing of a validated body to a service), the queues of mails and text messages
  and the metrics are transport; the OpenAPI types are generated; of the mobile application only
  the logic of the session and of the party screen is modelled, of the administration's web client nothing: they are
  screens over the API.
\<close>

end
